(* ===== verification/Prelude.thy ===== *)
theory Prelude
  imports Main "HOL-Library.AList" "HOL-Library.List_Lexorder"
begin

text \<open>
  Shared vocabulary of the development.

  \<^item> Python \<open>str\<close> values are lists of code points (\<open>pystr\<close>), so that \<open>len\<close> and slices
    count what Python counts; \<open>py ''abc''\<close> is an ASCII literal.
  \<^item> Python \<open>dict\<close>s are insertion ordered: association lists read with \<open>map_of\<close>, written
    with \<open>AList.update\<close> (in place, or appended at the end), popped with \<open>AList.delete\<close>.  An
    object stored in a dict is mutated with \<open>d_modify\<close>.  The laws the clients use are the
    interface \<open>py_dict\<close>, interpreted on these operations at the end of the theory.
  \<^item> Python integers are \<open>int\<close>; \<open>str(int)\<close> is \<open>int_str\<close>, proved injective because node ids
    are formatted from counters.
  \<^item> An operation that may raise returns \<open>exn + 'a\<close>.
\<close>

named_theorems py_simps \<open>evaluation rules of the string and dict layer\<close>
named_theorems status_defs \<open>definitions of the status sets\<close>

section \<open>Strings\<close>

type_synonym pystr = "nat list"

definition py :: "string \<Rightarrow> pystr" where
  "py s = map of_char s"

lemma py_eq_iff [simp]: "py a = py b \<longleftrightarrow> a = b"
  unfolding py_def by (rule inj_map_eq_map) (simp add: inj_def)

lemma py_eq_Nil [simp]: "py a = [] \<longleftrightarrow> a = []" "[] = py a \<longleftrightarrow> a = []"
  by (auto simp: py_def)

lemma py_Nil [simp]: "py [] = []"
  by (simp add: py_def)

abbreviation nl :: pystr where "nl \<equiv> [10]"

text \<open>\<open>sep.join(xs)\<close>.\<close>

fun str_join :: "pystr \<Rightarrow> pystr list \<Rightarrow> pystr" where
  "str_join sep [] = []"
| "str_join sep [x] = x"
| "str_join sep (x # y # xs) = x @ sep @ str_join sep (y # xs)"

text \<open>\<open>str.isspace\<close> for one code point, and \<open>str.strip()\<close>.\<close>

definition is_space :: "nat \<Rightarrow> bool" where
  "is_space c \<longleftrightarrow> (9 \<le> c \<and> c \<le> 13) \<or> (28 \<le> c \<and> c \<le> 32) \<or> c = 133 \<or> c = 160 \<or> c = 5760
     \<or> (8192 \<le> c \<and> c \<le> 8202) \<or> c = 8232 \<or> c = 8233 \<or> c = 8239 \<or> c = 8287 \<or> c = 12288"

definition str_strip :: "pystr \<Rightarrow> pystr" where
  "str_strip s = rev (dropWhile is_space (rev (dropWhile is_space s)))"

lemma str_strip_Nil [simp]: "str_strip [] = []"
  by (simp add: str_strip_def)

text \<open>\<open>repr\<close> of a string without quotes, backslashes or control characters, and of a list of them.\<close>

definition str_repr :: "pystr \<Rightarrow> pystr" where
  "str_repr s = [39] @ s @ [39]"

definition str_list_repr :: "pystr list \<Rightarrow> pystr" where
  "str_list_repr xs = py ''['' @ str_join (py '', '') (map str_repr xs) @ py '']''"

text \<open>\<open>str(n)\<close> for Python integers.\<close>

fun nat_str :: "nat \<Rightarrow> pystr" where
  "nat_str n = (if n < 10 then [48 + n] else nat_str (n div 10) @ [48 + n mod 10])"

declare nat_str.simps [simp del]

definition int_str :: "int \<Rightarrow> pystr" where
  "int_str i = (if i < 0 then 45 # nat_str (nat (- i)) else nat_str (nat i))"

definition is_digit :: "nat \<Rightarrow> bool" where
  "is_digit c \<longleftrightarrow> 48 \<le> c \<and> c \<le> 57"

lemma nat_str_neq_Nil [simp]: "nat_str n \<noteq> []"
  by (subst nat_str.simps) simp

lemma nat_str_digits: "\<forall>c \<in> set (nat_str n). is_digit c"
proof (induction n rule: nat_str.induct)
  case (1 n)
  then show ?case by (subst nat_str.simps) (auto simp: is_digit_def)
qed

text \<open>The value of a digit string; \<open>nat_str\<close> is injective because it has this left inverse.\<close>

definition digits_value :: "pystr \<Rightarrow> nat" where
  "digits_value s = foldl (\<lambda>acc c. acc * 10 + (c - 48)) 0 s"

lemma digits_value_nat_str [simp]: "digits_value (nat_str n) = n"
proof (induction n rule: nat_str.induct)
  case (1 n)
  then show ?case by (subst nat_str.simps) (auto simp: digits_value_def)
qed

lemma nat_str_inject [simp]: "nat_str m = nat_str n \<longleftrightarrow> m = n"
  by (metis digits_value_nat_str)

lemma nat_str_hd_digit: "is_digit (hd (nat_str n))"
  using nat_str_digits [of n] by (simp add: list.set_sel(1))

lemma int_str_inject [simp]: "int_str i = int_str j \<longleftrightarrow> i = j"
proof -
  have "hd (nat_str n) \<noteq> 45" for n
    using nat_str_hd_digit [of n] by (auto simp: is_digit_def)
  then have "45 # nat_str m \<noteq> nat_str n" "nat_str n \<noteq> 45 # nat_str m" for m n
    by (metis list.sel(1))+
  then show ?thesis by (auto simp: int_str_def)
qed

section \<open>Exceptions\<close>

text \<open>The exception classes of the modelled modules, with the message text they carry.  \<open>Untyped\<close> is not
  an exception: it marks inputs outside the typed fragment, on which the dynamically typed code goes on
  with a value of another type.\<close>

datatype exn =
    InvalidTransition pystr
  | PlanValidationError pystr
  | PlanningFailed pystr pystr
  | FlowError pystr
  | ValueError pystr
  | TypeError
  | KeyError pystr
  | AttributeError
  | IndexError
  | RewindUnavailable pystr
  | UnknownAgentError pystr
  | DuplicateAgentName pystr
  | AgentCardResolutionError pystr
  | ParseError pystr
  | IntegrityError
  | GraphValidationError pystr
  | WorkflowError pystr
  | WorkflowInvariantError pystr
  | HTTPException nat pystr
  | Untyped

text \<open>Sequencing of operations that may raise: the first exception wins.\<close>

definition ebind :: "'e + 'a \<Rightarrow> ('a \<Rightarrow> 'e + 'b) \<Rightarrow> 'e + 'b" where
  "ebind m f = (case m of Inl e \<Rightarrow> Inl e | Inr a \<Rightarrow> f a)"

lemma ebind_simps [simp]: "ebind (Inl e) f = Inl e" "ebind (Inr a) f = f a"
  by (simp_all add: ebind_def)

lemma ebind_eq_Inr: "ebind m f = Inr b \<longleftrightarrow> (\<exists>a. m = Inr a \<and> f a = Inr b)"
  by (cases m) auto

lemma ebind_cong [fundef_cong]: "m = m' \<Longrightarrow> (\<And>a. m' = Inr a \<Longrightarrow> f a = g a) \<Longrightarrow> ebind m f = ebind m' g"
  by (cases m') auto

text \<open>\<open>for x in xs: acc = f(acc, x)\<close> where the body may raise.\<close>

fun efold :: "('a \<Rightarrow> 'b \<Rightarrow> 'e + 'b) \<Rightarrow> 'a list \<Rightarrow> 'b \<Rightarrow> 'e + 'b" where
  "efold f [] b = Inr b"
| "efold f (x # xs) b = ebind (f x b) (efold f xs)"

lemma efold_invariant:
  assumes "efold f xs b = Inr b'" and "P b"
    and "\<And>x b b'. x \<in> set xs \<Longrightarrow> P b \<Longrightarrow> f x b = Inr b' \<Longrightarrow> P b'"
  shows "P b'"
  using assms
proof (induction xs arbitrary: b)
  case (Cons x xs)
  then obtain c where "f x b = Inr c" "efold f xs c = Inr b'"
    by (auto simp: ebind_eq_Inr)
  with Cons show ?case by (metis list.set_intros)
qed simp

fun emap :: "('a \<Rightarrow> 'e + 'b) \<Rightarrow> 'a list \<Rightarrow> 'e + 'b list" where
  "emap f [] = Inr []"
| "emap f (x # xs) = ebind (f x) (\<lambda>y. ebind (emap f xs) (\<lambda>ys. Inr (y # ys)))"

lemma emap_total: "(\<And>x. x \<in> set xs \<Longrightarrow> f x = Inr (g x)) \<Longrightarrow> emap f xs = Inr (map g xs)"
  by (induction xs) auto

section \<open>Dicts\<close>

type_synonym ('k, 'v) dict = "('k \<times> 'v) list"

abbreviation d_keys :: "('k, 'v) dict \<Rightarrow> 'k list" where "d_keys d \<equiv> map fst d"
abbreviation d_values :: "('k, 'v) dict \<Rightarrow> 'v list" where "d_values d \<equiv> map snd d"
abbreviation d_has :: "('k, 'v) dict \<Rightarrow> 'k \<Rightarrow> bool" where "d_has d k \<equiv> k \<in> set (d_keys d)"

text \<open>Mutation of the object stored under a key (nothing happens when the key is absent).\<close>

definition d_modify :: "'k \<Rightarrow> ('v \<Rightarrow> 'v) \<Rightarrow> ('k, 'v) dict \<Rightarrow> ('k, 'v) dict" where
  "d_modify k f d = map (\<lambda>(k', v). (k', if k' = k then f v else v)) d"

text \<open>Mutation of every stored object, as a \<open>for v in d.values()\<close> loop does.\<close>

definition d_map :: "('v \<Rightarrow> 'v) \<Rightarrow> ('k, 'v) dict \<Rightarrow> ('k, 'v) dict" where
  "d_map f d = map (\<lambda>(k, v). (k, f v)) d"

text \<open>\<open>d.setdefault(k, default)\<close> for its effect on the dict.\<close>

definition d_setdefault :: "'k \<Rightarrow> 'v \<Rightarrow> ('k, 'v) dict \<Rightarrow> ('k, 'v) dict" where
  "d_setdefault k v d = (if d_has d k then d else d @ [(k, v)])"

text \<open>\<open>list(dict.fromkeys(xs))\<close>: the first occurrences, in order.\<close>

fun dedup_from :: "'a list \<Rightarrow> 'a list \<Rightarrow> 'a list" where
  "dedup_from seen [] = []"
| "dedup_from seen (x # xs) = (if x \<in> set seen then dedup_from seen xs
     else x # dedup_from (x # seen) xs)"

definition fromkeys :: "'a list \<Rightarrow> 'a list" where
  "fromkeys xs = dedup_from [] xs"

lemma set_dedup_from: "set (dedup_from seen xs) = set xs - set seen"
  by (induction seen xs rule: dedup_from.induct) auto

lemma distinct_dedup_from [simp]: "distinct (dedup_from seen xs)"
  by (induction seen xs rule: dedup_from.induct) (auto simp: set_dedup_from)

lemma set_fromkeys [simp]: "set (fromkeys xs) = set xs"
  by (simp add: fromkeys_def set_dedup_from)

lemma distinct_fromkeys [simp]: "distinct (fromkeys xs)"
  by (simp add: fromkeys_def)

lemma d_modify_keys [simp]: "d_keys (d_modify k f d) = d_keys d"
  by (auto simp: d_modify_def case_prod_beta)

lemma d_map_keys [simp]: "d_keys (d_map f d) = d_keys d"
  by (auto simp: d_map_def case_prod_beta)

lemma d_map_values [simp]: "d_values (d_map f d) = map f (d_values d)"
  by (auto simp: d_map_def case_prod_beta)

lemma map_of_d_map [simp]: "map_of (d_map f d) k = map_option f (map_of d k)"
  by (simp add: d_map_def map_of_map)

lemma map_of_d_modify [simp]:
  "map_of (d_modify k f d) k' = (if k' = k then map_option f (map_of d k') else map_of d k')"
  by (induction d) (auto simp: d_modify_def)

lemma d_keys_update: "d_keys (AList.update k v d) = (if d_has d k then d_keys d else d_keys d @ [k])"
  by (induction d) auto

lemma update_absent: "\<not> d_has d k \<Longrightarrow> AList.update k v d = d @ [(k, v)]"
  by (induction d) auto

lemma d_has_iff: "d_has d k \<longleftrightarrow> map_of d k \<noteq> None"
  by (simp add: map_of_eq_None_iff)

lemma d_setdefault_keys: "d_keys (d_setdefault k v d) = (if d_has d k then d_keys d else d_keys d @ [k])"
  by (simp add: d_setdefault_def)

lemma map_of_d_setdefault: "map_of (d_setdefault k v d) j = (if j = k \<and> map_of d k = None then Some v else map_of d j)"
  using map_of_eq_None_iff [of d k] by (auto simp: d_setdefault_def map_add_def split: option.splits)

lemma distinct_setdefault: "distinct (d_keys d) \<Longrightarrow> distinct (d_keys (d_setdefault k v d))"
  by (auto simp: d_setdefault_def)

lemma map_of_SomeD_value: "map_of d k = Some v \<Longrightarrow> v \<in> set (d_values d)"
  using map_of_SomeD [of d k v] by force

lemma distinct_keys_map_of: "distinct (d_keys d) \<Longrightarrow> (k, v) \<in> set d \<Longrightarrow> map_of d k = Some v"
  by simp

lemma d_values_ex_key: "v \<in> set (d_values d) \<Longrightarrow> \<exists>k. (k, v) \<in> set d"
  by force

text \<open>
  The interface the components rely on: an insertion-ordered mapping.  \<open>order\<close> is the key
  order, \<open>get\<close> the lookup; \<open>put\<close> keeps the position of a present key and appends a new one.
\<close>

locale py_dict =
  fixes get :: "'d \<Rightarrow> 'k \<Rightarrow> 'v option"
    and put :: "'k \<Rightarrow> 'v \<Rightarrow> 'd \<Rightarrow> 'd"
    and pop :: "'k \<Rightarrow> 'd \<Rightarrow> 'd"
    and order :: "'d \<Rightarrow> 'k list"
    and wf :: "'d \<Rightarrow> bool"
  assumes get_put: "get (put k v d) k' = (if k' = k then Some v else get d k')"
    and get_pop: "get (pop k d) k' = (if k' = k then None else get d k')"
    and order_put: "order (put k v d) = (if k \<in> set (order d) then order d else order d @ [k])"
    and order_pop: "order (pop k d) = filter (\<lambda>k'. k' \<noteq> k) (order d)"
    and order_get: "k \<in> set (order d) \<longleftrightarrow> get d k \<noteq> None"
    and wf_distinct: "wf d \<longleftrightarrow> distinct (order d)"
begin

lemma wf_put: "wf d \<Longrightarrow> wf (put k v d)"
  by (simp add: wf_distinct order_put)

lemma wf_pop: "wf d \<Longrightarrow> wf (pop k d)"
  by (simp add: wf_distinct order_pop)

lemma put_same_order: "get d k \<noteq> None \<Longrightarrow> order (put k v d) = order d"
  by (simp add: order_put order_get)

lemma put_new_last: "get d k = None \<Longrightarrow> order (put k v d) = order d @ [k]"
  by (simp add: order_put order_get)

lemma pop_put_absent: "get d k = None \<Longrightarrow> order (pop k (put k v d)) = order d"
  by (simp add: order_put order_pop order_get filter_id_conv) (metis order_get)

end

definition dict_wf :: "('k, 'v) dict \<Rightarrow> bool" where
  "dict_wf d \<longleftrightarrow> distinct (d_keys d)"

lemma d_keys_delete: "d_keys (AList.delete k d) = filter (\<lambda>k'. k' \<noteq> k) (d_keys d)"
  by (induction d) auto

interpretation pd: py_dict "map_of" "AList.update" "AList.delete" "map fst" "dict_wf"
proof unfold_locales
  fix k k' :: 'k and v :: 'v and d :: "('k \<times> 'v) list"
  show "map_of (AList.update k v d) k' = (if k' = k then Some v else map_of d k')"
    by (simp add: update_conv')
  show "map_of (AList.delete k d) k' = (if k' = k then None else map_of d k')"
    by (simp add: delete_conv')
  show "d_keys (AList.update k v d) = (if d_has d k then d_keys d else d_keys d @ [k])"
    by (rule d_keys_update)
  show "d_keys (AList.delete k d) = filter (\<lambda>k'. k' \<noteq> k) (d_keys d)"
    by (rule d_keys_delete)
  show "d_has d k \<longleftrightarrow> map_of d k \<noteq> None"
    by (rule d_has_iff)
  show "dict_wf d \<longleftrightarrow> distinct (d_keys d)"
    by (simp add: dict_wf_def)
qed

lemmas dict_laws = pd.get_put pd.get_pop pd.order_put pd.order_pop

end
