(* ===== verification/State.thy ===== *)
theory State
  imports Prelude "HOL-Library.Multiset"
begin

text \<open>
  The orchestration state of \<open>choirworks/orchestration/state.py\<close>: enums, dataclasses, the
  queries the scheduler and the flows read, and the transitions that are not status changes
  (members, interventions, the message queue, a new plan).

  A node is addressed by its id: Python passes the \<open>NodeState\<close> object stored in
  \<open>state.nodes\<close>, the model the key and the dict.  \<open>uuid.uuid4().hex\<close> and \<open>now_iso()\<close> are
  arguments (\<open>new_id\<close>, \<open>now\<close>).
\<close>

section \<open>Enums\<close>

datatype NodeStatus = PENDING | READY | SUBMITTED | WORKING | INPUT_REQUIRED | RECOVER
  | COMPLETED | FAILED | CANCELED | INVALIDATED

datatype InterventionStatus = IV_PENDING | IV_RESOLVED | IV_EXPIRED

datatype InterventionKind = QUESTION | CONFIRM_CANCEL

datatype QuestionType = Q_INPUT | Q_SELECT | Q_CONFIRM

text \<open>The values of the \<open>StrEnum\<close>s, as they appear in JSON and in messages.\<close>

fun node_status_str :: "NodeStatus \<Rightarrow> pystr" where
  "node_status_str PENDING = py ''pending''"
| "node_status_str READY = py ''ready''"
| "node_status_str SUBMITTED = py ''submitted''"
| "node_status_str WORKING = py ''working''"
| "node_status_str INPUT_REQUIRED = py ''input_required''"
| "node_status_str RECOVER = py ''recover''"
| "node_status_str COMPLETED = py ''completed''"
| "node_status_str FAILED = py ''failed''"
| "node_status_str CANCELED = py ''canceled''"
| "node_status_str INVALIDATED = py ''invalidated''"

fun intervention_status_str :: "InterventionStatus \<Rightarrow> pystr" where
  "intervention_status_str IV_PENDING = py ''pending''"
| "intervention_status_str IV_RESOLVED = py ''resolved''"
| "intervention_status_str IV_EXPIRED = py ''expired''"

fun intervention_kind_str :: "InterventionKind \<Rightarrow> pystr" where
  "intervention_kind_str QUESTION = py ''question''"
| "intervention_kind_str CONFIRM_CANCEL = py ''confirm_cancel''"

fun question_type_str :: "QuestionType \<Rightarrow> pystr" where
  "question_type_str Q_INPUT = py ''input''"
| "question_type_str Q_SELECT = py ''select''"
| "question_type_str Q_CONFIRM = py ''confirm''"

definition TERMINAL_NODE_STATUSES :: "NodeStatus set" where [status_defs]:
  "TERMINAL_NODE_STATUSES = {COMPLETED, FAILED, CANCELED, INVALIDATED}"

definition ACTIVE_NODE_STATUSES :: "NodeStatus set" where [status_defs]:
  "ACTIVE_NODE_STATUSES = {SUBMITTED, WORKING}"

definition PENDING_NODE_STATUSES :: "NodeStatus set" where [status_defs]:
  "PENDING_NODE_STATUSES = {PENDING, READY, RECOVER}"

definition INPUT_NODE_STATUSES :: "NodeStatus set" where [status_defs]:
  "INPUT_NODE_STATUSES = {INPUT_REQUIRED}"

definition MAX_METADATA_OUTPUT :: nat where
  "MAX_METADATA_OUTPUT = 2000"

section \<open>Dataclasses\<close>

record NodeState =
  n_id :: pystr
  n_name :: pystr
  n_agent_name :: pystr
  n_status :: NodeStatus
  n_attempt :: int
  n_a2a_task_id :: "pystr option"
  n_output :: "pystr option"
  n_error :: "pystr option"
  n_deps :: "pystr list"
  n_input_text :: pystr
  n_derived :: bool
  n_question :: "pystr option"
  n_answer_text :: "pystr option"
  n_answer_from :: "pystr option"
  n_assist_requested_by :: "pystr option"
  n_adopted_helpers :: "pystr list"

text \<open>\<open>NodeState(id=..., name=..., agent_name=...)\<close> with the dataclass defaults.\<close>

definition new_node :: "pystr \<Rightarrow> pystr \<Rightarrow> pystr \<Rightarrow> NodeState" where
  "new_node nid name agent = \<lparr>n_id = nid, n_name = name, n_agent_name = agent, n_status = PENDING,
     n_attempt = 0, n_a2a_task_id = None, n_output = None, n_error = None, n_deps = [],
     n_input_text = [], n_derived = False, n_question = None, n_answer_text = None,
     n_answer_from = None, n_assist_requested_by = None, n_adopted_helpers = []\<rparr>"

record Member =
  m_name :: pystr
  m_reason :: pystr
  m_joined_at :: pystr

datatype answer = AnsStr pystr | AnsList "pystr list" | AnsBool bool

record Intervention =
  iv_id :: pystr
  iv_node_id :: pystr
  iv_question :: pystr
  iv_status :: InterventionStatus
  iv_answer :: "answer option"
  iv_responder :: "pystr option"
  iv_kind :: InterventionKind
  iv_question_type :: QuestionType
  iv_options :: "pystr list"
  iv_multi :: bool
  iv_requester :: pystr
  iv_created_at :: pystr
  iv_announced :: bool

record QueuedMessage =
  qm_id :: pystr
  qm_text :: pystr
  qm_sender :: pystr
  qm_quote_id :: "pystr option"
  qm_created_at :: pystr

record OrchestrationState =
  plan_id :: pystr
  plan_version :: int
  nodes :: "(pystr, NodeState) dict"
  members :: "(pystr, Member) dict"
  interventions :: "(pystr, Intervention) dict"
  queue :: "(pystr, QueuedMessage list) dict"
  derived_count :: int
  patch_count :: int
  revision_count :: int
  next_message :: int

definition empty_state :: OrchestrationState where
  "empty_state = \<lparr>plan_id = [], plan_version = 1, nodes = [], members = [], interventions = [],
     queue = [], derived_count = 0, patch_count = 0, revision_count = 0, next_message = 1\<rparr>"

text \<open>\<open>truncate(text)\<close> of \<open>core/util.py\<close> with its default limit.\<close>

fun truncate_to :: "nat \<Rightarrow> pystr option \<Rightarrow> pystr option" where
  "truncate_to limit None = None"
| "truncate_to limit (Some text) = (if length text \<le> limit then Some text else Some (take limit text))"

text \<open>\<open>render_answer\<close>: the separator is U+3001, the two replies are U+786E U+8BA4 and U+53D6 U+6D88.\<close>

definition render_answer :: "Intervention \<Rightarrow> pystr" where
  "render_answer iv = (case (iv_question_type iv, iv_answer iv) of
       (Q_SELECT, Some (AnsList xs)) \<Rightarrow> str_join [12289] xs
     | (Q_CONFIRM, a) \<Rightarrow> (if a = Some (AnsBool True) then [30830, 35748] else [21462, 28040])
     | (_, Some (AnsStr s)) \<Rightarrow> s
     | (_, _) \<Rightarrow> [])"

section \<open>Queries\<close>

definition status_of :: "OrchestrationState \<Rightarrow> pystr \<Rightarrow> NodeStatus option" where
  "status_of s k = map_option n_status (map_of (nodes s) k)"

definition deps_completed :: "OrchestrationState \<Rightarrow> NodeState \<Rightarrow> bool" where
  "deps_completed s n \<longleftrightarrow> list_all (\<lambda>dep. status_of s dep = Some COMPLETED) (n_deps n)"

definition ready_nodes :: "OrchestrationState \<Rightarrow> NodeState list" where
  "ready_nodes s = filter (\<lambda>n. n_status n \<in> PENDING_NODE_STATUSES \<and> deps_completed s n) (d_values (nodes s))"

definition has_terminal_dep :: "OrchestrationState \<Rightarrow> NodeState \<Rightarrow> bool" where
  "has_terminal_dep s n \<longleftrightarrow> list_ex (\<lambda>dep. case status_of s dep of None \<Rightarrow> False
      | Some st \<Rightarrow> st \<in> TERMINAL_NODE_STATUSES) (n_deps n)"

definition blocked_nodes :: "OrchestrationState \<Rightarrow> NodeState list" where
  "blocked_nodes s = filter (\<lambda>n. n_status n = PENDING \<and> has_terminal_dep s n) (d_values (nodes s))"

definition active_nodes :: "OrchestrationState \<Rightarrow> NodeState list" where
  "active_nodes s = filter (\<lambda>n. n_status n \<in> ACTIVE_NODE_STATUSES) (d_values (nodes s))"

definition input_required_nodes :: "OrchestrationState \<Rightarrow> NodeState list" where
  "input_required_nodes s = filter (\<lambda>n. n_status n \<in> INPUT_NODE_STATUSES) (d_values (nodes s))"

definition failed_nodes :: "OrchestrationState \<Rightarrow> NodeState list" where
  "failed_nodes s = filter (\<lambda>n. n_status n = FAILED) (d_values (nodes s))"

definition all_completed :: "OrchestrationState \<Rightarrow> bool" where
  "all_completed s = (let active = filter (\<lambda>n. n_status n \<noteq> INVALIDATED) (d_values (nodes s))
     in active \<noteq> [] \<and> list_all (\<lambda>n. n_status n \<in> {COMPLETED, CANCELED}) active)"

definition has_failures :: "OrchestrationState \<Rightarrow> bool" where
  "has_failures s = list_ex (\<lambda>n. n_status n = FAILED) (d_values (nodes s))"

definition has_pending_work :: "OrchestrationState \<Rightarrow> bool" where
  "has_pending_work s = list_ex (\<lambda>n. n_status n \<in>
     PENDING_NODE_STATUSES \<union> ACTIVE_NODE_STATUSES \<union> INPUT_NODE_STATUSES) (d_values (nodes s))"

definition assist_nodes_for :: "OrchestrationState \<Rightarrow> pystr \<Rightarrow> pystr \<Rightarrow> NodeState list" where
  "assist_nodes_for s agent_name requested_by = filter (\<lambda>n. n_derived n
     \<and> n_assist_requested_by n = Some requested_by \<and> n_agent_name n = agent_name) (d_values (nodes s))"

text \<open>
  \<open>assist_chain_agents\<close>: the loop walks \<open>assist_requested_by\<close> upwards; \<open>seen\<close> stops it on a
  cycle, a missing parent breaks it, an empty requester id is falsy and ends it.
\<close>

function chain_loop :: "OrchestrationState \<Rightarrow> NodeState \<Rightarrow> pystr set \<Rightarrow> pystr set \<Rightarrow> pystr set" where
  "chain_loop s current seen names = (case n_assist_requested_by current of
      None \<Rightarrow> names
    | Some p \<Rightarrow> (if p = [] \<or> p \<in> seen then names
        else (case map_of (nodes s) p of
            None \<Rightarrow> names
          | Some parent \<Rightarrow> chain_loop s parent (insert p seen) (insert (n_agent_name parent) names))))"
  by pat_completeness auto

termination
proof (relation "measure (\<lambda>(s, current, seen, names). card (set (d_keys (nodes s)) - seen))")
  fix s :: OrchestrationState and current parent :: NodeState
    and seen names :: "pystr set" and p :: pystr
  assume "n_assist_requested_by current = Some p" and "\<not> (p = [] \<or> p \<in> seen)"
    and "map_of (nodes s) p = Some parent"
  then have "p \<in> set (d_keys (nodes s)) - seen"
    by (metis DiffI d_has_iff option.distinct(1))
  then have "card (set (d_keys (nodes s)) - insert p seen) < card (set (d_keys (nodes s)) - seen)"
    by (metis Diff_insert card_Diff1_less finite_Diff List.finite_set)
  then show "((s, parent, insert p seen, insert (n_agent_name parent) names), s, current, seen, names)
      \<in> measure (\<lambda>(s, current, seen, names). card (set (d_keys (nodes s)) - seen))"
    by simp
qed simp

declare chain_loop.simps [simp del]

definition assist_chain_agents :: "OrchestrationState \<Rightarrow> NodeState \<Rightarrow> pystr set" where
  "assist_chain_agents s node = chain_loop s node {n_id node} {n_agent_name node}"

definition pending_interventions :: "OrchestrationState \<Rightarrow> Intervention list" where
  "pending_interventions s = filter (\<lambda>iv. iv_status iv = IV_PENDING) (d_values (interventions s))"

definition pending_intervention_for :: "OrchestrationState \<Rightarrow> pystr \<Rightarrow> Intervention option" where
  "pending_intervention_for s node_id =
     List.find (\<lambda>iv. iv_node_id iv = node_id \<and> iv_status iv = IV_PENDING) (d_values (interventions s))"

section \<open>Transitions that are not node status changes\<close>

definition add_member :: "pystr \<Rightarrow> OrchestrationState \<Rightarrow> pystr \<Rightarrow> pystr \<Rightarrow> bool \<times> OrchestrationState" where
  "add_member now s name reason = (if d_has (members s) name then (False, s)
     else (True, s\<lparr>members := AList.update name \<lparr>m_name = name, m_reason = reason, m_joined_at = now\<rparr>
                        (members s)\<rparr>))"

definition request_user_input :: "pystr \<Rightarrow> pystr \<Rightarrow> OrchestrationState \<Rightarrow> pystr \<Rightarrow> pystr
    \<Rightarrow> InterventionKind \<Rightarrow> QuestionType \<Rightarrow> pystr list \<Rightarrow> bool \<Rightarrow> pystr
    \<Rightarrow> Intervention option \<times> OrchestrationState" where
  "request_user_input new_id now s node_id question kind question_type options multi requester =
     (if pending_intervention_for s node_id \<noteq> None then (None, s)
      else let iv = \<lparr>iv_id = new_id, iv_node_id = node_id, iv_question = question,
                     iv_status = IV_PENDING, iv_answer = None, iv_responder = None, iv_kind = kind,
                     iv_question_type = question_type, iv_options = options, iv_multi = multi,
                     iv_requester = requester, iv_created_at = now, iv_announced = False\<rparr>
           in (Some iv, s\<lparr>interventions := AList.update new_id iv (interventions s)\<rparr>))"

definition intervention_stale :: "Intervention \<Rightarrow> NodeState option \<Rightarrow> bool" where
  "intervention_stale iv node = (case node of
      None \<Rightarrow> True
    | Some n \<Rightarrow> (if iv_kind iv = CONFIRM_CANCEL then n_status n \<notin> ACTIVE_NODE_STATUSES
                 else n_status n \<noteq> INPUT_REQUIRED))"

text \<open>
  The two expiry loops: every selected intervention is set to expired and collected.  The
  collected Python objects are the mutated ones, so the returned list holds expired records.
\<close>

definition expire_where :: "(Intervention \<Rightarrow> bool) \<Rightarrow> OrchestrationState
    \<Rightarrow> Intervention list \<times> OrchestrationState" where
  "expire_where sel s =
     (let hit = (\<lambda>iv. iv_status iv = IV_PENDING \<and> sel iv \<and>
                      intervention_stale iv (map_of (nodes s) (iv_node_id iv)))
      in (map (\<lambda>iv. iv\<lparr>iv_status := IV_EXPIRED\<rparr>) (filter hit (d_values (interventions s))),
          s\<lparr>interventions := d_map (\<lambda>iv. if hit iv then iv\<lparr>iv_status := IV_EXPIRED\<rparr> else iv)
                              (interventions s)\<rparr>))"

definition expire_node_interventions :: "OrchestrationState \<Rightarrow> pystr
    \<Rightarrow> Intervention list \<times> OrchestrationState" where
  "expire_node_interventions s node_id = expire_where (\<lambda>iv. iv_node_id iv = node_id) s"

definition normalize_interventions :: "OrchestrationState \<Rightarrow> Intervention list \<times> OrchestrationState" where
  "normalize_interventions s = expire_where (\<lambda>_. True) s"

definition enqueue :: "pystr \<Rightarrow> OrchestrationState \<Rightarrow> pystr \<Rightarrow> pystr \<Rightarrow> pystr \<Rightarrow> pystr option
    \<Rightarrow> QueuedMessage \<times> OrchestrationState" where
  "enqueue now s node_id text sender quote_id =
     (let message = \<lparr>qm_id = py ''qm'' @ int_str (next_message s), qm_text = text, qm_sender = sender,
                     qm_quote_id = quote_id, qm_created_at = now\<rparr>;
          q = d_setdefault node_id [] (queue s)
      in (message, s\<lparr>next_message := next_message s + 1,
                     queue := d_modify node_id (\<lambda>ms. ms @ [message]) q\<rparr>))"

definition take_queued :: "OrchestrationState \<Rightarrow> pystr \<Rightarrow> QueuedMessage list \<times> OrchestrationState" where
  "take_queued s node_id = (case map_of (queue s) node_id of None \<Rightarrow> [] | Some ms \<Rightarrow> ms,
     s\<lparr>queue := AList.delete node_id (queue s)\<rparr>)"

definition start_new_plan :: "OrchestrationState \<Rightarrow> pystr \<Rightarrow> OrchestrationState" where
  "start_new_plan s pid = s\<lparr>plan_id := pid, plan_version := plan_version s + 1, nodes := [],
     interventions := [], queue := [], derived_count := 0, patch_count := 0, revision_count := 0,
     next_message := 1\<rparr>"


section \<open>Well-formedness\<close>

definition state_wf :: "OrchestrationState \<Rightarrow> bool" where
  "state_wf s \<longleftrightarrow> dict_wf (nodes s) \<and> list_all (\<lambda>(k, n). n_id n = k) (nodes s)
     \<and> dict_wf (members s) \<and> list_all (\<lambda>(k, m). m_name m = k) (members s)
     \<and> dict_wf (interventions s) \<and> list_all (\<lambda>(k, iv). iv_id iv = k) (interventions s)
     \<and> dict_wf (queue s)"

text \<open>The pending questions of a node.\<close>

definition pending_count_for :: "OrchestrationState \<Rightarrow> pystr \<Rightarrow> nat" where
  "pending_count_for s k = length (filter (\<lambda>iv. iv_node_id iv = k \<and> iv_status iv = IV_PENDING)
     (d_values (interventions s)))"

definition one_pending :: "OrchestrationState \<Rightarrow> bool" where
  "one_pending s \<longleftrightarrow> (\<forall>k. pending_count_for s k \<le> 1)"

lemma state_wf_empty [simp]: "state_wf empty_state"
  by (simp add: state_wf_def empty_state_def dict_wf_def)

lemma one_pending_empty [simp]: "one_pending empty_state"
  by (simp add: one_pending_def empty_state_def pending_count_for_def)

lemma state_wf_node: "state_wf s \<Longrightarrow> map_of (nodes s) k = Some n \<Longrightarrow> n_id n = k"
  by (auto simp: state_wf_def list_all_iff dest!: map_of_SomeD)

lemma state_wf_lookup: "state_wf s \<Longrightarrow> n \<in> set (d_values (nodes s)) \<Longrightarrow> map_of (nodes s) (n_id n) = Some n"
  by (auto simp: state_wf_def list_all_iff dict_wf_def)

lemma node_in_values: "map_of (nodes s) k = Some n \<Longrightarrow> n \<in> set (d_values (nodes s))"
  by (rule map_of_SomeD_value)

lemma ready_nodes_iff:
  "n \<in> set (ready_nodes s) \<longleftrightarrow> n \<in> set (d_values (nodes s)) \<and> n_status n \<in> PENDING_NODE_STATUSES
     \<and> (\<forall>dep \<in> set (n_deps n). status_of s dep = Some COMPLETED)"
  by (auto simp: ready_nodes_def deps_completed_def list_all_iff)

lemma all_completed_iff:
  "all_completed s \<longleftrightarrow> (\<exists>n \<in> set (d_values (nodes s)). n_status n \<noteq> INVALIDATED)
     \<and> (\<forall>n \<in> set (d_values (nodes s)). n_status n \<in> {COMPLETED, CANCELED, INVALIDATED})"
  unfolding all_completed_def Let_def filter_empty_conv list_all_iff by auto

lemma blocked_nodes_iff:
  "n \<in> set (blocked_nodes s) \<longleftrightarrow> n \<in> set (d_values (nodes s)) \<and> n_status n = PENDING
     \<and> (\<exists>dep \<in> set (n_deps n). \<exists>st \<in> TERMINAL_NODE_STATUSES. status_of s dep = Some st)"
  by (auto simp: blocked_nodes_def has_terminal_dep_def list_ex_iff split: option.splits)

lemma pending_intervention_for_None:
  "pending_intervention_for s k = None \<longleftrightarrow> pending_count_for s k = 0"
  by (auto simp: pending_intervention_for_def pending_count_for_def find_None_iff filter_empty_conv)

lemma pending_intervention_for_Some:
  "pending_intervention_for s k = Some iv \<Longrightarrow>
     iv \<in> set (d_values (interventions s)) \<and> iv_node_id iv = k \<and> iv_status iv = IV_PENDING"
  by (auto simp: pending_intervention_for_def find_Some_iff)

subsection \<open>Frame lemmas: what each operation leaves alone\<close>

lemma add_member_frame [simp]:
  "nodes (snd (add_member now s name reason)) = nodes s"
  "interventions (snd (add_member now s name reason)) = interventions s"
  "queue (snd (add_member now s name reason)) = queue s"
  "derived_count (snd (add_member now s name reason)) = derived_count s"
  by (simp_all add: add_member_def)

lemma request_user_input_frame [simp]:
  "nodes (snd (request_user_input i now s k q kd qt os m r)) = nodes s"
  "members (snd (request_user_input i now s k q kd qt os m r)) = members s"
  "queue (snd (request_user_input i now s k q kd qt os m r)) = queue s"
  "derived_count (snd (request_user_input i now s k q kd qt os m r)) = derived_count s"
  by (simp_all add: request_user_input_def Let_def)

lemma expire_where_frame [simp]:
  "nodes (snd (expire_where sel s)) = nodes s"
  "members (snd (expire_where sel s)) = members s"
  "queue (snd (expire_where sel s)) = queue s"
  "derived_count (snd (expire_where sel s)) = derived_count s"
  by (simp_all add: expire_where_def Let_def)

lemma list_all_d_map: "list_all (\<lambda>(k, v). P k v) (d_map f d) = list_all (\<lambda>(k, v). P k (f v)) d"
  by (induction d) (auto simp: d_map_def)

lemma list_all_update:
  assumes "list_all (\<lambda>(k, v). P k v) d" and "P k v"
  shows "list_all (\<lambda>(k, v). P k v) (AList.update k v d)"
  using assms by (induction d) auto

lemma expire_where_wf: "state_wf s \<Longrightarrow> state_wf (snd (expire_where sel s))"
  by (simp add: state_wf_def expire_where_def Let_def list_all_d_map dict_wf_def if_distrib [of iv_id] cong: if_cong)

lemma add_member_wf: "state_wf s \<Longrightarrow> state_wf (snd (add_member now s name reason))"
  by (auto simp: state_wf_def add_member_def pd.wf_put intro!: list_all_update)

lemma request_user_input_wf: "state_wf s \<Longrightarrow> state_wf (snd (request_user_input i now s k q kd qt os m r))"
  by (auto simp: state_wf_def request_user_input_def Let_def pd.wf_put intro!: list_all_update)

lemma enqueue_wf: "state_wf s \<Longrightarrow> state_wf (snd (enqueue now s k text sender q))"
  by (auto simp: state_wf_def enqueue_def Let_def dict_wf_def d_setdefault_def)

lemma take_queued_wf: "state_wf s \<Longrightarrow> state_wf (snd (take_queued s k))"
  by (auto simp: state_wf_def take_queued_def pd.wf_pop)

lemma start_new_plan_wf: "state_wf s \<Longrightarrow> state_wf (start_new_plan s pid)"
  by (auto simp: state_wf_def start_new_plan_def dict_wf_def)

lemmas state_ops_wf = expire_where_wf add_member_wf request_user_input_wf enqueue_wf take_queued_wf
  start_new_plan_wf

subsection \<open>At most one pending question per node\<close>

lemma length_filter_update_le:
  "length (filter P (d_values (AList.update k v d))) \<le> length (filter P (d_values d)) + (if P v then 1 else 0)"
  by (induction d) auto

lemma filter_len_update_not: "\<not> P v \<Longrightarrow> length (filter P (d_values (AList.update k v d))) \<le> length (filter P (d_values d))"
  using length_filter_update_le [of P k v d] by simp

lemma request_user_input_one_pending:
  assumes "one_pending s"
  shows "one_pending (snd (request_user_input i now s k q kd qt os m r))"
proof (cases "pending_intervention_for s k")
  case None
  have "pending_count_for (snd (request_user_input i now s k q kd qt os m r)) j \<le> 1" for j
  proof -
    let ?P = "\<lambda>iv. iv_node_id iv = j \<and> iv_status iv = IV_PENDING"
    let ?iv = "\<lparr>iv_id = i, iv_node_id = k, iv_question = q, iv_status = IV_PENDING, iv_answer = None,
      iv_responder = None, iv_kind = kd, iv_question_type = qt, iv_options = os, iv_multi = m,
      iv_requester = r, iv_created_at = now, iv_announced = False\<rparr>"
    have "length (filter ?P (d_values (AList.update i ?iv (interventions s))))
        \<le> pending_count_for s j + (if j = k then 1 else 0)"
      using length_filter_update_le [of ?P i ?iv "interventions s"] by (auto simp: pending_count_for_def)
    moreover have "pending_count_for s k = 0" using None by (simp add: pending_intervention_for_None)
    moreover have "pending_count_for s j \<le> 1" using assms by (simp add: one_pending_def)
    ultimately show ?thesis using None
      by (auto simp: request_user_input_def Let_def pending_count_for_def split: if_splits)
  qed
  then show ?thesis by (simp add: one_pending_def)
next
  case (Some iv)
  with assms show ?thesis by (simp add: request_user_input_def)
qed

lemma length_filter_map_le:
  "(\<And>x. P (f x) \<Longrightarrow> P x) \<Longrightarrow> length (filter P (map f xs)) \<le> length (filter P xs)"
  by (induction xs) (auto intro: le_SucI)

lemma expire_where_values:
  "d_values (interventions (snd (expire_where sel s))) = map (\<lambda>iv.
     if iv_status iv = IV_PENDING \<and> sel iv \<and> intervention_stale iv (map_of (nodes s) (iv_node_id iv))
     then iv\<lparr>iv_status := IV_EXPIRED\<rparr> else iv) (d_values (interventions s))"
  unfolding expire_where_def Let_def by (subst snd_conv) (simp del: map_map)

lemma expire_where_one_pending:
  assumes "one_pending s"
  shows "one_pending (snd (expire_where sel s))"
proof -
  have "pending_count_for (snd (expire_where sel s)) k \<le> pending_count_for s k" for k
    unfolding pending_count_for_def expire_where_values
    by (rule length_filter_map_le) (auto split: if_splits)
  with assms show ?thesis by (metis le_trans one_pending_def)
qed

lemma start_new_plan_one_pending: "one_pending (start_new_plan s pid)"
  by (simp add: one_pending_def pending_count_for_def start_new_plan_def)

lemma expire_where_expired:
  "iv \<in> set (fst (expire_where sel s)) \<Longrightarrow> iv_status iv = IV_EXPIRED"
  by (auto simp: expire_where_def Let_def)

lemma expire_where_lookup:
  "map_of (interventions (snd (expire_where sel s))) k = map_option (\<lambda>iv.
     if iv_status iv = IV_PENDING \<and> sel iv \<and> intervention_stale iv (map_of (nodes s) (iv_node_id iv))
     then iv\<lparr>iv_status := IV_EXPIRED\<rparr> else iv) (map_of (interventions s) k)"
  by (simp add: expire_where_def Let_def)


section \<open>The assist chain\<close>

text \<open>
  What \<open>assist_chain_agents\<close> is for: the agents of a node and of every node above it in the
  chain of help requests.
\<close>

definition assist_parent :: "OrchestrationState \<Rightarrow> NodeState \<Rightarrow> NodeState option" where
  "assist_parent s n = (case n_assist_requested_by n of None \<Rightarrow> None
     | Some p \<Rightarrow> if p = [] then None else map_of (nodes s) p)"

inductive assist_ancestor :: "OrchestrationState \<Rightarrow> NodeState \<Rightarrow> NodeState \<Rightarrow> bool" for s n where
  self: "assist_ancestor s n n"
| up: "assist_ancestor s n m \<Longrightarrow> assist_parent s m = Some p \<Longrightarrow> assist_ancestor s n p"

lemma assist_ancestor_closed:
  assumes "assist_ancestor s n m" and "n \<in> V"
    and "\<And>v p. v \<in> V \<Longrightarrow> assist_parent s v = Some p \<Longrightarrow> p \<in> V"
  shows "m \<in> V"
  using assms by (induction rule: assist_ancestor.induct) auto

lemma chain_loop_ancestors:
  assumes "\<And>k. k \<in> seen \<Longrightarrow> \<exists>v \<in> V. map_of (nodes s) k = Some v"
    and "current \<in> V" and "n \<in> V" and "\<And>v. v \<in> V \<Longrightarrow> assist_ancestor s n v"
    and "\<And>v. v \<in> V \<Longrightarrow> v \<noteq> current \<Longrightarrow> \<exists>p \<in> V. assist_parent s v = Some p"
    and "names = n_agent_name ` V"
  shows "chain_loop s current seen names = n_agent_name ` {m. assist_ancestor s n m}"
  using assms
proof (induction s current seen names arbitrary: V rule: chain_loop.induct)
  case (1 s current seen names)
  have stop: "names = n_agent_name ` {m. assist_ancestor s n m}"
    if nxt: "\<And>p. assist_parent s current = Some p \<Longrightarrow> p \<in> V"
  proof -
    have closed: "p \<in> V" if v: "v \<in> V" and p: "assist_parent s v = Some p" for v p
    proof (cases "v = current")
      case True
      with p nxt show ?thesis by simp
    next
      case False
      then obtain p' where "p' \<in> V" "assist_parent s v = Some p'" using "1.prems"(5) [OF v] by blast
      with p show ?thesis by simp
    qed
    have "m \<in> V" if "assist_ancestor s n m" for m
      using that "1.prems"(3) by (rule assist_ancestor_closed) (rule closed)
    then have "{m. assist_ancestor s n m} = V" using "1.prems"(4) by blast
    then show ?thesis using "1.prems"(6) by simp
  qed
  show ?case
  proof (cases "n_assist_requested_by current")
    case None
    then show ?thesis using stop by (subst chain_loop.simps) (simp add: assist_parent_def)
  next
    case (Some p)
    show ?thesis
    proof (cases "p = [] \<or> p \<in> seen")
      case True
      have "q \<in> V" if "assist_parent s current = Some q" for q
        using that Some True "1.prems"(1) [of p] by (auto simp: assist_parent_def split: if_splits)
      then show ?thesis using Some True stop by (subst chain_loop.simps) simp
    next
      case False
      show ?thesis
      proof (cases "map_of (nodes s) p")
        case None
        then have "assist_parent s current = None" using Some by (simp add: assist_parent_def)
        then show ?thesis using Some False None stop by (subst chain_loop.simps) simp
      next
        case (Some parent)
        note req = \<open>n_assist_requested_by current = Some p\<close>
        have par: "assist_parent s current = Some parent"
          using req Some False by (simp add: assist_parent_def)
        have anc: "assist_ancestor s n parent"
          using "1.prems"(4) [OF "1.prems"(2)] par by (rule assist_ancestor.up)
        have "chain_loop s parent (insert p seen) (insert (n_agent_name parent) names)
            = n_agent_name ` {m. assist_ancestor s n m}"
        proof (rule "1.IH" [OF req False Some, where V = "insert parent V"])
          show "\<exists>v \<in> insert parent V. map_of (nodes s) k = Some v" if "k \<in> insert p seen" for k
            using that "1.prems"(1) [of k] Some by auto
          show "\<exists>q \<in> insert parent V. assist_parent s v = Some q"
            if "v \<in> insert parent V" "v \<noteq> parent" for v
            using that "1.prems"(5) [of v] par by (cases "v = current") auto
        qed (use "1.prems" anc in auto)
        then show ?thesis using req False Some by (subst chain_loop.simps) simp
      qed
    qed
  qed
qed

text \<open>\<open>assist_chain_agents\<close> terminates on every state (cyclic \<open>assist_requested_by\<close> links
  included) and returns exactly the agents of the node and of all its ancestors in the chain of
  help requests.\<close>

theorem assist_chain_agents_exact:
  assumes "map_of (nodes s) (n_id node) = Some node"
  shows "assist_chain_agents s node = n_agent_name ` {m. assist_ancestor s node m}"
  unfolding assist_chain_agents_def
  by (rule chain_loop_ancestors [where V = "{node}"]) (use assms in \<open>auto intro: assist_ancestor.self\<close>)

text \<open>A helper chain \<open>h2 \<rightarrow> h1 \<rightarrow> n\<close> whose root asks the leaf for help: the cycle is cut.\<close>

definition chain_example :: OrchestrationState where
  "chain_example = empty_state\<lparr>nodes :=
     [(py ''n'', (new_node (py ''n'') [] (py ''A''))\<lparr>n_assist_requested_by := Some (py ''h2'')\<rparr>),
      (py ''h1'', (new_node (py ''h1'') [] (py ''B''))\<lparr>n_assist_requested_by := Some (py ''n'')\<rparr>),
      (py ''h2'', (new_node (py ''h2'') [] (py ''C''))\<lparr>n_assist_requested_by := Some (py ''h1'')\<rparr>)]\<rparr>"

theorem assist_chain_agents_exact_witness:
  "\<exists>node. map_of (nodes chain_example) (n_id node) = Some node \<and>
     assist_chain_agents chain_example node = n_agent_name ` {m. assist_ancestor chain_example node m} \<and>
     assist_chain_agents chain_example node = {py ''A'', py ''B'', py ''C''}"
proof -
  let ?n = "(new_node (py ''h2'') [] (py ''C''))\<lparr>n_assist_requested_by := Some (py ''h1'')\<rparr>"
  have l: "map_of (nodes chain_example) (n_id ?n) = Some ?n"
    by (simp add: chain_example_def new_node_def)
  have "assist_chain_agents chain_example ?n = {py ''A'', py ''B'', py ''C''}"
    by (simp add: assist_chain_agents_def chain_loop.simps chain_example_def new_node_def insert_commute)
  with l assist_chain_agents_exact [OF l] show ?thesis by blast
qed

section \<open>The message queue\<close>

definition queued_ids :: "OrchestrationState \<Rightarrow> pystr list" where
  "queued_ids s = map qm_id (concat (d_values (queue s)))"

definition queue_ids_wf :: "OrchestrationState \<Rightarrow> bool" where
  "queue_ids_wf s \<longleftrightarrow> distinct (queued_ids s)
     \<and> (\<forall>i \<in> set (queued_ids s). \<exists>j < next_message s. i = py ''qm'' @ int_str j)"

lemma concat_d_modify_append:
  "distinct (d_keys d) \<Longrightarrow> d_has d k \<Longrightarrow>
     mset (concat (d_values (d_modify k (\<lambda>ms. ms @ [m]) d))) = add_mset m (mset (concat (d_values d)))"
proof (induction d)
  case (Cons p d)
  obtain k' v where p: "p = (k', v)" by (cases p)
  show ?case
  proof (cases "k' = k")
    case True
    then have "d_modify k (\<lambda>ms. ms @ [m]) d = d"
      using Cons.prems p by (force simp: d_modify_def intro: map_idI)
    then show ?thesis using p True by (simp add: d_modify_def)
  next
    case False
    then show ?thesis using Cons p by (simp add: d_modify_def)
  qed
qed simp

lemma d_modify_setdefault_append:
  assumes "dict_wf d"
  shows "mset (concat (d_values (d_modify k (\<lambda>ms. ms @ [m]) (d_setdefault k [] d))))
    = add_mset m (mset (concat (d_values d)))"
proof -
  have "distinct (d_keys (d_setdefault k [] d))" "d_has (d_setdefault k [] d) k"
    using assms by (auto simp: d_setdefault_def dict_wf_def)
  then have "mset (concat (d_values (d_modify k (\<lambda>ms. ms @ [m]) (d_setdefault k [] d))))
      = add_mset m (mset (concat (d_values (d_setdefault k [] d))))"
    by (rule concat_d_modify_append)
  also have "concat (d_values (d_setdefault k [] d)) = concat (d_values d)"
    by (simp add: d_setdefault_def)
  finally show ?thesis .
qed

lemma enqueue_queued_ids:
  "dict_wf (queue s) \<Longrightarrow> mset (queued_ids (snd (enqueue now s k text sender q)))
     = add_mset (py ''qm'' @ int_str (next_message s)) (mset (queued_ids s))"
  by (simp add: queued_ids_def enqueue_def Let_def d_modify_setdefault_append mset_map del: map_map map_concat)

lemma set_concat_delete: "set (concat (d_values (AList.delete k d))) \<subseteq> set (concat (d_values d))"
  by (induction d) auto

lemma distinct_map_concat_delete:
  "distinct (map f (concat (d_values d))) \<Longrightarrow> distinct (map f (concat (d_values (AList.delete k d))))"
proof (induction d)
  case (Cons p d)
  have "f ` set (concat (d_values (AList.delete k d))) \<subseteq> f ` set (concat (d_values d))"
    by (intro image_mono set_concat_delete)
  with Cons show ?case by (cases p) auto
qed simp

lemma take_queued_ids_wf:
  assumes "queue_ids_wf s"
  shows "queue_ids_wf (snd (take_queued s k))"
proof -
  have q: "queued_ids (snd (take_queued s k)) = map qm_id (concat (d_values (AList.delete k (queue s))))"
    "next_message (snd (take_queued s k)) = next_message s"
    by (simp_all add: queued_ids_def take_queued_def)
  have "set (queued_ids (snd (take_queued s k))) \<subseteq> set (queued_ids s)"
    unfolding q unfolding queued_ids_def set_map by (intro image_mono set_concat_delete)
  moreover have "distinct (queued_ids (snd (take_queued s k)))"
    using assms unfolding q by (intro distinct_map_concat_delete) (simp add: queue_ids_wf_def queued_ids_def)
  ultimately show ?thesis using assms q(2) unfolding queue_ids_wf_def by (metis subsetD)
qed

lemma enqueue_ids_wf:
  assumes "dict_wf (queue s)" and "queue_ids_wf s"
  shows "queue_ids_wf (snd (enqueue now s k text sender q))"
proof -
  let ?s = "snd (enqueue now s k text sender q)"
  let ?new = "py ''qm'' @ int_str (next_message s)"
  have m: "mset (queued_ids ?s) = mset (?new # queued_ids s)"
    using enqueue_queued_ids [OF assms(1)] by simp
  have nm: "next_message ?s = next_message s + 1" by (simp add: enqueue_def Let_def)
  have "?new \<notin> set (queued_ids s)"
  proof
    assume "?new \<in> set (queued_ids s)"
    then obtain j where "j < next_message s" "?new = py ''qm'' @ int_str j"
      using assms(2) unfolding queue_ids_wf_def by blast
    then show False by simp
  qed
  then have "distinct (?new # queued_ids s)" using assms(2) by (simp add: queue_ids_wf_def)
  then have "distinct (queued_ids ?s)" using mset_eq_imp_distinct_iff [OF m] by blast
  moreover have "set (queued_ids ?s) = insert ?new (set (queued_ids s))"
    using mset_eq_setD [OF m] by simp
  moreover have "\<exists>j < next_message s + 1. i = py ''qm'' @ int_str j" if "i \<in> set (queued_ids s)" for i
    using assms(2) that unfolding queue_ids_wf_def by (meson less_add_one order.strict_trans)
  ultimately show ?thesis by (auto simp: queue_ids_wf_def nm)
qed

end
