(* ===== verification/Snapshot.thy ===== *)
theory Snapshot
  imports State
begin

text \<open>
  Serialization of the orchestration state (\<open>to_dict\<close>, \<open>from_dict\<close>, \<open>state_to_json\<close>,
  \<open>state_from_json\<close>, \<open>load_state\<close> of \<open>choirworks/orchestration/state.py\<close>).  The snapshot is
  the JSON value whose text \<open>json.dumps\<close> prints and \<open>json.loads\<close> reads back; a text that is
  not JSON is \<open>None\<close>.  Numbers are the integers the writer emits.
\<close>

section \<open>JSON values and the coercions of the reader\<close>

datatype json = JNull | JBool bool | JInt int | JStr pystr | JArr "json list" | JObj "(pystr \<times> json) list"

text \<open>\<open>str(v)\<close>; the \<open>repr\<close> of arrays and objects is not modelled.\<close>

fun py_str :: "json \<Rightarrow> exn + pystr" where
  "py_str JNull = Inr (py ''None'')"
| "py_str (JBool b) = Inr (if b then py ''True'' else py ''False'')"
| "py_str (JInt i) = Inr (int_str i)"
| "py_str (JStr s) = Inr s"
| "py_str (JArr _) = Inl Untyped"
| "py_str (JObj _) = Inl Untyped"

text \<open>\<open>int(v)\<close>; numerals in strings are not parsed by the model.\<close>

fun py_int :: "json \<Rightarrow> exn + int" where
  "py_int (JInt i) = Inr i"
| "py_int (JBool b) = Inr (if b then 1 else 0)"
| "py_int (JStr _) = Inl Untyped"
| "py_int _ = Inl TypeError"

fun py_bool :: "json \<Rightarrow> bool" where
  "py_bool JNull = False"
| "py_bool (JBool b) = b"
| "py_bool (JInt i) = (i \<noteq> 0)"
| "py_bool (JStr s) = (s \<noteq> [])"
| "py_bool (JArr xs) = (xs \<noteq> [])"
| "py_bool (JObj d) = (d \<noteq> [])"

text \<open>A value stored as it is in a field typed \<open>str | None\<close>.\<close>

fun opt_str :: "json \<Rightarrow> exn + pystr option" where
  "opt_str JNull = Inr None"
| "opt_str (JStr s) = Inr (Some s)"
| "opt_str _ = Inl Untyped"

text \<open>\<open>for x in v\<close>.\<close>

fun py_iter :: "json \<Rightarrow> exn + json list" where
  "py_iter (JArr xs) = Inr xs"
| "py_iter (JStr s) = Inr (map (\<lambda>c. JStr [c]) s)"
| "py_iter (JObj d) = Inr (map (\<lambda>(k, _). JStr k) d)"
| "py_iter _ = Inl TypeError"

definition str_list :: "json \<Rightarrow> exn + pystr list" where
  "str_list v = ebind (py_iter v) (emap py_str)"

text \<open>\<open>data.get(key, default)\<close>; only a dict has \<open>get\<close>.\<close>

fun jget :: "json \<Rightarrow> string \<Rightarrow> json \<Rightarrow> exn + json" where
  "jget (JObj d) key dflt = Inr (case map_of d (py key) of None \<Rightarrow> dflt | Some v \<Rightarrow> v)"
| "jget _ key dflt = Inl AttributeError"

definition enum_of :: "('e \<Rightarrow> pystr) \<Rightarrow> 'e list \<Rightarrow> json \<Rightarrow> exn + 'e" where
  "enum_of str_of all v = (case v of
      JStr s \<Rightarrow> (case List.find (\<lambda>e. str_of e = s) all of None \<Rightarrow> Inl (ValueError s) | Some e \<Rightarrow> Inr e)
    | _ \<Rightarrow> Inl (ValueError []))"

definition node_status_of :: "json \<Rightarrow> exn + NodeStatus" where
  "node_status_of = enum_of node_status_str
     [PENDING, READY, SUBMITTED, WORKING, INPUT_REQUIRED, RECOVER, COMPLETED, FAILED, CANCELED, INVALIDATED]"

definition intervention_status_of :: "json \<Rightarrow> exn + InterventionStatus" where
  "intervention_status_of = enum_of intervention_status_str [IV_PENDING, IV_RESOLVED, IV_EXPIRED]"

definition intervention_kind_of :: "json \<Rightarrow> exn + InterventionKind" where
  "intervention_kind_of = enum_of intervention_kind_str [QUESTION, CONFIRM_CANCEL]"

definition question_type_of :: "json \<Rightarrow> exn + QuestionType" where
  "question_type_of = enum_of question_type_str [Q_INPUT, Q_SELECT, Q_CONFIRM]"

fun jopt :: "pystr option \<Rightarrow> json" where
  "jopt None = JNull"
| "jopt (Some s) = JStr s"

definition jstrs :: "pystr list \<Rightarrow> json" where
  "jstrs xs = JArr (map JStr xs)"

section \<open>Nodes, members, interventions, queued messages\<close>

definition node_to_dict :: "NodeState \<Rightarrow> json" where
  "node_to_dict n = JObj
     [(py ''id'', JStr (n_id n)),
      (py ''name'', JStr (n_name n)),
      (py ''agent_name'', JStr (n_agent_name n)),
      (py ''status'', JStr (node_status_str (n_status n))),
      (py ''attempt'', JInt (n_attempt n)),
      (py ''a2a_task_id'', jopt (n_a2a_task_id n)),
      (py ''output'', jopt (truncate_to MAX_METADATA_OUTPUT (n_output n))),
      (py ''error'', jopt (n_error n)),
      (py ''deps'', jstrs (n_deps n)),
      (py ''input_text'', JStr (n_input_text n)),
      (py ''derived'', JBool (n_derived n)),
      (py ''question'', jopt (n_question n)),
      (py ''answer_text'', jopt (n_answer_text n)),
      (py ''answer_from'', jopt (n_answer_from n)),
      (py ''assist_requested_by'', jopt (n_assist_requested_by n)),
      (py ''adopted_helpers'', jstrs (n_adopted_helpers n))]"

definition node_from_dict :: "json \<Rightarrow> exn + NodeState" where
  "node_from_dict data =
     ebind (ebind (jget data ''id'' (JStr [])) py_str) (\<lambda>i.
     ebind (ebind (jget data ''name'' (JStr [])) py_str) (\<lambda>name.
     ebind (ebind (jget data ''agent_name'' (JStr [])) py_str) (\<lambda>agent.
     ebind (ebind (jget data ''status'' (JStr (py ''pending''))) node_status_of) (\<lambda>status.
     ebind (ebind (jget data ''attempt'' (JInt 0)) py_int) (\<lambda>attempt.
     ebind (ebind (jget data ''a2a_task_id'' JNull) opt_str) (\<lambda>a2a_task_id.
     ebind (ebind (jget data ''output'' JNull) opt_str) (\<lambda>output.
     ebind (ebind (jget data ''error'' JNull) opt_str) (\<lambda>error.
     ebind (ebind (jget data ''deps'' (JArr [])) str_list) (\<lambda>deps.
     ebind (ebind (jget data ''input_text'' (JStr [])) py_str) (\<lambda>input_text.
     ebind (jget data ''derived'' (JBool False)) (\<lambda>derived.
     ebind (ebind (jget data ''question'' JNull) opt_str) (\<lambda>question.
     ebind (ebind (jget data ''answer_text'' JNull) opt_str) (\<lambda>answer_text.
     ebind (ebind (jget data ''answer_from'' JNull) opt_str) (\<lambda>answer_from.
     ebind (ebind (jget data ''assist_requested_by'' JNull) opt_str) (\<lambda>requested_by.
     ebind (ebind (jget data ''adopted_helpers'' (JArr [])) str_list) (\<lambda>helpers.
     Inr \<lparr>n_id = i, n_name = name, n_agent_name = agent, n_status = status, n_attempt = attempt,
          n_a2a_task_id = a2a_task_id, n_output = output, n_error = error, n_deps = deps,
          n_input_text = input_text, n_derived = py_bool derived, n_question = question,
          n_answer_text = answer_text, n_answer_from = answer_from,
          n_assist_requested_by = requested_by, n_adopted_helpers = helpers\<rparr>))))))))))))))))"

definition member_to_dict :: "Member \<Rightarrow> json" where
  "member_to_dict m = JObj [(py ''agent_name'', JStr (m_name m)), (py ''reason'', JStr (m_reason m)),
     (py ''joined_at'', JStr (m_joined_at m))]"

definition member_from_dict :: "pystr \<Rightarrow> json \<Rightarrow> exn + Member" where
  "member_from_dict now data =
     ebind (ebind (jget data ''agent_name'' (JStr [])) py_str) (\<lambda>name.
     ebind (ebind (jget data ''reason'' (JStr [])) py_str) (\<lambda>reason.
     ebind (ebind (jget data ''joined_at'' (JStr now)) py_str) (\<lambda>joined_at.
     Inr \<lparr>m_name = name, m_reason = reason, m_joined_at = joined_at\<rparr>)))"

fun answer_to_json :: "answer option \<Rightarrow> json" where
  "answer_to_json None = JNull"
| "answer_to_json (Some (AnsStr s)) = JStr s"
| "answer_to_json (Some (AnsList xs)) = jstrs xs"
| "answer_to_json (Some (AnsBool b)) = JBool b"

fun is_JStr :: "json \<Rightarrow> bool" where
  "is_JStr (JStr _) = True"
| "is_JStr _ = False"

fun answer_from_json :: "json \<Rightarrow> exn + answer option" where
  "answer_from_json JNull = Inr None"
| "answer_from_json (JStr s) = Inr (Some (AnsStr s))"
| "answer_from_json (JBool b) = Inr (Some (AnsBool b))"
| "answer_from_json (JArr xs) = (if list_all is_JStr xs
     then ebind (emap py_str xs) (\<lambda>ys. Inr (Some (AnsList ys)))
     else Inl (ValueError (py ''invalid intervention answer'')))"
| "answer_from_json _ = Inl (ValueError (py ''invalid intervention answer''))"

definition intervention_to_dict :: "Intervention \<Rightarrow> json" where
  "intervention_to_dict iv = JObj
     [(py ''id'', JStr (iv_id iv)),
      (py ''node_id'', JStr (iv_node_id iv)),
      (py ''question'', JStr (iv_question iv)),
      (py ''status'', JStr (intervention_status_str (iv_status iv))),
      (py ''answer'', answer_to_json (iv_answer iv)),
      (py ''responder'', jopt (iv_responder iv)),
      (py ''kind'', JStr (intervention_kind_str (iv_kind iv))),
      (py ''question_type'', JStr (question_type_str (iv_question_type iv))),
      (py ''options'', jstrs (iv_options iv)),
      (py ''multi'', JBool (iv_multi iv)),
      (py ''requester'', JStr (iv_requester iv)),
      (py ''created_at'', JStr (iv_created_at iv)),
      (py ''announced'', JBool (iv_announced iv))]"

definition intervention_from_dict :: "pystr \<Rightarrow> json \<Rightarrow> exn + Intervention" where
  "intervention_from_dict now data =
     ebind (jget data ''options'' (JArr [])) (\<lambda>raw_options.
     ebind (ebind (jget data ''id'' (JStr [])) py_str) (\<lambda>i.
     ebind (ebind (jget data ''node_id'' (JStr [])) py_str) (\<lambda>node_id.
     ebind (ebind (jget data ''question'' (JStr [])) py_str) (\<lambda>question.
     ebind (ebind (jget data ''status'' (JStr (py ''pending''))) intervention_status_of) (\<lambda>status.
     ebind (ebind (jget data ''answer'' JNull) answer_from_json) (\<lambda>ans.
     ebind (ebind (jget data ''responder'' JNull) opt_str) (\<lambda>responder.
     ebind (ebind (jget data ''kind'' (JStr (intervention_kind_str QUESTION))) intervention_kind_of) (\<lambda>kind.
     ebind (ebind (jget data ''question_type'' (JStr (question_type_str Q_INPUT))) question_type_of) (\<lambda>qtype.
     ebind (case raw_options of JArr xs \<Rightarrow> emap py_str xs | _ \<Rightarrow> Inr []) (\<lambda>options.
     ebind (jget data ''multi'' (JBool False)) (\<lambda>multi.
     ebind (ebind (jget data ''requester'' (JStr [])) py_str) (\<lambda>requester.
     ebind (ebind (jget data ''created_at'' (JStr now)) py_str) (\<lambda>created_at.
     ebind (jget data ''announced'' (JBool False)) (\<lambda>announced.
     Inr \<lparr>iv_id = i, iv_node_id = node_id, iv_question = question, iv_status = status,
          iv_answer = ans, iv_responder = responder, iv_kind = kind, iv_question_type = qtype,
          iv_options = options, iv_multi = py_bool multi, iv_requester = requester,
          iv_created_at = created_at, iv_announced = py_bool announced\<rparr>))))))))))))))"

definition queued_to_dict :: "QueuedMessage \<Rightarrow> json" where
  "queued_to_dict qm = JObj [(py ''id'', JStr (qm_id qm)), (py ''text'', JStr (qm_text qm)),
     (py ''sender'', JStr (qm_sender qm)), (py ''quote_id'', jopt (qm_quote_id qm)),
     (py ''created_at'', JStr (qm_created_at qm))]"

definition queued_from_dict :: "pystr \<Rightarrow> json \<Rightarrow> exn + QueuedMessage" where
  "queued_from_dict now data =
     ebind (ebind (jget data ''id'' (JStr [])) py_str) (\<lambda>i.
     ebind (ebind (jget data ''text'' (JStr [])) py_str) (\<lambda>txt.
     ebind (ebind (jget data ''sender'' (JStr (py ''user''))) py_str) (\<lambda>sender.
     ebind (ebind (jget data ''quote_id'' JNull) opt_str) (\<lambda>quote_id.
     ebind (ebind (jget data ''created_at'' (JStr now)) py_str) (\<lambda>created_at.
     Inr \<lparr>qm_id = i, qm_text = txt, qm_sender = sender, qm_quote_id = quote_id, qm_created_at = created_at\<rparr>)))))"

section \<open>The whole state\<close>

definition state_to_json :: "OrchestrationState \<Rightarrow> json" where
  "state_to_json s = JObj
     [(py ''plan_id'', JStr (plan_id s)),
      (py ''plan_version'', JInt (plan_version s)),
      (py ''nodes'', JArr (map node_to_dict (d_values (nodes s)))),
      (py ''members'', JArr (map member_to_dict (d_values (members s)))),
      (py ''interventions'', JArr (map intervention_to_dict (d_values (interventions s)))),
      (py ''queue'', JObj (map (\<lambda>(k, ms). (k, JArr (map queued_to_dict ms))) (queue s))),
      (py ''derived_count'', JInt (derived_count s)),
      (py ''patch_count'', JInt (patch_count s)),
      (py ''revision_count'', JInt (revision_count s)),
      (py ''next_message'', JInt (next_message s))]"

text \<open>\<open>for x in items: v = parse(x); d[key(v)] = v\<close>\<close>

definition load_dict :: "('v \<Rightarrow> 'k) \<Rightarrow> (json \<Rightarrow> exn + 'v) \<Rightarrow> json list \<Rightarrow> exn + ('k, 'v) dict" where
  "load_dict key_of parse items =
     efold (\<lambda>x d. ebind (parse x) (\<lambda>v. Inr (AList.update (key_of v) v d))) items []"

definition load_queue :: "pystr \<Rightarrow> json \<Rightarrow> exn + (pystr, QueuedMessage list) dict" where
  "load_queue now q = (if \<not> py_bool q then Inr [] else (case q of
      JObj d \<Rightarrow> efold (\<lambda>(k, ms) acc. ebind (ebind (py_iter ms) (emap (queued_from_dict now)))
          (\<lambda>l. Inr (AList.update k l acc))) d []
    | _ \<Rightarrow> Inl AttributeError))"

definition state_from_json :: "pystr \<Rightarrow> json option \<Rightarrow> exn + OrchestrationState" where
  "state_from_json now raw = (case raw of
      None \<Rightarrow> Inl (ValueError (py ''not JSON''))
    | Some (JObj fs) \<Rightarrow> (let data = JObj fs in
       ebind (ebind (jget data ''plan_id'' (JStr [])) py_str) (\<lambda>pid.
       ebind (ebind (jget data ''plan_version'' (JInt 1)) py_int) (\<lambda>pver.
       ebind (ebind (ebind (jget data ''nodes'' (JArr [])) py_iter) (load_dict n_id node_from_dict)) (\<lambda>ns.
       ebind (ebind (ebind (jget data ''members'' (JArr [])) py_iter) (load_dict m_name (member_from_dict now))) (\<lambda>ms.
       ebind (ebind (ebind (jget data ''interventions'' (JArr [])) py_iter)
                (load_dict iv_id (intervention_from_dict now))) (\<lambda>ivs.
       ebind (ebind (jget data ''queue'' JNull) (load_queue now)) (\<lambda>q.
       ebind (ebind (jget data ''derived_count'' (JInt 0)) py_int) (\<lambda>dc.
       ebind (ebind (jget data ''patch_count'' (JInt 0)) py_int) (\<lambda>pc.
       ebind (ebind (jget data ''revision_count'' (JInt 0)) py_int) (\<lambda>rc.
       ebind (ebind (jget data ''next_message'' (JInt 1)) py_int) (\<lambda>nm.
       Inr \<lparr>plan_id = pid, plan_version = pver, nodes = ns, members = ms, interventions = ivs, queue = q,
            derived_count = dc, patch_count = pc, revision_count = rc, next_message = nm\<rparr>)))))))))))
    | Some _ \<Rightarrow> Inl (ValueError (py ''state snapshot must be a JSON object'')))"

text \<open>\<open>load_state(task)\<close>: the argument is the \<open>choirworks.state\<close> string of the task's metadata,
  \<open>None\<close> when the task, the field or the text is missing, else the parse of that text.\<close>

definition load_state :: "pystr \<Rightarrow> json option option \<Rightarrow> exn + OrchestrationState option" where
  "load_state now field = (case field of
      None \<Rightarrow> Inr None
    | Some raw \<Rightarrow> (case state_from_json now raw of
         Inr s \<Rightarrow> Inr (Some s)
       | Inl (ValueError _) \<Rightarrow> Inr None
       | Inl TypeError \<Rightarrow> Inr None
       | Inl e \<Rightarrow> Inl e))"

section \<open>Round trip\<close>

lemma node_status_of_str [simp]: "node_status_of (JStr (node_status_str st)) = Inr st"
  by (cases st) (simp_all add: node_status_of_def enum_of_def)

lemma intervention_status_of_str [simp]: "intervention_status_of (JStr (intervention_status_str st)) = Inr st"
  by (cases st) (simp_all add: intervention_status_of_def enum_of_def)

lemma intervention_kind_of_str [simp]: "intervention_kind_of (JStr (intervention_kind_str k)) = Inr k"
  by (cases k) (simp_all add: intervention_kind_of_def enum_of_def)

lemma question_type_of_str [simp]: "question_type_of (JStr (question_type_str t)) = Inr t"
  by (cases t) (simp_all add: question_type_of_def enum_of_def)

lemma opt_str_jopt [simp]: "opt_str (jopt v) = Inr v"
  by (cases v) auto

lemma emap_map: "emap f (map g xs) = emap (f \<circ> g) xs"
  by (induction xs) auto

lemma emap_py_str [simp]: "emap py_str (map JStr xs) = Inr xs"
  by (induction xs) auto

lemma str_list_jstrs [simp]: "str_list (jstrs xs) = Inr xs"
  by (simp add: str_list_def jstrs_def)

lemma list_all_is_JStr [simp]: "list_all is_JStr (map JStr xs)"
  by (induction xs) auto

lemma answer_json [simp]: "answer_from_json (answer_to_json a) = Inr a"
  by (cases a rule: answer_to_json.cases) (auto simp: jstrs_def)

definition stored_node :: "NodeState \<Rightarrow> NodeState" where
  "stored_node n = n\<lparr>n_output := truncate_to MAX_METADATA_OUTPUT (n_output n)\<rparr>"

lemma node_round_trip [simp]: "node_from_dict (node_to_dict n) = Inr (stored_node n)"
  by (simp add: node_from_dict_def node_to_dict_def stored_node_def)

lemma member_round_trip [simp]: "member_from_dict now (member_to_dict m) = Inr m"
  by (simp add: member_from_dict_def member_to_dict_def)

lemma intervention_round_trip [simp]: "intervention_from_dict now (intervention_to_dict iv) = Inr iv"
  by (simp add: intervention_from_dict_def intervention_to_dict_def jstrs_def)

lemma queued_round_trip [simp]: "queued_from_dict now (queued_to_dict qm) = Inr qm"
  by (simp add: queued_from_dict_def queued_to_dict_def)

lemma load_dict_values:
  assumes "\<And>v. parse (dump v) = Inr (f v)" and "\<And>v. key_of (f v) = key_of v"
    and "distinct (d_keys d)" and "list_all (\<lambda>(k, v). key_of v = k) d"
  shows "load_dict key_of parse (map dump (d_values d)) = Inr (d_map f d)"
proof -
  have "efold (\<lambda>x acc. ebind (parse x) (\<lambda>v. Inr (AList.update (key_of v) v acc))) (map dump (d_values d)) acc
      = Inr (acc @ d_map f d)" if "distinct (d_keys acc @ d_keys d)" for acc
    using that assms(4)
  proof (induction d arbitrary: acc)
    case Nil
    then show ?case by (simp add: d_map_def)
  next
    case (Cons p d)
    obtain k v where p: "p = (k, v)" "key_of v = k" using Cons.prems(2) by (cases p) auto
    have "AList.update k (f v) acc = acc @ [(k, f v)]"
      using Cons.prems(1) p by (intro update_absent) auto
    then show ?case using Cons.IH [of "acc @ [(k, f v)]"] Cons.prems p assms(1,2)
      by (simp add: d_map_def)
  qed
  from this [of "[]"] show ?thesis using assms(3) by (simp add: load_dict_def)
qed

lemma load_queue_round_trip:
  assumes "distinct (d_keys q)"
  shows "load_queue now (JObj (map (\<lambda>(k, ms). (k, JArr (map queued_to_dict ms))) q)) = Inr q"
proof -
  have one: "emap (queued_from_dict now) (map queued_to_dict ms) = Inr ms" for ms
    by (induction ms) auto
  have "efold (\<lambda>(k, ms) acc. ebind (ebind (py_iter ms) (emap (queued_from_dict now)))
        (\<lambda>l. Inr (AList.update k l acc))) (map (\<lambda>(k, ms). (k, JArr (map queued_to_dict ms))) q) acc
      = Inr (acc @ q)" if "distinct (d_keys acc @ d_keys q)" for acc
    using that
  proof (induction q arbitrary: acc)
    case (Cons p q)
    obtain k v where p: "p = (k, v)" by (cases p)
    have "AList.update k v acc = acc @ [(k, v)]" using Cons.prems p by (intro update_absent) auto
    then show ?case using Cons.IH [of "acc @ [(k, v)]"] Cons.prems p one by simp
  qed simp
  from this [of "[]"] show ?thesis using assms by (auto simp: load_queue_def)
qed

definition stored_state :: "OrchestrationState \<Rightarrow> OrchestrationState" where
  "stored_state s = s\<lparr>nodes := d_map stored_node (nodes s)\<rparr>"

lemma d_map_id [simp]: "d_map (\<lambda>x. x) d = d"
  by (simp add: d_map_def)

lemma state_round_trip:
  assumes "state_wf s"
  shows "state_from_json now (Some (state_to_json s)) = Inr (s\<lparr>nodes := map (\<lambda>(k, n).
    (k, n\<lparr>n_output := truncate_to 2000 (n_output n)\<rparr>)) (nodes s)\<rparr>)"
proof -
  have ns: "load_dict n_id node_from_dict (map node_to_dict (d_values (nodes s))) = Inr (d_map stored_node (nodes s))"
    using assms by (intro load_dict_values) (auto simp: stored_node_def state_wf_def dict_wf_def)
  have ms: "load_dict m_name (member_from_dict now) (map member_to_dict (d_values (members s))) = Inr (members s)"
    using load_dict_values [of "member_from_dict now" member_to_dict "\<lambda>x. x" m_name "members s"] assms
    by (auto simp: state_wf_def dict_wf_def)
  have ivs: "load_dict iv_id (intervention_from_dict now) (map intervention_to_dict (d_values (interventions s)))
      = Inr (interventions s)"
    using load_dict_values [of "intervention_from_dict now" intervention_to_dict "\<lambda>x. x" iv_id "interventions s"] assms
    by (auto simp: state_wf_def dict_wf_def)
  have q: "load_queue now (JObj (map (\<lambda>(k, ms). (k, JArr (map queued_to_dict ms))) (queue s))) = Inr (queue s)"
    using assms by (intro load_queue_round_trip) (simp add: state_wf_def dict_wf_def)
  have e: "d_map stored_node (nodes s) = map (\<lambda>(k, n). (k, n\<lparr>n_output := truncate_to 2000 (n_output n)\<rparr>)) (nodes s)"
    by (simp add: d_map_def stored_node_def MAX_METADATA_OUTPUT_def)
  show ?thesis unfolding state_from_json_def state_to_json_def
    by (simp add: ns ms ivs q e Let_def del: map_map)
qed

text \<open>C17: persisting and reloading a well-formed state loses nothing but node output beyond 2000
  characters: \<open>state_from_json\<close> of the snapshot \<open>state_to_json\<close> writes never raises and gives back
  the same plan, nodes, members, interventions, queue and counters, in the same dict order.\<close>

theorem snapshot_round_trip:
  assumes "state_wf s"
  shows "state_from_json now (Some (state_to_json s)) = Inr (s\<lparr>nodes := map (\<lambda>(k, n).
    (k, n\<lparr>n_output := truncate_to 2000 (n_output n)\<rparr>)) (nodes s)\<rparr>)"
  using assms by (rule state_round_trip)

definition snapshot_example :: OrchestrationState where
  "snapshot_example = empty_state\<lparr>nodes := [(py ''a'', (new_node (py ''a'') [] (py ''w''))
     \<lparr>n_output := Some (py ''done''), n_deps := [py ''z'']\<rparr>)],
     queue := [(py ''a'', [\<lparr>qm_id = py ''qm1'', qm_text = py ''hi'', qm_sender = py ''user'',
       qm_quote_id = None, qm_created_at = []\<rparr>])]\<rparr>"

theorem snapshot_round_trip_witness:
  "state_wf snapshot_example \<and> state_from_json [] (Some (state_to_json snapshot_example)) = Inr snapshot_example"
proof -
  have wf: "state_wf snapshot_example"
    by (simp add: state_wf_def dict_wf_def snapshot_example_def empty_state_def new_node_def)
  have "length (py ''done'') \<le> 2000" by (simp add: py_def)
  then show ?thesis using wf snapshot_round_trip [OF wf, of "[]"] by (simp add: snapshot_example_def)
qed

text \<open>A second round trip is exact: what was stored once is stored again unchanged.\<close>

lemma truncate_idem [simp]: "truncate_to l (truncate_to l x) = truncate_to l x"
  by (cases x) auto

lemma snapshot_stable: "state_to_json (stored_state s) = state_to_json s"
proof -
  have "node_to_dict (stored_node n) = node_to_dict n" for n
    by (simp add: node_to_dict_def stored_node_def)
  then show ?thesis by (simp add: state_to_json_def stored_state_def)
qed

text \<open>A snapshot that is damaged at the top level (not JSON, not an object, a list field that is null or a
  number) makes \<open>load_state\<close> return no state rather than raise, but an entry of \<open>nodes\<close> that is not an
  object escapes its \<open>except (ValueError, TypeError)\<close> as an \<open>AttributeError\<close>.\<close>

theorem load_state_damaged:
  "load_state now (Some None) = Inr None \<and>
   load_state now (Some (Some (JArr xs))) = Inr None \<and>
   load_state now (Some (Some (JObj [(py ''nodes'', JNull)]))) = Inr None \<and>
   load_state now (Some (Some (JObj [(py ''nodes'', JArr [JInt i])]))) = Inl AttributeError"
  by (simp add: load_state_def state_from_json_def load_dict_def node_from_dict_def)

end
