(* ===== verification/Transitions.thy ===== *)
theory Transitions
  imports State
begin

text \<open>
  The node status machine of \<open>choirworks/orchestration/transitions.py\<close>: the transition table,
  the guards, and the one operation that changes a status.  The event that \<open>transition\<close> emits
  is added in the theory of the turn context.
\<close>

section \<open>The table\<close>

fun ALLOWED_TRANSITIONS :: "NodeStatus \<Rightarrow> NodeStatus set" where
  "ALLOWED_TRANSITIONS PENDING = {READY, SUBMITTED, INPUT_REQUIRED, FAILED, CANCELED, INVALIDATED}"
| "ALLOWED_TRANSITIONS READY = {SUBMITTED, INPUT_REQUIRED, FAILED, CANCELED, INVALIDATED}"
| "ALLOWED_TRANSITIONS SUBMITTED =
     {WORKING, COMPLETED, FAILED, INPUT_REQUIRED, CANCELED, RECOVER, PENDING, INVALIDATED}"
| "ALLOWED_TRANSITIONS WORKING =
     {SUBMITTED, COMPLETED, FAILED, INPUT_REQUIRED, CANCELED, RECOVER, PENDING, INVALIDATED}"
| "ALLOWED_TRANSITIONS RECOVER =
     {SUBMITTED, WORKING, COMPLETED, FAILED, INPUT_REQUIRED, CANCELED, PENDING, INVALIDATED}"
| "ALLOWED_TRANSITIONS INPUT_REQUIRED = {READY, SUBMITTED, FAILED, CANCELED, INVALIDATED}"
| "ALLOWED_TRANSITIONS FAILED = {PENDING, INVALIDATED}"
| "ALLOWED_TRANSITIONS COMPLETED = {}"
| "ALLOWED_TRANSITIONS CANCELED = {}"
| "ALLOWED_TRANSITIONS INVALIDATED = {}"

definition can_transition :: "NodeState \<Rightarrow> NodeStatus \<Rightarrow> bool" where
  "can_transition node to \<longleftrightarrow> (if to = n_status node then True
     else to \<in> ALLOWED_TRANSITIONS (n_status node))"

definition can_retry :: "NodeState \<Rightarrow> int \<Rightarrow> bool" where
  "can_retry node max_attempts \<longleftrightarrow> n_status node = FAILED \<and> n_attempt node < max_attempts"

definition apply_transition :: "NodeState \<Rightarrow> NodeStatus \<Rightarrow> exn + NodeState" where
  "apply_transition node to = (if \<not> can_transition node to
     then Inl (InvalidTransition (py ''node '' @ n_id node @ py '': '' @ node_status_str (n_status node)
                @ py '' -> '' @ node_status_str to))
     else Inr (node\<lparr>n_status := to\<rparr>))"

text \<open>The same on the node stored under a key; the caller holds the object, so the key is present
  (a missing key is reported as \<open>KeyError\<close>).\<close>

definition apply_transition_at :: "OrchestrationState \<Rightarrow> pystr \<Rightarrow> NodeStatus \<Rightarrow> exn + OrchestrationState" where
  "apply_transition_at s k to = (case map_of (nodes s) k of
      None \<Rightarrow> Inl (KeyError k)
    | Some node \<Rightarrow> ebind (apply_transition node to)
        (\<lambda>node'. Inr (s\<lparr>nodes := d_modify k (\<lambda>_. node') (nodes s)\<rparr>)))"

section \<open>Laws of one transition\<close>

lemma apply_transition_Inr:
  "apply_transition n to = Inr n' \<longleftrightarrow> can_transition n to \<and> n' = n\<lparr>n_status := to\<rparr>"
  by (auto simp: apply_transition_def)

lemma apply_transition_at_Inr:
  "apply_transition_at s k to = Inr s' \<longleftrightarrow> (\<exists>n. map_of (nodes s) k = Some n \<and> can_transition n to \<and>
     s' = s\<lparr>nodes := d_modify k (\<lambda>_. n\<lparr>n_status := to\<rparr>) (nodes s)\<rparr>)"
  by (auto simp: apply_transition_at_def ebind_eq_Inr apply_transition_Inr split: option.splits)

lemma apply_transition_at_lookup:
  assumes "apply_transition_at s k to = Inr s'"
  shows "map_of (nodes s') j = (if j = k then map_option (n_status_update (\<lambda>_. to)) (map_of (nodes s) k)
           else map_of (nodes s) j)"
  using assms by (auto simp: apply_transition_at_Inr)

lemma apply_transition_at_status:
  "apply_transition_at s k to = Inr s' \<Longrightarrow> status_of s' j = (if j = k then Some to else status_of s j)"
  by (auto simp: apply_transition_at_Inr status_of_def)

lemma apply_transition_at_frame:
  "apply_transition_at s k to = Inr s' \<Longrightarrow> d_keys (nodes s') = d_keys (nodes s) \<and>
     interventions s' = interventions s \<and> members s' = members s \<and> queue s' = queue s \<and>
     derived_count s' = derived_count s \<and> patch_count s' = patch_count s \<and>
     revision_count s' = revision_count s \<and> next_message s' = next_message s \<and>
     plan_id s' = plan_id s \<and> plan_version s' = plan_version s"
  by (auto simp: apply_transition_at_Inr)

lemma list_all_d_modify:
  "list_all (\<lambda>(k, v). P k v) d \<Longrightarrow> (\<And>v. map_of d k = Some v \<Longrightarrow> P k (f v)) \<Longrightarrow> distinct (d_keys d)
     \<Longrightarrow> list_all (\<lambda>(k, v). P k v) (d_modify k f d)"
  by (auto simp: d_modify_def list_all_iff split: if_splits)

lemma apply_transition_at_wf:
  assumes "state_wf s" and "apply_transition_at s k to = Inr s'"
  shows "state_wf s'"
proof -
  obtain n where n: "map_of (nodes s) k = Some n"
    and s': "s' = s\<lparr>nodes := d_modify k (\<lambda>_. n\<lparr>n_status := to\<rparr>) (nodes s)\<rparr>"
    using assms(2) by (auto simp: apply_transition_at_Inr)
  have "n_id n = k" using assms(1) n by (rule state_wf_node)
  then show ?thesis using assms(1) n s'
    by (auto simp: state_wf_def dict_wf_def intro!: list_all_d_modify)
qed

lemma apply_transition_at_pending [simp]:
  "apply_transition_at s k to = Inr s' \<Longrightarrow> one_pending s' = one_pending s"
  by (auto simp: one_pending_def pending_count_for_def dest!: apply_transition_at_frame)

section \<open>Runs of the status machine\<close>

inductive status_step :: "NodeStatus \<Rightarrow> NodeStatus \<Rightarrow> bool" where
  "to \<in> ALLOWED_TRANSITIONS st \<Longrightarrow> status_step st to"

inductive_simps status_step_from: "status_step st to"

definition FINAL_STATUSES :: "NodeStatus set" where
  "FINAL_STATUSES = {COMPLETED, CANCELED, INVALIDATED}"

lemma final_no_step: "st \<in> FINAL_STATUSES \<Longrightarrow> \<not> status_step st to"
  by (auto simp: FINAL_STATUSES_def status_step_from)

text \<open>Several status changes in a row, as the handlers make them on one node.\<close>

fun apply_transitions :: "NodeState \<Rightarrow> NodeStatus list \<Rightarrow> exn + NodeState" where
  "apply_transitions n [] = Inr n"
| "apply_transitions n (t # ts) = ebind (apply_transition n t) (\<lambda>n'. apply_transitions n' ts)"

lemma apply_transitions_rtranclp:
  "apply_transitions n ts = Inr n' \<Longrightarrow> status_step\<^sup>*\<^sup>* (n_status n) (n_status n')"
proof (induction ts arbitrary: n)
  case (Cons t ts)
  then obtain m where m: "apply_transition n t = Inr m" and r: "apply_transitions m ts = Inr n'"
    by (auto simp: ebind_eq_Inr)
  have "status_step\<^sup>*\<^sup>* (n_status n) (n_status m)"
    using m by (auto simp: apply_transition_Inr can_transition_def status_step.intros split: if_splits)
  with Cons.IH [OF r] show ?case by simp
qed simp

lemma status_steps_final: "status_step\<^sup>*\<^sup>* st to \<Longrightarrow> st \<in> FINAL_STATUSES \<Longrightarrow> to = st"
  by (induction rule: converse_rtranclp_induct) (auto dest: final_no_step)

text \<open>A node that is completed, canceled or invalidated never changes its status again: every
  sequence of status changes the guard accepts leaves it where it is.\<close>

theorem final_status_absorbing:
  assumes "apply_transitions n ts = Inr n'" and "n_status n \<in> {COMPLETED, CANCELED, INVALIDATED}"
  shows "n_status n' = n_status n \<and> set ts \<subseteq> {n_status n}"
proof -
  have f: "n_status n \<in> FINAL_STATUSES" using assms(2) by (simp add: FINAL_STATUSES_def)
  have "n_status n' = n_status n"
    using status_steps_final [OF apply_transitions_rtranclp [OF assms(1)] f] .
  moreover have "set ts \<subseteq> {n_status n}"
    using assms(1) f
  proof (induction ts arbitrary: n)
    case (Cons t ts)
    then obtain m where m: "apply_transition n t = Inr m" "apply_transitions m ts = Inr n'"
      by (auto simp: ebind_eq_Inr)
    then have "t = n_status n" "n_status m = n_status n"
      using Cons.prems(2) by (auto simp: apply_transition_Inr can_transition_def FINAL_STATUSES_def split: if_splits)
    with Cons.IH [OF m(2)] Cons.prems(2) show ?case by auto
  qed simp
  ultimately show ?thesis ..
qed

theorem final_status_absorbing_witness:
  "\<exists>n. apply_transitions (new_node (py ''n1'') [] (py ''A'')) [SUBMITTED, WORKING, COMPLETED] = Inr n
     \<and> apply_transitions n [COMPLETED] = Inr n \<and> n_status n = COMPLETED
     \<and> set [COMPLETED] \<subseteq> {n_status n}"
proof -
  define n where "n = (new_node (py ''n1'') [] (py ''A''))\<lparr>n_status := COMPLETED\<rparr>"
  have r: "apply_transitions (new_node (py ''n1'') [] (py ''A'')) [SUBMITTED, WORKING, COMPLETED] = Inr n"
    by (simp add: apply_transition_def can_transition_def new_node_def n_def)
  have c: "apply_transitions n [COMPLETED] = Inr n" "n_status n \<in> {COMPLETED, CANCELED, INVALIDATED}"
    by (simp_all add: apply_transition_def can_transition_def n_def)
  show ?thesis using r c final_status_absorbing [OF c] by (auto simp: n_def)
qed

text \<open>No status is a trap: from every status that is not final, a final status is reachable,
  and a new (pending) node can reach every status of the machine.\<close>

theorem status_machine_live:
  "(st \<notin> {COMPLETED, CANCELED, INVALIDATED} \<longrightarrow> (\<exists>to \<in> {COMPLETED, CANCELED, INVALIDATED}. status_step\<^sup>*\<^sup>* st to))
   \<and> status_step\<^sup>*\<^sup>* PENDING st'"
proof
  show "st \<notin> {COMPLETED, CANCELED, INVALIDATED} \<longrightarrow>
      (\<exists>to \<in> {COMPLETED, CANCELED, INVALIDATED}. status_step\<^sup>*\<^sup>* st to)"
    by (cases st) (auto intro!: bexI [of _ INVALIDATED] r_into_rtranclp status_step.intros)
  have w: "status_step\<^sup>*\<^sup>* PENDING WORKING"
    by (rule rtranclp_trans [OF r_into_rtranclp r_into_rtranclp, of _ _ SUBMITTED]) (auto intro: status_step.intros)
  have one: "status_step PENDING t \<Longrightarrow> status_step\<^sup>*\<^sup>* PENDING t" for t by blast
  have two: "status_step WORKING t \<Longrightarrow> status_step\<^sup>*\<^sup>* PENDING t" for t
    using w by (rule rtranclp.rtrancl_into_rtrancl)
  show "status_step\<^sup>*\<^sup>* PENDING st'"
    by (cases st') (simp_all add: w two one status_step_from)
qed

theorem status_machine_live_witness:
  "\<exists>to \<in> {COMPLETED, CANCELED, INVALIDATED}. status_step\<^sup>*\<^sup>* FAILED to"
  using status_machine_live [of FAILED] by simp

end
