(* ===== verification/Context.thy ===== *)
theory Context
  imports Snapshot Transitions
begin

text \<open>
  The turn context every orchestration handler works on, and the operations all of them use: event
  emission (\<open>orchestration/events.py\<close>, \<open>core/events.py\<close>, \<open>a2a/wire.py\<close>), persistence and eviction
  (\<open>orchestration/session.py\<close>, \<open>store/contexts.py\<close>), tool execution and room members
  (\<open>orchestration/helpers.py\<close>, \<open>tools/join_members.py\<close>), and the status change that also emits
  (\<open>transition\<close>).

  One record \<open>ctx\<close> holds what Python spreads over \<open>OrchestrationContext\<close>, \<open>SessionRuntime\<close>,
  \<open>SessionManager\<close> and the stores behind them.  Handlers are functions on it, executed atomically.
  Emitted events are appended to a log.  \<open>uuid4().hex\<close> and \<open>now_iso()\<close> read the streams \<open>c_uuid\<close> and
  \<open>c_now\<close> at a tick counter; artifact ids of one-shot artifacts, timestamps of status events and
  logging are left out.  JSON texts are printed by \<open>json_text\<close>; the state snapshot is kept as the
  JSON value.
\<close>

section \<open>Data\<close>

datatype TaskState = TASK_SUBMITTED | TASK_WORKING | TASK_COMPLETED | TASK_FAILED | TASK_CANCELED
  | TASK_INPUT_REQUIRED | TASK_REJECTED | TASK_AUTH_REQUIRED

datatype CwType = THOUGHT | TEXT | FUNCTION_CALL | CW_QUESTION | DECISION | HISTORY | COMPACTION

datatype role = USER | ASSISTANT

datatype ChatMessage =
    UserMessage pystr
  | AssistantMessage pystr
  | AssistantToolCall pystr pystr pystr
  | ToolMessage pystr pystr

text \<open>The A2A events.  A status update carries its state, its metadata (\<open>None\<close> values stripped), the
  snapshot under \<open>choirworks.state\<close> when there is one, and the question parts of its message.  A node
  artifact carries what a remote agent produced: its id (\<open>None\<close> for a fresh one), name, text, author, node.\<close>

datatype a2a_event =
    TaskCreated
  | StatusUpdate TaskState "(pystr \<times> json) list" "json option" "(pystr \<times> json) list option"
  | ChunkArtifact CwType pystr pystr pystr bool bool
  | RecordArtifact CwType role pystr
  | CompactionArtifact int pystr
  | FunctionCallArtifact pystr json json pystr pystr pystr
  | NodeArtifact "pystr option" pystr pystr pystr pystr bool bool

record AgentRecord =
  ag_id :: pystr
  ag_name :: pystr
  ag_card_url :: pystr
  ag_card :: json
  ag_health :: pystr
  ag_last_seen :: "pystr option"
  ag_created_at :: pystr

text \<open>\<open>node_timeout\<close> appears only in an error text and is kept as printed.\<close>

record ExecutorConfig =
  cfg_max_parallel :: int
  cfg_node_timeout :: pystr
  cfg_max_node_attempts :: int
  cfg_max_derived_nodes :: int
  cfg_max_revisions :: int
  cfg_replan_on_failure :: bool
  cfg_max_nodes :: nat
  cfg_max_plan_retries :: int

record QuestionResponse =
  qr_intervention_id :: pystr
  qr_answer :: answer

record RoomOptions =
  ro_mentions :: "pystr list"
  ro_quote_id :: "pystr option"
  ro_interrupt :: bool

record ctx =
  c_state :: OrchestrationState
  c_task_id :: pystr
  c_context_id :: pystr
  c_messages :: "ChatMessage list"
  c_compaction :: "(int \<times> pystr) option"
  c_events :: "(pystr \<times> pystr \<times> a2a_event) list"
  c_config :: ExecutorConfig
  c_agents :: "AgentRecord list"
  c_store :: "(pystr, json) dict"
  c_active :: bool
  c_runner :: bool
  c_node_tasks :: "(nat \<times> pystr) list"
  c_settle_tasks :: "(nat \<times> pystr) list"
  c_next_task :: nat
  c_wake :: bool
  c_cancels :: "(pystr \<times> pystr) list"
  c_uuid :: "nat \<Rightarrow> pystr"
  c_now :: "nat \<Rightarrow> pystr"
  c_tick :: nat
  c_text :: pystr
  c_room :: RoomOptions
  c_responses :: "QuestionResponse list"
  c_malformed :: "pystr option"
  c_needs_runner :: bool
  c_quote_id :: "pystr option"
  c_target :: "pystr option"

abbreviation set_state :: "OrchestrationState \<Rightarrow> ctx \<Rightarrow> ctx" where
  "set_state s c \<equiv> c\<lparr>c_state := s\<rparr>"

abbreviation set_node :: "pystr \<Rightarrow> (NodeState \<Rightarrow> NodeState) \<Rightarrow> ctx \<Rightarrow> ctx" where
  "set_node k f c \<equiv> c\<lparr>c_state := (c_state c)\<lparr>nodes := d_modify k f (nodes (c_state c))\<rparr>\<rparr>"

definition new_uuid :: "ctx \<Rightarrow> pystr \<times> ctx" where
  "new_uuid c = (c_uuid c (c_tick c), c\<lparr>c_tick := Suc (c_tick c)\<rparr>)"

section \<open>JSON text\<close>

definition hex_digit :: "nat \<Rightarrow> nat" where
  "hex_digit n = (if n < 10 then 48 + n else 87 + n)"

definition json_escape :: "nat \<Rightarrow> pystr" where
  "json_escape ch = (if ch = 34 then [92, 34] else if ch = 92 then [92, 92] else if ch = 10 then py [CHR 0x5C, CHR ''n'']
     else if ch = 13 then [92, 114] else if ch = 9 then [92, 116] else if ch = 8 then [92, 98]
     else if ch = 12 then [92, 102]
     else if ch < 32 then [92, 117, 48, 48, hex_digit (ch div 16), hex_digit (ch mod 16)] else [ch])"

definition json_string :: "pystr \<Rightarrow> pystr" where
  "json_string s = [34] @ concat (map json_escape s) @ [34]"

text \<open>\<open>json.dumps(v, ensure_ascii=False, separators=(",", ":"))\<close>, also what \<open>model_dump_json\<close> prints.\<close>

fun json_text :: "json \<Rightarrow> pystr" and json_items :: "json list \<Rightarrow> pystr list"
    and json_fields :: "(pystr \<times> json) list \<Rightarrow> pystr list" where
  "json_text JNull = py ''null''"
| "json_text (JBool b) = (if b then py ''true'' else py ''false'')"
| "json_text (JInt i) = int_str i"
| "json_text (JStr s) = json_string s"
| "json_text (JArr xs) = py ''['' @ str_join (py '','') (json_items xs) @ py '']''"
| "json_text (JObj d) = py ''{'' @ str_join (py '','') (json_fields d) @ py ''}''"
| "json_items [] = []"
| "json_items (x # xs) = json_text x # json_items xs"
| "json_fields [] = []"
| "json_fields ((k, v) # d) = (json_string k @ py '':'' @ json_text v) # json_fields d"

text \<open>\<open>strip_none\<close> of \<open>a2a/wire.py\<close>.\<close>

fun strip_none :: "json \<Rightarrow> json" and strip_list :: "json list \<Rightarrow> json list"
    and strip_fields :: "(pystr \<times> json) list \<Rightarrow> (pystr \<times> json) list" where
  "strip_none (JArr xs) = JArr (strip_list xs)"
| "strip_none (JObj d) = JObj (strip_fields d)"
| "strip_none JNull = JNull"
| "strip_none (JBool b) = JBool b"
| "strip_none (JInt i) = JInt i"
| "strip_none (JStr s) = JStr s"
| "strip_list [] = []"
| "strip_list (x # xs) = strip_none x # strip_list xs"
| "strip_fields [] = []"
| "strip_fields ((k, v) # d) = (if v = JNull then strip_fields d else (k, strip_none v) # strip_fields d)"

section \<open>Events\<close>

definition emit :: "a2a_event \<Rightarrow> ctx \<Rightarrow> ctx" where
  "emit ev c = c\<lparr>c_events := c_events c @ [(c_task_id c, c_context_id c, ev)]\<rparr>"

definition TERMINAL_TASK_STATES :: "TaskState set" where
  "TERMINAL_TASK_STATES = {TASK_COMPLETED, TASK_CANCELED, TASK_FAILED, TASK_REJECTED}"

definition effective_state :: "ctx \<Rightarrow> TaskState \<Rightarrow> TaskState" where
  "effective_state c state_name = (if state_name \<in> TERMINAL_TASK_STATES then state_name
     else if pending_interventions (c_state c) \<noteq> [] then TASK_INPUT_REQUIRED else state_name)"

definition emit_event :: "TaskState \<Rightarrow> (pystr \<times> json) list \<Rightarrow> json option \<Rightarrow> (pystr \<times> json) list option \<Rightarrow> ctx \<Rightarrow> ctx" where
  "emit_event state_name metadata snapshot message c =
     emit (StatusUpdate (effective_state c state_name) (strip_fields metadata) snapshot message) c"

definition emit_state :: "TaskState \<Rightarrow> ctx \<Rightarrow> ctx" where
  "emit_state state_name = emit_event state_name [] None None"

definition emit_intervention_rejected :: "pystr \<Rightarrow> pystr \<Rightarrow> ctx \<Rightarrow> ctx" where
  "emit_intervention_rejected intervention_id reason =
     emit_event TASK_WORKING [(py ''intervention_id'', JStr intervention_id), (py ''reason'', JStr reason)] None None"

type_synonym delta = "(pystr \<times> json) list"

text \<open>\<open>emit_state_delta(ctx, nodes=..., members=..., interventions=...)\<close>: empty sections are omitted and an
  empty delta is not sent.\<close>

definition emit_state_delta :: "(pystr \<times> delta) list \<Rightarrow> delta list \<Rightarrow> (pystr \<times> delta) list \<Rightarrow> ctx \<Rightarrow> ctx" where
  "emit_state_delta ns ms ivs c =
     (let objs = (\<lambda>xs. JObj (map (\<lambda>(k, d). (k, JObj d)) xs));
          d = (if ns = [] then [] else [(py ''nodes'', objs ns)])
            @ (if ms = [] then [] else [(py ''members'', JArr (map JObj ms))])
            @ (if ivs = [] then [] else [(py ''interventions'', objs ivs)])
      in if d = [] then c
         else emit (StatusUpdate (effective_state c TASK_WORKING)
                (strip_fields [(py ''cw_delta'', JObj d)]) None None) c)"

definition emit_interventions_expired :: "Intervention list \<Rightarrow> ctx \<Rightarrow> ctx" where
  "emit_interventions_expired expired c = (if expired = [] then c
     else emit_state_delta [] [] (map (\<lambda>iv. (iv_id iv,
       [(py ''status'', JStr (py ''expired'')), (py ''node_id'', JStr (iv_node_id iv)),
        (py ''kind'', JStr (intervention_kind_str (iv_kind iv)))])) expired) c)"

definition emit_thought_chunk :: "pystr \<Rightarrow> pystr \<Rightarrow> bool \<Rightarrow> bool \<Rightarrow> pystr \<Rightarrow> ctx \<Rightarrow> ctx" where
  "emit_thought_chunk txt author app last_chunk artifact_id =
     emit (ChunkArtifact THOUGHT author artifact_id txt app last_chunk)"

definition emit_text_chunk :: "pystr \<Rightarrow> bool \<Rightarrow> bool \<Rightarrow> pystr \<Rightarrow> ctx \<Rightarrow> ctx" where
  "emit_text_chunk txt app last_chunk artifact_id =
     emit (ChunkArtifact TEXT (py ''assistant'') artifact_id txt app last_chunk)"

definition record_tool_exchange :: "pystr \<Rightarrow> pystr \<Rightarrow> pystr \<Rightarrow> pystr \<Rightarrow> ctx \<Rightarrow> ctx" where
  "record_tool_exchange function_name call_id args_json result_json c =
     c\<lparr>c_messages := c_messages c @ [AssistantToolCall call_id function_name args_json, ToolMessage call_id result_json]\<rparr>"

text \<open>\<open>call_id or uuid.uuid4().hex\<close>\<close>

definition or_uuid :: "pystr \<Rightarrow> ctx \<Rightarrow> pystr \<times> ctx" where
  "or_uuid call_id c = (if call_id = [] then new_uuid c else (call_id, c))"

definition emit_function_call :: "pystr \<Rightarrow> json \<Rightarrow> json \<Rightarrow> pystr \<Rightarrow> TaskState \<Rightarrow> ctx \<Rightarrow> ctx" where
  "emit_function_call name args result call_id state_name c =
     (let (cid, c1) = or_uuid call_id c
      in emit_state state_name
           (emit (FunctionCallArtifact name args result cid (json_text args) (json_text result))
             (record_tool_exchange name cid (json_text args) (json_text result) c1)))"

definition emit_function_error :: "pystr \<Rightarrow> pystr \<Rightarrow> pystr \<Rightarrow> pystr \<Rightarrow> TaskState \<Rightarrow> ctx \<Rightarrow> ctx" where
  "emit_function_error name error call_id args_json state_name c =
     (let (cid, c1) = or_uuid call_id c;
          aj = (if args_json = [] then py ''{}'' else args_json);
          result = JObj [(py ''success'', JBool False), (py ''error'', JStr error)]
      in emit_state state_name
           (emit (FunctionCallArtifact name (JObj []) result cid aj (json_text result))
             (record_tool_exchange name cid aj (json_text result) c1)))"

definition record_as :: "CwType \<Rightarrow> role \<Rightarrow> pystr \<Rightarrow> ctx \<Rightarrow> ctx" where
  "record_as cw r content c = emit (RecordArtifact cw r content)
     (c\<lparr>c_messages := c_messages c @ [if r = USER then UserMessage content else AssistantMessage content]\<rparr>)"

definition record_decision :: "pystr \<Rightarrow> ctx \<Rightarrow> ctx" where
  "record_decision content = record_as DECISION ASSISTANT content"

definition record_message :: "role \<Rightarrow> pystr \<Rightarrow> ctx \<Rightarrow> ctx" where
  "record_message r content = record_as HISTORY r content"

definition emit_compaction :: "int \<Rightarrow> pystr \<Rightarrow> ctx \<Rightarrow> ctx" where
  "emit_compaction compacted_count summary = emit (CompactionArtifact compacted_count summary)"

section \<open>Session\<close>

definition upsert_state :: "pystr \<Rightarrow> json \<Rightarrow> (pystr, json) dict \<Rightarrow> (pystr, json) dict" where
  "upsert_state context_id snapshot store = AList.update context_id snapshot store"

definition persist :: "ctx \<Rightarrow> ctx" where
  "persist c = (let snapshot = state_to_json (c_state c)
     in emit_event TASK_WORKING [] (Some snapshot) None
          (c\<lparr>c_store := upsert_state (c_context_id c) snapshot (c_store c)\<rparr>))"

definition evict_session :: "ctx \<Rightarrow> ctx" where
  "evict_session c = (if c_active c
     then c\<lparr>c_active := False, c_runner := False, c_node_tasks := [], c_settle_tasks := []\<rparr> else c)"

definition start_runner :: "ctx \<Rightarrow> ctx" where
  "start_runner c = (if c_runner c then c else c\<lparr>c_runner := True\<rparr>)"

text \<open>\<open>SessionManager.load_state\<close>: the row's text parsed, damaged text ignored.\<close>

definition session_load_state :: "pystr \<Rightarrow> (pystr, json) dict \<Rightarrow> pystr \<Rightarrow> exn + OrchestrationState option" where
  "session_load_state now store context_id = (case map_of store context_id of
      None \<Rightarrow> Inr None
    | Some snapshot \<Rightarrow> load_state now (Some (Some snapshot)))"

text \<open>\<open>ensure_session\<close>: an existing runtime is kept, otherwise one is built from the stored state; either way
  it now serves this turn's task.\<close>

definition ensure_session :: "pystr \<Rightarrow> ctx \<Rightarrow> exn + ctx" where
  "ensure_session task_id c =
     ebind (if c_active c then Inr c
            else ebind (session_load_state (c_now c (c_tick c)) (c_store c) (c_context_id c)) (\<lambda>st.
              Inr (c\<lparr>c_state := (case st of None \<Rightarrow> empty_state | Some s \<Rightarrow> s), c_tick := Suc (c_tick c),
                     c_messages := [], c_runner := False, c_node_tasks := [], c_settle_tasks := [],
                     c_wake := False, c_active := True\<rparr>))) (\<lambda>c1.
       Inr (c1\<lparr>c_task_id := task_id\<rparr>))"

section \<open>Registry lookups\<close>

text \<open>\<open>SELECT * FROM agent_registry ORDER BY name\<close>\<close>

definition registry_list :: "ctx \<Rightarrow> AgentRecord list" where
  "registry_list c = sort_key ag_name (c_agents c)"

definition get_by_name :: "pystr \<Rightarrow> ctx \<Rightarrow> AgentRecord option" where
  "get_by_name name c = List.find (\<lambda>a. ag_name a = name) (c_agents c)"

definition agent_url_for :: "pystr \<Rightarrow> ctx \<Rightarrow> exn + pystr" where
  "agent_url_for agent_name c = (case get_by_name agent_name c of
      None \<Rightarrow> Inl (UnknownAgentError (py ''unknown agent: '' @ agent_name))
    | Some a \<Rightarrow> Inr (ag_card_url a))"

section \<open>Tools\<close>

record 'd FunctionResult =
  fr_success :: bool
  fr_data :: "'d option"
  fr_error :: "pystr option"

definition tool_ok :: "'d \<Rightarrow> 'd FunctionResult" where
  "tool_ok d = \<lparr>fr_success = True, fr_data = Some d, fr_error = None\<rparr>"

definition tool_error :: "pystr \<Rightarrow> 'd FunctionResult" where
  "tool_error e = \<lparr>fr_success = False, fr_data = None, fr_error = Some e\<rparr>"

definition dump_result :: "('d \<Rightarrow> json) \<Rightarrow> 'd FunctionResult \<Rightarrow> json" where
  "dump_result dump r = JObj [(py ''success'', JBool (fr_success r)),
     (py ''data'', case fr_data r of None \<Rightarrow> JNull | Some d \<Rightarrow> dump d), (py ''error'', jopt (fr_error r))]"

record FunctionTool =
  ft_name :: pystr
  ft_emit_artifact :: bool

text \<open>\<open>execute_function\<close>: \<open>run\<close> is the tool's \<open>run_async\<close> on these arguments, \<open>args\<close> their dump.\<close>

definition execute_function :: "FunctionTool \<Rightarrow> ('d \<Rightarrow> json) \<Rightarrow> json \<Rightarrow> (ctx \<Rightarrow> exn + ('d FunctionResult \<times> ctx)) \<Rightarrow> pystr
    \<Rightarrow> ctx \<Rightarrow> exn + ('d FunctionResult \<times> ctx)" where
  "execute_function tool dump args run call_id c = ebind (run c) (\<lambda>(result, c1).
     Inr (result, if ft_emit_artifact tool
       then emit_function_call (ft_name tool) args (dump_result dump result) call_id TASK_WORKING c1 else c1))"

subsection \<open>join\_members\<close>

definition join_members_tool :: FunctionTool where
  "join_members_tool = \<lparr>ft_name = py ''join_members'', ft_emit_artifact = True\<rparr>"

definition join_one :: "pystr list \<Rightarrow> pystr \<Rightarrow> pystr \<Rightarrow> ctx \<times> pystr list \<Rightarrow> ctx \<times> pystr list" where
  "join_one known reason name = (\<lambda>(c, joined).
     (if name \<notin> set known then (c, joined)
      else let (fresh, s) = add_member (c_now c (c_tick c)) (c_state c) name reason
           in if fresh then (set_state s (c\<lparr>c_tick := Suc (c_tick c)\<rparr>), joined @ [name]) else (c, joined)))"

definition join_members_run :: "pystr list \<Rightarrow> pystr \<Rightarrow> ctx \<Rightarrow> exn + (pystr list FunctionResult \<times> ctx)" where
  "join_members_run names reason c =
     (let (c1, joined) = fold (join_one (map ag_name (registry_list c)) reason) (fromkeys names) (c, [])
      in Inr (tool_ok joined, c1))"

definition join_members :: "pystr list \<Rightarrow> pystr \<Rightarrow> ctx \<Rightarrow> exn + ctx" where
  "join_members names reason c =
     (let requested = filter (\<lambda>name. \<not> d_has (members (c_state c)) name) (fromkeys names)
      in if requested = [] then Inr c
         else ebind (execute_function join_members_tool (\<lambda>joined. JObj [(py ''joined'', jstrs joined)])
                (JObj [(py ''names'', jstrs requested), (py ''reason'', JStr reason)])
                (join_members_run requested reason) [] c) (\<lambda>(result, c1).
           let joined = (case fr_data result of None \<Rightarrow> [] | Some j \<Rightarrow> j)
           in if joined = [] then Inr c1
              else Inr (emit_state_delta [] (map (\<lambda>name. [(py ''agent_name'', JStr name), (py ''reason'', JStr reason)])
                joined) [] c1)))"

section \<open>transition\<close>

text \<open>\<open>{**delta, "status": to}\<close>\<close>

definition status_delta :: "delta \<Rightarrow> NodeStatus \<Rightarrow> delta" where
  "status_delta d to = AList.update (py ''status'') (JStr (node_status_str to)) d"

definition transition :: "pystr \<Rightarrow> NodeStatus \<Rightarrow> bool \<Rightarrow> delta \<Rightarrow> ctx \<Rightarrow> exn + ctx" where
  "transition k to emits d c = ebind (apply_transition_at (c_state c) k to) (\<lambda>s.
     let c1 = set_state s c in Inr (if emits then emit_state_delta [(k, status_delta d to)] [] [] c1 else c1))"

section \<open>Frames: emitting and recording leave the state alone\<close>

named_theorems frames \<open>what the context operations leave unchanged\<close>

lemma emit_frame [simp, frames]:
  "c_state (emit ev c) = c_state c" "c_config (emit ev c) = c_config c" "c_agents (emit ev c) = c_agents c"
  "c_active (emit ev c) = c_active c" "c_runner (emit ev c) = c_runner c" "c_node_tasks (emit ev c) = c_node_tasks c"
  "c_settle_tasks (emit ev c) = c_settle_tasks c" "c_cancels (emit ev c) = c_cancels c" "c_messages (emit ev c) = c_messages c"
  "c_context_id (emit ev c) = c_context_id c" "c_task_id (emit ev c) = c_task_id c" "c_store (emit ev c) = c_store c"
  by (simp_all add: emit_def)

lemma emit_event_frame [simp, frames]:
  "c_state (emit_event t m sn q c) = c_state c" "c_config (emit_event t m sn q c) = c_config c"
  "c_agents (emit_event t m sn q c) = c_agents c" "c_active (emit_event t m sn q c) = c_active c"
  "c_node_tasks (emit_event t m sn q c) = c_node_tasks c" "c_settle_tasks (emit_event t m sn q c) = c_settle_tasks c"
  "c_runner (emit_event t m sn q c) = c_runner c" "c_cancels (emit_event t m sn q c) = c_cancels c"
  by (simp_all add: emit_event_def)

lemma emit_state_frame [simp, frames]:
  "c_state (emit_state t c) = c_state c" "c_config (emit_state t c) = c_config c" "c_agents (emit_state t c) = c_agents c"
  "c_node_tasks (emit_state t c) = c_node_tasks c" "c_settle_tasks (emit_state t c) = c_settle_tasks c"
  "c_runner (emit_state t c) = c_runner c" "c_active (emit_state t c) = c_active c"
  by (simp_all add: emit_state_def)

lemma emit_state_delta_frame [simp, frames]:
  "c_state (emit_state_delta ns ms ivs c) = c_state c" "c_config (emit_state_delta ns ms ivs c) = c_config c"
  "c_agents (emit_state_delta ns ms ivs c) = c_agents c" "c_node_tasks (emit_state_delta ns ms ivs c) = c_node_tasks c"
  "c_settle_tasks (emit_state_delta ns ms ivs c) = c_settle_tasks c" "c_runner (emit_state_delta ns ms ivs c) = c_runner c"
  by (simp_all add: emit_state_delta_def Let_def)

lemma emit_misc_frame [simp, frames]:
  "c_state (emit_intervention_rejected i r c) = c_state c" "c_state (emit_interventions_expired ivs c) = c_state c"
  "c_config (emit_intervention_rejected i r c) = c_config c" "c_config (emit_interventions_expired ivs c) = c_config c"
  "c_node_tasks (emit_intervention_rejected i r c) = c_node_tasks c" "c_node_tasks (emit_interventions_expired ivs c) = c_node_tasks c"
  "c_settle_tasks (emit_intervention_rejected i r c) = c_settle_tasks c"
  "c_settle_tasks (emit_interventions_expired ivs c) = c_settle_tasks c"
  "c_state (emit_thought_chunk x a p l i c) = c_state c" "c_state (emit_text_chunk x p l i c) = c_state c"
  "c_config (emit_thought_chunk x a p l i c) = c_config c" "c_config (emit_text_chunk x p l i c) = c_config c"
  "c_state (emit_compaction n x c) = c_state c" "c_config (emit_compaction n x c) = c_config c"
  by (simp_all add: emit_intervention_rejected_def emit_interventions_expired_def emit_thought_chunk_def emit_text_chunk_def
      emit_compaction_def)

lemma record_as_frame [simp, frames]:
  "c_state (record_as cw r x c) = c_state c" "c_config (record_as cw r x c) = c_config c"
  "c_agents (record_as cw r x c) = c_agents c" "c_node_tasks (record_as cw r x c) = c_node_tasks c"
  "c_settle_tasks (record_as cw r x c) = c_settle_tasks c" "c_runner (record_as cw r x c) = c_runner c"
  "c_cancels (record_as cw r x c) = c_cancels c"
  by (simp_all add: record_as_def emit_def)

lemma record_message_frame [simp, frames]:
  "c_state (record_message r x c) = c_state c" "c_config (record_message r x c) = c_config c"
  "c_agents (record_message r x c) = c_agents c" "c_node_tasks (record_message r x c) = c_node_tasks c"
  "c_settle_tasks (record_message r x c) = c_settle_tasks c" "c_runner (record_message r x c) = c_runner c"
  "c_cancels (record_message r x c) = c_cancels c"
  by (simp_all add: record_message_def)

lemma record_decision_frame [simp, frames]:
  "c_state (record_decision x c) = c_state c" "c_config (record_decision x c) = c_config c"
  "c_agents (record_decision x c) = c_agents c" "c_node_tasks (record_decision x c) = c_node_tasks c"
  "c_settle_tasks (record_decision x c) = c_settle_tasks c" "c_runner (record_decision x c) = c_runner c"
  by (simp_all add: record_decision_def)

lemma new_uuid_frame [simp, frames]:
  "c_state (snd (new_uuid c)) = c_state c" "c_config (snd (new_uuid c)) = c_config c" "c_agents (snd (new_uuid c)) = c_agents c"
  by (simp_all add: new_uuid_def)

lemma or_uuid_frame [simp, frames]:
  "c_state (snd (or_uuid i c)) = c_state c" "c_config (snd (or_uuid i c)) = c_config c" "c_agents (snd (or_uuid i c)) = c_agents c"
  "c_node_tasks (snd (or_uuid i c)) = c_node_tasks c" "c_settle_tasks (snd (or_uuid i c)) = c_settle_tasks c"
  by (simp_all add: or_uuid_def new_uuid_def)

lemma emit_function_call_frame [simp, frames]:
  "c_state (emit_function_call n a r i t c) = c_state c" "c_config (emit_function_call n a r i t c) = c_config c"
  "c_agents (emit_function_call n a r i t c) = c_agents c" "c_node_tasks (emit_function_call n a r i t c) = c_node_tasks c"
  "c_settle_tasks (emit_function_call n a r i t c) = c_settle_tasks c"
  by (simp_all add: emit_function_call_def case_prod_beta record_tool_exchange_def)

lemma emit_function_error_frame [simp, frames]:
  "c_state (emit_function_error n e i a t c) = c_state c" "c_config (emit_function_error n e i a t c) = c_config c"
  "c_agents (emit_function_error n e i a t c) = c_agents c" "c_node_tasks (emit_function_error n e i a t c) = c_node_tasks c"
  by (simp_all add: emit_function_error_def case_prod_beta record_tool_exchange_def Let_def)

lemma persist_frame [simp, frames]:
  "c_state (persist c) = c_state c" "c_config (persist c) = c_config c" "c_agents (persist c) = c_agents c"
  "c_node_tasks (persist c) = c_node_tasks c" "c_settle_tasks (persist c) = c_settle_tasks c" "c_runner (persist c) = c_runner c"
  "c_active (persist c) = c_active c" "c_cancels (persist c) = c_cancels c"
  by (simp_all add: persist_def Let_def)

lemma session_frame [simp, frames]:
  "c_state (evict_session c) = c_state c" "c_config (evict_session c) = c_config c" "c_agents (evict_session c) = c_agents c"
  "c_state (start_runner c) = c_state c" "c_config (start_runner c) = c_config c" "c_agents (start_runner c) = c_agents c"
  "c_node_tasks (start_runner c) = c_node_tasks c"
  by (simp_all add: evict_session_def start_runner_def)

text \<open>What \<open>persist\<close> stores is the snapshot of the current state.\<close>

lemma persist_stores: "map_of (c_store (persist c)) (c_context_id c) = Some (state_to_json (c_state c))"
  by (simp add: persist_def Let_def upsert_state_def emit_event_def pd.get_put)

subsection \<open>Joining members\<close>

text \<open>Joining members never raises and changes nothing of the state but its members.\<close>

lemma join_one_frame:
  "join_one known reason name (c, joined) = (c', joined') \<Longrightarrow>
     (\<exists>ms. c_state c' = (c_state c)\<lparr>members := ms\<rparr>) \<and> c_config c' = c_config c \<and> c_agents c' = c_agents c
     \<and> c_node_tasks c' = c_node_tasks c \<and> c_settle_tasks c' = c_settle_tasks c"
  by (cases "c_state c") (auto simp: join_one_def add_member_def Let_def split: if_splits)

lemma join_fold_frame:
  "fold (join_one known reason) names (c, joined) = (c', joined') \<Longrightarrow>
     (\<exists>ms. c_state c' = (c_state c)\<lparr>members := ms\<rparr>) \<and> c_config c' = c_config c \<and> c_agents c' = c_agents c
     \<and> c_node_tasks c' = c_node_tasks c \<and> c_settle_tasks c' = c_settle_tasks c"
proof (induction names arbitrary: c joined)
  case Nil
  then show ?case by (cases "c_state c") auto
next
  case (Cons name names)
  obtain c1 j1 where one: "join_one known reason name (c, joined) = (c1, j1)" by force
  from join_one_frame [OF one] obtain ms where "c_state c1 = (c_state c)\<lparr>members := ms\<rparr>" "c_config c1 = c_config c"
    "c_agents c1 = c_agents c" "c_node_tasks c1 = c_node_tasks c" "c_settle_tasks c1 = c_settle_tasks c" by blast
  with Cons.IH [of c1 j1] Cons.prems one show ?case by auto
qed

lemma join_members_result:
  "\<exists>c'. join_members names reason c = Inr c' \<and> (\<exists>ms. c_state c' = (c_state c)\<lparr>members := ms\<rparr>)
     \<and> c_config c' = c_config c \<and> c_agents c' = c_agents c \<and> c_node_tasks c' = c_node_tasks c
     \<and> c_settle_tasks c' = c_settle_tasks c"
proof -
  let ?req = "filter (\<lambda>name. \<not> d_has (members (c_state c)) name) (fromkeys names)"
  obtain c1 joined where f: "fold (join_one (map ag_name (registry_list c)) reason) (fromkeys ?req) (c, []) = (c1, joined)"
    by force
  have same: "\<exists>ms. c_state c = (c_state c)\<lparr>members := ms\<rparr>" by (cases "c_state c") auto
  show ?thesis using join_fold_frame [OF f] f same
    by (auto simp: join_members_def execute_function_def join_members_run_def tool_ok_def Let_def join_members_tool_def)
qed

lemma join_members_Inr:
  "join_members names reason c = Inr c' \<Longrightarrow> (\<exists>ms. c_state c' = (c_state c)\<lparr>members := ms\<rparr>)
     \<and> c_config c' = c_config c \<and> c_agents c' = c_agents c \<and> c_node_tasks c' = c_node_tasks c
     \<and> c_settle_tasks c' = c_settle_tasks c"
  using join_members_result [of names reason c] by auto

section \<open>A concrete context\<close>

text \<open>A session serving task \<open>t1\<close> of conversation \<open>k1\<close>, with two registered agents, for the examples.\<close>

definition example_config :: ExecutorConfig where
  "example_config = \<lparr>cfg_max_parallel = 5, cfg_node_timeout = py ''600.0'', cfg_max_node_attempts = 2,
     cfg_max_derived_nodes = 5, cfg_max_revisions = 3, cfg_replan_on_failure = True, cfg_max_nodes = 20, cfg_max_plan_retries = 2\<rparr>"

definition example_agent :: "string \<Rightarrow> AgentRecord" where
  "example_agent name = \<lparr>ag_id = py name, ag_name = py name, ag_card_url = py ''http://'' @ py name,
     ag_card = JObj [(py ''description'', JStr (py ''an agent''))], ag_health = py ''ok'', ag_last_seen = None, ag_created_at = []\<rparr>"

definition example_ctx :: "OrchestrationState \<Rightarrow> ctx" where
  "example_ctx s = \<lparr>c_state = s, c_task_id = py ''t1'', c_context_id = py ''k1'', c_messages = [], c_compaction = None,
     c_events = [], c_config = example_config, c_agents = [example_agent ''A'', example_agent ''B''],
     c_store = [], c_active = True, c_runner = True, c_node_tasks = [], c_settle_tasks = [], c_next_task = 0, c_wake = False,
     c_cancels = [], c_uuid = (\<lambda>n. py ''u'' @ nat_str n), c_now = (\<lambda>n. py ''t'' @ nat_str n), c_tick = 0, c_text = [],
     c_room = \<lparr>ro_mentions = [], ro_quote_id = None, ro_interrupt = False\<rparr>, c_responses = [], c_malformed = None,
     c_needs_runner = False, c_quote_id = None, c_target = None\<rparr>"

end
