(* ===== verification/Plan_Check.thy ===== *)
theory Plan_Check
  imports State
begin

text \<open>
  Validation of a plan before it is executed: \<open>validate_plan\<close> of \<open>choirworks/core/planner.py\<close> and
  its twin in \<open>new_choirworks/orchestrator/plan.py\<close>.  Both run the same checks and the same
  Kahn loop over \<open>(id, deps)\<close>; the loop is modelled once, over dicts as in the code, and proved
  to accept exactly the acyclic dependency graphs.
\<close>

section \<open>The Kahn loop\<close>

type_synonym dep_graph = "(pystr \<times> pystr list) list"

text \<open>\<open>{node.id: len(set(node.deps)) for node in nodes}\<close>\<close>

definition indegree_init :: "dep_graph \<Rightarrow> (pystr, int) dict" where
  "indegree_init g = map (\<lambda>(i, ds). (i, int (length (fromkeys ds)))) g"

text \<open>\<open>children[dep].append(node.id)\<close> for every node and every dep of \<open>set(node.deps)\<close>.  Python
  iterates the set in an unspecified order; each list receives the same elements in any order.\<close>

definition children_init :: "dep_graph \<Rightarrow> (pystr, pystr list) dict" where
  "children_init g = fold (\<lambda>(i, ds) ch. fold (\<lambda>dep ch. d_modify dep (\<lambda>l. l @ [i]) ch) (fromkeys ds) ch) g
     (map (\<lambda>(i, ds). (i, [])) g)"

fun relax_children :: "pystr list \<Rightarrow> (pystr, int) dict \<Rightarrow> pystr list \<Rightarrow> (pystr, int) dict \<times> pystr list" where
  "relax_children [] ind q = (ind, q)"
| "relax_children (c # cs) ind q = (let ind' = d_modify c (\<lambda>d. d - 1) ind
     in relax_children cs ind' (if map_of ind' c = Some 0 then q @ [c] else q))"

definition positives :: "(pystr, int) dict \<Rightarrow> nat" where
  "positives ind = card {k \<in> set (d_keys ind). \<exists>d > 0. map_of ind k = Some d}"

lemma positives_decrement:
  "positives (d_modify c (\<lambda>d. d - 1) ind) + (if map_of ind c = Some 1 then 1 else 0) = positives ind"
proof -
  let ?P = "\<lambda>i. {k \<in> set (d_keys i). \<exists>d > 0. map_of i k = Some d}"
  let ?ind' = "d_modify c (\<lambda>d. d - 1) ind"
  have fin: "finite (?P ind)" by simp
  have here: "(\<exists>d > 0. map_of ?ind' c = Some d) \<longleftrightarrow> (\<exists>d > 0. map_of ind c = Some d) \<and> map_of ind c \<noteq> Some 1"
    by (cases "map_of ind c") auto
  show ?thesis
  proof (cases "map_of ind c = Some 1")
    case True
    then have c: "c \<in> ?P ind" using d_has_iff [of c ind] by simp
    have "?P ?ind' = ?P ind - {c}"
    proof (rule set_eqI)
      fix k
      show "k \<in> ?P ?ind' \<longleftrightarrow> k \<in> ?P ind - {c}" using True by (cases "k = c") simp_all
    qed
    then show ?thesis using card_Suc_Diff1 [OF fin c] True by (simp add: positives_def)
  next
    case False
    have "?P ?ind' = ?P ind"
    proof (rule Collect_cong)
      fix k
      show "k \<in> set (d_keys ?ind') \<and> (\<exists>d > 0. map_of ?ind' k = Some d)
          \<longleftrightarrow> k \<in> set (d_keys ind) \<and> (\<exists>d > 0. map_of ind k = Some d)"
        using False here by (cases "k = c") simp_all
    qed
    then show ?thesis using False by (simp add: positives_def)
  qed
qed

lemma relax_children_measure:
  "relax_children cs ind q = (ind', q') \<Longrightarrow> length q' + positives ind' = length q + positives ind"
proof (induction cs arbitrary: ind q)
  case (Cons c cs)
  let ?ind = "d_modify c (\<lambda>d. d - 1) ind"
  have "map_of ?ind c = Some 0 \<longleftrightarrow> map_of ind c = Some 1" by auto
  then show ?case
    using Cons.IH [of ?ind "if map_of ?ind c = Some 0 then q @ [c] else q"] Cons.prems
      positives_decrement [of c ind] by (auto simp: Let_def split: if_splits)
qed simp

text \<open>\<open>queue.pop()\<close> takes the last element; \<open>children[current]\<close> is present for every queued id.\<close>

function kahn_loop :: "(pystr, pystr list) dict \<Rightarrow> (pystr, int) dict \<Rightarrow> pystr list \<Rightarrow> nat \<Rightarrow> nat" where
  "kahn_loop children ind q visited = (if q = [] then visited
     else let cs = (case map_of children (last q) of None \<Rightarrow> [] | Some l \<Rightarrow> l);
              r = relax_children cs ind (butlast q)
          in kahn_loop children (fst r) (snd r) (Suc visited))"
  by pat_completeness auto

termination
proof (relation "measure (\<lambda>(children, ind, q, visited). length q + positives ind)")
  fix children :: "(pystr, pystr list) dict" and ind q and visited :: nat and cs r
  assume q: "q \<noteq> []" and r: "r = relax_children cs ind (butlast q)"
  have "length (snd r) + positives (fst r) = length (butlast q) + positives ind"
    by (rule relax_children_measure [where cs = cs]) (simp add: r)
  moreover have "length (butlast q) < length q" using q by simp
  ultimately show "((children, fst r, snd r, Suc visited), children, ind, q, visited)
      \<in> measure (\<lambda>(children, ind, q, visited). length q + positives ind)" by simp
qed simp

declare kahn_loop.simps [simp del]

definition kahn_visited :: "dep_graph \<Rightarrow> nat" where
  "kahn_visited g = kahn_loop (children_init g) (indegree_init g)
     (map fst (filter (\<lambda>(i, d). d = 0) (indegree_init g))) 0"

section \<open>The Kahn loop accepts exactly the acyclic graphs\<close>

definition dep_edges :: "dep_graph \<Rightarrow> (pystr \<times> pystr) set" where
  "dep_edges g = {(d, i). \<exists>ds. (i, ds) \<in> set g \<and> d \<in> set ds}"

lemma fold_append_lookup:
  "distinct ds \<Longrightarrow> map_of (fold (\<lambda>dep ch. d_modify dep (\<lambda>l. l @ [i]) ch) ds ch) c
     = map_option (\<lambda>l. if c \<in> set ds then l @ [i] else l) (map_of ch c)"
  by (induction ds arbitrary: ch) (auto simp: map_option_case split: option.splits)

lemma children_fold_lookup:
  "map_of (fold (\<lambda>(i, ds) ch. fold (\<lambda>dep ch. d_modify dep (\<lambda>l. l @ [i]) ch) (fromkeys ds) ch) g ch) c
     = map_option (\<lambda>l. l @ map fst (filter (\<lambda>(i, ds). c \<in> set ds) g)) (map_of ch c)"
  by (induction g arbitrary: ch) (auto simp: fold_append_lookup map_option_case split: option.splits)

lemma children_init_lookup:
  "c \<in> set (map fst g) \<Longrightarrow> map_of (children_init g) c = Some (map fst (filter (\<lambda>(i, ds). c \<in> set ds) g))"
proof -
  assume "c \<in> set (map fst g)"
  then have "map_of (map (\<lambda>(i, ds). (i, [])) g) c = Some []"
    by (induction g) auto
  then show ?thesis by (simp add: children_init_def children_fold_lookup)
qed

lemma relax_children_closed:
  "distinct cs \<Longrightarrow>
     (\<forall>k. map_of (fst (relax_children cs ind q)) k
            = map_option (\<lambda>d. if k \<in> set cs then d - 1 else d) (map_of ind k))
     \<and> snd (relax_children cs ind q) = q @ filter (\<lambda>c. map_of ind c = Some 1) cs"
proof (induction cs arbitrary: ind q)
  case Nil
  then show ?case by (simp add: option.map_ident)
next
  case (Cons c cs)
  let ?ind = "d_modify c (\<lambda>d. d - 1) ind"
  have c: "map_of ?ind c = Some 0 \<longleftrightarrow> map_of ind c = Some 1" by auto
  have f: "filter (\<lambda>c. map_of ?ind c = Some 1) cs = filter (\<lambda>c. map_of ind c = Some 1) cs"
    using Cons.prems by (intro filter_cong) auto
  show ?case
    using Cons.IH [of ?ind "if map_of ?ind c = Some 0 then q @ [c] else q"] Cons.prems c f
    by (auto simp: Let_def map_option_case split: option.splits)
qed

text \<open>The loop invariant: \<open>P\<close> is the list of processed ids, newest first.\<close>

fun topo_rev :: "dep_graph \<Rightarrow> pystr list \<Rightarrow> bool" where
  "topo_rev g [] = True"
| "topo_rev g (x # xs) \<longleftrightarrow> x \<notin> set xs \<and> x \<in> set (map fst g)
     \<and> (\<forall>ds. (x, ds) \<in> set g \<longrightarrow> set ds \<subseteq> set xs) \<and> topo_rev g xs"

definition kahn_inv :: "dep_graph \<Rightarrow> pystr list \<Rightarrow> (pystr, int) dict \<Rightarrow> pystr list \<Rightarrow> bool" where
  "kahn_inv g P ind q \<longleftrightarrow> topo_rev g P \<and> distinct q \<and>
     (\<forall>(i, ds) \<in> set g. map_of ind i = Some (int (card (set ds - set P)))) \<and>
     set q = {i. \<exists>ds. (i, ds) \<in> set g \<and> i \<notin> set P \<and> set ds \<subseteq> set P}"

lemma topo_rev_props:
  "topo_rev g P \<Longrightarrow> distinct P \<and> set P \<subseteq> set (map fst g) \<and>
     (\<forall>i ds. i \<in> set P \<longrightarrow> (i, ds) \<in> set g \<longrightarrow> set ds \<subseteq> set P)"
  by (induction P) auto

lemma topo_rev_rank:
  "topo_rev g P \<Longrightarrow> \<exists>f :: pystr \<Rightarrow> nat. \<forall>i \<in> set P. \<forall>ds. (i, ds) \<in> set g \<longrightarrow> (\<forall>d \<in> set ds. f d < f i)"
proof (induction P)
  case (Cons x xs)
  then obtain f :: "pystr \<Rightarrow> nat"
    where f: "\<forall>i \<in> set xs. \<forall>ds. (i, ds) \<in> set g \<longrightarrow> (\<forall>d \<in> set ds. f d < f i)" by auto
  let ?f = "f(x := Suc (Max (insert 0 (f ` set xs))))"
  have le: "f d \<le> Max (insert 0 (f ` set xs))" if "d \<in> set xs" for d
    using that by simp
  have xs: "x \<notin> set xs" "\<forall>ds. (x, ds) \<in> set g \<longrightarrow> set ds \<subseteq> set xs" "topo_rev g xs"
    using Cons.prems by auto
  have "?f d < ?f i" if "i \<in> set (x # xs)" "(i, ds) \<in> set g" "d \<in> set ds" for i ds d
  proof (cases "i = x")
    case True
    then have "d \<in> set xs" using xs(2) that by blast
    then have "f d < Suc (Max (insert 0 (f ` set xs)))" by (rule le_imp_less_Suc [OF le])
    then show ?thesis using True xs(1) \<open>d \<in> set xs\<close> by (metis fun_upd_apply)
  next
    case False
    then have i: "i \<in> set xs" using that(1) by simp
    then have "d \<in> set xs" using topo_rev_props [OF xs(3)] that by blast
    then show ?thesis using i f that xs(1) by auto
  qed
  then show ?case by blast
qed simp

lemma butlast_last_split:
  "q \<noteq> [] \<Longrightarrow> distinct q \<Longrightarrow> last q \<notin> set (butlast q) \<and> set q = insert (last q) (set (butlast q))"
  by (induction q rule: rev_induct) auto

lemma kahn_step_inv:
  assumes inv: "kahn_inv g P ind q" and q: "q \<noteq> []" and d: "distinct (map fst g)"
    and r: "r = relax_children (map fst (filter (\<lambda>(i, ds). last q \<in> set ds) g)) ind (butlast q)"
  shows "kahn_inv g (last q # P) (fst r) (snd r)"
proof -
  let ?c = "last q" and ?cs = "map fst (filter (\<lambda>(i, ds). last q \<in> set ds) g)"
  have dq: "distinct q" and qs: "set q = {i. \<exists>ds. (i, ds) \<in> set g \<and> i \<notin> set P \<and> set ds \<subseteq> set P}"
    and ind: "\<And>i ds. (i, ds) \<in> set g \<Longrightarrow> map_of ind i = Some (int (card (set ds - set P)))"
    and topo: "topo_rev g P"
    using inv by (auto simp: kahn_inv_def)
  have uniq: "ds = ds'" if "(i, ds) \<in> set g" "(i, ds') \<in> set g" for i ds ds'
    using d that by (metis eq_key_imp_eq_value)
  have dcs: "distinct ?cs" using d by (simp add: distinct_map_filter)
  have cs: "i \<in> set ?cs \<longleftrightarrow> ?c \<in> set ds" if "(i, ds) \<in> set g" for i ds
  proof -
    have "i \<in> set ?cs \<longleftrightarrow> (\<exists>ds'. (i, ds') \<in> set g \<and> ?c \<in> set ds')" by force
    then show ?thesis using that uniq by blast
  qed
  have c: "?c \<in> set q" "?c \<notin> set (butlast q)" "set q = insert ?c (set (butlast q))"
    using butlast_last_split [OF q dq] by auto
  then have cP: "?c \<notin> set P" "\<exists>ds. (?c, ds) \<in> set g \<and> set ds \<subseteq> set P" using qs by auto
  have rel: "map_of (fst r) k = map_option (\<lambda>d. if k \<in> set ?cs then d - 1 else d) (map_of ind k)"
    "snd r = butlast q @ filter (\<lambda>c. map_of ind c = Some 1) ?cs" for k
    using relax_children_closed [OF dcs, of ind "butlast q"] r by auto
  have ind': "map_of (fst r) i = Some (int (card (set ds - set (?c # P))))" if g: "(i, ds) \<in> set g" for i ds
  proof (cases "?c \<in> set ds")
    case True
    have e: "set ds - set P = insert ?c (set ds - set (?c # P))" using cP True by auto
    have "card (set ds - set P) = Suc (card (set ds - set (?c # P)))"
      unfolding e by (rule card_insert_disjoint) simp_all
    then show ?thesis using True rel(1) [of i] ind [OF g] cs [OF g] by simp
  next
    case False
    then have "set ds - set P = set ds - set (?c # P)" by auto
    then show ?thesis using False rel(1) [of i] ind [OF g] cs [OF g] by simp
  qed
  have one: "map_of ind i = Some 1 \<and> i \<in> set ?cs \<longleftrightarrow> ?c \<in> set ds \<and> set ds \<subseteq> set (?c # P)"
    if g: "(i, ds) \<in> set g" for i ds
  proof -
    have "card (set ds - set P) = 1 \<longleftrightarrow> set ds \<subseteq> set (?c # P)" if "?c \<in> set ds"
    proof -
      have cin: "?c \<in> set ds - set P" using that cP(1) by blast
      have "card (set ds - set P) = 1 \<longleftrightarrow> set ds - set P = {?c}"
        using cin by (metis card_1_singletonE is_singletonI is_singleton_altdef singletonD)
      also have "\<dots> \<longleftrightarrow> set ds \<subseteq> set (?c # P)" using cin by auto
      finally show ?thesis .
    qed
    moreover have "map_of ind i = Some 1 \<longleftrightarrow> card (set ds - set P) = 1" using ind [OF g] by simp
    ultimately show ?thesis using cs [OF g] by blast
  qed
  have qs': "set (snd r) = {i. \<exists>ds. (i, ds) \<in> set g \<and> i \<notin> set (?c # P) \<and> set ds \<subseteq> set (?c # P)}"
  proof (rule set_eqI)
    fix i
    show "i \<in> set (snd r) \<longleftrightarrow> i \<in> {i. \<exists>ds. (i, ds) \<in> set g \<and> i \<notin> set (?c # P) \<and> set ds \<subseteq> set (?c # P)}"
    proof (cases "\<exists>ds. (i, ds) \<in> set g")
      case False
      then show ?thesis using c(3) qs by (auto simp: rel(2))
    next
      case True
      then obtain ds where g: "(i, ds) \<in> set g" by blast
      have all: "(\<exists>ds. (i, ds) \<in> set g \<and> R ds) \<longleftrightarrow> R ds" for R using g uniq by blast
      have b: "i \<in> set (butlast q) \<longleftrightarrow> i \<noteq> ?c \<and> i \<notin> set P \<and> set ds \<subseteq> set P"
      proof -
        have "i \<in> set q \<longleftrightarrow> i \<notin> set P \<and> set ds \<subseteq> set P"
          using all [of "\<lambda>ds. i \<notin> set P \<and> set ds \<subseteq> set P"] by (simp add: qs)
        then show ?thesis using c(2,3) by blast
      qed
      have "i \<in> set P \<Longrightarrow> set ds \<subseteq> set P" using topo_rev_props [OF topo] g by blast
      moreover have "i = ?c \<Longrightarrow> set ds \<subseteq> set P" using cP(2) g uniq by blast
      ultimately have "i \<in> set (butlast q) \<or> (?c \<in> set ds \<and> set ds \<subseteq> set (?c # P))
          \<longleftrightarrow> i \<notin> set (?c # P) \<and> set ds \<subseteq> set (?c # P)"
        using b cP(1) by auto
      then show ?thesis using one [OF g] all by (auto simp: rel(2))
    qed
  qed
  have "distinct (snd r)"
  proof -
    have zero: "map_of ind i = Some 0" if "i \<in> set (butlast q)" for i
    proof -
      have "i \<in> set q" using that by (rule in_set_butlastD)
      then obtain ds where g: "(i, ds) \<in> set g" and "set ds \<subseteq> set P" unfolding qs by blast
      then have "set ds - set P = {}" by blast
      then show ?thesis using ind [OF g] by simp
    qed
    have "set (butlast q) \<inter> set (filter (\<lambda>c. map_of ind c = Some 1) ?cs) = {}"
    proof (rule equals0I)
      fix x assume "x \<in> set (butlast q) \<inter> set (filter (\<lambda>c. map_of ind c = Some 1) ?cs)"
      then show False using zero [of x] by simp
    qed
    then show ?thesis using dq dcs unfolding rel(2) by (simp only: distinct_append distinct_butlast distinct_filter)
  qed
  moreover have "topo_rev g (?c # P)"
  proof -
    obtain ds where ds: "(?c, ds) \<in> set g" "set ds \<subseteq> set P" using cP(2) by blast
    have "set ds' \<subseteq> set P" if "(?c, ds') \<in> set g" for ds' using uniq [OF that ds(1)] ds(2) by simp
    moreover have "?c \<in> set (map fst g)" using ds(1) by force
    ultimately show ?thesis using topo cP(1) by simp
  qed
  ultimately show ?thesis using ind' qs' by (auto simp: kahn_inv_def)
qed

lemma kahn_loop_result:
  assumes "kahn_inv g P ind q" and "distinct (map fst g)"
  shows "\<exists>P'. kahn_loop (children_init g) ind q (length P) = length P' \<and> topo_rev g P'
     \<and> (\<forall>(i, ds) \<in> set g. set ds \<subseteq> set P' \<longrightarrow> i \<in> set P')"
  using assms
proof (induction "children_init g" ind q "length P" arbitrary: P rule: kahn_loop.induct)
  case (1 ind q)
  show ?case
  proof (cases "q = []")
    case True
    then have "\<forall>(i, ds) \<in> set g. set ds \<subseteq> set P \<longrightarrow> i \<in> set P"
      using "1.prems"(1) by (auto simp: kahn_inv_def)
    then show ?thesis using True "1.prems"(1)
      by (subst kahn_loop.simps) (auto simp: kahn_inv_def intro!: exI [of _ P])
  next
    case False
    let ?cs = "map fst (filter (\<lambda>(i, ds). last q \<in> set ds) g)"
    have "last q \<in> set q" using False by simp
    then have "last q \<in> set (map fst g)" using "1.prems"(1) by (force simp: kahn_inv_def)
    then have ch: "map_of (children_init g) (last q) = Some ?cs" by (rule children_init_lookup)
    let ?r = "relax_children ?cs ind (butlast q)"
    have inv: "kahn_inv g (last q # P) (fst ?r) (snd ?r)"
      using "1.prems" False by (intro kahn_step_inv) auto
    obtain P' where "kahn_loop (children_init g) (fst ?r) (snd ?r) (length (last q # P)) = length P'"
      "topo_rev g P'" "\<forall>(i, ds) \<in> set g. set ds \<subseteq> set P' \<longrightarrow> i \<in> set P'"
      using "1.hyps" [OF False refl refl, of "last q # P"] inv "1.prems"(2) ch by auto
    then show ?thesis using False ch by (subst kahn_loop.simps) (auto simp: Let_def)
  qed
qed

lemma length_fromkeys: "length (fromkeys xs) = card (set xs)"
  by (metis distinct_card distinct_fromkeys set_fromkeys)

lemma kahn_inv_init:
  assumes "distinct (map fst g)"
  shows "kahn_inv g [] (indegree_init g) (map fst (filter (\<lambda>(i, d). d = 0) (indegree_init g)))"
proof -
  have k: "map fst (indegree_init g) = map fst g"
    by (simp add: indegree_init_def case_prod_beta o_def)
  have m: "map_of (indegree_init g) i = Some (int (card (set ds)))" if "(i, ds) \<in> set g" for i ds
  proof (rule map_of_is_SomeI)
    show "distinct (map fst (indegree_init g))" using assms k by metis
    show "(i, int (card (set ds))) \<in> set (indegree_init g)"
      using that by (force simp: indegree_init_def length_fromkeys)
  qed
  have "set (map fst (filter (\<lambda>(i, d). d = 0) (indegree_init g))) = {i. \<exists>ds. (i, ds) \<in> set g \<and> set ds \<subseteq> {}}"
    by (force simp: indegree_init_def length_fromkeys)
  moreover have "distinct (map fst (filter (\<lambda>(i, d). d = 0) (indegree_init g)))"
    using assms k by (simp add: distinct_map_filter)
  ultimately show ?thesis using m by (auto simp: kahn_inv_def)
qed

lemma acyclic_edges_if_ranked:
  fixes f :: "pystr \<Rightarrow> nat"
  assumes "\<And>d i. (d, i) \<in> dep_edges g \<Longrightarrow> f d < f i"
  shows "acyclic (dep_edges g)"
  by (rule acyclic_subset [OF wf_acyclic [OF wf_measure [of f]]]) (use assms in auto)

lemma finite_dep_edges: "finite (dep_edges g)"
proof (rule finite_subset)
  show "dep_edges g \<subseteq> (\<Union>(i, ds) \<in> set g. (\<lambda>d. (d, i)) ` set ds)" by (auto simp: dep_edges_def)
qed auto

text \<open>In an acyclic graph whose dependencies are all nodes, every non-empty set of nodes has one whose
  dependencies lie outside the set.\<close>

lemma acyclic_minimal:
  assumes "acyclic (dep_edges g)" and "x \<in> R"
  shows "\<exists>i \<in> R. \<forall>ds. (i, ds) \<in> set g \<longrightarrow> set ds \<inter> R = {}"
proof -
  have "wf (dep_edges g)" using finite_acyclic_wf [OF finite_dep_edges assms(1)] .
  then obtain i where i: "i \<in> R" "\<And>d. (d, i) \<in> dep_edges g \<Longrightarrow> d \<notin> R"
    using assms(2) by (metis wfE_min)
  then show ?thesis by (intro bexI [OF _ i(1)]) (auto simp: dep_edges_def)
qed

lemma kahn_visited_all_iff:
  assumes d: "distinct (map fst g)" and known: "\<And>i ds. (i, ds) \<in> set g \<Longrightarrow> set ds \<subseteq> set (map fst g)"
  shows "kahn_visited g = length g \<longleftrightarrow> acyclic (dep_edges g)"
proof -
  obtain P where P: "kahn_visited g = length P" "topo_rev g P"
    and stop: "\<forall>(i, ds) \<in> set g. set ds \<subseteq> set P \<longrightarrow> i \<in> set P"
    using kahn_loop_result [OF kahn_inv_init [OF d] d] by (auto simp: kahn_visited_def)
  have PP: "distinct P" "set P \<subseteq> set (map fst g)" using topo_rev_props [OF P(2)] by auto
  have full: "length P = length g \<longleftrightarrow> set P = set (map fst g)"
    using PP d by (metis List.finite_set card_subset_eq distinct_card length_map)
  show ?thesis
  proof
    assume "kahn_visited g = length g"
    then have sP: "set P = set (map fst g)" using full P(1) by simp
    obtain f :: "pystr \<Rightarrow> nat" where f: "\<forall>i \<in> set P. \<forall>ds. (i, ds) \<in> set g \<longrightarrow> (\<forall>d \<in> set ds. f d < f i)"
      using topo_rev_rank [OF P(2)] by blast
    show "acyclic (dep_edges g)"
    proof (rule acyclic_edges_if_ranked [of g f])
      fix d i assume "(d, i) \<in> dep_edges g"
      then obtain ds where "(i, ds) \<in> set g" "d \<in> set ds" by (auto simp: dep_edges_def)
      moreover from this have "i \<in> set P" using sP by force
      ultimately show "f d < f i" using f by blast
    qed
  next
    assume ac: "acyclic (dep_edges g)"
    have "set (map fst g) \<subseteq> set P"
    proof (rule ccontr)
      assume "\<not> set (map fst g) \<subseteq> set P"
      then obtain x where "x \<in> set (map fst g) - set P" by blast
      from acyclic_minimal [OF ac this] obtain i where i: "i \<in> set (map fst g) - set P"
        "\<forall>ds. (i, ds) \<in> set g \<longrightarrow> set ds \<inter> (set (map fst g) - set P) = {}" by blast
      then obtain ds where g: "(i, ds) \<in> set g" by force
      then have "set ds \<subseteq> set P" using i(2) known [OF g] by blast
      then show False using stop g i(1) by blast
    qed
    then have "set P = set (map fst g)" using PP(2) by (rule subset_antisym [rotated])
    then show "kahn_visited g = length g" using full P(1) by simp
  qed
qed

section \<open>validate_plan\<close>

text \<open>The checks both \<open>validate_plan\<close> functions make, in their order, over the \<open>(id, deps)\<close> pairs.\<close>

fun check_deps :: "pystr list \<Rightarrow> pystr \<Rightarrow> pystr list \<Rightarrow> exn + unit" where
  "check_deps ids nid [] = Inr ()"
| "check_deps ids nid (dep # deps) =
     (if dep \<notin> set ids then Inl (PlanValidationError (py ''unknown dependency: '' @ dep))
      else if dep = nid then Inl (PlanValidationError (py ''node '' @ nid @ py '' depends on itself''))
      else check_deps ids nid deps)"

definition validate_dep_graph :: "nat \<Rightarrow> dep_graph \<Rightarrow> exn + unit" where
  "validate_dep_graph max_nodes g =
     (if length g > max_nodes
        then Inl (PlanValidationError (py ''too many nodes: '' @ nat_str (length g) @ py '' > '' @ nat_str max_nodes))
      else let ids = map fst g in
        if length (fromkeys ids) \<noteq> length ids
          then Inl (PlanValidationError (py ''duplicate node id in plan''))
        else ebind (efold (\<lambda>(nid, deps) _. check_deps ids nid deps) g ())
          (\<lambda>_. if kahn_visited g \<noteq> length ids
                then Inl (PlanValidationError (py ''plan contains a cycle''))
                else Inr ()))"

text \<open>\<open>choirworks/core/planner.py\<close>\<close>

record PlanNodeDraft =
  pd_id :: pystr
  pd_name :: pystr
  pd_agent_name :: pystr
  pd_input :: "(pystr, pystr) dict"
  pd_deps :: "pystr list"

definition validate_plan :: "PlanNodeDraft list \<Rightarrow> nat \<Rightarrow> exn + unit" where
  "validate_plan draft max_nodes = validate_dep_graph max_nodes (map (\<lambda>n. (pd_id n, pd_deps n)) draft)"

text \<open>\<open>new_choirworks/orchestrator/plan.py\<close>\<close>

record PlanNode =
  pn_id :: pystr
  pn_name :: pystr
  pn_agent_name :: pystr
  pn_instruction :: pystr
  pn_deps :: "pystr list"
  pn_assist_for :: "pystr option"

definition dag_graph :: "PlanNode list \<Rightarrow> dep_graph" where
  "dag_graph plan = map (\<lambda>n. (pn_id n, pn_deps n)) plan"

definition dag_validate_plan :: "PlanNode list \<Rightarrow> nat \<Rightarrow> exn + unit" where
  "dag_validate_plan plan max_nodes = validate_dep_graph max_nodes (dag_graph plan)"

lemma check_deps_Inr: "check_deps ids nid deps = Inr u \<longleftrightarrow> set deps \<subseteq> set ids \<and> nid \<notin> set deps"
  by (induction deps) auto

lemma efold_check_deps:
  "efold (\<lambda>(nid, deps) _. check_deps ids nid deps) g u = Inr v
     \<longleftrightarrow> (\<forall>(nid, deps) \<in> set g. set deps \<subseteq> set ids \<and> nid \<notin> set deps)"
  by (induction g arbitrary: u) (auto simp: ebind_eq_Inr check_deps_Inr)

lemma no_self_dep: "acyclic (dep_edges g) \<Longrightarrow> (i, ds) \<in> set g \<Longrightarrow> i \<notin> set ds"
  by (auto simp: acyclic_def dep_edges_def)

lemma length_fromkeys_distinct: "length (fromkeys xs) = length xs \<longleftrightarrow> distinct xs"
  by (metis card_distinct distinct_card length_fromkeys)

lemma validate_dep_graph_iff:
  "validate_dep_graph max_nodes g = Inr () \<longleftrightarrow> length g \<le> max_nodes \<and> distinct (map fst g)
     \<and> (\<forall>(i, ds) \<in> set g. set ds \<subseteq> set (map fst g)) \<and> acyclic (dep_edges g)"
proof (cases "length g \<le> max_nodes \<and> distinct (map fst g)
    \<and> (\<forall>(i, ds) \<in> set g. set ds \<subseteq> set (map fst g))")
  case True
  then have "kahn_visited g = length g \<longleftrightarrow> acyclic (dep_edges g)"
    by (intro kahn_visited_all_iff) auto
  then show ?thesis using True no_self_dep [of g]
    by (auto simp: validate_dep_graph_def Let_def length_fromkeys_distinct ebind_eq_Inr efold_check_deps)
next
  case False
  then show ?thesis
    by (auto simp: validate_dep_graph_def Let_def length_fromkeys_distinct ebind_eq_Inr efold_check_deps
        split: if_splits)
qed

text \<open>C5: \<open>validate_plan\<close> accepts a draft exactly when it has at most \<open>max_nodes\<close> nodes, its ids are
  distinct, every dependency is a node of the plan and the dependency graph has no cycle; in
  particular its Kahn loop terminates and decides acyclicity.\<close>

theorem validate_plan_accepts_iff:
  "validate_plan draft max_nodes = Inr () \<longleftrightarrow>
     length draft \<le> max_nodes \<and> distinct (map pd_id draft)
     \<and> (\<forall>n \<in> set draft. set (pd_deps n) \<subseteq> pd_id ` set draft)
     \<and> acyclic {(d, pd_id n) | d n. n \<in> set draft \<and> d \<in> set (pd_deps n)}"
proof -
  have "dep_edges (map (\<lambda>n. (pd_id n, pd_deps n)) draft)
      = {(d, pd_id n) | d n. n \<in> set draft \<and> d \<in> set (pd_deps n)}"
    by (auto simp: dep_edges_def)
  then show ?thesis
    by (simp add: validate_plan_def validate_dep_graph_iff o_def)
qed

definition two_drafts :: "PlanNodeDraft list" where
  "two_drafts = [\<lparr>pd_id = py ''b'', pd_name = [], pd_agent_name = py ''writer'', pd_input = [], pd_deps = [py ''a'']\<rparr>,
     \<lparr>pd_id = py ''a'', pd_name = [], pd_agent_name = py ''researcher'', pd_input = [], pd_deps = []\<rparr>]"

lemma two_drafts_valid: "validate_plan two_drafts 20 = Inr ()"
proof -
  have "acyclic (dep_edges (map (\<lambda>n. (pd_id n, pd_deps n)) two_drafts))"
    by (rule acyclic_edges_if_ranked [of _ "\<lambda>k. if k = py ''b'' then 1 else 0"])
      (auto simp: dep_edges_def two_drafts_def)
  then show ?thesis unfolding validate_plan_def validate_dep_graph_iff by (simp add: two_drafts_def)
qed

theorem validate_plan_accepts_iff_witness:
  "validate_plan two_drafts 20 = Inr () \<and> distinct (map pd_id two_drafts) \<and>
   acyclic {(d, pd_id n) | d n. n \<in> set two_drafts \<and> d \<in> set (pd_deps n)}"
  using two_drafts_valid validate_plan_accepts_iff [of two_drafts 20] by blast

section \<open>A validated plan cannot stall by itself\<close>

definition state_graph :: "OrchestrationState \<Rightarrow> dep_graph" where
  "state_graph s = map (\<lambda>(k, n). (k, n_deps n)) (nodes s)"

text \<open>The shape \<open>create_plan\<close> establishes from a validated draft.\<close>

definition plan_acyclic :: "OrchestrationState \<Rightarrow> bool" where
  "plan_acyclic s \<longleftrightarrow> acyclic (dep_edges (state_graph s))
     \<and> (\<forall>n \<in> set (d_values (nodes s)). set (n_deps n) \<subseteq> set (d_keys (nodes s)))"

lemma state_graph_mem: "(k, ds) \<in> set (state_graph s) \<longleftrightarrow> (\<exists>n. (k, n) \<in> set (nodes s) \<and> ds = n_deps n)"
  by (auto simp: state_graph_def)

text \<open>When nothing is ready although a node is still waiting, some direct or indirect dependency
  of that node is in flight, waits for input, failed, was canceled or was invalidated: over an
  acyclic plan the scheduler never stops because waiting nodes wait for each other.\<close>

theorem not_ready_has_culprit:
  assumes wf: "state_wf s" and ac: "plan_acyclic s" and none: "ready_nodes s = []"
    and n: "map_of (nodes s) k = Some n" "n_status n \<in> {PENDING, READY, RECOVER}"
  shows "\<exists>j m. map_of (nodes s) j = Some m \<and> (j, k) \<in> (dep_edges (state_graph s))\<^sup>+
     \<and> n_status m \<in> {SUBMITTED, WORKING, INPUT_REQUIRED, FAILED, CANCELED, INVALIDATED}"
proof -
  let ?E = "dep_edges (state_graph s)"
  let ?wait = "\<lambda>j. \<exists>m. map_of (nodes s) j = Some m \<and> n_status m \<in> PENDING_NODE_STATUSES"
  let ?R = "{j. ?wait j \<and> (j, k) \<in> ?E\<^sup>*}"
  have "k \<in> ?R" using n by (auto simp: PENDING_NODE_STATUSES_def)
  then obtain i where i: "i \<in> ?R" and min: "\<forall>ds. (i, ds) \<in> set (state_graph s) \<longrightarrow> set ds \<inter> ?R = {}"
    using acyclic_minimal [of "state_graph s" k ?R] ac by (auto simp: plan_acyclic_def)
  obtain m where m: "map_of (nodes s) i = Some m" "n_status m \<in> PENDING_NODE_STATUSES" using i by blast
  have mem: "(i, n_deps m) \<in> set (state_graph s)"
    using m(1) by (auto simp: state_graph_mem dest: map_of_SomeD)
  have "m \<notin> set (ready_nodes s)" using none by simp
  then obtain d where d: "d \<in> set (n_deps m)" "status_of s d \<noteq> Some COMPLETED"
    using m node_in_values by (auto simp: ready_nodes_iff)
  have "d \<in> set (d_keys (nodes s))"
    using ac d(1) node_in_values [OF m(1)] by (auto simp: plan_acyclic_def)
  then obtain dn where dn: "map_of (nodes s) d = Some dn" by (metis d_has_iff option.exhaust)
  have e: "(d, i) \<in> ?E" using mem d(1) by (auto simp: dep_edges_def)
  then have dk: "(d, k) \<in> ?E\<^sup>+" using i by (simp add: rtrancl_into_trancl2)
  have "d \<notin> ?R" using min mem d(1) by blast
  then have "n_status dn \<notin> PENDING_NODE_STATUSES" using dn trancl_into_rtrancl [OF dk] by auto
  moreover have "n_status dn \<noteq> COMPLETED" using d(2) dn by (simp add: status_of_def)
  ultimately have "n_status dn \<in> {SUBMITTED, WORKING, INPUT_REQUIRED, FAILED, CANCELED, INVALIDATED}"
    by (cases "n_status dn") (auto simp: PENDING_NODE_STATUSES_def)
  then show ?thesis using dn dk by blast
qed

text \<open>A failed node with a waiting dependent: the failed node is the culprit.\<close>

definition stalled_example :: OrchestrationState where
  "stalled_example = empty_state\<lparr>nodes :=
     [(py ''a'', (new_node (py ''a'') [] (py ''w''))\<lparr>n_status := FAILED\<rparr>),
      (py ''b'', (new_node (py ''b'') [] (py ''w''))\<lparr>n_deps := [py ''a'']\<rparr>)]\<rparr>"

theorem not_ready_has_culprit_witness:
  "state_wf stalled_example \<and> plan_acyclic stalled_example \<and> ready_nodes stalled_example = [] \<and>
   (\<exists>j m. map_of (nodes stalled_example) j = Some m \<and> (j, py ''b'') \<in> (dep_edges (state_graph stalled_example))\<^sup>+
     \<and> n_status m \<in> {SUBMITTED, WORKING, INPUT_REQUIRED, FAILED, CANCELED, INVALIDATED})"
proof -
  have wf: "state_wf stalled_example"
    by (simp add: state_wf_def dict_wf_def stalled_example_def empty_state_def new_node_def)
  have "acyclic (dep_edges (state_graph stalled_example))"
    by (rule acyclic_edges_if_ranked [of _ "\<lambda>k. if k = py ''b'' then 1 else 0"])
      (auto simp: dep_edges_def state_graph_def stalled_example_def new_node_def)
  then have ac: "plan_acyclic stalled_example"
    by (simp add: plan_acyclic_def stalled_example_def new_node_def)
  have none: "ready_nodes stalled_example = []"
    by (simp add: ready_nodes_def stalled_example_def new_node_def PENDING_NODE_STATUSES_def deps_completed_def status_of_def)
  have b: "map_of (nodes stalled_example) (py ''b'') = Some ((new_node (py ''b'') [] (py ''w''))\<lparr>n_deps := [py ''a'']\<rparr>)"
    by (simp add: stalled_example_def)
  have p: "n_status ((new_node (py ''b'') [] (py ''w''))\<lparr>n_deps := [py ''a'']\<rparr>) \<in> {PENDING, READY, RECOVER}"
    by (simp add: new_node_def)
  show ?thesis using wf ac none not_ready_has_culprit [OF wf ac none b p] by blast
qed

end
