(* ===== verification/Patch.thy ===== *)
theory Patch
  imports Transitions Plan_Check
begin

text \<open>
  Incremental plan revision, \<open>apply_patch\<close> of \<open>choirworks/orchestration/planning/patch.py\<close>: nodes
  are added under fresh \<open>x<n>\<close> ids, requested nodes are invalidated when their work has not
  started, and the invalidation cascades to their dependents.
\<close>

section \<open>Definitions\<close>

definition INVALIDATABLE_STATUSES :: "NodeStatus set" where
  "INVALIDATABLE_STATUSES = {PENDING, READY, RECOVER, FAILED}"

record PatchNode =
  pt_agent_name :: pystr
  pt_name :: pystr
  pt_instruction :: pystr
  pt_deps :: "pystr list"

record PlanPatch =
  pp_add :: "PatchNode list"
  pp_invalidate :: "pystr list"
  pp_reason :: pystr

record PatchResult =
  pr_added :: "pystr list"
  pr_invalidated :: "pystr list"
  pr_skipped_in_flight :: "pystr list"
  pr_rejected :: "pystr list"

definition empty_patch_result :: PatchResult where
  "empty_patch_result = \<lparr>pr_added = [], pr_invalidated = [], pr_skipped_in_flight = [], pr_rejected = []\<rparr>"

text \<open>\<open>while node_id in state.nodes: patch_count += 1; node_id = f"x{patch_count}"\<close>.  It ends because
  ids formatted from different counters differ and the plan is finite.\<close>

definition patch_id :: "int \<Rightarrow> pystr" where
  "patch_id c = py ''x'' @ int_str c"

lemma patch_id_inject [simp]: "patch_id a = patch_id b \<longleftrightarrow> a = b"
  by (simp add: patch_id_def)

lemma finite_taken_ids: "finite {i. c \<le> i \<and> patch_id i \<in> set ids}"
  by (rule finite_subset [of _ "patch_id -` set ids"]) (auto intro: finite_vimageI simp: inj_def)

function next_patch_id :: "pystr list \<Rightarrow> int \<Rightarrow> int" where
  "next_patch_id ids c = (if patch_id c \<in> set ids then next_patch_id ids (c + 1) else c)"
  by pat_completeness auto

termination
proof (relation "measure (\<lambda>(ids, c). card {i. c \<le> i \<and> patch_id i \<in> set ids})")
  fix ids :: "pystr list" and c :: int
  assume c: "patch_id c \<in> set ids"
  have "{i. c + 1 \<le> i \<and> patch_id i \<in> set ids} = {i. c \<le> i \<and> patch_id i \<in> set ids} - {c}" by auto
  then show "((ids, c + 1), ids, c) \<in> measure (\<lambda>(ids, c). card {i. c \<le> i \<and> patch_id i \<in> set ids})"
    using c card_Diff1_less [OF finite_taken_ids [of c ids], of c] by simp
qed simp

declare next_patch_id.simps [simp del]

definition patch_add_one :: "pystr set \<Rightarrow> PatchNode \<Rightarrow> OrchestrationState \<times> PatchResult
    \<Rightarrow> OrchestrationState \<times> PatchResult" where
  "patch_add_one known draft = (\<lambda>(s, result).
     (if pt_agent_name draft \<notin> known
        then (s, result\<lparr>pr_rejected := pr_rejected result @ [py ''unknown agent: '' @ pt_agent_name draft]\<rparr>)
      else let unknown = filter (\<lambda>dep. \<not> d_has (nodes s) dep) (pt_deps draft) in
        if unknown \<noteq> []
          then (s, result\<lparr>pr_rejected := pr_rejected result
                 @ [py ''unknown deps for '' @ pt_agent_name draft @ py '': '' @ str_join (py '', '') unknown]\<rparr>)
        else let c = next_patch_id (d_keys (nodes s)) (patch_count s + 1);
                 node_id = patch_id c;
                 node = (new_node node_id (if pt_name draft = [] then pt_agent_name draft else pt_name draft)
                           (pt_agent_name draft))
                        \<lparr>n_deps := pt_deps draft, n_input_text := pt_instruction draft, n_derived := True\<rparr>
             in (s\<lparr>patch_count := c, nodes := AList.update node_id node (nodes s)\<rparr>,
                 result\<lparr>pr_added := pr_added result @ [node_id]\<rparr>)))"

definition patch_adds :: "pystr set \<Rightarrow> PatchNode list \<Rightarrow> OrchestrationState \<Rightarrow> OrchestrationState \<times> PatchResult" where
  "patch_adds known add s = fold (patch_add_one known) add (s, empty_patch_result)"

definition patch_invalidate_one :: "pystr \<Rightarrow> OrchestrationState \<times> PatchResult
    \<Rightarrow> exn + (OrchestrationState \<times> PatchResult)" where
  "patch_invalidate_one node_id = (\<lambda>(s, result). case map_of (nodes s) node_id of
      None \<Rightarrow> Inr (s, result\<lparr>pr_rejected := pr_rejected result @ [py ''unknown node: '' @ node_id]\<rparr>)
    | Some node \<Rightarrow>
        (if n_status node \<in> INVALIDATABLE_STATUSES
           then ebind (apply_transition_at s node_id INVALIDATED)
             (\<lambda>s'. Inr (s', result\<lparr>pr_invalidated := pr_invalidated result @ [node_id]\<rparr>))
         else if n_status node \<noteq> INVALIDATED
           then Inr (s, result\<lparr>pr_skipped_in_flight := pr_skipped_in_flight result @ [node_id]\<rparr>)
         else Inr (s, result)))"

text \<open>The keys of the nodes one round of the cascade invalidates.\<close>

definition cascaded :: "OrchestrationState \<Rightarrow> pystr list \<Rightarrow> pystr list" where
  "cascaded s invalidated = map fst (filter (\<lambda>(k, n). n_status n \<in> INVALIDATABLE_STATUSES
      \<and> list_ex (\<lambda>dep. dep \<in> set invalidated) (n_deps n)) (nodes s))"

definition invalidate_all :: "pystr list \<Rightarrow> OrchestrationState \<Rightarrow> exn + OrchestrationState" where
  "invalidate_all ks s = efold (\<lambda>k s. apply_transition_at s k INVALIDATED) ks s"

definition open_nodes :: "OrchestrationState \<Rightarrow> nat" where
  "open_nodes s = length (filter (\<lambda>n. n_status n \<in> INVALIDATABLE_STATUSES) (d_values (nodes s)))"

definition open_node :: "NodeState \<Rightarrow> bool" where
  "open_node n \<longleftrightarrow> n_status n \<in> INVALIDATABLE_STATUSES"

lemma not_open_invalidated [simp]: "\<not> open_node (n\<lparr>n_status := INVALIDATED\<rparr>)"
  by (simp add: open_node_def INVALIDATABLE_STATUSES_def)

lemma open_after_invalidate:
  "length (filter open_node (d_values (d_modify k (\<lambda>_. m\<lparr>n_status := INVALIDATED\<rparr>) ns)))
     + length (filter (\<lambda>(j, n). j = k \<and> open_node n) ns) = length (filter open_node (d_values ns))"
  by (induction ns) (auto simp: d_modify_def split: if_splits)

lemma invalidate_one_open:
  assumes "apply_transition_at s k INVALIDATED = Inr s'"
  shows "open_nodes s' \<le> open_nodes s"
    and "(k, n) \<in> set (nodes s) \<Longrightarrow> n_status n \<in> INVALIDATABLE_STATUSES \<Longrightarrow> open_nodes s' < open_nodes s"
proof -
  obtain m where s': "nodes s' = d_modify k (\<lambda>_. m\<lparr>n_status := INVALIDATED\<rparr>) (nodes s)"
    using assms by (auto simp: apply_transition_at_Inr)
  let ?hit = "filter (\<lambda>(j, n). j = k \<and> open_node n) (nodes s)"
  have e: "open_nodes s' + length ?hit = open_nodes s"
    using open_after_invalidate [of k m "nodes s"] s'
    unfolding open_nodes_def open_node_def [symmetric] by metis
  then show "open_nodes s' \<le> open_nodes s" by simp
  assume "(k, n) \<in> set (nodes s)" "n_status n \<in> INVALIDATABLE_STATUSES"
  then have "(k, n) \<in> set ?hit" by (simp add: open_node_def)
  then have "0 < length ?hit" by (rule length_pos_if_in_set)
  then show "open_nodes s' < open_nodes s" using e by linarith
qed

lemma invalidate_all_le: "invalidate_all ks s = Inr s' \<Longrightarrow> open_nodes s' \<le> open_nodes s"
proof (induction ks arbitrary: s)
  case (Cons k ks)
  then obtain t where "apply_transition_at s k INVALIDATED = Inr t" "invalidate_all ks t = Inr s'"
    by (auto simp: invalidate_all_def ebind_eq_Inr)
  then show ?case using Cons.IH invalidate_one_open(1) by (meson le_trans)
qed (simp add: invalidate_all_def)

lemma cascade_progress:
  assumes "cascaded s gone \<noteq> []" and "invalidate_all (cascaded s gone) s = Inr s'"
  shows "open_nodes s' < open_nodes s"
proof -
  obtain k ks where ks: "cascaded s gone = k # ks" using assms(1) by (cases "cascaded s gone") auto
  then have "k \<in> set (cascaded s gone)" by simp
  then obtain n where n: "(k, n) \<in> set (nodes s)" "n_status n \<in> INVALIDATABLE_STATUSES"
    by (auto simp: cascaded_def)
  obtain t where t: "apply_transition_at s k INVALIDATED = Inr t" "invalidate_all ks t = Inr s'"
    using assms(2) ks by (auto simp: invalidate_all_def ebind_eq_Inr)
  show ?thesis using invalidate_one_open(2) [OF t(1) n] invalidate_all_le [OF t(2)] by simp
qed

function cascade_loop :: "OrchestrationState \<Rightarrow> pystr list \<Rightarrow> exn + (OrchestrationState \<times> pystr list)" where
  "cascade_loop s invalidated = (let ks = cascaded s invalidated in
     if ks = [] then Inr (s, invalidated)
     else ebind (invalidate_all ks s) (\<lambda>s'. cascade_loop s' (invalidated @ ks)))"
  by pat_completeness auto

termination
  by (relation "measure (\<lambda>(s, gone). open_nodes s)") (auto intro: cascade_progress)

declare cascade_loop.simps [simp del]

definition apply_patch :: "OrchestrationState \<Rightarrow> PlanPatch \<Rightarrow> pystr set \<Rightarrow> exn + (PatchResult \<times> OrchestrationState)" where
  "apply_patch s patch known =
     ebind (efold patch_invalidate_one (pp_invalidate patch) (patch_adds known (pp_add patch) s)) (\<lambda>(s2, r2).
     ebind (cascade_loop s2 (pr_invalidated r2)) (\<lambda>(s3, gone).
       Inr (r2\<lparr>pr_invalidated := gone\<rparr>, s3)))"

section \<open>What a patch adds\<close>

lemma next_patch_id_fresh: "patch_id (next_patch_id ids c) \<notin> set ids \<and> c \<le> next_patch_id ids c"
proof (induction ids c rule: next_patch_id.induct)
  case (1 ids c)
  then show ?case by (subst (1 2) next_patch_id.simps) auto
qed

lemma patch_add_one_cases:
  obtains (rejected) r' where "patch_add_one known draft (s, r) = (s, r')" "pr_added r' = pr_added r"
      "pr_invalidated r' = pr_invalidated r"
    | (added) node c where "pt_agent_name draft \<in> known" "set (pt_deps draft) \<subseteq> set (d_keys (nodes s))"
      "\<not> d_has (nodes s) (patch_id c)" "patch_count s < c"
      "node = (new_node (patch_id c) (if pt_name draft = [] then pt_agent_name draft else pt_name draft)
         (pt_agent_name draft))\<lparr>n_deps := pt_deps draft, n_input_text := pt_instruction draft, n_derived := True\<rparr>"
      "patch_add_one known draft (s, r) = (s\<lparr>patch_count := c, nodes := nodes s @ [(patch_id c, node)]\<rparr>,
         r\<lparr>pr_added := pr_added r @ [patch_id c]\<rparr>)"
proof (cases "pt_agent_name draft \<in> known \<and> filter (\<lambda>dep. \<not> d_has (nodes s) dep) (pt_deps draft) = []")
  case True
  let ?c = "next_patch_id (d_keys (nodes s)) (patch_count s + 1)"
  have f: "\<not> d_has (nodes s) (patch_id ?c)" "patch_count s < ?c"
    using next_patch_id_fresh [of "d_keys (nodes s)" "patch_count s + 1"] by auto
  have "set (pt_deps draft) \<subseteq> set (d_keys (nodes s))" using True by (auto simp: filter_empty_conv)
  then show ?thesis using True f that(2) [OF _ _ f refl]
    by (simp add: patch_add_one_def Let_def update_absent del: set_map list.set_map)
next
  case False
  show ?thesis
  proof (cases "pt_agent_name draft \<in> known")
    case True
    then show ?thesis using False
      by (intro that(1) [of "r\<lparr>pr_rejected := pr_rejected r @ [py ''unknown deps for '' @ pt_agent_name draft
          @ py '': '' @ str_join (py '', '') (filter (\<lambda>dep. \<not> d_has (nodes s) dep) (pt_deps draft))]\<rparr>"])
        (simp_all add: patch_add_one_def Let_def)
  next
    case False
    then show ?thesis
      by (intro that(1) [of "r\<lparr>pr_rejected := pr_rejected r @ [py ''unknown agent: '' @ pt_agent_name draft]\<rparr>"])
        (simp_all add: patch_add_one_def)
  qed
qed

text \<open>The invariant of the adding loop, relative to the state \<open>s0\<close> it started from.\<close>

definition adds_inv :: "OrchestrationState \<Rightarrow> pystr set \<Rightarrow> OrchestrationState \<times> PatchResult \<Rightarrow> bool" where
  "adds_inv s0 known = (\<lambda>(s, r). state_wf s \<and> pr_invalidated r = [] \<and>
     (\<exists>new. nodes s = nodes s0 @ new \<and> map fst new = pr_added r \<and>
        (\<forall>(k, n) \<in> set new. n_status n = PENDING \<and> n_agent_name n \<in> known \<and> n_derived n)) \<and>
     (plan_acyclic s0 \<longrightarrow> plan_acyclic s) \<and> patch_count s0 \<le> patch_count s \<and>
     s\<lparr>nodes := nodes s0, patch_count := patch_count s0\<rparr> = s0)"

lemma state_wf_append:
  "state_wf s \<Longrightarrow> \<not> d_has (nodes s) (n_id n) \<Longrightarrow> state_wf (s\<lparr>patch_count := c, nodes := nodes s @ [(n_id n, n)]\<rparr>)"
  by (auto simp: state_wf_def dict_wf_def)

text \<open>A node whose dependencies already exist cannot close a cycle.\<close>

lemma plan_acyclic_append:
  assumes ac: "plan_acyclic s" and new: "k \<notin> set (d_keys (nodes s))"
    and deps: "set (n_deps n) \<subseteq> set (d_keys (nodes s))" and ns: "nodes s' = nodes s @ [(k, n)]"
  shows "plan_acyclic s'"
proof -
  let ?E = "dep_edges (state_graph s)" and ?N = "(\<lambda>d. (d, k)) ` set (n_deps n)"
  have E': "dep_edges (state_graph s') = ?E \<union> ?N"
    by (auto simp: dep_edges_def state_graph_def ns)
  have src: "x \<noteq> k" if "(x, y) \<in> ?E" for x y
    using that ac new by (fastforce simp: dep_edges_def state_graph_mem plan_acyclic_def)
  have "acyclic ((\<lambda>d. (d, k)) ` D \<union> ?E)" if "finite D" "D \<subseteq> set (n_deps n)" for D
    using that
  proof (induction D rule: finite_induct)
    case empty
    then show ?case using ac by (simp add: plan_acyclic_def)
  next
    case (insert d D)
    have "d \<noteq> k" using insert.prems deps new by auto
    moreover have "y = k" if "(k, y) \<in> ((\<lambda>d. (d, k)) ` D \<union> ?E)\<^sup>*" for y
      using that
    proof (cases rule: converse_rtranclE)
      case (step z)
      then have "k \<in> D" using src by auto
      then show ?thesis using insert.prems deps new by auto
    qed simp
    ultimately have "(k, d) \<notin> ((\<lambda>d. (d, k)) ` D \<union> ?E)\<^sup>*" by blast
    then show ?case using insert by (simp add: acyclic_insert)
  qed
  from this [of "set (n_deps n)"] have "acyclic (dep_edges (state_graph s'))"
    by (simp add: E' Un_commute)
  moreover have "\<forall>m \<in> set (d_values (nodes s')). set (n_deps m) \<subseteq> set (d_keys (nodes s'))"
    using ac deps by (auto simp: plan_acyclic_def ns)
  ultimately show ?thesis by (simp add: plan_acyclic_def)
qed

lemma patch_add_one_inv:
  assumes "adds_inv s0 known sr"
  shows "adds_inv s0 known (patch_add_one known draft sr)"
proof -
  obtain s r where sr: "sr = (s, r)" by (cases sr)
  show ?thesis
  proof (cases rule: patch_add_one_cases [of known draft s r])
    case (rejected r')
    then show ?thesis using assms sr by (auto simp: adds_inv_def)
  next
    case (added node c)
    have id: "n_id node = patch_id c" and deps: "n_deps node = pt_deps draft"
      using added(5) by (simp_all add: new_node_def)
    let ?s = "s\<lparr>patch_count := c, nodes := nodes s @ [(patch_id c, node)]\<rparr>"
    obtain new where new: "nodes s = nodes s0 @ new" "map fst new = pr_added r"
      "\<forall>(k, n) \<in> set new. n_status n = PENDING \<and> n_agent_name n \<in> known \<and> n_derived n"
      using assms sr by (auto simp: adds_inv_def)
    have "state_wf ?s" using state_wf_append [of s node c] assms sr added(3) by (simp add: adds_inv_def id)
    moreover have "plan_acyclic s \<Longrightarrow> plan_acyclic ?s"
      by (rule plan_acyclic_append [where k = "patch_id c" and n = node]) (use added deps in auto)
    moreover have "nodes ?s = nodes s0 @ (new @ [(patch_id c, node)])"
      "map fst (new @ [(patch_id c, node)]) = pr_added r @ [patch_id c]"
      "\<forall>(k, n) \<in> set (new @ [(patch_id c, node)]). n_status n = PENDING \<and> n_agent_name n \<in> known \<and> n_derived n"
      using new added(1,5) by (auto simp: new_node_def)
    ultimately show ?thesis using assms sr added(4,6) unfolding adds_inv_def by force
  qed
qed

lemma patch_adds_inv:
  assumes "state_wf s"
  shows "adds_inv s known (patch_adds known add s)"
proof -
  have "adds_inv s known sr \<Longrightarrow> adds_inv s known (fold (patch_add_one known) add sr)" for sr
    by (induction add arbitrary: sr) (simp_all add: patch_add_one_inv)
  moreover have "adds_inv s known (s, empty_patch_result)"
    using assms by (simp add: adds_inv_def empty_patch_result_def)
  ultimately show ?thesis by (simp add: patch_adds_def)
qed

section \<open>What a patch invalidates\<close>

text \<open>The state after invalidating the nodes of a set.\<close>

definition inval_state :: "pystr set \<Rightarrow> OrchestrationState \<Rightarrow> OrchestrationState" where
  "inval_state G s = s\<lparr>nodes := map (\<lambda>(k, n). (k, if k \<in> G then n\<lparr>n_status := INVALIDATED\<rparr> else n)) (nodes s)\<rparr>"

lemma inval_state_empty [simp]: "inval_state {} s = s"
  by (simp add: inval_state_def case_prod_beta)

lemma inval_state_keys [simp]: "d_keys (nodes (inval_state G s)) = d_keys (nodes s)"
  by (simp add: inval_state_def case_prod_beta)

lemma inval_state_lookup [simp]: "map_of (nodes (inval_state G s)) k
    = map_option (\<lambda>n. if k \<in> G then n\<lparr>n_status := INVALIDATED\<rparr> else n) (map_of (nodes s) k)"
proof -
  have "map_of (map (\<lambda>(k, n). (k, if k \<in> G then n\<lparr>n_status := INVALIDATED\<rparr> else n)) d) k
      = map_option (\<lambda>n. if k \<in> G then n\<lparr>n_status := INVALIDATED\<rparr> else n) (map_of d k)" for d
    by (induction d) auto
  then show ?thesis by (simp add: inval_state_def)
qed

lemma inval_state_frame [simp]:
  "patch_count (inval_state G s) = patch_count s" "interventions (inval_state G s) = interventions s"
  by (simp_all add: inval_state_def)

lemma inval_state_wf: "state_wf s \<Longrightarrow> state_wf (inval_state G s)"
  by (auto simp: state_wf_def dict_wf_def inval_state_def list_all_iff case_prod_beta o_def)

lemma state_graph_inval [simp]: "state_graph (inval_state G s) = state_graph s"
  by (auto simp: state_graph_def inval_state_def)

lemma inval_state_acyclic: "plan_acyclic s \<Longrightarrow> plan_acyclic (inval_state G s)"
proof -
  assume ac: "plan_acyclic s"
  have "\<exists>m \<in> set (d_values (nodes s)). n_deps n = n_deps m" if "n \<in> set (d_values (nodes (inval_state G s)))" for n
    using that by (force simp: inval_state_def split: if_splits)
  then show ?thesis using ac unfolding plan_acyclic_def state_graph_inval inval_state_keys by metis
qed

lemma apply_inval_state:
  assumes wf: "state_wf s" and n: "map_of (nodes s) k = Some n"
    and st: "n_status n \<in> INVALIDATABLE_STATUSES"
  shows "apply_transition_at (inval_state G s) k INVALIDATED = Inr (inval_state (insert k G) s)"
proof -
  have u: "n' = n" if "(k, n') \<in> set (nodes s)" for n'
    using that n wf by (auto simp: state_wf_def dict_wf_def)
  let ?m = "if k \<in> G then n\<lparr>n_status := INVALIDATED\<rparr> else n"
  have "d_modify k (\<lambda>_. ?m\<lparr>n_status := INVALIDATED\<rparr>) (nodes (inval_state G s)) = nodes (inval_state (insert k G) s)"
    using u by (auto simp: d_modify_def inval_state_def)
  moreover have "can_transition ?m INVALIDATED"
    using st by (auto simp: can_transition_def INVALIDATABLE_STATUSES_def)
  moreover have "(inval_state G s)\<lparr>nodes := nodes (inval_state H s)\<rparr> = inval_state H s" for H
    by (simp add: inval_state_def)
  moreover have "map_of (nodes (inval_state G s)) k = Some ?m" using n by simp
  ultimately show ?thesis unfolding apply_transition_at_Inr by metis
qed

definition invalidatable_in :: "OrchestrationState \<Rightarrow> pystr \<Rightarrow> bool" where
  "invalidatable_in s k \<longleftrightarrow> (\<exists>n. map_of (nodes s) k = Some n \<and> n_status n \<in> INVALIDATABLE_STATUSES)"

lemma invalidate_all_state:
  assumes wf: "state_wf s" and ks: "\<And>k. k \<in> set ks \<Longrightarrow> invalidatable_in s k"
  shows "invalidate_all ks (inval_state G s) = Inr (inval_state (G \<union> set ks) s)"
  using ks
proof (induction ks arbitrary: G)
  case (Cons k ks)
  obtain n where "map_of (nodes s) k = Some n" "n_status n \<in> INVALIDATABLE_STATUSES"
    using Cons.prems [of k] by (auto simp: invalidatable_in_def)
  then have "apply_transition_at (inval_state G s) k INVALIDATED = Inr (inval_state (insert k G) s)"
    by (rule apply_inval_state [OF wf])
  then show ?case using Cons.IH [of "insert k G"] Cons.prems by (simp add: invalidate_all_def)
qed (simp add: invalidate_all_def)

lemma cascaded_inval:
  assumes "state_wf s"
  shows "k \<in> set (cascaded (inval_state G s) gone) \<longleftrightarrow> k \<notin> G \<and>
    (\<exists>n. map_of (nodes s) k = Some n \<and> n_status n \<in> INVALIDATABLE_STATUSES \<and> set (n_deps n) \<inter> set gone \<noteq> {})"
proof -
  have e: "k \<in> set (cascaded t gone) \<longleftrightarrow> (\<exists>n. map_of (nodes t) k = Some n \<and>
      n_status n \<in> INVALIDATABLE_STATUSES \<and> set (n_deps n) \<inter> set gone \<noteq> {})" if "state_wf t" for t
  proof -
    have m: "(k, n) \<in> set (nodes t) \<longleftrightarrow> map_of (nodes t) k = Some n" for n
      using that by (simp add: state_wf_def dict_wf_def)
    have "k \<in> set (cascaded t gone) \<longleftrightarrow> (\<exists>n. (k, n) \<in> set (nodes t) \<and>
      n_status n \<in> INVALIDATABLE_STATUSES \<and> set (n_deps n) \<inter> set gone \<noteq> {})"
      by (auto simp: cascaded_def list_ex_iff image_iff)
    then show ?thesis unfolding m .
  qed
  have "INVALIDATED \<notin> INVALIDATABLE_STATUSES" by (simp add: INVALIDATABLE_STATUSES_def)
  then show ?thesis unfolding e [OF inval_state_wf [OF assms, of G]] inval_state_lookup
    by (cases "map_of (nodes s) k") auto
qed

text \<open>The specification: an invalidatable node goes when the patch asks for it or when it depends on
  a node that goes.\<close>

inductive must_invalidate :: "OrchestrationState \<Rightarrow> pystr set \<Rightarrow> pystr \<Rightarrow> bool" for s asked where
  requested: "k \<in> asked \<Longrightarrow> invalidatable_in s k \<Longrightarrow> must_invalidate s asked k"
| dependent: "must_invalidate s asked d \<Longrightarrow> map_of (nodes s) k = Some n \<Longrightarrow> d \<in> set (n_deps n) \<Longrightarrow>
    n_status n \<in> INVALIDATABLE_STATUSES \<Longrightarrow> must_invalidate s asked k"

lemma cascade_loop_result:
  assumes "state_wf s" and "t = inval_state (set gone) s"
    and "\<And>k. k \<in> set gone \<Longrightarrow> must_invalidate s asked k"
    and "\<And>k. k \<in> asked \<Longrightarrow> invalidatable_in s k \<Longrightarrow> k \<in> set gone"
  shows "\<exists>gone'. cascade_loop t gone = Inr (inval_state (set gone') s, gone')
    \<and> set gone' = {k. must_invalidate s asked k}"
  using assms
proof (induction t gone rule: cascade_loop.induct)
  case (1 t gone)
  show ?case
  proof (cases "cascaded t gone = []")
    case True
    have "k \<in> set gone" if "must_invalidate s asked k" for k
      using that
    proof induction
      case (dependent d k n)
      then show ?case using cascaded_inval [OF "1.prems"(1), of k "set gone" gone] True "1.prems"(2) by auto
    qed (use "1.prems"(4) in blast)
    then have "set gone = {k. must_invalidate s asked k}" using "1.prems"(3) by blast
    then show ?thesis using True "1.prems"(2) by (subst cascade_loop.simps) simp
  next
    case False
    let ?ks = "cascaded t gone"
    have ks: "must_invalidate s asked k \<and> invalidatable_in s k" if mem: "k \<in> set ?ks" for k
    proof -
      obtain n d where "map_of (nodes s) k = Some n" "n_status n \<in> INVALIDATABLE_STATUSES"
        "d \<in> set (n_deps n)" "d \<in> set gone"
        using mem cascaded_inval [OF "1.prems"(1), of k "set gone" gone] unfolding "1.prems"(2) by blast
      then show ?thesis using must_invalidate.dependent [of s asked d k n] "1.prems"(3)
        by (auto simp: invalidatable_in_def)
    qed
    have a: "invalidate_all ?ks t = Inr (inval_state (set (gone @ ?ks)) s)"
      using invalidate_all_state [OF "1.prems"(1), of ?ks "set gone"] ks "1.prems"(2) by simp
    have "\<exists>gone'. cascade_loop (inval_state (set (gone @ ?ks)) s) (gone @ ?ks)
        = Inr (inval_state (set gone') s, gone') \<and> set gone' = {k. must_invalidate s asked k}"
      by (rule "1.IH" [OF refl False a "1.prems"(1) refl]) (use ks "1.prems"(3,4) in auto)
    then show ?thesis using False a by (subst cascade_loop.simps) (simp add: Let_def)
  qed
qed

text \<open>The loop over \<open>patch.invalidate\<close>.\<close>

lemma invalidate_requested:
  assumes wf: "state_wf s" and "\<forall>k \<in> set (pr_invalidated r). k \<in> A \<and> invalidatable_in s k"
  shows "\<exists>r'. efold patch_invalidate_one ks (inval_state (set (pr_invalidated r)) s, r)
      = Inr (inval_state (set (pr_invalidated r')) s, r')
    \<and> set (pr_invalidated r') = set (pr_invalidated r) \<union> {k \<in> set ks. invalidatable_in s k}
    \<and> pr_added r' = pr_added r"
  using assms(2)
proof (induction ks arbitrary: r A)
  case (Cons k ks)
  let ?G = "set (pr_invalidated r)"
  have hyp: "\<forall>k \<in> ?G. k \<in> ?G \<and> invalidatable_in s k" using Cons.prems by blast
  have split: "{j \<in> set (k # ks). invalidatable_in s j} = (if invalidatable_in s k
      then insert k {j \<in> set ks. invalidatable_in s j} else {j \<in> set ks. invalidatable_in s j})" by auto
  consider (none) "map_of (nodes s) k = None" | (again) n where "map_of (nodes s) k = Some n" "k \<in> ?G"
    | (hit) n where "map_of (nodes s) k = Some n" "k \<notin> ?G" "n_status n \<in> INVALIDATABLE_STATUSES"
    | (keep) n where "map_of (nodes s) k = Some n" "k \<notin> ?G" "n_status n \<notin> INVALIDATABLE_STATUSES"
    by (cases "map_of (nodes s) k") auto
  then show ?case
  proof cases
    case none
    let ?r = "r\<lparr>pr_rejected := pr_rejected r @ [py ''unknown node: '' @ k]\<rparr>"
    have "patch_invalidate_one k (inval_state ?G s, r) = Inr (inval_state ?G s, ?r)"
      using none by (simp add: patch_invalidate_one_def)
    moreover have "\<not> invalidatable_in s k" using none by (simp add: invalidatable_in_def)
    ultimately show ?thesis using Cons.IH [of ?r ?G] hyp unfolding split by simp
  next
    case (again n)
    then have "patch_invalidate_one k (inval_state ?G s, r) = Inr (inval_state ?G s, r)"
      by (simp add: patch_invalidate_one_def INVALIDATABLE_STATUSES_def)
    then show ?thesis using Cons.IH [of r ?G] hyp again unfolding split by (auto simp: insert_absorb)
  next
    case (hit n)
    let ?r = "r\<lparr>pr_invalidated := pr_invalidated r @ [k]\<rparr>"
    have "apply_transition_at (inval_state ?G s) k INVALIDATED = Inr (inval_state (insert k ?G) s)"
      using hit by (intro apply_inval_state [OF wf])
    then have e: "patch_invalidate_one k (inval_state ?G s, r) = Inr (inval_state (set (pr_invalidated ?r)) s, ?r)"
      using hit by (simp add: patch_invalidate_one_def)
    have inv: "invalidatable_in s k" using hit by (auto simp: invalidatable_in_def)
    have "\<forall>j \<in> set (pr_invalidated ?r). j \<in> set (pr_invalidated ?r) \<and> invalidatable_in s j" using hyp inv by simp
    from Cons.IH [OF this] show ?thesis using inv e unfolding split by simp
  next
    case (keep n)
    let ?r = "if n_status n \<noteq> INVALIDATED then r\<lparr>pr_skipped_in_flight := pr_skipped_in_flight r @ [k]\<rparr> else r"
    have "patch_invalidate_one k (inval_state ?G s, r) = Inr (inval_state ?G s, ?r)"
      using keep by (simp add: patch_invalidate_one_def)
    moreover have "\<not> invalidatable_in s k" using keep by (simp add: invalidatable_in_def)
    moreover have "pr_invalidated ?r = pr_invalidated r" "pr_added ?r = pr_added r" by simp_all
    ultimately show ?thesis using Cons.IH [of ?r ?G] hyp unfolding split by (simp del: if_split)
  qed
qed auto

text \<open>The whole of \<open>apply_patch\<close>, in terms of the state after the additions.\<close>

lemma apply_patch_result:
  assumes wf: "state_wf s" and adds: "patch_adds known (pp_add patch) s = (s1, r1)"
  shows "\<exists>r. apply_patch s patch known = Inr (r, inval_state (set (pr_invalidated r)) s1)
    \<and> set (pr_invalidated r) = {k. must_invalidate s1 (set (pp_invalidate patch)) k}
    \<and> pr_added r = pr_added r1"
proof -
  have a: "adds_inv s known (s1, r1)" using patch_adds_inv [OF wf, of known "pp_add patch"] adds by simp
  then have wf1: "state_wf s1" and r1: "pr_invalidated r1 = []" by (auto simp: adds_inv_def)
  obtain r2 where r2: "efold patch_invalidate_one (pp_invalidate patch) (s1, r1)
      = Inr (inval_state (set (pr_invalidated r2)) s1, r2)"
    "set (pr_invalidated r2) = {k \<in> set (pp_invalidate patch). invalidatable_in s1 k}" "pr_added r2 = pr_added r1"
    using invalidate_requested [OF wf1, of r1 UNIV "pp_invalidate patch"] r1 by auto
  have "\<exists>gone. cascade_loop (inval_state (set (pr_invalidated r2)) s1) (pr_invalidated r2)
      = Inr (inval_state (set gone) s1, gone) \<and> set gone = {k. must_invalidate s1 (set (pp_invalidate patch)) k}"
    by (rule cascade_loop_result [OF wf1 refl]) (simp_all add: r2(2) must_invalidate.requested)
  then obtain gone where "cascade_loop (inval_state (set (pr_invalidated r2)) s1) (pr_invalidated r2)
      = Inr (inval_state (set gone) s1, gone)" "set gone = {k. must_invalidate s1 (set (pp_invalidate patch)) k}"
    by blast
  then show ?thesis using adds r2 by (intro exI [of _ "r2\<lparr>pr_invalidated := gone\<rparr>"]) (simp add: apply_patch_def)
qed

lemma patch_adds_old_lookup:
  assumes "state_wf s" and "patch_adds known add s = (s1, r1)" and "map_of (nodes s) k = Some n"
  shows "map_of (nodes s1) k = Some n"
  using patch_adds_inv [OF assms(1), of known add] assms(2,3) by (auto simp: adds_inv_def map_of_append)

text \<open>C6: \<open>apply_patch\<close> never raises, its cascade loop terminates, and it invalidates exactly the
  nodes it must: those the patch names and those that depend, directly or through other nodes, on an
  invalidated one, restricted to nodes whose work has not started (pending, ready, recover, failed).\<close>

theorem apply_patch_invalidates_exactly:
  assumes "state_wf s"
  shows "\<exists>r s'. apply_patch s patch known = Inr (r, s') \<and>
    set (pr_invalidated r) = {k. must_invalidate (fst (patch_adds known (pp_add patch) s)) (set (pp_invalidate patch)) k} \<and>
    (\<forall>k \<in> set (pr_invalidated r). status_of s' k = Some INVALIDATED)"
proof -
  obtain s1 r1 where a: "patch_adds known (pp_add patch) s = (s1, r1)" by (cases "patch_adds known (pp_add patch) s")
  obtain r where r: "apply_patch s patch known = Inr (r, inval_state (set (pr_invalidated r)) s1)"
    "set (pr_invalidated r) = {k. must_invalidate s1 (set (pp_invalidate patch)) k}"
    using apply_patch_result [OF assms a] by blast
  have "status_of (inval_state (set (pr_invalidated r)) s1) k = Some INVALIDATED" if "k \<in> set (pr_invalidated r)" for k
  proof -
    have "must_invalidate s1 (set (pp_invalidate patch)) k" using that r(2) by simp
    then obtain n where "map_of (nodes s1) k = Some n"
      by (cases rule: must_invalidate.cases) (auto simp: invalidatable_in_def)
    then show ?thesis using that by (simp add: status_of_def)
  qed
  then show ?thesis using r a by auto
qed

definition patch_example_state :: OrchestrationState where
  "patch_example_state = empty_state\<lparr>nodes :=
     [(py ''a'', (new_node (py ''a'') [] (py ''w''))\<lparr>n_status := FAILED\<rparr>),
      (py ''b'', (new_node (py ''b'') [] (py ''w''))\<lparr>n_deps := [py ''a'']\<rparr>),
      (py ''c'', (new_node (py ''c'') [] (py ''w''))\<lparr>n_status := COMPLETED\<rparr>)]\<rparr>"

definition patch_example :: PlanPatch where
  "patch_example = \<lparr>pp_add = [\<lparr>pt_agent_name = py ''w'', pt_name = [], pt_instruction = py ''redo'', pt_deps = [py ''c'']\<rparr>],
     pp_invalidate = [py ''a'', py ''c''], pp_reason = []\<rparr>"

lemma patch_example_wf: "state_wf patch_example_state" "plan_acyclic patch_example_state"
proof -
  show "state_wf patch_example_state"
    by (simp add: state_wf_def dict_wf_def patch_example_state_def empty_state_def new_node_def)
  have "acyclic (dep_edges (state_graph patch_example_state))"
    by (rule acyclic_edges_if_ranked [of _ "\<lambda>k. if k = py ''b'' then 1 else 0"])
      (auto simp: dep_edges_def state_graph_def patch_example_state_def new_node_def)
  then show "plan_acyclic patch_example_state"
    by (simp add: plan_acyclic_def patch_example_state_def new_node_def)
qed

theorem apply_patch_invalidates_exactly_witness:
  "state_wf patch_example_state \<and> (\<exists>r s'. apply_patch patch_example_state patch_example {py ''w''} = Inr (r, s') \<and>
    py ''b'' \<in> set (pr_invalidated r) \<and> status_of s' (py ''b'') = Some INVALIDATED)"
proof -
  let ?s1 = "fst (patch_adds {py ''w''} (pp_add patch_example) patch_example_state)"
  obtain r s' where r: "apply_patch patch_example_state patch_example {py ''w''} = Inr (r, s')"
    "set (pr_invalidated r) = {k. must_invalidate ?s1 (set (pp_invalidate patch_example)) k}"
    "\<forall>k \<in> set (pr_invalidated r). status_of s' k = Some INVALIDATED"
    using apply_patch_invalidates_exactly [OF patch_example_wf(1)] by blast
  have old: "map_of (nodes ?s1) k = Some n" if "map_of (nodes patch_example_state) k = Some n" for k n
    by (rule patch_adds_old_lookup [OF patch_example_wf(1) _ that]) (rule prod.collapse [symmetric])
  have a: "map_of (nodes ?s1) (py ''a'') = Some ((new_node (py ''a'') [] (py ''w''))\<lparr>n_status := FAILED\<rparr>)"
    and b: "map_of (nodes ?s1) (py ''b'') = Some ((new_node (py ''b'') [] (py ''w''))\<lparr>n_deps := [py ''a'']\<rparr>)"
    by (rule old, simp add: patch_example_state_def)+
  have "must_invalidate ?s1 (set (pp_invalidate patch_example)) (py ''a'')"
    using a by (intro must_invalidate.requested) (auto simp: patch_example_def invalidatable_in_def INVALIDATABLE_STATUSES_def)
  then have "must_invalidate ?s1 (set (pp_invalidate patch_example)) (py ''b'')"
    using b by (rule must_invalidate.dependent) (auto simp: new_node_def INVALIDATABLE_STATUSES_def)
  then have "py ''b'' \<in> set (pr_invalidated r)" using r(2) by simp
  then show ?thesis using patch_example_wf(1) r by blast
qed

text \<open>A patch keeps finished and running work intact: a node that is in flight, waits for input,
  or reached a final status is the same record afterwards, and of every other old node at most the
  status changes.\<close>

theorem apply_patch_keeps_work:
  assumes "state_wf s" and "apply_patch s patch known = Inr (r, s')" and "map_of (nodes s) k = Some n"
  shows "\<exists>n'. map_of (nodes s') k = Some n' \<and> n' \<in> {n, n\<lparr>n_status := INVALIDATED\<rparr>} \<and>
    (n_status n \<in> {SUBMITTED, WORKING, INPUT_REQUIRED, COMPLETED, CANCELED, INVALIDATED} \<longrightarrow> n' = n)"
proof -
  obtain s1 r1 where a: "patch_adds known (pp_add patch) s = (s1, r1)" by (cases "patch_adds known (pp_add patch) s")
  have r: "s' = inval_state (set (pr_invalidated r)) s1"
    "set (pr_invalidated r) = {k. must_invalidate s1 (set (pp_invalidate patch)) k}"
    using apply_patch_result [OF assms(1) a] assms(2) by auto
  have n: "map_of (nodes s1) k = Some n" using patch_adds_old_lookup [OF assms(1) a assms(3)] .
  have "n_status n \<in> INVALIDATABLE_STATUSES" if "must_invalidate s1 (set (pp_invalidate patch)) k"
    using that n by (cases rule: must_invalidate.cases) (auto simp: invalidatable_in_def)
  then show ?thesis using n r by (auto simp: INVALIDATABLE_STATUSES_def)
qed

lemma patch_example_runs:
  obtains r s' where "apply_patch patch_example_state patch_example {py ''w''} = Inr (r, s')"
  using apply_patch_result [OF patch_example_wf(1) prod.collapse [symmetric]] by blast

theorem apply_patch_keeps_work_witness:
  "\<exists>r s'. apply_patch patch_example_state patch_example {py ''w''} = Inr (r, s') \<and>
     map_of (nodes s') (py ''c'') = map_of (nodes patch_example_state) (py ''c'')"
proof -
  obtain r s' where r: "apply_patch patch_example_state patch_example {py ''w''} = Inr (r, s')"
    by (rule patch_example_runs)
  have c: "map_of (nodes patch_example_state) (py ''c'') = Some ((new_node (py ''c'') [] (py ''w''))\<lparr>n_status := COMPLETED\<rparr>)"
    by (simp add: patch_example_state_def)
  show ?thesis using apply_patch_keeps_work [OF patch_example_wf(1) r c] r c by auto
qed

text \<open>C12: a patch keeps the plan executable: ids stay distinct and consistent, the dependency graph stays
  acyclic and closed, and every added node has a fresh id, a registered agent and status pending or
  (when the cascade caught it) invalidated.\<close>

theorem apply_patch_keeps_plan_valid:
  assumes wf: "state_wf s" and ac: "plan_acyclic s" and p: "apply_patch s patch known = Inr (r, s')"
  shows "state_wf s' \<and> plan_acyclic s' \<and> d_keys (nodes s') = d_keys (nodes s) @ pr_added r \<and>
    (\<forall>k \<in> set (pr_added r). \<not> d_has (nodes s) k \<and> (\<exists>n. map_of (nodes s') k = Some n \<and>
       n_agent_name n \<in> known \<and> n_derived n \<and> n_status n \<in> {PENDING, INVALIDATED}))"
proof -
  obtain s1 r1 where a: "patch_adds known (pp_add patch) s = (s1, r1)" by (cases "patch_adds known (pp_add patch) s")
  have s': "s' = inval_state (set (pr_invalidated r)) s1" and ad: "pr_added r = pr_added r1"
    using apply_patch_result [OF wf a] p by auto
  have inv: "adds_inv s known (s1, r1)" using patch_adds_inv [OF wf, of known "pp_add patch"] a by simp
  then obtain new where new: "nodes s1 = nodes s @ new" "map fst new = pr_added r1"
    "\<forall>(k, n) \<in> set new. n_status n = PENDING \<and> n_agent_name n \<in> known \<and> n_derived n"
    and wf1: "state_wf s1" and ac1: "plan_acyclic s1"
    using ac by (auto simp: adds_inv_def)
  have dis: "distinct (d_keys (nodes s) @ pr_added r1)"
    using wf1 new(1,2) by (simp add: state_wf_def dict_wf_def)
  have "\<not> d_has (nodes s) k \<and> (\<exists>n. map_of (nodes s') k = Some n \<and>
       n_agent_name n \<in> known \<and> n_derived n \<and> n_status n \<in> {PENDING, INVALIDATED})" if k: "k \<in> set (pr_added r)" for k
  proof -
    have nk: "\<not> d_has (nodes s) k" using dis k ad by auto
    have "k \<in> set (map fst new)" using k ad new(2) by simp
    then obtain n where n: "(k, n) \<in> set new" by auto
    have "map_of new k = Some n" using n dis new(2) by simp
    then have "map_of (nodes s1) k = Some n" using new(1) nk map_of_eq_None_iff [of "nodes s" k] by (simp add: map_add_def)
    then show ?thesis using nk n new(3) s' by auto
  qed
  then show ?thesis using wf1 ac1 s' new(1,2) ad by (simp add: inval_state_wf inval_state_acyclic)
qed

theorem apply_patch_keeps_plan_valid_witness:
  "\<exists>r s'. apply_patch patch_example_state patch_example {py ''w''} = Inr (r, s') \<and> state_wf s' \<and> plan_acyclic s'"
proof -
  obtain r s' where r: "apply_patch patch_example_state patch_example {py ''w''} = Inr (r, s')"
    by (rule patch_example_runs)
  show ?thesis using apply_patch_keeps_plan_valid [OF patch_example_wf r] r by blast
qed

end
