(* ===== verification/Hitl.thy ===== *)
theory Hitl
  imports Context Patch
begin

text \<open>
  Human-in-the-loop questions, \<open>orchestration/hitl/intervention.py\<close>: parsing answers out of a user
  message, emitting the pending questions, validating and applying one answer, canceling a node.
  The validation of a \<open>question_response\<close> payload against its pydantic model is the parameter
  \<open>model_validate\<close>; the error text of a malformed payload prints it as JSON (Python prints its \<open>repr\<close>).
\<close>

section \<open>Definitions\<close>

abbreviation set_iv :: "pystr \<Rightarrow> (Intervention \<Rightarrow> Intervention) \<Rightarrow> ctx \<Rightarrow> ctx" where
  "set_iv k f c \<equiv> c\<lparr>c_state := (c_state c)\<lparr>interventions := d_modify k f (interventions (c_state c))\<rparr>\<rparr>"

text \<open>One part of an A2A message: text, or data with its \<open>cw_type\<close> metadata.\<close>

datatype message_part = TextPart pystr | DataPart "pystr option" json

text \<open>\<open>isinstance(answer, list) and answer\<close> etc. of \<open>_validate_answer\<close>; \<open>None\<close> is "valid".\<close>

definition validate_answer :: "Intervention \<Rightarrow> answer \<Rightarrow> pystr option" where
  "validate_answer iv ans = (case iv_question_type iv of
      Q_SELECT \<Rightarrow>
        (if iv_multi iv then
           (case ans of
              AnsList xs \<Rightarrow> (if xs = [] then Some (py ''multi-select answer must be a non-empty list'')
                else if \<not> set xs \<subseteq> set (iv_options iv) then Some (py ''answer contains options outside the allowed set'')
                else None)
            | _ \<Rightarrow> Some (py ''multi-select answer must be a non-empty list''))
         else (case ans of
              AnsStr s \<Rightarrow> (if s \<in> set (iv_options iv) then None else Some (py ''answer must be one of the allowed options''))
            | _ \<Rightarrow> Some (py ''answer must be one of the allowed options'')))
    | Q_CONFIRM \<Rightarrow> (case ans of AnsBool _ \<Rightarrow> None | _ \<Rightarrow> Some (py ''confirm answer must be a boolean''))
    | Q_INPUT \<Rightarrow> (case ans of
         AnsStr s \<Rightarrow> (if str_strip s = [] then Some (py ''input answer must be a non-empty string'') else None)
       | _ \<Rightarrow> Some (py ''input answer must be a non-empty string'')))"

fun parse_parts :: "(json \<Rightarrow> QuestionResponse option) \<Rightarrow> message_part list \<Rightarrow> QuestionResponse list
    \<Rightarrow> exn + QuestionResponse list" where
  "parse_parts model_validate [] responses = Inr responses"
| "parse_parts model_validate (TextPart _ # ps) responses = parse_parts model_validate ps responses"
| "parse_parts model_validate (DataPart kind payload # ps) responses =
     (if kind \<noteq> Some (py ''question_response'') then parse_parts model_validate ps responses
      else case model_validate payload of
        None \<Rightarrow> Inl (ValueError (py ''malformed question_response: '' @ json_text payload))
      | Some r \<Rightarrow> parse_parts model_validate ps (responses @ [r]))"

definition parse_question_response :: "(json \<Rightarrow> QuestionResponse option) \<Rightarrow> message_part list \<Rightarrow> exn + QuestionResponse list" where
  "parse_question_response model_validate parts = parse_parts model_validate parts []"

definition question_part :: "Intervention \<Rightarrow> pystr \<times> json" where
  "question_part iv = (iv_question iv, JObj
     [(py ''intervention_id'', JStr (iv_id iv)), (py ''node_id'', JStr (iv_node_id iv)),
      (py ''requester'', JStr (iv_requester iv)), (py ''kind'', JStr (intervention_kind_str (iv_kind iv))),
      (py ''question_type'', JStr (question_type_str (iv_question_type iv))), (py ''options'', jstrs (iv_options iv)),
      (py ''multi'', JBool (iv_multi iv)), (py ''question'', JStr (iv_question iv))])"

definition build_questions_message :: "Intervention list \<Rightarrow> (pystr \<times> json) list" where
  "build_questions_message pending = map question_part pending"

text \<open>\<open>for intervention in newly: record_message(...); intervention.announced = True\<close>\<close>

definition announce :: "Intervention \<Rightarrow> ctx \<Rightarrow> ctx" where
  "announce iv c = set_iv (iv_id iv) (\<lambda>iv. iv\<lparr>iv_announced := True\<rparr>) (record_message ASSISTANT (iv_question iv) c)"

definition emit_pending_questions :: "ctx \<Rightarrow> ctx" where
  "emit_pending_questions c = (let pending = pending_interventions (c_state c) in
     if pending = [] then c
     else let newly = filter (\<lambda>iv. \<not> iv_announced iv) pending;
              c1 = fold announce newly c;
              c2 = (if newly = [] then c1 else persist c1)
          in emit_event TASK_INPUT_REQUIRED [] None (Some (build_questions_message pending)) c2)"

definition expire :: "Intervention \<Rightarrow> ctx \<Rightarrow> bool \<times> ctx" where
  "expire iv c = (False, emit_interventions_expired [iv\<lparr>iv_status := IV_EXPIRED\<rparr>]
     (persist (set_iv (iv_id iv) (\<lambda>iv. iv\<lparr>iv_status := IV_EXPIRED\<rparr>) c)))"

text \<open>The remote cancel request of \<open>cancel_node\<close> and \<open>_do_interrupt\<close>: sent when the node has a remote
  task and its agent is registered; \<open>cancel_task\<close> swallows every failure.\<close>

definition request_cancel :: "NodeState \<Rightarrow> ctx \<Rightarrow> ctx" where
  "request_cancel n c = (case n_a2a_task_id n of
      Some (x # xs) \<Rightarrow> (case agent_url_for (n_agent_name n) c of
          Inl _ \<Rightarrow> c
        | Inr url \<Rightarrow> c\<lparr>c_cancels := c_cancels c @ [(url, x # xs)]\<rparr>)
    | _ \<Rightarrow> c)"

fun expire_nodes :: "pystr list \<Rightarrow> Intervention list \<times> OrchestrationState \<Rightarrow> Intervention list \<times> OrchestrationState" where
  "expire_nodes [] (ivs, s) = (ivs, s)"
| "expire_nodes (k # ks) (ivs, s) = (let (e, s') = expire_node_interventions s k in expire_nodes ks (ivs @ e, s'))"

definition invalidated_delta :: "pystr list \<Rightarrow> (pystr \<times> delta) list" where
  "invalidated_delta ks = map (\<lambda>k. (k, [(py ''status'', JStr (node_status_str INVALIDATED))])) ks"

definition canceled_delta :: "NodeState \<Rightarrow> pystr \<times> delta" where
  "canceled_delta n = (n_id n, [(py ''status'', JStr (node_status_str CANCELED)), (py ''agent_name'', JStr (n_agent_name n))])"

definition cancel_node :: "pystr \<Rightarrow> ctx \<Rightarrow> exn + ctx" where
  "cancel_node k c = (case map_of (nodes (c_state c)) k of
      None \<Rightarrow> Inl (KeyError k)
    | Some n \<Rightarrow>
        (let c1 = request_cancel n c in
         ebind (apply_transition_at (c_state c1) k CANCELED) (\<lambda>s1.
         let s2 = s1\<lparr>nodes := d_modify k (\<lambda>n. n\<lparr>n_a2a_task_id := None\<rparr>) (nodes s1)\<rparr>;
             invalidated = map n_id (blocked_nodes s2)
         in ebind (invalidate_all invalidated s2) (\<lambda>s3.
         let (expired, s4) = expire_nodes (k # invalidated) ([], s3)
         in Inr (persist (emit_interventions_expired expired
              (emit_state_delta (canceled_delta n # invalidated_delta invalidated) [] [] (set_state s4 c1))))))))"

fun answer_json :: "answer \<Rightarrow> json" where
  "answer_json a = answer_to_json (Some a)"

definition resolved_delta :: "Intervention \<Rightarrow> answer \<Rightarrow> pystr \<times> delta" where
  "resolved_delta iv ans = (iv_id iv, [(py ''status'', JStr (py ''resolved'')), (py ''node_id'', JStr (iv_node_id iv)),
     (py ''kind'', JStr (intervention_kind_str (iv_kind iv))), (py ''responder'', JStr (py ''human'')),
     (py ''answer'', answer_json ans)])"

definition resolve :: "answer \<Rightarrow> Intervention \<Rightarrow> Intervention" where
  "resolve ans iv = iv\<lparr>iv_status := IV_RESOLVED, iv_answer := Some ans, iv_responder := Some (py ''human'')\<rparr>"

definition answer_intervention :: "pystr \<Rightarrow> answer \<Rightarrow> ctx \<Rightarrow> exn + (bool \<times> ctx)" where
  "answer_intervention intervention_id ans c = (case map_of (interventions (c_state c)) intervention_id of
      None \<Rightarrow> Inr (False, emit_intervention_rejected intervention_id (py ''unknown or resolved intervention'') c)
    | Some iv \<Rightarrow>
       (if iv_status iv \<noteq> IV_PENDING
          then Inr (False, emit_intervention_rejected intervention_id (py ''unknown or resolved intervention'') c)
        else case validate_answer iv ans of
          Some error \<Rightarrow> Inr (False, emit_intervention_rejected intervention_id error c)
        | None \<Rightarrow>
           (let node = map_of (nodes (c_state c)) (iv_node_id iv);
                c1 = set_iv intervention_id (resolve ans) c;
                txt = render_answer (resolve ans iv)
            in if iv_kind iv = CONFIRM_CANCEL then
                 (case node of
                    None \<Rightarrow> Inr (expire iv c)
                  | Some n \<Rightarrow>
                     (if n_status n \<notin> ACTIVE_NODE_STATUSES then Inr (expire iv c)
                      else ebind (let c2 = record_message USER txt c1
                                  in if ans = AnsBool True then cancel_node (iv_node_id iv) c2 else Inr c2) (\<lambda>c3.
                        Inr (True, emit_state_delta [] [] [resolved_delta iv ans] (persist c3)))))
               else
                 (case node of
                    None \<Rightarrow> Inr (expire iv c)
                  | Some n \<Rightarrow>
                     (if n_status n \<noteq> INPUT_REQUIRED then Inr (expire iv c)
                      else let c2 = record_message USER txt
                                      (set_node (iv_node_id iv) (\<lambda>n. n\<lparr>n_answer_text := Some txt\<rparr>) c1)
                           in ebind (apply_transition_at (c_state c2) (iv_node_id iv) READY) (\<lambda>s.
                             Inr (True, emit_state_delta
                               [(iv_node_id iv, [(py ''status'', JStr (node_status_str READY))])] [] [resolved_delta iv ans]
                               (persist (set_state s c2)))))))))"

end
