(* ===== verification/Tools.thy ===== *)
theory Tools
  imports Hitl Fencing
begin

text \<open>
  The tools of the orchestrator and the operations that create nodes: derived nodes
  (\<open>planning/derived.py\<close>), \<open>ask_user\<close>, \<open>call_subagent\<close>, \<open>create_plan\<close>, the locked patch
  (\<open>apply_patch_locked\<close> of \<open>planning/patch.py\<close>), \<open>revise_plan\<close> (the tool and
  \<open>planning/repair.py\<close>), \<open>repair_plan\<close>, and \<open>hitl/assist.py\<close>.  What a language model decides is an
  argument of the operation that acts on it.
\<close>

section \<open>Derived nodes\<close>

datatype DerivedKind = FOLLOWUP | ASSIST | HELPER

fun derived_suffix :: "DerivedKind \<Rightarrow> pystr" where
  "derived_suffix FOLLOWUP = py ''f''"
| "derived_suffix ASSIST = py ''a''"
| "derived_suffix HELPER = py ''h''"

fun join_reason :: "DerivedKind \<Rightarrow> pystr" where
  "join_reason ASSIST = py ''agent_mention''"
| "join_reason HELPER = py ''peer_assist''"
| "join_reason FOLLOWUP = []"

definition derived_id :: "pystr \<Rightarrow> DerivedKind \<Rightarrow> int \<Rightarrow> pystr" where
  "derived_id parent_id kind cnt = parent_id @ py ''-'' @ derived_suffix kind @ int_str cnt"

definition spawn_derived_node :: "DerivedKind \<Rightarrow> pystr \<Rightarrow> pystr \<Rightarrow> pystr \<Rightarrow> pystr list \<Rightarrow> pystr option \<Rightarrow> bool \<Rightarrow> ctx
    \<Rightarrow> exn + (pystr option \<times> ctx)" where
  "spawn_derived_node kind parent_id agent_name input_text deps requested_by emits c =
     (let s = c_state c in
      if derived_count s \<ge> cfg_max_derived_nodes (c_config c) then Inr (None, c)
      else let cnt = derived_count s + 1;
               node_id = derived_id parent_id kind cnt;
               node = (new_node node_id [] agent_name)\<lparr>n_deps := deps, n_input_text := input_text, n_derived := True,
                        n_assist_requested_by := requested_by\<rparr>;
               c1 = set_state (s\<lparr>derived_count := cnt, nodes := AList.update node_id node (nodes s)\<rparr>) c
           in ebind (if kind \<noteq> FOLLOWUP then join_members [agent_name] (join_reason kind) c1 else Inr c1) (\<lambda>c2.
             let c3 = (if emits then emit_state_delta [(node_id, [(py ''status'', JStr (node_status_str PENDING)),
                          (py ''agent_name'', JStr agent_name), (py ''input_text'', JStr input_text)])] [] [] c2 else c2)
             in Inr (Some node_id, persist c3)))"

definition spawn_followup_node :: "pystr \<Rightarrow> pystr \<Rightarrow> pystr \<Rightarrow> pystr list \<Rightarrow> ctx \<Rightarrow> exn + ctx" where
  "spawn_followup_node txt anchor_id anchor_agent deps c =
     ebind (spawn_derived_node FOLLOWUP anchor_id anchor_agent txt deps None True c) (\<lambda>(_, c1). Inr c1)"

section \<open>ask\_user\<close>

record AskUserData =
  au_intervention_id :: pystr
  au_node_id :: pystr
  au_agent_name :: pystr
  au_question :: pystr
  au_question_type :: QuestionType
  au_options :: "pystr list"
  au_multi :: bool

definition ask_user_run :: "pystr \<Rightarrow> pystr \<Rightarrow> QuestionType \<Rightarrow> pystr list \<Rightarrow> bool \<Rightarrow> ctx
    \<Rightarrow> exn + (AskUserData FunctionResult \<times> ctx)" where
  "ask_user_run node_id question qtype options multi c = (case map_of (nodes (c_state c)) node_id of
      None \<Rightarrow> Inr (tool_error (py ''unknown node: '' @ node_id), c)
    | Some node \<Rightarrow>
       ebind (apply_transition_at (c_state c) node_id INPUT_REQUIRED) (\<lambda>s.
         let (i, c1) = new_uuid (set_state s c);
             (iv, s1) = request_user_input i (c_now c1 (c_tick c1)) (c_state c1) node_id question QUESTION qtype
                          options multi (n_agent_name node)
         in case iv of
              None \<Rightarrow> Inr (tool_error (py ''question already pending''), c1)
            | Some v \<Rightarrow> Inr (tool_ok \<lparr>au_intervention_id = iv_id v, au_node_id = node_id, au_agent_name = n_agent_name node,
                  au_question = iv_question v, au_question_type = iv_question_type v, au_options = iv_options v,
                  au_multi = iv_multi v\<rparr>,
                set_node node_id (\<lambda>n. n\<lparr>n_question := Some question\<rparr>) (set_state s1 c1))))"

section \<open>call\_subagent\<close>

record CallSubagentData =
  cs_helper_node_id :: pystr
  cs_helper :: pystr
  cs_requester :: pystr

definition call_subagent_tool :: FunctionTool where
  "call_subagent_tool = \<lparr>ft_name = py ''call_subagent'', ft_emit_artifact = True\<rparr>"

definition call_subagent_args :: "pystr \<Rightarrow> pystr \<Rightarrow> pystr \<Rightarrow> json" where
  "call_subagent_args requested_by target instruction = JObj [(py ''requested_by'', JStr requested_by),
     (py ''target_agent'', JStr target), (py ''instruction'', JStr instruction)]"

definition call_subagent_dump :: "CallSubagentData \<Rightarrow> json" where
  "call_subagent_dump d = JObj [(py ''helper_node_id'', JStr (cs_helper_node_id d)), (py ''helper'', JStr (cs_helper d)),
     (py ''requester'', JStr (cs_requester d))]"

text \<open>The refusals, in their order; \<open>None\<close> lets the call go on.\<close>

definition call_subagent_refusal :: "pystr \<Rightarrow> pystr \<Rightarrow> ctx \<Rightarrow> pystr option" where
  "call_subagent_refusal requested_by target c =
     (if requested_by = py ''assistant'' then Some (py ''assistant dispatch does not create helper nodes'')
      else if target \<notin> set (map ag_name (registry_list c)) then Some (py ''unknown agent: '' @ target)
      else case map_of (nodes (c_state c)) requested_by of
          None \<Rightarrow> None
        | Some r \<Rightarrow>
           (if target = n_agent_name r then Some (py ''cannot target the requesting agent'')
            else if target \<in> assist_chain_agents (c_state c) r
              then Some (py ''agent already in this assist chain: '' @ target)
            else if assist_nodes_for (c_state c) target (n_id r) \<noteq> []
              then Some (py ''agent already asked for help: '' @ target)
            else None))"

definition call_subagent_run :: "pystr \<Rightarrow> pystr \<Rightarrow> pystr \<Rightarrow> ctx \<Rightarrow> exn + (CallSubagentData FunctionResult \<times> ctx)" where
  "call_subagent_run requested_by target instruction c = (case call_subagent_refusal requested_by target c of
      Some error \<Rightarrow> Inr (tool_error error, c)
    | None \<Rightarrow>
       (let requester = map_of (nodes (c_state c)) requested_by;
            question = (case requester of None \<Rightarrow> [] | Some r \<Rightarrow> (case n_question r of None \<Rightarrow> [] | Some q \<Rightarrow> q))
        in ebind (spawn_derived_node HELPER requested_by target
               (if instruction = [] then build_peer_fallback_input question else instruction) [] (Some requested_by) False c)
             (\<lambda>(helper, c1). case helper of
                None \<Rightarrow> Inr (tool_error (py ''max derived nodes reached''), c1)
              | Some h \<Rightarrow> Inr (tool_ok \<lparr>cs_helper_node_id = h, cs_helper = target,
                  cs_requester = (case requester of None \<Rightarrow> [] | Some r \<Rightarrow> n_agent_name r)\<rparr>, c1))))"

section \<open>create\_plan\<close>

definition plan_node_data :: "NodeState \<Rightarrow> json" where
  "plan_node_data n = JObj [(py ''id'', JStr (n_id n)), (py ''name'', JStr (n_name n)),
     (py ''agent_name'', JStr (n_agent_name n)), (py ''deps'', jstrs (n_deps n)), (py ''input_text'', JStr (n_input_text n))]"

definition draft_node :: "PlanNodeDraft \<Rightarrow> NodeState" where
  "draft_node d = (new_node (pd_id d) (pd_name d) (pd_agent_name d))\<lparr>n_deps := pd_deps d,
     n_input_text := (case map_of (pd_input d) (py ''text'') of None \<Rightarrow> [] | Some t \<Rightarrow> t)\<rparr>"

definition create_plan_nodes :: "PlanNodeDraft list \<Rightarrow> OrchestrationState \<Rightarrow> OrchestrationState" where
  "create_plan_nodes drafts s = fold (\<lambda>d s. s\<lparr>nodes := AList.update (pd_id d) (draft_node d) (nodes s)\<rparr>) drafts s"

definition create_plan_tool :: FunctionTool where
  "create_plan_tool = \<lparr>ft_name = py ''create_plan'', ft_emit_artifact = True\<rparr>"

definition create_plan_run :: "PlanNodeDraft list \<Rightarrow> ctx \<Rightarrow> exn + (json FunctionResult \<times> ctx)" where
  "create_plan_run drafts c =
     (let c1 = set_state (create_plan_nodes drafts (c_state c)) c in
      ebind (join_members (filter (\<lambda>a. a \<noteq> []) (map n_agent_name (d_values (nodes (c_state c1))))) (py ''plan'') c1) (\<lambda>c2.
        Inr (tool_ok (JObj [(py ''plan_id'', JStr (plan_id (c_state c2))), (py ''plan_version'', JInt (plan_version (c_state c2))),
          (py ''nodes'', JArr (map plan_node_data (d_values (nodes (c_state c2)))))]), c2)))"

section \<open>Patches under the lock\<close>

definition confirm_question :: "NodeState \<Rightarrow> pystr \<Rightarrow> pystr" where
  "confirm_question n reason = [35745, 21010, 20462, 35746, 24314, 35758, 20316, 24223, 36827, 34892, 20013, 30340, 20219, 21153] @ py '' @'' @ n_agent_name n @ [65288]
     @ (if reason = [] then [26080, 35828, 26126] else reason) @ [65289, 12290, 26159, 21542, 25171, 26029, 65311, 22238, 22797, 12300, 30830, 35748, 12301, 25171, 26029, 65292, 22238, 22797, 20854, 20182, 20869, 23481, 21017, 20445, 30041, 12290]"

text \<open>One in-flight node the patch wanted to invalidate: ask the user whether to interrupt it.\<close>

definition ask_confirm :: "pystr \<Rightarrow> pystr \<Rightarrow> ctx \<times> (pystr \<times> delta) list \<Rightarrow> ctx \<times> (pystr \<times> delta) list" where
  "ask_confirm reason node_id = (\<lambda>(c, new). case map_of (nodes (c_state c)) node_id of
      None \<Rightarrow> (c, new)
    | Some n \<Rightarrow>
       (let (i, c1) = new_uuid c;
            (iv, s1) = request_user_input i (c_now c1 (c_tick c1)) (c_state c1) node_id (confirm_question n reason)
                         CONFIRM_CANCEL Q_CONFIRM [] False (py ''assistant'')
        in case iv of
             None \<Rightarrow> (c, new)
           | Some v \<Rightarrow> (set_state s1 c1, new @ [(iv_id v, [(py ''status'', JStr (py ''pending'')), (py ''node_id'', JStr node_id),
               (py ''kind'', JStr (py ''confirm_cancel'')), (py ''question'', JStr (iv_question v))])])))"

definition apply_patch_locked :: "PlanPatch \<Rightarrow> ctx \<Rightarrow> exn + (PatchResult \<times> ctx)" where
  "apply_patch_locked patch c =
     (let known = set (map ag_name (registry_list c)) in
      ebind (apply_patch (c_state c) patch known) (\<lambda>(result, s1).
      let (c2, new) = fold (ask_confirm (pp_reason patch)) (pr_skipped_in_flight result) (set_state s1 c, []);
          c3 = emit_state_delta [] [] new c2;
          added_agents = filter (\<lambda>a. a \<in> known) (map pt_agent_name (pp_add patch))
      in ebind (join_members added_agents (py ''plan_revision'') c3) (\<lambda>c4.
        Inr (result, emit_pending_questions (persist (emit_state_delta (invalidated_delta (pr_invalidated result)) [] [] c4))))))"

definition revise_plan_tool :: FunctionTool where
  "revise_plan_tool = \<lparr>ft_name = py ''revise_plan'', ft_emit_artifact = True\<rparr>"

definition patch_node_json :: "PatchNode \<Rightarrow> json" where
  "patch_node_json p = JObj [(py ''agent_name'', JStr (pt_agent_name p)), (py ''name'', JStr (pt_name p)),
     (py ''instruction'', JStr (pt_instruction p)), (py ''deps'', jstrs (pt_deps p))]"

definition patch_json :: "PlanPatch \<Rightarrow> json" where
  "patch_json p = JObj [(py ''patch'', JObj [(py ''add'', JArr (map patch_node_json (pp_add p))),
     (py ''invalidate'', jstrs (pp_invalidate p)), (py ''reason'', JStr (pp_reason p))])]"

text \<open>The tool's result keeps the \<open>PatchResult\<close>; its dump is the \<open>RevisePlanData\<close> payload.\<close>

definition revise_plan_dump :: "PlanPatch \<Rightarrow> PatchResult \<times> OrchestrationState \<Rightarrow> json" where
  "revise_plan_dump patch = (\<lambda>(r, s). JObj [(py ''plan_id'', JStr (plan_id s)), (py ''plan_version'', JInt (plan_version s)),
     (py ''reason'', JStr (pp_reason patch)), (py ''added'', jstrs (pr_added r)),
     (py ''added_nodes'', JArr (concat (map (\<lambda>k. case map_of (nodes s) k of None \<Rightarrow> [] | Some n \<Rightarrow> [plan_node_data n])
       (pr_added r)))),
     (py ''invalidated'', jstrs (pr_invalidated r)), (py ''skipped_in_flight'', jstrs (pr_skipped_in_flight r)),
     (py ''rejected'', jstrs (pr_rejected r))])"

definition revise_plan_run :: "PlanPatch \<Rightarrow> ctx \<Rightarrow> exn + ((PatchResult \<times> OrchestrationState) FunctionResult \<times> ctx)" where
  "revise_plan_run patch c = ebind (apply_patch_locked patch c) (\<lambda>(r, c1). Inr (tool_ok (r, c_state c1), c1))"

definition revise_plan :: "PlanPatch \<Rightarrow> ctx \<Rightarrow> exn + (PatchResult \<times> ctx)" where
  "revise_plan patch c =
     ebind (execute_function revise_plan_tool (revise_plan_dump patch) (patch_json patch) (revise_plan_run patch) [] c)
       (\<lambda>(fr, c1). let result = (case fr_data fr of None \<Rightarrow> empty_patch_result | Some (r, _) \<Rightarrow> r) in
         Inr (result, if pr_added result \<noteq> [] \<or> pr_invalidated result \<noteq> []
           then set_state ((c_state c1)\<lparr>revision_count := revision_count (c_state c1) + 1\<rparr>) c1 else c1))"

text \<open>\<open>repair_plan\<close>: \<open>llm\<close> is what the repair agent answers to a prompt: \<open>None\<close> when it raises or
  returns nothing.\<close>

definition repair_plan :: "(pystr \<Rightarrow> PlanPatch option) \<Rightarrow> ctx \<Rightarrow> exn + (bool \<times> ctx)" where
  "repair_plan llm c =
     (let failed_ids = map n_id (failed_nodes (c_state c)) in
      if registry_list c = [] then Inr (False, c)
      else ebind (build_repair_user (d_values (nodes (c_state c))) (registry_list c)) (\<lambda>user.
       case llm user of
        None \<Rightarrow> Inr (False, c)
      | Some p \<Rightarrow>
         (let patch = p\<lparr>pp_invalidate := fromkeys (pp_invalidate p @ failed_ids)\<rparr> in
          ebind (revise_plan patch c) (\<lambda>(r, c1).
            Inr (pr_added r \<noteq> [] \<or> pr_invalidated r \<noteq> [],
                 record_decision (py ''[repair] added='' @ nat_str (length (pr_added r)) @ py '' invalidated=''
                   @ nat_str (length (pr_invalidated r))) c1)))))"

section \<open>Assistance\<close>

text \<open>\<open>re.findall(r"@([A-Za-z0-9_-]+)", text)\<close>\<close>

definition is_name_char :: "nat \<Rightarrow> bool" where
  "is_name_char ch \<longleftrightarrow> (48 \<le> ch \<and> ch \<le> 57) \<or> (65 \<le> ch \<and> ch \<le> 90) \<or> (97 \<le> ch \<and> ch \<le> 122) \<or> ch = 95 \<or> ch = 45"

function find_mentions :: "pystr \<Rightarrow> pystr list" where
  "find_mentions [] = []"
| "find_mentions (ch # s) = (let name = takeWhile is_name_char s in
     if ch = 64 \<and> name \<noteq> [] then name # find_mentions (dropWhile is_name_char s) else find_mentions s)"
  by pat_completeness auto

termination
  by (relation "measure length") (auto simp: less_Suc_eq_le length_dropWhile_le)

fun arbitrate_loop :: "NodeState \<Rightarrow> pystr \<Rightarrow> pystr list \<Rightarrow> pystr list \<Rightarrow> ctx \<Rightarrow> exn + ctx" where
  "arbitrate_loop node out known [] c = Inr c"
| "arbitrate_loop node out known (name # names) c =
     (if name = n_agent_name node \<or> name \<notin> set known then arbitrate_loop node out known names c
      else if assist_nodes_for (c_state c) name (n_id node) \<noteq> [] then arbitrate_loop node out known names c
      else ebind (spawn_derived_node ASSIST (n_id node) name (build_assist_input (n_agent_name node) (Some out)) []
                    (Some (n_id node)) True c)
             (\<lambda>(helper, c1). case helper of None \<Rightarrow> Inr c1 | Some _ \<Rightarrow> arbitrate_loop node out known names c1))"

definition arbitrate_mentions :: "NodeState \<Rightarrow> ctx \<Rightarrow> exn + ctx" where
  "arbitrate_mentions node c = (case n_output node of
      None \<Rightarrow> Inr c
    | Some out \<Rightarrow> if out = [] then Inr c
        else arbitrate_loop node out (map ag_name (registry_list c)) (fromkeys (find_mentions out)) c)"

record AssistanceResult =
  as_target_agent :: "pystr option"
  as_instruction :: pystr
  as_question_type :: QuestionType
  as_options :: "pystr list"
  as_multi :: bool

definition spawn_assist :: "pystr \<Rightarrow> AssistanceResult \<Rightarrow> ctx \<Rightarrow> exn + (bool \<times> ctx)" where
  "spawn_assist node_id decision c = (let target = (case as_target_agent decision of None \<Rightarrow> [] | Some t \<Rightarrow> t) in
     ebind (execute_function call_subagent_tool call_subagent_dump
              (call_subagent_args node_id target (as_instruction decision))
              (call_subagent_run node_id target (as_instruction decision)) [] c)
       (\<lambda>(r, c1). Inr (fr_success r, c1)))"

end
