(* ===== verification/Flow_Engine.thy ===== *)
theory Flow_Engine
  imports Prelude
begin

text \<open>
  The route-tagged flow engine of \<open>choirworks/orchestration/flows/engine.py\<close>.  A flow's handlers are
  the elements of a type \<open>'h\<close> (a datatype per concrete flow), an edge is declared between handlers,
  and \<open>flow_run\<close> threads the state through the handlers until one returns an outcome or no edge
  matches.  \<open>flow_run\<close> is a partial function because the engine itself allows cyclic flows: a run
  that does not end is the value \<open>None\<close>.
\<close>

section \<open>Flows\<close>

definition DEFAULT :: pystr where
  "DEFAULT = py ''__default__''"

datatype FlowOutcome = CONTINUE | EXIT_WAIT | EXIT_DONE | EXIT_FAILED | END

datatype step = Route pystr | Outcome FlowOutcome

record 'h Edge =
  e_source :: 'h
  e_target :: 'h
  e_routes :: "pystr list"

record 'h Flow =
  f_name :: pystr
  f_start :: 'h
  f_edges :: "'h Edge list"

text \<open>\<open>Edge(source, target, frozenset(routes))\<close>\<close>

definition edge :: "'h \<Rightarrow> 'h \<Rightarrow> string list \<Rightarrow> 'h Edge" where
  "edge a b rs = \<lparr>e_source = a, e_target = b, e_routes = map py rs\<rparr>"

definition flow_nodes :: "'h Flow \<Rightarrow> 'h list" where
  "flow_nodes f = fromkeys (f_start f # concat (map (\<lambda>e. [e_source e, e_target e]) (f_edges f)))"

text \<open>\<open>x = x or y\<close> for handler slots.\<close>

definition or_else :: "'a option \<Rightarrow> 'a option \<Rightarrow> 'a option" where
  "or_else a b = (case a of Some x \<Rightarrow> Some x | None \<Rightarrow> b)"

fun target_loop :: "'h \<Rightarrow> pystr \<Rightarrow> 'h Edge list \<Rightarrow> 'h option \<Rightarrow> 'h option \<Rightarrow> 'h option \<Rightarrow> 'h option" where
  "target_loop src route [] specific unconditional fallback = or_else specific (or_else unconditional fallback)"
| "target_loop src route (e # es) specific unconditional fallback =
     (if e_source e \<noteq> src then target_loop src route es specific unconditional fallback
      else if e_routes e = [] then target_loop src route es specific (or_else unconditional (Some (e_target e))) fallback
      else if route \<in> set (e_routes e) then target_loop src route es (or_else specific (Some (e_target e))) unconditional fallback
      else if DEFAULT \<in> set (e_routes e) then target_loop src route es specific unconditional (or_else fallback (Some (e_target e)))
      else target_loop src route es specific unconditional fallback)"

definition target_for :: "'h Flow \<Rightarrow> 'h \<Rightarrow> pystr \<Rightarrow> 'h option" where
  "target_for f src route = target_loop src route (f_edges f) None None None"

text \<open>The frontier loop of \<open>_reachable\<close>: the popped handler's unreached targets are appended in edge order.\<close>

fun push_targets :: "'h \<Rightarrow> 'h Edge list \<Rightarrow> 'h list \<Rightarrow> 'h list \<Rightarrow> 'h list \<times> 'h list" where
  "push_targets src [] reached frontier = (reached, frontier)"
| "push_targets src (e # es) reached frontier =
     (if e_source e = src \<and> e_target e \<notin> set reached
      then push_targets src es (reached @ [e_target e]) (frontier @ [e_target e])
      else push_targets src es reached frontier)"

lemma push_targets_result:
  "push_targets src es reached frontier = (reached', frontier') \<Longrightarrow> \<exists>new. reached' = reached @ new \<and> frontier' = frontier @ new
     \<and> set new \<subseteq> {e_target e | e. e \<in> set es \<and> e_source e = src} \<and> set new \<inter> set reached = {} \<and> distinct new
     \<and> (\<forall>e \<in> set es. e_source e = src \<longrightarrow> e_target e \<in> set reached')"
proof (induction src es reached frontier rule: push_targets.induct)
  case (2 src e es reached frontier)
  show ?case
  proof (cases "e_source e = src \<and> e_target e \<notin> set reached")
    case True
    then obtain new where "reached' = (reached @ [e_target e]) @ new" "frontier' = (frontier @ [e_target e]) @ new"
      "set new \<subseteq> {e_target e | e. e \<in> set es \<and> e_source e = src}" "set new \<inter> set (reached @ [e_target e]) = {}" "distinct new"
      "\<forall>e \<in> set es. e_source e = src \<longrightarrow> e_target e \<in> set reached'"
      using "2.IH"(1) "2.prems" by auto
    then show ?thesis using True by (intro exI [of _ "e_target e # new"]) auto
  next
    case False
    then obtain new where "reached' = reached @ new" "frontier' = frontier @ new"
      "set new \<subseteq> {e_target e | e. e \<in> set es \<and> e_source e = src}" "set new \<inter> set reached = {}" "distinct new"
      "\<forall>e \<in> set es. e_source e = src \<longrightarrow> e_target e \<in> set reached'"
      using "2.IH"(2) "2.prems" by auto
    then show ?thesis using False by (intro exI [of _ new]) auto
  qed
qed simp

function reach_loop :: "'h Edge list \<Rightarrow> 'h list \<Rightarrow> 'h list \<Rightarrow> 'h list" where
  "reach_loop es reached frontier = (if frontier = [] then reached
     else let r = push_targets (last frontier) es reached (butlast frontier)
          in reach_loop es (fst r) (snd r))"
  by pat_completeness auto

termination
proof (relation "measure (\<lambda>(es, reached, frontier). length frontier + 2 * card (set (map e_target es) - set reached))")
  fix es :: "'h Edge list" and reached frontier :: "'h list" and r
  assume f: "frontier \<noteq> []" and r: "r = push_targets (last frontier) es reached (butlast frontier)"
  then obtain new where new: "fst r = reached @ new" "snd r = butlast frontier @ new"
    "set new \<subseteq> {e_target e | e. e \<in> set es \<and> e_source e = last frontier}" "set new \<inter> set reached = {}" "distinct new"
    using push_targets_result [of "last frontier" es reached "butlast frontier" "fst r" "snd r"] by auto
  let ?U = "set (map e_target es) - set reached"
  have sub: "set new \<subseteq> ?U" using new(3,4) by auto
  have "set (map e_target es) - set (fst r) = ?U - set new" using new(1) by auto
  moreover have "card (?U - set new) = card ?U - length new"
    using sub new(5) by (simp add: card_Diff_subset distinct_card)
  moreover have "length new \<le> card ?U" using sub new(5) by (metis card_mono distinct_card finite_Diff List.finite_set)
  ultimately show "((es, fst r, snd r), es, reached, frontier)
      \<in> measure (\<lambda>(es, reached, frontier). length frontier + 2 * card (set (map e_target es) - set reached))"
    using f new(2) by (cases frontier) auto
qed simp

declare reach_loop.simps [simp del]

definition reachable :: "'h Flow \<Rightarrow> 'h list" where
  "reachable f = reach_loop (f_edges f) [f_start f] [f_start f]"

section \<open>validate\<close>

definition count_defaults :: "'h Edge list \<Rightarrow> 'h \<Rightarrow> nat" where
  "count_defaults es src = length (filter (\<lambda>e. e_source e = src \<and> DEFAULT \<in> set (e_routes e)) es)"

fun check_duplicates :: "pystr \<Rightarrow> ('h \<Rightarrow> pystr) \<Rightarrow> ('h \<times> 'h) list \<Rightarrow> 'h Edge list \<Rightarrow> exn + unit" where
  "check_duplicates name lbl seen [] = Inr ()"
| "check_duplicates name lbl seen (e # es) =
     (if (e_source e, e_target e) \<in> set seen
      then Inl (FlowError (name @ py '': duplicate edge '' @ lbl (e_source e) @ py ''->'' @ lbl (e_target e)))
      else check_duplicates name lbl ((e_source e, e_target e) # seen) es)"

text \<open>\<open>lbl\<close> is \<open>_label\<close> (the handler's \<open>__name__\<close>) and \<open>literals\<close> the \<open>Literal\<close> strings of its return
  annotation.  Python iterates sets of handlers in an unspecified order, so which of several faulty
  handlers an error names is not determined; the model takes the order of declaration.\<close>

definition flow_validate :: "('h \<Rightarrow> pystr) \<Rightarrow> ('h \<Rightarrow> pystr list) \<Rightarrow> 'h Flow \<Rightarrow> exn + unit" where
  "flow_validate lbl literals f =
     ebind (check_duplicates (f_name f) lbl [] (f_edges f)) (\<lambda>_.
       case List.find (\<lambda>src. count_defaults (f_edges f) src > 1) (map e_source (f_edges f)) of
         Some src \<Rightarrow> Inl (FlowError (f_name f @ py '': multiple DEFAULT edges from '' @ lbl src))
       | None \<Rightarrow>
           (let unreachable = filter (\<lambda>h. h \<notin> set (reachable f)) (flow_nodes f) in
            if unreachable \<noteq> []
            then Inl (FlowError (f_name f @ py '': unreachable handlers '' @ str_list_repr (sort (map lbl unreachable))))
            else case List.find (\<lambda>(h, route). target_for f h route = None)
                   (concat (map (\<lambda>h. map (Pair h) (literals h)) (flow_nodes f))) of
              Some (h, route) \<Rightarrow>
                Inl (FlowError (f_name f @ py '': handler '' @ lbl h @ py '' emits '' @ str_repr route @ py '' with no edge''))
            | None \<Rightarrow> Inr ()))"

section \<open>run\<close>

partial_function (option) run_from :: "'h Flow \<Rightarrow> ('h \<Rightarrow> 's \<Rightarrow> exn + (step \<times> 's)) \<Rightarrow> 'h \<Rightarrow> 's
    \<Rightarrow> (exn + (FlowOutcome \<times> 's)) option" where
  "run_from f call current s = (case call current s of
      Inl e \<Rightarrow> Some (Inl e)
    | Inr (Outcome out, s') \<Rightarrow> Some (Inr (out, s'))
    | Inr (Route route, s') \<Rightarrow> (case target_for f current route of
         None \<Rightarrow> Some (Inr (END, s'))
       | Some target \<Rightarrow> run_from f call target s'))"

definition flow_run :: "'h Flow \<Rightarrow> ('h \<Rightarrow> 's \<Rightarrow> exn + (step \<times> 's)) \<Rightarrow> 's \<Rightarrow> (exn + (FlowOutcome \<times> 's)) option" where
  "flow_run f call s = run_from f call (f_start f) s"

lemmas run_from_unfold = run_from.simps

section \<open>Target selection\<close>

text \<open>Which edge wins: the first edge naming the route, else the first unconditional edge, else the first
  \<open>DEFAULT\<close> edge.\<close>

definition first_target :: "('h Edge \<Rightarrow> bool) \<Rightarrow> 'h Edge list \<Rightarrow> 'h option" where
  "first_target P es = map_option e_target (List.find P es)"

lemma or_else_simps [simp]: "or_else None b = b" "or_else (Some x) b = Some x" "or_else a None = a"
  by (auto simp: or_else_def split: option.splits)

lemma or_else_assoc: "or_else (or_else a b) c = or_else a (or_else b c)"
  by (auto simp: or_else_def split: option.splits)

lemma or_else_None: "or_else a b = None \<longleftrightarrow> a = None \<and> b = None"
  by (auto simp: or_else_def split: option.splits)

lemma first_target_simps [simp]:
  "first_target P [] = None"
  "first_target P (e # es) = (if P e then Some (e_target e) else first_target P es)"
  by (simp_all add: first_target_def)

lemma target_loop_eq:
  "target_loop src route es s u d = or_else (or_else s (first_target (\<lambda>e. e_source e = src \<and> route \<in> set (e_routes e)) es))
     (or_else (or_else u (first_target (\<lambda>e. e_source e = src \<and> e_routes e = []) es))
       (or_else d (first_target (\<lambda>e. e_source e = src \<and> route \<notin> set (e_routes e) \<and> DEFAULT \<in> set (e_routes e)) es)))"
proof (induction es arbitrary: s u d)
  case (Cons e es)
  have [simp]: "or_else (or_else a (Some x)) b = or_else a (Some x)" for a b and x :: 'a
    by (simp add: or_else_def split: option.splits)
  show ?case by (cases "e_routes e = []") (simp_all add: Cons.IH)
qed simp

lemma target_for_eq:
  "target_for f src route = or_else (first_target (\<lambda>e. e_source e = src \<and> route \<in> set (e_routes e)) (f_edges f))
     (or_else (first_target (\<lambda>e. e_source e = src \<and> e_routes e = []) (f_edges f))
       (first_target (\<lambda>e. e_source e = src \<and> route \<notin> set (e_routes e) \<and> DEFAULT \<in> set (e_routes e)) (f_edges f)))"
  by (simp add: target_for_def target_loop_eq)

lemma first_target_None: "first_target P es = None \<longleftrightarrow> (\<forall>e \<in> set es. \<not> P e)"
  by (auto simp: first_target_def find_None_iff)

lemma first_target_Some: "first_target P es = Some t \<Longrightarrow> \<exists>e \<in> set es. P e \<and> e_target e = t"
  by (auto simp: first_target_def find_Some_iff)

lemma target_for_edge:
  assumes "target_for f src route = Some t"
  shows "\<exists>e \<in> set (f_edges f). e_source e = src \<and> e_target e = t"
proof -
  consider P where "first_target P (f_edges f) = Some t" "\<And>e. P e \<Longrightarrow> e_source e = src"
    using assms unfolding target_for_eq or_else_def by (auto split: option.splits)
  then show ?thesis by cases (metis first_target_Some)
qed

section \<open>Reachability and validation\<close>

definition edge_rel :: "'h Flow \<Rightarrow> ('h \<times> 'h) set" where
  "edge_rel f = {(e_source e, e_target e) | e. e \<in> set (f_edges f)}"

lemma reach_loop_result:
  assumes "set frontier \<subseteq> set reached" and "set reached \<subseteq> R\<^sup>* `` {st}" and "st \<in> set reached"
    and "\<forall>e \<in> set es. e_source e \<in> set reached \<longrightarrow> e_source e \<notin> set frontier \<longrightarrow> e_target e \<in> set reached"
    and "R = {(e_source e, e_target e) | e. e \<in> set es}"
  shows "set (reach_loop es reached frontier) = R\<^sup>* `` {st}"
  using assms
proof (induction es reached frontier rule: reach_loop.induct)
  case (1 es reached frontier)
  show ?case
  proof (cases "frontier = []")
    case True
    have "y \<in> set reached" if "(st, y) \<in> R\<^sup>*" for y
      using that by induction (use "1.prems"(3-5) True in auto)
    then show ?thesis using True "1.prems"(2) by (subst reach_loop.simps) auto
  next
    case False
    let ?r = "push_targets (last frontier) es reached (butlast frontier)"
    obtain new where new: "fst ?r = reached @ new" "snd ?r = butlast frontier @ new"
      "set new \<subseteq> {e_target e | e. e \<in> set es \<and> e_source e = last frontier}"
      "\<forall>e \<in> set es. e_source e = last frontier \<longrightarrow> e_target e \<in> set (fst ?r)"
      using push_targets_result [of "last frontier" es reached "butlast frontier" "fst ?r" "snd ?r"] by auto
    have l: "last frontier \<in> set reached" using False "1.prems"(1) last_in_set by blast
    have fr: "set frontier = insert (last frontier) (set (butlast frontier))"
      using False by (metis append_butlast_last_id list.set(1,2) set_append Un_insert_right sup_bot_right)
    have "(st, y) \<in> R\<^sup>*" if y: "y \<in> set new" for y
    proof -
      obtain e where "e \<in> set es" "e_source e = last frontier" "e_target e = y" using y new(3) by blast
      then have "(last frontier, y) \<in> R" using "1.prems"(5) by (auto intro!: exI [of _ e])
      moreover have "(st, last frontier) \<in> R\<^sup>*" using l "1.prems"(2) by blast
      ultimately show ?thesis by simp
    qed
    then have "set (reach_loop es (fst ?r) (snd ?r)) = R\<^sup>* `` {st}"
      using "1.prems" new fr False
      by (intro "1.IH" [OF False refl]) auto
    then show ?thesis using False by (subst reach_loop.simps) (simp add: Let_def)
  qed
qed

lemma set_reachable: "set (reachable f) = (edge_rel f)\<^sup>* `` {f_start f}"
  unfolding reachable_def by (rule reach_loop_result) (auto simp: edge_rel_def)

lemma check_duplicates_Inr:
  "check_duplicates name lbl seen es = Inr u \<longleftrightarrow>
     distinct (map (\<lambda>e. (e_source e, e_target e)) es) \<and> set (map (\<lambda>e. (e_source e, e_target e)) es) \<inter> set seen = {}"
  by (induction name lbl seen es rule: check_duplicates.induct) auto

lemma count_defaults_source: "count_defaults es src > 1 \<Longrightarrow> src \<in> set (map e_source es)"
  by (cases "filter (\<lambda>e. e_source e = src \<and> DEFAULT \<in> set (e_routes e)) es")
    (auto simp: count_defaults_def filter_eq_Cons_iff)

text \<open>\<open>Flow.validate\<close> accepts exactly the flows with no duplicate edge, at most one \<open>DEFAULT\<close> edge per
  handler, every handler reachable from the start, and an edge for every route a handler declares; its
  reachability loop terminates and computes the transitive closure of the edges.\<close>

theorem flow_validate_iff:
  "flow_validate lbl literals f = Inr () \<longleftrightarrow>
     distinct (map (\<lambda>e. (e_source e, e_target e)) (f_edges f))
     \<and> (\<forall>src. length (filter (\<lambda>e. e_source e = src \<and> DEFAULT \<in> set (e_routes e)) (f_edges f)) \<le> 1)
     \<and> set (flow_nodes f) \<subseteq> {(e_source e, e_target e) | e. e \<in> set (f_edges f)}\<^sup>* `` {f_start f}
     \<and> (\<forall>h \<in> set (flow_nodes f). \<forall>route \<in> set (literals h). target_for f h route \<noteq> None)"
proof -
  have d: "List.find (\<lambda>src. count_defaults (f_edges f) src > 1) (map e_source (f_edges f)) = None
      \<longleftrightarrow> (\<forall>src. count_defaults (f_edges f) src \<le> 1)"
    unfolding find_None_iff using count_defaults_source [of "f_edges f"] by (meson not_le)
  have l: "List.find (\<lambda>(h, route). target_for f h route = None) (concat (map (\<lambda>h. map (Pair h) (literals h)) (flow_nodes f))) = None
      \<longleftrightarrow> (\<forall>h \<in> set (flow_nodes f). \<forall>route \<in> set (literals h). target_for f h route \<noteq> None)"
    unfolding find_None_iff by force
  have r: "filter (\<lambda>h. h \<notin> set (reachable f)) (flow_nodes f) = [] \<longleftrightarrow> set (flow_nodes f) \<subseteq> (edge_rel f)\<^sup>* `` {f_start f}"
    unfolding filter_empty_conv set_reachable by auto
  show ?thesis unfolding count_defaults_def [symmetric] edge_rel_def [symmetric] d [symmetric] l [symmetric] r [symmetric]
    by (auto simp: flow_validate_def ebind_eq_Inr check_duplicates_Inr Let_def split: option.splits)
qed

section \<open>Runs\<close>

lemma run_from_ranked:
  assumes "\<And>e. e \<in> set (f_edges f) \<Longrightarrow> rank (e_target e) < (rank (e_source e) :: nat)"
  shows "\<exists>r. run_from f call h s = Some r"
proof (induction "rank h" arbitrary: h s rule: less_induct)
  case less
  have "\<exists>r. run_from f call t s' = Some r" if t: "target_for f h route = Some t" for t route s'
  proof -
    obtain e where "e \<in> set (f_edges f)" "e_source e = h" "e_target e = t" using target_for_edge [OF t] by blast
    then show ?thesis using assms less by metis
  qed
  then show ?case by (subst run_from.simps) (auto split: sum.splits step.splits option.splits)
qed

text \<open>A flow whose edges descend in some ranking always returns, whatever its handlers answer: with an
  outcome, or with the exception a handler raised.\<close>

lemma ranked_flow_returns:
  "(\<And>e. e \<in> set (f_edges f) \<Longrightarrow> rank (e_target e) < (rank (e_source e) :: nat)) \<Longrightarrow> \<exists>r. flow_run f call s = Some r"
  unfolding flow_run_def by (rule run_from_ranked)

definition flow_example :: "nat Flow" where
  "flow_example = \<lparr>f_name = py ''example'', f_start = 0,
     f_edges = [edge 0 1 [''a''], edge 0 2 [''__default__''], edge 1 2 []]\<rparr>"

lemma flow_example_valid: "flow_validate (\<lambda>h. nat_str h) (\<lambda>h. if h = 0 then [py ''a'', py ''b''] else []) flow_example = Inr ()"
  by (simp add: flow_validate_def flow_example_def edge_def reachable_def reach_loop.simps flow_nodes_def fromkeys_def
      target_for_def DEFAULT_def count_defaults_def)

theorem flow_validate_iff_witness:
  "flow_validate (\<lambda>h. nat_str h) (\<lambda>h. if h = 0 then [py ''a'', py ''b''] else []) flow_example = Inr () \<and>
   set (flow_nodes flow_example) \<subseteq> {(e_source e, e_target e) | e. e \<in> set (f_edges flow_example)}\<^sup>* `` {f_start flow_example}"
  using flow_example_valid flow_validate_iff [of "\<lambda>h. nat_str h" "\<lambda>h. if h = 0 then [py ''a'', py ''b''] else []" flow_example]
  by blast

end
