(* ===== verification/Outcome.thy ===== *)
theory Outcome
  imports Tools Flow_Engine
begin

text \<open>
  What happens when a node's remote task completes, \<open>orchestration/flows/outcome.py\<close>: the receipt
  marker of the reply is parsed, the reply is interpreted (by marker, or by the outcome agent: the
  parameter \<open>llm\<close>, \<open>None\<close> when it raises or answers nothing), and the flow delivers the output, asks
  for input or revises the plan.  The flow is run by the engine over the handlers below; the payload
  is the node's id and the decision.
\<close>

section \<open>Markers\<close>

datatype intent = Deliver | Need_info | Revise

fun intent_str :: "intent \<Rightarrow> pystr" where
  "intent_str Deliver = py ''deliver''"
| "intent_str Need_info = py ''need_info''"
| "intent_str Revise = py ''revise''"

record Marker =
  mk_intent :: intent
  mk_text :: pystr

definition is_linebreak :: "nat \<Rightarrow> bool" where
  "is_linebreak ch \<longleftrightarrow> ch \<in> {10, 11, 12, 13, 28, 29, 30, 133, 8232, 8233}"

text \<open>\<open>str.splitlines()\<close>, with the line read so far.\<close>

fun split_lines :: "pystr \<Rightarrow> pystr \<Rightarrow> pystr list" where
  "split_lines cur [] = (if cur = [] then [] else [cur])"
| "split_lines cur (ch # s) =
     (if is_linebreak ch then cur # split_lines [] (if ch = 13 \<and> s \<noteq> [] \<and> hd s = 10 then tl s else s)
      else split_lines (cur @ [ch]) s)"

definition marker_tags :: "(pystr \<times> intent) list" where
  "marker_tags = [(py ''[cw:deliver]'', Deliver), (py ''[cw:need_info]'', Need_info),
     (py ''[cw:assist]'', Need_info), (py ''[cw:revise]'', Revise)]"

text \<open>\<open>_MARKER_RE.match(line)\<close> on a single line, and the marker built from the match.\<close>

definition match_marker :: "pystr \<Rightarrow> Marker option" where
  "match_marker line = (case List.find (\<lambda>(tag, i). prefix tag line) marker_tags of
      None \<Rightarrow> None
    | Some (tag, i) \<Rightarrow> Some \<lparr>mk_intent = i,
        mk_text = str_strip (dropWhile (\<lambda>ch. ch = 32 \<or> ch = 9) (drop (length tag) line))\<rparr>)"

fun first_marker :: "pystr list \<Rightarrow> Marker option" where
  "first_marker [] = None"
| "first_marker (line # lines) = (if str_strip line = [] then first_marker lines else match_marker line)"

definition parse_marker :: "pystr option \<Rightarrow> Marker option" where
  "parse_marker out = (case out of None \<Rightarrow> None | Some s \<Rightarrow> if s = [] then None else first_marker (split_lines [] s))"

section \<open>The flow\<close>

record OutcomeResult =
  oc_intent :: intent
  oc_question :: pystr
  oc_patch :: "PlanPatch option"

definition deliver_result :: OutcomeResult where
  "deliver_result = \<lparr>oc_intent = Deliver, oc_question = [], oc_patch = None\<rparr>"

record OutcomePayload =
  op_node :: pystr
  op_decision :: "OutcomeResult option"

type_synonym outcome_state = "ctx \<times> OutcomePayload"

definition outcome_line :: "pystr \<Rightarrow> intent \<Rightarrow> pystr" where
  "outcome_line k i = py ''[outcome:'' @ k @ py ''] '' @ intent_str i"

definition interpret_outcome :: "(pystr \<Rightarrow> OutcomeResult option) \<Rightarrow> pystr \<Rightarrow> NodeState \<Rightarrow> ctx \<Rightarrow> exn + (OutcomeResult \<times> ctx)" where
  "interpret_outcome llm k n c = (case parse_marker (n_output n) of
      Some m \<Rightarrow> Inr (\<lparr>oc_intent = mk_intent m, oc_question = mk_text m, oc_patch = None\<rparr>,
                     record_decision (outcome_line k (mk_intent m)) c)
    | None \<Rightarrow> (case n_output n of
         Some (x # xs) \<Rightarrow>
           ebind (build_outcome_user (n_agent_name n) (n_input_text n) (x # xs)
                    (filter (\<lambda>a. ag_name a \<noteq> n_agent_name n) (registry_list c))) (\<lambda>user.
             let d = (case llm user of None \<Rightarrow> deliver_result | Some r \<Rightarrow> r)
             in Inr (d, record_decision (outcome_line k (oc_intent d)) c))
       | _ \<Rightarrow> Inr (deliver_result, record_decision (outcome_line k Deliver) c)))"

datatype outcome_handler = H_interpret | H_mark_input_required | H_revise | H_mark_delivered | H_arbitrate | H_deliver_queued

definition with_node :: "pystr \<Rightarrow> ctx \<Rightarrow> (NodeState \<Rightarrow> exn + 'b) \<Rightarrow> exn + 'b" where
  "with_node k c f = (case map_of (nodes (c_state c)) k of None \<Rightarrow> Inl (KeyError k) | Some n \<Rightarrow> f n)"

definition mark_input_required :: "outcome_state \<Rightarrow> exn + (step \<times> outcome_state)" where
  "mark_input_required = (\<lambda>(c, p). with_node (op_node p) c (\<lambda>n.
     let q = (case op_decision p of None \<Rightarrow> [] | Some d \<Rightarrow> oc_question d);
         question = (if q = [] then n_output n else Some q);
         c1 = set_node (op_node p) (\<lambda>n. n\<lparr>n_question := question, n_a2a_task_id := None\<rparr>) c
     in ebind (transition (op_node p) INPUT_REQUIRED True
           [(py ''question'', JStr (case question of None \<Rightarrow> [] | Some x \<Rightarrow> x)), (py ''agent_name'', JStr (n_agent_name n))] c1)
         (\<lambda>c2. Inr (Outcome END, c2, p))))"

definition revise_step :: "outcome_state \<Rightarrow> exn + (step \<times> outcome_state)" where
  "revise_step = (\<lambda>(c, p). case op_decision p of
      Some d \<Rightarrow> (case (oc_intent d, oc_patch d) of
          (Revise, Some patch) \<Rightarrow>
            (if revision_count (c_state c) < cfg_max_revisions (c_config c)
             then ebind (revise_plan patch c) (\<lambda>(r, c1). Inr (Route [], c1, p))
             else Inr (Route [], c, p))
        | _ \<Rightarrow> Inr (Route [], c, p))
    | None \<Rightarrow> Inr (Route [], c, p))"

definition mark_delivered :: "outcome_state \<Rightarrow> exn + (step \<times> outcome_state)" where
  "mark_delivered = (\<lambda>(c, p). with_node (op_node p) c (\<lambda>n.
     ebind (transition (op_node p) COMPLETED True [(py ''agent_name'', JStr (n_agent_name n)),
         (py ''output'', JStr (take 200 (case n_output n of None \<Rightarrow> [] | Some x \<Rightarrow> x)))] c)
       (\<lambda>c1. Inr (Route [], c1, p))))"

definition arbitrate_step :: "outcome_state \<Rightarrow> exn + (step \<times> outcome_state)" where
  "arbitrate_step = (\<lambda>(c, p). with_node (op_node p) c (\<lambda>n.
     ebind (arbitrate_mentions n c) (\<lambda>c1. Inr (Route [], c1, p))))"

definition deliver_queued :: "outcome_state \<Rightarrow> exn + (step \<times> outcome_state)" where
  "deliver_queued = (\<lambda>(c, p). with_node (op_node p) c (\<lambda>n.
     let (messages, s) = take_queued (c_state c) (op_node p);
         c1 = set_state s c
     in if messages = [] then Inr (Outcome END, c1, p)
        else ebind (spawn_followup_node (str_join (nl @ nl) (map qm_text messages)) (op_node p) (n_agent_name n) [op_node p] c1)
               (\<lambda>c2. Inr (Outcome END, c2, p))))"

fun outcome_call :: "(pystr \<Rightarrow> OutcomeResult option) \<Rightarrow> outcome_handler \<Rightarrow> outcome_state \<Rightarrow> exn + (step \<times> outcome_state)" where
  "outcome_call llm H_interpret (c, p) = with_node (op_node p) c (\<lambda>n.
     ebind (interpret_outcome llm (op_node p) n c) (\<lambda>(d, c1).
       Inr (Route (intent_str (oc_intent d)), c1, p\<lparr>op_decision := Some d\<rparr>)))"
| "outcome_call llm H_mark_input_required cp = mark_input_required cp"
| "outcome_call llm H_revise cp = revise_step cp"
| "outcome_call llm H_mark_delivered cp = mark_delivered cp"
| "outcome_call llm H_arbitrate cp = arbitrate_step cp"
| "outcome_call llm H_deliver_queued cp = deliver_queued cp"

definition outcome_flow :: "outcome_handler Flow" where
  "outcome_flow = \<lparr>f_name = py ''outcome_flow'', f_start = H_interpret, f_edges =
     [edge H_interpret H_mark_delivered [''deliver''],
      edge H_interpret H_mark_input_required [''need_info''],
      edge H_interpret H_revise [''revise''],
      edge H_revise H_mark_delivered [],
      edge H_mark_delivered H_arbitrate [],
      edge H_arbitrate H_deliver_queued []]\<rparr>"

fun outcome_label :: "outcome_handler \<Rightarrow> pystr" where
  "outcome_label H_interpret = py ''_interpret''"
| "outcome_label H_mark_input_required = py ''_mark_input_required''"
| "outcome_label H_revise = py ''_revise''"
| "outcome_label H_mark_delivered = py ''_mark_delivered''"
| "outcome_label H_arbitrate = py ''_arbitrate''"
| "outcome_label H_deliver_queued = py ''_deliver_queued''"

fun outcome_literals :: "outcome_handler \<Rightarrow> pystr list" where
  "outcome_literals H_interpret = [py ''deliver'', py ''need_info'', py ''revise'']"
| "outcome_literals _ = []"

definition run_outcome :: "(pystr \<Rightarrow> OutcomeResult option) \<Rightarrow> pystr \<Rightarrow> ctx \<Rightarrow> (exn + (FlowOutcome \<times> outcome_state)) option" where
  "run_outcome llm k c = flow_run outcome_flow (outcome_call llm) (c, \<lparr>op_node = k, op_decision = None\<rparr>)"

section \<open>The flow is well formed and returns\<close>

lemma outcome_flow_valid: "flow_validate outcome_label outcome_literals outcome_flow = Inr ()"
  by (simp add: flow_validate_def outcome_flow_def edge_def reachable_def reach_loop.simps flow_nodes_def fromkeys_def
      target_for_def DEFAULT_def count_defaults_def)

fun outcome_rank :: "outcome_handler \<Rightarrow> nat" where
  "outcome_rank H_interpret = 4"
| "outcome_rank H_revise = 3"
| "outcome_rank H_mark_delivered = 2"
| "outcome_rank H_arbitrate = 1"
| "outcome_rank _ = 0"

lemma outcome_returns: "\<exists>r. run_outcome llm k c = Some r"
  unfolding run_outcome_def
  by (rule ranked_flow_returns [of _ outcome_rank]) (auto simp: outcome_flow_def edge_def)

end
