(* ===== verification/Remote.thy ===== *)
theory Remote
  imports Outcome
begin

text \<open>
  Following one remote agent's task, \<open>orchestration/execution/remote_caller.py\<close>, and the execution of
  one node around it, \<open>execution/node_executor.py\<close>.  The remote agent is a parameter: the chunks its
  streams deliver and how each stream ends.  The node timeout is one of the ways a stream ends.  An
  operation that may raise in the middle returns the context it leaves behind in any case.
\<close>

section \<open>Remote data\<close>

datatype remote_state = Remote TaskState | Remote_unspecified | Remote_unknown

fun REMOTE_STATE_MAP :: "remote_state \<Rightarrow> NodeStatus option" where
  "REMOTE_STATE_MAP (Remote TASK_SUBMITTED) = Some SUBMITTED"
| "REMOTE_STATE_MAP (Remote TASK_WORKING) = Some WORKING"
| "REMOTE_STATE_MAP (Remote TASK_INPUT_REQUIRED) = Some INPUT_REQUIRED"
| "REMOTE_STATE_MAP (Remote TASK_AUTH_REQUIRED) = Some INPUT_REQUIRED"
| "REMOTE_STATE_MAP (Remote TASK_COMPLETED) = Some COMPLETED"
| "REMOTE_STATE_MAP (Remote TASK_FAILED) = Some FAILED"
| "REMOTE_STATE_MAP (Remote TASK_CANCELED) = Some CANCELED"
| "REMOTE_STATE_MAP (Remote TASK_REJECTED) = Some FAILED"
| "REMOTE_STATE_MAP Remote_unspecified = Some WORKING"
| "REMOTE_STATE_MAP Remote_unknown = None"

record artifact =
  ra_id :: pystr
  ra_name :: pystr
  ra_text :: pystr

text \<open>\<open>rt_message\<close> is the joined text of the status message when there is one.\<close>

record remote_task =
  rt_id :: pystr
  rt_state :: remote_state
  rt_artifacts :: "artifact list"
  rt_message :: "pystr option"

datatype chunk =
    TaskChunk remote_task
  | StatusChunk remote_state "pystr option"
  | ArtifactChunk artifact bool bool
  | MessageChunk pystr

datatype stream_end = Stream_done | Stream_raised pystr | Stream_timeout

record remote_stream =
  rs_chunks :: "chunk list"
  rs_end :: stream_end

text \<open>How a remote operation ends: the last status, an exception with its text, or the timeout.\<close>

datatype remote_end = Settled NodeStatus | Raised_text pystr | Timed_out

text \<open>What one round of \<open>ensure_terminal\<close> sees: the polled task (or the text of an exception) and the
  stream subscribed to afterwards.\<close>

record poll =
  po_task :: "pystr + remote_task option"
  po_stream :: remote_stream

section \<open>consume\_chunks\<close>

type_synonym consumer = "NodeStatus \<times> artifact list \<times> ctx"

definition node_artifact :: "NodeState \<Rightarrow> pystr option \<Rightarrow> pystr \<Rightarrow> pystr \<Rightarrow> bool \<Rightarrow> bool \<Rightarrow> ctx \<Rightarrow> ctx" where
  "node_artifact n i name txt app last_chunk = emit (NodeArtifact i name txt (n_agent_name n) (n_id n) app last_chunk)"

text \<open>The first collected artifact of that id is extended or replaced, otherwise a new one is collected.\<close>

fun put_artifact :: "artifact \<Rightarrow> bool \<Rightarrow> artifact list \<Rightarrow> artifact list" where
  "put_artifact a app [] = [a]"
| "put_artifact a app (b # bs) = (if ra_id b = ra_id a
     then (if app then b\<lparr>ra_text := ra_text b @ ra_text a\<rparr> else a) # bs
     else b # put_artifact a app bs)"

fun consume_chunk :: "pystr \<Rightarrow> NodeState \<Rightarrow> chunk \<Rightarrow> consumer \<Rightarrow> exn option \<times> consumer" where
  "consume_chunk k n (TaskChunk t) (current, arts, c) =
     (let c1 = set_node k (\<lambda>n. n\<lparr>n_a2a_task_id := (if rt_id t = [] then n_a2a_task_id n else Some (rt_id t))\<rparr>) c;
          current1 = (case REMOTE_STATE_MAP (rt_state t) of None \<Rightarrow> current | Some st \<Rightarrow> st);
          arts1 = (if rt_artifacts t = [] then arts else rt_artifacts t)
      in case (if current1 = SUBMITTED then apply_transition_at (c_state c1) k SUBMITTED else Inr (c_state c1)) of
           Inl e \<Rightarrow> (Some e, current1, arts1, c1)
         | Inr s \<Rightarrow> (None, current1, arts1, emit_state_delta [(k, [(py ''status'', JStr (node_status_str SUBMITTED)),
             (py ''a2a_task_id'', jopt (if rt_id t = [] then n_a2a_task_id n else Some (rt_id t)))])] [] [] (set_state s c1)))"
| "consume_chunk k n (StatusChunk st msg) (current, arts, c) =
     (case REMOTE_STATE_MAP st of
        None \<Rightarrow> (None, current, arts, c)
      | Some mapped \<Rightarrow>
         (if mapped = current then (None, current, arts, c)
          else case (mapped, msg) of
              (INPUT_REQUIRED, Some txt) \<Rightarrow>
                (let c1 = set_node k (\<lambda>n. n\<lparr>n_question := Some txt\<rparr>) c
                 in (None, mapped, arts, if txt = [] then c1 else node_artifact n None (n_name n) txt False True c1))
            | _ \<Rightarrow> (None, mapped, arts, c)))"
| "consume_chunk k n (ArtifactChunk a app last_chunk) (current, arts, c) =
     (None, current, put_artifact a app arts,
      node_artifact n (Some (ra_id a)) (if ra_name a = [] then n_name n else ra_name a) (ra_text a) app last_chunk c)"
| "consume_chunk k n (MessageChunk txt) (current, arts, c) =
     (None, current, arts @ [\<lparr>ra_id = py ''message'', ra_name = py ''message'', ra_text = txt\<rparr>],
      node_artifact n None (n_name n) txt False True c)"

definition artifacts_output :: "artifact list \<Rightarrow> pystr option" where
  "artifacts_output arts = (let t = str_strip (str_join (py '' '') (filter (\<lambda>t. t \<noteq> []) (map ra_text arts)))
     in if t = [] then None else Some t)"

text \<open>The loop, with the node read again for every chunk; the collected output is stored only when the
  stream ends by itself.  \<open>estr\<close> is \<open>str\<close> on exceptions.\<close>

fun consume_loop :: "(exn \<Rightarrow> pystr) \<Rightarrow> pystr \<Rightarrow> chunk list \<Rightarrow> stream_end \<Rightarrow> consumer \<Rightarrow> remote_end \<times> ctx" where
  "consume_loop estr k [] fin (current, arts, c) = (case fin of
      Stream_done \<Rightarrow> (Settled current, set_node k (\<lambda>n. n\<lparr>n_output := artifacts_output arts\<rparr>) c)
    | Stream_raised m \<Rightarrow> (Raised_text m, c)
    | Stream_timeout \<Rightarrow> (Timed_out, c))"
| "consume_loop estr k (ch # chs) fin (current, arts, c) = (case map_of (nodes (c_state c)) k of
      None \<Rightarrow> (Raised_text (estr (KeyError k)), c)
    | Some n \<Rightarrow> (case consume_chunk k n ch (current, arts, c) of
        (Some e, _, _, c1) \<Rightarrow> (Raised_text (estr e), c1)
      | (None, current1, arts1, c1) \<Rightarrow> consume_loop estr k chs fin (current1, arts1, c1)))"

definition consume_chunks :: "(exn \<Rightarrow> pystr) \<Rightarrow> pystr \<Rightarrow> remote_stream \<Rightarrow> ctx \<Rightarrow> remote_end \<times> ctx" where
  "consume_chunks estr k stream c = consume_loop estr k (rs_chunks stream) (rs_end stream) (WORKING, [], c)"

section \<open>ensure\_terminal\<close>

definition SETTLED_STATUSES :: "NodeStatus set" where
  "SETTLED_STATUSES = {COMPLETED, FAILED, CANCELED, INPUT_REQUIRED}"

definition polled_output :: "remote_task \<Rightarrow> pystr" where
  "polled_output t = str_strip (str_join (py '' '') (filter (\<lambda>t. t \<noteq> []) (map ra_text (rt_artifacts t))))"

text \<open>What \<open>get_task\<close> told: the status and the context with output and question taken over.\<close>

definition adopt_poll :: "pystr \<Rightarrow> remote_task \<Rightarrow> NodeStatus \<Rightarrow> ctx \<Rightarrow> NodeStatus \<times> ctx" where
  "adopt_poll k t current c =
     (let mapped = (case REMOTE_STATE_MAP (rt_state t) of None \<Rightarrow> current | Some st \<Rightarrow> st);
          c1 = (if rt_artifacts t \<noteq> [] \<and> mapped = COMPLETED \<and> polled_output t \<noteq> []
                then set_node k (\<lambda>n. n\<lparr>n_output := Some (polled_output t)\<rparr>) c else c);
          c2 = (case (mapped, rt_message t) of
                  (INPUT_REQUIRED, Some q) \<Rightarrow> set_node k (\<lambda>n. n\<lparr>n_question := Some q\<rparr>) c1
                | _ \<Rightarrow> c1)
      in (mapped, c2))"

text \<open>The loop over the polls that happen before the timeout; a loop that outlives them is timed out.\<close>

fun ensure_terminal :: "(exn \<Rightarrow> pystr) \<Rightarrow> pystr \<Rightarrow> poll list \<Rightarrow> NodeStatus \<Rightarrow> ctx \<Rightarrow> remote_end \<times> ctx" where
  "ensure_terminal estr k [] current c = (if current \<in> SETTLED_STATUSES then (Settled current, c)
     else case map_of (nodes (c_state c)) k of
         None \<Rightarrow> (Raised_text (estr (KeyError k)), c)
       | Some n \<Rightarrow> (if n_a2a_task_id n = None \<or> n_a2a_task_id n = Some [] then (Settled current, c) else (Timed_out, c)))"
| "ensure_terminal estr k (p # ps) current c = (if current \<in> SETTLED_STATUSES then (Settled current, c)
     else case map_of (nodes (c_state c)) k of
         None \<Rightarrow> (Raised_text (estr (KeyError k)), c)
       | Some n \<Rightarrow>
          (if n_a2a_task_id n = None \<or> n_a2a_task_id n = Some [] then (Settled current, c)
           else case po_task p of
               Inl m \<Rightarrow> (Raised_text m, c)
             | Inr polled \<Rightarrow>
                (let (current1, c1) = (case polled of None \<Rightarrow> (current, c) | Some t \<Rightarrow> adopt_poll k t current c)
                 in if polled \<noteq> None \<and> current1 \<in> SETTLED_STATUSES then (Settled current1, c1)
                    else case consume_chunks estr k (po_stream p) c1 of
                        (Settled st, c2) \<Rightarrow> ensure_terminal estr k ps st c2
                      | (Raised_text _, c2) \<Rightarrow> ensure_terminal estr k ps current1 c2
                      | (Timed_out, c2) \<Rightarrow> (Timed_out, c2))))"

section \<open>stream\_remote and recover\_remote\<close>

text \<open>The remote side of one execution: the stream \<open>send_text\<close> opens for the url, the parts, the task to
  continue and the message id; the subscription of a recovery; the later polls.\<close>

record remote_env =
  re_send :: "pystr \<Rightarrow> pystr list \<Rightarrow> pystr option \<Rightarrow> pystr \<Rightarrow> remote_stream"
  re_subscribe :: "pystr \<Rightarrow> pystr \<Rightarrow> remote_stream"
  re_polls :: "poll list"
  re_str :: "exn \<Rightarrow> pystr"

definition message_id :: "ctx \<Rightarrow> NodeState \<Rightarrow> pystr" where
  "message_id c n = c_context_id c @ py '':'' @ n_id n @ py '':'' @ int_str (n_attempt n)"

definition stream_remote :: "remote_env \<Rightarrow> pystr \<Rightarrow> NodeState \<Rightarrow> pystr list \<Rightarrow> bool \<Rightarrow> ctx \<Rightarrow> remote_end \<times> ctx" where
  "stream_remote env k n txt continuation c = (case agent_url_for (n_agent_name n) c of
      Inl e \<Rightarrow> (Raised_text (re_str env e), c)
    | Inr url \<Rightarrow>
       (case consume_chunks (re_str env) k (re_send env url txt (if continuation then n_a2a_task_id n else None) (message_id c n)) c of
          (Settled st, c1) \<Rightarrow> ensure_terminal (re_str env) k (re_polls env) st c1
        | r \<Rightarrow> r))"

definition recover_remote :: "remote_env \<Rightarrow> pystr \<Rightarrow> NodeState \<Rightarrow> ctx \<Rightarrow> remote_end \<times> ctx" where
  "recover_remote env k n c = (case n_a2a_task_id n of
      Some (x # xs) \<Rightarrow> (case agent_url_for (n_agent_name n) c of
          Inl e \<Rightarrow> (Raised_text (re_str env e), c)
        | Inr url \<Rightarrow> (case consume_chunks (re_str env) k (re_subscribe env url (x # xs)) c of
            (Settled st, c1) \<Rightarrow> ensure_terminal (re_str env) k (re_polls env) st c1
          | (Raised_text _, c1) \<Rightarrow> ensure_terminal (re_str env) k (re_polls env) WORKING c1
          | (Timed_out, c1) \<Rightarrow> (Timed_out, c1)))
    | _ \<Rightarrow> (Settled FAILED, c))"

section \<open>execute\_node\<close>

datatype node_mode = M_dispatch | M_continue | M_recover

definition build_node_text :: "pystr \<Rightarrow> NodeState \<Rightarrow> ctx \<Rightarrow> exn + (pystr list \<times> ctx)" where
  "build_node_text k n c = (case n_answer_text n of
      Some ans \<Rightarrow>
        ebind (build_continuation_text n (c_state c) (registry_list c)
                 (case n_question n of None \<Rightarrow> [] | Some q \<Rightarrow> q) ans (n_answer_from n)) (\<lambda>txt.
          Inr (txt, set_node k (\<lambda>n. n\<lparr>n_answer_text := None, n_answer_from := None, n_question := None\<rparr>) c))
    | None \<Rightarrow> ebind (build_dispatch_text n (c_state c) (registry_list c)) (\<lambda>txt. Inr (txt, c)))"

text \<open>Up to the first remote call: the attempt counter and the status.\<close>

definition begin_node :: "node_mode \<Rightarrow> pystr \<Rightarrow> ctx \<Rightarrow> exn + ctx" where
  "begin_node mode k c = with_node k c (\<lambda>n.
     let c1 = (if mode = M_recover then c else set_node k (\<lambda>n. n\<lparr>n_attempt := n_attempt n + 1\<rparr>) c)
     in case mode of
          M_dispatch \<Rightarrow> transition k SUBMITTED True [(py ''input_text'', JStr (n_input_text n))] c1
        | M_recover \<Rightarrow> transition k RECOVER True [(py ''a2a_task_id'', jopt (n_a2a_task_id n))] c1
        | M_continue \<Rightarrow> Inr c1)"

definition call_remote :: "remote_env \<Rightarrow> node_mode \<Rightarrow> pystr \<Rightarrow> NodeState \<Rightarrow> ctx \<Rightarrow> remote_end \<times> ctx" where
  "call_remote env mode k n c = (if mode = M_recover then recover_remote env k n c
     else case build_node_text k n c of
         Inl e \<Rightarrow> (Raised_text (re_str env e), c)
       | Inr (txt, c1) \<Rightarrow> stream_remote env k n txt (mode = M_continue) c1)"

text \<open>The error of a timeout or an exception, stored on the node.\<close>

definition store_error :: "pystr \<Rightarrow> remote_end \<Rightarrow> ctx \<Rightarrow> ctx" where
  "store_error k r c = (case r of
      Settled _ \<Rightarrow> c
    | Raised_text m \<Rightarrow> set_node k (\<lambda>n. n\<lparr>n_error := Some m\<rparr>) c
    | Timed_out \<Rightarrow> set_node k (\<lambda>n. n\<lparr>n_error := Some (py ''node timed out after '' @ cfg_node_timeout (c_config c) @ py ''s'')\<rparr>) c)"

definition node_error_text :: "NodeState \<Rightarrow> pystr" where
  "node_error_text n = (case n_error n of Some (x # xs) \<Rightarrow> x # xs | _ \<Rightarrow> py ''unknown error'')"

text \<open>What follows the remote call; a flow run that does not return is \<open>None\<close>.\<close>

definition settle_node :: "(pystr \<Rightarrow> OutcomeResult option) \<Rightarrow> remote_end \<Rightarrow> pystr \<Rightarrow> ctx \<Rightarrow> (exn + ctx) option" where
  "settle_node llm r k c = (let c1 = store_error k r c in case map_of (nodes (c_state c1)) k of
      None \<Rightarrow> Some (Inl (KeyError k))
    | Some n \<Rightarrow> (case r of
        Settled COMPLETED \<Rightarrow>
          (let c2 = (case n_output n of Some (x # xs) \<Rightarrow> record_decision (py ''['' @ n_agent_name n @ py ''] '' @ (x # xs)) c1 | _ \<Rightarrow> c1)
           in map_option (\<lambda>res. ebind res (\<lambda>(_, c3, _). Inr c3)) (run_outcome llm k c2))
      | Settled CANCELED \<Rightarrow> Some (transition k CANCELED True [] c1)
      | Settled INPUT_REQUIRED \<Rightarrow> Some (transition k INPUT_REQUIRED True
          [(py ''question'', JStr (case n_question n of None \<Rightarrow> [] | Some q \<Rightarrow> q)), (py ''agent_name'', JStr (n_agent_name n))] c1)
      | _ \<Rightarrow> Some (transition k FAILED True [(py ''error'', JStr (node_error_text n))] c1)))"

definition close_node :: "pystr \<Rightarrow> ctx \<Rightarrow> ctx" where
  "close_node k c = (let (expired, s) = expire_node_interventions (c_state c) k
     in emit_pending_questions (persist (emit_interventions_expired expired (set_state s c))))"

definition execute_node :: "remote_env \<Rightarrow> (pystr \<Rightarrow> OutcomeResult option) \<Rightarrow> node_mode \<Rightarrow> pystr \<Rightarrow> ctx \<Rightarrow> (exn + ctx) option" where
  "execute_node env llm mode k c = (case begin_node mode k c of
      Inl e \<Rightarrow> Some (Inl e)
    | Inr c1 \<Rightarrow> (case map_of (nodes (c_state c1)) k of
        None \<Rightarrow> Some (Inl (KeyError k))
      | Some n \<Rightarrow> (case call_remote env mode k n c1 of
          (r, c2) \<Rightarrow> map_option (\<lambda>res. ebind res (\<lambda>c3. Inr (close_node k c3))) (settle_node llm r k c2))))"

end
