(* ===== verification/Settlement.thy ===== *)
theory Settlement
  imports Outcome
begin

text \<open>
  Settling a node that waits for input, \<open>orchestration/flows/settlement.py\<close>: adopt the output of a
  finished helper, wait for an unfinished one, let the assistance agent pick a peer (the parameter
  \<open>llm\<close>, \<open>None\<close> when it raises or answers nothing), or ask the human.
\<close>

section \<open>Definitions\<close>

record SettlementPayload =
  sp_node :: pystr
  sp_decision :: "AssistanceResult option"
  sp_helper :: "pystr option"

type_synonym settlement_state = "ctx \<times> SettlementPayload"

definition empty_assistance :: AssistanceResult where
  "empty_assistance = \<lparr>as_target_agent = None, as_instruction = [], as_question_type = Q_INPUT, as_options = [], as_multi = False\<rparr>"

definition helpers_of :: "OrchestrationState \<Rightarrow> pystr \<Rightarrow> (NodeState \<Rightarrow> bool) \<Rightarrow> NodeState list" where
  "helpers_of s k P = filter (\<lambda>n. n_derived n \<and> n_assist_requested_by n = Some k \<and> P n) (d_values (nodes s))"

definition inspect_helpers :: "settlement_state \<Rightarrow> exn + (step \<times> settlement_state)" where
  "inspect_helpers = (\<lambda>(c, p). let s = c_state c; k = sp_node p in with_node k c (\<lambda>node.
     if pending_intervention_for s k \<noteq> None then Inr (Route (py ''already_pending''), c, p)
     else case helpers_of s k (\<lambda>n. n_status n = COMPLETED \<and> n_id n \<notin> set (n_adopted_helpers node)) of
       h # _ \<Rightarrow> Inr (Route (py ''helper_completed''), c, p\<lparr>sp_helper := Some (n_id h)\<rparr>)
     | [] \<Rightarrow>
        (if helpers_of s k (\<lambda>n. n_status n \<in> ACTIVE_NODE_STATUSES \<union> PENDING_NODE_STATUSES) \<noteq> []
           then Inr (Route (py ''helper_active''), c, p)
         else if helpers_of s k (\<lambda>n. n_status n = INPUT_REQUIRED) \<noteq> []
           then Inr (Route (py ''helper_blocked''), c, p)
         else Inr (Route (py ''decide''), c, p))))"

definition resolve_from_helper :: "settlement_state \<Rightarrow> exn + (step \<times> settlement_state)" where
  "resolve_from_helper = (\<lambda>(c, p). case sp_helper p of
      None \<Rightarrow> Inr (Outcome END, c, p)
    | Some h \<Rightarrow> with_node h c (\<lambda>helper.
        let k = sp_node p;
            c1 = set_node k (\<lambda>n. n\<lparr>n_answer_text := n_output helper, n_answer_from := Some (n_agent_name helper),
                                     n_adopted_helpers := n_adopted_helpers n @ [h]\<rparr>) c
        in ebind (apply_transition_at (c_state c1) k READY) (\<lambda>s1.
          let (expired, s2) = expire_node_interventions s1 k
          in Inr (Outcome EXIT_DONE, emit_interventions_expired expired
               (emit_state_delta [(k, [(py ''status'', JStr (node_status_str READY))])] [] [] (persist (set_state s2 c1))), p))))"

definition assistance_line :: "pystr \<Rightarrow> pystr \<Rightarrow> pystr" where
  "assistance_line k target = py ''[assistance:'' @ k @ py ''] target='' @ target"

text \<open>\<open>node.question or node.input_text\<close> with a question that is not \<open>None\<close>.\<close>

definition decide_assistance_impl :: "(pystr \<Rightarrow> AssistanceResult option) \<Rightarrow> pystr \<Rightarrow> NodeState \<Rightarrow> ctx
    \<Rightarrow> exn + (AssistanceResult option \<times> ctx)" where
  "decide_assistance_impl llm k node c = (case n_question node of
      None \<Rightarrow> Inr (None, c)
    | Some q \<Rightarrow>
       (let chain = assist_chain_agents (c_state c) node;
            candidates = filter (\<lambda>a. ag_name a \<notin> chain) (registry_list c)
        in if candidates = [] then Inr (Some empty_assistance, c)
           else ebind (build_assistance_decision_user (n_agent_name node) (if q = [] then n_input_text node else q) candidates)
             (\<lambda>user. let d = (case llm user of None \<Rightarrow> empty_assistance | Some r \<Rightarrow> r);
                         target = (case as_target_agent d of None \<Rightarrow> py ''human'' | Some t \<Rightarrow> if t = [] then py ''human'' else t)
                     in Inr (Some d, record_decision (assistance_line k target) c))))"

definition decide_assistance :: "(pystr \<Rightarrow> AssistanceResult option) \<Rightarrow> settlement_state \<Rightarrow> exn + (step \<times> settlement_state)" where
  "decide_assistance llm = (\<lambda>(c, p). with_node (sp_node p) c (\<lambda>node.
     ebind (decide_assistance_impl llm (sp_node p) node c) (\<lambda>(d, c1).
       Inr (Route (py ''act''), c1, p\<lparr>sp_decision := d\<rparr>))))"

text \<open>\<open>execute_function(ctx, ask_user_func, args)\<close>: \<open>ask_user\<close> emits no artifact.\<close>

definition ask_user_tool :: FunctionTool where
  "ask_user_tool = \<lparr>ft_name = py ''ask_user'', ft_emit_artifact = False\<rparr>"

definition human_question :: "NodeState \<Rightarrow> pystr" where
  "human_question n = (case n_question n of
      Some (x # xs) \<Rightarrow> x # xs
    | _ \<Rightarrow> (case n_output n of Some out \<Rightarrow> out | None \<Rightarrow> []))"

definition request_human :: "pystr \<Rightarrow> AssistanceResult option \<Rightarrow> ctx \<Rightarrow> exn + ctx" where
  "request_human k decision c = with_node k c (\<lambda>n.
     let d = (case decision of None \<Rightarrow> empty_assistance | Some d \<Rightarrow> d)
     in ebind (execute_function ask_user_tool (\<lambda>_. JNull) JNull
                 (ask_user_run k (human_question n) (as_question_type d) (as_options d) (as_multi d)) [] c)
          (\<lambda>(_, c1). Inr (emit_pending_questions (persist c1))))"

definition act :: "settlement_state \<Rightarrow> exn + (step \<times> settlement_state)" where
  "act = (\<lambda>(c, p). let k = sp_node p in
     if pending_intervention_for (c_state c) k \<noteq> None then Inr (Outcome END, c, p)
     else ebind (case sp_decision p of
            Some d \<Rightarrow> (case as_target_agent d of
                Some (x # xs) \<Rightarrow> spawn_assist k d c
              | _ \<Rightarrow> Inr (False, c))
          | None \<Rightarrow> Inr (False, c)) (\<lambda>(spawned, c1).
       if spawned then Inr (Outcome EXIT_DONE, c1, p)
       else ebind (request_human k (sp_decision p) c1) (\<lambda>c2. Inr (Outcome END, c2, p))))"

datatype settlement_handler = H_inspect_helpers | H_noop | H_resolve_from_helper | H_decide_assistance | H_act

fun settlement_call :: "(pystr \<Rightarrow> AssistanceResult option) \<Rightarrow> settlement_handler \<Rightarrow> settlement_state
    \<Rightarrow> exn + (step \<times> settlement_state)" where
  "settlement_call llm H_inspect_helpers cp = inspect_helpers cp"
| "settlement_call llm H_noop cp = Inr (Outcome END, cp)"
| "settlement_call llm H_resolve_from_helper cp = resolve_from_helper cp"
| "settlement_call llm H_decide_assistance cp = decide_assistance llm cp"
| "settlement_call llm H_act cp = act cp"

definition settlement_flow :: "settlement_handler Flow" where
  "settlement_flow = \<lparr>f_name = py ''settlement_flow'', f_start = H_inspect_helpers, f_edges =
     [edge H_inspect_helpers H_noop [''already_pending'', ''helper_active'', ''helper_blocked''],
      edge H_inspect_helpers H_resolve_from_helper [''helper_completed''],
      edge H_inspect_helpers H_decide_assistance [''decide''],
      edge H_decide_assistance H_act [''act'']]\<rparr>"

fun settlement_label :: "settlement_handler \<Rightarrow> pystr" where
  "settlement_label H_inspect_helpers = py ''_inspect_helpers''"
| "settlement_label H_noop = py ''_noop''"
| "settlement_label H_resolve_from_helper = py ''_resolve_from_helper''"
| "settlement_label H_decide_assistance = py ''_decide_assistance''"
| "settlement_label H_act = py ''_act''"

fun settlement_literals :: "settlement_handler \<Rightarrow> pystr list" where
  "settlement_literals H_inspect_helpers =
     [py ''already_pending'', py ''helper_completed'', py ''helper_active'', py ''helper_blocked'', py ''decide'']"
| "settlement_literals H_decide_assistance = [py ''act'']"
| "settlement_literals _ = []"

definition settle_node_input :: "(pystr \<Rightarrow> AssistanceResult option) \<Rightarrow> pystr \<Rightarrow> ctx \<Rightarrow> (exn + (bool \<times> ctx)) option" where
  "settle_node_input llm k c =
     map_option (\<lambda>r. ebind r (\<lambda>(out, c1, _). Inr (out = EXIT_DONE, c1)))
       (flow_run settlement_flow (settlement_call llm) (c, \<lparr>sp_node = k, sp_decision = None, sp_helper = None\<rparr>))"

text \<open>\<open>settle_input\<close>: every node of the snapshot list is settled, also one that the settling of an earlier node changed.\<close>

fun settle_all :: "(pystr \<Rightarrow> AssistanceResult option) \<Rightarrow> pystr list \<Rightarrow> bool \<Rightarrow> ctx \<Rightarrow> (exn + (bool \<times> ctx)) option" where
  "settle_all llm [] progress c = Some (Inr (progress, c))"
| "settle_all llm (k # ks) progress c =
     (case settle_node_input llm k c of
        Some (Inr (b, c')) \<Rightarrow> settle_all llm ks (progress \<or> b) c'
      | r \<Rightarrow> r)"

definition settle_input :: "(pystr \<Rightarrow> AssistanceResult option) \<Rightarrow> ctx \<Rightarrow> (exn + (bool \<times> ctx)) option" where
  "settle_input llm c = settle_all llm (map n_id (input_required_nodes (c_state c))) False c"

section \<open>The flow is well formed and returns\<close>

lemma settlement_flow_valid: "flow_validate settlement_label settlement_literals settlement_flow = Inr ()"
  by (simp add: flow_validate_def settlement_flow_def edge_def reachable_def reach_loop.simps flow_nodes_def fromkeys_def
      target_for_def DEFAULT_def count_defaults_def)

fun settlement_rank :: "settlement_handler \<Rightarrow> nat" where
  "settlement_rank H_inspect_helpers = 2"
| "settlement_rank H_decide_assistance = 1"
| "settlement_rank _ = 0"

lemma settlement_returns: "\<exists>r. settle_node_input llm k c = Some r"
proof -
  have "\<exists>r. flow_run settlement_flow (settlement_call llm) s = Some r" for s
    by (rule ranked_flow_returns [of _ settlement_rank]) (auto simp: settlement_flow_def edge_def)
  then show ?thesis by (force simp: settle_node_input_def)
qed

lemma settle_input_returns: "\<exists>r. settle_input llm c = Some r"
proof -
  have "\<exists>r. settle_all llm ks b c = Some r" for ks b
  proof (induction ks arbitrary: b c)
    case (Cons k ks)
    obtain r where "settle_node_input llm k c = Some r" using settlement_returns by blast
    then show ?case using Cons.IH by (auto split: sum.splits)
  qed simp
  then show ?thesis by (simp add: settle_input_def)
qed

end
