(* ===== verification/Plan_Flow.thy ===== *)
theory Plan_Flow
  imports Settlement
begin

text \<open>
  What the scheduler does when nothing is running, \<open>orchestration/flows/plan.py\<close>: retry, wait for input,
  complete, repair or fail.  The repair agent's answer is the parameter \<open>llm\<close>.
\<close>

section \<open>Definitions\<close>

datatype plan_handler = H_check_retryable | H_backoff_continue | H_check_input_required | H_exit_wait
  | H_check_all_completed | H_emit_completed | H_check_repairable | H_repair | H_emit_failed | H_stalled

definition route :: "string \<Rightarrow> ctx \<Rightarrow> exn + (step \<times> ctx)" where
  "route r c = Inr (Route (py r), c)"

definition check_retryable :: "ctx \<Rightarrow> exn + (step \<times> ctx)" where
  "check_retryable c = (if list_ex (\<lambda>n. can_retry n (cfg_max_node_attempts (c_config c))) (d_values (nodes (c_state c)))
     then route ''retry'' c else route ''next'' c)"

definition check_input_required :: "ctx \<Rightarrow> exn + (step \<times> ctx)" where
  "check_input_required c = (if input_required_nodes (c_state c) \<noteq> [] then route ''wait_input'' c else route ''next'' c)"

definition exit_wait :: "ctx \<Rightarrow> exn + (step \<times> ctx)" where
  "exit_wait c = (let c1 = persist c in
     Inr (Outcome EXIT_WAIT, if pending_interventions (c_state c1) \<noteq> [] then emit_pending_questions c1
       else emit_state TASK_INPUT_REQUIRED c1))"

definition check_all_completed :: "ctx \<Rightarrow> exn + (step \<times> ctx)" where
  "check_all_completed c = (if all_completed (c_state c) then route ''plan_completed'' c else route ''next'' c)"

definition emit_completed :: "ctx \<Rightarrow> exn + (step \<times> ctx)" where
  "emit_completed c = Inr (Outcome EXIT_DONE, evict_session (emit_state TASK_COMPLETED c))"

definition check_repairable :: "ctx \<Rightarrow> exn + (step \<times> ctx)" where
  "check_repairable c = (if has_failures (c_state c) then route ''repair'' c else route ''next'' c)"

definition repair :: "(pystr \<Rightarrow> PlanPatch option) \<Rightarrow> ctx \<Rightarrow> exn + (step \<times> ctx)" where
  "repair llm c =
     (if cfg_replan_on_failure (c_config c) \<and> revision_count (c_state c) < cfg_max_revisions (c_config c)
      then ebind (repair_plan llm c) (\<lambda>(ok, c1). if ok then route ''repair_ok'' c1 else Inr (Route DEFAULT, c1))
      else Inr (Route DEFAULT, c))"

definition emit_failed :: "ctx \<Rightarrow> exn + (step \<times> ctx)" where
  "emit_failed c = Inr (Outcome EXIT_FAILED, evict_session (emit_state TASK_FAILED c))"

definition stalled :: "ctx \<Rightarrow> exn + (step \<times> ctx)" where
  "stalled c = (if has_pending_work (c_state c) \<and> (ready_nodes (c_state c) \<noteq> [] \<or> c_node_tasks c \<noteq> [])
     then Inr (Outcome CONTINUE, c)
     else Inr (Outcome EXIT_FAILED, evict_session (emit_state TASK_FAILED c)))"

fun plan_call :: "(pystr \<Rightarrow> PlanPatch option) \<Rightarrow> plan_handler \<Rightarrow> ctx \<Rightarrow> exn + (step \<times> ctx)" where
  "plan_call llm H_check_retryable c = check_retryable c"
| "plan_call llm H_backoff_continue c = Inr (Outcome CONTINUE, c)"
| "plan_call llm H_check_input_required c = check_input_required c"
| "plan_call llm H_exit_wait c = exit_wait c"
| "plan_call llm H_check_all_completed c = check_all_completed c"
| "plan_call llm H_emit_completed c = emit_completed c"
| "plan_call llm H_check_repairable c = check_repairable c"
| "plan_call llm H_repair c = repair llm c"
| "plan_call llm H_emit_failed c = emit_failed c"
| "plan_call llm H_stalled c = stalled c"

definition plan_flow :: "plan_handler Flow" where
  "plan_flow = \<lparr>f_name = py ''plan_flow'', f_start = H_check_retryable, f_edges =
     [edge H_check_retryable H_backoff_continue [''retry''],
      edge H_check_retryable H_check_input_required [''next''],
      edge H_check_input_required H_exit_wait [''wait_input''],
      edge H_check_input_required H_check_all_completed [''next''],
      edge H_check_all_completed H_emit_completed [''plan_completed''],
      edge H_check_all_completed H_check_repairable [''next''],
      edge H_check_repairable H_repair [''repair''],
      edge H_check_repairable H_stalled [''next''],
      edge H_repair H_backoff_continue [''repair_ok''],
      edge H_repair H_emit_failed [''__default__'']]\<rparr>"

fun plan_label :: "plan_handler \<Rightarrow> pystr" where
  "plan_label H_check_retryable = py ''_check_retryable''"
| "plan_label H_backoff_continue = py ''_backoff_continue''"
| "plan_label H_check_input_required = py ''_check_input_required''"
| "plan_label H_exit_wait = py ''_exit_wait''"
| "plan_label H_check_all_completed = py ''_check_all_completed''"
| "plan_label H_emit_completed = py ''_emit_completed''"
| "plan_label H_check_repairable = py ''_check_repairable''"
| "plan_label H_repair = py ''_repair''"
| "plan_label H_emit_failed = py ''_emit_failed''"
| "plan_label H_stalled = py ''_stalled''"

fun plan_literals :: "plan_handler \<Rightarrow> pystr list" where
  "plan_literals H_check_retryable = [py ''retry'', py ''next'']"
| "plan_literals H_check_input_required = [py ''wait_input'', py ''next'']"
| "plan_literals H_check_all_completed = [py ''plan_completed'', py ''next'']"
| "plan_literals H_check_repairable = [py ''repair'', py ''next'']"
| "plan_literals H_repair = [py ''repair_ok'', py ''__default__'']"
| "plan_literals _ = []"

definition run_plan_flow :: "(pystr \<Rightarrow> PlanPatch option) \<Rightarrow> ctx \<Rightarrow> (exn + (FlowOutcome \<times> ctx)) option" where
  "run_plan_flow llm c = flow_run plan_flow (plan_call llm) c"

section \<open>The flow is well formed and returns\<close>

lemma plan_flow_valid: "flow_validate plan_label plan_literals plan_flow = Inr ()"
  by (simp add: flow_validate_def plan_flow_def edge_def reachable_def reach_loop.simps flow_nodes_def fromkeys_def
      target_for_def DEFAULT_def count_defaults_def)

fun plan_rank :: "plan_handler \<Rightarrow> nat" where
  "plan_rank H_check_retryable = 5"
| "plan_rank H_check_input_required = 4"
| "plan_rank H_check_all_completed = 3"
| "plan_rank H_check_repairable = 2"
| "plan_rank H_repair = 1"
| "plan_rank _ = 0"

lemma plan_flow_returns: "\<exists>r. run_plan_flow llm c = Some r"
  unfolding run_plan_flow_def
  by (rule ranked_flow_returns [of _ plan_rank]) (auto simp: plan_flow_def edge_def)

text \<open>The targets of the flow, evaluated.\<close>

lemma plan_targets [simp]:
  "target_for plan_flow H_check_retryable (py ''retry'') = Some H_backoff_continue"
  "target_for plan_flow H_check_retryable (py ''next'') = Some H_check_input_required"
  "target_for plan_flow H_check_input_required (py ''wait_input'') = Some H_exit_wait"
  "target_for plan_flow H_check_input_required (py ''next'') = Some H_check_all_completed"
  "target_for plan_flow H_check_all_completed (py ''plan_completed'') = Some H_emit_completed"
  "target_for plan_flow H_check_all_completed (py ''next'') = Some H_check_repairable"
  "target_for plan_flow H_check_repairable (py ''repair'') = Some H_repair"
  "target_for plan_flow H_check_repairable (py ''next'') = Some H_stalled"
  "target_for plan_flow H_repair (py ''repair_ok'') = Some H_backoff_continue"
  "target_for plan_flow H_repair DEFAULT = Some H_emit_failed"
  by (simp_all add: target_for_def plan_flow_def edge_def DEFAULT_def)

text \<open>The run from each handler, leaves first.\<close>

lemma run_plan_leaves:
  "run_from plan_flow (plan_call llm) H_backoff_continue c = Some (Inr (CONTINUE, c))"
  "run_from plan_flow (plan_call llm) H_emit_completed c = Some (Inr (EXIT_DONE, evict_session (emit_state TASK_COMPLETED c)))"
  "run_from plan_flow (plan_call llm) H_emit_failed c = Some (Inr (EXIT_FAILED, evict_session (emit_state TASK_FAILED c)))"
  "run_from plan_flow (plan_call llm) H_exit_wait c = Some (Inr (EXIT_WAIT,
     if pending_interventions (c_state (persist c)) \<noteq> [] then emit_pending_questions (persist c)
     else emit_state TASK_INPUT_REQUIRED (persist c)))"
  "run_from plan_flow (plan_call llm) H_stalled c =
     Some (if has_pending_work (c_state c) \<and> (ready_nodes (c_state c) \<noteq> [] \<or> c_node_tasks c \<noteq> []) then Inr (CONTINUE, c)
       else Inr (EXIT_FAILED, evict_session (emit_state TASK_FAILED c)))"
  by (subst run_from.simps, simp add: emit_completed_def emit_failed_def exit_wait_def stalled_def Let_def)+

definition repaired :: "(pystr \<Rightarrow> PlanPatch option) \<Rightarrow> ctx \<Rightarrow> exn + (bool \<times> ctx)" where
  "repaired llm c = (if cfg_replan_on_failure (c_config c) \<and> revision_count (c_state c) < cfg_max_revisions (c_config c)
     then repair_plan llm c else Inr (False, c))"

lemma run_plan_repair:
  "run_from plan_flow (plan_call llm) H_repair c = Some (ebind (repaired llm c) (\<lambda>(ok, c1).
     if ok then Inr (CONTINUE, c1) else Inr (EXIT_FAILED, evict_session (emit_state TASK_FAILED c1))))"
proof (cases "cfg_replan_on_failure (c_config c) \<and> revision_count (c_state c) < cfg_max_revisions (c_config c)")
  case True
  then show ?thesis
  proof (cases "repair_plan llm c")
    case (Inl e)
    then show ?thesis using True by (subst run_from.simps) (simp add: repair_def repaired_def)
  next
    case (Inr r)
    obtain ok c1 where "r = (ok, c1)" by (cases r)
    then show ?thesis using True Inr
      by (subst run_from.simps) (cases ok; simp add: repair_def repaired_def route_def run_plan_leaves)
  qed
next
  case False
  then show ?thesis
    by (subst run_from.simps) (auto simp: repair_def repaired_def run_plan_leaves)
qed

text \<open>The whole flow as one expression: the order of its checks.\<close>

lemma run_plan_flow_eq:
  "run_plan_flow llm c = (
     if list_ex (\<lambda>n. can_retry n (cfg_max_node_attempts (c_config c))) (d_values (nodes (c_state c)))
       then run_from plan_flow (plan_call llm) H_backoff_continue c
     else if input_required_nodes (c_state c) \<noteq> [] then run_from plan_flow (plan_call llm) H_exit_wait c
     else if all_completed (c_state c) then run_from plan_flow (plan_call llm) H_emit_completed c
     else if has_failures (c_state c) then run_from plan_flow (plan_call llm) H_repair c
     else run_from plan_flow (plan_call llm) H_stalled c)"
proof -
  have 1: "run_from plan_flow (plan_call llm) H_check_repairable c = (if has_failures (c_state c)
      then run_from plan_flow (plan_call llm) H_repair c else run_from plan_flow (plan_call llm) H_stalled c)"
    by (subst run_from.simps) (simp add: check_repairable_def route_def)
  have 2: "run_from plan_flow (plan_call llm) H_check_all_completed c = (if all_completed (c_state c)
      then run_from plan_flow (plan_call llm) H_emit_completed c else run_from plan_flow (plan_call llm) H_check_repairable c)"
    by (subst run_from.simps) (simp add: check_all_completed_def route_def)
  have 3: "run_from plan_flow (plan_call llm) H_check_input_required c = (if input_required_nodes (c_state c) \<noteq> []
      then run_from plan_flow (plan_call llm) H_exit_wait c else run_from plan_flow (plan_call llm) H_check_all_completed c)"
    by (subst run_from.simps) (simp add: check_input_required_def route_def)
  have "run_plan_flow llm c = run_from plan_flow (plan_call llm) H_check_retryable c"
    by (simp add: run_plan_flow_def flow_run_def plan_flow_def)
  also have "\<dots> = (if list_ex (\<lambda>n. can_retry n (cfg_max_node_attempts (c_config c))) (d_values (nodes (c_state c)))
      then run_from plan_flow (plan_call llm) H_backoff_continue c
      else run_from plan_flow (plan_call llm) H_check_input_required c)"
    by (subst run_from.simps) (simp add: check_retryable_def route_def)
  finally show ?thesis unfolding 3 2 1 .
qed

text \<open>The scheduler reports a plan as completed only when it is: \<open>plan_flow\<close> always returns, and when it
  returns \<open>EXIT_DONE\<close> no node failed, waits, runs or is queued (every node is completed, canceled or
  invalidated, and at least one is not invalidated), the last event is the \<open>completed\<close> status and the
  session is evicted.\<close>

theorem plan_completed_sound:
  "\<exists>r. run_plan_flow llm c = Some r \<and> (\<forall>c'. r = Inr (EXIT_DONE, c') \<longrightarrow>
     (\<forall>n \<in> set (d_values (nodes (c_state c))). n_status n \<in> {COMPLETED, CANCELED, INVALIDATED})
     \<and> (\<exists>n \<in> set (d_values (nodes (c_state c))). n_status n \<noteq> INVALIDATED)
     \<and> c' = evict_session (emit_state TASK_COMPLETED c))"
proof -
  obtain r where r: "run_plan_flow llm c = Some r" using plan_flow_returns by blast
  have "(\<forall>n \<in> set (d_values (nodes (c_state c))). n_status n \<in> {COMPLETED, CANCELED, INVALIDATED})
     \<and> (\<exists>n \<in> set (d_values (nodes (c_state c))). n_status n \<noteq> INVALIDATED)
     \<and> c' = evict_session (emit_state TASK_COMPLETED c)" if fin: "r = Inr (EXIT_DONE, c')" for c'
  proof -
    have "all_completed (c_state c) \<and> c' = evict_session (emit_state TASK_COMPLETED c)"
      using r unfolding fin run_plan_flow_eq run_plan_leaves run_plan_repair
      by (auto simp: ebind_eq_Inr split: if_splits)
    then show ?thesis unfolding all_completed_iff by blast
  qed
  then show ?thesis using r by blast
qed

text \<open>A plan of one completed node.\<close>

definition example_done :: OrchestrationState where
  "example_done = empty_state\<lparr>nodes := [(py ''n1'', (new_node (py ''n1'') (py ''N1'') (py ''A''))\<lparr>n_status := COMPLETED\<rparr>)]\<rparr>"

theorem plan_completed_sound_witness:
  "\<exists>c'. run_plan_flow (\<lambda>_. None) (example_ctx example_done) = Some (Inr (EXIT_DONE, c'))
     \<and> c' = evict_session (emit_state TASK_COMPLETED (example_ctx example_done))
     \<and> (\<exists>n \<in> set (d_values (nodes (c_state (example_ctx example_done)))). n_status n \<noteq> INVALIDATED)"
proof -
  let ?c = "example_ctx example_done"
  have "\<not> list_ex (\<lambda>n. can_retry n (cfg_max_node_attempts (c_config ?c))) (d_values (nodes (c_state ?c)))"
    "input_required_nodes (c_state ?c) = []" "all_completed (c_state ?c)"
    by (simp_all add: example_ctx_def example_done_def can_retry_def input_required_nodes_def INPUT_NODE_STATUSES_def all_completed_def)
  then have r: "run_plan_flow (\<lambda>_. None) ?c = Some (Inr (EXIT_DONE, evict_session (emit_state TASK_COMPLETED ?c)))"
    unfolding run_plan_flow_eq run_plan_leaves by simp
  then have "\<exists>n \<in> set (d_values (nodes (c_state ?c))). n_status n \<noteq> INVALIDATED"
    using plan_completed_sound [of "\<lambda>_. None" ?c] by auto
  with r show ?thesis by blast
qed

end
