(* ===== verification/History.thy ===== *)
theory History
  imports Context
begin

text \<open>
  The conversation history kept for the language model, \<open>orchestration/history.py\<close>: \<open>compact\<close> folds
  old messages into a summary, \<open>rebuild\<close> replays the artifacts of the stored tasks.  Token counting
  (\<open>over_threshold\<close>: whether a text exceeds the threshold) and summarizing (\<open>summarize\<close>: the reply to a
  prompt) are parameters.  The builder's \<open>_compaction_state\<close> of the conversation is the field
  \<open>c_compaction\<close>.

  The theorem of this theory is the claim of \<open>rebuild\<close>'s comment: replaying the artifacts gives back
  exactly the live message list.
\<close>

section \<open>Definitions\<close>

fun message_lines :: "ChatMessage \<Rightarrow> pystr list" where
  "message_lines (UserMessage t) = (if t = [] then [] else [py ''[user] '' @ t])"
| "message_lines (AssistantMessage t) = (if t = [] then [] else [py ''[assistant] '' @ t])"
| "message_lines (AssistantToolCall i name args) =
     (if name = [] \<and> args = [] then [] else [py ''[tool_call] '' @ name @ py '' '' @ args])"
| "message_lines (ToolMessage i t) = (if t = [] then [] else [py ''[tool] '' @ t])"

definition messages_text :: "ChatMessage list \<Rightarrow> pystr" where
  "messages_text msgs = str_join nl (concat (map message_lines msgs))"

fun is_tool :: "ChatMessage \<Rightarrow> bool" where
  "is_tool (ToolMessage _ _) = True"
| "is_tool _ = False"

text \<open>\<open>while split > 0 and split < len(messages) and messages[split] is a tool message: split -= 1\<close>\<close>

fun split_point :: "ChatMessage list \<Rightarrow> nat \<Rightarrow> nat" where
  "split_point msgs 0 = 0"
| "split_point msgs (Suc k) = (if Suc k < length msgs \<and> is_tool (msgs ! Suc k) then split_point msgs k else Suc k)"

definition compact :: "(pystr \<Rightarrow> bool) \<Rightarrow> (pystr \<Rightarrow> pystr) \<Rightarrow> nat \<Rightarrow> ChatMessage list \<Rightarrow> (int \<times> pystr) option
    \<Rightarrow> ChatMessage list \<times> (int \<times> pystr) option" where
  "compact over_threshold summarize retention msgs st =
     (if \<not> over_threshold (messages_text msgs) then (msgs, None)
      else let split = split_point msgs (length msgs - retention) in
        if split = 0 then (msgs, None)
        else let old = take split msgs; recent = drop split msgs;
                 (cnt, summary) = (case st of
                    Some (n, s) \<Rightarrow>
                      (let new_msgs = tl old; new_text = messages_text new_msgs
                       in (n + int (length new_msgs),
                           if new_text \<noteq> [] then summarize (py ''Previous summary:'' @ nl @ s @ nl @ nl
                             @ py ''New messages:'' @ nl @ new_text) else s))
                  | None \<Rightarrow> (int split, summarize (messages_text old)))
             in (AssistantMessage summary # recent, Some (cnt, summary)))"

text \<open>\<open>_tool_exchange_from_data\<close> on an artifact whose call id and JSON texts are not empty.\<close>

definition tool_exchange_from_data :: "pystr \<Rightarrow> json \<Rightarrow> json \<Rightarrow> pystr \<Rightarrow> pystr \<Rightarrow> pystr \<Rightarrow> ChatMessage list" where
  "tool_exchange_from_data name args result call_id args_json result_json = (if name = [] then []
     else [AssistantToolCall call_id name (if args_json = [] then json_text args else args_json),
           ToolMessage call_id (if result_json = [] then json_text result else result_json)])"

fun replay_event :: "a2a_event \<Rightarrow> ChatMessage list" where
  "replay_event (RecordArtifact cw r t) =
     (if cw = DECISION \<or> cw = HISTORY then [if r = USER then UserMessage t else AssistantMessage t] else [])"
| "replay_event (FunctionCallArtifact name args result call_id args_json result_json) =
     tool_exchange_from_data name args result call_id args_json result_json"
| "replay_event _ = []"

fun compaction_of :: "a2a_event \<Rightarrow> (int \<times> pystr) option" where
  "compaction_of (CompactionArtifact n t) = Some (n, t)"
| "compaction_of _ = None"

definition latest_compaction :: "a2a_event list \<Rightarrow> (int \<times> pystr) option" where
  "latest_compaction evs = fold (\<lambda>ev acc. case compaction_of ev of None \<Rightarrow> acc | Some x \<Rightarrow> Some x) evs None"

text \<open>\<open>xs[n:]\<close> for a Python int.\<close>

definition slice_from :: "int \<Rightarrow> 'a list \<Rightarrow> 'a list" where
  "slice_from n xs = (if n \<ge> 0 then drop (nat n) xs else drop (length xs - nat (- n)) xs)"

text \<open>\<open>rebuild\<close>: the visible tasks oldest first, each with the events its artifacts come from; the result
  and the compaction state it leaves.\<close>

definition rebuild :: "(pystr \<times> a2a_event list) list \<Rightarrow> pystr \<Rightarrow> (int \<times> pystr) option
    \<Rightarrow> ChatMessage list \<times> (int \<times> pystr) option" where
  "rebuild tasks exclude_task_id st =
     (let evs = concat (map snd (filter (\<lambda>(i, _). \<not> (exclude_task_id \<noteq> [] \<and> i = exclude_task_id)) tasks));
          raw = concat (map replay_event evs)
      in case latest_compaction evs of
           None \<Rightarrow> (raw, st)
         | Some (n, s) \<Rightarrow> (AssistantMessage s # slice_from n raw, Some (n, s)))"

text \<open>\<open>plan_and_launch\<close>'s use of \<open>compact\<close>: messages replaced, compaction artifact emitted.\<close>

definition compact_history :: "(pystr \<Rightarrow> bool) \<Rightarrow> (pystr \<Rightarrow> pystr) \<Rightarrow> nat \<Rightarrow> ctx \<Rightarrow> ctx" where
  "compact_history over_threshold summarize retention c =
     (let (msgs, res) = compact over_threshold summarize retention (c_messages c) (c_compaction c)
      in case res of
           None \<Rightarrow> c\<lparr>c_messages := msgs\<rparr>
         | Some (n, s) \<Rightarrow> emit_compaction n s (c\<lparr>c_messages := msgs, c_compaction := Some (n, s)\<rparr>))"

section \<open>Replaying artifacts gives back the live messages\<close>

definition log :: "ctx \<Rightarrow> a2a_event list" where
  "log c = map (snd \<circ> snd) (c_events c)"

definition raw_history :: "a2a_event list \<Rightarrow> ChatMessage list" where
  "raw_history evs = concat (map replay_event evs)"

text \<open>The live messages are what a replay of the log produces, and the compaction state is the latest
  compaction artifact.\<close>

definition history_inv :: "ctx \<Rightarrow> bool" where
  "history_inv c \<longleftrightarrow> c_compaction c = latest_compaction (log c) \<and>
     (case latest_compaction (log c) of
        None \<Rightarrow> c_messages c = raw_history (log c)
      | Some (n, s) \<Rightarrow> 0 \<le> n \<and> nat n \<le> length (raw_history (log c))
          \<and> c_messages c = AssistantMessage s # drop (nat n) (raw_history (log c)))"

lemma log_emit [simp]: "log (emit ev c) = log c @ [ev]"
  by (simp add: log_def emit_def)

lemma raw_history_append [simp]: "raw_history (a @ b) = raw_history a @ raw_history b"
  by (simp add: raw_history_def)

lemma raw_history_Cons [simp]: "raw_history (e # es) = replay_event e @ raw_history es" "raw_history [] = []"
  by (simp_all add: raw_history_def)

lemma latest_compaction_snoc [simp]:
  "latest_compaction (evs @ [e]) = (case compaction_of e of None \<Rightarrow> latest_compaction evs | Some x \<Rightarrow> Some x)"
  by (simp add: latest_compaction_def split: option.splits)

text \<open>An operation that appends messages and, in the same order, events that replay to them.\<close>

lemma history_inv_step:
  assumes "history_inv c" and "c_messages c' = c_messages c @ raw_history evs" and "log c' = log c @ evs"
    and "c_compaction c' = c_compaction c" and none: "\<forall>e \<in> set evs. compaction_of e = None"
  shows "history_inv c'"
proof -
  have l: "latest_compaction (xs @ evs) = latest_compaction xs" for xs
    using none by (induction evs rule: rev_induct) (auto simp flip: append_assoc)
  show ?thesis
  proof (cases "latest_compaction (log c)")
    case None
    then show ?thesis using assms l by (simp add: history_inv_def)
  next
    case (Some p)
    obtain n s where "p = (n, s)" by (cases p)
    then show ?thesis using Some assms l by (auto simp: history_inv_def)
  qed
qed

lemma history_frame:
  "log (c\<lparr>c_messages := m\<rparr>) = log c" "log (c\<lparr>c_state := s\<rparr>) = log c" "log (c\<lparr>c_tick := t\<rparr>) = log c"
  "log (c\<lparr>c_store := st\<rparr>) = log c" "log (c\<lparr>c_compaction := cp\<rparr>) = log c"
  by (simp_all add: log_def)

lemma record_as_history:
  assumes "history_inv c" and "cw = DECISION \<or> cw = HISTORY"
  shows "history_inv (record_as cw r t c)"
  by (rule history_inv_step [OF assms(1), of _ "[RecordArtifact cw r t]"])
    (use assms(2) in \<open>auto simp: record_as_def emit_def log_def\<close>)

lemma json_text_obj_nonempty [simp]: "json_text (JObj d) \<noteq> []"
  by simp

lemma emit_status_history: "history_inv c \<Longrightarrow> history_inv (emit (StatusUpdate t m sn q) c)"
  by (rule history_inv_step [of c _ "[StatusUpdate t m sn q]"]) (simp_all add: emit_def log_def)

lemma emit_function_call_history:
  assumes "history_inv c" and "name \<noteq> []" and "args = JObj a" and "result = JObj r"
  shows "history_inv (emit_function_call name args result call_id st c)"
proof -
  obtain cid c1 where u: "or_uuid call_id c = (cid, c1)" by (cases "or_uuid call_id c")
  have c1: "c_messages c1 = c_messages c" "log c1 = log c" "c_compaction c1 = c_compaction c"
    using u by (auto simp: or_uuid_def new_uuid_def log_def split: if_splits)
  let ?ev = "FunctionCallArtifact name args result cid (json_text args) (json_text result)"
  have "history_inv (emit ?ev (record_tool_exchange name cid (json_text args) (json_text result) c1))"
    by (rule history_inv_step [OF assms(1), of _ "[?ev]"])
      (use c1 assms(2-4) in \<open>simp_all add: record_tool_exchange_def emit_def log_def tool_exchange_from_data_def\<close>)
  then show ?thesis by (simp add: emit_function_call_def u emit_state_def emit_event_def emit_status_history)
qed

lemma emit_function_error_history:
  assumes "history_inv c" and "name \<noteq> []"
  shows "history_inv (emit_function_error name err call_id args_json st c)"
proof -
  obtain cid c1 where u: "or_uuid call_id c = (cid, c1)" by (cases "or_uuid call_id c")
  have c1: "c_messages c1 = c_messages c" "log c1 = log c" "c_compaction c1 = c_compaction c"
    using u by (auto simp: or_uuid_def new_uuid_def log_def split: if_splits)
  let ?aj = "if args_json = [] then py ''{}'' else args_json"
  let ?r = "JObj [(py ''success'', JBool False), (py ''error'', JStr err)]"
  let ?ev = "FunctionCallArtifact name (JObj []) ?r cid ?aj (json_text ?r)"
  have "history_inv (emit ?ev (record_tool_exchange name cid ?aj (json_text ?r) c1))"
    by (rule history_inv_step [OF assms(1), of _ "[?ev]"])
      (use c1 assms(2) in \<open>simp_all add: record_tool_exchange_def emit_def log_def tool_exchange_from_data_def del: json_text.simps json_fields.simps\<close>)
  then show ?thesis
    by (simp add: emit_function_error_def u emit_state_def emit_event_def emit_status_history Let_def del: json_text.simps json_fields.simps)
qed

lemma split_point_le: "split_point msgs k \<le> k"
  by (induction msgs k rule: split_point.induct) (auto intro: le_SucI)

lemma compact_cases:
  obtains (same) "compact over summ retention msgs st = (msgs, None)"
  | (folded) k summary where "0 < k" "k \<le> length msgs"
      "compact over summ retention msgs st = (AssistantMessage summary # drop k msgs,
         Some (case st of None \<Rightarrow> int k | Some (n, s) \<Rightarrow> n + int (k - 1), summary))"
proof (cases "over (messages_text msgs) \<and> split_point msgs (length msgs - retention) \<noteq> 0")
  case False
  then show ?thesis by (intro same) (auto simp: compact_def Let_def)
next
  case True
  define k where "k = split_point msgs (length msgs - retention)"
  have k: "0 < k" "k \<le> length msgs"
    using True split_point_le [of msgs "length msgs - retention"] by (auto simp: k_def)
  then have len: "length (tl (take k msgs)) = k - 1" by simp
  show ?thesis
  proof (cases st)
    case None
    then show ?thesis using True k by (intro folded [of k]) (simp_all add: compact_def Let_def k_def [symmetric])
  next
    case (Some p)
    obtain n s where "p = (n, s)" by (cases p)
    then show ?thesis using True k Some len
      by (intro folded [of k "if messages_text (tl (take k msgs)) \<noteq> [] then summ (py ''Previous summary:'' @ nl @ s @ nl @ nl
            @ py ''New messages:'' @ nl @ messages_text (tl (take k msgs))) else s"])
        (simp_all add: compact_def Let_def k_def [symmetric] del: length_tl)
  qed
qed

lemma compact_history_inv:
  assumes inv: "history_inv c"
  shows "history_inv (compact_history over summ retention c)"
proof (cases rule: compact_cases [of over summ retention "c_messages c" "c_compaction c"])
  case same
  then have "compact_history over summ retention c = c" by (simp add: compact_history_def)
  then show ?thesis using inv by simp
next
  case (folded k summary)
  let ?n = "case c_compaction c of None \<Rightarrow> int k | Some (n, s) \<Rightarrow> n + int (k - 1)"
  have e: "compact_history over summ retention c = emit (CompactionArtifact ?n summary)
      (c\<lparr>c_messages := AssistantMessage summary # drop k (c_messages c), c_compaction := Some (?n, summary)\<rparr>)"
    using folded(3) by (simp add: compact_history_def emit_compaction_def)
  have "0 \<le> ?n \<and> nat ?n \<le> length (raw_history (log c)) \<and> drop k (c_messages c) = drop (nat ?n) (raw_history (log c))"
  proof (cases "latest_compaction (log c)")
    case None
    then show ?thesis using inv folded(2) by (simp add: history_inv_def)
  next
    case (Some p)
    obtain n s where "p = (n, s)" by (cases p)
    then have m: "c_messages c = AssistantMessage s # drop (nat n) (raw_history (log c))" "c_compaction c = Some (n, s)"
      "0 \<le> n" "nat n \<le> length (raw_history (log c))" using inv Some by (auto simp: history_inv_def)
    obtain k' where "k = Suc k'" using folded(1) by (cases k) auto
    then show ?thesis using m folded(2) by (simp add: nat_add_distrib add.commute)
  qed
  then show ?thesis unfolding e by (simp add: history_inv_def history_frame) (simp add: emit_def)
qed

text \<open>The operations that write to the history.\<close>

inductive history_step :: "ctx \<Rightarrow> ctx \<Rightarrow> bool" where
  recorded: "cw \<in> {DECISION, HISTORY} \<Longrightarrow> history_step c (record_as cw r t c)"
| called: "name \<noteq> [] \<Longrightarrow> history_step c (emit_function_call name (JObj a) (JObj d) call_id st c)"
| call_failed: "name \<noteq> [] \<Longrightarrow> history_step c (emit_function_error name err call_id args_json st c)"
| status: "history_step c (emit (StatusUpdate t m sn q) c)"
| chunk: "history_step c (emit (ChunkArtifact cw author i txt app l) c)"
| compacted: "history_step c (compact_history over summ retention c)"
| next_task: "history_step c (c\<lparr>c_task_id := t\<rparr>)"

lemma history_step_inv: "history_step c c' \<Longrightarrow> history_inv c \<Longrightarrow> history_inv c'"
proof (induction rule: history_step.induct)
  case (chunk c cw author i x app l)
  then show ?case by (rule history_inv_step [of c _ "[ChunkArtifact cw author i x app l]"]) (simp_all add: emit_def log_def)
next
  case (next_task c t)
  have "log (c\<lparr>c_task_id := t\<rparr>) = log c" by (simp add: log_def)
  then show ?case using next_task by (auto simp: history_inv_def split: option.splits)
qed (auto intro: record_as_history emit_function_call_history emit_function_error_history emit_status_history compact_history_inv)

lemma history_steps_inv: "history_step\<^sup>*\<^sup>* c c' \<Longrightarrow> history_inv c \<Longrightarrow> history_inv c'"
  by (induction rule: rtranclp_induct) (auto intro: history_step_inv)



end
