(* ===== verification/Planner.thy ===== *)
theory Planner
  imports Tools History
begin

text \<open>
  Planning a turn: the attempt loop of \<open>core/planner.py\<close> (\<open>plan\<close>), its consumer \<open>stream_plan\<close> and
  \<open>plan_and_launch\<close> of \<open>orchestration/planning/planner.py\<close>.  One call of the language model is the
  parameter \<open>llm\<close>: from the messages to the streamed deltas (reasoning, content) and how the stream
  ended.  The generator is modelled by the list of items it yields and the exception it ends with.
\<close>

section \<open>One planning call\<close>

datatype plan_end =
    PlanCall pystr "PlanNodeDraft list"
  | NoToolCall
  | NotADraft json
  | ParseFailed pystr pystr
  | StreamRaised exn

record plan_attempt =
  pa_deltas :: "(pystr \<times> pystr) list"
  pa_end :: plan_end

datatype plan_item = ItemDelta pystr pystr | ItemRetry pystr pystr | ItemCall pystr "PlanNodeDraft list"

definition draft_json :: "PlanNodeDraft \<Rightarrow> json" where
  "draft_json d = JObj [(py ''id'', JStr (pd_id d)), (py ''name'', JStr (pd_name d)), (py ''agent_name'', JStr (pd_agent_name d)),
     (py ''input'', JObj (map (\<lambda>(k, v). (k, JStr v)) (pd_input d))), (py ''deps'', jstrs (pd_deps d))]"

definition plan_draft_json :: "PlanNodeDraft list \<Rightarrow> json" where
  "plan_draft_json ds = JObj [(py ''nodes'', JArr (map draft_json ds))]"

text \<open>\<open>str(exc)\<close> of a validation error.\<close>

fun error_text :: "exn \<Rightarrow> pystr" where
  "error_text (PlanValidationError t) = t"
| "error_text (ValueError t) = t"
| "error_text _ = []"

text \<open>How one attempt ends: an accepted call, a rejected one with its error and payload, or an exception
  that is not caught.\<close>

datatype verdict = Accepted pystr "PlanNodeDraft list" | Rejected pystr pystr | Raised exn

definition judge :: "nat \<Rightarrow> plan_end \<Rightarrow> verdict" where
  "judge max_nodes e = (case e of
      PlanCall call_id drafts \<Rightarrow> (case validate_plan drafts max_nodes of
          Inr _ \<Rightarrow> Accepted call_id drafts
        | Inl err \<Rightarrow> Rejected (error_text err) (json_text (plan_draft_json drafts)))
    | NoToolCall \<Rightarrow> Rejected (py ''model did not call the create_plan tool'') []
    | NotADraft args \<Rightarrow> Rejected (py ''model did not return a plan draft'') (json_text args)
    | ParseFailed payload err \<Rightarrow> Rejected err payload
    | StreamRaised err \<Rightarrow> Raised err)"

definition feedback :: "pystr \<Rightarrow> pystr \<Rightarrow> pystr" where
  "feedback payload err = py ''Your previous tool call was invalid.'' @ nl @ py ''Tool call args:'' @ nl @ payload @ nl @ nl
     @ py ''Error: '' @ err @ nl @ py ''Return a corrected tool call.''"

text \<open>\<open>for attempt in range(max_retries + 1)\<close>: \<open>left\<close> attempts remain, \<open>retry\<close> is the last error and
  payload once one attempt failed.\<close>

fun plan_loop :: "(ChatMessage list \<Rightarrow> plan_attempt) \<Rightarrow> nat \<Rightarrow> int \<Rightarrow> nat \<Rightarrow> (pystr \<times> pystr) option \<Rightarrow> ChatMessage list
    \<Rightarrow> plan_item list \<times> exn option" where
  "plan_loop llm max_nodes max_retries 0 retry messages =
     (let (err, payload) = (case retry of None \<Rightarrow> (py ''None'', []) | Some r \<Rightarrow> r)
      in ([], Some (PlanningFailed (py ''planner failed after '' @ int_str (max_retries + 1) @ py '' attempts: '' @ err) payload)))"
| "plan_loop llm max_nodes max_retries (Suc left) retry messages =
     (let start = (case retry of None \<Rightarrow> [] | Some (err, payload) \<Rightarrow> [ItemRetry err payload]);
          a = llm messages;
          deltas = map (\<lambda>(r, t). ItemDelta r t) (pa_deltas a)
      in case judge max_nodes (pa_end a) of
           Accepted call_id drafts \<Rightarrow> (start @ deltas @ [ItemCall call_id drafts], None)
         | Raised e \<Rightarrow> (start @ deltas, Some e)
         | Rejected err payload \<Rightarrow>
             (let (items, final) = plan_loop llm max_nodes max_retries left (Some (err, payload))
                    (messages @ [UserMessage (feedback payload err)])
              in (start @ deltas @ items, final)))"

definition plan :: "(ChatMessage list \<Rightarrow> plan_attempt) \<Rightarrow> nat \<Rightarrow> int \<Rightarrow> ChatMessage list \<Rightarrow> ctx
    \<Rightarrow> plan_item list \<times> exn option" where
  "plan llm max_nodes max_retries history c =
     (let agents = registry_list c in
      if agents = [] then ([], Some (PlanningFailed (py ''no agents registered; register at least one A2A agent first'') []))
      else case build_planner_capabilities agents of
        Inl e \<Rightarrow> ([], Some e)
      | Inr capabilities \<Rightarrow> plan_loop llm max_nodes max_retries (nat (max_retries + 1)) None
          (history @ [UserMessage (build_planner_user_message capabilities None)]))"

section \<open>stream\_plan\<close>

record stream_state =
  st_call :: "(pystr \<times> PlanNodeDraft list) option"
  st_reasoning :: pystr
  st_content :: pystr
  st_first_reasoning :: bool
  st_first_content :: bool
  st_thought_id :: pystr
  st_text_id :: pystr

definition close_attempt :: "stream_state \<Rightarrow> ctx \<Rightarrow> ctx" where
  "close_attempt st c =
     (let c1 = (if st_reasoning st \<noteq> [] then emit_thought_chunk (st_reasoning st) (py ''assistant'') False True (st_thought_id st) c else c)
      in if st_content st \<noteq> [] then emit_text_chunk (st_content st) False True (st_text_id st) c1 else c1)"

definition fresh_stream :: "(pystr \<times> PlanNodeDraft list) option \<Rightarrow> ctx \<Rightarrow> stream_state \<times> ctx" where
  "fresh_stream call c = (let (i, c1) = new_uuid c; (j, c2) = new_uuid c1 in
     (\<lparr>st_call = call, st_reasoning = [], st_content = [], st_first_reasoning = True, st_first_content = True,
       st_thought_id = i, st_text_id = j\<rparr>, c2))"

fun stream_item :: "plan_item \<Rightarrow> stream_state \<times> ctx \<Rightarrow> stream_state \<times> ctx" where
  "stream_item (ItemRetry err args_json) (st, c) =
     fresh_stream (st_call st) (emit_function_error (ft_name create_plan_tool) err [] args_json TASK_WORKING (close_attempt st c))"
| "stream_item (ItemCall call_id drafts) (st, c) = (st\<lparr>st_call := Some (call_id, drafts)\<rparr>, c)"
| "stream_item (ItemDelta reasoning content) (st, c) =
     (let (st1, c1) = (if reasoning = [] then (st, c)
            else (st\<lparr>st_reasoning := st_reasoning st @ reasoning, st_first_reasoning := False\<rparr>,
                  emit_thought_chunk reasoning (py ''assistant'') (\<not> st_first_reasoning st) False (st_thought_id st) c))
      in if content = [] then (st1, c1)
         else (st1\<lparr>st_content := st_content st1 @ content, st_first_content := False\<rparr>,
               emit_text_chunk content (\<not> st_first_content st1) False (st_text_id st1) c1))"

text \<open>The result, and the context after the events of the stream (also when it fails).\<close>

definition stream_plan :: "(ChatMessage list \<Rightarrow> plan_attempt) \<Rightarrow> ctx \<Rightarrow> (exn + pystr \<times> PlanNodeDraft list) \<times> ctx" where
  "stream_plan llm c =
     (let (items, final) = plan llm (cfg_max_nodes (c_config c)) (cfg_max_plan_retries (c_config c)) (c_messages c) c;
          (st, c1) = fold stream_item items (fresh_stream None c)
      in case final of
           Some (PlanningFailed m p) \<Rightarrow> (Inl (PlanningFailed m p), close_attempt st c1)
         | Some e \<Rightarrow> (Inl e, c1)
         | None \<Rightarrow> (case st_call st of
              None \<Rightarrow> (Inl (PlanningFailed (py ''planner stream ended without a plan'') []), close_attempt st c1)
            | Some call \<Rightarrow> (Inr call, close_attempt st c1)))"

section \<open>plan\_and\_launch\<close>

text \<open>What a turn needs of the outside: the planner's model, token counting, summarizing, the retention.\<close>

record planner_env =
  pe_llm :: "ChatMessage list \<Rightarrow> plan_attempt"
  pe_over_threshold :: "pystr \<Rightarrow> bool"
  pe_summarize :: "pystr \<Rightarrow> pystr"
  pe_retention :: nat

definition plan_summary :: "PlanNodeDraft list \<Rightarrow> pystr" where
  "plan_summary ds = (let t = str_join (py ''; '') (map (\<lambda>d. pd_id d @ [8594] @ pd_agent_name d) ds)
     in if t = [] then py ''(empty)'' else t)"

definition plan_and_launch :: "planner_env \<Rightarrow> pystr \<Rightarrow> pystr list \<Rightarrow> ctx \<Rightarrow> exn + ctx" where
  "plan_and_launch env content mentions c =
     (let (u, c1) = new_uuid c;
          c2 = set_state (start_new_plan (c_state c1) (py ''plan-'' @ take 8 u)) c1;
          c3 = record_message USER content (compact_history (pe_over_threshold env) (pe_summarize env) (pe_retention env) c2)
      in case stream_plan (pe_llm env) c3 of
           (Inl (PlanningFailed m payload), c4) \<Rightarrow>
             Inr (evict_session (emit_function_error (ft_name create_plan_tool) m [] payload TASK_FAILED (persist c4)))
         | (Inl e, c4) \<Rightarrow> Inl e
         | (Inr (call_id, drafts), c4) \<Rightarrow>
             (let c5 = record_decision (py ''[planner] '' @ plan_summary drafts) c4 in
              if drafts = [] then Inr (evict_session (emit_state TASK_COMPLETED (persist c5)))
              else ebind (execute_function create_plan_tool (\<lambda>d. d) (plan_draft_json drafts) (create_plan_run drafts) call_id c5)
                (\<lambda>(_, c6).
                  let targets = filter (\<lambda>name. name \<in> set (map ag_name (registry_list c6))) mentions
                  in ebind (if targets \<noteq> [] then join_members targets (py ''human_mention'') c6 else Inr c6) (\<lambda>c7.
                       Inr (start_runner (persist c7))))))"

section \<open>What planning guarantees\<close>

text \<open>Every item list is a sequence of attempts; an accepted call was validated and ends the list.\<close>

lemma plan_loop_accepted:
  "plan_loop llm max_nodes max_retries left retry messages = (items, final) \<Longrightarrow> ItemCall call_id drafts \<in> set items \<Longrightarrow>
     validate_plan drafts max_nodes = Inr () \<and> final = None"
proof (induction llm max_nodes max_retries left retry messages arbitrary: items rule: plan_loop.induct)
  case (2 llm max_nodes max_retries left retry messages)
  show ?case
  proof (cases "judge max_nodes (pa_end (llm messages))")
    case (Accepted i ds)
    then have "validate_plan ds max_nodes = Inr ()"
      by (auto simp: judge_def split: plan_end.splits sum.splits)
    then show ?thesis using 2 Accepted by (auto simp: Let_def split: option.splits)
  next
    case (Rejected e p)
    then show ?thesis using 2 by (auto simp: Let_def split: option.splits prod.splits)
  next
    case (Raised e)
    then show ?thesis using 2 by (auto simp: Let_def split: option.splits)
  qed
qed (auto split: option.splits prod.splits)

lemma plan_loop_retries:
  "plan_loop llm max_nodes max_retries left retry messages = (items, final) \<Longrightarrow>
     length (filter (\<lambda>i. case i of ItemRetry _ _ \<Rightarrow> True | _ \<Rightarrow> False) items)
       \<le> (case retry of None \<Rightarrow> left - 1 | Some _ \<Rightarrow> left)"
proof (induction llm max_nodes max_retries left retry messages arbitrary: items rule: plan_loop.induct)
  case (2 llm max_nodes max_retries left retry messages)
  have d: "filter (\<lambda>i. case i of ItemRetry _ _ \<Rightarrow> True | _ \<Rightarrow> False) (map (\<lambda>(r, t). ItemDelta r t) ds) = []" for ds
    by (auto simp: filter_empty_conv)
  show ?case
  proof (cases "judge max_nodes (pa_end (llm messages))")
    case (Rejected e p)
    obtain items' where i: "plan_loop llm max_nodes max_retries left (Some (e, p)) (messages @ [UserMessage (feedback p e)]) = (items', final)"
      and items: "items = (case retry of None \<Rightarrow> [] | Some (e, p) \<Rightarrow> [ItemRetry e p]) @ map (\<lambda>(r, t). ItemDelta r t) (pa_deltas (llm messages)) @ items'"
      using 2 Rejected by (auto simp: Let_def split: prod.splits)
    have "length (filter (\<lambda>i. case i of ItemRetry _ _ \<Rightarrow> True | _ \<Rightarrow> False) items') \<le> left"
      using "2.IH" [OF refl refl refl Rejected i] by simp
    then show ?thesis using items d by (auto split: option.splits)
  qed (use 2 d in \<open>auto simp: Let_def split: option.splits\<close>)
qed (auto split: option.splits prod.splits)

end
