(* ===== verification/Recovery.thy ===== *)
theory Recovery
  imports History
begin

text \<open>
  Visible tasks, rewind and restart recovery: \<open>a2a/tasks.py\<close> (the skip-stack filter over the task list),
  \<open>orchestration/rewind.py\<close>, \<open>a2a/recovery.py\<close>, and the rewind endpoint of \<open>api/conversations.py\<close>.

  A task is what these functions read of an A2A task: its id, conversation, status, rewind marker,
  snapshot text, artifacts, and of its first message whether its role is \<open>user\<close> and the \<open>sender\<close> of its room
  options.  The pages of \<open>task_store.list\<close> are taken concatenated, newest first.
\<close>

section \<open>Definitions\<close>

record Task =
  tk_id :: pystr
  tk_context :: pystr
  tk_state :: TaskState
  tk_rewind :: "pystr option"
  tk_snapshot :: "json option option"
  tk_events :: "a2a_event list"
  tk_opener :: "(bool \<times> pystr option) option"

text \<open>\<open>extract_rewind\<close>: an empty string is no marker.\<close>

definition extract_rewind :: "Task \<Rightarrow> pystr option" where
  "extract_rewind t = (case tk_rewind t of Some (x # xs) \<Rightarrow> Some (x # xs) | _ \<Rightarrow> None)"

text \<open>\<open>iter_all_tasks\<close>: \<open>skip_stack\<close> maps a conversation to its stack (top at the end).\<close>

fun iter_tasks :: "(pystr, pystr list) dict \<Rightarrow> Task list \<Rightarrow> Task list" where
  "iter_tasks d [] = []"
| "iter_tasks d (t # ts) = (case extract_rewind t of
      Some before \<Rightarrow> iter_tasks (d_modify (tk_context t) (\<lambda>st. st @ [before]) (d_setdefault (tk_context t) [] d)) ts
    | None \<Rightarrow> (case map_of d (tk_context t) of
         Some (b # st) \<Rightarrow>
           (if tk_id t = last (b # st) then iter_tasks (d_modify (tk_context t) butlast d) ts
            else iter_tasks d ts)
       | _ \<Rightarrow> t # iter_tasks d ts))"

definition iter_all_tasks :: "Task list \<Rightarrow> Task list" where
  "iter_all_tasks newest_first = iter_tasks [] newest_first"

definition list_all_tasks :: "bool \<Rightarrow> Task list \<Rightarrow> Task list" where
  "list_all_tasks reverse newest_first = (let ts = iter_all_tasks newest_first in if reverse then rev ts else ts)"

text \<open>\<open>index = {task.id: position ...}\<close> keeps the last position of an id.\<close>

definition task_index :: "Task list \<Rightarrow> pystr \<Rightarrow> nat option" where
  "task_index ts i = map_of (rev (zip (map tk_id ts) [0..<length ts])) i"

definition restore_state :: "pystr \<Rightarrow> Task list \<Rightarrow> pystr \<Rightarrow> exn + OrchestrationState" where
  "restore_state now visible before_task_id = (case task_index visible before_task_id of
      None \<Rightarrow> Inr empty_state
    | Some pos \<Rightarrow> (if pos = 0 then Inr empty_state
        else let checkpoint = visible ! (pos - 1)
             in ebind (load_state now (tk_snapshot checkpoint)) (\<lambda>st. case st of
                  None \<Rightarrow> Inl (RewindUnavailable (py ''no state snapshot for task '' @ tk_id checkpoint))
                | Some s \<Rightarrow> Inr s)))"

definition is_human_turn :: "Task \<Rightarrow> bool" where
  "is_human_turn t = (case tk_opener t of
      None \<Rightarrow> False
    | Some (from_user, sender) \<Rightarrow> from_user \<and> sender \<in> {None, Some [], Some (py ''user'')})"

text \<open>The rewind endpoint on the conversation of \<open>c\<close> and the list of all tasks, newest first: its checks, then
  the stored state, the marker task and the eviction of the session.\<close>

definition rewind_conversation :: "pystr \<Rightarrow> pystr \<Rightarrow> pystr \<Rightarrow> Task list \<times> ctx \<Rightarrow> exn + (Task list \<times> ctx)" where
  "rewind_conversation now marker_id task_id = (\<lambda>(tasks, c).
     let k = c_context_id c; visible = list_all_tasks True (filter (\<lambda>t. tk_context t = k) tasks) in
     if task_id = [] then Inl (HTTPException 400 (py ''task_id is required''))
     else if c_active c \<and> c_runner c then Inl (HTTPException 409 ([20250, 35805, 27491, 22312, 25191, 34892, 20013, 65292, 26080, 27861, 22238, 36864]))
     else if map_of (c_store c) k = None \<or> visible = [] then Inl (HTTPException 404 (py ''conversation not found''))
     else case task_index visible task_id of
         None \<Rightarrow> Inl (HTTPException 404 (py ''task not found''))
       | Some i \<Rightarrow>
          (if \<not> is_human_turn (visible ! i) then Inl (HTTPException 400 ([21482, 26377, 20154, 31867, 28040, 24687, 24320, 21551, 30340, 22238, 21512, 21487, 20197, 22238, 36864]))
           else case restore_state now visible task_id of
               Inl (RewindUnavailable m) \<Rightarrow> Inl (HTTPException 409 m)
             | Inl e \<Rightarrow> Inl e
             | Inr s \<Rightarrow> Inr (\<lparr>tk_id = marker_id, tk_context = k, tk_state = TASK_COMPLETED, tk_rewind = Some task_id,
                 tk_snapshot = None, tk_events = [], tk_opener = None\<rparr> # tasks,
                 evict_session (c\<lparr>c_store := upsert_state k (state_to_json s) (c_store c)\<rparr>))))"

text \<open>\<open>_conversation_payload\<close>, also the response of a successful rewind: the stored context and the visible tasks.\<close>

definition conversation_payload :: "Task list \<times> ctx \<Rightarrow> exn + (json option \<times> Task list)" where
  "conversation_payload = (\<lambda>(tasks, c).
     let k = c_context_id c; visible = list_all_tasks True (filter (\<lambda>t. tk_context t = k) tasks) in
     if visible = [] then Inl (HTTPException 404 (py ''conversation not found''))
     else Inr (map_of (c_store c) k, visible))"

text \<open>\<open>recover_session\<close>: \<open>tasks\<close> are the conversation's visible tasks, oldest first.\<close>

definition recover_node :: "NodeState \<Rightarrow> exn + NodeState" where
  "recover_node n = (if n_status n \<in> ACTIVE_NODE_STATUSES
     then apply_transition n (if n_a2a_task_id n = None \<or> n_a2a_task_id n = Some [] then PENDING else RECOVER) else Inr n)"

definition recover_session :: "Task list \<Rightarrow> ctx \<Rightarrow> exn + ctx" where
  "recover_session tasks c =
     (let (expired, s1) = normalize_interventions (c_state c);
          c1 = emit_interventions_expired expired (set_state s1 c);
          (msgs, comp) = rebuild (map (\<lambda>t. (tk_id t, tk_events t)) tasks) (c_task_id c1) (c_compaction c1)
      in ebind (emap (\<lambda>(k, n). ebind (recover_node n) (\<lambda>n'. Inr (k, n'))) (nodes (c_state c1))) (\<lambda>ns.
           Inr (start_runner (persist (c1\<lparr>c_messages := msgs, c_compaction := comp,
             c_state := (c_state c1)\<lparr>nodes := ns\<rparr>\<rparr>)))))"

text \<open>\<open>recover_tasks\<close>: the tasks that get the internal recovery message, newest first; \<open>delivered\<close> says for
  which of them \<open>on_message_send\<close> does not raise, \<open>stored\<close> whether the contexts table has a row.\<close>

fun recover_loop :: "pystr \<Rightarrow> (pystr \<Rightarrow> bool) \<Rightarrow> pystr list \<Rightarrow> Task list \<Rightarrow> exn + Task list" where
  "recover_loop now stored seen [] = Inr []"
| "recover_loop now stored seen (t # ts) =
     (if tk_state t \<in> TERMINAL_TASK_STATES then recover_loop now stored seen ts
      else if tk_context t \<in> set seen then recover_loop now stored seen ts
      else ebind (load_state now (tk_snapshot t)) (\<lambda>st.
        if st = None \<and> \<not> stored (tk_context t) then recover_loop now stored seen ts
        else ebind (recover_loop now stored (tk_context t # seen) ts) (\<lambda>rs. Inr (t # rs))))"

definition recover_tasks :: "pystr \<Rightarrow> (pystr \<Rightarrow> bool) \<Rightarrow> (Task \<Rightarrow> bool) \<Rightarrow> Task list \<Rightarrow> exn + nat" where
  "recover_tasks now stored delivered tasks =
     ebind (recover_loop now stored [] (iter_all_tasks tasks)) (\<lambda>rs. Inr (length (filter delivered rs)))"

section \<open>The skip stack is truncation at the rewind targets\<close>

text \<open>The specification, in chronological order: a rewind marker removes its target and every later
  turn; any other task is appended.\<close>

definition before_id :: "pystr \<Rightarrow> Task list \<Rightarrow> Task list" where
  "before_id i ts = takeWhile (\<lambda>t. tk_id t \<noteq> i) ts"

definition chron_step :: "Task list \<Rightarrow> Task \<Rightarrow> Task list" where
  "chron_step visible t = (case extract_rewind t of Some b \<Rightarrow> before_id b visible | None \<Rightarrow> visible @ [t])"

definition chronology :: "Task list \<Rightarrow> Task list" where
  "chronology oldest_first = foldl chron_step [] oldest_first"

text \<open>A log the endpoint writes: a marker's target is visible when the marker is written, ids are
  distinct.\<close>

definition rewind_log :: "Task list \<Rightarrow> bool" where
  "rewind_log ts \<longleftrightarrow> distinct (map tk_id ts) \<and> (\<forall>xs t ys b. ts = xs @ t # ys \<longrightarrow> extract_rewind t = Some b \<longrightarrow>
     b \<in> set (map tk_id (chronology xs)))"

lemma chronology_snoc [simp]: "chronology (xs @ [t]) = chron_step (chronology xs) t"
  by (simp add: chronology_def)

lemma chronology_Nil [simp]: "chronology [] = []"
  by (simp add: chronology_def)

lemma rewind_log_snoc: "rewind_log (xs @ [t]) \<Longrightarrow> rewind_log xs"
  by (auto simp: rewind_log_def)

lemma rewind_log_target: "rewind_log (xs @ [t]) \<Longrightarrow> extract_rewind t = Some b \<Longrightarrow> b \<in> set (map tk_id (chronology xs))"
  by (auto simp: rewind_log_def)

lemma set_before_id: "set (before_id i ts) \<subseteq> set ts"
  by (auto simp: before_id_def dest: set_takeWhileD)

lemma chronology_subset: "set (chronology xs) \<subseteq> set xs"
proof (induction xs rule: rev_induct)
  case (snoc t xs)
  then show ?case using set_before_id by (fastforce simp: chron_step_def split: option.splits)
qed simp

text \<open>The filter of one conversation, with the top of the stack at the head.\<close>

fun skip :: "pystr list \<Rightarrow> Task list \<Rightarrow> Task list" where
  "skip st [] = []"
| "skip st (t # ts) = (case extract_rewind t of Some b \<Rightarrow> skip (b # st) ts
    | None \<Rightarrow> (case st of [] \<Rightarrow> t # skip [] ts
        | c # st' \<Rightarrow> if tk_id t = c then skip st' ts else skip (c # st') ts))"

fun cut :: "pystr list \<Rightarrow> Task list \<Rightarrow> Task list" where
  "cut [] vs = vs"
| "cut (c # st) vs = cut st (before_id c vs)"

fun targets_visible :: "pystr list \<Rightarrow> Task list \<Rightarrow> bool" where
  "targets_visible [] vs = True"
| "targets_visible (c # st) vs = (c \<in> set (map tk_id vs) \<and> targets_visible st (before_id c vs))"

lemma before_id_snoc: "before_id c (vs @ [t]) = (if c \<in> set (map tk_id vs) then before_id c vs
    else if tk_id t = c then vs else vs @ [t])"
proof (cases "c \<in> set (map tk_id vs)")
  case True
  then obtain v where v: "v \<in> set vs" "tk_id v = c" by auto
  then have "takeWhile (\<lambda>t. tk_id t \<noteq> c) (vs @ [t]) = takeWhile (\<lambda>t. tk_id t \<noteq> c) vs"
    by (intro takeWhile_append1 [of v]) auto
  then show ?thesis using True by (simp add: before_id_def)
next
  case False
  then have "takeWhile (\<lambda>t. tk_id t \<noteq> c) (vs @ [t]) = vs @ takeWhile (\<lambda>t. tk_id t \<noteq> c) [t]"
    by (intro takeWhile_append2) auto
  then show ?thesis using False by (simp add: before_id_def)
qed

lemma skip_is_cut:
  assumes "rewind_log xs" and "targets_visible st (chronology xs)"
  shows "skip st (rev xs) = rev (cut st (chronology xs))"
  using assms
proof (induction xs arbitrary: st rule: rev_induct)
  case Nil
  then show ?case by (cases st) auto
next
  case (snoc t xs)
  have log: "rewind_log xs" using snoc.prems(1) by (rule rewind_log_snoc)
  show ?case
  proof (cases "extract_rewind t")
    case (Some b)
    have "b \<in> set (map tk_id (chronology xs))" using rewind_log_target [OF snoc.prems(1) Some] .
    moreover have "targets_visible st (before_id b (chronology xs))" using snoc.prems(2) Some by (simp add: chron_step_def)
    ultimately have "targets_visible (b # st) (chronology xs)" by simp
    then show ?thesis using snoc.IH [OF log] Some by (simp add: chron_step_def)
  next
    case None
    have fresh: "tk_id t \<notin> set (map tk_id (chronology xs))"
      using snoc.prems(1) chronology_subset [of xs] by (auto simp: rewind_log_def)
    show ?thesis
    proof (cases st)
      case Nil
      then show ?thesis using None snoc.IH [OF log, of "[]"] by (simp add: chron_step_def)
    next
      case (Cons c st')
      show ?thesis
      proof (cases "tk_id t = c")
        case True
        then have u: "before_id c (chronology xs @ [t]) = chronology xs" using fresh by (simp add: before_id_snoc)
        then have "targets_visible st' (chronology xs)" using snoc.prems(2) Cons None by (simp add: chron_step_def)
        then show ?thesis using snoc.IH [OF log, of st'] Cons None True u by (simp add: chron_step_def)
      next
        case False
        then have c: "c \<in> set (map tk_id (chronology xs))" using snoc.prems(2) Cons None by (simp add: chron_step_def)
        then have u: "before_id c (chronology xs @ [t]) = before_id c (chronology xs)" by (simp add: before_id_snoc)
        then have "targets_visible (c # st') (chronology xs)" using snoc.prems(2) Cons None c by (simp add: chron_step_def)
        then show ?thesis using snoc.IH [OF log, of "c # st'"] Cons None False u by (simp add: chron_step_def)
      qed
    qed
  qed
qed

text \<open>The dict of stacks restricted to one conversation.\<close>

definition stack_of :: "(pystr, pystr list) dict \<Rightarrow> pystr \<Rightarrow> pystr list" where
  "stack_of d k = (case map_of d k of None \<Rightarrow> [] | Some st \<Rightarrow> rev st)"

declare map_of_d_setdefault [simp]

lemma iter_tasks_context:
  "filter (\<lambda>t. tk_context t = k) (iter_tasks d ts) = skip (stack_of d k) (filter (\<lambda>t. tk_context t = k) ts)"
proof (induction ts arbitrary: d)
  case (Cons t ts)
  show ?case
  proof (cases "extract_rewind t")
    case (Some b)
    let ?d = "d_modify (tk_context t) (\<lambda>st. st @ [b]) (d_setdefault (tk_context t) [] d)"
    have "stack_of ?d k = (if tk_context t = k then b # stack_of d k else stack_of d k)"
      by (auto simp: stack_of_def split: option.splits)
    then show ?thesis using Cons.IH [of ?d] Some by simp
  next
    case None
    show ?thesis
    proof (cases "map_of d (tk_context t)")
      case m: (Some st)
      show ?thesis
      proof (cases "st = []")
        case True
        then show ?thesis using Cons.IH [of d] None m by (auto simp: stack_of_def)
      next
        case False
        then obtain st0 b where st: "st = st0 @ [b]" by (metis append_butlast_last_id)
        have s: "stack_of d (tk_context t) = b # rev st0" using m st by (simp add: stack_of_def)
        let ?d = "d_modify (tk_context t) butlast d"
        have s': "stack_of ?d k = (if tk_context t = k then rev st0 else stack_of d k)"
          using m st by (auto simp: stack_of_def)
        have "iter_tasks d (t # ts) = (if tk_id t = b then iter_tasks ?d ts else iter_tasks d ts)"
        proof -
          obtain a l where al: "st = a # l" using False by (cases st) auto
          then have "last (a # l) = b" using st last_snoc [of st0 b] by metis
          then show ?thesis using None m al by simp
        qed
        then show ?thesis using Cons.IH [of ?d] Cons.IH [of d] None s s' by auto
      qed
    next
      case n: None
      then show ?thesis using Cons.IH [of d] None by (auto simp: stack_of_def)
    qed
  qed
qed simp

text \<open>The streaming filter of \<open>iter_all_tasks\<close>, which walks the tasks newest first with a stack of
  rewind targets per conversation, shows of every conversation exactly what replaying its turns in
  chronological order leaves: each rewind removes its target turn and all later ones, nested and
  repeated rewinds included.\<close>

theorem visible_tasks_are_chronology:
  assumes "rewind_log (rev (filter (\<lambda>t. tk_context t = k) newest_first))"
  shows "filter (\<lambda>t. tk_context t = k) (iter_all_tasks newest_first)
    = rev (chronology (rev (filter (\<lambda>t. tk_context t = k) newest_first)))"
proof -
  have "stack_of [] k = []" by (simp add: stack_of_def)
  then show ?thesis using skip_is_cut [OF assms, of "[]"] by (simp add: iter_all_tasks_def iter_tasks_context)
qed

definition example_task :: "string \<Rightarrow> pystr option \<Rightarrow> Task" where
  "example_task i rw = \<lparr>tk_id = py i, tk_context = py ''k1'', tk_state = TASK_COMPLETED, tk_rewind = rw,
     tk_snapshot = Some (Some (state_to_json (empty_state\<lparr>plan_id := py i\<rparr>))), tk_events = [], tk_opener = Some (True, None)\<rparr>"

text \<open>Turns \<open>t1 t2 t3\<close>, then a rewind of \<open>t2\<close>, a new turn \<open>t4\<close>, and a rewind of \<open>t4\<close>; newest first.\<close>

definition example_tasks :: "Task list" where
  "example_tasks = [example_task ''r2'' (Some (py ''t4'')), example_task ''t4'' None, example_task ''r1'' (Some (py ''t2'')),
     example_task ''t3'' None, example_task ''t2'' None, example_task ''t1'' None]"

text \<open>An executable form of \<open>rewind_log\<close>.\<close>

fun log_ok :: "Task list \<Rightarrow> Task list \<Rightarrow> bool" where
  "log_ok visible [] = True"
| "log_ok visible (t # ts) = ((case extract_rewind t of Some b \<Rightarrow> b \<in> set (map tk_id visible) | None \<Rightarrow> True)
     \<and> log_ok (chron_step visible t) ts)"

lemma log_ok_append: "log_ok vs (xs @ ys) = (log_ok vs xs \<and> log_ok (foldl chron_step vs xs) ys)"
  by (induction xs arbitrary: vs) auto

lemma rewind_log_log_ok: "rewind_log ts \<longleftrightarrow> distinct (map tk_id ts) \<and> log_ok [] ts"
proof
  assume "rewind_log ts"
  then show "distinct (map tk_id ts) \<and> log_ok [] ts"
  proof (induction ts rule: rev_induct)
    case (snoc t ts)
    have "distinct (map tk_id (ts @ [t]))" using snoc.prems by (simp add: rewind_log_def)
    moreover have "log_ok [] ts" using snoc.IH [OF rewind_log_snoc [OF snoc.prems]] by simp
    ultimately show ?case using rewind_log_target [OF snoc.prems]
      by (simp add: log_ok_append chronology_def [symmetric] split: option.splits)
  qed (simp add: rewind_log_def)
next
  assume a: "distinct (map tk_id ts) \<and> log_ok [] ts"
  have "b \<in> set (map tk_id (chronology xs))" if "ts = xs @ t # ys" "extract_rewind t = Some b" for xs t ys b
    using a that by (simp add: log_ok_append chronology_def)
  then show "rewind_log ts" using a unfolding rewind_log_def by blast
qed

lemma example_log: "rewind_log (rev example_tasks)" "filter (\<lambda>t. tk_context t = py ''k1'') example_tasks = example_tasks"
  by (simp_all add: rewind_log_log_ok example_tasks_def example_task_def extract_rewind_def chron_step_def before_id_def py_def)

theorem visible_tasks_are_chronology_witness:
  "rewind_log (rev (filter (\<lambda>t. tk_context t = py ''k1'') example_tasks)) \<and>
   filter (\<lambda>t. tk_context t = py ''k1'') (iter_all_tasks example_tasks) = [example_task ''t1'' None]"
proof -
  have h: "rewind_log (rev (filter (\<lambda>t. tk_context t = py ''k1'') example_tasks))" using example_log by simp
  have "rev (chronology (rev (filter (\<lambda>t. tk_context t = py ''k1'') example_tasks))) = [example_task ''t1'' None]"
    unfolding example_log(2)
    by (simp add: chronology_def example_tasks_def example_task_def extract_rewind_def chron_step_def before_id_def py_def)
  then show ?thesis using h visible_tasks_are_chronology [OF h] by simp
qed

section \<open>Rewinding restores the predecessor's checkpoint\<close>

lemma task_index_some:
  assumes "distinct (map tk_id ts)" and "j < length ts"
  shows "task_index ts (tk_id (ts ! j)) = Some j"
proof -
  have "distinct (map fst (rev (zip (map tk_id ts) [0..<length ts])))"
    using assms(1) by (simp add: rev_map [symmetric])
  moreover have "(tk_id (ts ! j), j) \<in> set (rev (zip (map tk_id ts) [0..<length ts]))"
    using assms(2) by (auto simp: set_zip intro!: exI [of _ j])
  ultimately show ?thesis unfolding task_index_def by (rule map_of_is_SomeI)
qed

lemma before_id_nth:
  assumes "distinct (map tk_id ts)" and "j < length ts"
  shows "before_id (tk_id (ts ! j)) ts = take j ts"
  unfolding before_id_def
proof (rule takeWhile_eq_take_P_nth)
  show "tk_id (ts ! i) \<noteq> tk_id (ts ! j)" if "i < j" "i < length ts" for i
    using assms that by (auto simp: distinct_conv_nth)
qed simp

lemma restore_state_before:
  assumes "distinct (map tk_id vs)" and "b \<in> set (map tk_id vs)"
  shows "restore_state now vs b = (if before_id b vs = [] then Inr empty_state
    else ebind (load_state now (tk_snapshot (last (before_id b vs)))) (\<lambda>st. case st of
      None \<Rightarrow> Inl (RewindUnavailable (py ''no state snapshot for task '' @ tk_id (last (before_id b vs)))) | Some s \<Rightarrow> Inr s))"
proof -
  obtain j where j: "j < length vs" "b = tk_id (vs ! j)" using assms(2) by (auto simp: in_set_conv_nth)
  have "last (take j vs) = vs ! (j - 1)" if "j \<noteq> 0"
    using that j by (subst last_conv_nth) auto
  then show ?thesis using j task_index_some [OF assms(1) j(1)] before_id_nth [OF assms(1) j(1)]
    by (auto simp: restore_state_def Let_def)
qed

lemma iter_tasks_subset: "set (iter_tasks d ts) \<subseteq> set ts"
proof (induction ts arbitrary: d)
  case (Cons t ts)
  have sub: "set (iter_tasks d' ts) \<subseteq> set (t # ts)" for d' using Cons.IH [of d'] by auto
  show ?case using sub by (auto split: option.splits list.splits)
qed simp

lemma list_filtered:
  "list_all_tasks True (filter (\<lambda>t. tk_context t = k) ts) = filter (\<lambda>t. tk_context t = k) (list_all_tasks True ts)"
proof -
  have "iter_tasks [] (filter (\<lambda>t. tk_context t = k) ts) = filter (\<lambda>t. tk_context t = k) (iter_tasks [] (filter (\<lambda>t. tk_context t = k) ts))"
    using iter_tasks_subset [of "[]" "filter (\<lambda>t. tk_context t = k) ts"] by (subst filter_True) auto
  also have "\<dots> = filter (\<lambda>t. tk_context t = k) (iter_tasks [] ts)" by (simp add: iter_tasks_context)
  finally show ?thesis by (simp add: list_all_tasks_def iter_all_tasks_def rev_filter)
qed

lemma chronology_distinct: "rewind_log xs \<Longrightarrow> distinct (map tk_id (chronology xs))"
proof (induction xs rule: rev_induct)
  case (snoc t xs)
  have d: "distinct (map tk_id (chronology xs))" using snoc rewind_log_snoc by blast
  show ?case
  proof (cases "extract_rewind t")
    case None
    then show ?thesis using d snoc.prems chronology_subset [of xs] by (auto simp: chron_step_def rewind_log_def)
  next
    case (Some b)
    then show ?thesis using d by (auto simp: chron_step_def before_id_def distinct_map distinct_takeWhile
        dest: set_takeWhileD intro: inj_on_subset)
  qed
qed simp

lemma visible_chronology:
  assumes "rewind_log (rev (filter (\<lambda>t. tk_context t = k) ts))"
  shows "filter (\<lambda>t. tk_context t = k) (list_all_tasks True ts) = chronology (rev (filter (\<lambda>t. tk_context t = k) ts))"
proof -
  have "filter (\<lambda>t. tk_context t = k) (list_all_tasks True ts) = rev (skip [] (filter (\<lambda>t. tk_context t = k) ts))"
    using iter_tasks_context [of k "[]" ts]
    by (simp add: list_all_tasks_def iter_all_tasks_def rev_filter [symmetric] stack_of_def)
  then show ?thesis using skip_is_cut [OF assms, of "[]"] by simp
qed

lemma task_index_mem: "task_index ts b = Some i \<Longrightarrow> i < length ts \<and> tk_id (ts ! i) = b"
  by (auto simp: task_index_def dest!: map_of_SomeD simp: set_zip)

text \<open>What a successful rewind did, in terms of the visible turns before it.\<close>

lemma rewind_conversation_result:
  assumes log: "rewind_log (rev (filter (\<lambda>t. tk_context t = c_context_id c) tasks))"
    and new: "m \<notin> set (map tk_id tasks)"
    and ok: "rewind_conversation now m b (tasks, c) = Inr (tasks', c')"
  shows "\<exists>s. filter (\<lambda>t. tk_context t = c_context_id c) (list_all_tasks True tasks')
      = takeWhile (\<lambda>t. tk_id t \<noteq> b) (filter (\<lambda>t. tk_context t = c_context_id c) (list_all_tasks True tasks))
    \<and> c_store c' = upsert_state (c_context_id c) (state_to_json s) (c_store c) \<and> \<not> c_active c' \<and> c_context_id c' = c_context_id c
    \<and> (case rev (filter (\<lambda>t. tk_context t = c_context_id c) (list_all_tasks True tasks')) of
         [] \<Rightarrow> s = empty_state
       | t # _ \<Rightarrow> load_state now (tk_snapshot t) = Inr (Some s))"
proof -
  let ?k = "c_context_id c"
  let ?F = "filter (\<lambda>t. tk_context t = ?k)"
  let ?V = "chronology (rev (?F tasks))"
  have V: "list_all_tasks True (?F tasks) = ?V" "?F (list_all_tasks True tasks) = ?V"
    using visible_chronology [OF log] by (simp_all add: list_filtered)
  have d: "distinct (map tk_id ?V)" using log by (rule chronology_distinct)
  let ?m = "\<lparr>tk_id = m, tk_context = ?k, tk_state = TASK_COMPLETED, tk_rewind = Some b, tk_snapshot = None, tk_events = [], tk_opener = None\<rparr>"
  obtain s i where b: "b \<noteq> []" "task_index ?V b = Some i" and s: "restore_state now ?V b = Inr s"
    and t': "tasks' = ?m # tasks" "c' = evict_session (c\<lparr>c_store := upsert_state ?k (state_to_json s) (c_store c)\<rparr>)"
    using ok by (auto simp: rewind_conversation_def V Let_def split: if_splits option.splits sum.splits exn.splits)
  have bV: "b \<in> set (map tk_id ?V)" using task_index_mem [OF b(2)] by auto
  have rw: "extract_rewind ?m = Some b" using b(1) by (cases b) (auto simp: extract_rewind_def)
  have log': "rewind_log (rev (?F tasks'))"
    using log new bV rw t' by (auto simp: rewind_log_log_ok log_ok_append chronology_def [symmetric])
  then have V': "?F (list_all_tasks True tasks') = before_id b ?V"
    using visible_chronology [OF log'] rw t' by (simp add: chron_step_def)
  have cs: "case rev (before_id b ?V) of [] \<Rightarrow> s = empty_state | t # _ \<Rightarrow> load_state now (tk_snapshot t) = Inr (Some s)"
  proof (cases "before_id b ?V" rule: rev_cases)
    case Nil
    then show ?thesis using s by (simp add: restore_state_before [OF d bV])
  next
    case (snoc vs t)
    then show ?thesis using s by (auto simp: restore_state_before [OF d bV] ebind_eq_Inr split: option.splits)
  qed
  have "c_store c' = upsert_state ?k (state_to_json s) (c_store c)" "\<not> c_active c'" "c_context_id c' = ?k"
    using t'(2) by (auto simp: evict_session_def)
  then show ?thesis using V V' cs by (intro exI [of _ s]) (simp add: before_id_def)
qed

text \<open>C40: a successful rewind leaves visible exactly the turns before the chosen one, stores the state those turns
  left (the checkpoint of the last of them, or the empty state when none is left), and evicts the session,
  so that the next message starts from that state.\<close>

theorem rewind_restores_checkpoint:
  assumes "rewind_log (rev (filter (\<lambda>t. tk_context t = c_context_id c) tasks))" and "m \<notin> set (map tk_id tasks)"
    and "rewind_conversation now m b (tasks, c) = Inr (tasks', c')"
  shows "\<exists>s. filter (\<lambda>t. tk_context t = c_context_id c) (list_all_tasks True tasks')
      = takeWhile (\<lambda>t. tk_id t \<noteq> b) (filter (\<lambda>t. tk_context t = c_context_id c) (list_all_tasks True tasks))
    \<and> map_of (c_store c') (c_context_id c) = Some (state_to_json s) \<and> \<not> c_active c'
    \<and> (case rev (filter (\<lambda>t. tk_context t = c_context_id c) (list_all_tasks True tasks')) of
         [] \<Rightarrow> s = empty_state
       | t # _ \<Rightarrow> load_state now (tk_snapshot t) = Inr (Some s))"
  using rewind_conversation_result [OF assms] by (auto simp: upsert_state_def pd.get_put)

text \<open>Rewinding the first turn of a conversation takes effect (the marker is stored, the state is reset) and
  is then answered with the error 404, because no turn is visible any more.\<close>

theorem rewind_of_first_turn_answers_404:
  assumes "rewind_log (rev (filter (\<lambda>t. tk_context t = c_context_id c) tasks))" and "m \<notin> set (map tk_id tasks)"
    and "rewind_conversation now m b (tasks, c) = Inr (tasks', c')"
    and "filter (\<lambda>t. tk_context t = c_context_id c) (list_all_tasks True tasks) = t # ts" and "tk_id t = b"
  shows "conversation_payload (tasks', c') = Inl (HTTPException 404 (py ''conversation not found''))
    \<and> map_of (c_store c') (c_context_id c) = Some (state_to_json empty_state)"
  using rewind_conversation_result [OF assms(1-3)] assms(4,5)
  by (auto simp: conversation_payload_def list_filtered upsert_state_def pd.get_put)

text \<open>Rewinding the second of two turns, and the first.\<close>

definition example_turns :: "Task list" where
  "example_turns = [example_task ''t2'' None, example_task ''t1'' None]"

definition example_rewind_ctx :: ctx where
  "example_rewind_ctx = (example_ctx empty_state)\<lparr>c_store := [(py ''k1'', JNull)], c_runner := False\<rparr>"

lemma example_two: "rewind_log (rev (filter (\<lambda>t. tk_context t = c_context_id example_rewind_ctx) example_turns))"
  by (simp add: rewind_log_log_ok example_turns_def example_task_def extract_rewind_def chron_step_def example_rewind_ctx_def
      example_ctx_def)

lemma example_two_visible:
  "filter (\<lambda>t. tk_context t = c_context_id example_rewind_ctx) (list_all_tasks True example_turns)
     = [example_task ''t1'' None, example_task ''t2'' None]"
  "list_all_tasks True (filter (\<lambda>t. tk_context t = py ''k1'') example_turns) = [example_task ''t1'' None, example_task ''t2'' None]"
  by (simp_all add: list_all_tasks_def iter_all_tasks_def example_task_def extract_rewind_def example_turns_def
      example_rewind_ctx_def example_ctx_def)

lemma example_rewind_second: "\<exists>tasks' c'. rewind_conversation [] (py ''m'') (py ''t2'') (example_turns, example_rewind_ctx) = Inr (tasks', c')"
proof -
  let ?s = "empty_state\<lparr>plan_id := py ''t1''\<rparr>"
  have "state_wf ?s" by (simp add: state_wf_def empty_state_def dict_wf_def)
  then have l: "load_state [] (Some (Some (state_to_json ?s))) = Inr (Some ?s)"
    using state_round_trip [of ?s "[]"] by (simp add: load_state_def empty_state_def)
  have "restore_state [] [example_task ''t1'' None, example_task ''t2'' None] (py ''t2'') = Inr ?s"
    "task_index [example_task ''t1'' None, example_task ''t2'' None] (py ''t2'') = Some 1"
    "is_human_turn (example_task ''t2'' None)" "map_of (c_store example_rewind_ctx) (py ''k1'') \<noteq> None"
    "c_context_id example_rewind_ctx = py ''k1''" "\<not> c_runner example_rewind_ctx"
    using l by (simp_all add: restore_state_def task_index_def example_task_def Let_def is_human_turn_def example_rewind_ctx_def example_ctx_def)
  then show ?thesis by (simp add: rewind_conversation_def example_two_visible(2) Let_def)
qed

lemma example_rewind_first: "\<exists>tasks' c'. rewind_conversation [] (py ''m'') (py ''t1'') (example_turns, example_rewind_ctx) = Inr (tasks', c')"
proof -
  have "restore_state [] [example_task ''t1'' None, example_task ''t2'' None] (py ''t1'') = Inr empty_state"
    "task_index [example_task ''t1'' None, example_task ''t2'' None] (py ''t1'') = Some 0"
    "is_human_turn (example_task ''t1'' None)" "map_of (c_store example_rewind_ctx) (py ''k1'') \<noteq> None"
    "c_context_id example_rewind_ctx = py ''k1''" "\<not> c_runner example_rewind_ctx"
    by (simp_all add: restore_state_def task_index_def example_task_def Let_def is_human_turn_def example_rewind_ctx_def example_ctx_def)
  then show ?thesis by (simp add: rewind_conversation_def example_two_visible(2) Let_def)
qed

lemma example_marker_new: "py ''m'' \<notin> set (map tk_id example_turns)"
  by (simp add: example_turns_def example_task_def)

theorem rewind_restores_checkpoint_witness:
  "\<exists>tasks' c'. rewind_conversation [] (py ''m'') (py ''t2'') (example_turns, example_rewind_ctx) = Inr (tasks', c')
    \<and> filter (\<lambda>t. tk_context t = c_context_id example_rewind_ctx) (list_all_tasks True tasks') = [example_task ''t1'' None]"
proof -
  obtain tasks' c' where r: "rewind_conversation [] (py ''m'') (py ''t2'') (example_turns, example_rewind_ctx) = Inr (tasks', c')"
    using example_rewind_second by blast
  from rewind_restores_checkpoint [OF example_two example_marker_new r]
  have "filter (\<lambda>t. tk_context t = c_context_id example_rewind_ctx) (list_all_tasks True tasks')
      = takeWhile (\<lambda>t. tk_id t \<noteq> py ''t2'') [example_task ''t1'' None, example_task ''t2'' None]"
    unfolding example_two_visible(1) by blast
  then show ?thesis using r by (simp add: example_task_def)
qed

theorem rewind_of_first_turn_answers_404_witness:
  "\<exists>tasks' c'. rewind_conversation [] (py ''m'') (py ''t1'') (example_turns, example_rewind_ctx) = Inr (tasks', c')
    \<and> conversation_payload (tasks', c') = Inl (HTTPException 404 (py ''conversation not found''))"
proof -
  obtain tasks' c' where r: "rewind_conversation [] (py ''m'') (py ''t1'') (example_turns, example_rewind_ctx) = Inr (tasks', c')"
    using example_rewind_first by blast
  have "tk_id (example_task ''t1'' None) = py ''t1''" by (simp add: example_task_def)
  from rewind_of_first_turn_answers_404 [OF example_two example_marker_new r example_two_visible(1) this]
  show ?thesis using r by blast
qed

section \<open>Restart recovery\<close>

definition recovered :: "NodeState \<Rightarrow> NodeState" where
  "recovered n = (if n_status n \<in> {SUBMITTED, WORKING}
     then n\<lparr>n_status := (if n_a2a_task_id n = None \<or> n_a2a_task_id n = Some [] then PENDING else RECOVER)\<rparr> else n)"

lemma recover_node_total: "recover_node n = Inr (recovered n)"
  by (cases "n_status n") (auto simp: recover_node_def recovered_def apply_transition_def can_transition_def ACTIVE_NODE_STATUSES_def)

text \<open>C39: after a restart \<open>recover_session\<close> never fails and re-attaches the plan: every node that was in flight
  becomes \<open>recover\<close> when its remote task is known and \<open>pending\<close> otherwise, every other node is unchanged, no
  node is left in flight without a task, the state is stored, and the runner is started.\<close>

theorem recover_session_reattaches:
  "\<exists>c'. recover_session tasks c = Inr c' \<and> c_runner c' \<and>
     nodes (c_state c') = map (\<lambda>(k, n). (k, if n_status n \<in> {SUBMITTED, WORKING}
       then n\<lparr>n_status := (if n_a2a_task_id n = None \<or> n_a2a_task_id n = Some [] then PENDING else RECOVER)\<rparr> else n))
       (nodes (c_state c))
     \<and> active_nodes (c_state c') = []
     \<and> map_of (c_store c') (c_context_id c) = Some (state_to_json (c_state c'))"
proof -
  obtain expired s1 where n: "normalize_interventions (c_state c) = (expired, s1)" by force
  then have s1: "nodes s1 = nodes (c_state c)" using expire_where_frame(1) [of "\<lambda>_. True" "c_state c"]
    by (simp add: normalize_interventions_def)
  let ?c1 = "emit_interventions_expired expired (set_state s1 c)"
  have cid: "c_context_id ?c1 = c_context_id c"
    by (simp add: emit_interventions_expired_def emit_state_delta_def Let_def)
  obtain msgs comp where r: "rebuild (map (\<lambda>t. (tk_id t, tk_events t)) tasks) (c_task_id ?c1) (c_compaction ?c1) = (msgs, comp)"
    by force
  have e: "emap (\<lambda>(k, n). ebind (recover_node n) (\<lambda>n'. Inr (k, n'))) (nodes s1)
      = Inr (map (\<lambda>(k, n). (k, recovered n)) (nodes (c_state c)))"
    unfolding s1 by (rule emap_total) (auto simp: recover_node_total)
  let ?s = "(c_state ?c1)\<lparr>nodes := map (\<lambda>(k, n). (k, recovered n)) (nodes (c_state c))\<rparr>"
  let ?c2 = "?c1\<lparr>c_messages := msgs, c_compaction := comp, c_state := ?s\<rparr>"
  have c': "recover_session tasks c = Inr (start_runner (persist ?c2))"
    using n r e by (simp add: recover_session_def)
  have "n_status (recovered n) \<notin> ACTIVE_NODE_STATUSES" for n
    by (auto simp: recovered_def ACTIVE_NODE_STATUSES_def split: if_splits)
  then have a: "active_nodes ?s = []"
    by (auto simp: active_nodes_def filter_empty_conv)
  have st: "c_store (start_runner c) = c_store c" for c by (simp add: start_runner_def)
  have "map_of (c_store (start_runner (persist ?c2))) (c_context_id c) = Some (state_to_json ?s)"
    using persist_stores [of ?c2] cid by (simp add: st)
  moreover have "c_runner (start_runner x)" for x by (simp add: start_runner_def)
  ultimately show ?thesis using c' a by (auto simp: recovered_def)
qed

lemma recover_loop_props:
  "recover_loop now stored seen ts = Inr rs \<Longrightarrow> distinct (map tk_context rs) \<and> set rs \<subseteq> set ts
     \<and> (\<forall>t \<in> set rs. tk_state t \<notin> TERMINAL_TASK_STATES \<and> tk_context t \<notin> set seen)
     \<and> (\<forall>t \<in> set ts. tk_state t \<notin> TERMINAL_TASK_STATES \<longrightarrow> tk_context t \<in> set seen \<union> tk_context ` set rs
          \<or> (load_state now (tk_snapshot t) = Inr None \<and> \<not> stored (tk_context t)))"
proof (induction now stored seen ts arbitrary: rs rule: recover_loop.induct)
  case (2 now stored seen t ts)
  consider (skip) "tk_state t \<in> TERMINAL_TASK_STATES \<or> tk_context t \<in> set seen"
    | (bare) "tk_state t \<notin> TERMINAL_TASK_STATES" "tk_context t \<notin> set seen" "load_state now (tk_snapshot t) = Inr None" "\<not> stored (tk_context t)"
    | (hit) st where "tk_state t \<notin> TERMINAL_TASK_STATES" "tk_context t \<notin> set seen" "load_state now (tk_snapshot t) = Inr st"
        "\<not> (st = None \<and> \<not> stored (tk_context t))"
  proof (cases "tk_state t \<in> TERMINAL_TASK_STATES \<or> tk_context t \<in> set seen")
    case False
    then obtain st where "load_state now (tk_snapshot t) = Inr st" using "2.prems" by (auto simp: ebind_eq_Inr split: if_splits)
    then show ?thesis using False bare hit by (cases "st = None \<and> \<not> stored (tk_context t)") auto
  qed (rule skip)
  then show ?case
  proof cases
    case skip
    then have "recover_loop now stored seen ts = Inr rs" using "2.prems" by (auto split: if_splits)
    then have "distinct (map tk_context rs) \<and> set rs \<subseteq> set ts
     \<and> (\<forall>u \<in> set rs. tk_state u \<notin> TERMINAL_TASK_STATES \<and> tk_context u \<notin> set seen)
     \<and> (\<forall>u \<in> set ts. tk_state u \<notin> TERMINAL_TASK_STATES \<longrightarrow> tk_context u \<in> set seen \<union> tk_context ` set rs
          \<or> (load_state now (tk_snapshot u) = Inr None \<and> \<not> stored (tk_context u)))"
      using "2.IH"(1) "2.IH"(2) skip by (cases "tk_state t \<in> TERMINAL_TASK_STATES") simp_all
    then show ?thesis using skip by auto
  next
    case bare
    then have "recover_loop now stored seen ts = Inr rs" using "2.prems" by simp
    then have "distinct (map tk_context rs) \<and> set rs \<subseteq> set ts
     \<and> (\<forall>u \<in> set rs. tk_state u \<notin> TERMINAL_TASK_STATES \<and> tk_context u \<notin> set seen)
     \<and> (\<forall>u \<in> set ts. tk_state u \<notin> TERMINAL_TASK_STATES \<longrightarrow> tk_context u \<in> set seen \<union> tk_context ` set rs
          \<or> (load_state now (tk_snapshot u) = Inr None \<and> \<not> stored (tk_context u)))"
      using "2.IH"(3) [OF bare(1,2,3) conjI [OF refl bare(4)]] by blast
    then show ?thesis using bare by auto
  next
    case hit
    then obtain rs' where rs': "recover_loop now stored (tk_context t # seen) ts = Inr rs'" "rs = t # rs'"
      using "2.prems" by (auto simp: ebind_eq_Inr)
    have "distinct (map tk_context rs') \<and> set rs' \<subseteq> set ts
     \<and> (\<forall>u \<in> set rs'. tk_state u \<notin> TERMINAL_TASK_STATES \<and> tk_context u \<notin> set (tk_context t # seen))
     \<and> (\<forall>u \<in> set ts. tk_state u \<notin> TERMINAL_TASK_STATES \<longrightarrow> tk_context u \<in> set (tk_context t # seen) \<union> tk_context ` set rs'
          \<or> (load_state now (tk_snapshot u) = Inr None \<and> \<not> stored (tk_context u)))"
      using "2.IH"(4) [OF hit(1,2,3,4) rs'(1)] .
    then show ?thesis using hit rs'(2) by auto
  qed
qed simp

text \<open>Recovery after a restart re-attaches every conversation with unfinished visible work exactly once: the
  triggered tasks are visible, not terminal, one per conversation, and every conversation with a visible
  non-terminal task whose state can be restored (from its snapshot or the contexts table) is among them.\<close>

theorem recover_once_per_conversation:
  assumes "recover_loop now stored [] (iter_all_tasks tasks) = Inr rs"
  shows "distinct (map tk_context rs) \<and> set rs \<subseteq> set (iter_all_tasks tasks)
    \<and> (\<forall>t \<in> set rs. tk_state t \<notin> {TASK_COMPLETED, TASK_CANCELED, TASK_FAILED, TASK_REJECTED})
    \<and> (\<forall>t \<in> set (iter_all_tasks tasks). tk_state t \<notin> {TASK_COMPLETED, TASK_CANCELED, TASK_FAILED, TASK_REJECTED}
        \<longrightarrow> tk_context t \<in> tk_context ` set rs \<or> (load_state now (tk_snapshot t) = Inr None \<and> \<not> stored (tk_context t)))"
  using recover_loop_props [OF assms] by (simp add: TERMINAL_TASK_STATES_def)

theorem recover_once_per_conversation_witness:
  "\<exists>rs. recover_loop [] (\<lambda>_. True) [] (iter_all_tasks [(example_task ''t2'' None)\<lparr>tk_state := TASK_WORKING, tk_snapshot := None\<rparr>,
      (example_task ''t1'' None)\<lparr>tk_state := TASK_WORKING, tk_snapshot := None\<rparr>]) = Inr rs \<and> length rs = 1 \<and> distinct (map tk_context rs)"
proof -
  let ?ts = "[(example_task ''t2'' None)\<lparr>tk_state := TASK_WORKING, tk_snapshot := None\<rparr>,
      (example_task ''t1'' None)\<lparr>tk_state := TASK_WORKING, tk_snapshot := None\<rparr>]"
  have r: "recover_loop [] (\<lambda>_. True) [] (iter_all_tasks ?ts) = Inr [(example_task ''t2'' None)\<lparr>tk_state := TASK_WORKING, tk_snapshot := None\<rparr>]"
    by (simp add: iter_all_tasks_def example_task_def extract_rewind_def TERMINAL_TASK_STATES_def load_state_def)
  show ?thesis using recover_once_per_conversation [OF r] r by auto
qed

end
