(* ===== verification/Message_Flow.thy ===== *)
theory Message_Flow
  imports Planner Recovery Plan_Flow
begin

text \<open>
  One inbound message, \<open>orchestration/flows/message.py\<close> under \<open>execute\<close> of \<open>a2a/executor.py\<close>: answers to
  pending questions, a message for the running room (enqueue, follow-up, interrupt, new plan) or a new
  plan.  The request is the record \<open>request\<close>; what the SDK reads out of it (\<open>get_user_input\<close>, the room
  extension) are its fields.  The environment of a turn (the planner's model, the pydantic validation of
  an answer payload) is a parameter.
\<close>

section \<open>Definitions\<close>

record request =
  rq_recover :: bool
  rq_text :: pystr
  rq_parts :: "message_part list option"
  rq_room :: RoomOptions
  rq_has_task :: bool

record turn_env =
  te_planner :: planner_env
  te_validate :: "json \<Rightarrow> QuestionResponse option"
  te_tasks :: "Task list"

type_synonym message_state = "ctx \<times> request"

datatype message_handler = H_prepare_inbound | H_do_recover | H_classify_inbound | H_do_reject | H_do_answers
  | H_do_reemit_questions | H_classify_room | H_do_complete | H_do_plan_and_launch | H_do_noop | H_do_enqueue
  | H_do_spawn_followup | H_do_interrupt | H_do_new_plan

definition no_room :: RoomOptions where
  "no_room = \<lparr>ro_mentions = [], ro_quote_id = None, ro_interrupt = False\<rparr>"

text \<open>\<open>_build_ctx\<close>: a fresh turn context on the session.\<close>

definition build_ctx :: "ctx \<Rightarrow> ctx" where
  "build_ctx c = c\<lparr>c_text := [], c_room := no_room, c_responses := [], c_malformed := None, c_needs_runner := False,
     c_quote_id := None, c_target := None\<rparr>"

definition add_mention :: "pystr \<Rightarrow> pystr list \<Rightarrow> pystr list" where
  "add_mention name mentions = (if name \<in> set mentions then mentions else mentions @ [name])"

definition with_responses :: "(json \<Rightarrow> QuestionResponse option) \<Rightarrow> message_part list option \<Rightarrow> ctx \<Rightarrow> exn + ctx" where
  "with_responses validate parts c = (case parts of
      None \<Rightarrow> Inr c
    | Some ps \<Rightarrow> (case parse_question_response validate ps of
        Inr rs \<Rightarrow> Inr (c\<lparr>c_responses := rs\<rparr>)
      | Inl (ValueError m) \<Rightarrow> Inr (c\<lparr>c_malformed := Some m\<rparr>)
      | Inl e \<Rightarrow> Inl e))"

definition prepare_inbound :: "turn_env \<Rightarrow> message_state \<Rightarrow> exn + (step \<times> message_state)" where
  "prepare_inbound env = (\<lambda>(c, rq).
     if rq_recover rq then Inr (Route (py ''recover''), c, rq)
     else let c1 = c\<lparr>c_text := str_strip (rq_text rq)\<rparr> in
       ebind (with_responses (te_validate env) (rq_parts rq) c1) (\<lambda>c2.
         let c3 = (if rq_has_task rq then c2 else emit TaskCreated c2);
             room = (if rq_parts rq = None then no_room else rq_room rq);
             mentions = fold add_mention (find_mentions (c_text c3)) (ro_mentions room)
         in Inr (Route (py ''ready''), c3\<lparr>c_room := room\<lparr>ro_mentions := mentions\<rparr>\<rparr>, rq)))"

definition do_recover :: "turn_env \<Rightarrow> message_state \<Rightarrow> exn + (step \<times> message_state)" where
  "do_recover env = (\<lambda>(c, rq). ebind (recover_session (te_tasks env) c) (\<lambda>c1. Inr (Outcome END, c1, rq)))"

definition do_reject :: "message_state \<Rightarrow> exn + (step \<times> message_state)" where
  "do_reject = (\<lambda>(c, rq). Inr (Outcome END,
     emit_intervention_rejected [] (case c_malformed c of None \<Rightarrow> [] | Some m \<Rightarrow> m) c, rq))"

fun answer_all :: "QuestionResponse list \<Rightarrow> bool \<times> ctx \<Rightarrow> exn + (bool \<times> ctx)" where
  "answer_all [] (resolved, c) = Inr (resolved, c)"
| "answer_all (r # rs) (resolved, c) = ebind (answer_intervention (qr_intervention_id r) (qr_answer r) c)
     (\<lambda>(ok, c1). answer_all rs (resolved \<or> ok, c1))"

definition do_answers :: "message_state \<Rightarrow> exn + (step \<times> message_state)" where
  "do_answers = (\<lambda>(c, rq). ebind (answer_all (c_responses c) (False, c)) (\<lambda>(resolved, c1).
     if \<not> resolved then Inr (Outcome END, c1, rq)
     else let c2 = (if pending_interventions (c_state c1) \<noteq> [] then emit_pending_questions c1 else c1)
          in Inr (Outcome END, start_runner (c2\<lparr>c_wake := True\<rparr>), rq)))"

definition do_reemit_questions :: "message_state \<Rightarrow> exn + (step \<times> message_state)" where
  "do_reemit_questions = (\<lambda>(c, rq). Inr (Outcome END,
     emit_pending_questions (if c_text c \<noteq> [] then record_message USER (c_text c) c else c), rq))"

text \<open>\<open>TaskUpdater\<close> sends plain status updates, not clamped by the pending questions.\<close>

definition do_complete :: "message_state \<Rightarrow> exn + (step \<times> message_state)" where
  "do_complete = (\<lambda>(c, rq). Inr (Outcome END, evict_session (emit (StatusUpdate TASK_COMPLETED [] None None) c), rq))"

definition do_plan_and_launch :: "turn_env \<Rightarrow> message_state \<Rightarrow> exn + (step \<times> message_state)" where
  "do_plan_and_launch env = (\<lambda>(c, rq).
     ebind (plan_and_launch (te_planner env) (c_text c) (ro_mentions (c_room c)) (emit (StatusUpdate TASK_WORKING [] None None) c))
       (\<lambda>c1. Inr (Outcome END, c1, rq)))"

definition finish :: "ctx \<Rightarrow> request \<Rightarrow> exn + (step \<times> message_state)" where
  "finish c rq = Inr (Outcome END, if c_needs_runner c then start_runner c else c, rq)"

definition do_enqueue :: "message_state \<Rightarrow> exn + (step \<times> message_state)" where
  "do_enqueue = (\<lambda>(c, rq). case c_target c of
      None \<Rightarrow> finish c rq
    | Some k \<Rightarrow> finish (persist (record_message USER (c_text c)
          (set_state (snd (enqueue (c_now c (c_tick c)) (c_state c) k (c_text c) (py ''user'') (c_quote_id c)))
             (c\<lparr>c_tick := Suc (c_tick c)\<rparr>)))) rq)"

definition do_spawn_followup :: "message_state \<Rightarrow> exn + (step \<times> message_state)" where
  "do_spawn_followup = (\<lambda>(c, rq). case c_target c of
      None \<Rightarrow> finish c rq
    | Some k \<Rightarrow> with_node k c (\<lambda>n.
        ebind (spawn_followup_node (c_text c) k (n_agent_name n) [k] (record_message USER (c_text c) c)) (\<lambda>c1. finish c1 rq)))"

definition do_interrupt :: "message_state \<Rightarrow> exn + (step \<times> message_state)" where
  "do_interrupt = (\<lambda>(c, rq). case c_target c of
      None \<Rightarrow> finish c rq
    | Some k \<Rightarrow> with_node k c (\<lambda>n.
        let c1 = request_cancel n (record_message USER (c_text c) c) in
        ebind (apply_transition_at (c_state c1) k CANCELED) (\<lambda>s1.
          let blocked = map n_id (blocked_nodes s1) in
          ebind (invalidate_all blocked s1) (\<lambda>s2.
            ebind (spawn_followup_node (c_text c) k (n_agent_name n) []
                     (emit_state_delta (canceled_delta n # invalidated_delta blocked) [] [] (set_state s2 c1)))
              (\<lambda>c2. finish c2 rq)))))"

definition do_new_plan :: "turn_env \<Rightarrow> message_state \<Rightarrow> exn + (step \<times> message_state)" where
  "do_new_plan env = (\<lambda>(c, rq). ebind (plan_and_launch (te_planner env) (c_text c) [] c) (\<lambda>c1. finish c1 rq))"

definition classify_inbound :: "message_state \<Rightarrow> exn + (step \<times> message_state)" where
  "classify_inbound = (\<lambda>(c, rq).
     if c_malformed c \<noteq> None then Inr (Route (py ''malformed''), c, rq)
     else if c_responses c \<noteq> [] then Inr (Route (py ''answers''), c, rq)
     else if pending_interventions (c_state c) \<noteq> [] then Inr (Route (py ''unanswered_pending''), c, rq)
     else if c_runner c then Inr (Route (py ''room''), c, rq)
     else if has_pending_work (c_state c) then Inr (Route (py ''room''), c\<lparr>c_needs_runner := True\<rparr>, rq)
     else if c_text c = [] then Inr (Route (py ''empty''), c, rq)
     else Inr (Route (py ''plan''), c, rq))"

definition quoted_node :: "pystr \<Rightarrow> ctx \<Rightarrow> NodeState option" where
  "quoted_node q c = List.find (\<lambda>n. n_id n = q \<or> c_task_id c @ py '':'' @ n_id n = q) (d_values (nodes (c_state c)))"

definition room_target :: "OrchestrationState \<Rightarrow> NodeState option" where
  "room_target s = (case active_nodes s of
      n # _ \<Rightarrow> Some n
    | [] \<Rightarrow> List.find (\<lambda>n. n_status n = PENDING \<or> n_status n = READY) (d_values (nodes s)))"

text \<open>The rest of \<open>_classify_room\<close> once no quoted node decided: interrupt, target or a new plan.\<close>

definition classify_unquoted :: "pystr option \<Rightarrow> bool \<Rightarrow> message_state \<Rightarrow> exn + (step \<times> message_state)" where
  "classify_unquoted quote interrupt = (\<lambda>(c, rq). case (interrupt, active_nodes (c_state c)) of
      (True, n # _) \<Rightarrow> Inr (Route (py ''interrupt''), c\<lparr>c_target := Some (n_id n)\<rparr>, rq)
    | _ \<Rightarrow> (case room_target (c_state c) of
        Some n \<Rightarrow> Inr (Route (py ''target''), c\<lparr>c_quote_id := quote, c_target := Some (n_id n)\<rparr>, rq)
      | None \<Rightarrow> Inr (Route (py ''new_plan''), c, rq)))"

definition classify_room :: "message_state \<Rightarrow> exn + (step \<times> message_state)" where
  "classify_room = (\<lambda>(c, rq).
     if c_text c = [] then Inr (Route (py ''noop''), c, rq)
     else let interrupt = ro_interrupt (c_room c);
              quote = (case ro_quote_id (c_room c) of Some (x # xs) \<Rightarrow> Some (x # xs) | _ \<Rightarrow> None);
              quoted = (case quote of Some q \<Rightarrow> if interrupt then None else quoted_node q c | None \<Rightarrow> None)
          in case quoted of
               Some n \<Rightarrow>
                 (if n_status n \<in> ACTIVE_NODE_STATUSES
                    then Inr (Route (py ''quote_active''), c\<lparr>c_quote_id := quote, c_target := Some (n_id n)\<rparr>, rq)
                  else if n_status n = COMPLETED
                    then Inr (Route (py ''quote_completed''), c\<lparr>c_target := Some (n_id n)\<rparr>, rq)
                  else classify_unquoted quote interrupt (c, rq))
             | None \<Rightarrow> classify_unquoted quote interrupt (c, rq))"

fun message_call :: "turn_env \<Rightarrow> message_handler \<Rightarrow> message_state \<Rightarrow> exn + (step \<times> message_state)" where
  "message_call env H_prepare_inbound m = prepare_inbound env m"
| "message_call env H_do_recover m = do_recover env m"
| "message_call env H_classify_inbound m = classify_inbound m"
| "message_call env H_do_reject m = do_reject m"
| "message_call env H_do_answers m = do_answers m"
| "message_call env H_do_reemit_questions m = do_reemit_questions m"
| "message_call env H_classify_room m = classify_room m"
| "message_call env H_do_complete m = do_complete m"
| "message_call env H_do_plan_and_launch m = do_plan_and_launch env m"
| "message_call env H_do_noop m = finish (fst m) (snd m)"
| "message_call env H_do_enqueue m = do_enqueue m"
| "message_call env H_do_spawn_followup m = do_spawn_followup m"
| "message_call env H_do_interrupt m = do_interrupt m"
| "message_call env H_do_new_plan m = do_new_plan env m"

definition message_flow :: "message_handler Flow" where
  "message_flow = \<lparr>f_name = py ''message_flow'', f_start = H_prepare_inbound, f_edges =
     [edge H_prepare_inbound H_do_recover [''recover''],
      edge H_prepare_inbound H_classify_inbound [''ready''],
      edge H_classify_inbound H_do_reject [''malformed''],
      edge H_classify_inbound H_do_answers [''answers''],
      edge H_classify_inbound H_do_reemit_questions [''unanswered_pending''],
      edge H_classify_inbound H_classify_room [''room''],
      edge H_classify_inbound H_do_complete [''empty''],
      edge H_classify_inbound H_do_plan_and_launch [''plan''],
      edge H_classify_room H_do_noop [''noop''],
      edge H_classify_room H_do_enqueue [''quote_active'', ''target''],
      edge H_classify_room H_do_spawn_followup [''quote_completed''],
      edge H_classify_room H_do_interrupt [''interrupt''],
      edge H_classify_room H_do_new_plan [''new_plan'']]\<rparr>"

fun message_label :: "message_handler \<Rightarrow> pystr" where
  "message_label H_prepare_inbound = py ''_prepare_inbound''"
| "message_label H_do_recover = py ''_do_recover''"
| "message_label H_classify_inbound = py ''_classify_inbound''"
| "message_label H_do_reject = py ''_do_reject''"
| "message_label H_do_answers = py ''_do_answers''"
| "message_label H_do_reemit_questions = py ''_do_reemit_questions''"
| "message_label H_classify_room = py ''_classify_room''"
| "message_label H_do_complete = py ''_do_complete''"
| "message_label H_do_plan_and_launch = py ''_do_plan_and_launch''"
| "message_label H_do_noop = py ''_do_noop''"
| "message_label H_do_enqueue = py ''_do_enqueue''"
| "message_label H_do_spawn_followup = py ''_do_spawn_followup''"
| "message_label H_do_interrupt = py ''_do_interrupt''"
| "message_label H_do_new_plan = py ''_do_new_plan''"

fun message_literals :: "message_handler \<Rightarrow> pystr list" where
  "message_literals H_prepare_inbound = [py ''recover'', py ''ready'']"
| "message_literals H_classify_inbound =
     [py ''malformed'', py ''answers'', py ''unanswered_pending'', py ''room'', py ''empty'', py ''plan'']"
| "message_literals H_classify_room =
     [py ''quote_active'', py ''quote_completed'', py ''interrupt'', py ''target'', py ''new_plan'', py ''noop'']"
| "message_literals _ = []"

definition run_message :: "turn_env \<Rightarrow> request \<Rightarrow> ctx \<Rightarrow> (exn + (FlowOutcome \<times> message_state)) option" where
  "run_message env rq c = flow_run message_flow (message_call env) (build_ctx c, rq)"

text \<open>\<open>ChoirWorksAgentExecutor.execute\<close>: boot the session, rebuild its history when it has none, route.\<close>

definition execute :: "turn_env \<Rightarrow> pystr \<Rightarrow> request \<Rightarrow> ctx \<Rightarrow> (exn + (FlowOutcome \<times> message_state)) option" where
  "execute env task_id rq c = (case ensure_session task_id c of
      Inl e \<Rightarrow> Some (Inl e)
    | Inr c1 \<Rightarrow>
       (let c2 = (if c_messages c1 \<noteq> [] then c1
                  else let (msgs, comp) = rebuild (map (\<lambda>t. (tk_id t, tk_events t)) (te_tasks env)) task_id (c_compaction c1)
                       in c1\<lparr>c_messages := msgs, c_compaction := comp\<rparr>)
        in run_message env rq c2))"

section \<open>The flow is well formed and returns\<close>

lemma message_flow_valid: "flow_validate message_label message_literals message_flow = Inr ()"
  by (simp add: flow_validate_def message_flow_def edge_def reachable_def reach_loop.simps flow_nodes_def fromkeys_def
      target_for_def DEFAULT_def count_defaults_def)

fun message_rank :: "message_handler \<Rightarrow> nat" where
  "message_rank H_prepare_inbound = 3"
| "message_rank H_classify_inbound = 2"
| "message_rank H_classify_room = 1"
| "message_rank _ = 0"

lemma run_message_returns: "\<exists>r. run_message env rq c = Some r"
  unfolding run_message_def
  by (rule ranked_flow_returns [of _ message_rank]) (auto simp: message_flow_def edge_def)

lemma message_targets [simp]:
  "target_for message_flow H_prepare_inbound (py ''recover'') = Some H_do_recover"
  "target_for message_flow H_prepare_inbound (py ''ready'') = Some H_classify_inbound"
  "target_for message_flow H_classify_inbound (py ''malformed'') = Some H_do_reject"
  "target_for message_flow H_classify_inbound (py ''answers'') = Some H_do_answers"
  "target_for message_flow H_classify_inbound (py ''unanswered_pending'') = Some H_do_reemit_questions"
  "target_for message_flow H_classify_inbound (py ''room'') = Some H_classify_room"
  "target_for message_flow H_classify_inbound (py ''empty'') = Some H_do_complete"
  "target_for message_flow H_classify_inbound (py ''plan'') = Some H_do_plan_and_launch"
  "target_for message_flow H_classify_room (py ''noop'') = Some H_do_noop"
  "target_for message_flow H_classify_room (py ''quote_active'') = Some H_do_enqueue"
  "target_for message_flow H_classify_room (py ''target'') = Some H_do_enqueue"
  "target_for message_flow H_classify_room (py ''quote_completed'') = Some H_do_spawn_followup"
  "target_for message_flow H_classify_room (py ''interrupt'') = Some H_do_interrupt"
  "target_for message_flow H_classify_room (py ''new_plan'') = Some H_do_new_plan"
  by (simp_all add: target_for_def message_flow_def edge_def DEFAULT_def)

end
