(* ===== verification/Runner.thy ===== *)
theory Runner
  imports Remote Plan_Flow Message_Flow
begin

text \<open>
  The scheduler, \<open>orchestration/execution/runner.py\<close>: one round under the lock (retry, settle, dispatch),
  what it does with a finished task, and its end; and the cancellation of a turn (\<open>cancel\<close> of
  \<open>a2a/executor.py\<close>).  A running asyncio task is its number and its node in \<open>c_node_tasks\<close> or
  \<open>c_settle_tasks\<close>; the waiting between two rounds is the choice of the next event.
\<close>

section \<open>One round\<close>

definition retry_one :: "int \<Rightarrow> pystr \<Rightarrow> OrchestrationState \<Rightarrow> exn + OrchestrationState" where
  "retry_one max_attempts k s = (case map_of (nodes s) k of
      None \<Rightarrow> Inl (KeyError k)
    | Some n \<Rightarrow> (if can_retry n max_attempts
        then ebind (apply_transition_at s k PENDING) (\<lambda>s1.
          Inr (s1\<lparr>nodes := d_modify k (\<lambda>n. n\<lparr>n_error := None\<rparr>) (nodes s1)\<rparr>))
        else Inr s))"

definition retry_failed :: "int \<Rightarrow> OrchestrationState \<Rightarrow> exn + OrchestrationState" where
  "retry_failed max_attempts s = efold (retry_one max_attempts) (map n_id (failed_nodes s)) s"

definition has_active_helper :: "OrchestrationState \<Rightarrow> pystr \<Rightarrow> bool" where
  "has_active_helper s k = list_ex (\<lambda>n. n_derived n \<and> n_assist_requested_by n = Some k
     \<and> n_status n \<in> ACTIVE_NODE_STATUSES \<union> PENDING_NODE_STATUSES \<union> {INPUT_REQUIRED}) (d_values (nodes s))"

text \<open>\<open>asyncio.create_task\<close> and the entry in the runtime's dictionary.\<close>

definition spawn_node_task :: "pystr \<Rightarrow> ctx \<Rightarrow> ctx" where
  "spawn_node_task k c = c\<lparr>c_node_tasks := c_node_tasks c @ [(c_next_task c, k)], c_next_task := Suc (c_next_task c)\<rparr>"

definition spawn_settle_task :: "pystr \<Rightarrow> ctx \<Rightarrow> ctx" where
  "spawn_settle_task k c = c\<lparr>c_settle_tasks := c_settle_tasks c @ [(c_next_task c, k)], c_next_task := Suc (c_next_task c)\<rparr>"

definition spawn_settlements :: "ctx \<Rightarrow> ctx" where
  "spawn_settlements c = (let s = c_state c; settled = map snd (c_settle_tasks c) in
     fold (\<lambda>n. spawn_settle_task (n_id n))
       (filter (\<lambda>n. n_id n \<notin> set settled \<and> pending_intervention_for s (n_id n) = None \<and> \<not> has_active_helper s (n_id n))
          (input_required_nodes s)) c)"

definition node_mode_of :: "NodeState \<Rightarrow> node_mode" where
  "node_mode_of n = (if n_status n = RECOVER then M_recover else if n_status n = READY then M_continue else M_dispatch)"

definition free_slots :: "ctx \<Rightarrow> nat" where
  "free_slots c = nat (max 0 (cfg_max_parallel (c_config c) - int (length (c_node_tasks c))))"

text \<open>The nodes of this round with their modes, read before any status changes.\<close>

definition dispatch_batch :: "ctx \<Rightarrow> (pystr \<times> node_mode) list" where
  "dispatch_batch c = map (\<lambda>n. (n_id n, node_mode_of n)) (take (free_slots c) (ready_nodes (c_state c)))"

definition submit_one :: "pystr \<times> node_mode \<Rightarrow> OrchestrationState \<Rightarrow> exn + OrchestrationState" where
  "submit_one = (\<lambda>(k, mode) s. if mode = M_recover then Inr s else apply_transition_at s k SUBMITTED)"

definition announce_one :: "pystr \<times> node_mode \<Rightarrow> ctx \<Rightarrow> ctx" where
  "announce_one = (\<lambda>(k, mode) c. case map_of (nodes (c_state c)) k of
      None \<Rightarrow> c
    | Some n \<Rightarrow> (if mode \<noteq> M_dispatch \<or> n_derived n \<or> n_attempt n \<noteq> 0 then c
        else emit_function_call (ft_name call_subagent_tool)
               (call_subagent_args (py ''assistant'') (n_agent_name n) (if n_input_text n = [] then n_name n else n_input_text n))
               (dump_result call_subagent_dump \<lparr>fr_success = True, fr_data = None, fr_error = None\<rparr>) [] TASK_WORKING c))"

definition runner_round :: "ctx \<Rightarrow> exn + ctx" where
  "runner_round c = ebind (retry_failed (cfg_max_node_attempts (c_config c)) (c_state c)) (\<lambda>s1.
     let c1 = spawn_settlements (set_state s1 (c\<lparr>c_wake := False\<rparr>));
         batch = dispatch_batch c1
     in ebind (efold submit_one batch (c_state c1)) (\<lambda>s2.
          let c2 = fold (\<lambda>(k, mode). spawn_node_task k) batch (fold announce_one batch (set_state s2 c1))
          in Inr (if batch \<noteq> [] then persist c2 else c2)))"

section \<open>Finished tasks and the end of the runner\<close>

text \<open>A node task that ended, with the text of its exception if it raised; of a node that is no longer in the
  plan only the delta is visible.\<close>

definition finish_node_task :: "nat \<Rightarrow> pystr option \<Rightarrow> ctx \<Rightarrow> exn + ctx" where
  "finish_node_task i exception c = (case map_of (c_node_tasks c) i of
      None \<Rightarrow> Inr c
    | Some k \<Rightarrow>
       (let c1 = c\<lparr>c_node_tasks := AList.delete i (c_node_tasks c)\<rparr>;
            failed = (\<lambda>m. emit_state_delta [(k, [(py ''status'', JStr (py ''failed'')), (py ''error'', JStr m)])] [] [])
        in case exception of
             None \<Rightarrow> Inr c1
           | Some m \<Rightarrow> (case map_of (nodes (c_state c1)) k of
               None \<Rightarrow> Inr (failed m c1)
             | Some n \<Rightarrow>
                ebind (if can_transition n FAILED then transition k FAILED False [] c1 else Inr c1) (\<lambda>c2.
                  Inr (failed m (set_node k (\<lambda>n. n\<lparr>n_error := Some m\<rparr>) c2))))))"

definition finish_settle_task :: "nat \<Rightarrow> ctx \<Rightarrow> ctx" where
  "finish_settle_task i c = c\<lparr>c_settle_tasks := AList.delete i (c_settle_tasks c)\<rparr>"

definition runner_cleanup :: "ctx \<Rightarrow> ctx" where
  "runner_cleanup c = c\<lparr>c_runner := False, c_node_tasks := [], c_settle_tasks := []\<rparr>"

text \<open>With nothing running, the plan flow decides: go on (\<open>True\<close>) or end.\<close>

definition runner_idle :: "(pystr \<Rightarrow> PlanPatch option) \<Rightarrow> ctx \<Rightarrow> (exn + (bool \<times> ctx)) option" where
  "runner_idle llm c = map_option (\<lambda>r. ebind r (\<lambda>(out, c1).
     Inr (if out = CONTINUE then (True, c1) else (False, runner_cleanup c1)))) (run_plan_flow llm c)"

text \<open>The \<open>except Exception\<close> branch, then \<open>finally\<close>.\<close>

definition runner_crashed :: "ctx \<Rightarrow> ctx" where
  "runner_crashed c = runner_cleanup (if c_active c then evict_session (emit_state TASK_FAILED (persist c)) else c)"

section \<open>Canceling a turn\<close>

definition cancel_open :: "OrchestrationState \<Rightarrow> exn + OrchestrationState" where
  "cancel_open s = efold (\<lambda>k s. apply_transition_at s k CANCELED)
     (map n_id (filter (\<lambda>n. n_status n \<in> ACTIVE_NODE_STATUSES \<union> {READY}) (d_values (nodes s)))) s"

definition cancel_turn :: "pystr \<Rightarrow> ctx \<Rightarrow> exn + ctx" where
  "cancel_turn task_id c =
     (let c0 = c\<lparr>c_events := c_events c @ [(task_id, c_context_id c, StatusUpdate TASK_CANCELED [] None None)]\<rparr> in
      if \<not> c_active c then Inr c0
      else ebind (cancel_open (c_state c0)) (\<lambda>s.
        let c1 = persist (set_state s (c0\<lparr>c_runner := False\<rparr>));
            c2 = fold request_cancel (filter (\<lambda>n. n_status n = CANCELED) (d_values (nodes (c_state c1)))) c1
        in Inr (evict_session c2)))"

section \<open>What a round does\<close>

text \<open>A loop over node ids that changes each node once, as one pass over the plan.\<close>

lemma d_modify_id: "distinct (d_keys d) \<Longrightarrow> map_of d k = Some n \<Longrightarrow> f n = n \<Longrightarrow> d_modify k f d = d"
  unfolding d_modify_def by (rule map_idI) (auto dest: eq_key_imp_eq_value)

lemma d_modify_cong: "distinct (d_keys d) \<Longrightarrow> map_of d k = Some n \<Longrightarrow> f n = g n \<Longrightarrow> d_modify k f d = d_modify k g d"
  unfolding d_modify_def by (rule map_cong [OF refl]) (auto dest: eq_key_imp_eq_value)

lemma map_of_map_key: "map_of (map (\<lambda>(k, v). (k, f k v)) d) k = map_option (f k) (map_of d k)"
  by (induction d) auto

lemma efold_node_loop:
  assumes "distinct (map key xs)" and "distinct (d_keys (nodes s))"
    and "\<And>x s n. x \<in> set xs \<Longrightarrow> distinct (d_keys (nodes s)) \<Longrightarrow> map_of (nodes s) (key x) = Some n \<Longrightarrow> ok x n
      \<Longrightarrow> step x s = Inr (s\<lparr>nodes := d_modify (key x) f (nodes s)\<rparr>)"
    and "\<And>x. x \<in> set xs \<Longrightarrow> \<exists>n. map_of (nodes s) (key x) = Some n \<and> ok x n"
  shows "efold step xs s = Inr (s\<lparr>nodes := map (\<lambda>(k, n). (k, if k \<in> key ` set xs then f n else n)) (nodes s)\<rparr>)"
  using assms
proof (induction xs arbitrary: s)
  case Nil
  then show ?case by (cases s) (simp add: case_prod_beta)
next
  case (Cons x xs)
  obtain n where n: "map_of (nodes s) (key x) = Some n" "ok x n" using Cons.prems(4) [of x] by auto
  let ?s = "s\<lparr>nodes := d_modify (key x) f (nodes s)\<rparr>"
  have x: "step x s = Inr ?s" using n Cons.prems(2,3) by simp
  have "\<exists>n. map_of (nodes ?s) (key y) = Some n \<and> ok y n" if y: "y \<in> set xs" for y
  proof -
    have "key y \<in> key ` set xs" using y by (rule imageI)
    then have "key y \<noteq> key x" using Cons.prems(1) by auto
    then show ?thesis using Cons.prems(4) [of y] y by simp
  qed
  then have "efold step xs ?s = Inr (?s\<lparr>nodes := map (\<lambda>(k, n). (k, if k \<in> key ` set xs then f n else n)) (nodes ?s)\<rparr>)"
    by (intro Cons.IH) (use Cons.prems in simp_all)
  moreover have "map (\<lambda>(k, n). (k, if k \<in> key ` set xs then f n else n)) (nodes ?s)
      = map (\<lambda>(k, n). (k, if k \<in> key ` set (x # xs) then f n else n)) (nodes s)"
    using Cons.prems(1) by (auto simp: d_modify_def)
  ultimately show ?case using x by simp
qed

definition retried :: "int \<Rightarrow> NodeState \<Rightarrow> NodeState" where
  "retried max_attempts n = (if can_retry n max_attempts then n\<lparr>n_status := PENDING, n_error := None\<rparr> else n)"

definition dispatched :: "NodeState \<Rightarrow> NodeState" where
  "dispatched n = (if n_status n = RECOVER then n else n\<lparr>n_status := SUBMITTED\<rparr>)"

lemma distinct_ids:
  assumes "state_wf s"
  shows "distinct (map n_id (filter P (d_values (nodes s))))"
proof -
  have "map n_id (d_values (nodes s)) = d_keys (nodes s)"
    using assms by (auto simp: state_wf_def list_all_iff)
  moreover have "distinct (d_keys (nodes s))" using assms by (simp add: state_wf_def dict_wf_def)
  ultimately have "distinct (map n_id (d_values (nodes s)))" by metis
  then show ?thesis by (rule distinct_map_filter)
qed

lemma retry_one_step:
  assumes "distinct (d_keys (nodes s))" and "map_of (nodes s) k = Some n" and "n_status n = FAILED"
  shows "retry_one m k s = Inr (s\<lparr>nodes := d_modify k (retried m) (nodes s)\<rparr>)"
proof (cases "can_retry n m")
  case True
  have "d_modify k (\<lambda>n. n\<lparr>n_error := None\<rparr>) (d_modify k (\<lambda>_. n\<lparr>n_status := PENDING\<rparr>) (nodes s))
      = d_modify k (\<lambda>_. n\<lparr>n_status := PENDING, n_error := None\<rparr>) (nodes s)"
    by (auto simp: d_modify_def)
  also have "\<dots> = d_modify k (retried m) (nodes s)"
    using assms(1,2) by (rule d_modify_cong) (simp add: retried_def True)
  finally have "d_modify k (\<lambda>n. n\<lparr>n_error := None\<rparr>) (d_modify k (\<lambda>_. n\<lparr>n_status := PENDING\<rparr>) (nodes s)) = d_modify k (retried m) (nodes s)" .
  then show ?thesis using assms True
    by (simp add: retry_one_def apply_transition_at_def apply_transition_def can_transition_def)
next
  case False
  then show ?thesis using assms by (cases s) (simp add: retry_one_def retried_def d_modify_id)
qed

lemma retry_failed_eq:
  assumes "state_wf s"
  shows "retry_failed m s = Inr (s\<lparr>nodes := d_map (retried m) (nodes s)\<rparr>)"
proof -
  let ?ks = "map n_id (failed_nodes s)"
  have ok: "\<exists>n. map_of (nodes s) k = Some n \<and> n_status n = FAILED" if k: "k \<in> set ?ks" for k
    using k state_wf_lookup [OF assms] by (auto simp: failed_nodes_def)
  have d: "distinct (map (\<lambda>k. k) ?ks)" using distinct_ids [OF assms] by (simp add: failed_nodes_def)
  have "efold (retry_one m) ?ks s
      = Inr (s\<lparr>nodes := map (\<lambda>(k, n). (k, if k \<in> (\<lambda>k. k) ` set ?ks then retried m n else n)) (nodes s)\<rparr>)"
    by (rule efold_node_loop [where ok = "\<lambda>_ n. n_status n = FAILED"])
       (use d ok assms in \<open>auto simp: state_wf_def dict_wf_def intro: retry_one_step\<close>)
  moreover have "map (\<lambda>(k, n). (k, if k \<in> (\<lambda>k. k) ` set ?ks then retried m n else n)) (nodes s) = d_map (retried m) (nodes s)"
  proof -
    have "(if k \<in> n_id ` set (failed_nodes s) then retried m n else n) = retried m n" if "(k, n) \<in> set (nodes s)" for k n
    proof (cases "n_status n = FAILED")
      case True
      have "n_id n = k" using assms that by (auto simp: state_wf_def list_all_iff)
      moreover have "n \<in> set (failed_nodes s)" using that True by (force simp: failed_nodes_def)
      ultimately show ?thesis by (metis imageI)
    qed (simp add: retried_def can_retry_def)
    then show ?thesis by (auto simp: d_map_def)
  qed
  ultimately show ?thesis by (simp add: retry_failed_def)
qed

lemma retried_wf: "state_wf s \<Longrightarrow> state_wf (s\<lparr>nodes := d_map (retried m) (nodes s)\<rparr>)"
  by (simp add: state_wf_def dict_wf_def list_all_d_map retried_def if_distrib [of n_id] cong: if_cong)

lemma submit_one_step:
  assumes "distinct (d_keys (nodes s))" and "map_of (nodes s) k = Some n" and "n_status n \<in> PENDING_NODE_STATUSES"
  shows "submit_one (k, node_mode_of n) s = Inr (s\<lparr>nodes := d_modify k dispatched (nodes s)\<rparr>)"
proof (cases "n_status n = RECOVER")
  case True
  then show ?thesis using assms
    by (cases s) (simp add: submit_one_def node_mode_of_def dispatched_def d_modify_id)
next
  case False
  have "d_modify k (\<lambda>_. n\<lparr>n_status := SUBMITTED\<rparr>) (nodes s) = d_modify k dispatched (nodes s)"
    using assms(1,2) by (rule d_modify_cong) (simp add: dispatched_def False)
  then show ?thesis using assms False
    by (auto simp: submit_one_def node_mode_of_def apply_transition_at_def apply_transition_def can_transition_def
        PENDING_NODE_STATUSES_def)
qed

lemma submit_batch_eq:
  assumes "state_wf s"
  shows "efold submit_one (map (\<lambda>n. (n_id n, node_mode_of n)) (take m (ready_nodes s))) s
     = Inr (s\<lparr>nodes := map (\<lambda>(k, n). (k, if k \<in> n_id ` set (take m (ready_nodes s)) then dispatched n else n)) (nodes s)\<rparr>)"
proof -
  let ?xs = "map (\<lambda>n. (n_id n, node_mode_of n)) (take m (ready_nodes s))"
  have ok: "\<exists>n. map_of (nodes s) (fst x) = Some n \<and> n_status n \<in> PENDING_NODE_STATUSES \<and> snd x = node_mode_of n"
    if x: "x \<in> set ?xs" for x
  proof -
    obtain n where n: "n \<in> set (ready_nodes s)" "x = (n_id n, node_mode_of n)" using x by (auto dest: in_set_takeD)
    then have "map_of (nodes s) (n_id n) = Some n" using state_wf_lookup [OF assms] by (simp add: ready_nodes_def)
    then show ?thesis using n by (auto simp: ready_nodes_def)
  qed
  have "distinct (map n_id (take m (ready_nodes s)))"
    using distinct_ids [OF assms] by (simp add: ready_nodes_def take_map [symmetric])
  then have d: "distinct (map fst ?xs)" by (simp add: comp_def)
  have st: "submit_one x t = Inr (t\<lparr>nodes := d_modify (fst x) dispatched (nodes t)\<rparr>)"
    if "distinct (d_keys (nodes t))" "map_of (nodes t) (fst x) = Some n"
      "n_status n \<in> PENDING_NODE_STATUSES \<and> snd x = node_mode_of n" for x t n
    using submit_one_step [OF that(1,2)] that(3) by (cases x) simp
  have "efold submit_one ?xs s
      = Inr (s\<lparr>nodes := map (\<lambda>(k, n). (k, if k \<in> fst ` set ?xs then dispatched n else n)) (nodes s)\<rparr>)"
    by (rule efold_node_loop [where ok = "\<lambda>x n. n_status n \<in> PENDING_NODE_STATUSES \<and> snd x = node_mode_of n", OF d _ st ok])
       (use assms in \<open>auto simp: state_wf_def dict_wf_def\<close>)
  moreover have "fst ` set ?xs = n_id ` set (take m (ready_nodes s))" by force
  ultimately show ?thesis by simp
qed

text \<open>Frames of the round's loops.\<close>

lemma spawn_task_frame [simp]:
  "c_state (spawn_settle_task k c) = c_state c" "c_config (spawn_settle_task k c) = c_config c"
  "c_node_tasks (spawn_settle_task k c) = c_node_tasks c"
  "c_state (spawn_node_task k c) = c_state c" "c_config (spawn_node_task k c) = c_config c"
  by (simp_all add: spawn_settle_task_def spawn_node_task_def)

lemma fold_settle_frame:
  "c_state (fold (\<lambda>n. spawn_settle_task (n_id n)) ns c) = c_state c \<and> c_config (fold (\<lambda>n. spawn_settle_task (n_id n)) ns c) = c_config c
     \<and> c_node_tasks (fold (\<lambda>n. spawn_settle_task (n_id n)) ns c) = c_node_tasks c"
  by (induction ns arbitrary: c) simp_all

lemma spawn_settlements_frame [simp]:
  "c_state (spawn_settlements c) = c_state c" "c_config (spawn_settlements c) = c_config c"
  "c_node_tasks (spawn_settlements c) = c_node_tasks c"
  by (simp_all add: spawn_settlements_def Let_def fold_settle_frame)

lemma announce_one_frame [simp]:
  "c_state (announce_one x c) = c_state c" "c_config (announce_one x c) = c_config c" "c_node_tasks (announce_one x c) = c_node_tasks c"
  by (simp_all add: announce_one_def split: prod.split option.split)

lemma fold_announce_frame [simp]:
  "c_state (fold announce_one xs c) = c_state c" "c_config (fold announce_one xs c) = c_config c"
  "c_node_tasks (fold announce_one xs c) = c_node_tasks c"
  by (induction xs arbitrary: c) simp_all

lemma fold_spawn_frame:
  "c_state (fold (\<lambda>(k, mode). spawn_node_task k) xs c) = c_state c
     \<and> map snd (c_node_tasks (fold (\<lambda>(k, mode). spawn_node_task k) xs c)) = map snd (c_node_tasks c) @ map fst xs"
  by (induction xs arbitrary: c) (auto simp: spawn_node_task_def)

text \<open>The round, as one description of its result.\<close>

lemma runner_round_dispatches':
  assumes "state_wf (c_state c)"
  shows "\<exists>c' batch. runner_round c = Inr c'
     \<and> batch = take (nat (cfg_max_parallel (c_config c) - int (length (c_node_tasks c))))
         (ready_nodes ((c_state c)\<lparr>nodes := d_map (retried (cfg_max_node_attempts (c_config c))) (nodes (c_state c))\<rparr>))
     \<and> map snd (c_node_tasks c') = map snd (c_node_tasks c) @ map n_id batch \<and> distinct (map n_id batch)
     \<and> int (length (c_node_tasks c')) \<le> max (int (length (c_node_tasks c))) (cfg_max_parallel (c_config c))
     \<and> (\<forall>n \<in> set batch. n_status n \<in> {PENDING, READY, RECOVER} \<and> (\<forall>dep \<in> set (n_deps n). status_of (c_state c) dep = Some COMPLETED))
     \<and> nodes (c_state c') = map (\<lambda>(k, n). (k, let r = retried (cfg_max_node_attempts (c_config c)) n in
         if k \<in> n_id ` set batch \<and> n_status r \<noteq> RECOVER then r\<lparr>n_status := SUBMITTED\<rparr> else r)) (nodes (c_state c))"
proof -
  let ?m = "cfg_max_node_attempts (c_config c)"
  let ?s1 = "(c_state c)\<lparr>nodes := d_map (retried ?m) (nodes (c_state c))\<rparr>"
  let ?c1 = "spawn_settlements (set_state ?s1 (c\<lparr>c_wake := False\<rparr>))"
  let ?k = "nat (cfg_max_parallel (c_config c) - int (length (c_node_tasks c)))"
  let ?batch = "take ?k (ready_nodes ?s1)"
  have wf: "state_wf ?s1" using assms by (rule retried_wf)
  have k: "free_slots ?c1 = ?k" by (simp add: free_slots_def max_def)
  have b: "dispatch_batch ?c1 = map (\<lambda>n. (n_id n, node_mode_of n)) ?batch"
    unfolding dispatch_batch_def k by simp
  let ?s2 = "?s1\<lparr>nodes := map (\<lambda>(k, n). (k, if k \<in> n_id ` set ?batch then dispatched n else n)) (nodes ?s1)\<rparr>"
  let ?c2 = "fold (\<lambda>(k, mode). spawn_node_task k) (dispatch_batch ?c1) (fold announce_one (dispatch_batch ?c1) (set_state ?s2 ?c1))"
  have sub: "efold submit_one (dispatch_batch ?c1) (c_state ?c1) = Inr ?s2"
    unfolding b using submit_batch_eq [OF wf, of ?k] by simp
  have c': "runner_round c = Inr (if dispatch_batch ?c1 \<noteq> [] then persist ?c2 else ?c2)"
    using sub by (simp add: runner_round_def retry_failed_eq [OF assms] Let_def)
  have tasks: "map snd (c_node_tasks ?c2) = map snd (c_node_tasks c) @ map n_id ?batch"
    using fold_spawn_frame [of "dispatch_batch ?c1" "fold announce_one (dispatch_batch ?c1) (set_state ?s2 ?c1)"]
    by (simp add: b comp_def)
  have len: "int (length (c_node_tasks ?c2)) \<le> max (int (length (c_node_tasks c))) (cfg_max_parallel (c_config c))"
  proof -
    have "length (c_node_tasks ?c2) = length (c_node_tasks c) + length ?batch"
      using arg_cong [OF tasks, of length] by simp
    moreover have "length ?batch \<le> ?k" by simp
    ultimately show ?thesis by linarith
  qed
  have d: "distinct (map n_id ?batch)"
    using distinct_ids [OF wf] by (simp add: ready_nodes_def take_map [symmetric])
  have ready: "n_status n \<in> {PENDING, READY, RECOVER} \<and> (\<forall>dep \<in> set (n_deps n). status_of (c_state c) dep = Some COMPLETED)"
    if "n \<in> set ?batch" for n
  proof -
    have n: "n \<in> set (ready_nodes ?s1)" using that by (rule in_set_takeD)
    have "status_of ?s1 dep = Some COMPLETED \<Longrightarrow> status_of (c_state c) dep = Some COMPLETED" for dep
      by (auto simp: status_of_def retried_def split: if_splits)
    then show ?thesis using n unfolding ready_nodes_iff PENDING_NODE_STATUSES_def by blast
  qed
  have st: "nodes (c_state ?c2) = map (\<lambda>(k, n). (k, let r = retried ?m n in
         if k \<in> n_id ` set ?batch \<and> n_status r \<noteq> RECOVER then r\<lparr>n_status := SUBMITTED\<rparr> else r)) (nodes (c_state c))"
    using fold_spawn_frame [of "dispatch_batch ?c1" "fold announce_one (dispatch_batch ?c1) (set_state ?s2 ?c1)"]
    by (auto simp: d_map_def dispatched_def Let_def)
  show ?thesis
    using c' tasks len d ready st by (intro exI [of _ "if dispatch_batch ?c1 \<noteq> [] then persist ?c2 else ?c2"] exI [of _ ?batch]) auto
qed

text \<open>C16: one scheduler round, run under the session lock, never raises and never has more than \<open>max_parallel\<close>
  node tasks (unless there already were more): failed nodes with attempts left go back to \<open>pending\<close>, as many
  ready nodes as there are free slots are started, each of them has every dependency completed, and apart
  from recovering ones they are marked \<open>submitted\<close>; no other node changes.\<close>

theorem runner_round_dispatches:
  assumes "state_wf (c_state c)"
  shows "\<exists>c' batch. runner_round c = Inr c'
     \<and> batch = take (nat (cfg_max_parallel (c_config c) - int (length (c_node_tasks c))))
         (ready_nodes ((c_state c)\<lparr>nodes := d_map (retried (cfg_max_node_attempts (c_config c))) (nodes (c_state c))\<rparr>))
     \<and> map snd (c_node_tasks c') = map snd (c_node_tasks c) @ map n_id batch \<and> distinct (map n_id batch)
     \<and> int (length (c_node_tasks c')) \<le> max (int (length (c_node_tasks c))) (cfg_max_parallel (c_config c))
     \<and> (\<forall>n \<in> set batch. n_status n \<in> {PENDING, READY, RECOVER} \<and> (\<forall>dep \<in> set (n_deps n). status_of (c_state c) dep = Some COMPLETED))
     \<and> nodes (c_state c') = map (\<lambda>(k, n). (k, let r = retried (cfg_max_node_attempts (c_config c)) n in
         if k \<in> n_id ` set batch \<and> n_status r \<noteq> RECOVER then r\<lparr>n_status := SUBMITTED\<rparr> else r)) (nodes (c_state c))"
  using assms by (rule runner_round_dispatches')

text \<open>Two ready nodes, one slot.\<close>

definition example_two_nodes :: OrchestrationState where
  "example_two_nodes = empty_state\<lparr>nodes := [(py ''n1'', new_node (py ''n1'') (py ''N1'') (py ''A'')),
     (py ''n2'', new_node (py ''n2'') (py ''N2'') (py ''B''))]\<rparr>"

lemma example_two_nodes_wf: "state_wf example_two_nodes"
  by (simp add: state_wf_def example_two_nodes_def empty_state_def dict_wf_def new_node_def)

theorem runner_round_dispatches_witness:
  "\<exists>c'. runner_round ((example_ctx example_two_nodes)\<lparr>c_config := example_config\<lparr>cfg_max_parallel := 1\<rparr>\<rparr>) = Inr c'
     \<and> map snd (c_node_tasks c') = [py ''n1'']"
proof -
  let ?c = "(example_ctx example_two_nodes)\<lparr>c_config := example_config\<lparr>cfg_max_parallel := 1\<rparr>\<rparr>"
  have "state_wf (c_state ?c)" using example_two_nodes_wf by (simp add: example_ctx_def)
  from runner_round_dispatches [OF this] obtain c' where
    c': "runner_round ?c = Inr c'" "map snd (c_node_tasks c') = map snd (c_node_tasks ?c)
      @ map n_id (take (nat (cfg_max_parallel (c_config ?c) - int (length (c_node_tasks ?c))))
         (ready_nodes ((c_state ?c)\<lparr>nodes := d_map (retried (cfg_max_node_attempts (c_config ?c))) (nodes (c_state ?c))\<rparr>)))"
    by blast
  have r: "d_map (retried (cfg_max_node_attempts (c_config ?c))) (nodes (c_state ?c)) = nodes example_two_nodes"
    by (simp add: example_ctx_def example_two_nodes_def d_map_def retried_def can_retry_def new_node_def)
  have st: "(c_state ?c)\<lparr>nodes := nodes example_two_nodes\<rparr> = example_two_nodes"
    by (simp add: example_ctx_def example_two_nodes_def)
  have rd: "ready_nodes example_two_nodes = d_values (nodes example_two_nodes)"
    by (simp add: example_two_nodes_def ready_nodes_def new_node_def deps_completed_def PENDING_NODE_STATUSES_def)
  have t: "c_node_tasks ?c = []" "cfg_max_parallel (c_config ?c) = 1" by (simp_all add: example_ctx_def)
  have "map n_id (take 1 (d_values (nodes example_two_nodes))) = [py ''n1'']" by (simp add: example_two_nodes_def new_node_def)
  then have "map snd (c_node_tasks c') = [py ''n1'']" unfolding c'(2) r st rd t by simp
  with c'(1) show ?thesis by (intro exI [of _ c'] conjI)
qed

text \<open>A recovering node keeps the status \<open>recover\<close> while its remote task is followed, so a round that runs
  meanwhile starts a second task for the same node: whenever there are slots for every ready node, a node
  in flight whose status is \<open>recover\<close> and whose dependencies are completed is in flight twice afterwards.\<close>

theorem recovering_node_started_twice:
  assumes "state_wf (c_state c)" and "map_of (nodes (c_state c)) k = Some n" and "n_status n = RECOVER"
    and "deps_completed (c_state c) n" and "k \<in> snd ` set (c_node_tasks c)"
    and "cfg_max_parallel (c_config c) \<ge> int (length (c_node_tasks c) + length (nodes (c_state c)))"
  shows "\<exists>c'. runner_round c = Inr c' \<and> length (filter (\<lambda>j. j = k) (map snd (c_node_tasks c'))) \<ge> 2
    \<and> status_of (c_state c') k = Some RECOVER"
proof -
  let ?m = "cfg_max_node_attempts (c_config c)"
  let ?s1 = "(c_state c)\<lparr>nodes := d_map (retried ?m) (nodes (c_state c))\<rparr>"
  let ?batch = "take (nat (cfg_max_parallel (c_config c) - int (length (c_node_tasks c)))) (ready_nodes ?s1)"
  have id: "n_id n = k" using assms(1,2) by (rule state_wf_node)
  have r: "retried ?m n = n" using assms(3) by (simp add: retried_def can_retry_def)
  have "length (ready_nodes ?s1) \<le> length (nodes (c_state c))"
    using length_filter_le [of _ "d_values (nodes ?s1)"] by (simp add: ready_nodes_def d_map_def)
  then have all: "?batch = ready_nodes ?s1" using assms(6) by simp
  have "status_of ?s1 dep = Some COMPLETED" if h: "status_of (c_state c) dep = Some COMPLETED" for dep
  proof -
    obtain z where z: "map_of (nodes (c_state c)) dep = Some z" "n_status z = COMPLETED" using h by (auto simp: status_of_def)
    have "retried ?m z = z" using z(2) by (simp add: retried_def can_retry_def)
    then show ?thesis using z by (simp add: status_of_def)
  qed
  then have dep: "deps_completed ?s1 n" using assms(4) by (auto simp: deps_completed_def list_all_iff)
  have "map_of (nodes ?s1) k = Some n" using assms(2) r by simp
  then have "n \<in> set (ready_nodes ?s1)"
    unfolding ready_nodes_iff using dep assms(3) node_in_values [of ?s1 k n]
    by (simp add: PENDING_NODE_STATUSES_def deps_completed_def list_all_iff)
  then have nb: "k \<in> set (map n_id ?batch)" unfolding all using id by (metis image_eqI set_map)
  obtain c' where c': "runner_round c = Inr c'" "map snd (c_node_tasks c') = map snd (c_node_tasks c) @ map n_id ?batch"
    "nodes (c_state c') = map (\<lambda>(k, n). (k, let r = retried ?m n in
         if k \<in> n_id ` set ?batch \<and> n_status r \<noteq> RECOVER then r\<lparr>n_status := SUBMITTED\<rparr> else r)) (nodes (c_state c))"
    using runner_round_dispatches' [OF assms(1)] by blast
  have "k \<in> set (map snd (c_node_tasks c))" using assms(5) by simp
  then have "length (filter (\<lambda>j. j = k) (map snd (c_node_tasks c))) > 0" "length (filter (\<lambda>j. j = k) (map n_id ?batch)) > 0"
    using nb by (auto simp: filter_empty_conv)
  then have "length (filter (\<lambda>j. j = k) (map snd (c_node_tasks c'))) \<ge> 2"
    unfolding c'(2) filter_append length_append by linarith
  moreover have "status_of (c_state c') k = Some RECOVER"
    unfolding status_of_def c'(3) map_of_map_key using assms(2,3) r by (simp add: Let_def)
  ultimately show ?thesis using c'(1) by blast
qed

text \<open>A recovering node that is already followed by task 0.\<close>

definition example_recovering :: OrchestrationState where
  "example_recovering = empty_state\<lparr>nodes := [(py ''n1'', (new_node (py ''n1'') (py ''N1'') (py ''A''))
     \<lparr>n_status := RECOVER, n_a2a_task_id := Some (py ''r1'')\<rparr>)]\<rparr>"

theorem recovering_node_started_twice_witness:
  "\<exists>c'. runner_round ((example_ctx example_recovering)\<lparr>c_node_tasks := [(0, py ''n1'')]\<rparr>) = Inr c'
     \<and> length (filter (\<lambda>j. j = py ''n1'') (map snd (c_node_tasks c'))) \<ge> 2"
proof -
  let ?c = "(example_ctx example_recovering)\<lparr>c_node_tasks := [(0, py ''n1'')]\<rparr>"
  let ?n = "(new_node (py ''n1'') (py ''N1'') (py ''A''))\<lparr>n_status := RECOVER, n_a2a_task_id := Some (py ''r1'')\<rparr>"
  have "state_wf (c_state ?c)"
    by (simp add: state_wf_def example_ctx_def example_recovering_def empty_state_def dict_wf_def new_node_def)
  moreover have "map_of (nodes (c_state ?c)) (py ''n1'') = Some ?n" by (simp add: example_ctx_def example_recovering_def)
  moreover have "n_status ?n = RECOVER" "deps_completed (c_state ?c) ?n" by (simp_all add: deps_completed_def new_node_def)
  moreover have "py ''n1'' \<in> snd ` set (c_node_tasks ?c)" by simp
  moreover have "cfg_max_parallel (c_config ?c) \<ge> int (length (c_node_tasks ?c) + length (nodes (c_state ?c)))"
    by (simp add: example_ctx_def example_config_def example_recovering_def)
  ultimately have "\<exists>c'. runner_round ?c = Inr c' \<and> length (filter (\<lambda>j. j = py ''n1'') (map snd (c_node_tasks c'))) \<ge> 2
      \<and> status_of (c_state c') (py ''n1'') = Some RECOVER" by (rule recovering_node_started_twice)
  then show ?thesis by (elim exE conjE) (intro exI conjI)
qed

end
