(* ===== verification/Invariants.thy ===== *)
theory Invariants
  imports Runner
begin

text \<open>
  Invariants of the whole session.  The locale \<open>state_invariant\<close> is the contract between the primitive
  operations on the orchestration state and everything built on them: a predicate that every primitive
  keeps.  Inside it each operation, tool, flow handler and scheduler step is shown to keep the
  predicate, once; the interpretations give the facts for well-formedness, for "at most one pending
  question per node", for the message ids, and for the budgets.  \<open>sys_step\<close> is the interleaving of all
  operations of a session, at the granularity of handlers and remote chunks.
\<close>

section \<open>Invariants of the context\<close>

text \<open>What a session does not own: which conversation it is, the registry, and the stored states of the other conversations.
  \<open>pl_row\<close> is what was stored for its own conversation at the start.\<close>

record session_place =
  pl_context :: pystr
  pl_agents :: "AgentRecord list"
  pl_others :: "pystr \<rightharpoonup> json"
  pl_row :: "json option"

definition place_of :: "json option \<Rightarrow> ctx \<Rightarrow> session_place" where
  "place_of r c = \<lparr>pl_context = c_context_id c, pl_agents = c_agents c, pl_others = (map_of (c_store c))(c_context_id c := None), pl_row = r\<rparr>"

definition own_row :: "ctx \<Rightarrow> json option" where
  "own_row c = map_of (c_store c) (c_context_id c)"

lemma place_update [simp, frames]:
  "place_of r (c\<lparr>c_state := x1\<rparr>) = place_of r c" "place_of r (c\<lparr>c_task_id := x2\<rparr>) = place_of r c" "place_of r (c\<lparr>c_messages := x3\<rparr>) = place_of r c"
  "place_of r (c\<lparr>c_compaction := x4\<rparr>) = place_of r c" "place_of r (c\<lparr>c_events := x5\<rparr>) = place_of r c" "place_of r (c\<lparr>c_active := x6\<rparr>) = place_of r c"
  "place_of r (c\<lparr>c_runner := x7\<rparr>) = place_of r c" "place_of r (c\<lparr>c_node_tasks := x8\<rparr>) = place_of r c" "place_of r (c\<lparr>c_settle_tasks := x9\<rparr>) = place_of r c"
  "place_of r (c\<lparr>c_next_task := y1\<rparr>) = place_of r c" "place_of r (c\<lparr>c_wake := y2\<rparr>) = place_of r c" "place_of r (c\<lparr>c_cancels := y3\<rparr>) = place_of r c"
  "place_of r (c\<lparr>c_tick := y4\<rparr>) = place_of r c" "place_of r (c\<lparr>c_text := y5\<rparr>) = place_of r c" "place_of r (c\<lparr>c_room := y6\<rparr>) = place_of r c"
  "place_of r (c\<lparr>c_responses := y7\<rparr>) = place_of r c" "place_of r (c\<lparr>c_malformed := y8\<rparr>) = place_of r c" "place_of r (c\<lparr>c_needs_runner := y9\<rparr>) = place_of r c"
  "place_of r (c\<lparr>c_quote_id := z1\<rparr>) = place_of r c" "place_of r (c\<lparr>c_target := z2\<rparr>) = place_of r c"
  by (simp_all add: place_of_def)

lemma place_emit [simp, frames]:
  "place_of r (emit ev c) = place_of r c" "place_of r (emit_event t m sn q c) = place_of r c" "place_of r (emit_state t c) = place_of r c"
  "place_of r (emit_state_delta ns ms ivs c) = place_of r c" "place_of r (emit_intervention_rejected i rs c) = place_of r c"
  "place_of r (emit_interventions_expired eivs c) = place_of r c" "place_of r (emit_thought_chunk x a p l i c) = place_of r c"
  "place_of r (emit_text_chunk x p l i c) = place_of r c" "place_of r (emit_compaction n x c) = place_of r c"
  by (simp_all add: emit_def emit_event_def emit_state_def emit_state_delta_def emit_intervention_rejected_def
      emit_interventions_expired_def emit_thought_chunk_def emit_text_chunk_def emit_compaction_def Let_def)

lemma place_record [simp, frames]:
  "place_of r (record_as cw rl x c) = place_of r c" "place_of r (record_message rl x c) = place_of r c" "place_of r (record_decision x c) = place_of r c"
  "place_of r (snd (new_uuid c)) = place_of r c" "place_of r (snd (or_uuid i c)) = place_of r c"
  "place_of r (emit_function_call n a res i t c) = place_of r c" "place_of r (emit_function_error n e i aj t c) = place_of r c"
  "place_of r (start_runner c) = place_of r c" "place_of r (evict_session c) = place_of r c"
  by (simp_all add: record_as_def record_message_def record_decision_def new_uuid_def or_uuid_def emit_function_call_def
      emit_function_error_def record_tool_exchange_def case_prod_beta start_runner_def evict_session_def Let_def)

lemma own_row_update [simp, frames]:
  "own_row (c\<lparr>c_state := x1\<rparr>) = own_row c" "own_row (c\<lparr>c_task_id := x2\<rparr>) = own_row c" "own_row (c\<lparr>c_messages := x3\<rparr>) = own_row c"
  "own_row (c\<lparr>c_compaction := x4\<rparr>) = own_row c" "own_row (c\<lparr>c_events := x5\<rparr>) = own_row c" "own_row (c\<lparr>c_active := x6\<rparr>) = own_row c"
  "own_row (c\<lparr>c_runner := x7\<rparr>) = own_row c" "own_row (c\<lparr>c_node_tasks := x8\<rparr>) = own_row c" "own_row (c\<lparr>c_settle_tasks := x9\<rparr>) = own_row c"
  "own_row (c\<lparr>c_next_task := y1\<rparr>) = own_row c" "own_row (c\<lparr>c_wake := y2\<rparr>) = own_row c" "own_row (c\<lparr>c_cancels := y3\<rparr>) = own_row c"
  "own_row (c\<lparr>c_tick := y4\<rparr>) = own_row c" "own_row (c\<lparr>c_text := y5\<rparr>) = own_row c" "own_row (c\<lparr>c_room := y6\<rparr>) = own_row c"
  "own_row (c\<lparr>c_responses := y7\<rparr>) = own_row c" "own_row (c\<lparr>c_malformed := y8\<rparr>) = own_row c" "own_row (c\<lparr>c_needs_runner := y9\<rparr>) = own_row c"
  "own_row (c\<lparr>c_quote_id := z1\<rparr>) = own_row c" "own_row (c\<lparr>c_target := z2\<rparr>) = own_row c"
  by (simp_all add: own_row_def)

lemma own_row_emit [simp, frames]:
  "own_row (emit ev c) = own_row c" "own_row (emit_event t m sn q c) = own_row c" "own_row (emit_state t c) = own_row c"
  "own_row (emit_state_delta ns ms ivs c) = own_row c" "own_row (emit_intervention_rejected i rs c) = own_row c"
  "own_row (emit_interventions_expired eivs c) = own_row c" "own_row (emit_thought_chunk x a p l i c) = own_row c"
  "own_row (emit_text_chunk x p l i c) = own_row c" "own_row (emit_compaction n x c) = own_row c"
  by (simp_all add: emit_def emit_event_def emit_state_def emit_state_delta_def emit_intervention_rejected_def
      emit_interventions_expired_def emit_thought_chunk_def emit_text_chunk_def emit_compaction_def Let_def)

lemma own_row_record [simp, frames]:
  "own_row (record_as cw r x c) = own_row c" "own_row (record_message r x c) = own_row c" "own_row (record_decision x c) = own_row c"
  "own_row (snd (new_uuid c)) = own_row c" "own_row (snd (or_uuid i c)) = own_row c"
  "own_row (emit_function_call n a res i t c) = own_row c" "own_row (emit_function_error n e i aj t c) = own_row c"
  "own_row (start_runner c) = own_row c" "own_row (evict_session c) = own_row c"
  by (simp_all add: record_as_def record_message_def record_decision_def new_uuid_def or_uuid_def emit_function_call_def
      emit_function_error_def record_tool_exchange_def case_prod_beta start_runner_def evict_session_def Let_def)

text \<open>Persisting writes the row of the own conversation only.\<close>

lemma place_persist [simp, frames]: "place_of r (persist c) = place_of r c"
  by (simp add: persist_def Let_def) (auto simp: place_of_def upsert_state_def emit_event_def emit_def update_conv')

lemma own_row_persist [simp]: "own_row (persist c) = Some (state_to_json (c_state c))"
  by (simp add: own_row_def persist_def Let_def upsert_state_def emit_event_def emit_def update_conv')

text \<open>The predicate on the state, a fixed configuration, the bound on running node tasks, a fixed place, and a stored state
  that is the one of the start or satisfies the predicate.\<close>

definition row_ok :: "(OrchestrationState \<Rightarrow> bool) \<Rightarrow> session_place \<Rightarrow> json option \<Rightarrow> bool" where
  "row_ok P pl r \<longleftrightarrow> r = pl_row pl \<or> (\<exists>s. P s \<and> r = Some (state_to_json s))"

lemma row_ok_state [simp]: "P s \<Longrightarrow> row_ok P pl (Some (state_to_json s))"
  by (auto simp: row_ok_def)

lemma place_self [simp]: "place_of (pl_row (place_of r c)) c = place_of r c" "row_ok P (place_of r c) r" "pl_row (place_of r c) = r"
  by (simp_all add: place_of_def row_ok_def)

definition ctx_inv :: "(OrchestrationState \<Rightarrow> bool) \<Rightarrow> ExecutorConfig \<Rightarrow> session_place \<Rightarrow> ctx \<Rightarrow> bool" where
  "ctx_inv P cfg pl c \<longleftrightarrow> P (c_state c) \<and> c_config c = cfg \<and> int (length (c_node_tasks c)) \<le> max 0 (cfg_max_parallel cfg)
     \<and> place_of (pl_row pl) c = pl \<and> row_ok P pl (own_row c)"

lemma ctx_inv_frame:
  "c_state c' = c_state c \<Longrightarrow> c_config c' = c_config c \<Longrightarrow> c_node_tasks c' = c_node_tasks c \<Longrightarrow> place_of (pl_row pl) c' = place_of (pl_row pl) c
    \<Longrightarrow> own_row c' = own_row c \<Longrightarrow> ctx_inv P cfg pl c' = ctx_inv P cfg pl c"
  by (simp add: ctx_inv_def)

lemma ctx_inv_persist [simp]: "ctx_inv P cfg pl c \<Longrightarrow> ctx_inv P cfg pl (persist c)"
  by (simp add: ctx_inv_def)

lemma ctx_inv_emit [simp]:
  "ctx_inv P cfg pl (emit ev c) = ctx_inv P cfg pl c" "ctx_inv P cfg pl (emit_event t m sn q c) = ctx_inv P cfg pl c"
  "ctx_inv P cfg pl (emit_state t c) = ctx_inv P cfg pl c" "ctx_inv P cfg pl (emit_state_delta ns ms ivs c) = ctx_inv P cfg pl c"
  "ctx_inv P cfg pl (emit_intervention_rejected i r c) = ctx_inv P cfg pl c"
  "ctx_inv P cfg pl (emit_interventions_expired eivs c) = ctx_inv P cfg pl c"
  "ctx_inv P cfg pl (emit_thought_chunk x a p l i c) = ctx_inv P cfg pl c" "ctx_inv P cfg pl (emit_text_chunk x p l i c) = ctx_inv P cfg pl c"
  "ctx_inv P cfg pl (emit_compaction n x c) = ctx_inv P cfg pl c"
  by (rule ctx_inv_frame; simp add: emit_thought_chunk_def emit_text_chunk_def emit_compaction_def)+

lemma ctx_inv_record [simp]:
  "ctx_inv P cfg pl (record_as cw r x c) = ctx_inv P cfg pl c" "ctx_inv P cfg pl (record_message r x c) = ctx_inv P cfg pl c"
  "ctx_inv P cfg pl (record_decision x c) = ctx_inv P cfg pl c" "ctx_inv P cfg pl (emit_function_call n a res i t c) = ctx_inv P cfg pl c"
  "ctx_inv P cfg pl (emit_function_error n e i aj t c) = ctx_inv P cfg pl c"
  "ctx_inv P cfg pl (start_runner c) = ctx_inv P cfg pl c"
  by (rule ctx_inv_frame; simp)+

lemma ctx_inv_update [simp]:
  "ctx_inv P cfg pl (c\<lparr>c_messages := x1\<rparr>) = ctx_inv P cfg pl c" "ctx_inv P cfg pl (c\<lparr>c_compaction := x2\<rparr>) = ctx_inv P cfg pl c"
  "ctx_inv P cfg pl (c\<lparr>c_events := x3\<rparr>) = ctx_inv P cfg pl c" "ctx_inv P cfg pl (c\<lparr>c_runner := x4\<rparr>) = ctx_inv P cfg pl c"
  "ctx_inv P cfg pl (c\<lparr>c_settle_tasks := x5\<rparr>) = ctx_inv P cfg pl c" "ctx_inv P cfg pl (c\<lparr>c_next_task := x6\<rparr>) = ctx_inv P cfg pl c"
  "ctx_inv P cfg pl (c\<lparr>c_wake := x7\<rparr>) = ctx_inv P cfg pl c" "ctx_inv P cfg pl (c\<lparr>c_cancels := x8\<rparr>) = ctx_inv P cfg pl c"
  "ctx_inv P cfg pl (c\<lparr>c_tick := x9\<rparr>) = ctx_inv P cfg pl c" "ctx_inv P cfg pl (c\<lparr>c_text := y1\<rparr>) = ctx_inv P cfg pl c"
  "ctx_inv P cfg pl (c\<lparr>c_room := y2\<rparr>) = ctx_inv P cfg pl c" "ctx_inv P cfg pl (c\<lparr>c_responses := y3\<rparr>) = ctx_inv P cfg pl c"
  "ctx_inv P cfg pl (c\<lparr>c_malformed := y4\<rparr>) = ctx_inv P cfg pl c" "ctx_inv P cfg pl (c\<lparr>c_needs_runner := y5\<rparr>) = ctx_inv P cfg pl c"
  "ctx_inv P cfg pl (c\<lparr>c_quote_id := y6\<rparr>) = ctx_inv P cfg pl c" "ctx_inv P cfg pl (c\<lparr>c_target := y7\<rparr>) = ctx_inv P cfg pl c"
  "ctx_inv P cfg pl (c\<lparr>c_task_id := y8\<rparr>) = ctx_inv P cfg pl c" "ctx_inv P cfg pl (c\<lparr>c_active := y9\<rparr>) = ctx_inv P cfg pl c"
  by (rule ctx_inv_frame; simp)+

lemma ctx_inv_new_uuid [simp]: "ctx_inv P cfg pl (snd (new_uuid c)) = ctx_inv P cfg pl c"
  by (simp add: new_uuid_def)

lemma new_uuid_ctx_inv: "new_uuid c = (u, c') \<Longrightarrow> ctx_inv P cfg pl c' = ctx_inv P cfg pl c \<and> c_state c' = c_state c \<and> c_config c' = c_config c"
  by (auto simp: new_uuid_def)

lemma ctx_inv_request_cancel [simp]: "ctx_inv P cfg pl (request_cancel n c) = ctx_inv P cfg pl c"
  "c_state (request_cancel n c) = c_state c" "c_config (request_cancel n c) = c_config c"
  by (auto simp: request_cancel_def ctx_inv_def split: option.splits list.splits sum.splits)

lemma ctx_inv_evict [intro]: "ctx_inv P cfg pl c \<Longrightarrow> ctx_inv P cfg pl (evict_session c)"
  by (auto simp: ctx_inv_def evict_session_def)

lemma ctx_inv_cleanup [intro]: "ctx_inv P cfg pl c \<Longrightarrow> ctx_inv P cfg pl (runner_cleanup c)"
  by (auto simp: ctx_inv_def runner_cleanup_def)

lemma ctx_inv_set: "ctx_inv P cfg pl c \<Longrightarrow> P s \<Longrightarrow> ctx_inv P cfg pl (set_state s c)"
  by (simp add: ctx_inv_def)

lemma ctx_inv_state: "ctx_inv P cfg pl c \<Longrightarrow> P (c_state c)"
  by (simp add: ctx_inv_def)

lemma execute_function_ctx_inv:
  assumes "execute_function tool dump args run i c = Inr (r, c')"
    and "\<And>r c1. run c = Inr (r, c1) \<Longrightarrow> ctx_inv P cfg pl c1"
  shows "ctx_inv P cfg pl c'"
  using assms by (auto simp: execute_function_def ebind_eq_Inr)

section \<open>The contract\<close>

locale state_invariant =
  fixes Inv :: "OrchestrationState \<Rightarrow> bool"
    and cfg :: ExecutorConfig
    and pl :: session_place
  assumes inv_transition: "Inv s \<Longrightarrow> apply_transition_at s k to = Inr s' \<Longrightarrow> Inv s'"
    and inv_touch: "Inv s \<Longrightarrow> (\<And>n. n_id (f n) = n_id n \<and> n_status (f n) = n_status n) \<Longrightarrow> Inv (s\<lparr>nodes := d_modify k f (nodes s)\<rparr>)"
    and inv_recover: "Inv s \<Longrightarrow> Inv (s\<lparr>nodes := map (\<lambda>(k, n). (k, recovered n)) (nodes s)\<rparr>)"
    and inv_add_node: "Inv s \<Longrightarrow> n_id n = k \<Longrightarrow> Inv (s\<lparr>nodes := AList.update k n (nodes s)\<rparr>)"
    and inv_add_member: "Inv s \<Longrightarrow> Inv (snd (add_member now s name reason))"
    and inv_expire: "Inv s \<Longrightarrow> Inv (snd (expire_where sel s))"
    and inv_ask: "Inv s \<Longrightarrow> Inv (snd (request_user_input i now s k q kd qt os m r))"
    and inv_touch_iv: "Inv s \<Longrightarrow> (\<And>iv. iv_id (g iv) = iv_id iv \<and> iv_node_id (g iv) = iv_node_id iv
        \<and> (iv_status (g iv) = IV_PENDING \<longrightarrow> iv_status iv = IV_PENDING)) \<Longrightarrow> Inv (s\<lparr>interventions := d_modify k g (interventions s)\<rparr>)"
    and inv_enqueue: "Inv s \<Longrightarrow> Inv (snd (enqueue now s k txt sender quote))"
    and inv_take: "Inv s \<Longrightarrow> Inv (snd (take_queued s k))"
    and inv_new_plan: "Inv s \<Longrightarrow> Inv (start_new_plan s pid)"
    and inv_patch_count: "Inv s \<Longrightarrow> Inv (s\<lparr>patch_count := cnt\<rparr>)"
    and inv_derive: "Inv s \<Longrightarrow> derived_count s < cfg_max_derived_nodes cfg \<Longrightarrow> Inv (s\<lparr>derived_count := derived_count s + 1\<rparr>)"
    and inv_revise: "Inv s \<Longrightarrow> revision_count s < cfg_max_revisions cfg \<Longrightarrow> Inv (s\<lparr>revision_count := revision_count s + 1\<rparr>)"
begin

abbreviation CI :: "ctx \<Rightarrow> bool" where "CI \<equiv> ctx_inv Inv cfg pl"

lemma set_node_CI:
  "CI c \<Longrightarrow> (\<And>n. n_id (f n) = n_id n \<and> n_status (f n) = n_status n) \<Longrightarrow> CI (set_node k f c)"
  by (rule ctx_inv_set) (simp_all add: inv_touch ctx_inv_state)

lemma set_iv_CI:
  "CI c \<Longrightarrow> (\<And>iv. iv_id (f iv) = iv_id iv \<and> iv_node_id (f iv) = iv_node_id iv
     \<and> (iv_status (f iv) = IV_PENDING \<longrightarrow> iv_status iv = IV_PENDING)) \<Longrightarrow> CI (set_iv k f c)"
  by (rule ctx_inv_set) (simp_all add: inv_touch_iv ctx_inv_state)

lemma transition_at_CI: "apply_transition_at (c_state c) k to = Inr s \<Longrightarrow> CI c \<Longrightarrow> CI (set_state s c)"
  using inv_transition [OF ctx_inv_state] by (auto intro!: ctx_inv_set)

lemma transition_CI: "transition k to e d c = Inr c' \<Longrightarrow> CI c \<Longrightarrow> CI c'"
  by (auto simp: transition_def ebind_eq_Inr Let_def dest: transition_at_CI)

lemma invalidate_all_Inv: "invalidate_all ks s = Inr s' \<Longrightarrow> Inv s \<Longrightarrow> Inv s'"
  unfolding invalidate_all_def by (erule efold_invariant) (auto intro: inv_transition)

lemma expire_nodes_Inv: "Inv s \<Longrightarrow> Inv (snd (expire_nodes ks (ivs, s)))"
proof (induction ks arbitrary: ivs s)
  case (Cons k ks)
  obtain e s' where e: "expire_node_interventions s k = (e, s')" by force
  then have "Inv s'" using inv_expire [OF Cons.prems, of "\<lambda>iv. iv_node_id iv = k"] by (simp add: expire_node_interventions_def)
  then show ?case using Cons.IH e by simp
qed simp

lemma expire_node_Inv: "Inv s \<Longrightarrow> expire_node_interventions s k = (e, s') \<Longrightarrow> Inv s'"
  using inv_expire [of s "\<lambda>iv. iv_node_id iv = k"] by (simp add: expire_node_interventions_def)

subsection \<open>Members\<close>

lemma join_one_CI: "join_one known reason name (c, joined) = (c', joined') \<Longrightarrow> CI c \<Longrightarrow> CI c'"
  using inv_add_member [of "c_state c" "c_now c (c_tick c)" name reason]
  by (auto simp: join_one_def ctx_inv_def split: if_splits prod.splits)

lemma fold_join_CI: "fold (join_one known reason) names (c, joined) = (c', joined') \<Longrightarrow> CI c \<Longrightarrow> CI c'"
proof (induction names arbitrary: c joined)
  case (Cons name names)
  obtain c1 j1 where one: "join_one known reason name (c, joined) = (c1, j1)" by force
  then show ?case using Cons.IH [of c1 j1] Cons.prems join_one_CI [OF one] by simp
qed simp

lemma join_members_run_CI: "join_members_run names reason c = Inr (r, c') \<Longrightarrow> CI c \<Longrightarrow> CI c'"
  by (auto simp: join_members_run_def split: prod.splits dest: fold_join_CI)

lemma join_members_CI: "join_members names reason c = Inr c' \<Longrightarrow> CI c \<Longrightarrow> CI c'"
proof -
  assume j: "join_members names reason c = Inr c'" and c: "CI c"
  have "CI c1" if "execute_function join_members_tool dump args (join_members_run ns reason) i c = Inr (r, c1)" for dump args ns i r c1
    using that by (rule execute_function_ctx_inv) (rule join_members_run_CI [OF _ c])
  then show "CI c'" using j c by (auto simp: join_members_def Let_def ebind_eq_Inr split: if_splits)
qed

subsection \<open>Questions\<close>

lemma announce_CI: "CI c \<Longrightarrow> CI (announce iv c)"
  unfolding announce_def by (rule set_iv_CI) simp_all

lemma fold_announce_CI: "CI c \<Longrightarrow> CI (fold announce ivs c)"
  by (induction ivs arbitrary: c) (simp_all add: announce_CI)

lemma emit_pending_questions_CI: "CI c \<Longrightarrow> CI (emit_pending_questions c)"
  by (simp add: emit_pending_questions_def Let_def fold_announce_CI)

lemma expire_CI: "CI c \<Longrightarrow> CI (snd (expire iv c))"
  using set_iv_CI [of c "iv_status_update (\<lambda>_. IV_EXPIRED)" "iv_id iv"] by (simp add: expire_def)

lemma cancel_node_CI: "cancel_node k c = Inr c' \<Longrightarrow> CI c \<Longrightarrow> CI c'"
proof -
  assume h: "cancel_node k c = Inr c'" and c: "CI c"
  obtain n s1 where n: "map_of (nodes (c_state c)) k = Some n"
    and s1: "apply_transition_at (c_state c) k CANCELED = Inr s1"
    using h by (auto simp: cancel_node_def Let_def ebind_eq_Inr split: option.splits)
  let ?s2 = "s1\<lparr>nodes := d_modify k (\<lambda>n. n\<lparr>n_a2a_task_id := None\<rparr>) (nodes s1)\<rparr>"
  let ?gone = "map n_id (blocked_nodes ?s2)"
  obtain s3 where s3: "invalidate_all ?gone ?s2 = Inr s3"
    using h n s1 by (auto simp: cancel_node_def Let_def ebind_eq_Inr)
  obtain expired s4 where s4: "expire_nodes (k # ?gone) ([], s3) = (expired, s4)" by force
  have eq: "c' = persist (emit_interventions_expired expired (emit_state_delta (canceled_delta n # invalidated_delta ?gone) [] []
      (set_state s4 (request_cancel n c))))"
    using h n s1 s3 s4 by (simp add: cancel_node_def Let_def del: expire_nodes.simps)
  have "Inv s1" by (rule inv_transition [OF ctx_inv_state [OF c] s1])
  then have "Inv (s1\<lparr>nodes := d_modify k (\<lambda>n. n\<lparr>n_a2a_task_id := None\<rparr>) (nodes s1)\<rparr>)" by (rule inv_touch) simp
  then have "Inv s3" by (rule invalidate_all_Inv [OF s3])
  then have "Inv s4" using expire_nodes_Inv [of s3 "k # ?gone" "[]"] unfolding s4 by simp
  then show "CI c'" unfolding eq using c by (simp add: ctx_inv_set)
qed

lemma answer_intervention_CI: "answer_intervention i ans c = Inr (r, c') \<Longrightarrow> CI c \<Longrightarrow> CI c'"
proof -
  assume h: "answer_intervention i ans c = Inr (r, c')" and c: "CI c"
  have c1: "CI (set_iv i (resolve a) c)" for a using c by (rule set_iv_CI) (simp add: resolve_def)
  have e: "CI d" if "expire iv c = (b, d)" for b d iv using expire_CI [OF c, of iv] that by (metis snd_conv)
  have k: "CI d" if "cancel_node k (record_message USER t (set_iv i (resolve a) c)) = Inr d" for k t d a
    using that by (rule cancel_node_CI) (simp add: c1)
  have t: "Inv s" if "apply_transition_at ((c_state c)\<lparr>interventions := d_modify i (resolve a) (interventions (c_state c)),
      nodes := d_modify k (\<lambda>n. n\<lparr>n_answer_text := Some x\<rparr>) (nodes (c_state c))\<rparr>) k READY = Inr s" for s k a x
  proof (rule inv_transition [OF _ that])
    have "CI (set_node k (\<lambda>n. n\<lparr>n_answer_text := Some x\<rparr>) (set_iv i (resolve a) c))"
      using c1 by (rule set_node_CI) simp
    then show "Inv ((c_state c)\<lparr>interventions := d_modify i (resolve a) (interventions (c_state c)),
      nodes := d_modify k (\<lambda>n. n\<lparr>n_answer_text := Some x\<rparr>) (nodes (c_state c))\<rparr>)" by (simp add: ctx_inv_def)
  qed
  have s: "CI (set_state s (record_message USER x (set_state s' c)))" if "Inv s" for s s' x
    using that c by (simp add: ctx_inv_def)
  show "CI c'"
    using h c c1 unfolding answer_intervention_def Let_def
    by (auto simp: ebind_eq_Inr split: option.splits if_splits dest: e k t intro!: ctx_inv_persist s)
qed

end

end
