(* ===== verification/Invariant_Tools.thy ===== *)
theory Invariant_Tools
  imports Invariants
begin

text \<open>
  The tools keep every \<open>state_invariant\<close>: derived nodes, plan creation, patches, questions, assistance.
\<close>

section \<open>Frames of a patch\<close>

lemma patch_adds_revision: "revision_count (fst (fold (patch_add_one known) add (s, r))) = revision_count s"
proof (induction add arbitrary: s r)
  case (Cons d add)
  obtain s1 r1 where p: "patch_add_one known d (s, r) = (s1, r1)" by force
  then have "revision_count s1 = revision_count s" by (auto simp: patch_add_one_def Let_def split: if_splits)
  then show ?case using Cons.IH [of s1 r1] p by simp
qed simp

lemma efold_transition_revision:
  "efold (\<lambda>k s. apply_transition_at s k to) ks s = Inr s' \<Longrightarrow> revision_count s' = revision_count s"
  by (erule efold_invariant [where P = "\<lambda>t. revision_count t = revision_count s"]) (auto dest: apply_transition_at_frame)

lemma cascade_revision: "cascade_loop s gone = Inr (s', gone') \<Longrightarrow> revision_count s' = revision_count s"
proof (induction s gone arbitrary: s' gone' rule: cascade_loop.induct)
  case (1 s gone)
  show ?case
  proof (cases "cascaded s gone = []")
    case True
    then show ?thesis using "1.prems" by (subst (asm) cascade_loop.simps) simp
  next
    case False
    then obtain t where t: "invalidate_all (cascaded s gone) s = Inr t" "cascade_loop t (gone @ cascaded s gone) = Inr (s', gone')"
      using "1.prems" by (subst (asm) cascade_loop.simps) (auto simp: Let_def ebind_eq_Inr)
    have "revision_count t = revision_count s" using t(1) unfolding invalidate_all_def by (rule efold_transition_revision)
    then show ?thesis using "1.IH" [OF refl False t(1) t(2)] by simp
  qed
qed

lemma invalidate_one_revision:
  "efold patch_invalidate_one ks p = Inr p' \<Longrightarrow> revision_count (fst p') = revision_count (fst p)"
  by (erule efold_invariant [where P = "\<lambda>t. revision_count (fst t) = revision_count (fst p)"])
     (auto simp: patch_invalidate_one_def ebind_eq_Inr apply_transition_at_Inr split: option.splits if_splits)

lemma apply_patch_revision: "apply_patch s p known = Inr (r, s') \<Longrightarrow> revision_count s' = revision_count s"
  using patch_adds_revision [of known "pp_add p" s empty_patch_result]
  by (auto simp: apply_patch_def ebind_eq_Inr patch_adds_def dest!: cascade_revision invalidate_one_revision)

lemma ask_confirm_revision: "revision_count (c_state (fst (fold (ask_confirm reason) ks (c, new)))) = revision_count (c_state c)"
proof (induction ks arbitrary: c new)
  case (Cons k ks)
  obtain c1 n1 where a: "ask_confirm reason k (c, new) = (c1, n1)" by force
  then have "revision_count (c_state c1) = revision_count (c_state c)"
    by (auto simp: ask_confirm_def new_uuid_def request_user_input_def Let_def split: option.splits if_splits)
  then show ?case using Cons.IH [of c1 n1] a by simp
qed simp

lemma fold_announce_revision: "revision_count (c_state (fold announce ivs c)) = revision_count (c_state c)"
  by (induction ivs arbitrary: c) (simp_all add: announce_def)

lemma emit_pending_revision [simp]: "revision_count (c_state (emit_pending_questions c)) = revision_count (c_state c)"
  by (simp add: emit_pending_questions_def Let_def fold_announce_revision)

text \<open>The steps of a successful \<open>apply_patch_locked\<close>.\<close>

lemma apply_patch_locked_parts:
  assumes "apply_patch_locked p c = Inr (r, c')"
  shows "\<exists>s1 c2 new c4. apply_patch (c_state c) p (set (map ag_name (registry_list c))) = Inr (r, s1)
     \<and> fold (ask_confirm (pp_reason p)) (pr_skipped_in_flight r) (set_state s1 c, []) = (c2, new)
     \<and> join_members (filter (\<lambda>a. a \<in> set (map ag_name (registry_list c))) (map pt_agent_name (pp_add p))) (py ''plan_revision'')
         (emit_state_delta [] [] new c2) = Inr c4
     \<and> c' = emit_pending_questions (persist (emit_state_delta (invalidated_delta (pr_invalidated r)) [] [] c4))"
proof -
  obtain r0 s1 where a: "apply_patch (c_state c) p (set (map ag_name (registry_list c))) = Inr (r0, s1)"
    using assms by (cases "apply_patch (c_state c) p (set (map ag_name (registry_list c)))")
      (auto simp: apply_patch_locked_def Let_def simp del: set_map)
  obtain c2 new where f: "fold (ask_confirm (pp_reason p)) (pr_skipped_in_flight r0) (set_state s1 c, []) = (c2, new)" by force
  show ?thesis using assms a f by (auto simp: apply_patch_locked_def Let_def ebind_eq_Inr simp del: set_map)
qed

lemma apply_patch_locked_revision:
  "apply_patch_locked p c = Inr (r, c') \<Longrightarrow> revision_count (c_state c') = revision_count (c_state c)"
proof -
  assume h: "apply_patch_locked p c = Inr (r, c')"
  obtain s1 c2 new c4 where a: "apply_patch (c_state c) p (set (map ag_name (registry_list c))) = Inr (r, s1)"
    and f: "fold (ask_confirm (pp_reason p)) (pr_skipped_in_flight r) (set_state s1 c, []) = (c2, new)"
    and j: "join_members (filter (\<lambda>a. a \<in> set (map ag_name (registry_list c))) (map pt_agent_name (pp_add p))) (py ''plan_revision'')
      (emit_state_delta [] [] new c2) = Inr c4"
    and c': "c' = emit_pending_questions (persist (emit_state_delta (invalidated_delta (pr_invalidated r)) [] [] c4))"
    using apply_patch_locked_parts [OF h] by blast
  have "revision_count (c_state c2) = revision_count s1"
    using ask_confirm_revision [of "pp_reason p" "pr_skipped_in_flight r" "set_state s1 c" "[]"] f by simp
  moreover have "revision_count (c_state c4) = revision_count (c_state c2)" using join_members_Inr [OF j] by auto
  ultimately show ?thesis using apply_patch_revision [OF a] c' by simp
qed

context state_invariant begin

subsection \<open>Derived nodes\<close>

lemma spawn_derived_CI:
  assumes "spawn_derived_node kind parent agent txt deps rb emits c = Inr (h, c')" and c: "CI c"
  shows "CI c'"
proof (cases "derived_count (c_state c) \<ge> cfg_max_derived_nodes (c_config c)")
  case True
  then show ?thesis using assms by (simp add: spawn_derived_node_def Let_def)
next
  case False
  let ?cnt = "derived_count (c_state c) + 1"
  let ?id = "derived_id parent kind ?cnt"
  let ?n = "(new_node ?id [] agent)\<lparr>n_deps := deps, n_input_text := txt, n_derived := True, n_assist_requested_by := rb\<rparr>"
  let ?c1 = "set_state ((c_state c)\<lparr>derived_count := ?cnt, nodes := AList.update ?id ?n (nodes (c_state c))\<rparr>) c"
  have "Inv ((c_state c)\<lparr>derived_count := ?cnt\<rparr>)"
    using c False by (intro inv_derive) (auto simp: ctx_inv_def)
  from inv_add_node [OF this, of ?n ?id]
  have "Inv ((c_state c)\<lparr>derived_count := ?cnt, nodes := AList.update ?id ?n (nodes (c_state c))\<rparr>)" by (simp add: new_node_def)
  then have c1: "CI ?c1" using c by (simp add: ctx_inv_def)
  have j: "CI d" if "join_members [agent] (join_reason kind) ?c1 = Inr d" for d using that c1 by (rule join_members_CI)
  show ?thesis using assms False j c1
    by (auto simp: spawn_derived_node_def Let_def ebind_eq_Inr split: if_splits)
qed

lemma spawn_followup_CI: "spawn_followup_node txt anchor agent deps c = Inr c' \<Longrightarrow> CI c \<Longrightarrow> CI c'"
  by (auto simp: spawn_followup_node_def ebind_eq_Inr dest: spawn_derived_CI)

lemma arbitrate_loop_CI: "arbitrate_loop node out known names c = Inr c' \<Longrightarrow> CI c \<Longrightarrow> CI c'"
proof (induction names arbitrary: c)
  case (Cons name names)
  then show ?case
    by (auto simp: ebind_eq_Inr split: if_splits option.splits dest: spawn_derived_CI)
qed simp

lemma arbitrate_mentions_CI: "arbitrate_mentions node c = Inr c' \<Longrightarrow> CI c \<Longrightarrow> CI c'"
  by (auto simp: arbitrate_mentions_def split: option.splits if_splits dest: arbitrate_loop_CI)

subsection \<open>The tools\<close>

lemma ask_user_run_CI: "ask_user_run k q qt os m c = Inr (r, c') \<Longrightarrow> CI c \<Longrightarrow> CI c'"
proof -
  assume h: "ask_user_run k q qt os m c = Inr (r, c')" and c: "CI c"
  show "CI c'"
  proof (cases "map_of (nodes (c_state c)) k")
    case None
    then show ?thesis using h c by (simp add: ask_user_run_def)
  next
    case (Some n)
    then obtain s where s: "apply_transition_at (c_state c) k INPUT_REQUIRED = Inr s"
      using h by (auto simp: ask_user_run_def ebind_eq_Inr)
    have i: "Inv s" by (rule inv_transition [OF ctx_inv_state [OF c] s])
    obtain i c1 where u: "new_uuid (set_state s c) = (i, c1)" by force
    then have st: "c_state c1 = s" by (auto simp: new_uuid_def)
    have c1: "CI c1" using new_uuid_ctx_inv [OF u] c i by (auto simp: ctx_inv_def)
    obtain iv s1 where r: "request_user_input i (c_now c1 (c_tick c1)) s k q QUESTION qt os m (n_agent_name n) = (iv, s1)" by force
    have "Inv s1" using inv_ask [OF i] r by (metis snd_conv)
    then have "CI (set_node k (\<lambda>n. n\<lparr>n_question := Some q\<rparr>) (set_state s1 c1))"
      using c1 by (intro set_node_CI ctx_inv_set) simp_all
    then show ?thesis using h Some s u r st c1
      by (auto simp: ask_user_run_def Let_def split: option.splits)
  qed
qed

lemma call_subagent_run_CI: "call_subagent_run k target ins c = Inr (r, c') \<Longrightarrow> CI c \<Longrightarrow> CI c'"
  by (auto simp: call_subagent_run_def Let_def ebind_eq_Inr split: option.splits dest: spawn_derived_CI)

lemma spawn_assist_CI: "spawn_assist k d c = Inr (r, c') \<Longrightarrow> CI c \<Longrightarrow> CI c'"
  by (auto simp: spawn_assist_def Let_def ebind_eq_Inr elim!: execute_function_ctx_inv dest: call_subagent_run_CI)

lemma create_plan_nodes_Inv: "Inv s \<Longrightarrow> Inv (create_plan_nodes drafts s)"
proof (induction drafts arbitrary: s)
  case (Cons d drafts)
  have "Inv (s\<lparr>nodes := AList.update (pd_id d) (draft_node d) (nodes s)\<rparr>)"
    using Cons.prems by (rule inv_add_node) (simp add: draft_node_def new_node_def)
  from Cons.IH [OF this] show ?case by (simp add: create_plan_nodes_def)
qed (simp add: create_plan_nodes_def)

lemma create_plan_run_CI: "create_plan_run drafts c = Inr (r, c') \<Longrightarrow> CI c \<Longrightarrow> CI c'"
proof -
  assume h: "create_plan_run drafts c = Inr (r, c')" and c: "CI c"
  have c1: "CI (set_state (create_plan_nodes drafts (c_state c)) c)"
    using c by (rule ctx_inv_set) (rule create_plan_nodes_Inv [OF ctx_inv_state [OF c]])
  show "CI c'" using h by (auto simp: create_plan_run_def Let_def ebind_eq_Inr intro: join_members_CI [OF _ c1])
qed

subsection \<open>Patches\<close>

lemma patch_adds_Inv: "Inv s \<Longrightarrow> Inv (fst (fold (patch_add_one known) add (s, r)))"
proof (induction add arbitrary: s r)
  case (Cons d add)
  obtain s1 r1 where p: "patch_add_one known d (s, r) = (s1, r1)" by force
  have "Inv s1"
  proof (cases "s1 = s")
    case False
    then obtain c n where "s1 = s\<lparr>patch_count := c, nodes := AList.update (patch_id c) n (nodes s)\<rparr>" "n_id n = patch_id c"
      using p by (auto simp: patch_add_one_def Let_def new_node_def split: if_splits)
    then show ?thesis using inv_add_node [OF inv_patch_count [OF Cons.prems], of n "patch_id c" c] by simp
  qed (use Cons.prems in simp)
  then show ?case using Cons.IH [of s1 r1] p by simp
qed simp

lemma cascade_Inv: "cascade_loop s gone = Inr (s', gone') \<Longrightarrow> Inv s \<Longrightarrow> Inv s'"
proof (induction s gone arbitrary: s' gone' rule: cascade_loop.induct)
  case (1 s gone)
  show ?case
  proof (cases "cascaded s gone = []")
    case True
    then show ?thesis using "1.prems" by (subst (asm) cascade_loop.simps) simp
  next
    case False
    then obtain t where t: "invalidate_all (cascaded s gone) s = Inr t" "cascade_loop t (gone @ cascaded s gone) = Inr (s', gone')"
      using "1.prems"(1) by (subst (asm) cascade_loop.simps) (auto simp: Let_def ebind_eq_Inr)
    show ?thesis using "1.IH" [OF refl False t(1) t(2)] invalidate_all_Inv [OF t(1) "1.prems"(2)] by blast
  qed
qed

lemma patch_invalidate_Inv: "efold patch_invalidate_one ks p = Inr p' \<Longrightarrow> Inv (fst p) \<Longrightarrow> Inv (fst p')"
  by (erule efold_invariant [where P = "\<lambda>t. Inv (fst t)"])
     (auto simp: patch_invalidate_one_def ebind_eq_Inr split: option.splits if_splits dest: inv_transition)

lemma apply_patch_Inv: "apply_patch s p known = Inr (r, s') \<Longrightarrow> Inv s \<Longrightarrow> Inv s'"
  using patch_adds_Inv [of s known "pp_add p" empty_patch_result]
  by (auto simp: apply_patch_def ebind_eq_Inr patch_adds_def dest!: cascade_Inv patch_invalidate_Inv)

lemma ask_confirm_CI: "CI c \<Longrightarrow> CI (fst (fold (ask_confirm reason) ks (c, new)))"
proof (induction ks arbitrary: c new)
  case (Cons k ks)
  obtain c1 n1 where a: "ask_confirm reason k (c, new) = (c1, n1)" by force
  have "CI c1"
  proof (cases "map_of (nodes (c_state c)) k")
    case None
    then show ?thesis using a Cons.prems by (simp add: ask_confirm_def)
  next
    case (Some n)
    obtain i d where u: "new_uuid c = (i, d)" by force
    have d: "CI d" "c_state d = c_state c" using new_uuid_ctx_inv [OF u, of Inv cfg pl] Cons.prems by auto
    obtain iv s1 where r: "request_user_input i (c_now d (c_tick d)) (c_state d) k (confirm_question n reason)
        CONFIRM_CANCEL Q_CONFIRM [] False (py ''assistant'') = (iv, s1)" by force
    have "Inv s1" using inv_ask [OF ctx_inv_state [OF d(1)]] r by (metis snd_conv)
    then have "CI (set_state s1 d)" using d by (intro ctx_inv_set)
    then show ?thesis using a Some u r Cons.prems by (auto simp: ask_confirm_def Let_def split: option.splits)
  qed
  then show ?case using Cons.IH [of c1 n1] a by simp
qed simp

lemma apply_patch_locked_CI: "apply_patch_locked p c = Inr (r, c') \<Longrightarrow> CI c \<Longrightarrow> CI c'"
proof -
  assume h: "apply_patch_locked p c = Inr (r, c')" and c: "CI c"
  obtain s1 c2 new c4 where a: "apply_patch (c_state c) p (set (map ag_name (registry_list c))) = Inr (r, s1)"
    and f: "fold (ask_confirm (pp_reason p)) (pr_skipped_in_flight r) (set_state s1 c, []) = (c2, new)"
    and j: "join_members (filter (\<lambda>a. a \<in> set (map ag_name (registry_list c))) (map pt_agent_name (pp_add p))) (py ''plan_revision'')
      (emit_state_delta [] [] new c2) = Inr c4"
    and c': "c' = emit_pending_questions (persist (emit_state_delta (invalidated_delta (pr_invalidated r)) [] [] c4))"
    using apply_patch_locked_parts [OF h] by blast
  have "CI (set_state s1 c)" using c apply_patch_Inv [OF a ctx_inv_state [OF c]] by (rule ctx_inv_set)
  then have "CI c2" using ask_confirm_CI [of "set_state s1 c" "pp_reason p" "pr_skipped_in_flight r" "[]"] f by simp
  then have "CI c4" by (intro join_members_CI [OF j]) simp
  then show "CI c'" unfolding c' by (intro emit_pending_questions_CI) simp
qed

lemma revise_plan_CI:
  assumes h: "revise_plan p c = Inr (r, c')" and c: "CI c" and budget: "revision_count (c_state c) < cfg_max_revisions (c_config c)"
  shows "CI c'"
proof -
  obtain fr c1 where e: "execute_function revise_plan_tool (revise_plan_dump p) (patch_json p) (revise_plan_run p) [] c = Inr (fr, c1)"
    and c': "c' = c1 \<or> c' = set_state ((c_state c1)\<lparr>revision_count := revision_count (c_state c1) + 1\<rparr>) c1"
    using h by (auto simp: revise_plan_def ebind_eq_Inr Let_def split: option.splits if_splits)
  have run: "CI d \<and> revision_count (c_state d) = revision_count (c_state c)" if "revise_plan_run p c = Inr (x, d)" for x d
    using that apply_patch_locked_CI [OF _ c] apply_patch_locked_revision by (auto simp: revise_plan_run_def ebind_eq_Inr)
  have c1: "CI c1" using e by (rule execute_function_ctx_inv) (use run in blast)
  have rc: "revision_count (c_state c1) = revision_count (c_state c)"
    using e run by (auto simp: execute_function_def ebind_eq_Inr)
  have "Inv ((c_state c1)\<lparr>revision_count := revision_count (c_state c1) + 1\<rparr>)"
    using ctx_inv_state [OF c1] budget c rc by (intro inv_revise) (auto simp: ctx_inv_def)
  then show ?thesis using c' c1 ctx_inv_set [OF c1] by auto
qed

lemma repair_plan_CI:
  assumes "repair_plan llm c = Inr (ok, c')" and c: "CI c" and "revision_count (c_state c) < cfg_max_revisions (c_config c)"
  shows "CI c'"
  using assms(1) revise_plan_CI [OF _ c assms(3)] c
  by (auto simp: repair_plan_def Let_def ebind_eq_Inr split: if_splits option.splits)

end

end
