(* ===== verification/Session.thy ===== *)
theory Session
  imports Invariant_Tools
begin

text \<open>
  The flows, the scheduler and the message handling keep every \<open>state_invariant\<close>; the interleaved
  system \<open>sys_step\<close>; the interpretations and what they give for every reachable session.
\<close>

section \<open>Flows\<close>

lemma run_from_invariant:
  assumes step: "\<And>h s r s'. I s \<Longrightarrow> call h s = Inr (r, s') \<Longrightarrow> I s'"
  shows "run_from f call h s = Some (Inr (out, s')) \<Longrightarrow> I s \<Longrightarrow> I s'"
proof -
  have "g = call \<longrightarrow> (\<forall>out s'. r = Inr (out, s') \<longrightarrow> I s \<longrightarrow> I s')" if "run_from f g h s = Some r" for g r
  proof (rule run_from.raw_induct [where P = "\<lambda>f g h s r. g = call \<longrightarrow> (\<forall>out s'. r = Inr (out, s') \<longrightarrow> I s \<longrightarrow> I s')", OF _ that])
    fix run :: "'a Flow \<Rightarrow> ('a \<Rightarrow> 'b \<Rightarrow> exn + (step \<times> 'b)) \<Rightarrow> 'a \<Rightarrow> 'b \<Rightarrow> (exn + (FlowOutcome \<times> 'b)) option" and f g h s r
    assume IH: "\<And>f g h s r. run f g h s = Some r \<Longrightarrow> g = call \<longrightarrow> (\<forall>out s'. r = Inr (out, s') \<longrightarrow> I s \<longrightarrow> I s')"
      and body: "(case g h s of Inl e \<Rightarrow> Some (Inl e) | Inr (Route ro, s') \<Rightarrow> (case target_for f h ro of
            None \<Rightarrow> Some (Inr (END, s')) | Some target \<Rightarrow> run f g target s')
          | Inr (Outcome out, s') \<Rightarrow> Some (Inr (out, s'))) = Some r"
    show "g = call \<longrightarrow> (\<forall>out s'. r = Inr (out, s') \<longrightarrow> I s \<longrightarrow> I s')"
    proof (intro impI allI)
      fix out s' assume g: "g = call" and r: "r = Inr (out, s')" and s: "I s"
      obtain st t where c: "call h s = Inr (st, t)" using body g r by (auto split: sum.splits)
      have t: "I t" using step [OF s c] .
      show "I s'"
      proof (cases st)
        case (Outcome o')
        then show ?thesis using body g r c t by simp
      next
        case (Route ro)
        show ?thesis
        proof (cases "target_for f h ro")
          case None
          then show ?thesis using body g r c t Route by simp
        next
          case (Some h')
          then have "run f g h' t = Some r" using body g c Route by simp
          from IH [OF this] show ?thesis using g r t by blast
        qed
      qed
    qed
  qed
  then show "run_from f call h s = Some (Inr (out, s')) \<Longrightarrow> I s \<Longrightarrow> I s'" by blast
qed

context state_invariant begin

lemma with_node_Inr: "with_node k c f = Inr x \<Longrightarrow> \<exists>n. map_of (nodes (c_state c)) k = Some n \<and> f n = Inr x"
  by (auto simp: with_node_def split: option.splits)

subsection \<open>The outcome flow\<close>

lemma interpret_outcome_CI: "interpret_outcome llm k n c = Inr (d, c') \<Longrightarrow> CI c \<Longrightarrow> CI c'"
  by (auto simp: interpret_outcome_def Let_def ebind_eq_Inr split: option.splits list.splits)

lemma mark_input_required_CI: "mark_input_required (c, p) = Inr (r, c', p') \<Longrightarrow> CI c \<Longrightarrow> CI c'"
  by (auto simp: mark_input_required_def Let_def ebind_eq_Inr dest!: with_node_Inr intro!: set_node_CI elim!: transition_CI)

lemma revise_step_CI: "revise_step (c, p) = Inr (r, c', p') \<Longrightarrow> CI c \<Longrightarrow> CI c'"
  by (auto simp: revise_step_def ebind_eq_Inr split: option.splits intent.splits if_splits dest: revise_plan_CI)

lemma mark_delivered_CI: "mark_delivered (c, p) = Inr (r, c', p') \<Longrightarrow> CI c \<Longrightarrow> CI c'"
  by (auto simp: mark_delivered_def ebind_eq_Inr dest!: with_node_Inr dest: transition_CI)

lemma arbitrate_step_CI: "arbitrate_step (c, p) = Inr (r, c', p') \<Longrightarrow> CI c \<Longrightarrow> CI c'"
  by (auto simp: arbitrate_step_def ebind_eq_Inr dest!: with_node_Inr dest: arbitrate_mentions_CI)

lemma deliver_queued_CI: "deliver_queued (c, p) = Inr (r, c', p') \<Longrightarrow> CI c \<Longrightarrow> CI c'"
proof -
  assume h: "deliver_queued (c, p) = Inr (r, c', p')" and c: "CI c"
  obtain ms s where t: "take_queued (c_state c) (op_node p) = (ms, s)" by force
  have "Inv s" using inv_take [OF ctx_inv_state [OF c], of "op_node p"] t by simp
  then have "CI (set_state s c)" using c by (intro ctx_inv_set)
  then show "CI c'" using h t
    by (auto simp: deliver_queued_def Let_def ebind_eq_Inr split: if_splits dest!: with_node_Inr dest: spawn_followup_CI)
qed

lemma outcome_call_CI: "outcome_call llm h (c, p) = Inr (r, c', p') \<Longrightarrow> CI c \<Longrightarrow> CI c'"
proof (cases h)
  case H_interpret
  assume "outcome_call llm h (c, p) = Inr (r, c', p')" "CI c"
  with H_interpret show ?thesis by (auto simp: ebind_eq_Inr dest!: with_node_Inr dest: interpret_outcome_CI)
qed (auto dest: mark_input_required_CI revise_step_CI mark_delivered_CI arbitrate_step_CI deliver_queued_CI)

lemma run_outcome_CI: "run_outcome llm k c = Some (Inr (out, c', p')) \<Longrightarrow> CI c \<Longrightarrow> CI c'"
proof -
  assume h: "run_outcome llm k c = Some (Inr (out, c', p'))" and c: "CI c"
  have "(\<lambda>x. CI (fst x)) (c', p')"
    by (rule run_from_invariant [OF _ h [unfolded run_outcome_def flow_run_def]])
       (auto simp: c dest: outcome_call_CI)
  then show "CI c'" by simp
qed

subsection \<open>The settlement flow\<close>

lemma resolve_from_helper_CI: "resolve_from_helper (c, p) = Inr (r, c', p') \<Longrightarrow> CI c \<Longrightarrow> CI c'"
proof -
  assume h: "resolve_from_helper (c, p) = Inr (r, c', p')" and c: "CI c"
  have upd: "CI (set_node k (\<lambda>n. n\<lparr>n_answer_text := a, n_answer_from := b, n_adopted_helpers := n_adopted_helpers n @ [x]\<rparr>) c)"
    for k a b x using c by (rule set_node_CI) simp
  have s: "Inv s1" if "apply_transition_at ((c_state c)\<lparr>nodes := d_modify k (\<lambda>n. n\<lparr>n_answer_text := a, n_answer_from := b,
      n_adopted_helpers := n_adopted_helpers n @ [x]\<rparr>) (nodes (c_state c))\<rparr>) k READY = Inr s1" for k a b x s1
    by (rule inv_transition [OF _ that]) (use upd in \<open>simp add: ctx_inv_def\<close>)
  have e: "CI (set_state s2 (set_state s' c))" if "expire_node_interventions s1 k = (x, s2)" "Inv s1" for s1 s2 k x s'
    using expire_node_Inv [OF that(2,1)] c by (simp add: ctx_inv_def)
  show "CI c'"
  proof (cases "sp_helper p")
    case None
    then show ?thesis using h c by (simp add: resolve_from_helper_def)
  next
    case (Some k)
    then obtain n s1 where n: "map_of (nodes (c_state c)) k = Some n"
      and s1: "apply_transition_at ((c_state c)\<lparr>nodes := d_modify (sp_node p) (\<lambda>m. m\<lparr>n_answer_text := n_output n,
         n_answer_from := Some (n_agent_name n), n_adopted_helpers := n_adopted_helpers m @ [k]\<rparr>) (nodes (c_state c))\<rparr>) (sp_node p) READY = Inr s1"
      using h by (auto simp: resolve_from_helper_def Let_def ebind_eq_Inr dest!: with_node_Inr)
    obtain ex s2 where x: "expire_node_interventions s1 (sp_node p) = (ex, s2)" by force
    have "CI (set_state s2 c)" using e [OF x s [OF s1], of s2] by simp
    then show ?thesis using h Some n s1 x by (auto simp: resolve_from_helper_def Let_def with_node_def)
  qed
qed

lemma decide_assistance_impl_result:
  "decide_assistance_impl llm k n c = Inr (d, c') \<Longrightarrow> c' = c \<or> (\<exists>x. c' = record_decision x c)"
  by (cases "n_question n") (auto simp: decide_assistance_impl_def Let_def ebind_eq_Inr split: if_splits)

lemma decide_assistance_CI: "decide_assistance llm (c, p) = Inr (r, c', p') \<Longrightarrow> CI c \<Longrightarrow> CI c'"
  by (auto simp: decide_assistance_def ebind_eq_Inr dest!: with_node_Inr decide_assistance_impl_result)

lemma request_human_CI: "request_human k d c = Inr c' \<Longrightarrow> CI c \<Longrightarrow> CI c'"
proof -
  assume h: "request_human k d c = Inr c'" and c: "CI c"
  have a: "CI c1" if "execute_function ask_user_tool dump args (ask_user_run k q qt os m) i c = Inr (r, c1)" for dump args q qt os m i r c1
    using that by (rule execute_function_ctx_inv) (rule ask_user_run_CI [OF _ c])
  show "CI c'" using h
    by (auto simp: request_human_def Let_def ebind_eq_Inr dest!: with_node_Inr a intro!: emit_pending_questions_CI)
qed

lemma act_CI: "act (c, p) = Inr (r, c', p') \<Longrightarrow> CI c \<Longrightarrow> CI c'"
  by (auto simp: act_def Let_def ebind_eq_Inr split: option.splits list.splits if_splits dest: spawn_assist_CI request_human_CI)

lemma settlement_call_CI: "settlement_call llm h (c, p) = Inr (r, c', p') \<Longrightarrow> CI c \<Longrightarrow> CI c'"
proof (cases h)
  case H_inspect_helpers
  assume "settlement_call llm h (c, p) = Inr (r, c', p')" "CI c"
  with H_inspect_helpers show ?thesis
    by (auto simp: inspect_helpers_def Let_def split: if_splits list.splits dest!: with_node_Inr)
qed (auto dest: resolve_from_helper_CI decide_assistance_CI act_CI)

lemma settle_node_input_CI: "settle_node_input llm k c = Some (Inr (b, c')) \<Longrightarrow> CI c \<Longrightarrow> CI c'"
proof -
  assume h: "settle_node_input llm k c = Some (Inr (b, c'))" and c: "CI c"
  obtain out p' where run: "flow_run settlement_flow (settlement_call llm) (c, \<lparr>sp_node = k, sp_decision = None, sp_helper = None\<rparr>)
      = Some (Inr (out, c', p'))"
    using h by (auto simp: settle_node_input_def ebind_eq_Inr)
  have "(\<lambda>x. CI (fst x)) (c', p')"
    by (rule run_from_invariant [OF _ run [unfolded flow_run_def]]) (auto simp: c dest: settlement_call_CI)
  then show "CI c'" by simp
qed

lemma settle_all_CI: "settle_all llm ks b c = Some (Inr (b', c')) \<Longrightarrow> CI c \<Longrightarrow> CI c'"
proof (induction ks arbitrary: b c)
  case (Cons k ks)
  from Cons.prems obtain q c1 where "settle_node_input llm k c = Some (Inr (q, c1))"
      and "settle_all llm ks (b \<or> q) c1 = Some (Inr (b', c'))"
    by (auto split: option.splits sum.splits prod.splits)
  then show ?case using Cons.IH Cons.prems(2) settle_node_input_CI by blast
qed simp

lemma settle_input_CI: "settle_input llm c = Some (Inr (b, c')) \<Longrightarrow> CI c \<Longrightarrow> CI c'"
  unfolding settle_input_def by (rule settle_all_CI)

subsection \<open>The plan flow\<close>

lemma exit_wait_CI: "exit_wait c = Inr (r, c') \<Longrightarrow> CI c \<Longrightarrow> CI c'"
  by (auto simp: exit_wait_def Let_def intro!: emit_pending_questions_CI split: if_splits)

lemma repair_CI: "repair llm c = Inr (r, c') \<Longrightarrow> CI c \<Longrightarrow> CI c'"
  by (auto simp: repair_def route_def ebind_eq_Inr split: if_splits dest: repair_plan_CI)

lemma plan_call_CI: "plan_call llm h c = Inr (r, c') \<Longrightarrow> CI c \<Longrightarrow> CI c'"
  by (cases h) (auto simp: check_retryable_def check_input_required_def check_all_completed_def check_repairable_def route_def
      emit_completed_def emit_failed_def stalled_def split: if_splits dest: exit_wait_CI repair_CI)

lemma run_plan_flow_CI: "run_plan_flow llm c = Some (Inr (out, c')) \<Longrightarrow> CI c \<Longrightarrow> CI c'"
  unfolding run_plan_flow_def flow_run_def by (erule run_from_invariant [rotated]) (auto dest: plan_call_CI)

subsection \<open>Planning\<close>

lemma fresh_stream_CI: "fresh_stream call c = (st, c') \<Longrightarrow> CI c' = CI c"
  by (auto simp: fresh_stream_def new_uuid_def split: prod.splits)

lemma close_attempt_CI [simp]: "CI (close_attempt st c) = CI c"
  by (simp add: close_attempt_def Let_def)

lemma stream_item_CI: "stream_item it (st, c) = (st', c') \<Longrightarrow> CI c' = CI c"
  by (cases it) (auto simp: Let_def split: if_splits dest: fresh_stream_CI)

lemma fold_stream_CI: "fold stream_item items (st, c) = (st', c') \<Longrightarrow> CI c' = CI c"
proof (induction items arbitrary: st c)
  case (Cons it items)
  obtain st1 c1 where "stream_item it (st, c) = (st1, c1)" by force
  then show ?case using Cons.IH [of st1 c1] Cons.prems stream_item_CI by simp
qed simp

lemma stream_plan_CI: "stream_plan llm c = (r, c') \<Longrightarrow> CI c \<Longrightarrow> CI c'"
proof -
  assume h: "stream_plan llm c = (r, c')" and c: "CI c"
  obtain items final where p: "plan llm (cfg_max_nodes (c_config c)) (cfg_max_plan_retries (c_config c)) (c_messages c) c = (items, final)"
    by force
  obtain st0 c0 where f: "fresh_stream None c = (st0, c0)" by force
  obtain st c1 where s: "fold stream_item items (st0, c0) = (st, c1)" by force
  have "CI c1" using fold_stream_CI [OF s] fresh_stream_CI [OF f] c by simp
  then show "CI c'" using h by (auto simp: stream_plan_def p f s split: option.splits exn.splits)
qed

lemma compact_history_CI [simp]: "CI (compact_history over summ ret c) = CI c"
  by (auto simp: compact_history_def Let_def split: prod.splits option.splits)

lemma plan_and_launch_CI: "plan_and_launch env content mentions c = Inr c' \<Longrightarrow> CI c \<Longrightarrow> CI c'"
proof -
  assume h: "plan_and_launch env content mentions c = Inr c'" and c: "CI c"
  obtain u c1 where u: "new_uuid c = (u, c1)" by force
  let ?c3 = "record_message USER content (compact_history (pe_over_threshold env) (pe_summarize env) (pe_retention env)
      (set_state (start_new_plan (c_state c1) (py ''plan-'' @ take 8 u)) c1))"
  have c1: "CI c1" using new_uuid_ctx_inv [OF u] c by blast
  have c3: "CI ?c3" using ctx_inv_set [OF c1 inv_new_plan [OF ctx_inv_state [OF c1]]] by simp
  obtain r c4 where s: "stream_plan (pe_llm env) ?c3 = (r, c4)" by force
  have c4: "CI c4" using s c3 by (rule stream_plan_CI)
  show "CI c'"
  proof (cases r)
    case (Inl e)
    then show ?thesis using h u s c4 by (cases e) (auto simp: plan_and_launch_def Let_def)
  next
    case (Inr call)
    obtain i drafts where call: "call = (i, drafts)" by (cases call)
    let ?c5 = "record_decision (py ''[planner] '' @ plan_summary drafts) c4"
    have ex: "CI d" if "execute_function create_plan_tool dump args (create_plan_run drafts) i ?c5 = Inr (x, d)" for dump args x d
      using that by (rule execute_function_ctx_inv) (use c4 in \<open>auto dest: create_plan_run_CI\<close>)
    show ?thesis using h u s c4 Inr call
      by (auto simp: plan_and_launch_def Let_def ebind_eq_Inr split: if_splits dest!: ex dest: join_members_CI)
  qed
qed

end

section \<open>Messages, nodes and the scheduler\<close>

lemma slots_bound: "b \<le> nat (max 0 (m - int a)) \<Longrightarrow> int a \<le> max 0 m \<Longrightarrow> int (a + b) \<le> max 0 m"
  by linarith

context state_invariant begin

subsection \<open>Recovery and messages\<close>

lemma recover_session_CI: "recover_session tasks c = Inr c' \<Longrightarrow> CI c \<Longrightarrow> CI c'"
proof -
  assume h: "recover_session tasks c = Inr c'" and c: "CI c"
  obtain expired s1 where n: "normalize_interventions (c_state c) = (expired, s1)" by force
  have s1: "Inv s1" using inv_expire [OF ctx_inv_state [OF c], of "\<lambda>_. True"] n by (simp add: normalize_interventions_def)
  have e: "emap (\<lambda>(k, n). ebind (recover_node n) (\<lambda>n'. Inr (k, n'))) (nodes s1) = Inr (map (\<lambda>(k, n). (k, recovered n)) (nodes s1))"
    by (rule emap_total) (auto simp: recover_node_total)
  have "CI (set_state (s1\<lparr>nodes := map (\<lambda>(k, n). (k, recovered n)) (nodes s1)\<rparr>) c)"
    using c inv_recover [OF s1] by (rule ctx_inv_set)
  then show "CI c'" using h n e
    by (auto simp: recover_session_def Let_def ctx_inv_def split: prod.splits)
qed

lemma build_ctx_CI [simp]: "CI (build_ctx c) = CI c"
  by (simp add: build_ctx_def)

lemma with_responses_CI: "with_responses v parts c = Inr c' \<Longrightarrow> CI c' = CI c"
  by (auto simp: with_responses_def split: option.splits sum.splits exn.splits)

lemma prepare_inbound_CI: "prepare_inbound env (c, rq) = Inr (r, c', rq') \<Longrightarrow> CI c \<Longrightarrow> CI c'"
  by (auto simp: prepare_inbound_def Let_def ebind_eq_Inr split: if_splits dest: with_responses_CI)

lemma answer_all_CI: "answer_all rs (b, c) = Inr (b', c') \<Longrightarrow> CI c \<Longrightarrow> CI c'"
proof (induction rs arbitrary: b c)
  case (Cons r rs)
  then show ?case by (auto simp: ebind_eq_Inr dest: answer_intervention_CI)
qed simp

lemma do_answers_CI: "do_answers (c, rq) = Inr (r, c', rq') \<Longrightarrow> CI c \<Longrightarrow> CI c'"
  by (auto simp: do_answers_def Let_def ebind_eq_Inr split: if_splits dest!: answer_all_CI intro: emit_pending_questions_CI)

lemma finish_CI: "finish c rq = Inr (r, c', rq') \<Longrightarrow> CI c \<Longrightarrow> CI c'"
  by (auto simp: finish_def)

lemma do_enqueue_CI: "do_enqueue (c, rq) = Inr (r, c', rq') \<Longrightarrow> CI c \<Longrightarrow> CI c'"
proof -
  assume h: "do_enqueue (c, rq) = Inr (r, c', rq')" and c: "CI c"
  have "CI (set_state (snd (enqueue now (c_state c) k x sender q)) (c\<lparr>c_tick := t\<rparr>))" for now k x sender q t
    using ctx_inv_set [OF c inv_enqueue [OF ctx_inv_state [OF c]]] by (simp add: ctx_inv_def)
  then show "CI c'" using h c by (auto simp: do_enqueue_def split: option.splits elim!: finish_CI)
qed

lemma do_spawn_followup_CI: "do_spawn_followup (c, rq) = Inr (r, c', rq') \<Longrightarrow> CI c \<Longrightarrow> CI c'"
proof -
  assume h: "do_spawn_followup (c, rq) = Inr (r, c', rq')" and c: "CI c"
  have f: "CI d" if "spawn_followup_node x k a ds (record_message USER x c) = Inr d" for x k a ds d
    using that by (rule spawn_followup_CI) (simp add: c)
  show "CI c'" using h c
    by (auto simp: do_spawn_followup_def ebind_eq_Inr split: option.splits dest!: with_node_Inr f elim: finish_CI)
qed

lemma do_interrupt_CI: "do_interrupt (c, rq) = Inr (r, c', rq') \<Longrightarrow> CI c \<Longrightarrow> CI c'"
proof -
  assume h: "do_interrupt (c, rq) = Inr (r, c', rq')" and c: "CI c"
  show "CI c'"
  proof (cases "c_target c")
    case None
    then show ?thesis using h c by (auto simp: do_interrupt_def elim: finish_CI)
  next
    case (Some k)
    obtain n s1 s2 c2 where s1: "apply_transition_at (c_state c) k CANCELED = Inr s1"
      and s2: "invalidate_all (map n_id (blocked_nodes s1)) s1 = Inr s2"
      and f: "spawn_followup_node (c_text c) k (n_agent_name n) []
         (emit_state_delta (canceled_delta n # invalidated_delta (map n_id (blocked_nodes s1))) [] []
           (set_state s2 (request_cancel n (record_message USER (c_text c) c)))) = Inr c2"
      and fin: "finish c2 rq = Inr (r, c', rq')"
      using h Some by (auto simp: do_interrupt_def Let_def ebind_eq_Inr dest!: with_node_Inr)
    have i: "Inv s2" using invalidate_all_Inv [OF s2 inv_transition [OF ctx_inv_state [OF c] s1]] .
    have "CI (set_state s2 (request_cancel n (record_message USER (c_text c) c)))"
      by (rule ctx_inv_set [where P = Inv and cfg = cfg]) (simp_all add: i c)
    then have "CI c2" using spawn_followup_CI [OF f] by simp
    then show ?thesis by (rule finish_CI [OF fin])
  qed
qed

lemma classify_CI: "classify_inbound (c, rq) = Inr (r, c', rq') \<Longrightarrow> CI c \<Longrightarrow> CI c'"
  "classify_room (c, rq) = Inr (r2, c'', rq'') \<Longrightarrow> CI c \<Longrightarrow> CI c''"
proof -
  show "classify_inbound (c, rq) = Inr (r, c', rq') \<Longrightarrow> CI c \<Longrightarrow> CI c'"
    by (auto simp: classify_inbound_def split: if_splits)
  have u: "classify_unquoted q i (c, rq) = Inr (r2, d, rq'') \<Longrightarrow> CI c \<Longrightarrow> CI d" for q i d
    by (auto simp: classify_unquoted_def split: bool.splits list.splits option.splits)
  show "classify_room (c, rq) = Inr (r2, c'', rq'') \<Longrightarrow> CI c \<Longrightarrow> CI c''"
    by (auto simp: classify_room_def Let_def split: if_splits option.splits list.splits elim!: u)
qed

lemma message_call_CI: "message_call env h (c, rq) = Inr (r, c', rq') \<Longrightarrow> CI c \<Longrightarrow> CI c'"
  by (cases h) (auto simp: do_recover_def do_reject_def do_reemit_questions_def do_complete_def do_plan_and_launch_def
      do_new_plan_def ebind_eq_Inr intro!: emit_pending_questions_CI split: if_splits
      dest: prepare_inbound_CI recover_session_CI classify_CI do_answers_CI plan_and_launch_CI finish_CI do_enqueue_CI
      do_spawn_followup_CI do_interrupt_CI)

lemma run_message_CI: "run_message env rq c = Some (Inr (out, c', rq')) \<Longrightarrow> CI c \<Longrightarrow> CI c'"
proof -
  assume h: "run_message env rq c = Some (Inr (out, c', rq'))" and c: "CI c"
  have "(\<lambda>x. CI (fst x)) (c', rq')"
    by (rule run_from_invariant [OF _ h [unfolded run_message_def flow_run_def]]) (auto simp: c dest: message_call_CI)
  then show "CI c'" by simp
qed

subsection \<open>Node execution\<close>

lemma begin_node_CI: "begin_node mode k c = Inr c' \<Longrightarrow> CI c \<Longrightarrow> CI c'"
proof -
  assume h: "begin_node mode k c = Inr c'" and c: "CI c"
  have "CI (if mode = M_recover then c else set_node k (\<lambda>n. n\<lparr>n_attempt := n_attempt n + 1\<rparr>) c)"
    using set_node_CI [OF c, of "\<lambda>n. n\<lparr>n_attempt := n_attempt n + 1\<rparr>" k] c by simp
  then show "CI c'" using h
    by (auto simp: begin_node_def Let_def split: node_mode.splits dest!: with_node_Inr dest: transition_CI)
qed

lemma build_node_text_CI: "build_node_text k n c = Inr (txt, c') \<Longrightarrow> CI c \<Longrightarrow> CI c'"
  by (auto simp: build_node_text_def ebind_eq_Inr split: option.splits intro!: set_node_CI)

lemma node_artifact_CI [simp]: "CI (node_artifact n i name txt app l c) = CI c"
  by (simp add: node_artifact_def)

lemma consume_chunk_CI: "consume_chunk k n ch (current, arts, c) = (e, current', arts', c') \<Longrightarrow> CI c \<Longrightarrow> CI c'"
proof (cases ch)
  case (TaskChunk t)
  assume h: "consume_chunk k n ch (current, arts, c) = (e, current', arts', c')" and c: "CI c"
  let ?c1 = "set_node k (\<lambda>n. n\<lparr>n_a2a_task_id := (if rt_id t = [] then n_a2a_task_id n else Some (rt_id t))\<rparr>) c"
  have c1: "CI ?c1" using c by (rule set_node_CI) simp
  have "CI (set_state s ?c1)" if "(if P then apply_transition_at (c_state ?c1) k SUBMITTED else Inr (c_state ?c1)) = Inr s" for P s
    using that c1 transition_at_CI [OF _ c1, of k SUBMITTED s] by (auto split: if_splits)
  then show ?thesis using h TaskChunk c1 by (auto simp: Let_def split: sum.splits)
next
  case (StatusChunk st msg)
  assume h: "consume_chunk k n ch (current, arts, c) = (e, current', arts', c')" and c: "CI c"
  have "CI (set_node k (\<lambda>n. n\<lparr>n_question := Some x\<rparr>) c)" for x using c by (rule set_node_CI) simp
  then show ?thesis using h StatusChunk c by (auto simp: Let_def split: option.splits NodeStatus.splits if_splits)
qed auto

lemma store_output_CI: "CI c \<Longrightarrow> CI (set_node k (\<lambda>n. n\<lparr>n_output := x\<rparr>) c)"
  by (rule set_node_CI) simp_all

lemma adopt_poll_CI: "adopt_poll k t current c = (st, c') \<Longrightarrow> CI c \<Longrightarrow> CI c'"
proof -
  assume h: "adopt_poll k t current c = (st, c')" and c: "CI c"
  have q: "CI (set_node k (\<lambda>n. n\<lparr>n_question := Some x\<rparr>) d)" if "CI d" for x d using that by (rule set_node_CI) simp
  define c1 where "c1 = (if rt_artifacts t \<noteq> [] \<and> st = COMPLETED \<and> polled_output t \<noteq> []
      then set_node k (\<lambda>n. n\<lparr>n_output := Some (polled_output t)\<rparr>) c else c)"
  have c1: "CI c1" using c by (simp add: c1_def store_output_CI)
  have m: "(case REMOTE_STATE_MAP (rt_state t) of None \<Rightarrow> current | Some x \<Rightarrow> x) = st"
    using h by (simp add: adopt_poll_def Let_def)
  have "c' = (case (st, rt_message t) of (INPUT_REQUIRED, Some x) \<Rightarrow> set_node k (\<lambda>n. n\<lparr>n_question := Some x\<rparr>) c1 | _ \<Rightarrow> c1)"
    using h m unfolding adopt_poll_def Let_def c1_def by (simp only: prod.inject simp_thms)
  then show "CI c'" using c1 q by (simp split: NodeStatus.split option.split)
qed

lemma consume_loop_CI: "CI c \<Longrightarrow> CI (snd (consume_loop estr k chs fin (current, arts, c)))"
proof (induction chs arbitrary: current arts c)
  case Nil
  then show ?case by (auto split: stream_end.splits intro: store_output_CI)
next
  case (Cons ch chs)
  show ?case
  proof (cases "map_of (nodes (c_state c)) k")
    case (Some n)
    obtain e cur1 arts1 c1 where ch: "consume_chunk k n ch (current, arts, c) = (e, cur1, arts1, c1)"
      by (cases "consume_chunk k n ch (current, arts, c)")
    then have "CI c1" using Cons.prems by (rule consume_chunk_CI)
    then show ?thesis using Some ch Cons.IH by (cases e) simp_all
  qed (use Cons.prems in simp)
qed

lemma consume_chunks_CI: "CI c \<Longrightarrow> consume_chunks estr k stream c = (r, c') \<Longrightarrow> CI c'"
  using consume_loop_CI [of c estr k "rs_chunks stream" "rs_end stream" WORKING "[]"] by (simp add: consume_chunks_def)

lemma ensure_terminal_CI: "CI c \<Longrightarrow> ensure_terminal estr k ps current c = (r, c') \<Longrightarrow> CI c'"
proof (induction ps arbitrary: current c)
  case Nil
  then show ?case by (auto split: if_splits option.splits)
next
  case (Cons p ps)
  show ?case
  proof (cases "current \<in> SETTLED_STATUSES \<or> map_of (nodes (c_state c)) k = None")
    case True
    then show ?thesis using Cons.prems by (auto split: if_splits option.splits)
  next
    case False
    then obtain n where n: "map_of (nodes (c_state c)) k = Some n" by blast
    show ?thesis
    proof (cases "n_a2a_task_id n = None \<or> n_a2a_task_id n = Some [] \<or> (\<exists>m. po_task p = Inl m)")
      case True
      then show ?thesis using Cons.prems n False by (auto split: if_splits)
    next
      case a: False
      then obtain polled where po: "po_task p = Inr polled" by (cases "po_task p") auto
      obtain cur1 c1 where c1: "(case polled of None \<Rightarrow> (current, c) | Some t \<Rightarrow> adopt_poll k t current c) = (cur1, c1)"
        by fastforce
      have i1: "CI c1" using c1 Cons.prems(1) by (auto split: option.splits dest: adopt_poll_CI)
      obtain r2 c2 where c2: "consume_chunks estr k (po_stream p) c1 = (r2, c2)" by force
      have i2: "CI c2" using i1 c2 by (rule consume_chunks_CI)
      show ?thesis using Cons.prems(2) False n a po c1 c2 i1 i2 Cons.IH [OF i2]
        by (cases r2) (auto split: if_splits)
    qed
  qed
qed

lemma stream_remote_CI: "CI c \<Longrightarrow> stream_remote env k n txt cont c = (r, c') \<Longrightarrow> CI c'"
  by (auto simp: stream_remote_def split: sum.splits prod.splits remote_end.splits dest: consume_chunks_CI ensure_terminal_CI)

lemma recover_remote_CI: "CI c \<Longrightarrow> recover_remote env k n c = (r, c') \<Longrightarrow> CI c'"
  by (auto simp: recover_remote_def split: sum.splits option.splits list.splits prod.splits remote_end.splits
      dest: consume_chunks_CI ensure_terminal_CI)

lemma call_remote_CI: "CI c \<Longrightarrow> call_remote env mode k n c = (r, c') \<Longrightarrow> CI c'"
  by (auto simp: call_remote_def split: if_splits sum.splits prod.splits dest: stream_remote_CI recover_remote_CI build_node_text_CI)

lemma store_error_CI: "CI c \<Longrightarrow> CI (store_error k r c)"
  by (auto simp: store_error_def split: remote_end.splits intro!: set_node_CI)

lemma settle_node_CI: "settle_node llm r k c = Some (Inr c') \<Longrightarrow> CI c \<Longrightarrow> CI c'"
proof -
  assume h: "settle_node llm r k c = Some (Inr c')" and c: "CI c"
  have c1: "CI (store_error k r' c)" for r' using c by (rule store_error_CI)
  have c2: "CI (record_decision x (store_error k r' c))" for x r' using c1 by simp
  show "CI c'" using h c1
    by (auto simp: settle_node_def Let_def ebind_eq_Inr split: option.splits remote_end.splits NodeStatus.splits list.splits
        dest: transition_CI run_outcome_CI [OF _ c1] run_outcome_CI [OF _ c2])
qed

lemma close_node_CI: "CI c \<Longrightarrow> CI (close_node k c)"
proof -
  assume c: "CI c"
  obtain ex s where e: "expire_node_interventions (c_state c) k = (ex, s)" by force
  have "CI (set_state s c)" using c expire_node_Inv [OF ctx_inv_state [OF c] e] by (rule ctx_inv_set)
  then show "CI (close_node k c)" using e by (auto simp: close_node_def intro!: emit_pending_questions_CI)
qed

subsection \<open>The scheduler\<close>

lemma retry_failed_Inv: "retry_failed m s = Inr s' \<Longrightarrow> Inv s \<Longrightarrow> Inv s'"
proof -
  assume h: "retry_failed m s = Inr s'" and s: "Inv s"
  have one: "Inv t'" if "Inv t" "retry_one m k t = Inr t'" for t t' k
  proof -
    have "Inv (u\<lparr>nodes := d_modify k (\<lambda>n. n\<lparr>n_error := None\<rparr>) (nodes u)\<rparr>)" if "Inv u" for u
      using that by (rule inv_touch) simp
    then show ?thesis using that by (auto simp: retry_one_def ebind_eq_Inr split: option.splits if_splits dest: inv_transition)
  qed
  show "Inv s'" using h s unfolding retry_failed_def by (rule efold_invariant) (use one in blast)
qed

lemma submit_Inv: "efold submit_one xs s = Inr s' \<Longrightarrow> Inv s \<Longrightarrow> Inv s'"
  by (erule efold_invariant) (auto simp: submit_one_def split: if_splits dest: inv_transition)

lemma place_spawned:
  "place_of r (fold (\<lambda>(k, mode). spawn_node_task k) xs c) = place_of r c" "own_row (fold (\<lambda>(k, mode). spawn_node_task k) xs c) = own_row c"
  "place_of r (fold announce_one xs c) = place_of r c" "own_row (fold announce_one xs c) = own_row c"
  "place_of r (spawn_settlements c) = place_of r c" "own_row (spawn_settlements c) = own_row c"
proof -
  show "place_of r (fold (\<lambda>(k, mode). spawn_node_task k) xs c) = place_of r c" "own_row (fold (\<lambda>(k, mode). spawn_node_task k) xs c) = own_row c"
    by (induction xs arbitrary: c) (auto simp: spawn_node_task_def)
  have "place_of r (announce_one x d) = place_of r d \<and> own_row (announce_one x d) = own_row d" for x d
    by (simp add: announce_one_def split: prod.split option.split)
  then show "place_of r (fold announce_one xs c) = place_of r c" "own_row (fold announce_one xs c) = own_row c"
    by (induction xs arbitrary: c) simp_all
  have "place_of r (fold (\<lambda>n. spawn_settle_task (n_id n)) ns d) = place_of r d \<and> own_row (fold (\<lambda>n. spawn_settle_task (n_id n)) ns d) = own_row d" for ns :: "NodeState list" and d
    by (induction ns arbitrary: d) (simp_all add: spawn_settle_task_def)
  then show "place_of r (spawn_settlements c) = place_of r c" "own_row (spawn_settlements c) = own_row c"
    by (simp_all add: spawn_settlements_def Let_def)
qed

lemma runner_round_CI:
  assumes h: "runner_round c = Inr c'" and c: "CI c"
  shows "CI c'"
proof -
  obtain s1 where s1: "retry_failed (cfg_max_node_attempts (c_config c)) (c_state c) = Inr s1"
    using h by (auto simp: runner_round_def ebind_eq_Inr)
  let ?c1 = "spawn_settlements (set_state s1 (c\<lparr>c_wake := False\<rparr>))"
  let ?b = "dispatch_batch ?c1"
  obtain s2 where s2: "efold submit_one ?b s1 = Inr s2"
    and c': "c' = (let c2 = fold (\<lambda>(k, mode). spawn_node_task k) ?b (fold announce_one ?b (set_state s2 ?c1))
       in if ?b \<noteq> [] then persist c2 else c2)"
    using h s1 by (auto simp: runner_round_def ebind_eq_Inr Let_def)
  let ?c2 = "fold (\<lambda>(k, mode). spawn_node_task k) ?b (fold announce_one ?b (set_state s2 ?c1))"
  have "Inv s1" using s1 ctx_inv_state [OF c] by (rule retry_failed_Inv)
  then have i2: "Inv s2" by (rule submit_Inv [OF s2])
  have st: "c_state ?c2 = s2" using fold_spawn_frame [of ?b "fold announce_one ?b (set_state s2 ?c1)"] by simp
  have cf: "c_config (fold (\<lambda>(k, mode). spawn_node_task k) xs d) = c_config d" for xs d
    by (induction xs arbitrary: d) auto
  have "map snd (c_node_tasks ?c2) = map snd (c_node_tasks c) @ map fst ?b"
    using fold_spawn_frame [of ?b "fold announce_one ?b (set_state s2 ?c1)"] by simp
  then have len: "length (c_node_tasks ?c2) = length (c_node_tasks c) + length ?b"
    by (metis length_append length_map)
  have "length ?b \<le> nat (max 0 (cfg_max_parallel (c_config c) - int (length (c_node_tasks c))))"
    by (simp add: dispatch_batch_def free_slots_def)
  moreover have "c_config c = cfg" "int (length (c_node_tasks c)) \<le> max 0 (cfg_max_parallel cfg)"
    using c by (simp_all add: ctx_inv_def)
  ultimately have "int (length (c_node_tasks ?c2)) \<le> max 0 (cfg_max_parallel cfg)"
    unfolding len by (intro slots_bound) simp_all
  then have "CI ?c2" unfolding ctx_inv_def using st i2 c by (simp add: cf ctx_inv_def place_spawned)
  then show ?thesis unfolding c' Let_def using ctx_inv_persist by auto
qed

lemma finish_node_task_CI: "finish_node_task i e c = Inr c' \<Longrightarrow> CI c \<Longrightarrow> CI c'"
proof -
  assume h: "finish_node_task i e c = Inr c'" and c: "CI c"
  let ?c1 = "c\<lparr>c_node_tasks := AList.delete i (c_node_tasks c)\<rparr>"
  have "length (AList.delete i (c_node_tasks c)) \<le> length (c_node_tasks c)" by (simp add: AList.delete_eq)
  then have c1: "CI ?c1" using c by (auto simp: ctx_inv_def)
  have t: "CI d" if "transition k FAILED False [] ?c1 = Inr d" for k d using that c1 by (rule transition_CI)
  have u: "CI (set_node k (\<lambda>n. n\<lparr>n_error := Some m\<rparr>) d)" if "CI d" for k m d using that by (rule set_node_CI) simp
  show "CI c'" using h c c1 u [OF c1]
    by (auto simp: finish_node_task_def Let_def ebind_eq_Inr split: option.splits if_splits dest!: t intro!: u)
qed

lemma finish_settle_task_CI [simp]: "CI (finish_settle_task i c) = CI c"
  by (simp add: finish_settle_task_def)

lemma runner_idle_CI: "runner_idle llm c = Some (Inr (b, c')) \<Longrightarrow> CI c \<Longrightarrow> CI c'"
  by (auto simp: runner_idle_def ebind_eq_Inr split: if_splits dest: run_plan_flow_CI)

lemma runner_crashed_CI: "CI c \<Longrightarrow> CI (runner_crashed c)"
  by (auto simp: runner_crashed_def intro!: ctx_inv_cleanup ctx_inv_evict)

lemma fold_cancel_CI: "CI (fold request_cancel ns c) = CI c"
  by (induction ns arbitrary: c) simp_all

lemma cancel_turn_CI: "cancel_turn tid c = Inr c' \<Longrightarrow> CI c \<Longrightarrow> CI c'"
proof -
  assume h: "cancel_turn tid c = Inr c'" and c: "CI c"
  have i: "Inv s" if "cancel_open (c_state c) = Inr s" for s
    using that ctx_inv_state [OF c] unfolding cancel_open_def by (rule efold_invariant) (auto dest: inv_transition)
  show "CI c'"
  proof (cases "c_active c")
    case False
    then show ?thesis using h c by (auto simp: cancel_turn_def)
  next
    case True
    let ?ev = "c_events c @ [(tid, c_context_id c, StatusUpdate TASK_CANCELED [] None None)]"
    obtain s where s: "cancel_open (c_state c) = Inr s" using h True by (auto simp: cancel_turn_def Let_def ebind_eq_Inr)
    let ?c1 = "persist (set_state s (c\<lparr>c_events := ?ev, c_runner := False\<rparr>))"
    have "CI ?c1" using i [OF s] c by (simp add: ctx_inv_def)
    then have "CI (fold request_cancel ns ?c1)" for ns by (simp only: fold_cancel_CI)
    then show ?thesis using h True s by (auto simp: cancel_turn_def Let_def intro!: ctx_inv_evict)
  qed
qed

end

section \<open>The interleaved system\<close>

text \<open>One step of a session.  The environment chooses everything it controls: the messages and answers of
  users, what language models and remote agents answer, which task goes on, which exception a task ends
  with.  A node's execution takes its steps (start, text, each chunk, each poll, output, settling,
  closing) one at a time and in any order, which includes every schedule of the event loop between them;
  a flow run, a scheduler round and a cancellation are single steps (the code runs them under the
  session lock, settlements and outcome flows excepted).\<close>

inductive sys_step :: "ctx \<Rightarrow> ctx \<Rightarrow> bool" where
  sys_turn: "sys_step c (c\<lparr>c_task_id := t, c_active := True\<rparr>)"
| sys_message: "run_message env rq c = Some (Inr (out, c', rq')) \<Longrightarrow> sys_step c c'"
| sys_round: "runner_round c = Inr c' \<Longrightarrow> sys_step c c'"
| sys_begin: "begin_node mode k c = Inr c' \<Longrightarrow> sys_step c c'"
| sys_text: "build_node_text k n c = Inr (txts, c') \<Longrightarrow> sys_step c c'"
| sys_chunk: "consume_chunk k n ch (current, arts, c) = (e, current', arts', c') \<Longrightarrow> sys_step c c'"
| sys_poll: "adopt_poll k t current c = (st, c') \<Longrightarrow> sys_step c c'"
| sys_output: "sys_step c (set_node k (\<lambda>n. n\<lparr>n_output := artifacts_output arts\<rparr>) c)"
| sys_settle_node: "settle_node llm r k c = Some (Inr c') \<Longrightarrow> sys_step c c'"
| sys_close: "sys_step c (close_node k c)"
| sys_node_done: "finish_node_task i e c = Inr c' \<Longrightarrow> sys_step c c'"
| sys_settlement: "settle_node_input llm2 k c = Some (Inr (b, c')) \<Longrightarrow> sys_step c c'"
| sys_settle_done: "sys_step c (finish_settle_task i c)"
| sys_idle: "runner_idle llm3 c = Some (Inr (b, c')) \<Longrightarrow> sys_step c c'"
| sys_crash: "sys_step c (runner_crashed c)"
| sys_cancel: "cancel_turn t c = Inr c' \<Longrightarrow> sys_step c c'"

inductive_cases sys_stepE: "sys_step c c'"

context state_invariant begin

lemma sys_step_CI: "sys_step c c' \<Longrightarrow> CI c \<Longrightarrow> CI c'"
proof (induction rule: sys_step.induct)
  case (sys_message env rq c out c' rq')
  then show ?case by (rule run_message_CI)
next
  case (sys_chunk k n ch current arts c e current' arts' c')
  then show ?case by (rule consume_chunk_CI)
next
  case (sys_poll k t current c st c')
  then show ?case by (rule adopt_poll_CI)
next
  case (sys_settle_node llm r k c c')
  then show ?case by (rule settle_node_CI)
next
  case (sys_settlement llm2 k c b c')
  then show ?case by (rule settle_node_input_CI)
next
  case (sys_idle llm3 c b c')
  then show ?case by (rule runner_idle_CI)
qed (auto intro: runner_round_CI begin_node_CI build_node_text_CI store_output_CI close_node_CI finish_node_task_CI
      runner_crashed_CI cancel_turn_CI)

lemma sys_steps_CI: "sys_step\<^sup>*\<^sup>* c c' \<Longrightarrow> CI c \<Longrightarrow> CI c'"
  by (induction rule: rtranclp_induct) (auto intro: sys_step_CI)

end

section \<open>The invariants\<close>

lemma recovered_id [simp]: "n_id (recovered n) = n_id n"
  by (simp add: recovered_def)

lemma list_all_map_values: "list_all (\<lambda>(k, v). P k v) (map (\<lambda>(k, v). (k, f v)) d) = list_all (\<lambda>(k, v). P k (f v)) d"
  by (induction d) auto

lemma list_all_modify: "list_all (\<lambda>(k, v). P k v) d \<Longrightarrow> (\<And>k v. P k v \<Longrightarrow> P k (f v)) \<Longrightarrow> list_all (\<lambda>(k, v). P k v) (d_modify j f d)"
  by (induction d) (auto simp: d_modify_def)

definition session_wf :: "OrchestrationState \<Rightarrow> bool" where
  "session_wf s \<longleftrightarrow> state_wf s \<and> queue_ids_wf s"

lemma queue_ids_frame: "queue_ids_wf s \<Longrightarrow> queue s' = queue s \<Longrightarrow> next_message s' = next_message s \<Longrightarrow> queue_ids_wf s'"
  by (simp add: queue_ids_wf_def queued_ids_def)

text \<open>Well-formedness and unique message ids.\<close>

interpretation swf: state_invariant session_wf cfg pl for cfg pl
proof unfold_locales
  fix s s' :: OrchestrationState and k to and f :: "NodeState \<Rightarrow> NodeState" and g :: "Intervention \<Rightarrow> Intervention"
    and n :: NodeState and now name reason i q r x sender pid :: pystr and sel kd qt os m quote and cnt :: int
  assume s: "session_wf s"
  then have w: "state_wf s" and u: "queue_ids_wf s" by (simp_all add: session_wf_def)
  show "session_wf s'" if "apply_transition_at s k to = Inr s'"
    using apply_transition_at_wf [OF w that] apply_transition_at_frame [OF that] queue_ids_frame [OF u, of s']
    by (simp add: session_wf_def)
  show "session_wf (s\<lparr>nodes := d_modify k f (nodes s)\<rparr>)" if h: "\<And>n. n_id (f n) = n_id n \<and> n_status (f n) = n_status n"
    using w h unfolding session_wf_def by (auto simp: state_wf_def dict_wf_def intro!: list_all_modify queue_ids_frame [OF u])
  show "session_wf (s\<lparr>nodes := map (\<lambda>(k, n). (k, recovered n)) (nodes s)\<rparr>)"
    using w unfolding session_wf_def
    by (auto simp: state_wf_def dict_wf_def list_all_map_values case_prod_beta comp_def intro!: queue_ids_frame [OF u])
  show "session_wf (s\<lparr>nodes := AList.update k n (nodes s)\<rparr>)" if "n_id n = k"
    using w that unfolding session_wf_def by (auto simp: state_wf_def pd.wf_put intro!: list_all_update queue_ids_frame [OF u])
  show "session_wf (snd (add_member now s name reason))"
    using add_member_wf [OF w] unfolding session_wf_def by (auto simp: add_member_def intro!: queue_ids_frame [OF u])
  show "session_wf (snd (expire_where sel s))"
    using expire_where_wf [OF w] unfolding session_wf_def by (auto simp: expire_where_def Let_def intro!: queue_ids_frame [OF u])
  show "session_wf (snd (request_user_input i now s k q kd qt os m r))"
    using request_user_input_wf [OF w] unfolding session_wf_def
    by (auto simp: request_user_input_def Let_def intro!: queue_ids_frame [OF u])
  show "session_wf (s\<lparr>interventions := d_modify k g (interventions s)\<rparr>)"
    if h: "\<And>iv. iv_id (g iv) = iv_id iv \<and> iv_node_id (g iv) = iv_node_id iv \<and> (iv_status (g iv) = IV_PENDING \<longrightarrow> iv_status iv = IV_PENDING)"
    using w h unfolding session_wf_def by (auto simp: state_wf_def dict_wf_def intro!: list_all_modify queue_ids_frame [OF u])
  show "session_wf (snd (enqueue now s k x sender quote))"
    using u enqueue_wf [OF w] enqueue_ids_wf [OF _ u] w by (simp add: session_wf_def state_wf_def)
  show "session_wf (snd (take_queued s k))"
    using take_queued_wf [OF w] take_queued_ids_wf [OF u] by (simp add: session_wf_def)
  show "session_wf (start_new_plan s pid)"
    using start_new_plan_wf [OF w] by (simp add: session_wf_def queue_ids_wf_def queued_ids_def start_new_plan_def)
  show "session_wf (s\<lparr>patch_count := cnt\<rparr>)" "session_wf (s\<lparr>derived_count := derived_count s + 1\<rparr>)"
    "session_wf (s\<lparr>revision_count := revision_count s + 1\<rparr>)"
    using w unfolding session_wf_def by (auto simp: state_wf_def intro!: queue_ids_frame [OF u])
qed

lemma pending_count_frame: "one_pending s \<Longrightarrow> interventions s' = interventions s \<Longrightarrow> one_pending s'"
  by (simp add: one_pending_def pending_count_for_def)

lemma filter_modify_le:
  assumes "\<And>v. Q (g v) \<Longrightarrow> Q v"
  shows "length (filter Q (d_values (d_modify k g d))) \<le> length (filter Q (d_values d))"
proof (induction d)
  case (Cons p d)
  have c: "d_modify k g (p # d) = (fst p, if fst p = k then g (snd p) else snd p) # d_modify k g d"
    by (simp add: d_modify_def case_prod_beta)
  show ?case unfolding c using Cons.IH assms [of "snd p"] by auto
qed (simp add: d_modify_def)

text \<open>At most one pending question per node.\<close>

interpretation onep: state_invariant one_pending cfg pl for cfg pl
proof unfold_locales
  fix s s' :: OrchestrationState and k to and g :: "Intervention \<Rightarrow> Intervention"
    and now name reason i q r x sender pid :: pystr and sel kd qt os m quote
  assume s: "one_pending s"
  show "one_pending s'" if "apply_transition_at s k to = Inr s'" using s that by simp
  show "one_pending (snd (add_member now s name reason))" "one_pending (snd (enqueue now s k x sender quote))"
    "one_pending (snd (take_queued s k))"
    by (rule pending_count_frame [OF s]; simp add: add_member_def enqueue_def take_queued_def Let_def)+
  show "one_pending (snd (expire_where sel s))" using s by (rule expire_where_one_pending)
  show "one_pending (snd (request_user_input i now s k q kd qt os m r))" using s by (rule request_user_input_one_pending)
  show "one_pending (s\<lparr>interventions := d_modify k g (interventions s)\<rparr>)"
    if h: "\<And>iv. iv_id (g iv) = iv_id iv \<and> iv_node_id (g iv) = iv_node_id iv \<and> (iv_status (g iv) = IV_PENDING \<longrightarrow> iv_status iv = IV_PENDING)"
  proof -
    have "pending_count_for (s\<lparr>interventions := d_modify k g (interventions s)\<rparr>) j \<le> 1" for j
    proof -
      let ?Q = "\<lambda>iv. iv_node_id iv = j \<and> iv_status iv = IV_PENDING"
      have "length (filter ?Q (d_values (d_modify k g (interventions s)))) \<le> length (filter ?Q (d_values (interventions s)))"
        by (rule filter_modify_le) (use h in auto)
      also have "\<dots> \<le> 1" using s by (simp add: one_pending_def pending_count_for_def)
      finally show ?thesis by (simp add: pending_count_for_def)
    qed
    then show ?thesis by (simp add: one_pending_def)
  qed
  show "one_pending (start_new_plan s pid)" by (rule start_new_plan_one_pending)
qed (erule pending_count_frame; simp)+

definition within_budget :: "ExecutorConfig \<Rightarrow> OrchestrationState \<Rightarrow> bool" where
  "within_budget cfg s \<longleftrightarrow> derived_count s \<le> max 0 (cfg_max_derived_nodes cfg) \<and> revision_count s \<le> max 0 (cfg_max_revisions cfg)"

text \<open>The budgets of helper nodes and of plan revisions.\<close>

interpretation budget: state_invariant "within_budget cfg" cfg pl for cfg pl
proof unfold_locales
  fix s s' :: OrchestrationState and k to
  assume s: "within_budget cfg s" and t: "apply_transition_at s k to = Inr s'"
  show "within_budget cfg s'" using s apply_transition_at_frame [OF t] by (simp add: within_budget_def)
qed (auto simp: within_budget_def add_member_def expire_where_def request_user_input_def enqueue_def take_queued_def
      start_new_plan_def Let_def)



end
