(* ===== verification/Node_Path.thy ===== *)
theory Node_Path
  imports Prelude "HOL-Library.Sublist"
begin

text \<open>
  Paths of nodes in nested workflows, \<open>NodePathBuilder\<close> of \<open>new_choirworks/core/events/node_path_builder.py\<close>.
  A builder is its list of segments; a segment is \<open>name\<close> or \<open>name@run_id\<close>.  The lemmas say when text and
  segments determine each other, that the subtree test is the strict prefix order, and that a child run is
  identified by its name and run id.
\<close>

section \<open>Splitting strings\<close>

text \<open>\<open>s.split(c)\<close> for a one-character separator.\<close>

fun str_split :: "nat \<Rightarrow> pystr \<Rightarrow> pystr list" where
  "str_split sep [] = [[]]"
| "str_split sep (c # cs) = (if c = sep then [] # str_split sep cs
     else (c # hd (str_split sep cs)) # tl (str_split sep cs))"

text \<open>\<open>s.rsplit(c, 1)\<close>: the text before the last separator and, when there is one, the text after it.\<close>

definition str_rsplit1 :: "nat \<Rightarrow> pystr \<Rightarrow> pystr \<times> pystr option" where
  "str_rsplit1 sep s = (if sep \<in> set s
     then (rev (tl (dropWhile (\<lambda>c. c \<noteq> sep) (rev s))), Some (rev (takeWhile (\<lambda>c. c \<noteq> sep) (rev s))))
     else (s, None))"

lemma str_split_neq_Nil [simp]: "str_split sep s \<noteq> []"
  by (cases s) auto

lemma str_join_hd: "str_join sep ((c # x) # xs) = c # str_join sep (x # xs)"
  by (cases xs) auto

lemma str_join_split [simp]: "str_join [sep] (str_split sep s) = s"
proof (induction s)
  case (Cons c cs)
  obtain x xs where x: "str_split sep cs = x # xs" by (cases "str_split sep cs") auto
  then show ?case using Cons by (simp add: str_join_hd)
qed simp

lemma split_no_sep: "x \<in> set (str_split sep s) \<Longrightarrow> sep \<notin> set x"
proof (induction s arbitrary: x)
  case (Cons c cs)
  obtain y ys where y: "str_split sep cs = y # ys" by (cases "str_split sep cs") auto
  then have "sep \<notin> set y" "\<And>z. z \<in> set ys \<Longrightarrow> sep \<notin> set z" using Cons.IH by auto
  then show ?case using Cons.prems y by (auto split: if_splits)
qed simp

lemma str_split_atom: "sep \<notin> set s \<Longrightarrow> str_split sep s = [s]"
  by (induction s) auto

lemma str_split_append: "sep \<notin> set s \<Longrightarrow> str_split sep (s @ sep # t) = s # str_split sep t"
  by (induction s) auto

lemma str_split_join:
  "xs \<noteq> [] \<Longrightarrow> (\<And>x. x \<in> set xs \<Longrightarrow> sep \<notin> set x) \<Longrightarrow> str_split sep (str_join [sep] xs) = xs"
proof (induction "[sep]" xs rule: str_join.induct)
  case (3 x y xs)
  have "str_split sep (x @ sep # str_join [sep] (y # xs)) = x # str_split sep (str_join [sep] (y # xs))"
    using "3.prems"(2) by (intro str_split_append) simp
  then show ?case using 3 by simp
qed (simp_all add: str_split_atom)

lemma str_rsplit1_append:
  assumes "sep \<notin> set b"
  shows "str_rsplit1 sep (a @ sep # b) = (a, Some b)"
proof -
  have d: "dropWhile (\<lambda>c. c \<noteq> sep) (rev b @ sep # rev a) = sep # rev a"
    using assms by (subst dropWhile_append2) auto
  have t: "takeWhile (\<lambda>c. c \<noteq> sep) (rev b @ sep # rev a) = rev b"
    using assms by (subst takeWhile_append2) auto
  show ?thesis by (simp add: str_rsplit1_def d t)
qed

lemma str_rsplit1_atom: "sep \<notin> set s \<Longrightarrow> str_rsplit1 sep s = (s, None)"
  by (simp add: str_rsplit1_def)

section \<open>The path builder\<close>

type_synonym node_path = "pystr list"

abbreviation slash :: nat where "slash \<equiv> 47"
abbreviation at_sign :: nat where "at_sign \<equiv> 64"

definition path_from_string :: "pystr \<Rightarrow> node_path" where
  "path_from_string s = (if s = [] then [] else str_split slash s)"

definition path_str :: "node_path \<Rightarrow> pystr" where
  "path_str p = str_join [slash] p"

definition path_node_name :: "node_path \<Rightarrow> pystr" where
  "path_node_name p = (if p = [] then [] else fst (str_rsplit1 at_sign (last p)))"

definition static_path :: "node_path \<Rightarrow> pystr" where
  "static_path p = str_join [slash] (map (\<lambda>seg. fst (str_rsplit1 at_sign seg)) p)"

definition leaf_segment :: "node_path \<Rightarrow> pystr" where
  "leaf_segment p = (if p = [] then [] else last p)"

definition path_run_id :: "node_path \<Rightarrow> pystr option" where
  "path_run_id p = (if p = [] then None else snd (str_rsplit1 at_sign (last p)))"

definition path_parent :: "node_path \<Rightarrow> node_path option" where
  "path_parent p = (if length p \<le> 1 then None else Some (butlast p))"

text \<open>\<open>if run_id:\<close> ignores an empty run id like an absent one.\<close>

definition path_append :: "node_path \<Rightarrow> pystr \<Rightarrow> pystr option \<Rightarrow> node_path" where
  "path_append p name run_id = p @ [case run_id of
      None \<Rightarrow> name
    | Some r \<Rightarrow> (if r = [] then name else name @ [at_sign] @ r)]"

definition is_descendant_of :: "node_path \<Rightarrow> node_path \<Rightarrow> bool" where
  "is_descendant_of p ancestor = (if length p \<le> length ancestor then False
     else take (length ancestor) p = ancestor)"

definition is_direct_child_of :: "node_path \<Rightarrow> node_path \<Rightarrow> bool" where
  "is_direct_child_of p parent = (if length p \<noteq> length parent + 1 then False
     else butlast p = parent)"

definition includes_node_path :: "node_path \<Rightarrow> pystr option \<Rightarrow> bool" where
  "includes_node_path p node_path = (case node_path of
      None \<Rightarrow> True
    | Some s \<Rightarrow> s = [] \<or> path_from_string s = p \<or> is_descendant_of (path_from_string s) p)"

definition get_direct_child :: "node_path \<Rightarrow> node_path \<Rightarrow> exn + node_path" where
  "get_direct_child p descendant =
     (if length descendant \<le> length p then Inl (ValueError (py ''Descendant path is not longer than self path''))
      else if take (length p) descendant \<noteq> p
      then Inl (ValueError (py ''Descendant path does not start with self path''))
      else Inr (take (length p + 1) descendant))"

section \<open>Text and segments\<close>

lemma path_str_Nil [simp]: "path_str [] = []"
  by (simp add: path_str_def)

lemma path_from_string_Nil [simp]: "path_from_string [] = []"
  by (simp add: path_from_string_def)

lemma str_path_from_string [simp]: "path_str (path_from_string s) = s"
  by (simp add: path_from_string_def path_str_def)

lemma from_string_inject [simp]: "path_from_string s = path_from_string t \<longleftrightarrow> s = t"
  by (metis str_path_from_string)

lemma path_from_string_eq_Nil [simp]: "path_from_string s = [] \<longleftrightarrow> s = []"
  by (simp add: path_from_string_def)

text \<open>The paths that survive being written out: no segment contains a slash and the path is not one empty segment.\<close>

definition path_wf :: "node_path \<Rightarrow> bool" where
  "path_wf p \<longleftrightarrow> p \<noteq> [[]] \<and> list_all (\<lambda>seg. slash \<notin> set seg) p"

lemma str_join_eq_Nil: "str_join [c] xs = [] \<longleftrightarrow> xs = [] \<or> xs = [[]]"
  by (induction "[c]" xs rule: str_join.induct) auto

lemma from_string_path_str: "path_from_string (path_str p) = p \<longleftrightarrow> path_wf p"
proof
  assume p: "path_wf p"
  show "path_from_string (path_str p) = p"
  proof (cases "p = []")
    case False
    then have "path_str p \<noteq> []" using p by (auto simp: path_str_def path_wf_def str_join_eq_Nil)
    moreover have "str_split slash (path_str p) = p"
      unfolding path_str_def using False p by (intro str_split_join) (auto simp: path_wf_def list_all_iff)
    ultimately show ?thesis by (simp add: path_from_string_def)
  qed simp
next
  assume e: "path_from_string (path_str p) = p"
  have "p \<noteq> [[]]"
  proof
    assume "p = [[]]"
    then show False using e by (simp add: path_str_def)
  qed
  moreover have "slash \<notin> set seg" if "seg \<in> set p" for seg
  proof -
    have "p \<noteq> []" using that by auto
    then have "p = str_split slash (path_str p)" using e by (auto simp: path_from_string_def split: if_splits)
    then show ?thesis using split_no_sep that by metis
  qed
  ultimately show "path_wf p" by (auto simp: path_wf_def list_all_iff)
qed

text \<open>A node path that is written out and read back is the same path exactly when it is not the single empty
  segment and no segment contains a slash; and every text that is read is written back unchanged.\<close>

theorem node_path_round_trip:
  "(path_from_string (path_str p) = p \<longleftrightarrow> path_wf p) \<and> path_str (path_from_string s) = s \<and> path_wf (path_from_string s)"
  using from_string_path_str [of p] from_string_path_str [of "path_from_string s"] by simp

section \<open>The tree of paths\<close>

lemma is_descendant_of_iff: "is_descendant_of p a \<longleftrightarrow> strict_prefix a p"
  unfolding is_descendant_of_def strict_prefix_def prefix_def
  by (auto simp: not_le) (metis append_take_drop_id)

lemma is_descendant_of_trans: "is_descendant_of p q \<Longrightarrow> is_descendant_of q r \<Longrightarrow> is_descendant_of p r"
  unfolding is_descendant_of_iff by (rule prefix_order.less_trans)

lemma is_descendant_of_irrefl [simp]: "\<not> is_descendant_of p p"
  by (simp add: is_descendant_of_iff)

lemma is_direct_child_of_iff: "is_direct_child_of p parent \<longleftrightarrow> (\<exists>seg. p = parent @ [seg])"
proof
  assume c: "is_direct_child_of p parent"
  then have "p \<noteq> []" by (auto simp: is_direct_child_of_def split: if_splits)
  then have "p = parent @ [last p]" using c by (auto simp: is_direct_child_of_def split: if_splits)
  then show "\<exists>seg. p = parent @ [seg]" ..
qed (auto simp: is_direct_child_of_def)

lemma direct_child_descendant: "is_direct_child_of p q \<Longrightarrow> is_descendant_of p q"
  by (auto simp: is_direct_child_of_iff is_descendant_of_iff strict_prefix_def)

lemma parent_of_append [simp]: "p \<noteq> [] \<Longrightarrow> path_parent (path_append p name r) = Some p"
  by (cases p) (auto simp: path_parent_def path_append_def)

lemma append_is_child [simp]: "is_direct_child_of (path_append p name r) p"
  by (auto simp: is_direct_child_of_iff path_append_def)

lemma get_direct_child_iff:
  "get_direct_child p d = Inr c \<longleftrightarrow> is_direct_child_of c p \<and> (d = c \<or> is_descendant_of d c)"
proof
  assume "get_direct_child p d = Inr c"
  then have d: "length p < length d" "take (length p) d = p" "c = take (length p + 1) d"
    by (auto simp: get_direct_child_def split: if_splits)
  have "c = p @ [d ! length p]" using d by (simp add: take_Suc_conv_app_nth)
  moreover have "prefix c d" using d(3) by (simp add: take_is_prefix)
  ultimately show "is_direct_child_of c p \<and> (d = c \<or> is_descendant_of d c)"
    by (auto simp: is_direct_child_of_iff is_descendant_of_iff strict_prefix_def)
next
  assume a: "is_direct_child_of c p \<and> (d = c \<or> is_descendant_of d c)"
  then obtain seg where "c = p @ [seg]" by (auto simp: is_direct_child_of_iff)
  moreover obtain zs where "d = c @ zs" using a by (auto simp: is_descendant_of_iff strict_prefix_def prefix_def)
  ultimately show "get_direct_child p d = Inr c" by (simp add: get_direct_child_def)
qed

lemma get_direct_child_total: "(\<exists>c. get_direct_child p d = Inr c) \<longleftrightarrow> is_descendant_of d p"
  by (auto simp: get_direct_child_def is_descendant_of_def split: if_splits)

text \<open>\<open>get_direct_child\<close> returns exactly when the other path lies strictly below, and then it returns the
  one direct child through which that path goes.\<close>

theorem get_direct_child_spec:
  "get_direct_child p d = Inr c \<longleftrightarrow> is_direct_child_of c p \<and> (d = c \<or> is_descendant_of d c)"
  by (rule get_direct_child_iff)

lemma includes_node_path_iff:
  "includes_node_path p (Some s) \<longleftrightarrow> s = [] \<or> prefix p (path_from_string s)"
  by (auto simp: includes_node_path_def is_descendant_of_iff strict_prefix_def)

section \<open>Names and run ids\<close>

lemma append_name_run:
  assumes "at_sign \<notin> set r" and "r \<noteq> []"
  shows "path_node_name (path_append p name (Some r)) = name" "path_run_id (path_append p name (Some r)) = Some r"
    "leaf_segment (path_append p name (Some r)) = name @ [at_sign] @ r"
  using assms by (simp_all add: path_append_def path_node_name_def path_run_id_def leaf_segment_def str_rsplit1_append)

text \<open>Two runs under one parent have the same path only if node name and run id agree, whatever the node name
  contains; a run id must not contain the at sign.\<close>

lemma append_inject:
  assumes "at_sign \<notin> set r" "r \<noteq> []" "at_sign \<notin> set r'" "r' \<noteq> []"
  shows "path_append p n (Some r) = path_append p n' (Some r') \<longleftrightarrow> n = n' \<and> r = r'"
  using append_name_run [OF assms(1,2), of p n] append_name_run [OF assms(3,4), of p n'] by auto

lemma static_path_append:
  "at_sign \<notin> set r \<Longrightarrow> r \<noteq> [] \<Longrightarrow> static_path (path_append [] n (Some r)) = n"
  by (simp add: static_path_def path_append_def str_rsplit1_append)

end
