(* ===== verification/Dag_Runtime.thy ===== *)
theory Dag_Runtime
  imports Plan_Check Node_Path
begin

text \<open>
  The mutable state of one orchestration run of \<open>new_choirworks\<close>, \<open>orchestrator/runtime.py\<close>: the plan,
  the node states, the registry of outputs, the running tasks and the queue of completions; with the output
  references of \<open>orchestrator/plan.py\<close> and the catalog of \<open>catalog.py\<close>.  An asyncio task is a value that is
  running or has finished with a result; that it finishes is an event of the environment.
\<close>

section \<open>State\<close>

record AgentInfo =
  ai_name :: pystr
  ai_url :: pystr
  ai_description :: pystr

datatype dag_status = D_PENDING | D_RUNNING | D_WAITING_ASSIST | D_COMPLETED | D_FAILED | D_CANCELLED

text \<open>\<open>CompletionRecord\<close>: a failed node has \<open>error\<close> set.\<close>

record CompletionRecord =
  cr_node_id :: pystr
  cr_output :: pystr
  cr_error :: "pystr option"

text \<open>A task's result is the error text of its exception or its output.\<close>

datatype dag_task = Task_running | Task_finished "pystr + pystr"

record DagRuntime =
  dr_agents :: "(pystr, AgentInfo) dict"
  dr_user_task :: pystr
  dr_plan :: "PlanNode list"
  dr_status :: "(pystr, dag_status) dict"
  dr_outputs :: "(pystr, pystr) dict"
  dr_running :: "(pystr, dag_task) dict"
  dr_completions :: "CompletionRecord list"
  dr_done_requested :: bool
  dr_assist_seq :: int
  dr_assist_depth :: "(pystr, int) dict"

definition MAX_ASSIST_DEPTH :: int where "MAX_ASSIST_DEPTH = 3"
definition MAX_PLAN_NODES :: nat where "MAX_PLAN_NODES = 20"

definition new_runtime :: "(pystr, AgentInfo) dict \<Rightarrow> pystr \<Rightarrow> DagRuntime" where
  "new_runtime agents user_task = \<lparr>dr_agents = agents, dr_user_task = user_task, dr_plan = [], dr_status = [],
     dr_outputs = [], dr_running = [], dr_completions = [], dr_done_requested = False, dr_assist_seq = 0,
     dr_assist_depth = []\<rparr>"

abbreviation dstatus :: "DagRuntime \<Rightarrow> pystr \<Rightarrow> dag_status option" where
  "dstatus rt k \<equiv> map_of (dr_status rt) k"

definition set_dstatus :: "pystr \<Rightarrow> dag_status \<Rightarrow> DagRuntime \<Rightarrow> DagRuntime" where
  "set_dstatus k st rt = rt\<lparr>dr_status := AList.update k st (dr_status rt)\<rparr>"

section \<open>Output references\<close>

definition output_ref :: "pystr \<Rightarrow> pystr" where
  "output_ref node_id = py ''{{output:'' @ node_id @ py ''}}''"

text \<open>The character class \<open>[A-Za-z0-9_.\-]\<close>.\<close>

definition is_ref_char :: "nat \<Rightarrow> bool" where
  "is_ref_char c \<longleftrightarrow> (65 \<le> c \<and> c \<le> 90) \<or> (97 \<le> c \<and> c \<le> 122) \<or> (48 \<le> c \<and> c \<le> 57) \<or> c = 95 \<or> c = 46 \<or> c = 45"

definition is_ref_id :: "pystr \<Rightarrow> bool" where
  "is_ref_id s \<longleftrightarrow> s \<noteq> [] \<and> list_all is_ref_char s"

text \<open>A match of \<open>REF_RE\<close> at the start of the text: the id and what follows.  The class does not contain the
  closing brace, so the greedy repetition has no other way to match.\<close>

definition match_ref :: "pystr \<Rightarrow> (pystr \<times> pystr) option" where
  "match_ref s = (if take 9 s = py ''{{output:''
     then let ident = takeWhile is_ref_char (drop 9 s); rest = dropWhile is_ref_char (drop 9 s)
          in if ident \<noteq> [] \<and> take 2 rest = py ''}}'' then Some (ident, drop 2 rest) else None
     else None)"

lemma match_ref_shorter: "match_ref s = Some (i, rest) \<Longrightarrow> length rest < length s"
proof -
  assume m: "match_ref s = Some (i, rest)"
  then have r: "rest = drop 2 (dropWhile is_ref_char (drop 9 s))" and t: "take 9 s = py ''{{output:''"
    by (auto simp: match_ref_def Let_def split: if_splits)
  have "s \<noteq> []" using t by (auto simp: py_def)
  moreover have "length (dropWhile is_ref_char (drop 9 s)) \<le> length (drop 9 s)" by (rule length_dropWhile_le)
  ultimately show ?thesis unfolding r by (cases s) auto
qed

text \<open>\<open>REF_RE.sub(lambda m: outputs.get(m.group(1), ""), instruction)\<close>\<close>

function resolve_refs :: "(pystr, pystr) dict \<Rightarrow> pystr \<Rightarrow> pystr" where
  "resolve_refs outputs s = (case s of
      [] \<Rightarrow> []
    | c # cs \<Rightarrow> (case match_ref s of
        None \<Rightarrow> c # resolve_refs outputs cs
      | Some (ident, rest) \<Rightarrow> (case map_of outputs ident of None \<Rightarrow> [] | Some v \<Rightarrow> v) @ resolve_refs outputs rest))"
  by pat_completeness auto
termination by (relation "measure (\<lambda>(outputs, s). length s)") (auto dest: match_ref_shorter)

declare resolve_refs.simps [simp del]

definition resolve_instruction :: "pystr \<Rightarrow> (pystr, pystr) dict \<Rightarrow> pystr" where
  "resolve_instruction instruction outputs = resolve_refs outputs instruction"

section \<open>The plan\<close>

definition init_plan :: "PlanNode list \<Rightarrow> DagRuntime \<Rightarrow> exn + DagRuntime" where
  "init_plan plan rt = ebind (dag_validate_plan plan MAX_PLAN_NODES) (\<lambda>_.
     Inr (fold (\<lambda>n. set_dstatus (pn_id n) D_PENDING) plan (rt\<lparr>dr_plan := plan\<rparr>)))"

text \<open>\<open>old = {n.id: n for n in self.plan.nodes}\<close>\<close>

definition old_node :: "DagRuntime \<Rightarrow> pystr \<Rightarrow> PlanNode option" where
  "old_node rt k = map_of (rev (map (\<lambda>n. (pn_id n, n)) (dr_plan rt))) k"

text \<open>The specification a kept node gets: it keeps its assist wiring, and while it waits for assistance the
  dependencies of both plans that are still reachable.\<close>

definition adopt_node :: "pystr list \<Rightarrow> DagRuntime \<Rightarrow> PlanNode \<Rightarrow> PlanNode" where
  "adopt_node new_ids rt n = (case old_node rt (pn_id n) of
      None \<Rightarrow> n
    | Some old \<Rightarrow>
       (let n1 = (if pn_assist_for old \<noteq> None \<and> pn_assist_for n = None then n\<lparr>pn_assist_for := pn_assist_for old\<rparr> else n)
        in if dstatus rt (pn_id n) = Some D_WAITING_ASSIST
           then n1\<lparr>pn_deps := fromkeys (filter (\<lambda>d. d \<in> set new_ids \<or> d_has (dr_outputs rt) d) (pn_deps n1 @ pn_deps old))\<rparr>
           else n1))"

definition adopt_status :: "DagRuntime \<Rightarrow> PlanNode \<Rightarrow> DagRuntime \<Rightarrow> DagRuntime" where
  "adopt_status rt0 n rt = (if old_node rt0 (pn_id n) = None \<and> dstatus rt (pn_id n) \<in> {None, Some D_PENDING, Some D_CANCELLED}
     then set_dstatus (pn_id n) D_PENDING rt else rt)"

definition apply_plan :: "PlanNode list \<Rightarrow> DagRuntime \<Rightarrow> exn + DagRuntime" where
  "apply_plan new_plan rt = ebind (dag_validate_plan new_plan MAX_PLAN_NODES) (\<lambda>_.
     let rt1 = rt\<lparr>dr_done_requested := (new_plan = []),
                 dr_completions := (if new_plan = [] then [] else dr_completions rt)\<rparr>;
         rt2 = fold (adopt_status rt1) new_plan rt1
     in Inr (rt2\<lparr>dr_plan := map (adopt_node (map pn_id new_plan) rt1) new_plan\<rparr>))"

definition get_node :: "DagRuntime \<Rightarrow> pystr \<Rightarrow> exn + PlanNode" where
  "get_node rt k = (case List.find (\<lambda>n. pn_id n = k) (dr_plan rt) of
      Some n \<Rightarrow> Inr n
    | None \<Rightarrow> Inl (KeyError (py ''node '' @ k @ py '' not found in plan'')))"

definition in_plan :: "DagRuntime \<Rightarrow> pystr \<Rightarrow> bool" where
  "in_plan rt k = list_ex (\<lambda>n. pn_id n = k) (dr_plan rt)"

section \<open>Scheduling\<close>

definition awaits_dispatch :: "dag_status option \<Rightarrow> bool" where
  "awaits_dispatch st \<longleftrightarrow> st = Some D_PENDING \<or> st = Some D_WAITING_ASSIST"

definition dispatchable :: "DagRuntime \<Rightarrow> pystr list" where
  "dispatchable rt = map pn_id (filter (\<lambda>n. awaits_dispatch (dstatus rt (pn_id n))
     \<and> list_all (d_has (dr_outputs rt)) (pn_deps n)) (dr_plan rt))"

definition has_work :: "DagRuntime \<Rightarrow> bool" where
  "has_work rt \<longleftrightarrow> dr_running rt \<noteq> [] \<or> list_ex (\<lambda>n. awaits_dispatch (dstatus rt (pn_id n))) (dr_plan rt)"

section \<open>Completions\<close>

definition judgable :: "DagRuntime \<Rightarrow> pystr \<Rightarrow> bool" where
  "judgable rt k \<longleftrightarrow> \<not> dr_done_requested rt \<and> in_plan rt k"

definition enqueue_completion :: "CompletionRecord \<Rightarrow> DagRuntime \<Rightarrow> DagRuntime" where
  "enqueue_completion r rt = (if judgable rt (cr_node_id r) then rt\<lparr>dr_completions := dr_completions rt @ [r]\<rparr> else rt)"

definition record_completion :: "pystr \<Rightarrow> pystr \<Rightarrow> DagRuntime \<Rightarrow> DagRuntime" where
  "record_completion k output rt = enqueue_completion \<lparr>cr_node_id = k, cr_output = output, cr_error = None\<rparr>
     ((set_dstatus k D_COMPLETED rt)\<lparr>dr_outputs := AList.update k output (dr_outputs rt)\<rparr>)"

definition record_failure :: "pystr \<Rightarrow> pystr \<Rightarrow> DagRuntime \<Rightarrow> DagRuntime" where
  "record_failure k err rt = enqueue_completion \<lparr>cr_node_id = k, cr_output = [], cr_error = Some err\<rparr> (set_dstatus k D_FAILED rt)"

text \<open>\<open>while self.completions: ...\<close>: records of nodes that left the plan are dropped.\<close>

fun pop_judgable :: "(pystr \<Rightarrow> bool) \<Rightarrow> CompletionRecord list \<Rightarrow> CompletionRecord option \<times> CompletionRecord list" where
  "pop_judgable ok [] = (None, [])"
| "pop_judgable ok (r # rs) = (if ok (cr_node_id r) then (Some r, rs) else pop_judgable ok rs)"

definition pop_completion :: "DagRuntime \<Rightarrow> CompletionRecord option \<times> DagRuntime" where
  "pop_completion rt = (let p = pop_judgable (judgable rt) (dr_completions rt) in (fst p, rt\<lparr>dr_completions := snd p\<rparr>))"

definition failed_completion :: "DagRuntime \<Rightarrow> CompletionRecord option" where
  "failed_completion rt = List.find (\<lambda>r. cr_error r \<noteq> None \<and> judgable rt (cr_node_id r)) (dr_completions rt)"

section \<open>Assistance\<close>

definition has_assist_for :: "DagRuntime \<Rightarrow> pystr \<Rightarrow> pystr \<Rightarrow> bool" where
  "has_assist_for rt parent agent = list_ex (\<lambda>n. pn_assist_for n = Some parent \<and> pn_agent_name n = agent) (dr_plan rt)"

definition assist_depth :: "DagRuntime \<Rightarrow> pystr \<Rightarrow> int" where
  "assist_depth rt k = (case map_of (dr_assist_depth rt) k of None \<Rightarrow> 0 | Some d \<Rightarrow> d)"

definition can_add_assists :: "DagRuntime \<Rightarrow> pystr \<Rightarrow> nat \<Rightarrow> bool" where
  "can_add_assists rt parent n \<longleftrightarrow> assist_depth rt parent + 1 \<le> MAX_ASSIST_DEPTH
     \<and> length (dr_plan rt) + n \<le> MAX_PLAN_NODES"

definition assist_id_of :: "pystr \<Rightarrow> int \<Rightarrow> pystr" where
  "assist_id_of parent seq = parent @ py ''-assist'' @ int_str seq"

definition assist_node :: "pystr \<Rightarrow> pystr \<Rightarrow> pystr \<Rightarrow> pystr \<Rightarrow> PlanNode" where
  "assist_node assist_id parent agent instruction = \<lparr>pn_id = assist_id, pn_name = py ''assist:'' @ agent, pn_agent_name = agent,
     pn_instruction = instruction @ nl @ nl @ py ''['' @ parent @ py '' output]'' @ nl @ output_ref parent,
     pn_deps = [], pn_assist_for = Some parent\<rparr>"

text \<open>The parent is the object \<open>get_node\<close> returned: the first node of the plan with its id.\<close>

fun modify_first :: "('a \<Rightarrow> bool) \<Rightarrow> ('a \<Rightarrow> 'a) \<Rightarrow> 'a list \<Rightarrow> 'a list" where
  "modify_first P f [] = []"
| "modify_first P f (x # xs) = (if P x then f x # xs else x # modify_first P f xs)"

definition wire_parent :: "pystr \<Rightarrow> PlanNode \<Rightarrow> PlanNode" where
  "wire_parent assist_id n = n\<lparr>pn_deps := (if assist_id \<in> set (pn_deps n) then pn_deps n else pn_deps n @ [assist_id]),
     pn_instruction := pn_instruction n @ nl @ nl @ py ''['' @ assist_id @ py '' output]'' @ nl @ output_ref assist_id\<rparr>"

definition add_assist :: "pystr \<Rightarrow> pystr \<Rightarrow> pystr \<Rightarrow> DagRuntime \<Rightarrow> exn + DagRuntime" where
  "add_assist parent agent instruction rt =
     (let seq = dr_assist_seq rt + 1; assist_id = assist_id_of parent seq; rt0 = rt\<lparr>dr_assist_seq := seq\<rparr>
      in ebind (get_node rt0 parent) (\<lambda>_.
        let plan1 = dr_plan rt0 @ [assist_node assist_id parent agent instruction];
            rt1 = set_dstatus assist_id D_PENDING (rt0\<lparr>dr_plan := plan1\<rparr>);
            rt2 = rt1\<lparr>dr_assist_depth := AList.update assist_id (assist_depth rt1 parent + 1) (dr_assist_depth rt1),
                      dr_plan := modify_first (\<lambda>n. pn_id n = parent) (wire_parent assist_id) plan1\<rparr>
        in Inr (set_dstatus parent D_WAITING_ASSIST rt2)))"

section \<open>The end\<close>

definition shutdown :: "DagRuntime \<Rightarrow> DagRuntime" where
  "shutdown rt = rt\<lparr>dr_running := []\<rparr>"

text \<open>\<open>abort\<close> raises after the shutdown.\<close>

definition abort_cause :: "CompletionRecord \<Rightarrow> exn" where
  "abort_cause r = WorkflowError (py ''node '' @ cr_node_id r @ py '' failed: '' @ (case cr_error r of None \<Rightarrow> py ''None'' | Some e \<Rightarrow> e))"

section \<open>References resolve to outputs\<close>

lemma resolve_refs_Nil [simp]: "resolve_refs outputs [] = []"
  by (simp add: resolve_refs.simps)

lemma ref_char_not_brace: "\<not> is_ref_char 125"
  by (simp add: is_ref_char_def)

lemma takeWhile_ref: "is_ref_id i \<Longrightarrow> takeWhile is_ref_char (i @ 125 # t) = i \<and> dropWhile is_ref_char (i @ 125 # t) = 125 # t"
  using ref_char_not_brace unfolding is_ref_id_def list_all_iff by (simp add: takeWhile_append2 dropWhile_append2)

lemma match_output_ref: "is_ref_id i \<Longrightarrow> match_ref (output_ref i @ t) = Some (i, t)"
  using takeWhile_ref [of i "125 # t"] by (simp add: match_ref_def output_ref_def py_def is_ref_id_def)

lemma match_refD: "match_ref s = Some (i, t) \<Longrightarrow> s = output_ref i @ t \<and> is_ref_id i"
proof -
  assume m: "match_ref s = Some (i, t)"
  let ?d = "drop 9 s"
  from m have h: "take 9 s = py ''{{output:''" and i: "i = takeWhile is_ref_char ?d" "i \<noteq> []"
    and r: "take 2 (dropWhile is_ref_char ?d) = py ''}}''" "t = drop 2 (dropWhile is_ref_char ?d)"
    by (auto simp: match_ref_def Let_def split: if_splits)
  have "s = take 9 s @ takeWhile is_ref_char ?d @ dropWhile is_ref_char ?d"
    using append_take_drop_id [of 9 s] by simp
  moreover have "dropWhile is_ref_char ?d = py ''}}'' @ t" using r by (metis append_take_drop_id)
  ultimately have "s = output_ref i @ t" using h i(1) by (simp add: output_ref_def)
  moreover have "list_all is_ref_char i" unfolding i(1) list_all_iff by (auto dest: set_takeWhileD)
  ultimately show ?thesis using i(2) by (simp add: is_ref_id_def)
qed

lemma resolve_ref_head:
  "is_ref_id i \<Longrightarrow> resolve_refs outputs (output_ref i @ t) = (case map_of outputs i of None \<Rightarrow> [] | Some v \<Rightarrow> v) @ resolve_refs outputs t"
proof -
  assume i: "is_ref_id i"
  obtain c cs where "output_ref i @ t = c # cs" by (cases "output_ref i @ t") (auto simp: output_ref_def py_def)
  then show ?thesis using match_output_ref [OF i, of t] by (subst resolve_refs.simps) simp
qed

lemma resolve_plain: "123 \<notin> set s \<Longrightarrow> resolve_refs outputs (s @ t) = s @ resolve_refs outputs t"
proof (induction s)
  case (Cons c cs)
  have "match_ref (c # cs @ t) = None"
    using Cons.prems by (auto simp: match_ref_def py_def)
  then show ?case using Cons by (subst resolve_refs.simps) simp
qed simp

lemma match_ref_None_start: "take 2 s \<noteq> py ''{{'' \<Longrightarrow> match_ref s = None"
proof -
  assume n: "take 2 s \<noteq> py ''{{''"
  have "take 9 s \<noteq> py ''{{output:''"
  proof
    assume "take 9 s = py ''{{output:''"
    then have "take 2 (take 9 s) = take 2 (py ''{{output:'')" by simp
    then show False using n by (simp add: py_def)
  qed
  then show ?thesis by (simp add: match_ref_def)
qed

text \<open>An output reference resolves to the output of its node, or to nothing when there is none, if the node id
  consists of letters, digits, dots, underscores and hyphens; a reference to any other id is left as it stands.\<close>

theorem output_ref_resolves:
  assumes "123 \<notin> set i" and "125 \<notin> set i"
  shows "resolve_instruction (output_ref i) outputs
     = (if is_ref_id i then (case map_of outputs i of None \<Rightarrow> [] | Some v \<Rightarrow> v) else output_ref i)"
proof (cases "is_ref_id i")
  case True
  then show ?thesis using resolve_ref_head [OF True, of outputs "[]"] by (simp add: resolve_instruction_def)
next
  case False
  have none: "match_ref (output_ref i) = None"
  proof (cases "match_ref (output_ref i)")
    case (Some p)
    obtain j t where p: "p = (j, t)" by (cases p)
    have e: "output_ref i = output_ref j @ t" "is_ref_id j" using match_refD Some p by auto
    then have eq: "i @ [125, 125] = j @ 125 # 125 # t" by (simp add: output_ref_def py_def)
    have "125 \<notin> set j" using e(2) ref_char_not_brace by (auto simp: is_ref_id_def list_all_iff)
    then have "i = j" using eq assms(2) by (auto simp: append_eq_append_conv2 Cons_eq_append_conv append_eq_Cons_conv)
    then show ?thesis using False e(2) by simp
  qed
  define rest where "rest = py ''output:'' @ i @ py ''}}''"
  have o: "output_ref i = 123 # 123 # rest" by (simp add: output_ref_def rest_def py_def)
  have "123 \<notin> set rest" using assms(1) by (auto simp: rest_def py_def)
  then have r: "resolve_refs outputs rest = rest" using resolve_plain [of rest outputs "[]"] by simp
  have "match_ref (123 # rest) = None" by (rule match_ref_None_start) (simp add: rest_def py_def)
  then have "resolve_refs outputs (123 # rest) = 123 # rest" using r by (subst resolve_refs.simps) simp
  then have "resolve_refs outputs (123 # 123 # rest) = 123 # 123 # rest"
    using none unfolding o by (subst resolve_refs.simps) simp
  then show ?thesis using False by (simp add: resolve_instruction_def o)
qed

theorem output_ref_resolves_witness:
  "resolve_instruction (output_ref (py ''a.1'')) [(py ''a.1'', py ''draft'')] = py ''draft''
   \<and> resolve_instruction (output_ref (py ''my node'')) [(py ''my node'', py ''draft'')] = py ''{{output:my node}}''"
proof -
  have b: "123 \<notin> set (py ''a.1'')" "125 \<notin> set (py ''a.1'')" "123 \<notin> set (py ''my node'')" "125 \<notin> set (py ''my node'')"
    by (simp_all add: py_def)
  have "is_ref_id (py ''a.1'')" "\<not> is_ref_id (py ''my node'')" by (simp_all add: is_ref_id_def is_ref_char_def py_def)
  then show ?thesis
    using output_ref_resolves [OF b(1,2), of "[(py ''a.1'', py ''draft'')]"]
      output_ref_resolves [OF b(3,4), of "[(py ''my node'', py ''draft'')]"]
    by (simp add: output_ref_def py_def)
qed

end
