(* ===== verification/Wf_Graph.thy ===== *)
theory Wf_Graph
  imports Prelude
begin

text \<open>
  Workflow graphs: \<open>Edge\<close>, \<open>Graph\<close> and the routing of \<open>new_choirworks/core/workflow/graph.py\<close>, and the
  structural checks of \<open>workflow/utils/graph_validation.py\<close>.  A node value stands for one Python object:
  \<open>bn_oid\<close> is its identity, so two nodes may share a name (which validation rejects).  The lemmas say which
  edges fire for an emitted route, that the depth-first search finds a cycle exactly when there is one, and
  what an accepted graph is.
\<close>

section \<open>Nodes, routes and edges\<close>

text \<open>\<open>bn_join\<close> is \<open>_requires_all_predecessors\<close>, true for a \<open>JoinNode\<close> only.\<close>

record BaseNode =
  bn_oid :: nat
  bn_name :: pystr
  bn_join :: bool

definition START_NAME :: pystr where
  "START_NAME = py ''__START__''"

definition START :: BaseNode where
  "START = \<lparr>bn_oid = 0, bn_name = START_NAME, bn_join = False\<rparr>"

definition DEFAULT_ROUTE :: pystr where
  "DEFAULT_ROUTE = py ''__DEFAULT__''"

datatype route_value = RBool bool | RInt int | RStr pystr

text \<open>Python compares and hashes \<open>True\<close> like \<open>1\<close>: routes are compared by this key.\<close>

primrec route_key :: "route_value \<Rightarrow> int + pystr" where
  "route_key (RBool b) = Inl (if b then 1 else 0)"
| "route_key (RInt i) = Inl i"
| "route_key (RStr s) = Inr s"

text \<open>\<open>RouteValue | list[RouteValue]\<close>; an absent route is \<open>None\<close>.\<close>

datatype route_spec = RouteOne route_value | RouteMany "route_value list"

primrec spec_keys :: "route_spec \<Rightarrow> (int + pystr) list" where
  "spec_keys (RouteOne v) = [route_key v]"
| "spec_keys (RouteMany vs) = map route_key vs"

primrec is_default_route :: "route_spec \<Rightarrow> bool" where
  "is_default_route (RouteOne v) = (route_key v = Inr DEFAULT_ROUTE)"
| "is_default_route (RouteMany vs) = False"

record WfEdge =
  from_node :: BaseNode
  to_node :: BaseNode
  we_route :: "route_spec option"

abbreviation from_name :: "WfEdge \<Rightarrow> pystr" where "from_name e \<equiv> bn_name (from_node e)"
abbreviation to_name :: "WfEdge \<Rightarrow> pystr" where "to_name e \<equiv> bn_name (to_node e)"

record Graph =
  g_edges :: "WfEdge list"
  g_nodes :: "BaseNode list"

definition edge_nodes :: "WfEdge list \<Rightarrow> BaseNode list" where
  "edge_nodes es = fromkeys (concat (map (\<lambda>e. [from_node e, to_node e]) es))"

text \<open>\<open>Graph(edges, nodes)\<close> with \<open>__post_init__\<close>: nodes are collected in the order the edges mention them.\<close>

definition make_graph :: "WfEdge list \<Rightarrow> BaseNode list \<Rightarrow> exn + Graph" where
  "make_graph es ns = (if ns \<noteq> []
     then Inl (GraphValidationError (py ''Nodes are inferred from edges, do not set nodes explicitly.''))
     else Inr \<lparr>g_edges = es, g_nodes = edge_nodes es\<rparr>)"

definition terminal_node_names :: "Graph \<Rightarrow> pystr list" where
  "terminal_node_names g = fromkeys (map bn_name (filter (\<lambda>n. bn_name n \<noteq> START_NAME
     \<and> bn_name n \<notin> set (map from_name (g_edges g))) (g_nodes g)))"

section \<open>Routing\<close>

text \<open>Does an edge's route match what the node emitted?\<close>

primrec route_matches :: "route_spec option \<Rightarrow> route_spec \<Rightarrow> bool" where
  "route_matches None r = False"
| "route_matches (Some emitted) r = (\<exists>k \<in> set (spec_keys emitted). k \<in> set (spec_keys r))"

fun next_loop :: "pystr \<Rightarrow> route_spec option \<Rightarrow> WfEdge list \<Rightarrow> pystr list \<Rightarrow> bool \<Rightarrow> pystr list \<Rightarrow> pystr list" where
  "next_loop n emitted [] pending matched defaults = (if matched then pending else pending @ defaults)"
| "next_loop n emitted (e # es) pending matched defaults =
     (if from_name e \<noteq> n then next_loop n emitted es pending matched defaults
      else case we_route e of
        None \<Rightarrow> next_loop n emitted es (pending @ [to_name e]) matched defaults
      | Some r \<Rightarrow>
          (if is_default_route r then next_loop n emitted es pending matched (defaults @ [to_name e])
           else if route_matches emitted r then next_loop n emitted es (pending @ [to_name e]) True defaults
           else next_loop n emitted es pending matched defaults))"

definition get_next_pending_nodes :: "Graph \<Rightarrow> pystr \<Rightarrow> route_spec option \<Rightarrow> pystr list" where
  "get_next_pending_nodes g n emitted = next_loop n emitted (g_edges g) [] False []"

text \<open>The three kinds of outgoing edges.\<close>

definition plain_edge :: "pystr \<Rightarrow> WfEdge \<Rightarrow> bool" where
  "plain_edge n e \<longleftrightarrow> from_name e = n \<and> we_route e = None"

definition routed_edge :: "pystr \<Rightarrow> route_spec option \<Rightarrow> WfEdge \<Rightarrow> bool" where
  "routed_edge n emitted e \<longleftrightarrow> from_name e = n
     \<and> (case we_route e of None \<Rightarrow> False | Some r \<Rightarrow> \<not> is_default_route r \<and> route_matches emitted r)"

definition default_edge :: "pystr \<Rightarrow> WfEdge \<Rightarrow> bool" where
  "default_edge n e \<longleftrightarrow> from_name e = n \<and> (case we_route e of None \<Rightarrow> False | Some r \<Rightarrow> is_default_route r)"

lemmas edge_kinds = plain_edge_def routed_edge_def default_edge_def

lemma next_loop_eq:
  "next_loop n emitted es pending matched defaults =
     pending @ map to_name (filter (\<lambda>e. plain_edge n e \<or> routed_edge n emitted e) es)
       @ (if matched \<or> list_ex (routed_edge n emitted) es then [] else defaults @ map to_name (filter (default_edge n) es))"
  by (induction n emitted es pending matched defaults rule: next_loop.induct)
     (auto simp: edge_kinds split: option.splits)

text \<open>The nodes a completed node triggers: first the targets of its plain edges and of its edges whose route
  matches, in edge order, then the targets of its default edges exactly when no specific route matched.\<close>

lemma next_pending_eq:
  "get_next_pending_nodes g n emitted =
     map to_name (filter (\<lambda>e. plain_edge n e \<or> routed_edge n emitted e) (g_edges g))
       @ (if list_ex (routed_edge n emitted) (g_edges g) then [] else map to_name (filter (default_edge n) (g_edges g)))"
  by (simp add: get_next_pending_nodes_def next_loop_eq)

lemma next_pending_in_edges:
  "t \<in> set (get_next_pending_nodes g n emitted) \<Longrightarrow> \<exists>e \<in> set (g_edges g). from_name e = n \<and> to_name e = t"
  by (auto simp: next_pending_eq edge_kinds split: if_splits)

section \<open>Validation\<close>

definition sorted_repr :: "pystr list \<Rightarrow> pystr" where
  "sorted_repr names = str_list_repr (sort names)"

definition validate_duplicate_node_names :: "BaseNode list \<Rightarrow> exn + pystr list" where
  "validate_duplicate_node_names ns =
     (let names = map bn_name ns; duplicates = filter (\<lambda>x. count_list names x > 1) (fromkeys names)
      in if duplicates \<noteq> [] then Inl (GraphValidationError (py ''duplicate node names: '' @ sorted_repr duplicates))
         else Inr (fromkeys names))"

definition validate_start_node :: "pystr list \<Rightarrow> exn + unit" where
  "validate_start_node names = (if START_NAME \<notin> set names
     then Inl (GraphValidationError (py ''START node not found in graph nodes'')) else Inr ())"

primrec route_repr :: "route_value \<Rightarrow> pystr" where
  "route_repr (RBool b) = (if b then py ''True'' else py ''False'')"
| "route_repr (RInt i) = int_str i"
| "route_repr (RStr s) = str_repr s"

primrec spec_repr :: "route_spec \<Rightarrow> pystr" where
  "spec_repr (RouteOne v) = route_repr v"
| "spec_repr (RouteMany vs) = py ''['' @ str_join (py '', '') (map route_repr vs) @ py '']''"

fun validate_start_edges :: "WfEdge list \<Rightarrow> exn + unit" where
  "validate_start_edges [] = Inr ()"
| "validate_start_edges (e # es) = (case we_route e of
      Some r \<Rightarrow> (if from_name e = START_NAME
        then Inl (GraphValidationError (py ''edges from START must not have routes (edge to '' @ to_name e
               @ py '' has route '' @ spec_repr r @ py '')''))
        else validate_start_edges es)
    | None \<Rightarrow> validate_start_edges es)"

text \<open>\<open>adj\<close> of the connectivity check: sets, here lists without repetition.\<close>

type_synonym adjacency = "(pystr, pystr list) dict"

definition set_add :: "'a \<Rightarrow> 'a list \<Rightarrow> 'a list" where
  "set_add x xs = (if x \<in> set xs then xs else xs @ [x])"

definition add_neighbour :: "WfEdge \<Rightarrow> adjacency \<Rightarrow> exn + adjacency" where
  "add_neighbour e adj = (if d_has adj (from_name e) then Inr (d_modify (from_name e) (set_add (to_name e)) adj)
     else Inl (KeyError (from_name e)))"

text \<open>\<open>while stack: ...\<close>: the popped node is skipped if reached, else its unreached neighbours are pushed.\<close>

function visit_stack :: "adjacency \<Rightarrow> pystr list \<Rightarrow> pystr list \<Rightarrow> exn + pystr list" where
  "visit_stack adj reached stack = (if stack = [] then Inr reached
     else let node = last stack in
       if node \<in> set reached then visit_stack adj reached (butlast stack)
       else case map_of adj node of
         None \<Rightarrow> Inl (KeyError node)
       | Some ts \<Rightarrow> visit_stack adj (reached @ [node]) (butlast stack @ filter (\<lambda>t. t \<notin> set (reached @ [node])) ts))"
  by pat_completeness auto

termination
proof (relation "measures [\<lambda>(adj, reached, stack). card (set (d_keys adj) - set reached), \<lambda>(adj, reached, stack). length stack]")
  fix adj :: adjacency and reached stack :: "pystr list" and node ts
  assume "node \<notin> set reached" "map_of adj node = Some ts"
  then have "node \<in> set (d_keys adj) - set reached" using d_has_iff [of node adj] by auto
  then have "card (set (d_keys adj) - set reached - {node}) < card (set (d_keys adj) - set reached)"
    by (intro card_Diff1_less) auto
  moreover have "set (d_keys adj) - set (reached @ [node]) = set (d_keys adj) - set reached - {node}" by auto
  ultimately show "((adj, reached @ [node], butlast stack @ filter (\<lambda>t. t \<notin> set (reached @ [node])) ts), adj, reached, stack)
      \<in> measures [\<lambda>(adj, reached, stack). card (set (d_keys adj) - set reached), \<lambda>(adj, reached, stack). length stack]"
    by simp
qed simp_all

declare visit_stack.simps [simp del]

definition validate_connectivity :: "WfEdge list \<Rightarrow> pystr list \<Rightarrow> exn + unit" where
  "validate_connectivity es names =
     ebind (efold add_neighbour es (map (\<lambda>n. (n, [])) names)) (\<lambda>adj.
     ebind (visit_stack adj [] [START_NAME]) (\<lambda>reached.
       let unreachable = filter (\<lambda>n. n \<notin> set reached) names in
       if unreachable \<noteq> [] then Inl (GraphValidationError (py ''unreachable from START: '' @ sorted_repr unreachable))
       else if START_NAME \<in> set (map to_name es)
       then Inl (GraphValidationError (py ''START node must not have incoming edges'')) else Inr ()))"

primrec normalize_route :: "route_spec option \<Rightarrow> (int + pystr) option list" where
  "normalize_route None = [None]"
| "normalize_route (Some r) = map Some (spec_keys r)"

fun duplicate_edges_loop :: "WfEdge list \<Rightarrow> (pystr \<times> pystr, (int + pystr) option list) dict \<Rightarrow> exn + unit" where
  "duplicate_edges_loop [] seen = Inr ()"
| "duplicate_edges_loop (e # es) seen =
     (let key = (from_name e, to_name e); new = normalize_route (we_route e) in
      case map_of seen key of
        Some existing \<Rightarrow>
          (if None \<in> set existing \<or> None \<in> set new \<or> set existing \<inter> set new \<noteq> {}
           then Inl (GraphValidationError (py ''duplicate edge: '' @ from_name e @ py '' -> '' @ to_name e))
           else duplicate_edges_loop es (AList.update key (existing @ new) seen))
      | None \<Rightarrow> duplicate_edges_loop es (AList.update key new seen))"

fun validate_default_routes :: "WfEdge list \<Rightarrow> exn + unit" where
  "validate_default_routes [] = Inr ()"
| "validate_default_routes (e # es) = (case we_route e of
      Some (RouteMany vs) \<Rightarrow>
        (if Inr DEFAULT_ROUTE \<in> set (map route_key vs)
         then Inl (GraphValidationError (py ''DEFAULT_ROUTE cannot be combined with other routes (edge ''
                @ from_name e @ py '' -> '' @ to_name e @ py '')''))
         else validate_default_routes es)
    | _ \<Rightarrow> validate_default_routes es)"

text \<open>\<open>_dfs\<close> and its loop over the neighbours.  The nodes on the recursion stack are those of \<open>path\<close>, so the
  set \<open>in_stack\<close> is not kept apart; \<open>done\<close> is \<open>finished\<close>.\<close>

definition cycle_error :: "pystr list \<Rightarrow> pystr \<Rightarrow> exn" where
  "cycle_error path n = GraphValidationError (py ''unconditional cycle detected: ''
     @ str_join (py '' -> '') (dropWhile (\<lambda>x. x \<noteq> n) path @ [n]))"

function dfs :: "adjacency \<Rightarrow> pystr \<Rightarrow> pystr list \<Rightarrow> pystr list \<Rightarrow> exn + pystr list"
  and dfs_each :: "adjacency \<Rightarrow> pystr list \<Rightarrow> pystr list \<Rightarrow> pystr list \<Rightarrow> exn + pystr list" where
  "dfs adj node path finished = (case map_of adj node of
      None \<Rightarrow> Inl (KeyError node)
    | Some ns \<Rightarrow> ebind (dfs_each adj ns (path @ [node]) finished) (\<lambda>finished'. Inr (node # finished')))"
| "dfs_each adj [] path finished = Inr finished"
| "dfs_each adj (n # ns) path finished =
     (if n \<in> set path then Inl (cycle_error path n)
      else if n \<in> set finished then dfs_each adj ns path finished
      else ebind (dfs adj n path finished) (dfs_each adj ns path))"
  by pat_completeness auto

termination
proof (relation "measures [case_sum (\<lambda>(adj, n, path, f). card (set (d_keys adj) - set (path @ [n])))
      (\<lambda>(adj, ns, path, f). card (set (d_keys adj) - set path)),
    case_sum (\<lambda>(adj, n, path, f). case map_of adj n of None \<Rightarrow> 0 | Some ns \<Rightarrow> Suc (length ns)) (\<lambda>(adj, ns, path, f). length ns)]", goal_cases)
  case (4 adj n ns path finished)
  show ?case
  proof (cases "map_of adj n")
    case None
    then have "n \<notin> set (d_keys adj)" using d_has_iff [of n adj] by simp
    then have "set (d_keys adj) - set (path @ [n]) = set (d_keys adj) - set path" by auto
    then show ?thesis using None by simp
  next
    case (Some ts)
    then have "n \<in> set (d_keys adj) - set path" using 4 d_has_iff [of n adj] by auto
    then have "card (set (d_keys adj) - set path - {n}) < card (set (d_keys adj) - set path)"
      by (intro card_Diff1_less) auto
    moreover have "set (d_keys adj) - set (path @ [n]) = set (d_keys adj) - set path - {n}" by auto
    ultimately show ?thesis by simp
  qed
qed simp_all

declare dfs.simps [simp del] dfs_each.simps [simp del]

definition add_unconditional :: "WfEdge \<Rightarrow> adjacency \<Rightarrow> exn + adjacency" where
  "add_unconditional e adj = (if we_route e \<noteq> None then Inr adj
     else if d_has adj (from_name e) then Inr (d_modify (from_name e) (\<lambda>l. l @ [to_name e]) adj)
     else Inl (KeyError (from_name e)))"

text \<open>The final loop \<open>for name in node_names: if name not in done: _dfs(name, [])\<close> is the neighbour loop with
  an empty path.  Python visits the set of names in an unspecified order, which only decides which of several
  cycles the error names.\<close>

definition detect_unconditional_cycles :: "WfEdge list \<Rightarrow> pystr list \<Rightarrow> exn + unit" where
  "detect_unconditional_cycles es names =
     ebind (efold add_unconditional es (map (\<lambda>n. (n, [])) names)) (\<lambda>adj.
     ebind (dfs_each adj names [] []) (\<lambda>_. Inr ()))"

definition validate_graph :: "BaseNode list \<Rightarrow> WfEdge list \<Rightarrow> exn + unit" where
  "validate_graph ns es = ebind (validate_duplicate_node_names ns) (\<lambda>names.
     ebind (validate_start_node names) (\<lambda>_.
     ebind (validate_start_edges es) (\<lambda>_.
     ebind (validate_connectivity es names) (\<lambda>_.
     ebind (duplicate_edges_loop es []) (\<lambda>_.
     ebind (validate_default_routes es) (\<lambda>_.
     detect_unconditional_cycles es names))))))"

section \<open>The search accepts exactly the acyclic graphs\<close>

definition edge_rel :: "adjacency \<Rightarrow> (pystr \<times> pystr) set" where
  "edge_rel adj = {(a, b). \<exists>l. map_of adj a = Some l \<and> b \<in> set l}"

definition adj_closed :: "adjacency \<Rightarrow> bool" where
  "adj_closed adj \<longleftrightarrow> (\<forall>a l. map_of adj a = Some l \<longrightarrow> set l \<subseteq> set (d_keys adj))"

lemma edge_relI: "map_of adj a = Some l \<Longrightarrow> b \<in> set l \<Longrightarrow> (a, b) \<in> edge_rel adj"
  by (auto simp: edge_rel_def)

text \<open>What holds of the finished nodes: closed under edges, on no cycle, apart from the current path.\<close>

definition finished_inv :: "adjacency \<Rightarrow> pystr list \<Rightarrow> pystr list \<Rightarrow> bool" where
  "finished_inv adj path f \<longleftrightarrow> edge_rel adj `` set f \<subseteq> set f \<and> (\<forall>x \<in> set f. (x, x) \<notin> (edge_rel adj)\<^sup>+) \<and> set f \<inter> set path = {}"

lemma finished_closed: "(x, y) \<in> (edge_rel adj)\<^sup>* \<Longrightarrow> finished_inv adj path f \<Longrightarrow> x \<in> set f \<Longrightarrow> y \<in> set f"
  by (induction rule: rtrancl_induct) (auto simp: finished_inv_def)

lemma finished_extend:
  assumes inv: "finished_inv adj (path @ [n]) f" and l: "map_of adj n = Some l" "set l \<subseteq> set f" and n: "n \<notin> set path"
  shows "finished_inv adj path (n # f)"
proof -
  have "(n, n) \<notin> (edge_rel adj)\<^sup>+"
  proof
    assume "(n, n) \<in> (edge_rel adj)\<^sup>+"
    then obtain y where "(n, y) \<in> edge_rel adj" "(y, n) \<in> (edge_rel adj)\<^sup>*" by (meson tranclD)
    moreover from this have "y \<in> set f" using l by (auto simp: edge_rel_def)
    ultimately have "n \<in> set f" using finished_closed [OF _ inv] by blast
    then show False using inv by (auto simp: finished_inv_def)
  qed
  moreover have "edge_rel adj `` {n} \<subseteq> set f" using l by (auto simp: edge_rel_def)
  ultimately show ?thesis using inv n by (auto simp: finished_inv_def)
qed

lemma dfs_sound:
  "dfs adj n path f = Inr f' \<Longrightarrow> n \<notin> set path \<Longrightarrow> n \<notin> set f \<Longrightarrow> finished_inv adj path f
     \<Longrightarrow> finished_inv adj path f' \<and> insert n (set f) \<subseteq> set f'"
  "dfs_each adj ns path f = Inr f' \<Longrightarrow> finished_inv adj path f \<Longrightarrow> finished_inv adj path f' \<and> set ns \<union> set f \<subseteq> set f'"
proof (induction adj n path f and adj ns path f arbitrary: f' and f' rule: dfs_dfs_each.induct)
  case (1 adj n path f)
  then obtain l f1 where l: "map_of adj n = Some l" "dfs_each adj l (path @ [n]) f = Inr f1" "f' = n # f1"
    by (auto simp: dfs.simps ebind_eq_Inr split: option.splits)
  have "finished_inv adj (path @ [n]) f" using "1.prems" by (auto simp: finished_inv_def)
  then have "finished_inv adj (path @ [n]) f1 \<and> set l \<union> set f \<subseteq> set f1" using "1.IH" l by simp
  then show ?case using finished_extend [of adj path n f1 l] l "1.prems"(2) by auto
next
  case (2 adj path f)
  then show ?case by (simp add: dfs_each.simps)
next
  case (3 adj n ns path f)
  have np: "n \<notin> set path" using "3.prems"(1) by (auto simp: dfs_each.simps split: if_splits)
  show ?case
  proof (cases "n \<in> set f")
    case True
    then have "dfs_each adj ns path f = Inr f'" using "3.prems"(1) np by (simp add: dfs_each.simps)
    then have "finished_inv adj path f' \<and> set ns \<union> set f \<subseteq> set f'"
      using "3.IH"(1) [OF np True] "3.prems"(2) by blast
    then show ?thesis using True by auto
  next
    case False
    then obtain f1 where f1: "dfs adj n path f = Inr f1" "dfs_each adj ns path f1 = Inr f'"
      using "3.prems"(1) np by (auto simp: dfs_each.simps ebind_eq_Inr)
    have a: "finished_inv adj path f1 \<and> insert n (set f) \<subseteq> set f1"
      using "3.IH"(2) [OF np False] f1(1) np False "3.prems"(2) by blast
    then have "finished_inv adj path f' \<and> set ns \<union> set f1 \<subseteq> set f'"
      using "3.IH"(3) [OF np False f1(1)] f1(2) by blast
    then show ?thesis using a by auto
  qed
qed

lemma dfs_complete:
  "dfs adj n path f = Inl e \<Longrightarrow> adj_closed adj \<Longrightarrow> n \<in> set (d_keys adj) \<Longrightarrow> (\<And>x. x \<in> set path \<Longrightarrow> (x, n) \<in> (edge_rel adj)\<^sup>+)
     \<Longrightarrow> \<not> acyclic (edge_rel adj)"
  "dfs_each adj ns path f = Inl e \<Longrightarrow> adj_closed adj \<Longrightarrow> set ns \<subseteq> set (d_keys adj)
     \<Longrightarrow> (\<And>x m. x \<in> set path \<Longrightarrow> m \<in> set ns \<Longrightarrow> (x, m) \<in> (edge_rel adj)\<^sup>+) \<Longrightarrow> \<not> acyclic (edge_rel adj)"
proof (induction adj n path f and adj ns path f arbitrary: e and e rule: dfs_dfs_each.induct)
  case (1 adj n path f)
  then obtain l where l: "map_of adj n = Some l" using d_has_iff [of n adj] by (cases "map_of adj n") auto
  then have bad: "dfs_each adj l (path @ [n]) f = Inl e"
    using "1.prems"(1) by (cases "dfs_each adj l (path @ [n]) f") (auto simp: dfs.simps)
  have "(x, m) \<in> (edge_rel adj)\<^sup>+" if "x \<in> set (path @ [n])" "m \<in> set l" for x m
  proof -
    have "(n, m) \<in> edge_rel adj" using l that by (auto intro: edge_relI)
    then show ?thesis using that(1) "1.prems"(4) [of x] by (auto intro: trancl_into_trancl)
  qed
  moreover have "set l \<subseteq> set (d_keys adj)" using "1.prems"(2) l by (auto simp: adj_closed_def)
  ultimately show ?case using "1.IH" [OF l] bad "1.prems"(2) by blast
next
  case (2 adj path f)
  then show ?case by (simp add: dfs_each.simps)
next
  case (3 adj n ns path f)
  show ?case
  proof (cases "n \<in> set path")
    case True
    then have "(n, n) \<in> (edge_rel adj)\<^sup>+" using "3.prems"(4) by simp
    then show ?thesis by (auto simp: acyclic_def)
  next
    case np: False
    have tl: "set ns \<subseteq> set (d_keys adj)" "\<And>x m. x \<in> set path \<Longrightarrow> m \<in> set ns \<Longrightarrow> (x, m) \<in> (edge_rel adj)\<^sup>+"
      using "3.prems"(3,4) by auto
    consider "n \<in> set f" "dfs_each adj ns path f = Inl e"
      | "n \<notin> set f" "dfs adj n path f = Inl e"
      | f1 where "n \<notin> set f" "dfs adj n path f = Inr f1" "dfs_each adj ns path f1 = Inl e"
      using "3.prems"(1) np by (cases "dfs adj n path f") (auto simp: dfs_each.simps split: if_splits)
    then show ?thesis
    proof cases
      case 1
      then show ?thesis using "3.IH"(1) [OF np] "3.prems"(2) tl by blast
    next
      case 2
      have "n \<in> set (d_keys adj)" "\<And>x. x \<in> set path \<Longrightarrow> (x, n) \<in> (edge_rel adj)\<^sup>+" using "3.prems"(3,4) by auto
      then show ?thesis using "3.IH"(2) [OF np] 2 "3.prems"(2) by blast
    next
      case 3
      then show ?thesis using "3.IH"(3) [OF np] "3.prems"(2) tl by blast
    qed
  qed
qed

lemma dfs_each_accepts:
  assumes "adj_closed adj" and "set ns = set (d_keys adj)"
  shows "(\<exists>f. dfs_each adj ns [] [] = Inr f) \<longleftrightarrow> acyclic (edge_rel adj)"
proof
  assume "\<exists>f. dfs_each adj ns [] [] = Inr f"
  then obtain f where f: "finished_inv adj [] f" "set ns \<subseteq> set f"
    using dfs_sound(2) [of adj ns "[]" "[]"] by (auto simp: finished_inv_def)
  show "acyclic (edge_rel adj)"
    unfolding acyclic_def
  proof (intro allI notI)
    fix x assume c: "(x, x) \<in> (edge_rel adj)\<^sup>+"
    then obtain y where "(x, y) \<in> edge_rel adj" by (meson tranclD)
    then have "x \<in> set f" using assms(2) f(2) d_has_iff [of x adj] by (auto simp: edge_rel_def)
    then show False using c f(1) by (auto simp: finished_inv_def)
  qed
next
  assume "acyclic (edge_rel adj)"
  then show "\<exists>f. dfs_each adj ns [] [] = Inr f"
    using dfs_complete(2) [of adj ns "[]" "[]"] assms by (cases "dfs_each adj ns [] []") auto
qed

section \<open>What an accepted graph is\<close>

definition name_rel :: "WfEdge list \<Rightarrow> (pystr \<times> pystr) set" where
  "name_rel es = {(from_name e, to_name e) | e. e \<in> set es}"

lemma name_rel_Cons: "name_rel (e # es) = insert (from_name e, to_name e) (name_rel es)"
  by (auto simp: name_rel_def)

lemma edge_rel_modify:
  assumes "d_has adj k" and "\<And>l. set (f l) = insert t (set l)"
  shows "edge_rel (d_modify k f adj) = insert (k, t) (edge_rel adj)"
proof -
  obtain l where l: "map_of adj k = Some l" using assms(1) d_has_iff [of k adj] by auto
  show ?thesis
  proof (rule set_eqI)
    fix p :: "pystr \<times> pystr"
    show "p \<in> edge_rel (d_modify k f adj) \<longleftrightarrow> p \<in> insert (k, t) (edge_rel adj)"
      using l assms(2) by (cases p; cases "fst p = k") (auto simp: edge_rel_def)
  qed
qed

lemma edge_rel_empty [simp]: "edge_rel (map (\<lambda>n. (n, [])) names) = {}"
  by (induction names) (auto simp: edge_rel_def)

lemma set_set_add [simp]: "set (set_add x xs) = insert x (set xs)"
  by (auto simp: set_add_def)

lemma add_neighbours:
  "set (map from_name es) \<subseteq> set (d_keys adj) \<Longrightarrow> \<exists>adj'. efold add_neighbour es adj = Inr adj'
     \<and> d_keys adj' = d_keys adj \<and> edge_rel adj' = edge_rel adj \<union> name_rel es"
proof (induction es arbitrary: adj)
  case (Cons e es)
  let ?adj = "d_modify (from_name e) (set_add (to_name e)) adj"
  have "set (map from_name es) \<subseteq> set (d_keys ?adj)" using Cons.prems by auto
  then obtain adj' where "efold add_neighbour es ?adj = Inr adj'" "d_keys adj' = d_keys ?adj"
    "edge_rel adj' = edge_rel ?adj \<union> name_rel es" using Cons.IH by metis
  moreover have "edge_rel ?adj = insert (from_name e, to_name e) (edge_rel adj)"
    using Cons.prems by (intro edge_rel_modify) auto
  moreover have "add_neighbour e adj = Inr ?adj" using Cons.prems by (simp add: add_neighbour_def)
  ultimately show ?case by (simp add: name_rel_Cons)
qed (simp add: name_rel_def)

definition unconditional_edges :: "WfEdge list \<Rightarrow> WfEdge list" where
  "unconditional_edges es = filter (\<lambda>e. we_route e = None) es"

lemma add_unconditionals:
  "set (map from_name es) \<subseteq> set (d_keys adj) \<Longrightarrow> \<exists>adj'. efold add_unconditional es adj = Inr adj'
     \<and> d_keys adj' = d_keys adj \<and> edge_rel adj' = edge_rel adj \<union> name_rel (unconditional_edges es)"
proof (induction es arbitrary: adj)
  case (Cons e es)
  let ?adj = "d_modify (from_name e) (\<lambda>l. l @ [to_name e]) adj"
  have r: "edge_rel ?adj = insert (from_name e, to_name e) (edge_rel adj)"
    using Cons.prems by (intro edge_rel_modify) auto
  have keys: "set (map from_name es) \<subseteq> set (d_keys adj)" "set (map from_name es) \<subseteq> set (d_keys ?adj)"
    using Cons.prems by auto
  show ?case
  proof (cases "we_route e")
    case None
    then show ?thesis using Cons.IH [OF keys(2)] Cons.prems r
      by (auto simp: add_unconditional_def unconditional_edges_def name_rel_Cons)
  next
    case (Some x)
    then show ?thesis using Cons.IH [OF keys(1)] by (simp add: add_unconditional_def unconditional_edges_def)
  qed
qed (simp add: name_rel_def unconditional_edges_def)

lemma adj_closed_if: "edge_rel adj \<subseteq> UNIV \<times> set (d_keys adj) \<Longrightarrow> adj_closed adj"
  by (auto simp: adj_closed_def edge_rel_def)

lemma visit_stack_result:
  "adj_closed adj \<Longrightarrow> set stack \<subseteq> set (d_keys adj) \<Longrightarrow> edge_rel adj `` set reached \<subseteq> set reached \<union> set stack
     \<Longrightarrow> \<exists>R. visit_stack adj reached stack = Inr R \<and> set reached \<union> set stack \<subseteq> set R \<and> edge_rel adj `` set R \<subseteq> set R
       \<and> (\<forall>P. set reached \<union> set stack \<subseteq> P \<longrightarrow> edge_rel adj `` P \<subseteq> P \<longrightarrow> set R \<subseteq> P)"
proof (induction adj reached stack rule: visit_stack.induct)
  case (1 adj reached stack)
  show ?case
  proof (cases "stack = []")
    case True
    then show ?thesis using "1.prems" by (subst visit_stack.simps) simp
  next
    case False
    define node where "node = last stack"
    have stack: "set stack = insert node (set (butlast stack))"
      using False append_butlast_last_id [OF False] unfolding node_def
      by (metis Un_insert_right list.simps(15) set_append sup_bot.right_neutral empty_set)
    show ?thesis
    proof (cases "node \<in> set reached")
      case True
      have "\<exists>R. visit_stack adj reached (butlast stack) = Inr R \<and> set reached \<union> set (butlast stack) \<subseteq> set R
          \<and> edge_rel adj `` set R \<subseteq> set R
          \<and> (\<forall>P. set reached \<union> set (butlast stack) \<subseteq> P \<longrightarrow> edge_rel adj `` P \<subseteq> P \<longrightarrow> set R \<subseteq> P)"
        using "1.IH"(1) [OF False node_def True] "1.prems" stack True by auto
      moreover have "set reached \<union> set stack = set reached \<union> set (butlast stack)" using True stack by auto
      moreover have "visit_stack adj reached stack = visit_stack adj reached (butlast stack)"
        using False True by (subst visit_stack.simps) (simp add: node_def)
      ultimately show ?thesis by simp
    next
      case new: False
      obtain ts where ts: "map_of adj node = Some ts"
        using "1.prems"(2) stack d_has_iff [of node adj] by auto
      let ?stack = "butlast stack @ filter (\<lambda>t. t \<notin> set (reached @ [node])) ts"
      have img: "edge_rel adj `` {node} = set ts" using ts by (auto simp: edge_rel_def)
      have sub: "set ts \<subseteq> set (d_keys adj)" using "1.prems"(1) ts by (auto simp: adj_closed_def)
      have eq: "set (reached @ [node]) \<union> set ?stack = set reached \<union> set stack \<union> set ts" using stack by auto
      have ih: "\<exists>R. visit_stack adj (reached @ [node]) ?stack = Inr R \<and> set (reached @ [node]) \<union> set ?stack \<subseteq> set R
          \<and> edge_rel adj `` set R \<subseteq> set R
          \<and> (\<forall>P. set (reached @ [node]) \<union> set ?stack \<subseteq> P \<longrightarrow> edge_rel adj `` P \<subseteq> P \<longrightarrow> set R \<subseteq> P)"
      proof (rule "1.IH"(2) [OF False node_def new ts "1.prems"(1)])
        show "set ?stack \<subseteq> set (d_keys adj)" using "1.prems"(2) stack sub by auto
        have "edge_rel adj `` set (reached @ [node]) = edge_rel adj `` set reached \<union> set ts" using img by auto
        then show "edge_rel adj `` set (reached @ [node]) \<subseteq> set (reached @ [node]) \<union> set ?stack"
          unfolding eq using "1.prems"(3) by auto
      qed
      have unf: "visit_stack adj reached stack = visit_stack adj (reached @ [node]) ?stack"
        using False new ts by (subst visit_stack.simps) (simp add: node_def Let_def)
      have "set reached \<union> set stack \<union> set ts \<subseteq> P" if "set reached \<union> set stack \<subseteq> P" "edge_rel adj `` P \<subseteq> P" for P
        using that img stack by auto
      then show ?thesis using ih unfolding unf eq by (metis Un_subset_iff)
    qed
  qed
qed

lemma visit_stack_reachable:
  assumes "adj_closed adj" and "r \<in> set (d_keys adj)"
  shows "\<exists>R. visit_stack adj [] [r] = Inr R \<and> set R = (edge_rel adj)\<^sup>* `` {r}"
proof -
  obtain R where R: "visit_stack adj [] [r] = Inr R" "r \<in> set R" "edge_rel adj `` set R \<subseteq> set R"
    "\<And>P. r \<in> P \<Longrightarrow> edge_rel adj `` P \<subseteq> P \<Longrightarrow> set R \<subseteq> P"
    using visit_stack_result [of adj "[r]" "[]"] assms by auto
  have "set R \<subseteq> (edge_rel adj)\<^sup>* `` {r}" by (rule R(4)) (auto intro: rtrancl_into_rtrancl)
  moreover have "y \<in> set R" if "(r, y) \<in> (edge_rel adj)\<^sup>*" for y
    using that by (induction rule: rtrancl_induct) (use R(2,3) in auto)
  ultimately show ?thesis using R(1) by auto
qed

lemma edge_nodes_ends:
  "e \<in> set es \<Longrightarrow> from_name e \<in> set (map bn_name (edge_nodes es))"
  "e \<in> set es \<Longrightarrow> to_name e \<in> set (map bn_name (edge_nodes es))"
  by (auto simp: edge_nodes_def)

lemma count_list_distinct: "(\<forall>x. count_list xs x \<le> 1) \<longleftrightarrow> distinct xs"
proof (induction xs)
  case (Cons x xs)
  show ?case
  proof
    assume a: "\<forall>y. count_list (x # xs) y \<le> 1"
    have "count_list xs y \<le> 1" for y using spec [OF a, of y] by (simp split: if_splits)
    moreover have "x \<notin> set xs" using spec [OF a, of x] by (simp add: count_list_0_iff)
    ultimately show "distinct (x # xs)" using Cons.IH by simp
  next
    assume "distinct (x # xs)"
    moreover from this have "count_list xs x = 0" by (simp add: count_list_0_iff)
    ultimately show "\<forall>y. count_list (x # xs) y \<le> 1" using Cons.IH by auto
  qed
qed simp

lemma validate_duplicate_node_names_iff:
  "validate_duplicate_node_names ns = Inr names \<longleftrightarrow> distinct (map bn_name ns) \<and> names = fromkeys (map bn_name ns)"
proof -
  have "count_list xs x > 1 \<Longrightarrow> x \<in> set xs" for xs and x :: pystr
    using count_list_0_iff [of xs x] by force
  then have "filter (\<lambda>x. count_list xs x > 1) (fromkeys xs) = [] \<longleftrightarrow> distinct xs" for xs :: "pystr list"
    by (subst count_list_distinct [symmetric]) (auto simp: filter_empty_conv not_le not_less)
  then show ?thesis by (auto simp: validate_duplicate_node_names_def Let_def)
qed

lemma validate_start_edges_iff:
  "validate_start_edges es = Inr () \<longleftrightarrow> (\<forall>e \<in> set es. from_name e = START_NAME \<longrightarrow> we_route e = None)"
  by (induction es rule: validate_start_edges.induct) (auto split: option.splits)

definition no_mixed_default :: "WfEdge \<Rightarrow> bool" where
  "no_mixed_default e \<longleftrightarrow> (case we_route e of Some (RouteMany vs) \<Rightarrow> RStr DEFAULT_ROUTE \<notin> set vs | _ \<Rightarrow> True)"

lemma route_key_default: "Inr DEFAULT_ROUTE \<in> route_key ` set vs \<longleftrightarrow> RStr DEFAULT_ROUTE \<in> set vs"
proof
  assume "Inr DEFAULT_ROUTE \<in> route_key ` set vs"
  then obtain v where v: "v \<in> set vs" "Inr DEFAULT_ROUTE = route_key v" by auto
  from v(2) have "v = RStr DEFAULT_ROUTE" by (cases v) auto
  then show "RStr DEFAULT_ROUTE \<in> set vs" using v by simp
qed force

lemma validate_default_routes_iff: "validate_default_routes es = Inr () \<longleftrightarrow> list_all no_mixed_default es"
  by (induction es rule: validate_default_routes.induct)
     (auto simp: no_mixed_default_def route_key_default split: option.splits route_spec.splits)

text \<open>Two edges between the same nodes must both carry routes, and no route in common.\<close>

definition routes_apart :: "(int + pystr) option list \<Rightarrow> WfEdge \<Rightarrow> bool" where
  "routes_apart rs e \<longleftrightarrow> None \<notin> set rs \<and> None \<notin> set (normalize_route (we_route e))
     \<and> set rs \<inter> set (normalize_route (we_route e)) = {}"

definition compatible :: "WfEdge \<Rightarrow> WfEdge \<Rightarrow> bool" where
  "compatible e e' \<longleftrightarrow> (from_name e, to_name e) = (from_name e', to_name e') \<longrightarrow> routes_apart (normalize_route (we_route e)) e'"

lemma routes_apart_append:
  "routes_apart rs e \<Longrightarrow> routes_apart (rs @ normalize_route (we_route e)) e'
     \<longleftrightarrow> routes_apart (normalize_route (we_route e)) e' \<and> routes_apart rs e'"
  by (auto simp: routes_apart_def)

lemma duplicate_edges_loop_iff:
  "duplicate_edges_loop es seen = Inr () \<longleftrightarrow> sorted_wrt compatible es
     \<and> (\<forall>e \<in> set es. \<forall>ex. map_of seen (from_name e, to_name e) = Some ex \<longrightarrow> routes_apart ex e)"
proof (induction es arbitrary: seen)
  case (Cons e es)
  let ?key = "\<lambda>e. (from_name e, to_name e)"
  let ?new = "normalize_route (we_route e)"
  have upd: "map_of (AList.update k v seen) k' = (if k' = k then Some v else map_of seen k')" for k k' v
    by (simp add: update_conv')
  have step: "(\<forall>ex. map_of (AList.update (?key e) rs seen) (?key e') = Some ex \<longrightarrow> routes_apart ex e')
      \<longleftrightarrow> compatible e e' \<and> (\<forall>ex. map_of seen (?key e') = Some ex \<longrightarrow> routes_apart ex e')"
    if "map_of seen (?key e) = None \<and> rs = ?new \<or> (\<exists>ex. map_of seen (?key e) = Some ex \<and> routes_apart ex e \<and> rs = ex @ ?new)" for rs e'
    unfolding upd compatible_def using that by (cases "?key e' = ?key e") (auto simp: routes_apart_append)
  show ?case
  proof (cases "map_of seen (?key e)")
    case None
    then have "duplicate_edges_loop (e # es) seen = duplicate_edges_loop es (AList.update (?key e) ?new seen)"
      by (simp add: Let_def)
    then show ?thesis using None by (simp add: Cons.IH step) blast
  next
    case (Some ex)
    have "duplicate_edges_loop (e # es) seen = Inr ()
        \<longleftrightarrow> routes_apart ex e \<and> duplicate_edges_loop es (AList.update (?key e) (ex @ ?new) seen) = Inr ()"
      using Some by (auto simp: Let_def routes_apart_def)
    moreover have "(\<forall>e' \<in> set es. \<forall>ex'. map_of (AList.update (?key e) (ex @ ?new) seen) (?key e') = Some ex' \<longrightarrow> routes_apart ex' e')
        \<longleftrightarrow> (\<forall>e' \<in> set es. compatible e e') \<and> (\<forall>e' \<in> set es. \<forall>ex'. map_of seen (?key e') = Some ex' \<longrightarrow> routes_apart ex' e')"
      if "routes_apart ex e"
      using Some that by (subst step) auto
    ultimately show ?thesis using Some unfolding Cons.IH sorted_wrt.simps by auto
  qed
qed simp

definition graph_ok :: "WfEdge list \<Rightarrow> bool" where
  "graph_ok es \<longleftrightarrow> distinct (map bn_name (edge_nodes es))
     \<and> START_NAME \<in> set (map bn_name (edge_nodes es))
     \<and> (\<forall>e \<in> set es. from_name e = START_NAME \<longrightarrow> we_route e = None)
     \<and> (\<forall>n \<in> set (edge_nodes es). (START_NAME, bn_name n) \<in> (name_rel es)\<^sup>*)
     \<and> (\<forall>e \<in> set es. to_name e \<noteq> START_NAME)
     \<and> sorted_wrt compatible es
     \<and> list_all no_mixed_default es
     \<and> acyclic (name_rel (unconditional_edges es))"

lemma name_rel_ends: "name_rel es \<subseteq> set (map bn_name (edge_nodes es)) \<times> set (map bn_name (edge_nodes es))"
  using edge_nodes_ends unfolding name_rel_def by blast

lemma from_names:
  "set names = set (map bn_name (edge_nodes es)) \<Longrightarrow> set (map from_name es) \<subseteq> set (d_keys (map (\<lambda>n. (n, [])) names))"
  using edge_nodes_ends(1) [of _ es] by (auto simp: comp_def)

lemma connectivity_iff:
  assumes names: "set names = set (map bn_name (edge_nodes es))" and "START_NAME \<in> set names"
  shows "validate_connectivity es names = Inr () \<longleftrightarrow>
     (\<forall>n \<in> set names. (START_NAME, n) \<in> (name_rel es)\<^sup>*) \<and> (\<forall>e \<in> set es. to_name e \<noteq> START_NAME)"
proof -
  obtain adj where adj: "efold add_neighbour es (map (\<lambda>n. (n, [])) names) = Inr adj"
    "d_keys adj = names" "edge_rel adj = name_rel es"
    using add_neighbours [OF from_names [OF names]] by (auto simp: comp_def)
  have "adj_closed adj" using name_rel_ends [of es] names adj(2,3) by (intro adj_closed_if) auto
  then obtain R where R: "visit_stack adj [] [START_NAME] = Inr R" "set R = (name_rel es)\<^sup>* `` {START_NAME}"
    using visit_stack_reachable [of adj START_NAME] assms(2) adj(2,3) by auto
  have "validate_connectivity es names = Inr () \<longleftrightarrow>
      filter (\<lambda>n. n \<notin> set R) names = [] \<and> START_NAME \<notin> set (map to_name es)"
    by (simp add: validate_connectivity_def adj(1) R(1) Let_def del: set_map)
  then show ?thesis using R(2) by (auto simp: filter_empty_conv image_iff)
qed

lemma cycles_iff:
  assumes names: "set names = set (map bn_name (edge_nodes es))"
  shows "detect_unconditional_cycles es names = Inr () \<longleftrightarrow> acyclic (name_rel (unconditional_edges es))"
proof -
  obtain adj where adj: "efold add_unconditional es (map (\<lambda>n. (n, [])) names) = Inr adj"
    "d_keys adj = names" "edge_rel adj = name_rel (unconditional_edges es)"
    using add_unconditionals [OF from_names [OF names]] by (auto simp: comp_def)
  have "name_rel (unconditional_edges es) \<subseteq> name_rel es" by (auto simp: name_rel_def unconditional_edges_def)
  then have "adj_closed adj" using name_rel_ends [of es] names adj(2,3) by (intro adj_closed_if) auto
  then have "(\<exists>f. dfs_each adj names [] [] = Inr f) \<longleftrightarrow> acyclic (edge_rel adj)"
    using adj(2) by (intro dfs_each_accepts) simp_all
  moreover have "detect_unconditional_cycles es names = Inr () \<longleftrightarrow> (\<exists>f. dfs_each adj names [] [] = Inr f)"
    by (auto simp: detect_unconditional_cycles_def adj(1) ebind_eq_Inr)
  ultimately show ?thesis using adj(3) by simp
qed

lemma accepted_iff: "validate_graph (edge_nodes es) es = Inr () \<longleftrightarrow> graph_ok es"
proof (cases "distinct (map bn_name (edge_nodes es)) \<and> START_NAME \<in> set (map bn_name (edge_nodes es))")
  case True
  let ?names = "fromkeys (map bn_name (edge_nodes es))"
  have n: "set ?names = set (map bn_name (edge_nodes es))" by simp
  have "validate_duplicate_node_names (edge_nodes es) = Inr ?names"
    using True validate_duplicate_node_names_iff by blast
  moreover have "validate_start_node ?names = Inr ()" using True by (simp add: validate_start_node_def)
  ultimately have "validate_graph (edge_nodes es) es = Inr () \<longleftrightarrow> validate_start_edges es = Inr ()
      \<and> validate_connectivity es ?names = Inr () \<and> duplicate_edges_loop es [] = Inr ()
      \<and> validate_default_routes es = Inr () \<and> detect_unconditional_cycles es ?names = Inr ()"
    by (simp add: validate_graph_def ebind_eq_Inr)
  then show ?thesis
    using True connectivity_iff [OF n] cycles_iff [OF n]
    by (simp add: graph_ok_def validate_start_edges_iff duplicate_edges_loop_iff validate_default_routes_iff)
next
  case False
  have "validate_graph (edge_nodes es) es \<noteq> Inr ()"
  proof
    assume "validate_graph (edge_nodes es) es = Inr ()"
    then obtain names where "validate_duplicate_node_names (edge_nodes es) = Inr names" "validate_start_node names = Inr ()"
      by (auto simp: validate_graph_def ebind_eq_Inr)
    then show False using False by (auto simp: validate_duplicate_node_names_iff validate_start_node_def split: if_splits)
  qed
  then show ?thesis using False by (auto simp: graph_ok_def)
qed

text \<open>C11: A workflow graph passes validation exactly when its node names are distinct, every node is reachable
  from \<open>START\<close>, \<open>START\<close> has no incoming and no routed edge, two edges between the same nodes carry disjoint
  routes, \<open>DEFAULT_ROUTE\<close> stands alone, and the unconditional edges contain no cycle.\<close>

theorem validate_graph_iff:
  "ebind (make_graph es []) (\<lambda>g. validate_graph (g_nodes g) (g_edges g)) = Inr () \<longleftrightarrow> graph_ok es"
  by (simp add: make_graph_def accepted_iff)

end
