(* ===== verification/Dag_Executor.thy ===== *)
theory Dag_Executor
  imports Dag_Runtime Wf_Graph
begin

text \<open>
  The deterministic nodes of the \<open>new_choirworks\<close> orchestrator: the executor of \<open>orchestrator/executor_node.py\<close>
  (apply a plan, collect finished tasks, judge, dispatch, wait, drain) and the mention rule of
  \<open>orchestrator/helper.py\<close>; with the whole machine of \<open>orchestrator/orchestrator.py\<close>, whose transitions follow
  the routes of its workflow graph.  A coroutine that awaits is split at the await: \<open>executor_begin\<close>,
  \<open>executor_resume\<close>, \<open>executor_drain\<close>.
\<close>

section \<open>Executor\<close>

definition build_node_message :: "DagRuntime \<Rightarrow> PlanNode \<Rightarrow> pystr" where
  "build_node_message rt n = str_join (nl @ nl) (resolve_instruction (pn_instruction n) (dr_outputs rt)
     # concat (map (\<lambda>d. case map_of (dr_outputs rt) d of None \<Rightarrow> []
         | Some out \<Rightarrow> [py ''['' @ d @ py '' output]'' @ nl @ out]) (pn_deps n)))"

text \<open>One dispatched node.  The message is what the task is created with.\<close>

definition dispatch_one :: "pystr \<Rightarrow> DagRuntime \<Rightarrow> exn + DagRuntime" where
  "dispatch_one k rt = ebind (get_node rt k) (\<lambda>n.
     case map_of (dr_agents rt) (pn_agent_name n) of
       None \<Rightarrow> Inl (KeyError (pn_agent_name n))
     | Some info \<Rightarrow> Inr ((set_dstatus k D_RUNNING rt)\<lparr>dr_running := AList.update k Task_running (dr_running rt)\<rparr>))"

definition dispatch_ready :: "DagRuntime \<Rightarrow> exn + DagRuntime" where
  "dispatch_ready rt = efold dispatch_one (dispatchable rt) rt"

text \<open>\<open>_collect_done\<close> over \<open>list(running_tasks.items())\<close>.\<close>

fun collect_tasks :: "(pystr \<times> dag_task) list \<Rightarrow> DagRuntime \<Rightarrow> DagRuntime" where
  "collect_tasks [] rt = rt"
| "collect_tasks ((k, Task_running) # ts) rt = collect_tasks ts rt"
| "collect_tasks ((k, Task_finished r) # ts) rt = collect_tasks ts
     ((case r of Inl err \<Rightarrow> record_failure k err | Inr out \<Rightarrow> record_completion k out)
        (rt\<lparr>dr_running := AList.delete k (dr_running rt)\<rparr>))"

definition dag_collect_done :: "DagRuntime \<Rightarrow> DagRuntime" where
  "dag_collect_done rt = collect_tasks (dr_running rt) rt"

definition abort_if_failed :: "DagRuntime \<Rightarrow> exn + DagRuntime" where
  "abort_if_failed rt = (case failed_completion rt of None \<Rightarrow> Inr rt | Some r \<Rightarrow> Inl (abort_cause r))"

text \<open>Where a call of the executor stands: it routes to the helper with a node id, it routes to the end, it waits
  for the first running task, or it drains the running tasks.\<close>

datatype exec_phase = E_judge pystr | E_default | E_wait | E_drain

definition drain_phase :: "DagRuntime \<Rightarrow> exec_phase" where
  "drain_phase rt = (if dr_running rt = [] then E_default else E_drain)"

text \<open>Up to the first await.  \<open>node_input\<close> is a plan when the planner ran before.\<close>

definition executor_begin :: "PlanNode list option \<Rightarrow> DagRuntime \<Rightarrow> exn + (exec_phase \<times> DagRuntime)" where
  "executor_begin node_input rt =
     ebind (case node_input of None \<Rightarrow> Inr rt | Some plan \<Rightarrow> apply_plan plan rt) (\<lambda>rt1.
       let rt2 = dag_collect_done rt1 in
       if dr_done_requested rt2 then Inr (drain_phase rt2, rt2)
       else ebind (abort_if_failed rt2) (\<lambda>rt3.
         case pop_completion rt3 of
           (Some r, rt4) \<Rightarrow> Inr (E_judge (cr_node_id r), rt4)
         | (None, rt4) \<Rightarrow> ebind (dispatch_ready rt4) (\<lambda>rt5.
             Inr (if has_work rt5 then E_wait else E_default, rt5))))"

definition no_progress :: exn where
  "no_progress = WorkflowError (py ''Executor executor: dispatch made no progress'')"

text \<open>After \<open>_wait_one\<close>.\<close>

definition executor_resume :: "DagRuntime \<Rightarrow> exn + (exec_phase \<times> DagRuntime)" where
  "executor_resume rt = ebind (abort_if_failed (dag_collect_done rt)) (\<lambda>rt1.
     case pop_completion rt1 of
       (Some r, rt2) \<Rightarrow> Inr (E_judge (cr_node_id r), rt2)
     | (None, rt2) \<Rightarrow> Inl no_progress)"

definition executor_drain :: "DagRuntime \<Rightarrow> exec_phase \<times> DagRuntime" where
  "executor_drain rt = (let rt1 = dag_collect_done rt in (drain_phase rt1, rt1))"

text \<open>\<open>_wait_one\<close> returns when some running task has finished, at once when none is running.\<close>

definition wait_returns :: "DagRuntime \<Rightarrow> bool" where
  "wait_returns rt \<longleftrightarrow> dr_running rt = [] \<or> list_ex (\<lambda>(k, t). t \<noteq> Task_running) (dr_running rt)"

section \<open>Helper\<close>

text \<open>\<open>text.split("@")[1:]\<close>, and \<open>part.find(" ")\<close> in each part.\<close>

definition mention_of :: "pystr set \<Rightarrow> pystr \<Rightarrow> (pystr \<times> pystr) option" where
  "mention_of agents part = (if 32 \<notin> set part then None
     else let agent = takeWhile (\<lambda>c. c \<noteq> 32) part; instruction = str_strip (tl (dropWhile (\<lambda>c. c \<noteq> 32) part))
          in if agent \<in> agents \<and> instruction \<noteq> [] then Some (agent, instruction) else None)"

definition parse_mentions :: "pystr \<Rightarrow> pystr set \<Rightarrow> (pystr \<times> pystr) list" where
  "parse_mentions s agents = List.map_filter (mention_of agents) (tl (str_split at_sign s))"

fun helper_candidates :: "DagRuntime \<Rightarrow> pystr \<Rightarrow> pystr \<Rightarrow> pystr list \<Rightarrow> (pystr \<times> pystr) list \<Rightarrow> (pystr \<times> pystr) list" where
  "helper_candidates rt k own seen [] = []"
| "helper_candidates rt k own seen ((agent, instruction) # ms) =
     (if agent = own \<or> agent \<in> set seen then helper_candidates rt k own seen ms
      else if has_assist_for rt k agent then helper_candidates rt k own (agent # seen) ms
      else (agent, instruction) # helper_candidates rt k own (agent # seen) ms)"

datatype helper_route = Execute | Evaluate

definition helper_run :: "pystr \<Rightarrow> DagRuntime \<Rightarrow> exn + (helper_route \<times> DagRuntime)" where
  "helper_run k rt = (if \<not> in_plan rt k then Inr (Evaluate, rt)
     else ebind (get_node rt k) (\<lambda>parent.
       let output = (case map_of (dr_outputs rt) k of None \<Rightarrow> [] | Some out \<Rightarrow> out);
           candidates = helper_candidates rt k (pn_agent_name parent) []
             (parse_mentions output (set (d_keys (dr_agents rt))))
       in if candidates = [] then Inr (Evaluate, rt)
          else if \<not> can_add_assists rt k (length candidates) then Inr (Evaluate, rt)
          else ebind (efold (\<lambda>(agent, instruction). add_assist k agent instruction) candidates rt)
            (\<lambda>rt'. Inr (Execute, rt'))))"

section \<open>The orchestrator\<close>

definition wf_node :: "nat \<Rightarrow> string \<Rightarrow> BaseNode" where
  "wf_node i name = \<lparr>bn_oid = i, bn_name = py name, bn_join = False\<rparr>"

abbreviation planner_node :: BaseNode where "planner_node \<equiv> wf_node 1 ''planner''"
abbreviation executor_node :: BaseNode where "executor_node \<equiv> wf_node 2 ''executor''"
abbreviation helper_node :: BaseNode where "helper_node \<equiv> wf_node 3 ''helper''"
abbreviation done_node :: BaseNode where "done_node \<equiv> wf_node 4 ''done''"

definition wf_edge :: "BaseNode \<Rightarrow> BaseNode \<Rightarrow> pystr option \<Rightarrow> WfEdge" where
  "wf_edge a b r = \<lparr>from_node = a, to_node = b, we_route = map_option (\<lambda>s. RouteOne (RStr s)) r\<rparr>"

definition orchestrator_edges :: "WfEdge list" where
  "orchestrator_edges =
     [wf_edge START planner_node None,
      wf_edge planner_node executor_node None,
      wf_edge executor_node helper_node (Some (py ''judge'')),
      wf_edge executor_node done_node (Some DEFAULT_ROUTE),
      wf_edge helper_node executor_node (Some (py ''execute'')),
      wf_edge helper_node planner_node (Some DEFAULT_ROUTE)]"

definition orchestrator_graph :: Graph where
  "orchestrator_graph = \<lparr>g_edges = orchestrator_edges, g_nodes = edge_nodes orchestrator_edges\<rparr>"

text \<open>What one node passes to the next: the planner a plan (\<open>None\<close> when its output did not validate), the
  executor the id of a completed node.\<close>

datatype payload = No_payload | Plan_payload "PlanNode list option" | Node_payload pystr

datatype orch_phase =
    Enter pystr payload
  | Executor_waits
  | Executor_drains
  | Orch_done "(pystr, pystr) dict"
  | Orch_failed exn

text \<open>The next node by the workflow graph.\<close>

definition leave :: "pystr \<Rightarrow> pystr option \<Rightarrow> payload \<Rightarrow> orch_phase" where
  "leave name route p = (case get_next_pending_nodes orchestrator_graph name (map_option (\<lambda>s. RouteOne (RStr s)) route) of
      t # _ \<Rightarrow> Enter t p
    | [] \<Rightarrow> Orch_failed (WorkflowError name))"

definition after_executor :: "exn + (exec_phase \<times> DagRuntime) \<Rightarrow> DagRuntime \<Rightarrow> orch_phase \<times> DagRuntime" where
  "after_executor r rt = (case r of
      Inl e \<Rightarrow> (Orch_failed e, shutdown rt)
    | Inr (E_judge k, rt') \<Rightarrow> (leave (py ''executor'') (Some (py ''judge'')) (Node_payload k), rt')
    | Inr (E_default, rt') \<Rightarrow> (leave (py ''executor'') (Some DEFAULT_ROUTE) No_payload, rt')
    | Inr (E_wait, rt') \<Rightarrow> (Executor_waits, rt')
    | Inr (E_drain, rt') \<Rightarrow> (Executor_drains, rt'))"

definition after_helper :: "exn + (helper_route \<times> DagRuntime) \<Rightarrow> DagRuntime \<Rightarrow> orch_phase \<times> DagRuntime" where
  "after_helper r rt = (case r of
      Inl e \<Rightarrow> (Orch_failed e, shutdown rt)
    | Inr (Execute, rt') \<Rightarrow> (leave (py ''helper'') (Some (py ''execute'')) (Plan_payload None), rt')
    | Inr (Evaluate, rt') \<Rightarrow> (leave (py ''helper'') (Some DEFAULT_ROUTE) No_payload, rt'))"

text \<open>The plans the planner may return: every node names a registered agent (\<open>constrained_plan_schema\<close>),
  and no new node takes an id of the form the runtime generates for its own assist nodes.\<close>

definition plan_conforms :: "DagRuntime \<Rightarrow> PlanNode list \<Rightarrow> bool" where
  "plan_conforms rt plan \<longleftrightarrow> list_all (\<lambda>n. d_has (dr_agents rt) (pn_agent_name n)) plan"

definition is_assist_id :: "pystr \<Rightarrow> bool" where
  "is_assist_id k \<longleftrightarrow> (\<exists>p i. 0 \<le> i \<and> k = assist_id_of p i)"

definition plan_fresh :: "DagRuntime \<Rightarrow> PlanNode list \<Rightarrow> bool" where
  "plan_fresh rt plan \<longleftrightarrow> list_all (\<lambda>n. d_has (dr_status rt) (pn_id n) \<or> \<not> is_assist_id (pn_id n)) plan"

definition good_answers :: "DagRuntime \<Rightarrow> PlanNode list \<Rightarrow> bool" where
  "good_answers rt plan \<longleftrightarrow> plan_conforms rt plan \<and> plan_fresh rt plan"

text \<open>One step: a running task finishes, or the active node runs.  \<open>answers\<close> says which plans the planner may
  return in a state.\<close>

inductive orch_step :: "(DagRuntime \<Rightarrow> PlanNode list \<Rightarrow> bool) \<Rightarrow> orch_phase \<times> DagRuntime \<Rightarrow> orch_phase \<times> DagRuntime \<Rightarrow> bool"
  for answers :: "DagRuntime \<Rightarrow> PlanNode list \<Rightarrow> bool" where
  task_finishes: "map_of (dr_running rt) k = Some Task_running
     \<Longrightarrow> orch_step answers (ph, rt) (ph, rt\<lparr>dr_running := AList.update k (Task_finished r) (dr_running rt)\<rparr>)"
| planner_plans: "answers rt plan
     \<Longrightarrow> orch_step answers (Enter (py ''planner'') p, rt) (leave (py ''planner'') None (Plan_payload (Some plan)), rt)"
| planner_no_plan: "orch_step answers (Enter (py ''planner'') p, rt) (leave (py ''planner'') None (Plan_payload None), rt)"
| planner_raises: "orch_step answers (Enter (py ''planner'') p, rt) (Orch_failed e, shutdown rt)"
| executor_starts: "orch_step answers (Enter (py ''executor'') (Plan_payload plan), rt) (after_executor (executor_begin plan rt) rt)"
| executor_resumes: "wait_returns rt \<Longrightarrow> orch_step answers (Executor_waits, rt) (after_executor (executor_resume rt) rt)"
| executor_drained: "wait_returns rt \<Longrightarrow> orch_step answers (Executor_drains, rt) (after_executor (Inr (executor_drain rt)) rt)"
| helper_judges: "orch_step answers (Enter (py ''helper'') (Node_payload k), rt) (after_helper (helper_run k rt) rt)"
| done_reached: "orch_step answers (Enter (py ''done'') p, rt) (Orch_done (dr_outputs rt), shutdown rt)"

inductive orch_reachable :: "(DagRuntime \<Rightarrow> PlanNode list \<Rightarrow> bool) \<Rightarrow> (pystr, AgentInfo) dict \<Rightarrow> pystr
    \<Rightarrow> orch_phase \<times> DagRuntime \<Rightarrow> bool"
  for answers :: "DagRuntime \<Rightarrow> PlanNode list \<Rightarrow> bool" and agents :: "(pystr, AgentInfo) dict" and user_task :: pystr where
  orch_start: "orch_reachable answers agents user_task (Enter (py ''planner'') No_payload, new_runtime agents user_task)"
| orch_next: "orch_reachable answers agents user_task x \<Longrightarrow> orch_step answers x y \<Longrightarrow> orch_reachable answers agents user_task y"

section \<open>Routing\<close>

lemma orchestrator_valid: "validate_graph (g_nodes orchestrator_graph) (g_edges orchestrator_graph) = Inr ()"
  by code_simp

lemma leave_simps [simp]:
  "leave (py ''planner'') None p = Enter (py ''executor'') p"
  "leave (py ''executor'') (Some (py ''judge'')) p = Enter (py ''helper'') p"
  "leave (py ''executor'') (Some DEFAULT_ROUTE) p = Enter (py ''done'') p"
  "leave (py ''helper'') (Some (py ''execute'')) p = Enter (py ''executor'') p"
  "leave (py ''helper'') (Some DEFAULT_ROUTE) p = Enter (py ''planner'') p"
  by (simp_all add: leave_def get_next_pending_nodes_def orchestrator_graph_def orchestrator_edges_def wf_edge_def
      wf_node_def START_def START_NAME_def DEFAULT_ROUTE_def)

declare map_of_eq_Some_iff [simp del]

section \<open>The invariant of the runtime\<close>

definition record_settled :: "DagRuntime \<Rightarrow> CompletionRecord \<Rightarrow> bool" where
  "record_settled rt r \<longleftrightarrow> dstatus rt (cr_node_id r) = Some (if cr_error r = None then D_COMPLETED else D_FAILED)"

text \<open>Four parts: the plan, the running tasks, the results, the assist bookkeeping.\<close>

definition plan_inv :: "DagRuntime \<Rightarrow> bool" where
  "plan_inv rt \<longleftrightarrow> distinct (map pn_id (dr_plan rt)) \<and> length (dr_plan rt) \<le> MAX_PLAN_NODES
     \<and> (\<forall>n \<in> set (dr_plan rt). dstatus rt (pn_id n) \<noteq> None \<and> map_of (dr_agents rt) (pn_agent_name n) \<noteq> None)"

definition running_inv :: "DagRuntime \<Rightarrow> bool" where
  "running_inv rt \<longleftrightarrow> distinct (d_keys (dr_running rt))
     \<and> (\<forall>k. map_of (dr_running rt) k \<noteq> None \<longleftrightarrow> dstatus rt k = Some D_RUNNING)"

definition results_inv :: "DagRuntime \<Rightarrow> bool" where
  "results_inv rt \<longleftrightarrow> (\<forall>k. dstatus rt k = Some D_COMPLETED \<longrightarrow> map_of (dr_outputs rt) k \<noteq> None)
     \<and> (\<forall>k. dstatus rt k \<noteq> Some D_CANCELLED)
     \<and> distinct (map cr_node_id (dr_completions rt)) \<and> list_all (record_settled rt) (dr_completions rt)"

definition assist_inv :: "DagRuntime \<Rightarrow> bool" where
  "assist_inv rt \<longleftrightarrow> 0 \<le> dr_assist_seq rt
     \<and> (\<forall>p i. 0 \<le> i \<and> dstatus rt (assist_id_of p i) \<noteq> None \<longrightarrow> i \<le> dr_assist_seq rt)
     \<and> (\<forall>k. 0 \<le> assist_depth rt k \<and> assist_depth rt k \<le> MAX_ASSIST_DEPTH)"

text \<open>Dependencies that are still open: both ends have no output yet.  A node that waits for assistance has an
  output, so the dependencies merged into it cannot close a cycle here.\<close>

definition open_edges :: "DagRuntime \<Rightarrow> (pystr \<times> pystr) set" where
  "open_edges rt = {(d, pn_id n) | d n. n \<in> set (dr_plan rt) \<and> d \<in> set (pn_deps n)
     \<and> map_of (dr_outputs rt) d = None \<and> map_of (dr_outputs rt) (pn_id n) = None}"

definition deps_inv :: "DagRuntime \<Rightarrow> bool" where
  "deps_inv rt \<longleftrightarrow> (\<forall>k. dstatus rt k = Some D_WAITING_ASSIST \<longrightarrow> map_of (dr_outputs rt) k \<noteq> None)
     \<and> (\<forall>n \<in> set (dr_plan rt). \<forall>d \<in> set (pn_deps n). d \<in> pn_id ` set (dr_plan rt) \<or> map_of (dr_outputs rt) d \<noteq> None)
     \<and> acyclic (open_edges rt)"

definition rt_inv :: "DagRuntime \<Rightarrow> bool" where
  "rt_inv rt \<longleftrightarrow> plan_inv rt \<and> running_inv rt \<and> results_inv rt \<and> assist_inv rt \<and> deps_inv rt
     \<and> (dr_done_requested rt \<longrightarrow> dr_plan rt = [] \<and> dr_completions rt = [])"

lemmas rt_inv_defs = rt_inv_def plan_inv_def running_inv_def results_inv_def assist_inv_def deps_inv_def

text \<open>Fewer open edges, and outputs kept: enough for the third part.\<close>

lemma deps_invI:
  assumes "deps_inv rt" and "open_edges rt' \<subseteq> open_edges rt"
    and "\<And>k. dstatus rt' k = Some D_WAITING_ASSIST \<Longrightarrow> map_of (dr_outputs rt') k \<noteq> None"
    and "\<And>n d. n \<in> set (dr_plan rt') \<Longrightarrow> d \<in> set (pn_deps n) \<Longrightarrow> d \<in> pn_id ` set (dr_plan rt') \<or> map_of (dr_outputs rt') d \<noteq> None"
  shows "deps_inv rt'"
  using assms acyclic_subset by (auto simp: deps_inv_def)

lemma deps_inv_cong:
  "dr_plan rt' = dr_plan rt \<Longrightarrow> dr_outputs rt' = dr_outputs rt
     \<Longrightarrow> (\<And>k. dstatus rt' k = Some D_WAITING_ASSIST \<Longrightarrow> dstatus rt k = Some D_WAITING_ASSIST) \<Longrightarrow> deps_inv rt \<Longrightarrow> deps_inv rt'"
  by (rule deps_invI [of rt]) (auto simp: open_edges_def deps_inv_def)

lemma dstatus_set [simp]: "dstatus (set_dstatus k st rt) k' = (if k' = k then Some st else dstatus rt k')"
  by (simp add: set_dstatus_def update_conv')

lemma set_dstatus_frame [simp]:
  "dr_plan (set_dstatus k st rt) = dr_plan rt" "dr_agents (set_dstatus k st rt) = dr_agents rt"
  "dr_outputs (set_dstatus k st rt) = dr_outputs rt" "dr_running (set_dstatus k st rt) = dr_running rt"
  "dr_completions (set_dstatus k st rt) = dr_completions rt" "dr_done_requested (set_dstatus k st rt) = dr_done_requested rt"
  "dr_assist_seq (set_dstatus k st rt) = dr_assist_seq rt" "dr_assist_depth (set_dstatus k st rt) = dr_assist_depth rt"
  by (simp_all add: set_dstatus_def)

lemma new_runtime_inv: "rt_inv (new_runtime agents user_task)"
  by (simp add: rt_inv_defs new_runtime_def assist_depth_def MAX_ASSIST_DEPTH_def open_edges_def acyclic_def)

section \<open>Applying a plan\<close>

lemma adopt_status_fold:
  "dstatus (fold (adopt_status rt0) ns rt) k
     = (if k \<in> pn_id ` set ns \<and> old_node rt0 k = None \<and> dstatus rt k \<in> {None, Some D_PENDING, Some D_CANCELLED}
        then Some D_PENDING else dstatus rt k)"
proof (induction ns arbitrary: rt)
  case (Cons n ns)
  then show ?case by (auto simp: adopt_status_def)
qed simp

lemma adopt_status_frame [simp]:
  "dr_plan (fold (adopt_status rt0) ns rt) = dr_plan rt" "dr_agents (fold (adopt_status rt0) ns rt) = dr_agents rt"
  "dr_outputs (fold (adopt_status rt0) ns rt) = dr_outputs rt" "dr_running (fold (adopt_status rt0) ns rt) = dr_running rt"
  "dr_completions (fold (adopt_status rt0) ns rt) = dr_completions rt"
  "dr_done_requested (fold (adopt_status rt0) ns rt) = dr_done_requested rt"
  "dr_assist_seq (fold (adopt_status rt0) ns rt) = dr_assist_seq rt"
  "dr_assist_depth (fold (adopt_status rt0) ns rt) = dr_assist_depth rt"
  by (induction ns arbitrary: rt) (simp_all add: adopt_status_def)

lemma adopt_node_frame [simp]:
  "pn_id (adopt_node ids rt n) = pn_id n" "pn_agent_name (adopt_node ids rt n) = pn_agent_name n"
  by (auto simp: adopt_node_def Let_def split: option.splits)

lemma old_node_in_plan: "old_node rt k = None \<longleftrightarrow> k \<notin> pn_id ` set (dr_plan rt)"
  by (force simp: old_node_def map_of_eq_None_iff)

lemma dag_validate_iff:
  "dag_validate_plan plan m = Inr () \<longleftrightarrow> length plan \<le> m \<and> distinct (map pn_id plan)
     \<and> (\<forall>n \<in> set plan. set (pn_deps n) \<subseteq> pn_id ` set plan) \<and> acyclic (dep_edges (dag_graph plan))"
  by (simp add: dag_validate_plan_def validate_dep_graph_iff dag_graph_def o_def)

lemma apply_plan_Inr:
  assumes "apply_plan plan rt = Inr rt'"
  shows "dag_validate_plan plan MAX_PLAN_NODES = Inr ()"
    "dr_plan rt' = map (adopt_node (map pn_id plan) rt) plan"
    "\<And>k. dstatus rt' k = (if k \<in> pn_id ` set plan \<and> k \<notin> pn_id ` set (dr_plan rt)
        \<and> dstatus rt k \<in> {None, Some D_PENDING, Some D_CANCELLED} then Some D_PENDING else dstatus rt k)"
    "dr_done_requested rt' = (plan = [])" "dr_completions rt' = (if plan = [] then [] else dr_completions rt)"
    "dr_running rt' = dr_running rt" "dr_outputs rt' = dr_outputs rt" "dr_agents rt' = dr_agents rt"
    "dr_assist_seq rt' = dr_assist_seq rt" "dr_assist_depth rt' = dr_assist_depth rt"
proof -
  let ?rt1 = "rt\<lparr>dr_done_requested := (plan = []), dr_completions := (if plan = [] then [] else dr_completions rt)\<rparr>"
  show "dag_validate_plan plan MAX_PLAN_NODES = Inr ()" using assms by (auto simp: apply_plan_def ebind_eq_Inr)
  have rt': "rt' = (fold (adopt_status ?rt1) plan ?rt1)\<lparr>dr_plan := map (adopt_node (map pn_id plan) ?rt1) plan\<rparr>"
    using assms by (auto simp: apply_plan_def Let_def ebind_eq_Inr)
  have o: "old_node ?rt1 k = old_node rt k" for k by (simp add: old_node_def)
  then have "adopt_node ids ?rt1 n = adopt_node ids rt n" for ids n
    by (simp add: adopt_node_def Let_def split: option.split)
  then show "dr_plan rt' = map (adopt_node (map pn_id plan) rt) plan" by (simp add: rt')
  show "dstatus rt' k = (if k \<in> pn_id ` set plan \<and> k \<notin> pn_id ` set (dr_plan rt)
        \<and> dstatus rt k \<in> {None, Some D_PENDING, Some D_CANCELLED} then Some D_PENDING else dstatus rt k)" for k
    by (auto simp: rt' adopt_status_fold o old_node_in_plan)
  show "dr_done_requested rt' = (plan = [])" "dr_completions rt' = (if plan = [] then [] else dr_completions rt)"
    "dr_running rt' = dr_running rt" "dr_outputs rt' = dr_outputs rt" "dr_agents rt' = dr_agents rt"
    "dr_assist_seq rt' = dr_assist_seq rt" "dr_assist_depth rt' = dr_assist_depth rt"
    by (simp_all add: rt')
qed

lemma apply_plan_inv:
  assumes "rt_inv rt" and "good_answers rt plan" and ap: "apply_plan plan rt = Inr rt'"
  shows "rt_inv rt'"
proof -
  note a = apply_plan_Inr [OF ap]
  have ok: "length plan \<le> MAX_PLAN_NODES" "distinct (map pn_id plan)" using a(1) by (auto simp: dag_validate_iff)
  have inv: "plan_inv rt" "running_inv rt" "results_inv rt" "assist_inv rt" using assms(1) by (auto simp: rt_inv_def)
  have old: "dstatus rt k \<noteq> None" if "k \<in> pn_id ` set (dr_plan rt)" for k
    using inv(1) that by (auto simp: plan_inv_def)
  have "dstatus rt' (pn_id n) \<noteq> None \<and> map_of (dr_agents rt') (pn_agent_name n) \<noteq> None" if n: "n \<in> set plan" for n
  proof
    show "dstatus rt' (pn_id n) \<noteq> None" using n old [of "pn_id n"] by (auto simp: a(3))
    have "d_has (dr_agents rt) (pn_agent_name n)"
      using assms(2) n unfolding good_answers_def plan_conforms_def list_all_iff by blast
    then show "map_of (dr_agents rt') (pn_agent_name n) \<noteq> None" unfolding a(8) d_has_iff .
  qed
  then have "plan_inv rt'" using ok by (simp add: plan_inv_def a(2) comp_def)
  moreover have same: "dstatus rt' k = Some st \<longleftrightarrow> dstatus rt k = Some st" if "st \<notin> {D_PENDING, D_CANCELLED}" for k st
    using that by (auto simp: a(3))
  moreover have "dstatus rt' k \<noteq> Some D_CANCELLED" for k using inv(3) by (auto simp: a(3) results_inv_def)
  ultimately have "plan_inv rt'" "running_inv rt'" "results_inv rt'"
    using inv(2,3) by (auto simp: running_inv_def results_inv_def a(5-7) record_settled_def list_all_iff)
  moreover have "assist_inv rt'"
  proof -
    have "i \<le> dr_assist_seq rt" if i: "0 \<le> i" "dstatus rt' (assist_id_of p i) \<noteq> None" for p i
    proof (cases "dstatus rt (assist_id_of p i)")
      case None
      then have "assist_id_of p i \<in> pn_id ` set plan" using i(2) by (auto simp: a(3) split: if_splits)
      then have "d_has (dr_status rt) (assist_id_of p i) \<or> \<not> is_assist_id (assist_id_of p i)"
        using assms(2) unfolding good_answers_def plan_fresh_def list_all_iff by auto
      moreover have "is_assist_id (assist_id_of p i)" using i(1) by (auto simp: is_assist_id_def)
      ultimately show ?thesis using None d_has_iff [of "assist_id_of p i" "dr_status rt"] by blast
    next
      case (Some st)
      then show ?thesis using inv(4) i(1) by (auto simp: assist_inv_def)
    qed
    then show ?thesis using inv(4) by (auto simp: assist_inv_def assist_depth_def a(9,10))
  qed
  moreover have "deps_inv rt'"
  proof -
    have g: "\<forall>n \<in> set plan. set (pn_deps n) \<subseteq> pn_id ` set plan" "acyclic (dep_edges (dag_graph plan))"
      using a(1) by (auto simp: dag_validate_iff)
    have waits: "map_of (dr_outputs rt) k \<noteq> None" if "dstatus rt k = Some D_WAITING_ASSIST" for k
      using assms(1) that by (simp add: rt_inv_def deps_inv_def)
    have adopt: "pn_deps (adopt_node (map pn_id plan) rt n) = pn_deps n \<or>
        (map_of (dr_outputs rt) (pn_id n) \<noteq> None
         \<and> (\<forall>d \<in> set (pn_deps (adopt_node (map pn_id plan) rt n)). d \<in> pn_id ` set plan \<or> map_of (dr_outputs rt) d \<noteq> None))" for n
    proof (cases "dstatus rt (pn_id n) = Some D_WAITING_ASSIST")
      case True
      then show ?thesis using waits [OF True] by (auto simp: adopt_node_def Let_def map_of_eq_None_iff split: option.splits)
    next
      case False
      then show ?thesis by (auto simp: adopt_node_def Let_def split: option.splits)
    qed
    have "open_edges rt' \<subseteq> dep_edges (dag_graph plan)"
    proof
      fix e assume "e \<in> open_edges rt'"
      then obtain d n where e: "e = (d, pn_id n)" "n \<in> set plan" "d \<in> set (pn_deps (adopt_node (map pn_id plan) rt n))"
        "map_of (dr_outputs rt) (pn_id n) = None" by (auto simp: open_edges_def a(2,7))
      then have "d \<in> set (pn_deps n)" using adopt [of n] by auto
      then show "e \<in> dep_edges (dag_graph plan)" using e(1,2) by (auto simp: dep_edges_def dag_graph_def)
    qed
    then have "acyclic (open_edges rt')" using g(2) acyclic_subset by blast
    moreover have "\<forall>n \<in> set (dr_plan rt'). \<forall>d \<in> set (pn_deps n). d \<in> pn_id ` set (dr_plan rt') \<or> map_of (dr_outputs rt') d \<noteq> None"
    proof (intro ballI)
      fix m d assume "m \<in> set (dr_plan rt')" "d \<in> set (pn_deps m)"
      then obtain n where n: "n \<in> set plan" "d \<in> set (pn_deps (adopt_node (map pn_id plan) rt n))" by (auto simp: a(2))
      then have "d \<in> pn_id ` set plan \<or> map_of (dr_outputs rt) d \<noteq> None" using adopt [of n] bspec [OF g(1) n(1)] by auto
      then show "d \<in> pn_id ` set (dr_plan rt') \<or> map_of (dr_outputs rt') d \<noteq> None" by (auto simp: a(2,7) image_image)
    qed
    moreover have "\<forall>k. dstatus rt' k = Some D_WAITING_ASSIST \<longrightarrow> map_of (dr_outputs rt') k \<noteq> None"
      using waits by (auto simp: a(3,7))
    ultimately show ?thesis by (simp add: deps_inv_def)
  qed
  moreover have "dr_done_requested rt' \<longrightarrow> dr_plan rt' = [] \<and> dr_completions rt' = []" by (simp add: a(2,4,5))
  ultimately show ?thesis by (simp add: rt_inv_def)
qed

section \<open>Collecting, dispatching\<close>

lemma enqueue_frame [simp]:
  "dr_status (enqueue_completion r rt) = dr_status rt" "dr_plan (enqueue_completion r rt) = dr_plan rt"
  "dr_agents (enqueue_completion r rt) = dr_agents rt" "dr_outputs (enqueue_completion r rt) = dr_outputs rt"
  "dr_running (enqueue_completion r rt) = dr_running rt" "dr_done_requested (enqueue_completion r rt) = dr_done_requested rt"
  "dr_assist_seq (enqueue_completion r rt) = dr_assist_seq rt" "dr_assist_depth (enqueue_completion r rt) = dr_assist_depth rt"
  by (simp_all add: enqueue_completion_def)

definition settle_task :: "pystr \<Rightarrow> pystr + pystr \<Rightarrow> DagRuntime \<Rightarrow> DagRuntime" where
  "settle_task k r rt = (case r of Inl err \<Rightarrow> record_failure k err | Inr out \<Rightarrow> record_completion k out)
     (rt\<lparr>dr_running := AList.delete k (dr_running rt)\<rparr>)"

lemma settle_task_fields:
  "dr_plan (settle_task k r rt) = dr_plan rt" "dr_agents (settle_task k r rt) = dr_agents rt"
  "dr_running (settle_task k r rt) = AList.delete k (dr_running rt)"
  "dstatus (settle_task k r rt) k' = (if k' = k then Some (case r of Inl e \<Rightarrow> D_FAILED | Inr out \<Rightarrow> D_COMPLETED) else dstatus rt k')"
  "map_of (dr_outputs (settle_task k r rt)) k' = (case r of Inl e \<Rightarrow> map_of (dr_outputs rt) k'
     | Inr out \<Rightarrow> if k' = k then Some out else map_of (dr_outputs rt) k')"
  "dr_done_requested (settle_task k r rt) = dr_done_requested rt" "dr_assist_seq (settle_task k r rt) = dr_assist_seq rt"
  "dr_assist_depth (settle_task k r rt) = dr_assist_depth rt"
  "dr_completions (settle_task k r rt) = dr_completions rt @ (if judgable rt k
     then [case r of Inl e \<Rightarrow> \<lparr>cr_node_id = k, cr_output = [], cr_error = Some e\<rparr>
           | Inr out \<Rightarrow> \<lparr>cr_node_id = k, cr_output = out, cr_error = None\<rparr>] else [])"
  by (auto simp: settle_task_def record_completion_def record_failure_def update_conv' enqueue_completion_def judgable_def
      in_plan_def split: sum.splits)

lemma settle_task_inv:
  assumes "rt_inv rt" and k: "dstatus rt k = Some D_RUNNING"
  shows "rt_inv (settle_task k r rt)"
proof -
  have inv: "plan_inv rt" "running_inv rt" "results_inv rt" "assist_inv rt" "dr_done_requested rt \<longrightarrow> dr_plan rt = [] \<and> dr_completions rt = []"
    using assms(1) by (auto simp: rt_inv_def)
  have nin: "k \<notin> cr_node_id ` set (dr_completions rt)"
    using inv(3) k by (auto simp: results_inv_def list_all_iff record_settled_def split: if_splits)
  have "plan_inv (settle_task k r rt)" using inv(1) by (simp add: plan_inv_def settle_task_fields)
  moreover have "running_inv (settle_task k r rt)"
    using inv(2) by (auto simp: running_inv_def settle_task_fields delete_conv' d_keys_delete split: sum.splits)
  moreover have "results_inv (settle_task k r rt)"
    using inv(3) nin by (auto simp: results_inv_def settle_task_fields record_settled_def list_all_iff split: sum.splits)
  moreover have "assist_inv (settle_task k r rt)"
    using inv(4) k by (auto simp: assist_inv_def settle_task_fields assist_depth_def split: if_splits)
  moreover have "deps_inv (settle_task k r rt)"
  proof (rule deps_invI)
    show d: "deps_inv rt" using assms(1) by (simp add: rt_inv_def)
    show "open_edges (settle_task k r rt) \<subseteq> open_edges rt"
      by (cases r) (auto simp: open_edges_def settle_task_fields split: if_splits)
    show "map_of (dr_outputs (settle_task k r rt)) k' \<noteq> None" if "dstatus (settle_task k r rt) k' = Some D_WAITING_ASSIST" for k'
      using that d by (auto simp: deps_inv_def settle_task_fields split: sum.splits if_splits)
    show "d \<in> pn_id ` set (dr_plan (settle_task k r rt)) \<or> map_of (dr_outputs (settle_task k r rt)) d \<noteq> None"
      if "n \<in> set (dr_plan (settle_task k r rt))" "d \<in> set (pn_deps n)" for n d
      using that d by (auto simp: deps_inv_def settle_task_fields split: sum.splits)
  qed
  moreover have "dr_done_requested rt \<longrightarrow> \<not> judgable rt k" by (simp add: judgable_def)
  ultimately show ?thesis using inv(5) by (simp add: rt_inv_def settle_task_fields)
qed

lemma collect_tasks_inv:
  "rt_inv rt \<Longrightarrow> distinct (map fst ts) \<Longrightarrow> (\<And>k. k \<in> fst ` set ts \<Longrightarrow> dstatus rt k = Some D_RUNNING) \<Longrightarrow> rt_inv (collect_tasks ts rt)"
proof (induction ts rt rule: collect_tasks.induct)
  case (3 k r ts rt)
  have step: "collect_tasks ((k, Task_finished r) # ts) rt = collect_tasks ts (settle_task k r rt)" by (simp add: settle_task_def)
  have "rt_inv (settle_task k r rt)" using "3.prems" by (intro settle_task_inv) auto
  moreover have "dstatus (settle_task k r rt) k' = Some D_RUNNING" if "k' \<in> fst ` set ts" for k'
    using that "3.prems"(2,3) by (auto simp: settle_task_fields)
  ultimately show ?case using "3.IH" "3.prems"(2) unfolding step by (simp add: settle_task_def)
qed auto

lemma collect_done_inv: "rt_inv rt \<Longrightarrow> rt_inv (dag_collect_done rt)"
  unfolding dag_collect_done_def
proof (rule collect_tasks_inv)
  assume inv: "rt_inv rt"
  show "distinct (d_keys (dr_running rt))" using inv by (simp add: rt_inv_def running_inv_def)
  show "dstatus rt k = Some D_RUNNING" if "k \<in> fst ` set (dr_running rt)" for k
    using inv that unfolding rt_inv_def running_inv_def by (auto simp: map_of_eq_None_iff)
qed

lemma get_node_total: "k \<in> pn_id ` set (dr_plan rt) \<Longrightarrow> \<exists>n. get_node rt k = Inr n \<and> n \<in> set (dr_plan rt) \<and> pn_id n = k"
  by (force simp: get_node_def find_None_iff find_Some_iff split: option.splits)

lemma in_plan_iff: "in_plan rt k \<longleftrightarrow> k \<in> pn_id ` set (dr_plan rt)"
  by (force simp: in_plan_def list_ex_iff)

definition start_task :: "pystr \<Rightarrow> DagRuntime \<Rightarrow> DagRuntime" where
  "start_task k rt = (set_dstatus k D_RUNNING rt)\<lparr>dr_running := AList.update k Task_running (dr_running rt)\<rparr>"

lemma dispatch_one_ok:
  assumes "plan_inv rt" and "k \<in> pn_id ` set (dr_plan rt)"
  shows "dispatch_one k rt = Inr (start_task k rt)"
proof -
  obtain n where n: "get_node rt k = Inr n" "n \<in> set (dr_plan rt)" using get_node_total [OF assms(2)] by blast
  then obtain info where "map_of (dr_agents rt) (pn_agent_name n) = Some info"
    using assms(1) by (force simp: plan_inv_def)
  then show ?thesis using n(1) by (simp add: dispatch_one_def start_task_def)
qed

lemma start_task_fields [simp]:
  "dr_plan (start_task k rt) = dr_plan rt" "dr_agents (start_task k rt) = dr_agents rt" "dr_outputs (start_task k rt) = dr_outputs rt"
  "dr_completions (start_task k rt) = dr_completions rt" "dr_done_requested (start_task k rt) = dr_done_requested rt"
  "dr_assist_seq (start_task k rt) = dr_assist_seq rt" "dr_assist_depth (start_task k rt) = dr_assist_depth rt"
  "dstatus (start_task k rt) k' = (if k' = k then Some D_RUNNING else dstatus rt k')"
  "dr_running (start_task k rt) = AList.update k Task_running (dr_running rt)"
  by (simp_all add: start_task_def)

lemma start_task_inv:
  assumes "rt_inv rt" and k: "awaits_dispatch (dstatus rt k)" and "dr_completions rt = [] \<or> \<not> (\<exists>r \<in> set (dr_completions rt). cr_node_id r = k)"
  shows "rt_inv (start_task k rt)"
proof -
  have inv: "plan_inv rt" "running_inv rt" "results_inv rt" "assist_inv rt" "dr_done_requested rt \<longrightarrow> dr_plan rt = [] \<and> dr_completions rt = []"
    using assms(1) by (auto simp: rt_inv_def)
  have "plan_inv (start_task k rt)" using inv(1) by (simp add: plan_inv_def)
  moreover have "running_inv (start_task k rt)"
    using inv(2) by (auto simp: running_inv_def update_conv' distinct_update split: if_splits)
  moreover have "results_inv (start_task k rt)"
    using inv(3) assms(3) by (auto simp: results_inv_def record_settled_def list_all_iff)
  moreover have "assist_inv (start_task k rt)"
    using inv(4) k by (auto simp: assist_inv_def assist_depth_def awaits_dispatch_def split: if_splits)
  moreover have "deps_inv rt" using assms(1) by (simp add: rt_inv_def)
  then have "deps_inv (start_task k rt)" by (rule deps_inv_cong [rotated 3]) (auto split: if_splits)
  ultimately show ?thesis using inv(5) by (simp add: rt_inv_def)
qed

lemma completion_not_awaiting: "results_inv rt \<Longrightarrow> awaits_dispatch (dstatus rt k) \<Longrightarrow> \<not> (\<exists>r \<in> set (dr_completions rt). cr_node_id r = k)"
  by (auto simp: results_inv_def record_settled_def list_all_iff awaits_dispatch_def split: if_splits)

lemma dispatch_all:
  "rt_inv rt \<Longrightarrow> distinct ks \<Longrightarrow> (\<And>k. k \<in> set ks \<Longrightarrow> k \<in> pn_id ` set (dr_plan rt) \<and> awaits_dispatch (dstatus rt k))
     \<Longrightarrow> efold dispatch_one ks rt = Inr (fold start_task ks rt) \<and> rt_inv (fold start_task ks rt)"
proof (induction ks arbitrary: rt)
  case (Cons k ks)
  have k: "k \<in> pn_id ` set (dr_plan rt)" "awaits_dispatch (dstatus rt k)" using Cons.prems(3) by auto
  have inv: "plan_inv rt" "results_inv rt" using Cons.prems(1) by (auto simp: rt_inv_def)
  have "dispatch_one k rt = Inr (start_task k rt)" by (rule dispatch_one_ok [OF inv(1) k(1)])
  moreover have "rt_inv (start_task k rt)"
    using start_task_inv [OF Cons.prems(1) k(2)] completion_not_awaiting [OF inv(2) k(2)] by blast
  moreover have "k' \<in> pn_id ` set (dr_plan (start_task k rt)) \<and> awaits_dispatch (dstatus (start_task k rt) k')" if "k' \<in> set ks" for k'
    using that Cons.prems(2) Cons.prems(3) [of k'] by auto
  ultimately show ?case using Cons.IH [of "start_task k rt"] Cons.prems(2) by simp
qed simp

lemma distinct_dispatchable: "plan_inv rt \<Longrightarrow> distinct (dispatchable rt)"
  unfolding dispatchable_def plan_inv_def by (intro distinct_map_filter) simp

lemma dispatchable_mem:
  "k \<in> set (dispatchable rt) \<longleftrightarrow> (\<exists>n \<in> set (dr_plan rt). pn_id n = k \<and> awaits_dispatch (dstatus rt k) \<and> set (pn_deps n) \<subseteq> set (d_keys (dr_outputs rt)))"
  unfolding dispatchable_def list_all_iff set_map set_filter by blast

lemma dispatch_ready_inv:
  assumes "rt_inv rt"
  shows "dispatch_ready rt = Inr (fold start_task (dispatchable rt) rt)" "rt_inv (fold start_task (dispatchable rt) rt)"
proof -
  have "plan_inv rt" using assms by (simp add: rt_inv_def)
  then have "efold dispatch_one (dispatchable rt) rt = Inr (fold start_task (dispatchable rt) rt)
      \<and> rt_inv (fold start_task (dispatchable rt) rt)"
    using distinct_dispatchable by (intro dispatch_all [OF assms]) (auto simp: dispatchable_mem)
  then show "dispatch_ready rt = Inr (fold start_task (dispatchable rt) rt)" "rt_inv (fold start_task (dispatchable rt) rt)"
    by (auto simp: dispatch_ready_def)
qed

lemma fold_start_fields:
  "dr_plan (fold start_task ks rt) = dr_plan rt" "dr_outputs (fold start_task ks rt) = dr_outputs rt"
  "dr_completions (fold start_task ks rt) = dr_completions rt" "dr_agents (fold start_task ks rt) = dr_agents rt"
  "dr_done_requested (fold start_task ks rt) = dr_done_requested rt"
  "dstatus (fold start_task ks rt) k = (if k \<in> set ks then Some D_RUNNING else dstatus rt k)"
  by (induction ks arbitrary: rt) auto

lemma dispatchable_started: "dispatchable (fold start_task (dispatchable rt) rt) = []"
proof -
  have "k \<notin> set (dispatchable (fold start_task (dispatchable rt) rt))" for k
    unfolding dispatchable_mem fold_start_fields by (auto simp: awaits_dispatch_def dispatchable_mem split: if_splits)
  then show ?thesis by (metis all_not_in_conv set_empty)
qed

section \<open>Popping a completion\<close>

lemma pop_judgable_suffix:
  "pop_judgable ok rs = (r, rs') \<Longrightarrow> \<exists>dropped. rs = dropped @ (case r of None \<Rightarrow> [] | Some c \<Rightarrow> [c]) @ rs'
     \<and> (\<forall>c. r = Some c \<longrightarrow> ok (cr_node_id c)) \<and> (r = None \<longrightarrow> rs' = [])"
proof (induction ok rs rule: pop_judgable.induct)
  case (2 ok c rs)
  show ?case
  proof (cases "ok (cr_node_id c)")
    case True
    then show ?thesis using "2.prems" by (intro exI [of _ "[]"]) auto
  next
    case False
    then have "pop_judgable ok rs = (r, rs')" using "2.prems" by simp
    from "2.IH" [OF False this] obtain dropped where
      "rs = dropped @ (case r of None \<Rightarrow> [] | Some c \<Rightarrow> [c]) @ rs'
        \<and> (\<forall>c. r = Some c \<longrightarrow> ok (cr_node_id c)) \<and> (r = None \<longrightarrow> rs' = [])" ..
    then show ?thesis by (intro exI [of _ "c # dropped"]) simp
  qed
qed simp

lemma pop_completion_frame:
  assumes "pop_completion rt = (r, rt')"
  shows "dr_plan rt' = dr_plan rt" "dr_agents rt' = dr_agents rt" "dr_outputs rt' = dr_outputs rt" "dr_status rt' = dr_status rt"
    "dr_running rt' = dr_running rt" "dr_done_requested rt' = dr_done_requested rt" "dr_assist_seq rt' = dr_assist_seq rt"
    "dr_assist_depth rt' = dr_assist_depth rt"
  using assms by (auto simp: pop_completion_def Let_def)

lemma pop_completion_inv:
  assumes "rt_inv rt" and "pop_completion rt = (r, rt')"
  shows "rt_inv rt'" "r = None \<Longrightarrow> dr_completions rt' = []"
    "r = Some c \<Longrightarrow> judgable rt (cr_node_id c) \<and> record_settled rt c \<and> c \<in> set (dr_completions rt)
       \<and> cr_node_id c \<notin> cr_node_id ` set (dr_completions rt')"
proof -
  note f = pop_completion_frame [OF assms(2)]
  have p: "pop_judgable (judgable rt) (dr_completions rt) = (r, dr_completions rt')"
    using assms(2) by (auto simp: pop_completion_def Let_def)
  obtain dropped where d: "dr_completions rt = dropped @ (case r of None \<Rightarrow> [] | Some r \<Rightarrow> [r]) @ dr_completions rt'"
    "\<forall>c. r = Some c \<longrightarrow> judgable rt (cr_node_id c)" "r = None \<longrightarrow> dr_completions rt' = []"
    using pop_judgable_suffix [OF p] by blast
  have inv: "plan_inv rt" "running_inv rt" "results_inv rt" "assist_inv rt" "dr_done_requested rt \<longrightarrow> dr_plan rt = [] \<and> dr_completions rt = []"
    using assms(1) by (auto simp: rt_inv_def)
  have dist: "distinct (map cr_node_id (dr_completions rt))" "list_all (record_settled rt) (dr_completions rt)"
    using inv(3) by (auto simp: results_inv_def)
  have "distinct (map cr_node_id (dr_completions rt'))" "list_all (record_settled rt) (dr_completions rt')"
    using dist unfolding d(1) by auto
  then have "results_inv rt'" using inv(3) by (auto simp: results_inv_def f record_settled_def [abs_def])
  moreover have "plan_inv rt'" using inv(1) unfolding plan_inv_def f .
  moreover have "running_inv rt'" using inv(2) unfolding running_inv_def f .
  moreover have "assist_inv rt'" using inv(4) unfolding assist_inv_def assist_depth_def f .
  moreover have "deps_inv rt'" using assms(1) unfolding rt_inv_def deps_inv_def open_edges_def f by blast
  moreover have "dr_completions rt = [] \<Longrightarrow> dr_completions rt' = []" using d(1) by simp
  ultimately show "rt_inv rt'" using inv(5) by (auto simp: rt_inv_def f)
  show "r = None \<Longrightarrow> dr_completions rt' = []" using d(3) by blast
  show "r = Some c \<Longrightarrow> judgable rt (cr_node_id c) \<and> record_settled rt c \<and> c \<in> set (dr_completions rt)
       \<and> cr_node_id c \<notin> cr_node_id ` set (dr_completions rt')"
    using d(1,2) dist by (auto simp: list_all_iff)
qed

section \<open>Assistance\<close>

lemma takeWhile_digits: "takeWhile is_digit (rev (nat_str n) @ 116 # xs) = rev (nat_str n)"
  using nat_str_digits [of n] by (subst takeWhile_append2) (auto simp: is_digit_def)

text \<open>Generated ids determine the sequence number they were made with.\<close>

lemma assist_id_inject:
  assumes "0 \<le> i" "0 \<le> j" and e: "assist_id_of p i = assist_id_of q j"
  shows "i = j"
proof -
  have s: "rev (assist_id_of p i) = rev (nat_str (nat i)) @ 116 # rev (p @ py ''-assis'')" if "0 \<le> i" for p i
    using that by (simp add: assist_id_of_def int_str_def py_def)
  have "rev (nat_str (nat i)) = rev (nat_str (nat j))"
    using arg_cong [OF e, of "\<lambda>s. takeWhile is_digit (rev s)"] assms(1,2) by (simp only: s takeWhile_digits)
  then show ?thesis using assms(1,2) by simp
qed

lemma modify_first_ids: "(\<And>x. pn_id (f x) = pn_id x) \<Longrightarrow> map pn_id (modify_first P f xs) = map pn_id xs"
  by (induction P f xs rule: modify_first.induct) auto

lemma modify_first_mem:
  "y \<in> set (modify_first P f xs) \<Longrightarrow> y \<in> set xs \<or> (\<exists>x \<in> set xs. P x \<and> y = f x)"
  by (induction P f xs rule: modify_first.induct) (auto split: if_splits)

lemma length_modify_first [simp]: "length (modify_first P f xs) = length xs"
  by (induction P f xs rule: modify_first.induct) auto

lemma add_assist_ok:
  assumes inv: "rt_inv rt" and k: "k \<in> pn_id ` set (dr_plan rt)" "dstatus rt k = Some D_COMPLETED \<or> dstatus rt k = Some D_WAITING_ASSIST"
    and nc: "k \<notin> cr_node_id ` set (dr_completions rt)" and room: "Suc (length (dr_plan rt)) \<le> MAX_PLAN_NODES"
    and depth: "assist_depth rt k + 1 \<le> MAX_ASSIST_DEPTH" and agent: "d_has (dr_agents rt) agent"
  shows "\<exists>rt'. add_assist k agent instruction rt = Inr rt' \<and> rt_inv rt' \<and> dstatus rt' k = Some D_WAITING_ASSIST
     \<and> k \<in> pn_id ` set (dr_plan rt') \<and> length (dr_plan rt') = Suc (length (dr_plan rt)) \<and> assist_depth rt' k = assist_depth rt k
     \<and> dr_completions rt' = dr_completions rt \<and> dr_agents rt' = dr_agents rt \<and> dr_outputs rt' = dr_outputs rt
     \<and> dr_running rt' = dr_running rt \<and> dr_done_requested rt' = dr_done_requested rt"
proof -
  let ?seq = "dr_assist_seq rt + 1"
  let ?a = "assist_id_of k ?seq"
  let ?plan = "modify_first (\<lambda>n. pn_id n = k) (wire_parent ?a) (dr_plan rt @ [assist_node ?a k agent instruction])"
  let ?rt = "set_dstatus k D_WAITING_ASSIST ((set_dstatus ?a D_PENDING rt)\<lparr>dr_assist_seq := ?seq, dr_plan := ?plan,
      dr_assist_depth := AList.update ?a (assist_depth rt k + 1) (dr_assist_depth rt)\<rparr>)"
  have i: "plan_inv rt" "running_inv rt" "results_inv rt" "assist_inv rt" "dr_done_requested rt \<longrightarrow> dr_plan rt = [] \<and> dr_completions rt = []"
    using inv by (auto simp: rt_inv_def)
  have new: "dstatus rt ?a = None"
  proof (rule ccontr)
    assume "dstatus rt ?a \<noteq> None"
    then have "?seq \<le> dr_assist_seq rt" using i(4) unfolding assist_inv_def by (metis add_nonneg_nonneg zero_le_one)
    then show False by simp
  qed
  have ka: "k \<noteq> ?a" using new k(2) by auto
  have ids: "map pn_id ?plan = map pn_id (dr_plan rt) @ [?a]"
    by (subst modify_first_ids) (auto simp: wire_parent_def assist_node_def)
  have na: "?a \<notin> pn_id ` set (dr_plan rt)" using i(1) new by (auto simp: plan_inv_def)
  have st: "dstatus ?rt k' = (if k' = k then Some D_WAITING_ASSIST else if k' = ?a then Some D_PENDING else dstatus rt k')" for k'
    by (simp add: set_dstatus_def update_conv')
  have "add_assist k agent instruction rt = Inr ?rt"
  proof -
    obtain n where "get_node (rt\<lparr>dr_assist_seq := ?seq\<rparr>) k = Inr n" using get_node_total [of k "rt\<lparr>dr_assist_seq := ?seq\<rparr>"] k(1) by auto
    then show ?thesis by (simp add: add_assist_def Let_def set_dstatus_def assist_depth_def)
  qed
  moreover have "plan_inv ?rt"
  proof -
    have "dstatus ?rt (pn_id n) \<noteq> None \<and> map_of (dr_agents rt) (pn_agent_name n) \<noteq> None" if n: "n \<in> set ?plan" for n
    proof -
      have "pn_id n \<in> set (map pn_id ?plan)" using n by auto
      then have "pn_id n \<in> pn_id ` set (dr_plan rt) \<or> pn_id n = ?a" unfolding ids by auto
      then have "dstatus ?rt (pn_id n) \<noteq> None" using i(1) by (auto simp: st plan_inv_def)
      moreover have "map_of (dr_agents rt) (pn_agent_name n) \<noteq> None"
        using modify_first_mem [OF n] i(1) agent [unfolded d_has_iff] by (auto simp: plan_inv_def wire_parent_def assist_node_def)
      ultimately show ?thesis ..
    qed
    moreover have "distinct (map pn_id ?plan)" unfolding ids using i(1) na by (simp add: plan_inv_def)
    ultimately show ?thesis using room by (simp add: plan_inv_def)
  qed
  moreover have "running_inv ?rt"
    unfolding running_inv_def st
    using i(2) k(2) new by (auto simp: running_inv_def)
  moreover have "results_inv ?rt"
  proof -
    have "cr_node_id r \<noteq> k \<and> cr_node_id r \<noteq> ?a" if "r \<in> set (dr_completions rt)" for r
      using that nc i(3) new by (auto simp: results_inv_def list_all_iff record_settled_def)
    then show ?thesis unfolding results_inv_def record_settled_def [abs_def] st
      using i(3) by (auto simp: results_inv_def record_settled_def list_all_iff)
  qed
  moreover have "assist_inv ?rt"
  proof -
    have "j \<le> ?seq" if "0 \<le> j" "dstatus ?rt (assist_id_of p j) \<noteq> None" for p j
    proof (cases "assist_id_of p j = ?a")
      case True
      then have "j = ?seq" using i(4) that(1) assist_id_inject [of j ?seq p k] by (simp add: assist_inv_def)
      then show ?thesis by simp
    next
      case False
      then have "dstatus rt (assist_id_of p j) \<noteq> None" using that(2) k(2) by (auto simp: st split: if_splits)
      then have "j \<le> dr_assist_seq rt" using i(4) that(1) unfolding assist_inv_def by blast
      then show ?thesis by simp
    qed
    note A = this
    have B: "assist_depth ?rt k' = (if k' = ?a then assist_depth rt k + 1 else assist_depth rt k')" for k'
      by (simp add: assist_depth_def set_dstatus_def update_conv')
    show ?thesis unfolding assist_inv_def
    proof (intro conjI allI impI)
      show "0 \<le> dr_assist_seq ?rt" using i(4) by (simp add: assist_inv_def)
      show "j \<le> dr_assist_seq ?rt" if "0 \<le> j \<and> dstatus ?rt (assist_id_of p j) \<noteq> None" for p j
        using A [of j p] that by simp
      show "0 \<le> assist_depth ?rt k'" "assist_depth ?rt k' \<le> MAX_ASSIST_DEPTH" for k'
        unfolding B using i(4) depth by (auto simp: assist_inv_def)
    qed
  qed
  moreover have "deps_inv ?rt"
  proof (rule deps_invI)
    show d: "deps_inv rt" using inv by (simp add: rt_inv_def)
    have out: "map_of (dr_outputs rt) k \<noteq> None" using k(2) i(3) d by (auto simp: results_inv_def deps_inv_def)
    have mem: "n \<in> set ?plan \<Longrightarrow> e \<in> set (pn_deps n) \<Longrightarrow> e = ?a \<or> (\<exists>m \<in> set (dr_plan rt). e \<in> set (pn_deps m) \<and> pn_id m = pn_id n)" for n e
      using modify_first_mem [of n "\<lambda>n. pn_id n = k" "wire_parent ?a" "dr_plan rt @ [assist_node ?a k agent instruction]"]
      by (auto simp: wire_parent_def assist_node_def split: if_splits)
    have nd: "?a \<notin> set (pn_deps m)" if "m \<in> set (dr_plan rt)" "map_of (dr_outputs rt) ?a = None" for m
      using d that na unfolding deps_inv_def by blast
    have pid: "pn_id n = k" if "n \<in> set ?plan" "?a \<in> set (pn_deps n)" "map_of (dr_outputs rt) ?a = None" for n
      using that modify_first_mem [of n "\<lambda>n. pn_id n = k" "wire_parent ?a" "dr_plan rt @ [assist_node ?a k agent instruction]"]
        nd by (auto simp: wire_parent_def assist_node_def split: if_splits)
    show "open_edges ?rt \<subseteq> open_edges rt"
    proof
      fix p assume "p \<in> open_edges ?rt"
      then obtain e n where p: "p = (e, pn_id n)" "n \<in> set ?plan" "e \<in> set (pn_deps n)"
        "map_of (dr_outputs rt) e = None" "map_of (dr_outputs rt) (pn_id n) = None" by (auto simp: open_edges_def)
      then have "e \<noteq> ?a" using pid out by auto
      then show "p \<in> open_edges rt" using mem [OF p(2,3)] p(1,4,5) unfolding open_edges_def by (metis (mono_tags, lifting) mem_Collect_eq)
    qed
    show "map_of (dr_outputs ?rt) k' \<noteq> None" if "dstatus ?rt k' = Some D_WAITING_ASSIST" for k'
      using that d out by (auto simp: st deps_inv_def split: if_splits)
    show "e \<in> pn_id ` set (dr_plan ?rt) \<or> map_of (dr_outputs ?rt) e \<noteq> None" if "n \<in> set (dr_plan ?rt)" "e \<in> set (pn_deps n)" for n e
    proof -
      have "e \<in> set (map pn_id (dr_plan rt) @ [?a]) \<or> map_of (dr_outputs rt) e \<noteq> None"
        using mem [of n e] that d by (auto simp: deps_inv_def)
      then show ?thesis unfolding ids [symmetric] by auto
    qed
  qed
  moreover have "\<not> dr_done_requested rt" using i(5) k(1) by auto
  ultimately have main: "add_assist k agent instruction rt = Inr ?rt" "rt_inv ?rt" by (simp_all add: rt_inv_def)
  have "k \<in> set (map pn_id ?plan)" unfolding ids using k(1) by simp
  moreover have "assist_depth ?rt k = assist_depth rt k" using ka by (simp add: assist_depth_def set_dstatus_def update_conv')
  ultimately show ?thesis by (intro exI [of _ ?rt] conjI main) simp_all
qed

lemma helper_candidates_agents:
  "(agent, instruction) \<in> set (helper_candidates rt k own seen ms) \<Longrightarrow> (agent, instruction) \<in> set ms \<and> agent \<noteq> own
     \<and> agent \<notin> set seen \<and> \<not> has_assist_for rt k agent"
  by (induction rt k own seen ms rule: helper_candidates.induct) (auto split: if_splits)

lemma distinct_helper_candidates: "distinct (map fst (helper_candidates rt k own seen ms))"
proof (induction rt k own seen ms rule: helper_candidates.induct)
  case (2 rt k own seen agent instruction ms)
  then show ?case by (auto dest: helper_candidates_agents)
qed simp

lemma parse_mentions_mem:
  "(agent, instruction) \<in> set (parse_mentions s agents) \<Longrightarrow> agent \<in> agents \<and> instruction \<noteq> []"
  by (auto simp: parse_mentions_def List.map_filter_def mention_of_def Let_def split: if_splits)

lemma add_assists_ok:
  "rt_inv rt \<Longrightarrow> k \<in> pn_id ` set (dr_plan rt) \<Longrightarrow> dstatus rt k = Some D_COMPLETED \<or> dstatus rt k = Some D_WAITING_ASSIST
     \<Longrightarrow> k \<notin> cr_node_id ` set (dr_completions rt) \<Longrightarrow> length (dr_plan rt) + length cs \<le> MAX_PLAN_NODES
     \<Longrightarrow> assist_depth rt k + 1 \<le> MAX_ASSIST_DEPTH \<Longrightarrow> (\<And>agent i. (agent, i) \<in> set cs \<Longrightarrow> d_has (dr_agents rt) agent)
     \<Longrightarrow> \<exists>rt'. efold (\<lambda>(agent, instruction). add_assist k agent instruction) cs rt = Inr rt' \<and> rt_inv rt'
       \<and> dr_done_requested rt' = dr_done_requested rt \<and> length (dr_plan rt') = length (dr_plan rt) + length cs"
proof (induction cs arbitrary: rt)
  case (Cons c cs)
  obtain agent instruction where c: "c = (agent, instruction)" by (cases c)
  have pre: "Suc (length (dr_plan rt)) \<le> MAX_PLAN_NODES" "d_has (dr_agents rt) agent"
    using Cons.prems(5) Cons.prems(7) [of agent instruction] by (auto simp: c)
  obtain rt1 where rt1: "add_assist k agent instruction rt = Inr rt1" "rt_inv rt1" "dstatus rt1 k = Some D_WAITING_ASSIST"
    "k \<in> pn_id ` set (dr_plan rt1)" "length (dr_plan rt1) = Suc (length (dr_plan rt))" "assist_depth rt1 k = assist_depth rt k"
    "dr_completions rt1 = dr_completions rt" "dr_agents rt1 = dr_agents rt" "dr_done_requested rt1 = dr_done_requested rt"
    using add_assist_ok [OF Cons.prems(1-4) pre(1) Cons.prems(6) pre(2), of instruction] by blast
  have "\<exists>rt'. efold (\<lambda>(agent, instruction). add_assist k agent instruction) cs rt1 = Inr rt' \<and> rt_inv rt'
       \<and> dr_done_requested rt' = dr_done_requested rt1 \<and> length (dr_plan rt') = length (dr_plan rt1) + length cs"
    using Cons.prems(4-7) by (intro Cons.IH rt1(2,4)) (auto simp: rt1 c)
  then show ?case using rt1 by (auto simp: c)
qed simp

text \<open>A judgement adds nothing, or adds its candidates within every bound.\<close>

lemma helper_run_cases:
  assumes "rt_inv rt" and "dstatus rt k = Some D_COMPLETED"
  obtains (nothing) "helper_run k rt = Inr (Evaluate, rt)"
  | (adds) cs where "helper_run k rt = ebind (efold (\<lambda>(agent, instruction). add_assist k agent instruction) cs rt) (\<lambda>rt'. Inr (Execute, rt'))"
      "k \<in> pn_id ` set (dr_plan rt)" "length (dr_plan rt) + length cs \<le> MAX_PLAN_NODES" "assist_depth rt k + 1 \<le> MAX_ASSIST_DEPTH"
      "\<And>agent i. (agent, i) \<in> set cs \<Longrightarrow> d_has (dr_agents rt) agent"
proof (cases "in_plan rt k")
  case True
  then have k: "k \<in> pn_id ` set (dr_plan rt)" by (simp add: in_plan_iff)
  then obtain n where n: "get_node rt k = Inr n" using get_node_total by blast
  define cs where "cs = helper_candidates rt k (pn_agent_name n) []
     (parse_mentions (case map_of (dr_outputs rt) k of None \<Rightarrow> [] | Some out \<Rightarrow> out) (set (d_keys (dr_agents rt))))"
  have run: "helper_run k rt = (if cs = [] \<or> \<not> can_add_assists rt k (length cs) then Inr (Evaluate, rt)
      else ebind (efold (\<lambda>(agent, instruction). add_assist k agent instruction) cs rt) (\<lambda>rt'. Inr (Execute, rt')))"
    using True n by (auto simp: helper_run_def cs_def Let_def)
  show ?thesis
  proof (cases "cs = [] \<or> \<not> can_add_assists rt k (length cs)")
    case False
    then have room: "length (dr_plan rt) + length cs \<le> MAX_PLAN_NODES" "assist_depth rt k + 1 \<le> MAX_ASSIST_DEPTH"
      by (auto simp: can_add_assists_def)
    have "d_has (dr_agents rt) agent" if "(agent, i) \<in> set cs" for agent i
      using that helper_candidates_agents parse_mentions_mem unfolding cs_def by blast
    then show ?thesis using adds [of cs] False k room by (simp add: run)
  next
    case True
    show ?thesis by (rule nothing) (use True run in simp)
  qed
next
  case False
  show ?thesis by (rule nothing) (use False in \<open>simp add: helper_run_def\<close>)
qed

lemma helper_run_ok:
  assumes "rt_inv rt" and "dstatus rt k = Some D_COMPLETED" and "k \<notin> cr_node_id ` set (dr_completions rt)"
  shows "\<exists>route rt'. helper_run k rt = Inr (route, rt') \<and> rt_inv rt' \<and> dr_done_requested rt' = dr_done_requested rt"
  using assms(1,2)
proof (cases rule: helper_run_cases)
  case (adds cs)
  then obtain rt' where "efold (\<lambda>(agent, instruction). add_assist k agent instruction) cs rt = Inr rt'" "rt_inv rt'"
    "dr_done_requested rt' = dr_done_requested rt"
    using add_assists_ok [OF assms(1) adds(2) _ assms(3) adds(3,4)] assms(2) by blast
  then show ?thesis by (simp add: adds(1))
qed (use assms(1) in simp)

section \<open>The machine keeps the invariant\<close>

definition idle_plan :: "DagRuntime \<Rightarrow> bool" where
  "idle_plan rt \<longleftrightarrow> dr_running rt = [] \<and> (dr_done_requested rt \<or> \<not> list_ex (\<lambda>n. awaits_dispatch (dstatus rt (pn_id n))) (dr_plan rt))"

text \<open>What holds where.\<close>

definition phase_inv :: "orch_phase \<Rightarrow> DagRuntime \<Rightarrow> bool" where
  "phase_inv ph rt = (case ph of
      Enter name p \<Rightarrow> rt_inv rt \<and>
        (if name = py ''planner'' then \<not> dr_done_requested rt
         else if name = py ''executor'' then \<not> dr_done_requested rt
           \<and> (case p of Plan_payload (Some plan) \<Rightarrow> good_answers rt plan | Plan_payload None \<Rightarrow> True | _ \<Rightarrow> False)
         else if name = py ''helper'' then \<not> dr_done_requested rt \<and> (case p of Node_payload k \<Rightarrow>
             dstatus rt k = Some D_COMPLETED \<and> k \<notin> cr_node_id ` set (dr_completions rt) | _ \<Rightarrow> False)
         else name = py ''done'' \<and> idle_plan rt)
    | Executor_waits \<Rightarrow> rt_inv rt \<and> \<not> dr_done_requested rt \<and> has_work rt \<and> dispatchable rt = []
    | Executor_drains \<Rightarrow> rt_inv rt \<and> dr_done_requested rt
    | Orch_done out \<Rightarrow> dr_running rt = []
    | Orch_failed e \<Rightarrow> dr_running rt = [])"

lemma failed_completion_None:
  "failed_completion rt = None \<Longrightarrow> c \<in> set (dr_completions rt) \<Longrightarrow> judgable rt (cr_node_id c) \<Longrightarrow> cr_error c = None"
  by (auto simp: failed_completion_def find_None_iff)

definition exec_post :: "exec_phase \<Rightarrow> DagRuntime \<Rightarrow> bool" where
  "exec_post x rt \<longleftrightarrow> rt_inv rt \<and> (case x of
      E_judge k \<Rightarrow> \<not> dr_done_requested rt \<and> dstatus rt k = Some D_COMPLETED \<and> k \<notin> cr_node_id ` set (dr_completions rt)
    | E_default \<Rightarrow> idle_plan rt
    | E_wait \<Rightarrow> \<not> dr_done_requested rt \<and> has_work rt \<and> dispatchable rt = []
    | E_drain \<Rightarrow> dr_done_requested rt)"

lemma judge_post:
  assumes "rt_inv rt" and "failed_completion rt = None" and "pop_completion rt = (Some c, rt')"
  shows "exec_post (E_judge (cr_node_id c)) rt'"
proof -
  note p = pop_completion_inv [OF assms(1,3)]
  have c: "judgable rt (cr_node_id c)" "record_settled rt c" "c \<in> set (dr_completions rt)"
    "cr_node_id c \<notin> cr_node_id ` set (dr_completions rt')" using p(3) [of c] by auto
  have "cr_error c = None" by (rule failed_completion_None [OF assms(2) c(3,1)])
  then show ?thesis using p(1) c(1,2,4)
    by (auto simp: exec_post_def judgable_def record_settled_def pop_completion_frame [OF assms(3)])
qed

lemma drain_post: "rt_inv rt \<Longrightarrow> dr_done_requested rt \<Longrightarrow> exec_post (drain_phase rt) rt"
  by (simp add: drain_phase_def exec_post_def idle_plan_def)

lemma collect_done_requested [simp]: "dr_done_requested (dag_collect_done rt) = dr_done_requested rt"
proof -
  have "dr_done_requested (collect_tasks ts rt) = dr_done_requested rt" for ts
    by (induction ts rt rule: collect_tasks.induct)
       (auto simp: record_completion_def record_failure_def split: sum.splits)
  then show ?thesis by (simp add: dag_collect_done_def)
qed

lemma executor_begin_post:
  assumes inv: "rt_inv rt" and plan: "\<And>plan. input = Some plan \<Longrightarrow> good_answers rt plan"
  shows "executor_begin input rt = Inr (x, rt') \<Longrightarrow> exec_post x rt'"
    and "executor_begin input rt = Inl e \<Longrightarrow> (\<exists>plan. input = Some plan \<and> dag_validate_plan plan MAX_PLAN_NODES = Inl e) \<or> (\<exists>c. cr_error c \<noteq> None \<and> e = abort_cause c)"
proof -
  consider (bad) plan e' where "input = Some plan" "dag_validate_plan plan MAX_PLAN_NODES = Inl e'"
      "executor_begin input rt = Inl e'"
    | (ok) rt1 where "rt_inv rt1" "(case input of None \<Rightarrow> Inr rt | Some plan \<Rightarrow> apply_plan plan rt) = Inr rt1"
  proof (cases input)
    case None
    then show ?thesis using inv ok by simp
  next
    case (Some plan)
    show ?thesis
    proof (cases "apply_plan plan rt")
      case (Inl e')
      then have "dag_validate_plan plan MAX_PLAN_NODES = Inl e'"
        by (cases "dag_validate_plan plan MAX_PLAN_NODES") (auto simp: apply_plan_def Let_def)
      then show ?thesis using Some Inl bad by (simp add: executor_begin_def)
    next
      case (Inr rt1)
      then have "rt_inv rt1" using apply_plan_inv [OF inv plan [OF Some]] by simp
      then show ?thesis using Some Inr ok by simp
    qed
  qed
  then have "(\<exists>x rt'. executor_begin input rt = Inr (x, rt') \<and> exec_post x rt') \<or> (\<exists>e. executor_begin input rt = Inl e
      \<and> ((\<exists>plan. input = Some plan \<and> dag_validate_plan plan MAX_PLAN_NODES = Inl e) \<or> (\<exists>c. cr_error c \<noteq> None \<and> e = abort_cause c)))"
  proof cases
    case bad
    then show ?thesis by blast
  next
    case ok
    let ?rt2 = "dag_collect_done rt1"
    have inv2: "rt_inv ?rt2" by (rule collect_done_inv [OF ok(1)])
    have run: "executor_begin input rt = (if dr_done_requested ?rt2 then Inr (drain_phase ?rt2, ?rt2)
       else ebind (abort_if_failed ?rt2) (\<lambda>rt3. case pop_completion rt3 of
           (Some r, rt4) \<Rightarrow> Inr (E_judge (cr_node_id r), rt4)
         | (None, rt4) \<Rightarrow> ebind (dispatch_ready rt4) (\<lambda>rt5. Inr (if has_work rt5 then E_wait else E_default, rt5))))"
      using ok(2) by (simp add: executor_begin_def Let_def)
    consider "dr_done_requested ?rt2" | c where "\<not> dr_done_requested ?rt2" "failed_completion ?rt2 = Some c"
      | c rt4 where "\<not> dr_done_requested ?rt2" "failed_completion ?rt2 = None" "pop_completion ?rt2 = (Some c, rt4)"
      | rt4 where "\<not> dr_done_requested ?rt2" "failed_completion ?rt2 = None" "pop_completion ?rt2 = (None, rt4)"
      by (cases "failed_completion ?rt2"; cases "pop_completion ?rt2") (metis option.exhaust)+
    then show ?thesis
    proof cases
      case 1
      then show ?thesis using drain_post [OF inv2] by (simp add: run del: collect_done_requested)
    next
      case 2
      then have "cr_error c \<noteq> None" by (auto simp: failed_completion_def find_Some_iff)
      then show ?thesis using 2 by (auto simp: run abort_if_failed_def)
    next
      case 3
      then show ?thesis using judge_post [OF inv2 3(2,3)] by (simp add: run abort_if_failed_def)
    next
      case 4
      have inv4: "rt_inv rt4" by (rule pop_completion_inv(1) [OF inv2 4(3)])
      let ?rt5 = "fold start_task (dispatchable rt4) rt4"
      have nd: "\<not> dr_done_requested ?rt5" using 4(1) by (simp add: fold_start_fields pop_completion_frame [OF 4(3)])
      have "executor_begin input rt = Inr (if has_work ?rt5 then E_wait else E_default, ?rt5)"
        using 4 dispatch_ready_inv(1) [OF inv4] by (simp add: run abort_if_failed_def)
      moreover have "exec_post (if has_work ?rt5 then E_wait else E_default) ?rt5"
        using dispatch_ready_inv(2) [OF inv4] nd dispatchable_started [of rt4] by (auto simp: exec_post_def idle_plan_def has_work_def)
      ultimately show ?thesis by blast
    qed
  qed
  then show "executor_begin input rt = Inr (x, rt') \<Longrightarrow> exec_post x rt'"
    and "executor_begin input rt = Inl e \<Longrightarrow> (\<exists>plan. input = Some plan \<and> dag_validate_plan plan MAX_PLAN_NODES = Inl e) \<or> (\<exists>c. cr_error c \<noteq> None \<and> e = abort_cause c)"
    by auto
qed

lemma executor_resume_post:
  assumes inv: "rt_inv rt"
  shows "executor_resume rt = Inr (x, rt') \<Longrightarrow> exec_post x rt'"
    and "executor_resume rt = Inl e \<Longrightarrow> (\<exists>c. cr_error c \<noteq> None \<and> e = abort_cause c) \<or> e = no_progress"
proof -
  let ?rt = "dag_collect_done rt"
  have inv2: "rt_inv ?rt" by (rule collect_done_inv [OF inv])
  consider c where "failed_completion ?rt = Some c"
    | c rt2 where "failed_completion ?rt = None" "pop_completion ?rt = (Some c, rt2)"
    | rt2 where "failed_completion ?rt = None" "pop_completion ?rt = (None, rt2)"
    by (cases "failed_completion ?rt"; cases "pop_completion ?rt") (metis option.exhaust)+
  then have "(\<exists>x rt'. executor_resume rt = Inr (x, rt') \<and> exec_post x rt')
      \<or> (\<exists>e. executor_resume rt = Inl e \<and> ((\<exists>c. cr_error c \<noteq> None \<and> e = abort_cause c) \<or> e = no_progress))"
  proof cases
    case 1
    then have "cr_error c \<noteq> None" by (auto simp: failed_completion_def find_Some_iff)
    then show ?thesis using 1 by (auto simp: executor_resume_def abort_if_failed_def)
  next
    case 2
    then show ?thesis using judge_post [OF inv2] by (simp add: executor_resume_def abort_if_failed_def)
  next
    case 3
    then show ?thesis by (simp add: executor_resume_def abort_if_failed_def)
  qed
  then show "executor_resume rt = Inr (x, rt') \<Longrightarrow> exec_post x rt'"
    and "executor_resume rt = Inl e \<Longrightarrow> (\<exists>c. cr_error c \<noteq> None \<and> e = abort_cause c) \<or> e = no_progress"
    by auto
qed

lemma executor_drain_post: "rt_inv rt \<Longrightarrow> dr_done_requested rt \<Longrightarrow> executor_drain rt = (x, rt') \<Longrightarrow> exec_post x rt'"
  using drain_post [OF collect_done_inv] by (auto simp: executor_drain_def Let_def)

lemma after_executor_inv:
  assumes "\<And>x rt'. r = Inr (x, rt') \<Longrightarrow> exec_post x rt'"
  shows "case after_executor r rt of (ph, rt') \<Rightarrow> phase_inv ph rt'"
proof (cases r)
  case (Inl e)
  then show ?thesis by (simp add: after_executor_def phase_inv_def shutdown_def)
next
  case (Inr p)
  obtain x rt' where p: "p = (x, rt')" by (cases p)
  have "exec_post x rt'" using assms Inr p by blast
  then show ?thesis using Inr p by (cases x) (auto simp: after_executor_def phase_inv_def exec_post_def)
qed

lemma task_finishes_inv:
  assumes run: "map_of (dr_running rt) k = Some Task_running" and inv: "phase_inv ph rt"
  shows "phase_inv ph (rt\<lparr>dr_running := AList.update k (Task_finished r) (dr_running rt)\<rparr>)"
proof -
  let ?rt = "rt\<lparr>dr_running := AList.update k (Task_finished r) (dr_running rt)\<rparr>"
  have ne: "dr_running rt \<noteq> []" using run by auto
  have "running_inv rt \<Longrightarrow> running_inv ?rt"
    using run by (auto simp: running_inv_def update_conv' distinct_update split: if_splits)
  moreover have "plan_inv ?rt = plan_inv rt" "results_inv ?rt = results_inv rt" "assist_inv ?rt = assist_inv rt" "deps_inv ?rt = deps_inv rt"
    by (simp_all add: plan_inv_def results_inv_def assist_inv_def assist_depth_def record_settled_def [abs_def] deps_inv_def open_edges_def)
  ultimately have "rt_inv rt \<Longrightarrow> rt_inv ?rt" by (simp add: rt_inv_def)
  moreover have "good_answers ?rt = good_answers rt"
    by (intro ext) (simp add: good_answers_def plan_conforms_def plan_fresh_def)
  moreover have "has_work ?rt" by (simp add: has_work_def update_nonempty)
  moreover have "dispatchable ?rt = dispatchable rt" by (simp add: dispatchable_def)
  ultimately show ?thesis using inv ne
    by (auto simp: phase_inv_def idle_plan_def split: orch_phase.splits if_splits payload.splits option.splits)
qed

lemma orch_step_inv:
  assumes "orch_step good_answers (ph, rt) (ph', rt')" and "phase_inv ph rt"
  shows "phase_inv ph' rt'"
  using assms(1)
proof cases
  case (task_finishes k r)
  then show ?thesis using task_finishes_inv assms(2) by simp
next
  case (planner_plans plan p)
  then show ?thesis using assms(2) by (auto simp: phase_inv_def)
next
  case (planner_no_plan p)
  then show ?thesis using assms(2) by (auto simp: phase_inv_def)
next
  case (planner_raises p e)
  then show ?thesis by (simp add: phase_inv_def shutdown_def)
next
  case (executor_starts plan)
  have "rt_inv rt" "\<And>pl. plan = Some pl \<Longrightarrow> good_answers rt pl"
    using assms(2) executor_starts(1) by (auto simp: phase_inv_def split: option.splits)
  then show ?thesis using after_executor_inv executor_begin_post(1) executor_starts(2) by (metis (no_types, lifting) case_prodD)
next
  case executor_resumes
  then have "rt_inv rt" using assms(2) by (simp add: phase_inv_def)
  then show ?thesis using after_executor_inv executor_resume_post(1) executor_resumes(2) by (metis (no_types, lifting) case_prodD)
next
  case executor_drained
  then have "rt_inv rt" "dr_done_requested rt" using assms(2) by (simp_all add: phase_inv_def)
  then have "\<And>x r. Inr (executor_drain rt) = Inr (x, r) \<Longrightarrow> exec_post x r" using executor_drain_post by simp
  then show ?thesis using after_executor_inv executor_drained(2) by (metis (no_types, lifting) case_prodD)
next
  case (helper_judges k)
  have h: "rt_inv rt" "dstatus rt k = Some D_COMPLETED" "k \<notin> cr_node_id ` set (dr_completions rt)" "\<not> dr_done_requested rt"
    using assms(2) helper_judges(1) by (auto simp: phase_inv_def)
  obtain route rt1 where r: "helper_run k rt = Inr (route, rt1)" "rt_inv rt1" "dr_done_requested rt1 = dr_done_requested rt"
    using helper_run_ok [OF h(1-3)] by blast
  then show ?thesis using helper_judges(2) h(4) by (cases route) (auto simp: after_helper_def phase_inv_def)
next
  case (done_reached p)
  then show ?thesis by (simp add: phase_inv_def shutdown_def)
qed

lemma orch_reachable_inv: "orch_reachable good_answers agents user_task x \<Longrightarrow> phase_inv (fst x) (snd x)"
proof (induction rule: orch_reachable.induct)
  case orch_start
  show ?case by (simp add: phase_inv_def new_runtime_inv) (simp add: new_runtime_def)
next
  case (orch_next x y)
  then show ?case using orch_step_inv [of "fst x" "snd x" "fst y" "snd y"] by simp
qed

end
