(* ===== verification/Workflow.thy ===== *)
theory Workflow
  imports Wf_Graph Node_Path Snapshot
begin

text \<open>
  The orchestration loop of a workflow graph, \<open>new_choirworks/core/workflow/workflow.py\<close>, with the node
  states of \<open>node_state.py\<close> and \<open>node_status.py\<close>, the triggers of \<open>trigger.py\<close> and the child contexts of
  \<open>context.py\<close>.  Values passed between nodes are \<open>json\<close> trees, \<open>None\<close> is \<open>JNull\<close>.  A running task is what its
  \<open>NodeRunner\<close> was built from; which tasks finish next, and with what result, is the environment's choice
  (\<open>results\<close>).  The lemmas show that the loop runs each node at most once at a time and within the concurrency
  bound, that only a failing child makes it fail, that it ends with no trigger left, and that every run has its
  own path.
\<close>

section \<open>State\<close>

datatype wf_status = W_INACTIVE | W_PENDING | W_RUNNING | W_COMPLETED | W_WAITING | W_FAILED | W_CANCELLED

record wf_node_state =
  ns_status :: wf_status
  ns_input :: json
  ns_attempt_count :: int
  ns_run_id :: "pystr option"

text \<open>What a child's \<open>Context\<close> carries back: output, route and error text.\<close>

record child_ctx =
  cc_output :: json
  cc_route :: "route_value option"
  cc_error :: "pystr option"

text \<open>A running task: the node path of its runner and its input.\<close>

record wf_task =
  wt_path :: pystr
  wt_input :: json

record loop_state =
  trigger_buffer :: "(pystr, json list) dict"
  pending_tasks :: "(pystr, wf_task) dict"
  wf_nodes :: "(pystr, wf_node_state) dict"
  node_outputs :: "(pystr, json) dict"
  run_counters :: "(pystr, int) dict"

definition empty_loop :: loop_state where
  "empty_loop = \<lparr>trigger_buffer = [], pending_tasks = [], wf_nodes = [], node_outputs = [], run_counters = []\<rparr>"

record Workflow =
  wf_name :: pystr
  wf_graph :: Graph
  max_concurrency :: "int option"

text \<open>\<open>Workflow(...)\<close> with \<open>model_post_init\<close>.\<close>

definition make_workflow :: "pystr \<Rightarrow> WfEdge list \<Rightarrow> int option \<Rightarrow> exn + Workflow" where
  "make_workflow name es m = ebind (make_graph es []) (\<lambda>g.
     ebind (validate_graph (g_nodes g) (g_edges g)) (\<lambda>_.
       Inr \<lparr>wf_name = name, wf_graph = g, max_concurrency = m\<rparr>))"

section \<open>Triggers\<close>

definition get_static_node :: "Workflow \<Rightarrow> pystr \<Rightarrow> exn + BaseNode" where
  "get_static_node W name = (case List.find (\<lambda>n. bn_name n = name) (g_nodes (wf_graph W)) of
      Some n \<Rightarrow> Inr n
    | None \<Rightarrow> Inl (WorkflowError (py ''node '' @ name @ py '' not found in graph'')))"

text \<open>\<open>trigger_buffer.setdefault(name, []).append(trigger)\<close>\<close>

definition push_trigger :: "pystr \<Rightarrow> json \<Rightarrow> loop_state \<Rightarrow> loop_state" where
  "push_trigger name t s = s\<lparr>trigger_buffer := d_modify name (\<lambda>l. l @ [t]) (d_setdefault name [] (trigger_buffer s))\<rparr>"

definition pop_trigger :: "pystr \<Rightarrow> loop_state \<Rightarrow> (json \<times> loop_state) option" where
  "pop_trigger name s = (case map_of (trigger_buffer s) name of
      None \<Rightarrow> None
    | Some [] \<Rightarrow> None
    | Some (t # ts) \<Rightarrow> Some (t, s\<lparr>trigger_buffer := (if ts = [] then AList.delete name (trigger_buffer s)
        else d_modify name (\<lambda>_. ts) (trigger_buffer s))\<rparr>))"

definition predecessors :: "Workflow \<Rightarrow> pystr \<Rightarrow> pystr list" where
  "predecessors W target = fromkeys (map from_name (filter (\<lambda>e. to_name e = target) (g_edges (wf_graph W))))"

definition barrier_open :: "Workflow \<Rightarrow> pystr \<Rightarrow> loop_state \<Rightarrow> bool" where
  "barrier_open W target s = list_all (\<lambda>p. p = START_NAME
     \<or> (case map_of (wf_nodes s) p of None \<Rightarrow> False | Some st \<Rightarrow> ns_status st = W_COMPLETED)) (predecessors W target)"

definition barrier_input :: "Workflow \<Rightarrow> pystr \<Rightarrow> loop_state \<Rightarrow> json" where
  "barrier_input W target s = JObj (map (\<lambda>p. (p, case map_of (node_outputs s) p of None \<Rightarrow> JNull | Some v \<Rightarrow> v))
     (predecessors W target))"

definition buffer_barrier_trigger :: "Workflow \<Rightarrow> pystr \<Rightarrow> loop_state \<Rightarrow> loop_state" where
  "buffer_barrier_trigger W target s = (if barrier_open W target s
     then push_trigger target (barrier_input W target s) s else s)"

definition seed_one :: "Workflow \<Rightarrow> json \<Rightarrow> WfEdge \<Rightarrow> loop_state \<Rightarrow> loop_state" where
  "seed_one W node_input e s = (if bn_join (to_node e)
     then buffer_barrier_trigger W (to_name e) (s\<lparr>node_outputs := AList.update START_NAME node_input (node_outputs s)\<rparr>)
     else push_trigger (to_name e) node_input s)"

definition seed_start_triggers :: "Workflow \<Rightarrow> json \<Rightarrow> loop_state \<Rightarrow> loop_state" where
  "seed_start_triggers W node_input s =
     fold (seed_one W node_input) (filter (\<lambda>e. from_name e = START_NAME) (g_edges (wf_graph W))) s"

section \<open>Starting nodes\<close>

definition at_concurrency_limit :: "Workflow \<Rightarrow> loop_state \<Rightarrow> bool" where
  "at_concurrency_limit W s = (case max_concurrency W of
      None \<Rightarrow> False
    | Some m \<Rightarrow> m > 0 \<and> int (length (pending_tasks s)) \<ge> m)"

definition prepare_node_state :: "pystr \<Rightarrow> json \<Rightarrow> loop_state \<Rightarrow> loop_state" where
  "prepare_node_state name t s =
     (let i = (case map_of (run_counters s) name of None \<Rightarrow> 0 | Some i \<Rightarrow> i) + 1
      in s\<lparr>run_counters := AList.update name i (run_counters s),
           wf_nodes := AList.update name \<lparr>ns_status = W_RUNNING, ns_input = t, ns_attempt_count = 1,
             ns_run_id = Some (int_str i)\<rparr> (wf_nodes s)\<rparr>)"

text \<open>\<open>NodeRunner.node_path\<close>\<close>

definition runner_node_path :: "pystr \<Rightarrow> pystr \<Rightarrow> pystr \<Rightarrow> pystr" where
  "runner_node_path parent_path name run_id = path_str (path_append (path_from_string parent_path) name (Some run_id))"

definition start_node_task :: "Workflow \<Rightarrow> pystr \<Rightarrow> pystr \<Rightarrow> json \<Rightarrow> loop_state \<Rightarrow> exn + loop_state" where
  "start_node_task W parent name t s = ebind (get_static_node W name) (\<lambda>node.
     case map_of (wf_nodes s) name of
       None \<Rightarrow> Inl (KeyError name)
     | Some st \<Rightarrow> (let run_id = (case ns_run_id st of None \<Rightarrow> py ''1'' | Some r \<Rightarrow> if r = [] then py ''1'' else r)
         in Inr (s\<lparr>pending_tasks := AList.update name
              \<lparr>wt_path = runner_node_path parent (bn_name node) run_id, wt_input = t\<rparr> (pending_tasks s)\<rparr>)))"

definition is_running :: "loop_state \<Rightarrow> pystr \<Rightarrow> bool" where
  "is_running s name = (case map_of (wf_nodes s) name of None \<Rightarrow> False | Some st \<Rightarrow> ns_status st = W_RUNNING)"

fun schedule_loop :: "Workflow \<Rightarrow> pystr \<Rightarrow> pystr list \<Rightarrow> loop_state \<Rightarrow> exn + loop_state" where
  "schedule_loop W parent [] s = Inr s"
| "schedule_loop W parent (name # names) s =
     (if d_has (pending_tasks s) name then schedule_loop W parent names s
      else if is_running s name then schedule_loop W parent names s
      else if at_concurrency_limit W s then Inr s
      else case pop_trigger name s of
        None \<Rightarrow> schedule_loop W parent names s
      | Some (t, s1) \<Rightarrow> ebind (start_node_task W parent name t (prepare_node_state name t s1)) (schedule_loop W parent names))"

definition schedule_ready_nodes :: "Workflow \<Rightarrow> pystr \<Rightarrow> loop_state \<Rightarrow> exn + loop_state" where
  "schedule_ready_nodes W parent s = schedule_loop W parent (d_keys (trigger_buffer s)) s"

section \<open>Completions\<close>

definition set_wf_status :: "pystr \<Rightarrow> wf_status \<Rightarrow> loop_state \<Rightarrow> loop_state" where
  "set_wf_status name st s = s\<lparr>wf_nodes := d_modify name (\<lambda>n. n\<lparr>ns_status := st\<rparr>) (wf_nodes s)\<rparr>"

definition buffer_target :: "Workflow \<Rightarrow> json \<Rightarrow> pystr \<Rightarrow> loop_state \<Rightarrow> exn + loop_state" where
  "buffer_target W output target s = ebind (get_static_node W target) (\<lambda>node.
     Inr (if bn_join node then buffer_barrier_trigger W target s else push_trigger target output s))"

definition buffer_downstream_triggers :: "Workflow \<Rightarrow> pystr \<Rightarrow> child_ctx \<Rightarrow> loop_state \<Rightarrow> exn + loop_state" where
  "buffer_downstream_triggers W name child s =
     efold (buffer_target W (cc_output child))
       (get_next_pending_nodes (wf_graph W) name (map_option RouteOne (cc_route child))) s"

definition handle_completion :: "Workflow \<Rightarrow> pystr \<Rightarrow> child_ctx \<Rightarrow> loop_state \<Rightarrow> exn + loop_state" where
  "handle_completion W name child s =
     (if \<not> d_has (wf_nodes s) name then Inl (KeyError name)
      else let s1 = set_wf_status name W_COMPLETED s;
               s2 = (if cc_output child = JNull then s1
                     else s1\<lparr>node_outputs := AList.update name (cc_output child) (node_outputs s1)\<rparr>)
           in buffer_downstream_triggers W name child s2)"

definition node_failed :: "pystr \<Rightarrow> pystr \<Rightarrow> exn" where
  "node_failed name err = WorkflowError (py ''node '' @ name @ py '' failed: '' @ err)"

text \<open>One finished task: it leaves \<open>pending_tasks\<close>; its error ends the run.\<close>

definition complete_one :: "Workflow \<Rightarrow> pystr \<times> child_ctx \<Rightarrow> loop_state \<Rightarrow> exn + loop_state" where
  "complete_one W = (\<lambda>(name, child) s.
     (let s1 = s\<lparr>pending_tasks := AList.delete name (pending_tasks s)\<rparr> in
      case cc_error child of
        Some err \<Rightarrow> Inl (node_failed name err)
      | None \<Rightarrow> handle_completion W name child s1))"

text \<open>\<open>order_done\<close>: the finished tasks in the order of \<open>pending_tasks\<close>.\<close>

definition order_done :: "(pystr \<Rightarrow> child_ctx option) \<Rightarrow> loop_state \<Rightarrow> (pystr \<times> child_ctx) list" where
  "order_done results s = concat (map (\<lambda>k. case results k of None \<Rightarrow> [] | Some c \<Rightarrow> [(k, c)]) (d_keys (pending_tasks s)))"

definition collect_done :: "Workflow \<Rightarrow> (pystr \<Rightarrow> child_ctx option) \<Rightarrow> loop_state \<Rightarrow> exn + loop_state" where
  "collect_done W results s = efold (complete_one W) (order_done results s) s"

section \<open>The end of a run\<close>

definition finalize :: "Workflow \<Rightarrow> loop_state \<Rightarrow> exn + json option" where
  "finalize W s =
     (let outs = concat (map (\<lambda>n. case map_of (node_outputs s) n of None \<Rightarrow> [] | Some v \<Rightarrow> [v])
            (terminal_node_names (wf_graph W)))
      in if length outs = 1 then Inr (Some (hd outs))
         else if outs \<noteq> [] then Inl (WorkflowError (py ''Workflow '' @ wf_name W
                @ py '': multiple terminal nodes produced output ('' @ nat_str (length outs)
                @ py ''). A workflow must have at most one terminal output.''))
         else Inr None)"

text \<open>\<open>_cleanup_all_tasks\<close> after an error: the tasks that were still running are cancelled, the ones that
  had finished meanwhile keep their status.\<close>

definition cleanup_all_tasks :: "(pystr \<Rightarrow> bool) \<Rightarrow> loop_state \<Rightarrow> loop_state" where
  "cleanup_all_tasks already_finished s =
     fold (\<lambda>k. set_wf_status k W_CANCELLED) (filter (\<lambda>k. \<not> already_finished k) (d_keys (pending_tasks s))) s"

text \<open>The states of a run at the point where the loop waits (or leaves it, when nothing is pending), with the
  paths of all runs started so far.\<close>

definition started_since :: "loop_state \<Rightarrow> loop_state \<Rightarrow> pystr list" where
  "started_since s s' = map wt_path (drop (length (pending_tasks s)) (d_values (pending_tasks s')))"

inductive wf_at :: "Workflow \<Rightarrow> pystr \<Rightarrow> json \<Rightarrow> pystr list \<Rightarrow> loop_state \<Rightarrow> bool"
  for W :: Workflow and parent :: pystr and node_input :: json where
  wf_start: "schedule_ready_nodes W parent (seed_start_triggers W node_input empty_loop) = Inr s
     \<Longrightarrow> wf_at W parent node_input (started_since empty_loop s) s"
| wf_round: "wf_at W parent node_input runs s \<Longrightarrow> order_done results s \<noteq> []
     \<Longrightarrow> collect_done W results s = Inr s1 \<Longrightarrow> schedule_ready_nodes W parent s1 = Inr s2
     \<Longrightarrow> wf_at W parent node_input (runs @ started_since s1 s2) s2"

text \<open>Example run: a diamond with a join.\<close>

definition plain_node :: "nat \<Rightarrow> string \<Rightarrow> BaseNode" where
  "plain_node i name = \<lparr>bn_oid = i, bn_name = py name, bn_join = False\<rparr>"

definition plain :: "BaseNode \<Rightarrow> BaseNode \<Rightarrow> WfEdge" where
  "plain a b = \<lparr>from_node = a, to_node = b, we_route = None\<rparr>"

definition diamond :: "WfEdge list" where
  "diamond = (let a = plain_node 1 ''a''; b = plain_node 2 ''b''; j = (plain_node 3 ''join'')\<lparr>bn_join := True\<rparr>
     in [plain START a, plain START b, plain a j, plain b j])"

section \<open>The graph of a workflow\<close>

abbreviation wf_names :: "Workflow \<Rightarrow> pystr set" where
  "wf_names W \<equiv> set (map bn_name (g_nodes (wf_graph W)))"

text \<open>What construction establishes: the edges end in nodes of the graph.\<close>

definition wf_valid :: "Workflow \<Rightarrow> bool" where
  "wf_valid W \<longleftrightarrow> g_nodes (wf_graph W) = edge_nodes (g_edges (wf_graph W)) \<and> graph_ok (g_edges (wf_graph W))"

lemma make_workflow_valid: "make_workflow name es m = Inr W \<Longrightarrow> wf_valid W \<and> g_edges (wf_graph W) = es"
  by (auto simp: make_workflow_def make_graph_def ebind_eq_Inr accepted_iff wf_valid_def)

lemma get_static_node_total: "name \<in> wf_names W \<Longrightarrow> \<exists>n. get_static_node W name = Inr n \<and> bn_name n = name"
  by (auto simp: get_static_node_def find_None_iff find_Some_iff split: option.splits)

lemma next_pending_names:
  "wf_valid W \<Longrightarrow> t \<in> set (get_next_pending_nodes (wf_graph W) n r) \<Longrightarrow> t \<in> wf_names W"
  using next_pending_in_edges edge_nodes_ends(2) unfolding wf_valid_def by metis

lemma start_target_names:
  "wf_valid W \<Longrightarrow> e \<in> set (g_edges (wf_graph W)) \<Longrightarrow> to_name e \<in> wf_names W"
  using edge_nodes_ends(2) unfolding wf_valid_def by metis

section \<open>The invariant of the loop\<close>

definition buffer_inv :: "Workflow \<Rightarrow> loop_state \<Rightarrow> bool" where
  "buffer_inv W s \<longleftrightarrow> distinct (d_keys (trigger_buffer s))
     \<and> (\<forall>k q. map_of (trigger_buffer s) k = Some q \<longrightarrow> q \<noteq> [] \<and> k \<in> wf_names W)"

definition nodes_inv :: "loop_state \<Rightarrow> bool" where
  "nodes_inv s \<longleftrightarrow> distinct (d_keys (pending_tasks s)) \<and> (\<forall>k. is_running s k \<longleftrightarrow> d_has (pending_tasks s) k)
     \<and> (\<forall>k i. map_of (run_counters s) k = Some i \<longrightarrow> 1 \<le> i)"

definition within_limit :: "Workflow \<Rightarrow> loop_state \<Rightarrow> bool" where
  "within_limit W s \<longleftrightarrow> (\<forall>m. max_concurrency W = Some m \<and> 0 < m \<longrightarrow> int (length (pending_tasks s)) \<le> m)"

text \<open>The paths of the runs started so far: one per node and counter value, none twice.\<close>

definition counter :: "loop_state \<Rightarrow> pystr \<Rightarrow> int" where
  "counter s k = (case map_of (run_counters s) k of None \<Rightarrow> 0 | Some i \<Rightarrow> i)"

definition runs_inv :: "pystr \<Rightarrow> pystr list \<Rightarrow> loop_state \<Rightarrow> bool" where
  "runs_inv parent runs s \<longleftrightarrow> distinct runs
     \<and> (\<forall>r \<in> set runs. \<exists>k i. 1 \<le> i \<and> i \<le> counter s k \<and> r = runner_node_path parent k (int_str i))"

definition loop_inv :: "Workflow \<Rightarrow> pystr \<Rightarrow> pystr list \<Rightarrow> loop_state \<Rightarrow> bool" where
  "loop_inv W parent runs s \<longleftrightarrow> buffer_inv W s \<and> nodes_inv s \<and> within_limit W s \<and> runs_inv parent runs s"

declare map_of_eq_Some_iff [simp del]

lemma buffer_inv_push: "buffer_inv W s \<Longrightarrow> name \<in> wf_names W \<Longrightarrow> buffer_inv W (push_trigger name t s)"
  by (auto simp: buffer_inv_def push_trigger_def map_of_d_setdefault distinct_setdefault split: if_splits)

lemma push_trigger_frame [simp]:
  "pending_tasks (push_trigger name t s) = pending_tasks s" "wf_nodes (push_trigger name t s) = wf_nodes s"
  "run_counters (push_trigger name t s) = run_counters s" "node_outputs (push_trigger name t s) = node_outputs s"
  by (simp_all add: push_trigger_def)

text \<open>Operations that only add triggers.\<close>

definition only_buffers :: "Workflow \<Rightarrow> loop_state \<Rightarrow> loop_state \<Rightarrow> bool" where
  "only_buffers W s s' \<longleftrightarrow> (buffer_inv W s \<longrightarrow> buffer_inv W s') \<and> pending_tasks s' = pending_tasks s
     \<and> wf_nodes s' = wf_nodes s \<and> run_counters s' = run_counters s"

lemma only_buffers_refl: "only_buffers W s s"
  by (simp add: only_buffers_def)

lemma only_buffers_trans: "only_buffers W s t \<Longrightarrow> only_buffers W t u \<Longrightarrow> only_buffers W s u"
  by (auto simp: only_buffers_def)

lemma only_buffers_push: "name \<in> wf_names W \<Longrightarrow> only_buffers W s (push_trigger name t s)"
  using buffer_inv_push by (auto simp: only_buffers_def)

lemma only_buffers_barrier: "name \<in> wf_names W \<Longrightarrow> only_buffers W s (buffer_barrier_trigger W name s)"
  by (simp add: buffer_barrier_trigger_def only_buffers_push only_buffers_refl)

lemma only_buffers_seed: "to_name e \<in> wf_names W \<Longrightarrow> only_buffers W s (seed_one W i e s)"
proof -
  assume n: "to_name e \<in> wf_names W"
  have "only_buffers W s (s\<lparr>node_outputs := x\<rparr>)" for x by (auto simp: only_buffers_def buffer_inv_def)
  then show ?thesis unfolding seed_one_def
    using only_buffers_trans [OF _ only_buffers_barrier [OF n]] only_buffers_push [OF n] by simp
qed

lemma only_buffers_seed_all:
  "wf_valid W \<Longrightarrow> set es \<subseteq> set (g_edges (wf_graph W)) \<Longrightarrow> only_buffers W s (fold (seed_one W i) es s)"
proof (induction es arbitrary: s)
  case (Cons e es)
  then have "only_buffers W s (seed_one W i e s)" by (intro only_buffers_seed start_target_names) auto
  then show ?case using Cons only_buffers_trans by fastforce
qed (simp add: only_buffers_refl)

lemma only_buffers_targets:
  "set ts \<subseteq> wf_names W \<Longrightarrow> \<exists>s'. efold (buffer_target W v) ts s = Inr s' \<and> only_buffers W s s'"
proof (induction ts arbitrary: s)
  case (Cons t ts)
  obtain n where n: "get_static_node W t = Inr n" using Cons.prems get_static_node_total [of t W] by auto
  let ?s = "if bn_join n then buffer_barrier_trigger W t s else push_trigger t v s"
  have "only_buffers W s ?s" using Cons.prems by (auto intro: only_buffers_push only_buffers_barrier)
  moreover obtain s' where "efold (buffer_target W v) ts ?s = Inr s'" "only_buffers W ?s s'"
    using Cons.IH [of ?s] Cons.prems by auto
  moreover have "buffer_target W v t s = Inr ?s" using n by (simp add: buffer_target_def)
  ultimately show ?case using only_buffers_trans by (auto simp del: if_split)
qed (simp add: only_buffers_refl)

section \<open>One start, one completion\<close>

lemma pop_trigger_Some:
  assumes "pop_trigger name s = Some (t, s1)" and "buffer_inv W s"
  shows "buffer_inv W s1" "name \<in> wf_names W" "pending_tasks s1 = pending_tasks s" "wf_nodes s1 = wf_nodes s"
    "run_counters s1 = run_counters s" "set (d_keys (trigger_buffer s1)) \<subseteq> set (d_keys (trigger_buffer s))"
proof -
  obtain ts where q: "map_of (trigger_buffer s) name = Some (t # ts)"
    and s1: "s1 = s\<lparr>trigger_buffer := (if ts = [] then AList.delete name (trigger_buffer s)
        else d_modify name (\<lambda>_. ts) (trigger_buffer s))\<rparr>"
    using assms(1) by (auto simp: pop_trigger_def split: option.splits list.splits)
  have keys: "d_keys (trigger_buffer s1) = (if ts = [] then filter (\<lambda>k. k \<noteq> name) (d_keys (trigger_buffer s)) else d_keys (trigger_buffer s))"
    by (simp add: s1 d_keys_delete)
  have m: "map_of (trigger_buffer s) k \<noteq> None \<and> v \<noteq> []" if "map_of (trigger_buffer s1) k = Some v" for k v
    using that q assms(2) by (auto simp: s1 buffer_inv_def delete_conv' split: if_splits)
  moreover have "distinct (d_keys (trigger_buffer s1))" unfolding keys using assms(2) by (simp add: buffer_inv_def)
  ultimately show "buffer_inv W s1" using assms(2) unfolding buffer_inv_def by blast
  show "name \<in> wf_names W" using assms(2) q by (auto simp: buffer_inv_def)
  show "set (d_keys (trigger_buffer s1)) \<subseteq> set (d_keys (trigger_buffer s))" unfolding keys by auto
qed (use assms(1) in \<open>auto simp: pop_trigger_def split: option.splits list.splits\<close>)

lemma int_str_neq_Nil [simp]: "int_str i \<noteq> []"
  by (simp add: int_str_def)

lemma at_notin_int_str: "at_sign \<notin> set (int_str i)"
  using nat_str_digits [of "nat i"] nat_str_digits [of "nat (- i)"] by (auto simp: int_str_def is_digit_def)

lemma str_join_snoc: "str_join sep (xs @ [x]) = (if xs = [] then x else str_join sep xs @ sep @ x)"
  by (induction sep xs rule: str_join.induct) auto

text \<open>Under one parent, a run's path determines its node and its number, whatever the names contain.\<close>

lemma runner_node_path_inject:
  "runner_node_path parent k (int_str i) = runner_node_path parent k' (int_str j) \<longleftrightarrow> k = k' \<and> i = j"
proof
  assume e: "runner_node_path parent k (int_str i) = runner_node_path parent k' (int_str j)"
  then have "path_append (path_from_string parent) k (Some (int_str i)) = path_append (path_from_string parent) k' (Some (int_str j))"
    by (auto simp: runner_node_path_def path_str_def path_append_def str_join_snoc split: if_splits)
  then show "k = k' \<and> i = j" by (simp add: append_inject at_notin_int_str)
qed simp

lemma counter_nonneg: "nodes_inv s \<Longrightarrow> 0 \<le> counter s k"
proof (cases "map_of (run_counters s) k")
  case (Some i)
  moreover assume "nodes_inv s"
  ultimately have "1 \<le> i" by (auto simp: nodes_inv_def)
  then show ?thesis using Some by (simp add: counter_def)
qed (simp add: counter_def)

lemma start_step:
  assumes inv: "buffer_inv W s" "nodes_inv s" "within_limit W s"
    and new: "\<not> d_has (pending_tasks s) name" "\<not> at_concurrency_limit W s" and pop: "pop_trigger name s = Some (t, s1)"
  shows "\<exists>s2. start_node_task W parent name t (prepare_node_state name t s1) = Inr s2
     \<and> pending_tasks s2 = pending_tasks s @ [(name, \<lparr>wt_path = runner_node_path parent name (int_str (counter s name + 1)), wt_input = t\<rparr>)]
     \<and> (\<forall>k. counter s2 k = counter s k + (if k = name then 1 else 0))
     \<and> buffer_inv W s2 \<and> nodes_inv s2 \<and> within_limit W s2 \<and> trigger_buffer s2 = trigger_buffer s1"
proof -
  note p = pop_trigger_Some [OF pop inv(1)]
  obtain n where n: "get_static_node W name = Inr n" "bn_name n = name" using get_static_node_total [OF p(2)] by auto
  let ?i = "counter s name + 1"
  let ?st = "\<lparr>ns_status = W_RUNNING, ns_input = t, ns_attempt_count = 1, ns_run_id = Some (int_str ?i)\<rparr>"
  let ?s2 = "s1\<lparr>run_counters := AList.update name ?i (run_counters s), wf_nodes := AList.update name ?st (wf_nodes s),
      pending_tasks := pending_tasks s @ [(name, \<lparr>wt_path = runner_node_path parent name (int_str ?i), wt_input = t\<rparr>)]\<rparr>"
  have "start_node_task W parent name t (prepare_node_state name t s1) = Inr ?s2"
    using n p(3-5) new(1)
    by (simp add: start_node_task_def prepare_node_state_def counter_def update_conv' update_absent Let_def)
  moreover have "nodes_inv ?s2"
    using inv(2) new(1) counter_nonneg [OF inv(2), of name]
    by (auto simp: nodes_inv_def is_running_def counter_def update_conv' split: option.splits if_splits)
  moreover have "buffer_inv W ?s2" using p(1) by (simp add: buffer_inv_def)
  moreover have "within_limit W ?s2" using inv(3) new(2) by (auto simp: within_limit_def at_concurrency_limit_def)
  moreover have "\<forall>k. counter ?s2 k = counter s k + (if k = name then 1 else 0)"
    by (simp add: counter_def update_conv')
  ultimately show ?thesis by (intro exI [of _ ?s2]) simp
qed

lemma runs_inv_start:
  assumes "runs_inv parent runs s" and c: "\<And>k. counter s2 k = counter s k + (if k = name then 1 else 0)" and "0 \<le> counter s name"
  shows "runs_inv parent (runs @ [runner_node_path parent name (int_str (counter s name + 1))]) s2"
proof -
  let ?r = "runner_node_path parent name (int_str (counter s name + 1))"
  have "?r \<notin> set runs"
  proof
    assume "?r \<in> set runs"
    then obtain k i where "i \<le> counter s k" "?r = runner_node_path parent k (int_str i)"
      using assms(1) by (auto simp: runs_inv_def)
    then show False by (auto simp: runner_node_path_inject)
  qed
  moreover have "\<exists>k i. 1 \<le> i \<and> i \<le> counter s2 k \<and> r = runner_node_path parent k (int_str i)" if r: "r \<in> set (runs @ [?r])" for r
  proof (cases "r = ?r")
    case True
    then show ?thesis using assms(3) c [of name] by (intro exI [of _ name] exI [of _ "counter s name + 1"]) simp
  next
    case False
    then obtain k i where "1 \<le> i" "i \<le> counter s k" "r = runner_node_path parent k (int_str i)"
      using r assms(1) by (auto simp: runs_inv_def)
    moreover from this have "i \<le> counter s2 k" using c [of k] by (auto split: if_splits)
    ultimately show ?thesis by blast
  qed
  ultimately show ?thesis using assms(1) by (simp add: runs_inv_def)
qed

section \<open>One pass of the scheduler\<close>

lemma schedule_loop_result:
  "loop_inv W parent runs s \<Longrightarrow> \<exists>s' new. schedule_loop W parent names s = Inr s' \<and> pending_tasks s' = pending_tasks s @ new
     \<and> loop_inv W parent (runs @ map (wt_path \<circ> snd) new) s'"
proof (induction names arbitrary: s runs)
  case Nil
  then show ?case by (intro exI [of _ s] exI [of _ "[]"]) simp
next
  case (Cons name names)
  show ?case
  proof (cases "d_has (pending_tasks s) name \<or> is_running s name \<or> pop_trigger name s = None \<or> at_concurrency_limit W s")
    case True
    then have "schedule_loop W parent (name # names) s = schedule_loop W parent names s
        \<or> schedule_loop W parent (name # names) s = Inr s" by (auto simp del: set_map)
    then consider "schedule_loop W parent (name # names) s = schedule_loop W parent names s"
      | "schedule_loop W parent (name # names) s = Inr s" by blast
    then show ?thesis
    proof cases
      case 1
      then show ?thesis using Cons by metis
    next
      case 2
      then show ?thesis using Cons.prems by (intro exI [of _ s] exI [of _ "[]"]) simp
    qed
  next
    case False
    then obtain t s1 where pop: "pop_trigger name s = Some (t, s1)" by auto
    have inv: "buffer_inv W s" "nodes_inv s" "within_limit W s" "runs_inv parent runs s"
      using Cons.prems by (auto simp: loop_inv_def)
    have new: "\<not> d_has (pending_tasks s) name" "\<not> at_concurrency_limit W s" using False by auto
    let ?r = "runner_node_path parent name (int_str (counter s name + 1))"
    obtain s2 where s2: "start_node_task W parent name t (prepare_node_state name t s1) = Inr s2"
      "pending_tasks s2 = pending_tasks s @ [(name, \<lparr>wt_path = ?r, wt_input = t\<rparr>)]"
      "\<And>k. counter s2 k = counter s k + (if k = name then 1 else 0)"
      "buffer_inv W s2" "nodes_inv s2" "within_limit W s2"
      using start_step [OF inv(1-3) new pop] by metis
    have "runs_inv parent (runs @ [?r]) s2"
      by (rule runs_inv_start [OF inv(4) s2(3) counter_nonneg [OF inv(2)]])
    then have "loop_inv W parent (runs @ [?r]) s2" using s2(4-6) by (simp add: loop_inv_def)
    from Cons.IH [OF this] obtain s' new where "schedule_loop W parent names s2 = Inr s'"
      "pending_tasks s' = pending_tasks s2 @ new" "loop_inv W parent ((runs @ [?r]) @ map (wt_path \<circ> snd) new) s'" by blast
    moreover have "schedule_loop W parent (name # names) s = schedule_loop W parent names s2"
      using False pop s2(1) by simp
    ultimately show ?thesis using s2(2)
      by (intro exI [of _ s'] exI [of _ "(name, \<lparr>wt_path = ?r, wt_input = t\<rparr>) # new"]) (simp add: comp_def)
  qed
qed

text \<open>Scheduling starts something whenever nothing runs and something is triggered.\<close>

lemma schedule_starts:
  assumes inv: "loop_inv W parent runs s" and idle: "pending_tasks s = []" and trig: "trigger_buffer s \<noteq> []"
  shows "\<exists>s'. schedule_ready_nodes W parent s = Inr s' \<and> pending_tasks s' \<noteq> []"
proof -
  obtain name q rest where buf: "trigger_buffer s = (name, q) # rest" using trig by (cases "trigger_buffer s") auto
  have "map_of (trigger_buffer s) name = Some q" using buf by simp
  then have "q \<noteq> []" using inv unfolding loop_inv_def buffer_inv_def by blast
  then obtain t s1 where pop: "pop_trigger name s = Some (t, s1)"
    using buf by (cases q) (auto simp: pop_trigger_def)
  have new: "\<not> d_has (pending_tasks s) name" "\<not> at_concurrency_limit W s" "\<not> is_running s name"
    using idle inv by (auto simp: at_concurrency_limit_def loop_inv_def nodes_inv_def split: option.splits)
  have i: "buffer_inv W s" "nodes_inv s" "within_limit W s" "runs_inv parent runs s"
    using inv by (auto simp: loop_inv_def)
  let ?r = "runner_node_path parent name (int_str (counter s name + 1))"
  obtain s2 where s2: "start_node_task W parent name t (prepare_node_state name t s1) = Inr s2" "pending_tasks s2 \<noteq> []"
    "\<And>k. counter s2 k = counter s k + (if k = name then 1 else 0)" "buffer_inv W s2" "nodes_inv s2" "within_limit W s2"
    using start_step [OF i(1-3) new(1,2) pop, of parent] by auto
  have "runs_inv parent (runs @ [?r]) s2" by (rule runs_inv_start [OF i(4) s2(3) counter_nonneg [OF i(2)]])
  then have "loop_inv W parent (runs @ [?r]) s2" using s2(4-6) by (simp add: loop_inv_def)
  from schedule_loop_result [OF this, of "d_keys rest"] obtain s' new where
    "schedule_loop W parent (d_keys rest) s2 = Inr s'" "pending_tasks s' = pending_tasks s2 @ new" by blast
  moreover have "schedule_ready_nodes W parent s = schedule_loop W parent (d_keys rest) s2"
    using buf new pop s2(1) by (simp add: schedule_ready_nodes_def)
  ultimately show ?thesis using s2(2) by simp
qed

section \<open>Collecting finished tasks\<close>

lemma complete_step:
  assumes inv: "buffer_inv W s" "nodes_inv s" and W: "wf_valid W" and k: "d_has (pending_tasks s) k" and ok: "cc_error c = None"
  shows "\<exists>s'. complete_one W (k, c) s = Inr s' \<and> buffer_inv W s' \<and> nodes_inv s' \<and> run_counters s' = run_counters s
     \<and> pending_tasks s' = AList.delete k (pending_tasks s)"
proof -
  let ?s1 = "set_wf_status k W_COMPLETED (s\<lparr>pending_tasks := AList.delete k (pending_tasks s)\<rparr>)"
  let ?s2 = "if cc_output c = JNull then ?s1 else ?s1\<lparr>node_outputs := AList.update k (cc_output c) (node_outputs ?s1)\<rparr>"
  have "is_running s k" using inv(2) k by (auto simp: nodes_inv_def)
  then obtain st where st: "map_of (wf_nodes s) k = Some st" by (auto simp: is_running_def split: option.splits)
  have f: "pending_tasks ?s2 = AList.delete k (pending_tasks s)" "run_counters ?s2 = run_counters s"
    "wf_nodes ?s2 = d_modify k (\<lambda>n. n\<lparr>ns_status := W_COMPLETED\<rparr>) (wf_nodes s)" "trigger_buffer ?s2 = trigger_buffer s"
    by (simp_all add: set_wf_status_def)
  have "is_running ?s2 k' \<longleftrightarrow> d_has (pending_tasks ?s2) k'" for k'
    using inv(2) st unfolding nodes_inv_def is_running_def f d_keys_delete by (cases "k' = k") auto
  then have n2: "nodes_inv ?s2" using inv(2) unfolding nodes_inv_def f d_keys_delete by auto
  have b2: "buffer_inv W ?s2" using inv(1) unfolding buffer_inv_def f .
  obtain s' where s': "efold (buffer_target W (cc_output c))
      (get_next_pending_nodes (wf_graph W) k (map_option RouteOne (cc_route c))) ?s2 = Inr s'" "only_buffers W ?s2 s'"
    using only_buffers_targets [of "get_next_pending_nodes (wf_graph W) k (map_option RouteOne (cc_route c))" W]
      next_pending_names [OF W] by blast
  have "complete_one W (k, c) s = Inr s'"
    using s'(1) ok st d_has_iff [of k "wf_nodes s"]
    by (simp add: complete_one_def handle_completion_def buffer_downstream_triggers_def Let_def)
  moreover have "nodes_inv s'" using n2 s'(2) unfolding nodes_inv_def only_buffers_def is_running_def by metis
  ultimately show ?thesis using s'(2) b2 f unfolding only_buffers_def by metis
qed

lemma collect_loop_result:
  assumes W: "wf_valid W"
  shows "buffer_inv W s \<Longrightarrow> nodes_inv s \<Longrightarrow> distinct (map fst xs) \<Longrightarrow> set (map fst xs) \<subseteq> set (d_keys (pending_tasks s))
     \<Longrightarrow> (\<exists>s'. efold (complete_one W) xs s = Inr s' \<and> buffer_inv W s' \<and> nodes_inv s' \<and> run_counters s' = run_counters s
           \<and> length (pending_tasks s') \<le> length (pending_tasks s))
       \<or> (\<exists>k c err. (k, c) \<in> set xs \<and> cc_error c = Some err \<and> efold (complete_one W) xs s = Inl (node_failed k err))"
proof (induction xs arbitrary: s)
  case (Cons x xs)
  obtain k c where x: "x = (k, c)" by (cases x)
  show ?case
  proof (cases "cc_error c")
    case (Some err)
    then have "efold (complete_one W) (x # xs) s = Inl (node_failed k err)" by (simp add: x complete_one_def Let_def)
    then show ?thesis using Some by (auto simp: x)
  next
    case None
    obtain s1 where s1: "complete_one W (k, c) s = Inr s1" "buffer_inv W s1" "nodes_inv s1"
      "run_counters s1 = run_counters s" "pending_tasks s1 = AList.delete k (pending_tasks s)"
      using complete_step [OF Cons.prems(1,2) W _ None, of k] Cons.prems(4) by (auto simp: x)
    have sub: "set (map fst xs) \<subseteq> set (d_keys (pending_tasks s1))"
      using Cons.prems(3,4) unfolding s1(5) d_keys_delete by (force simp: x)
    have len: "length (pending_tasks s1) \<le> length (pending_tasks s)" unfolding s1(5) by (rule length_delete_le)
    have "(\<exists>s'. efold (complete_one W) xs s1 = Inr s' \<and> buffer_inv W s' \<and> nodes_inv s' \<and> run_counters s' = run_counters s1
           \<and> length (pending_tasks s') \<le> length (pending_tasks s1))
       \<or> (\<exists>k c err. (k, c) \<in> set xs \<and> cc_error c = Some err \<and> efold (complete_one W) xs s1 = Inl (node_failed k err))"
      using Cons.IH [OF s1(2,3) _ sub] Cons.prems(3) by simp
    moreover have "efold (complete_one W) (x # xs) s = efold (complete_one W) xs s1" using s1(1) by (simp add: x)
    ultimately show ?thesis using len s1(4) by (elim disjE exE conjE) (auto intro: le_trans)
  qed
qed simp

lemma order_done_keys:
  "map fst (order_done results s) = filter (\<lambda>k. results k \<noteq> None) (d_keys (pending_tasks s))"
proof -
  have "map fst (concat (map (\<lambda>k. case results k of None \<Rightarrow> [] | Some c \<Rightarrow> [(k, c)]) ks)) = filter (\<lambda>k. results k \<noteq> None) ks" for ks
    by (induction ks) (auto split: option.splits)
  then show ?thesis unfolding order_done_def .
qed

lemma order_done_mem: "(k, c) \<in> set (order_done results s) \<longleftrightarrow> d_has (pending_tasks s) k \<and> results k = Some c"
  by (force simp: order_done_def split: option.splits)

lemma collect_result:
  assumes "wf_valid W" and inv: "loop_inv W parent runs s"
  shows "(\<exists>s'. collect_done W results s = Inr s' \<and> loop_inv W parent runs s')
     \<or> (\<exists>k c err. d_has (pending_tasks s) k \<and> results k = Some c \<and> cc_error c = Some err
          \<and> collect_done W results s = Inl (node_failed k err))"
proof -
  have i: "buffer_inv W s" "nodes_inv s" "within_limit W s" "runs_inv parent runs s" using inv by (auto simp: loop_inv_def)
  have d: "distinct (map fst (order_done results s))" "set (map fst (order_done results s)) \<subseteq> set (d_keys (pending_tasks s))"
    unfolding order_done_keys using i(2) by (auto simp: nodes_inv_def)
  consider s' where "collect_done W results s = Inr s'" "buffer_inv W s'" "nodes_inv s'" "run_counters s' = run_counters s"
      "length (pending_tasks s') \<le> length (pending_tasks s)"
    | k c err where "(k, c) \<in> set (order_done results s)" "cc_error c = Some err" "collect_done W results s = Inl (node_failed k err)"
    using collect_loop_result [OF assms(1) i(1,2) d] unfolding collect_done_def by blast
  then show ?thesis
  proof cases
    case 1
    have "within_limit W s'" using i(3) 1(5) by (fastforce simp: within_limit_def)
    moreover have "runs_inv parent runs s'" using i(4) 1(4) by (simp add: runs_inv_def counter_def)
    ultimately show ?thesis using 1 by (simp add: loop_inv_def)
  next
    case 2
    then show ?thesis unfolding order_done_mem by blast
  qed
qed

section \<open>Every state of a run\<close>

lemma loop_inv_empty: "loop_inv W parent [] empty_loop"
  by (simp add: loop_inv_def empty_loop_def buffer_inv_def nodes_inv_def within_limit_def runs_inv_def is_running_def)

lemma loop_inv_seeded: "wf_valid W \<Longrightarrow> loop_inv W parent [] (seed_start_triggers W node_input empty_loop)"
proof -
  assume W: "wf_valid W"
  have "only_buffers W empty_loop (seed_start_triggers W node_input empty_loop)"
    unfolding seed_start_triggers_def by (rule only_buffers_seed_all [OF W]) auto
  then show ?thesis using loop_inv_empty [of W parent]
    unfolding loop_inv_def only_buffers_def nodes_inv_def within_limit_def runs_inv_def is_running_def counter_def by simp
qed

lemma schedule_extends:
  assumes "loop_inv W parent runs s" and "schedule_ready_nodes W parent s = Inr s'"
  shows "loop_inv W parent (runs @ started_since s s') s'" "\<exists>new. pending_tasks s' = pending_tasks s @ new"
proof -
  obtain new where new: "pending_tasks s' = pending_tasks s @ new" "loop_inv W parent (runs @ map (wt_path \<circ> snd) new) s'"
    using schedule_loop_result [OF assms(1), of "d_keys (trigger_buffer s)"] assms(2)
    by (auto simp: schedule_ready_nodes_def)
  then show "loop_inv W parent (runs @ started_since s s') s'" by (simp add: started_since_def)
  show "\<exists>new. pending_tasks s' = pending_tasks s @ new" using new(1) by blast
qed

lemma wf_at_inv:
  "wf_at W parent node_input runs s \<Longrightarrow> wf_valid W \<Longrightarrow> loop_inv W parent runs s"
proof (induction rule: wf_at.induct)
  case (wf_start s)
  have "loop_inv W parent ([] @ started_since (seed_start_triggers W node_input empty_loop) s) s"
    by (rule schedule_extends(1) [OF loop_inv_seeded [OF wf_start.prems] wf_start.hyps])
  moreover have "pending_tasks (seed_start_triggers W node_input empty_loop) = pending_tasks empty_loop"
    using only_buffers_seed_all [OF wf_start.prems, of "filter (\<lambda>e. from_name e = START_NAME) (g_edges (wf_graph W))"]
    by (auto simp: only_buffers_def seed_start_triggers_def)
  ultimately show ?case by (simp add: started_since_def)
next
  case (wf_round runs s results s1 s2)
  have "loop_inv W parent runs s1" using collect_result [OF wf_round.prems wf_round.IH [OF wf_round.prems], of results] wf_round.hyps(3) by auto
  then show ?case using schedule_extends(1) wf_round.hyps(4) by blast
qed

lemma wf_at_scheduled:
  assumes "wf_at W parent node_input runs s" and "wf_valid W"
  shows "\<exists>runs0 s0. loop_inv W parent runs0 s0 \<and> schedule_ready_nodes W parent s0 = Inr s"
  using assms(1)
proof cases
  case wf_start
  then show ?thesis using loop_inv_seeded [OF assms(2)] by blast
next
  case (wf_round runs0 s0 results s1)
  then have "loop_inv W parent runs0 s1" using collect_result [OF assms(2) wf_at_inv [OF wf_round(2) assms(2)], of results] by auto
  then show ?thesis using wf_round by blast
qed


text \<open>The loop of a validated workflow ends only when no trigger is left unserved.\<close>

theorem workflow_ends_quiescent:
  assumes "make_workflow name es m = Inr W" and "wf_at W parent node_input runs s" and "pending_tasks s = []"
  shows "trigger_buffer s = []"
proof -
  have W: "wf_valid W" using make_workflow_valid [OF assms(1)] by blast
  obtain runs0 s0 where s0: "loop_inv W parent runs0 s0" "schedule_ready_nodes W parent s0 = Inr s"
    using wf_at_scheduled [OF assms(2) W] by blast
  have idle: "pending_tasks s0 = []" using schedule_extends(2) [OF s0] assms(3) by auto
  have "trigger_buffer s0 = []" using schedule_starts [OF s0(1) idle] s0(2) assms(3) by auto
  then show ?thesis using s0(2) by (simp add: schedule_ready_nodes_def)
qed

text \<open>Collecting finished nodes and starting the next ones fails only with the error of a node that failed:
  in a validated workflow no lookup of a node, a state or a task can fail.\<close>

theorem workflow_fails_only_by_child:
  assumes "make_workflow name es m = Inr W" and "wf_at W parent node_input runs s"
  shows "(\<exists>s1 s2. collect_done W results s = Inr s1 \<and> schedule_ready_nodes W parent s1 = Inr s2)
     \<or> (\<exists>k c err. d_has (pending_tasks s) k \<and> results k = Some c \<and> cc_error c = Some err
          \<and> collect_done W results s = Inl (node_failed k err))"
proof -
  have W: "wf_valid W" using make_workflow_valid [OF assms(1)] by blast
  have "\<exists>s2. schedule_ready_nodes W parent s1 = Inr s2" if "loop_inv W parent runs s1" for s1
    using schedule_loop_result [OF that] unfolding schedule_ready_nodes_def by blast
  then show ?thesis using collect_result [OF W wf_at_inv [OF assms(2) W], of results] by blast
qed

section \<open>Workflows without routes end\<close>

text \<open>What is still to be run: the running nodes and the buffered triggers.\<close>

definition buffer_load :: "(pystr, json list) dict \<Rightarrow> pystr multiset" where
  "buffer_load b = sum_list (map (\<lambda>(k, q). replicate_mset (length q) k) b)"

definition load :: "loop_state \<Rightarrow> pystr multiset" where
  "load s = mset (d_keys (pending_tasks s)) + buffer_load (trigger_buffer s)"

lemma buffer_load_simps [simp]:
  "buffer_load [] = {#}" "buffer_load ((k, q) # b) = replicate_mset (length q) k + buffer_load b"
  by (simp_all add: buffer_load_def)

lemma buffer_load_append: "buffer_load (a @ b) = buffer_load a + buffer_load b"
  by (simp add: buffer_load_def)

lemma d_modify_Cons: "d_modify k f ((k', v) # d) = (k', if k' = k then f v else v) # d_modify k f d"
  by (simp add: d_modify_def)

lemma d_modify_absent: "\<not> d_has d k \<Longrightarrow> d_modify k f d = d"
  unfolding d_modify_def by (rule map_idI) force

lemma buffer_load_modify:
  "distinct (d_keys b) \<Longrightarrow> map_of b k = Some q
     \<Longrightarrow> buffer_load (d_modify k f b) + replicate_mset (length q) k = buffer_load b + replicate_mset (length (f q)) k"
proof (induction b)
  case (Cons x b)
  obtain k' v where x: "x = (k', v)" by (cases x)
  show ?case
  proof (cases "k' = k")
    case True
    then have "d_modify k f b = b" using Cons.prems(1) by (intro d_modify_absent) (simp add: x)
    then show ?thesis using Cons.prems(2) True by (simp add: x d_modify_Cons)
  next
    case False
    then show ?thesis using Cons by (simp add: x d_modify_Cons)
  qed
qed simp

lemma load_push: "buffer_inv W s \<Longrightarrow> load (push_trigger k t s) = load s + {#k#}"
proof -
  assume inv: "buffer_inv W s"
  let ?b = "d_setdefault k [] (trigger_buffer s)"
  obtain q where q: "map_of ?b k = Some q"
    by (cases "map_of (trigger_buffer s) k") (auto simp: map_of_d_setdefault)
  have "distinct (d_keys ?b)" using inv by (simp add: buffer_inv_def distinct_setdefault)
  then have "buffer_load (d_modify k (\<lambda>l. l @ [t]) ?b) = buffer_load ?b + {#k#}"
    using buffer_load_modify [of ?b k q "\<lambda>l. l @ [t]"] q by simp
  moreover have "buffer_load ?b = buffer_load (trigger_buffer s)" by (simp add: d_setdefault_def buffer_load_append)
  ultimately show ?thesis by (simp add: load_def push_trigger_def)
qed

lemma buffer_load_delete:
  "distinct (d_keys b) \<Longrightarrow> map_of b k = Some q \<Longrightarrow> buffer_load (AList.delete k b) + replicate_mset (length q) k = buffer_load b"
proof (induction b)
  case (Cons x b)
  obtain k' v where x: "x = (k', v)" by (cases x)
  show ?case
  proof (cases "k' = k")
    case True
    then have "AList.delete k b = b" using Cons.prems(1) by (intro delete_id) (simp add: x)
    then show ?thesis using Cons.prems(2) True by (simp add: x add.commute)
  next
    case False
    then show ?thesis using Cons by (simp add: x add.assoc)
  qed
qed simp

lemma load_pop:
  assumes "pop_trigger k s = Some (t, s1)" and "buffer_inv W s"
  shows "buffer_load (trigger_buffer s1) + {#k#} = buffer_load (trigger_buffer s)"
proof -
  obtain ts where q: "map_of (trigger_buffer s) k = Some (t # ts)"
    and b: "trigger_buffer s1 = (if ts = [] then AList.delete k (trigger_buffer s) else d_modify k (\<lambda>_. ts) (trigger_buffer s))"
    using assms(1) by (auto simp: pop_trigger_def split: option.splits list.splits)
  have d: "distinct (d_keys (trigger_buffer s))" using assms(2) by (simp add: buffer_inv_def)
  show ?thesis
    using buffer_load_delete [OF d q] buffer_load_modify [OF d q, of "\<lambda>_. ts"] b by auto
qed

lemma schedule_loop_load:
  "loop_inv W parent runs s \<Longrightarrow> schedule_loop W parent names s = Inr s' \<Longrightarrow> load s' = load s"
proof (induction names arbitrary: s runs)
  case (Cons name names)
  show ?case
  proof (cases "d_has (pending_tasks s) name \<or> is_running s name \<or> pop_trigger name s = None \<or> at_concurrency_limit W s")
    case True
    then have "schedule_loop W parent (name # names) s = schedule_loop W parent names s
        \<or> schedule_loop W parent (name # names) s = Inr s" by (auto simp del: set_map)
    then show ?thesis using Cons.IH [OF Cons.prems(1)] Cons.prems(2) by auto
  next
    case False
    then obtain t s1 where pop: "pop_trigger name s = Some (t, s1)" by auto
    have inv: "buffer_inv W s" "nodes_inv s" "within_limit W s" "runs_inv parent runs s"
      using Cons.prems by (auto simp: loop_inv_def)
    have new: "\<not> d_has (pending_tasks s) name" "\<not> at_concurrency_limit W s" using False by auto
    let ?r = "runner_node_path parent name (int_str (counter s name + 1))"
    obtain s2 where s2: "start_node_task W parent name t (prepare_node_state name t s1) = Inr s2"
      "pending_tasks s2 = pending_tasks s @ [(name, \<lparr>wt_path = ?r, wt_input = t\<rparr>)]"
      "\<And>k. counter s2 k = counter s k + (if k = name then 1 else 0)"
      "buffer_inv W s2" "nodes_inv s2" "within_limit W s2" "trigger_buffer s2 = trigger_buffer s1"
      using start_step [OF inv(1-3) new pop] by metis
    have "loop_inv W parent (runs @ [?r]) s2"
      using s2(4-6) runs_inv_start [OF inv(4) s2(3) counter_nonneg [OF inv(2)]] by (simp add: loop_inv_def)
    moreover have "schedule_loop W parent names s2 = Inr s'" using Cons.prems(2) False pop s2(1) by simp
    ultimately have "load s' = load s2" by (rule Cons.IH)
    then show ?thesis using load_pop [OF pop inv(1)] s2(2,7) by (simp add: load_def add.assoc add.commute)
  qed
qed simp

lemma targets_load:
  "buffer_inv W s \<Longrightarrow> set ts \<subseteq> wf_names W \<Longrightarrow> efold (buffer_target W v) ts s = Inr s' \<Longrightarrow> \<exists>M. load s' = load s + M \<and> set_mset M \<subseteq> set ts \<and> size M \<le> length ts"
proof (induction ts arbitrary: s)
  case (Cons t ts)
  obtain n where n: "get_static_node W t = Inr n" using Cons.prems get_static_node_total [of t W] by auto
  let ?s = "if bn_join n then buffer_barrier_trigger W t s else push_trigger t v s"
  have "only_buffers W s ?s" using Cons.prems by (auto intro: only_buffers_push only_buffers_barrier)
  then have b: "buffer_inv W ?s" using Cons.prems(1) by (simp add: only_buffers_def)
  have "buffer_target W v t s = Inr ?s" using n by (simp add: buffer_target_def)
  then have "efold (buffer_target W v) ts ?s = Inr s'" using Cons.prems(3) by simp
  then obtain M where M: "load s' = load ?s + M" "set_mset M \<subseteq> set ts" "size M \<le> length ts"
    using Cons.IH [OF b] Cons.prems(2) by auto
  have "load ?s = load s + {#t#} \<or> load ?s = load s"
    using load_push [OF Cons.prems(1)] by (simp add: buffer_barrier_trigger_def)
  then show ?case
  proof
    assume "load ?s = load s + {#t#}"
    then show ?thesis using M by (intro exI [of _ "add_mset t M"]) auto
  next
    assume "load ?s = load s"
    then show ?thesis using M by (intro exI [of _ M]) auto
  qed
qed auto

abbreviation successor_rel :: "Workflow \<Rightarrow> (pystr \<times> pystr) set" where
  "successor_rel W \<equiv> (name_rel (g_edges (wf_graph W)))\<inverse>"

lemma complete_load_eq:
  assumes inv: "buffer_inv W s" "nodes_inv s" and W: "wf_valid W" and k: "d_has (pending_tasks s) k" and ok: "cc_error c = None"
    and s': "complete_one W (k, c) s = Inr s'"
  shows "\<exists>M L. load s = L + {#k#} \<and> load s' = L + M
     \<and> set_mset M \<subseteq> set (get_next_pending_nodes (wf_graph W) k (map_option RouteOne (cc_route c)))
     \<and> size M \<le> length (get_next_pending_nodes (wf_graph W) k (map_option RouteOne (cc_route c)))"
proof -
  let ?s1 = "set_wf_status k W_COMPLETED (s\<lparr>pending_tasks := AList.delete k (pending_tasks s)\<rparr>)"
  let ?s2 = "if cc_output c = JNull then ?s1 else ?s1\<lparr>node_outputs := AList.update k (cc_output c) (node_outputs ?s1)\<rparr>"
  let ?ts = "get_next_pending_nodes (wf_graph W) k (map_option RouteOne (cc_route c))"
  have t: "efold (buffer_target W (cc_output c)) ?ts ?s2 = Inr s'"
    using s' ok by (auto simp: complete_one_def handle_completion_def buffer_downstream_triggers_def Let_def split: if_splits)
  have "buffer_inv W ?s2" using inv(1) by (simp add: buffer_inv_def set_wf_status_def)
  then obtain M where M: "load s' = load ?s2 + M" "set_mset M \<subseteq> set ?ts" "size M \<le> length ?ts"
    using targets_load [OF _ _ t] next_pending_names [OF W] by blast
  have "mset (filter (\<lambda>k'. k' \<noteq> k) ks) + {#k#} = mset ks" if "distinct ks" "k \<in> set ks" for ks
  proof -
    have "filter (\<lambda>k'. k' \<noteq> k) ks = remove1 k ks"
      using that(1) by (simp add: distinct_remove1_removeAll removeAll_filter_not_eq neq_commute)
    then show ?thesis using that(2) by (simp only: mset_remove1) simp
  qed
  then have "mset (d_keys (AList.delete k (pending_tasks s))) + {#k#} = mset (d_keys (pending_tasks s))"
    using inv(2) k unfolding d_keys_delete nodes_inv_def by blast
  then have "load ?s2 + {#k#} = load s"
    by (simp add: load_def set_wf_status_def add.assoc add.commute add.left_commute)
  then show ?thesis using M by (intro exI [of _ M] exI [of _ "load ?s2"]) simp
qed

lemma complete_load:
  assumes "buffer_inv W s" "nodes_inv s" "wf_valid W" "d_has (pending_tasks s) k" "cc_error c = None" "complete_one W (k, c) s = Inr s'"
  shows "(load s', load s) \<in> mult (successor_rel W)"
proof -
  let ?ts = "get_next_pending_nodes (wf_graph W) k (map_option RouteOne (cc_route c))"
  obtain M L where m: "load s = L + {#k#}" "load s' = L + M" "set_mset M \<subseteq> set ?ts"
    using complete_load_eq [OF assms] by blast
  have "(L + M, L + {#k#}) \<in> mult (successor_rel W)"
  proof (rule one_step_implies_mult)
    show "\<forall>x \<in> set_mset M. \<exists>j \<in> set_mset {#k#}. (x, j) \<in> successor_rel W"
      using m(3) next_pending_in_edges by (fastforce simp: name_rel_def)
  qed simp
  then show ?thesis using m(1,2) by simp
qed

lemma collect_load:
  assumes W: "wf_valid W"
  shows "buffer_inv W s \<Longrightarrow> nodes_inv s \<Longrightarrow> distinct (map fst xs) \<Longrightarrow> set (map fst xs) \<subseteq> set (d_keys (pending_tasks s))
     \<Longrightarrow> efold (complete_one W) xs s = Inr s' \<Longrightarrow> xs \<noteq> [] \<Longrightarrow> (load s', load s) \<in> mult (successor_rel W)"
proof (induction xs arbitrary: s)
  case (Cons x xs)
  obtain k c where x: "x = (k, c)" by (cases x)
  obtain s1 where s1: "complete_one W (k, c) s = Inr s1" "efold (complete_one W) xs s1 = Inr s'"
    using Cons.prems(5) by (auto simp: x ebind_eq_Inr)
  have ok: "cc_error c = None" using s1(1) by (cases "cc_error c") (simp_all add: complete_one_def Let_def)
  have k: "d_has (pending_tasks s) k" using Cons.prems(4) by (simp add: x)
  obtain s2 where s2: "complete_one W (k, c) s = Inr s2" "buffer_inv W s2" "nodes_inv s2"
    "pending_tasks s2 = AList.delete k (pending_tasks s)"
    using complete_step [OF Cons.prems(1,2) W k ok] by auto
  have s12: "s2 = s1" using s1(1) s2(1) by simp
  note p = s2(2-4) [unfolded s12]
  have head: "(load s1, load s) \<in> mult (successor_rel W)" by (rule complete_load [OF Cons.prems(1,2) W k ok s1(1)])
  show ?case
  proof (cases "xs = []")
    case True
    then show ?thesis using s1(2) head by simp
  next
    case False
    have "set (map fst xs) \<subseteq> set (d_keys (pending_tasks s1))"
      using Cons.prems(3,4) unfolding p(3) d_keys_delete by (force simp: x)
    then have "(load s', load s1) \<in> mult (successor_rel W)"
      using Cons.IH [OF p(1,2) _ _ s1(2) False] Cons.prems(3) by simp
    then show ?thesis using head unfolding mult_def by (rule trancl_trans)
  qed
qed simp

text \<open>One round of a run: some nodes finish without error, the next ones start.\<close>

definition round_rel :: "Workflow \<Rightarrow> pystr \<Rightarrow> json \<Rightarrow> (loop_state \<times> loop_state) set" where
  "round_rel W parent node_input = {(s2, s). \<exists>runs results s1. wf_at W parent node_input runs s \<and> order_done results s \<noteq> []
     \<and> collect_done W results s = Inr s1 \<and> schedule_ready_nodes W parent s1 = Inr s2}"

text \<open>C20: A validated workflow whose edges carry no routes always ends: it has no infinite sequence of rounds,
  however the nodes finish and whatever they return.\<close>

theorem workflow_without_routes_ends:
  assumes "make_workflow name es m = Inr W" and "list_all (\<lambda>e. we_route e = None) es"
  shows "wf (round_rel W parent node_input)"
proof -
  have W: "wf_valid W" "g_edges (wf_graph W) = es" using make_workflow_valid [OF assms(1)] by auto
  have "unconditional_edges es = es" using assms(2) by (simp add: unconditional_edges_def list_all_iff filter_id_conv)
  then have "acyclic (name_rel es)" using W by (simp add: wf_valid_def graph_ok_def)
  moreover have "name_rel es = (\<lambda>e. (from_name e, to_name e)) ` set es" by (auto simp: name_rel_def)
  ultimately have "wf (successor_rel W)" using W(2) by (auto intro: finite_acyclic_wf_converse)
  then have m: "wf (inv_image (mult (successor_rel W)) load)" by (intro wf_inv_image wf_mult)
  show ?thesis
  proof (rule wf_subset [OF m], rule subsetI)
    fix p assume "p \<in> round_rel W parent node_input"
    then obtain s2 s runs results s1 where p: "p = (s2, s)" "wf_at W parent node_input runs s" "order_done results s \<noteq> []"
      "collect_done W results s = Inr s1" "schedule_ready_nodes W parent s1 = Inr s2"
      unfolding round_rel_def by blast
    have i: "buffer_inv W s" "nodes_inv s" using wf_at_inv [OF p(2) W(1)] by (auto simp: loop_inv_def)
    have d: "distinct (map fst (order_done results s))" "set (map fst (order_done results s)) \<subseteq> set (d_keys (pending_tasks s))"
      unfolding order_done_keys using i(2) by (auto simp: nodes_inv_def)
    have "(load s1, load s) \<in> mult (successor_rel W)"
      by (rule collect_load [OF W(1) i d p(4) [unfolded collect_done_def] p(3)])
    moreover have "loop_inv W parent runs s1"
      using collect_result [OF W(1) wf_at_inv [OF p(2) W(1)], of results] p(4) by auto
    then have "load s2 = load s1" using schedule_loop_load p(5) unfolding schedule_ready_nodes_def by blast
    ultimately show "p \<in> inv_image (mult (successor_rel W)) load" using p(1) by simp
  qed
qed

section \<open>Graphs with one token\<close>

text \<open>When every completion triggers at most one node, at most one node is running or triggered.\<close>

lemma collect_size:
  assumes W: "wf_valid W" and one: "\<And>k r. length (get_next_pending_nodes (wf_graph W) k r) \<le> 1"
  shows "buffer_inv W s \<Longrightarrow> nodes_inv s \<Longrightarrow> distinct (map fst xs) \<Longrightarrow> set (map fst xs) \<subseteq> set (d_keys (pending_tasks s))
     \<Longrightarrow> efold (complete_one W) xs s = Inr s' \<Longrightarrow> size (load s') \<le> size (load s)"
proof (induction xs arbitrary: s)
  case (Cons x xs)
  obtain k c where x: "x = (k, c)" by (cases x)
  obtain s1 where s1: "complete_one W (k, c) s = Inr s1" "efold (complete_one W) xs s1 = Inr s'"
    using Cons.prems(5) by (auto simp: x ebind_eq_Inr)
  have ok: "cc_error c = None" using s1(1) by (cases "cc_error c") (simp_all add: complete_one_def Let_def)
  have k: "d_has (pending_tasks s) k" using Cons.prems(4) by (simp add: x)
  have p: "buffer_inv W s1" "nodes_inv s1" "pending_tasks s1 = AList.delete k (pending_tasks s)"
    using complete_step [OF Cons.prems(1,2) W k ok] s1(1) by auto
  obtain M L where m: "load s = L + {#k#}" "load s1 = L + M" "size M \<le> 1"
    using complete_load_eq [OF Cons.prems(1,2) W k ok s1(1)] one le_trans by blast
  have "set (map fst xs) \<subseteq> set (d_keys (pending_tasks s1))"
    using Cons.prems(3,4) unfolding p(3) d_keys_delete by (force simp: x)
  then have "size (load s') \<le> size (load s1)" using Cons.IH [OF p(1,2) _ _ s1(2)] Cons.prems(3) by simp
  then show ?case using m by simp
qed simp

lemma single_token:
  assumes W: "wf_valid W" and one: "\<And>k r. length (get_next_pending_nodes (wf_graph W) k r) \<le> 1"
    and seed: "size (load (seed_start_triggers W node_input empty_loop)) \<le> 1"
  shows "wf_at W parent node_input runs s \<Longrightarrow> size (load s) \<le> 1"
proof (induction rule: wf_at.induct)
  case (wf_start s)
  then show ?case using schedule_loop_load [OF loop_inv_seeded [OF W]] seed unfolding schedule_ready_nodes_def by metis
next
  case (wf_round runs s results s1 s2)
  have li: "loop_inv W parent runs s" by (rule wf_at_inv [OF wf_round.hyps(1) W])
  then have i: "buffer_inv W s" "nodes_inv s" by (auto simp: loop_inv_def)
  have d: "distinct (map fst (order_done results s))" "set (map fst (order_done results s)) \<subseteq> set (d_keys (pending_tasks s))"
    unfolding order_done_keys using i(2) by (auto simp: nodes_inv_def)
  have "size (load s1) \<le> size (load s)"
    by (rule collect_size [OF W one i d wf_round.hyps(3) [unfolded collect_done_def]])
  moreover have "loop_inv W parent runs s1" using collect_result [OF W li, of results] wf_round.hyps(3) by auto
  then have "load s2 = load s1" using schedule_loop_load wf_round.hyps(4) unfolding schedule_ready_nodes_def by blast
  ultimately show ?case using wf_round.IH by simp
qed

section \<open>Example runs\<close>

definition one_step :: "WfEdge list" where
  "one_step = [plain START (plain_node 1 ''a'')]"

definition one_step_wf :: Workflow where
  "one_step_wf = \<lparr>wf_name = py ''one'', wf_graph = \<lparr>g_edges = one_step, g_nodes = edge_nodes one_step\<rparr>, max_concurrency = Some 1\<rparr>"

definition one_step_running :: loop_state where
  "one_step_running = \<lparr>trigger_buffer = [], pending_tasks = [(py ''a'', \<lparr>wt_path = py ''one@1/a@1'', wt_input = JNull\<rparr>)],
     wf_nodes = [(py ''a'', \<lparr>ns_status = W_RUNNING, ns_input = JNull, ns_attempt_count = 1, ns_run_id = Some (py ''1'')\<rparr>)],
     node_outputs = [], run_counters = [(py ''a'', 1)]\<rparr>"

definition one_step_done :: loop_state where
  "one_step_done = one_step_running\<lparr>pending_tasks := [], wf_nodes := d_map (\<lambda>n. n\<lparr>ns_status := W_COMPLETED\<rparr>) (wf_nodes one_step_running)\<rparr>"

definition silent_child :: child_ctx where
  "silent_child = \<lparr>cc_output = JNull, cc_route = None, cc_error = None\<rparr>"

lemma one_step_built: "make_workflow (py ''one'') one_step (Some 1) = Inr one_step_wf"
  by code_simp

lemma one_step_starts: "wf_at one_step_wf (py ''one@1'') JNull [py ''one@1/a@1''] one_step_running"
proof -
  have "schedule_ready_nodes one_step_wf (py ''one@1'') (seed_start_triggers one_step_wf JNull empty_loop) = Inr one_step_running"
    by code_simp
  from wf_start [OF this] show ?thesis by (simp add: started_since_def empty_loop_def one_step_running_def)
qed

lemma one_step_ends: "wf_at one_step_wf (py ''one@1'') JNull [py ''one@1/a@1''] one_step_done"
proof -
  have "order_done (\<lambda>_. Some silent_child) one_step_running \<noteq> []" by code_simp
  moreover have "collect_done one_step_wf (\<lambda>_. Some silent_child) one_step_running = Inr one_step_done" by code_simp
  moreover have "schedule_ready_nodes one_step_wf (py ''one@1'') one_step_done = Inr one_step_done" by code_simp
  ultimately have "wf_at one_step_wf (py ''one@1'') JNull ([py ''one@1/a@1''] @ started_since one_step_done one_step_done) one_step_done"
    by (rule wf_round [OF one_step_starts])
  then show ?thesis by (simp add: started_since_def one_step_done_def one_step_running_def)
qed


theorem workflow_ends_quiescent_witness:
  "wf_at one_step_wf (py ''one@1'') JNull [py ''one@1/a@1''] one_step_done \<and> trigger_buffer one_step_done = []"
  using one_step_ends workflow_ends_quiescent [OF one_step_built one_step_ends] by (simp add: one_step_done_def)

theorem workflow_fails_only_by_child_witness:
  "\<exists>s1 s2. collect_done one_step_wf (\<lambda>_. Some silent_child) one_step_running = Inr s1
     \<and> schedule_ready_nodes one_step_wf (py ''one@1'') s1 = Inr s2"
  using workflow_fails_only_by_child [OF one_step_built one_step_starts, of "\<lambda>_. Some silent_child"]
  by (auto simp: silent_child_def)

lemma diamond_built: "case make_workflow (py ''diamond'') diamond (Some 1) of Inl e \<Rightarrow> False | Inr W \<Rightarrow> True"
  by code_simp

theorem workflow_without_routes_ends_witness:
  "\<exists>W. make_workflow (py ''diamond'') diamond (Some 1) = Inr W \<and> wf (round_rel W (py ''diamond@1'') JNull)"
proof -
  obtain W where W: "make_workflow (py ''diamond'') diamond (Some 1) = Inr W"
    using diamond_built by (auto split: sum.splits)
  have "list_all (\<lambda>e. we_route e = None) diamond" by code_simp
  then show ?thesis using W workflow_without_routes_ends [OF W, of "py ''diamond@1''" JNull] by blast
qed

end
