(* ===== verification/Orchestrator.thy ===== *)
theory Orchestrator
  imports Dag_Executor Workflow
begin

text \<open>
  What the orchestrator of \<open>new_choirworks\<close> guarantees as a whole: its workflow graph
  (\<open>build_workflow\<close> of \<open>orchestrator/orchestrator.py\<close>) never runs two of its nodes at once, so planner,
  executor and helper do not race on the runtime; the runtime keeps its invariant; the end is reached only when
  nothing is left to do; the executor does not wait for nothing; and the ways a run can fail, including one that
  no node caused.
\<close>

section \<open>One node at a time\<close>

lemma orchestrator_next_one: "length (get_next_pending_nodes orchestrator_graph k r) \<le> 1"
proof (cases "k \<in> py ` {''__START__'', ''planner'', ''executor'', ''helper''}")
  case True
  then show ?thesis
    by (auto simp: get_next_pending_nodes_def orchestrator_graph_def orchestrator_edges_def wf_edge_def
        wf_node_def START_def START_NAME_def DEFAULT_ROUTE_def)
next
  case False
  then show ?thesis
    by (auto simp: get_next_pending_nodes_def orchestrator_graph_def orchestrator_edges_def wf_edge_def
        wf_node_def START_def START_NAME_def DEFAULT_ROUTE_def)
qed

lemma orchestrator_seed: "size (load (seed_start_triggers W i empty_loop)) \<le> 1" if "wf_graph W = orchestrator_graph"
  using that
  by (simp add: seed_start_triggers_def orchestrator_graph_def orchestrator_edges_def wf_edge_def wf_node_def
      START_def START_NAME_def seed_one_def push_trigger_def load_def empty_loop_def d_setdefault_def d_modify_def)

text \<open>C13: In every run of the orchestrator's workflow at most one of its nodes (planner, executor, helper, done)
  is running or triggered at any time, whatever routes and outputs they produce.\<close>

theorem orchestrator_single_token:
  assumes "make_workflow (py ''orchestrator'') orchestrator_edges m = Inr W" and "wf_at W parent node_input runs s"
  shows "length (pending_tasks s) + length (trigger_buffer s) \<le> 1"
proof -
  have W: "wf_valid W" "wf_graph W = orchestrator_graph"
    using make_workflow_valid [OF assms(1)] assms(1)
    by (auto simp: make_workflow_def make_graph_def ebind_eq_Inr orchestrator_graph_def)
  have "size (load s) \<le> 1"
    using single_token [OF W(1) _ _ assms(2)] orchestrator_next_one orchestrator_seed [OF W(2)] unfolding W(2) by blast
  moreover have "length b \<le> size (buffer_load b)" if "\<And>k q. (k, q) \<in> set b \<Longrightarrow> q \<noteq> []" for b
    using that
  proof (induction b)
    case (Cons x b)
    obtain k q where x: "x = (k, q)" by (cases x)
    have "q \<noteq> []" using Cons.prems [of k q] by (simp add: x)
    then have "1 \<le> length q" by (cases q) auto
    moreover have "length b \<le> size (buffer_load b)" using Cons.prems by (intro Cons.IH) (auto simp: x)
    ultimately show ?case by (simp add: x)
  qed simp
  moreover have "q \<noteq> []" if "(k, q) \<in> set (trigger_buffer s)" for k q
  proof -
    have b: "buffer_inv W s" using wf_at_inv [OF assms(2) W(1)] by (simp add: loop_inv_def)
    then have "map_of (trigger_buffer s) k = Some q" using that by (simp add: buffer_inv_def)
    then show ?thesis using b by (auto simp: buffer_inv_def)
  qed
  ultimately have "length (trigger_buffer s) \<le> size (buffer_load (trigger_buffer s))" by blast
  then show ?thesis using \<open>size (load s) \<le> 1\<close> by (simp add: load_def)
qed

section \<open>The runtime\<close>

definition run_ended :: "orch_phase \<Rightarrow> bool" where
  "run_ended ph = (case ph of Orch_done out \<Rightarrow> True | Orch_failed e \<Rightarrow> True | _ \<Rightarrow> False)"

lemma not_ended_inv: "orch_reachable good_answers agents user_task (ph, rt) \<Longrightarrow> \<not> run_ended ph \<Longrightarrow> rt_inv rt"
  using orch_reachable_inv [of agents user_task "(ph, rt)"]
  by (auto simp: phase_inv_def run_ended_def split: orch_phase.splits)


text \<open>C21: The done node is reached only with no task running and, unless the planner declared the job complete
  with an empty plan, with every node of the plan completed or failed.\<close>

theorem orchestrator_done_is_finished:
  assumes "orch_reachable good_answers agents user_task (Enter (py ''done'') p, rt)"
  shows "dr_running rt = [] \<and> (dr_done_requested rt
     \<or> (\<forall>n \<in> set (dr_plan rt). dstatus rt (pn_id n) = Some D_COMPLETED \<or> dstatus rt (pn_id n) = Some D_FAILED))"
proof -
  have i: "rt_inv rt" "idle_plan rt" using orch_reachable_inv [OF assms] by (auto simp: phase_inv_def)
  have "dstatus rt (pn_id n) = Some D_COMPLETED \<or> dstatus rt (pn_id n) = Some D_FAILED"
    if n: "n \<in> set (dr_plan rt)" "\<not> dr_done_requested rt" for n
  proof -
    have "dr_running rt = []" "\<not> awaits_dispatch (dstatus rt (pn_id n))" using i(2) n by (auto simp: idle_plan_def list_ex_iff)
    moreover from this(1) have "dstatus rt (pn_id n) \<noteq> Some D_RUNNING" using i(1) by (auto simp: rt_inv_def running_inv_def)
    moreover have "dstatus rt (pn_id n) \<noteq> None" "dstatus rt (pn_id n) \<noteq> Some D_CANCELLED"
      using i(1) n(1) by (auto simp: rt_inv_def plan_inv_def results_inv_def)
    ultimately show ?thesis by (cases "dstatus rt (pn_id n)"; cases "the (dstatus rt (pn_id n))") (auto simp: awaits_dispatch_def)
  qed
  then show ?thesis using i(2) by (auto simp: idle_plan_def)
qed

lemma wf_open_edges: "deps_inv rt \<Longrightarrow> wf (open_edges rt)"
proof (rule finite_acyclic_wf)
  have "open_edges rt \<subseteq> (\<Union>n \<in> set (dr_plan rt). (\<lambda>d. (d, pn_id n)) ` set (pn_deps n))" by (auto simp: open_edges_def)
  then show "finite (open_edges rt)" by (rule finite_subset) auto
qed (simp add: deps_inv_def)

text \<open>C19: The executor never waits with nothing running: unless a failed node is in the plan, a reachable waiting
  executor has a running task, so waiting nodes never block each other, not even through the dependencies that a
  new plan merges into a node waiting for assistance.\<close>

theorem executor_never_stalls:
  assumes "orch_reachable good_answers agents user_task (Executor_waits, rt)"
    and nofail: "\<forall>n \<in> set (dr_plan rt). dstatus rt (pn_id n) \<noteq> Some D_FAILED"
  shows "dr_running rt \<noteq> []"
proof
  assume idle: "dr_running rt = []"
  have i: "plan_inv rt" "running_inv rt" "results_inv rt" "deps_inv rt" "has_work rt" "dispatchable rt = []"
    using orch_reachable_inv [OF assms(1)] by (auto simp: phase_inv_def rt_inv_def)
  define S where "S = {k \<in> pn_id ` set (dr_plan rt). map_of (dr_outputs rt) k = None \<and> awaits_dispatch (dstatus rt k)}"
  have blocked: "\<exists>d \<in> set (pn_deps n). d \<in> S" if n: "n \<in> set (dr_plan rt)" "awaits_dispatch (dstatus rt (pn_id n))" for n
  proof -
    have "pn_id n \<notin> set (dispatchable rt)" using i(6) by simp
    then obtain d where d: "d \<in> set (pn_deps n)" "\<not> d_has (dr_outputs rt) d" using n unfolding dispatchable_mem by blast
    have out: "map_of (dr_outputs rt) d = None" using d(2) unfolding d_has_iff by simp
    have "d \<in> pn_id ` set (dr_plan rt)" 
      using bspec [OF bspec [OF i(4) [unfolded deps_inv_def, THEN conjunct2, THEN conjunct1] n(1)] d(1)] out by simp
    then obtain m where m: "m \<in> set (dr_plan rt)" "pn_id m = d" by auto
    have "dstatus rt d \<noteq> Some D_RUNNING" using i(2) idle by (auto simp: running_inv_def)
    moreover have "dstatus rt d \<noteq> None" using i(1) m by (auto simp: plan_inv_def)
    moreover have "dstatus rt d \<noteq> Some D_COMPLETED" "dstatus rt d \<noteq> Some D_CANCELLED" "dstatus rt d \<noteq> Some D_FAILED"
      using i(3) out nofail m by (auto simp: results_inv_def)
    ultimately have "awaits_dispatch (dstatus rt d)"
      by (cases "dstatus rt d"; cases "the (dstatus rt d)") (auto simp: awaits_dispatch_def)
    then show ?thesis using d(1) m out by (auto simp: S_def)
  qed
  have "S \<noteq> {}" using i(5) idle blocked by (auto simp: has_work_def list_ex_iff)
  then obtain z where z: "z \<in> S" "\<And>y. (y, z) \<in> open_edges rt \<Longrightarrow> y \<notin> S"
    using wfE_min' [OF wf_open_edges [OF i(4)]] by metis
  then obtain n where n: "n \<in> set (dr_plan rt)" "pn_id n = z" "awaits_dispatch (dstatus rt (pn_id n))" by (auto simp: S_def)
  then obtain d where "d \<in> set (pn_deps n)" "d \<in> S" using blocked by blast
  moreover from this have "(d, z) \<in> open_edges rt" using n z(1) by (auto simp: open_edges_def S_def)
  ultimately show False using z(2) by blast
qed

text \<open>An orchestration fails only because the planner raised, because its plan does not validate, because a
  node of the current plan failed, or because the executor found nothing to judge after waiting; then no task is
  left running.\<close>

theorem orchestrator_failures:
  assumes "orch_reachable good_answers agents user_task (ph, rt)" and "orch_step good_answers (ph, rt) (Orch_failed e, rt')"
    and "ph \<noteq> Orch_failed e"
  shows "dr_running rt' = [] \<and> ((\<exists>p. ph = Enter (py ''planner'') p)
     \<or> (\<exists>plan. ph = Enter (py ''executor'') (Plan_payload (Some plan)) \<and> dag_validate_plan plan 20 = Inl e)
     \<or> (\<exists>c. cr_error c \<noteq> None \<and> e = abort_cause c)
     \<or> (ph = Executor_waits \<and> e = no_progress))"
proof -
  have inv: "phase_inv ph rt" using orch_reachable_inv [OF assms(1)] by simp
  have fin: "dr_running rt' = []" using orch_step_inv [OF assms(2) inv] by (simp add: phase_inv_def)
  have after: "after_executor r rt = (Orch_failed e, rt') \<Longrightarrow> r = Inl e" for r
    by (auto simp: after_executor_def split: sum.splits exec_phase.splits)
  from assms(2) show ?thesis
  proof cases
    case (task_finishes k r)
    then show ?thesis using assms(3) by simp
  next
    case (executor_starts plan)
    have "rt_inv rt" "\<And>pl. plan = Some pl \<Longrightarrow> good_answers rt pl"
      using inv executor_starts(1) by (auto simp: phase_inv_def split: option.splits)
    then show ?thesis using executor_begin_post(2) after executor_starts fin by (metis MAX_PLAN_NODES_def)
  next
    case executor_resumes
    have "rt_inv rt" using inv executor_resumes(1) by (simp add: phase_inv_def)
    then show ?thesis using executor_resume_post(2) after executor_resumes fin by metis
  next
    case executor_drained
    then show ?thesis using after [of "Inr (executor_drain rt)"] by auto
  next
    case (helper_judges k)
    have h: "rt_inv rt" "dstatus rt k = Some D_COMPLETED" "k \<notin> cr_node_id ` set (dr_completions rt)"
      using inv helper_judges(1) by (auto simp: phase_inv_def)
    obtain route rt1 where "helper_run k rt = Inr (route, rt1)" using helper_run_ok [OF h] by blast
    then show ?thesis using helper_judges(2) by (cases route) (auto simp: after_helper_def)
  qed (use fin in auto)
qed

section \<open>Runs as scripts\<close>

text \<open>An executable step: the environment's choice is given.  Ids without a hyphen are never assist ids.\<close>

datatype orch_event = Ev_finish pystr "pystr + pystr" | Ev_plan "PlanNode list" | Ev_run

definition simple_answers :: "DagRuntime \<Rightarrow> PlanNode list \<Rightarrow> bool" where
  "simple_answers rt plan \<longleftrightarrow> plan_conforms rt plan \<and> list_all (\<lambda>n. 45 \<notin> set (pn_id n)) plan"

fun orch_exec :: "orch_event \<Rightarrow> orch_phase \<times> DagRuntime \<Rightarrow> (orch_phase \<times> DagRuntime) option" where
  "orch_exec (Ev_finish k r) (ph, rt) = (if map_of (dr_running rt) k = Some Task_running
     then Some (ph, rt\<lparr>dr_running := AList.update k (Task_finished r) (dr_running rt)\<rparr>) else None)"
| "orch_exec (Ev_plan plan) (Enter name p, rt) = (if name = py ''planner'' \<and> simple_answers rt plan
     then Some (leave (py ''planner'') None (Plan_payload (Some plan)), rt) else None)"
| "orch_exec Ev_run (Enter name (Plan_payload plan), rt) = (if name = py ''executor''
     then Some (after_executor (executor_begin plan rt) rt)
     else if name = py ''done'' then Some (Orch_done (dr_outputs rt), shutdown rt) else None)"
| "orch_exec Ev_run (Enter name (Node_payload k), rt) = (if name = py ''helper''
     then Some (after_helper (helper_run k rt) rt)
     else if name = py ''done'' then Some (Orch_done (dr_outputs rt), shutdown rt) else None)"
| "orch_exec Ev_run (Enter name No_payload, rt) = (if name = py ''done'' then Some (Orch_done (dr_outputs rt), shutdown rt) else None)"
| "orch_exec Ev_run (Executor_waits, rt) = (if wait_returns rt then Some (after_executor (executor_resume rt) rt) else None)"
| "orch_exec Ev_run (Executor_drains, rt) = (if wait_returns rt then Some (after_executor (Inr (executor_drain rt)) rt) else None)"
| "orch_exec _ _ = None"

fun orch_script :: "orch_event list \<Rightarrow> orch_phase \<times> DagRuntime \<Rightarrow> (orch_phase \<times> DagRuntime) option" where
  "orch_script [] x = Some x"
| "orch_script (e # es) x = (case orch_exec e x of None \<Rightarrow> None | Some y \<Rightarrow> orch_script es y)"

lemma simple_answers_good: "simple_answers rt plan \<Longrightarrow> good_answers rt plan"
proof -
  assume s: "simple_answers rt plan"
  have "45 \<in> set k" if "is_assist_id k" for k using that by (auto simp: is_assist_id_def assist_id_of_def py_def)
  then show ?thesis using s by (auto simp: simple_answers_def good_answers_def plan_fresh_def list_all_iff)
qed

lemma orch_exec_step: "orch_exec e x = Some y \<Longrightarrow> orch_step good_answers x y"
  by (induction e x rule: orch_exec.induct)
     (auto split: if_splits intro: orch_step.intros simple_answers_good simp del: leave_simps)

lemma orch_script_reachable:
  "orch_script es x = Some y \<Longrightarrow> orch_reachable good_answers agents user_task x \<Longrightarrow> orch_reachable good_answers agents user_task y"
proof (induction es arbitrary: x)
  case (Cons e es)
  then obtain z where "orch_exec e x = Some z" "orch_script es z = Some y" by (auto split: option.splits)
  then show ?case using Cons orch_next orch_exec_step by blast
qed simp

lemma orch_script_append: "orch_script (es @ fs) x = Option.bind (orch_script es x) (orch_script fs)"
  by (induction es arbitrary: x) (auto split: option.splits)

definition demo_agents :: "(pystr, AgentInfo) dict" where
  "demo_agents = [(py ''writer'', \<lparr>ai_name = py ''writer'', ai_url = py ''http://writer'', ai_description = []\<rparr>),
     (py ''reviewer'', \<lparr>ai_name = py ''reviewer'', ai_url = py ''http://reviewer'', ai_description = []\<rparr>)]"

definition demo_node :: "string \<Rightarrow> string list \<Rightarrow> PlanNode" where
  "demo_node k deps = \<lparr>pn_id = py k, pn_name = py k, pn_agent_name = py ''writer'', pn_instruction = py ''task'',
     pn_deps = map py deps, pn_assist_for = None\<rparr>"

definition demo_start :: "orch_phase \<times> DagRuntime" where
  "demo_start = (Enter (py ''planner'') No_payload, new_runtime demo_agents (py ''goal''))"

text \<open>Two independent nodes; after the second one the planner leaves the first, still running, out of its plan.\<close>

definition two_running :: "orch_event list" where
  "two_running = [Ev_plan [demo_node ''a'' [], demo_node ''b'' []], Ev_run]"

definition removed_node_events :: "orch_event list" where
  "removed_node_events = two_running @ [Ev_finish (py ''b'') (Inr (py ''text'')), Ev_run, Ev_run, Ev_plan [demo_node ''b'' []],
     Ev_run, Ev_finish (py ''a'') (Inr (py ''text'')), Ev_run]"

definition all_done_events :: "orch_event list" where
  "all_done_events = two_running @ [Ev_finish (py ''a'') (Inr (py ''x'')), Ev_finish (py ''b'') (Inr (py ''y'')),
     Ev_run, Ev_run, Ev_plan [demo_node ''a'' [], demo_node ''b'' []], Ev_run, Ev_run,
     Ev_plan [demo_node ''a'' [], demo_node ''b'' []], Ev_run]"

definition failing_events :: "orch_event list" where
  "failing_events = two_running @ [Ev_finish (py ''a'') (Inl (py ''boom''))]"

lemma removed_run: "case orch_script (butlast removed_node_events) demo_start of
     Some (Executor_waits, rt) \<Rightarrow> wait_returns rt \<and> Option.is_none (failed_completion (dag_collect_done rt))
       \<and> Option.is_none (fst (pop_completion (dag_collect_done rt)))
   | _ \<Rightarrow> False"
  by code_simp

lemma two_running_run: "case orch_script two_running demo_start of
     Some (Executor_waits, rt) \<Rightarrow> length (dr_running rt) = 2 \<and> dstatus rt (py ''b'') = Some D_RUNNING
       \<and> list_all (\<lambda>(k, st). st \<noteq> D_FAILED) (dr_status rt) | _ \<Rightarrow> False"
  by code_simp

lemma all_done_run: "case orch_script all_done_events demo_start of
     Some (Enter name No_payload, rt) \<Rightarrow> name = py ''done'' \<and> \<not> dr_done_requested rt \<and> length (dr_plan rt) = 2
       \<and> dstatus rt (py ''b'') = Some D_COMPLETED | _ \<Rightarrow> False"
  by code_simp

lemma all_done_state:
  obtains rt where "orch_script all_done_events demo_start = Some (Enter (py ''done'') No_payload, rt)"
    "\<not> dr_done_requested rt" "length (dr_plan rt) = 2" "dstatus rt (py ''b'') = Some D_COMPLETED"
  using all_done_run by (cases "orch_script all_done_events demo_start"; cases "fst (the (orch_script all_done_events demo_start))")
    (auto split: payload.splits)

lemma failing_run: "case orch_script failing_events demo_start of Some (Executor_waits, rt) \<Rightarrow>
     (case orch_exec Ev_run (Executor_waits, rt) of Some (Orch_failed e, rt') \<Rightarrow> True | _ \<Rightarrow> False) | _ \<Rightarrow> False"
  by code_simp

text \<open>Reading a state off a successful check.\<close>

lemma waits_case: "case x of Some (Executor_waits, rt) \<Rightarrow> P rt | _ \<Rightarrow> False \<Longrightarrow> \<exists>rt. x = Some (Executor_waits, rt) \<and> P rt"
proof (cases x)
  case (Some p)
  moreover obtain ph rt where "p = (ph, rt)" by (cases p)
  moreover assume "case x of Some (Executor_waits, rt) \<Rightarrow> P rt | _ \<Rightarrow> False"
  ultimately show ?thesis by (cases ph) auto
qed simp

lemma demo_reachable: "orch_script es demo_start = Some y \<Longrightarrow> orch_reachable good_answers demo_agents (py ''goal'') y"
  using orch_script_reachable orch_start unfolding demo_start_def by blast

text \<open>A run in which every node succeeds can fail: when the planner leaves a running node out of its plan and
  that node is the next to finish, its result is not judged and the executor raises "dispatch made no progress".\<close>

theorem removed_running_node_fails_run:
  "\<exists>rt. orch_script removed_node_events demo_start = Some (Orch_failed no_progress, rt)
     \<and> orch_reachable good_answers demo_agents (py ''goal'') (Orch_failed no_progress, rt)"
proof -
  obtain rt where rt: "orch_script (butlast removed_node_events) demo_start = Some (Executor_waits, rt)" "wait_returns rt"
    "failed_completion (dag_collect_done rt) = None" "fst (pop_completion (dag_collect_done rt)) = None"
    using waits_case [OF removed_run] by (auto simp: Option.is_none_def)
  have "executor_resume rt = Inl no_progress"
    using rt(3,4) by (cases "pop_completion (dag_collect_done rt)") (simp add: executor_resume_def abort_if_failed_def)
  then have "orch_script [Ev_run] (Executor_waits, rt) = Some (Orch_failed no_progress, shutdown rt)"
    using rt(2) by (simp add: after_executor_def)
  moreover have "removed_node_events = butlast removed_node_events @ [Ev_run]"
    by (simp add: removed_node_events_def butlast_append)
  ultimately have "orch_script removed_node_events demo_start = Some (Orch_failed no_progress, shutdown rt)"
    using rt(1) orch_script_append by (metis bind.bind_lunit)
  then show ?thesis using demo_reachable by blast
qed

section \<open>Witnesses\<close>


theorem orchestrator_done_is_finished_witness:
  "\<exists>rt. orch_reachable good_answers demo_agents (py ''goal'') (Enter (py ''done'') No_payload, rt)
     \<and> length (dr_plan rt) = 2 \<and> dr_running rt = []
     \<and> list_all (\<lambda>n. dstatus rt (pn_id n) = Some D_COMPLETED \<or> dstatus rt (pn_id n) = Some D_FAILED) (dr_plan rt)"
proof -
  obtain rt where rt: "orch_script all_done_events demo_start = Some (Enter (py ''done'') No_payload, rt)"
    "\<not> dr_done_requested rt" "length (dr_plan rt) = 2"
    using all_done_state by blast
  show ?thesis using orchestrator_done_is_finished [OF demo_reachable [OF rt(1)]] demo_reachable [OF rt(1)] rt(2,3)
    by (auto simp: list_all_iff)
qed

theorem executor_never_stalls_witness:
  "\<exists>rt. orch_reachable good_answers demo_agents (py ''goal'') (Executor_waits, rt) \<and> dr_running rt \<noteq> []"
proof -
  obtain rt where rt: "orch_script two_running demo_start = Some (Executor_waits, rt)"
    "list_all (\<lambda>(k, st). st \<noteq> D_FAILED) (dr_status rt)"
    using waits_case [OF two_running_run] by blast
  have "\<forall>n \<in> set (dr_plan rt). dstatus rt (pn_id n) \<noteq> Some D_FAILED"
    using rt(2) by (auto simp: list_all_iff dest: map_of_SomeD)
  then show ?thesis using executor_never_stalls [OF demo_reachable [OF rt(1)]] demo_reachable [OF rt(1)] by blast
qed

theorem orchestrator_failures_witness:
  "\<exists>rt rt' e. orch_reachable good_answers demo_agents (py ''goal'') (Executor_waits, rt)
     \<and> orch_step good_answers (Executor_waits, rt) (Orch_failed e, rt') \<and> dr_running rt' = []
     \<and> ((\<exists>c. cr_error c \<noteq> None \<and> e = abort_cause c) \<or> e = no_progress)"
proof -
  obtain rt rt' e where rt: "orch_script failing_events demo_start = Some (Executor_waits, rt)"
    "orch_exec Ev_run (Executor_waits, rt) = Some (Orch_failed e, rt')"
    using waits_case [OF failing_run] by (force split: option.splits orch_phase.splits)
  have step: "orch_step good_answers (Executor_waits, rt) (Orch_failed e, rt')" by (rule orch_exec_step [OF rt(2)])
  show ?thesis using orchestrator_failures [OF demo_reachable [OF rt(1)] step] demo_reachable [OF rt(1)] step by blast
qed

theorem orchestrator_single_token_witness:
  "\<exists>W s. make_workflow (py ''orchestrator'') orchestrator_edges None = Inr W
     \<and> wf_at W (py ''orchestrator@1'') JNull (started_since empty_loop s) s
     \<and> length (pending_tasks s) + length (trigger_buffer s) \<le> 1"
proof -
  let ?W = "\<lparr>wf_name = py ''orchestrator'', wf_graph = orchestrator_graph, max_concurrency = None\<rparr>"
  have W: "make_workflow (py ''orchestrator'') orchestrator_edges None = Inr ?W"
    using orchestrator_valid by (simp add: make_workflow_def make_graph_def orchestrator_graph_def)
  obtain s where "schedule_ready_nodes ?W (py ''orchestrator@1'') (seed_start_triggers ?W JNull empty_loop) = Inr s"
    using schedule_loop_result [OF loop_inv_seeded] make_workflow_valid [OF W] unfolding schedule_ready_nodes_def by blast
  from wf_start [OF this] show ?thesis using orchestrator_single_token [OF W] W by blast
qed

end
