(* ===== verification/Wf_Event.thy ===== *)
theory Wf_Event
  imports Wf_Graph Node_Path Snapshot
begin

text \<open>
  Events of a workflow run: the A2A event and its typed metadata view of \<open>new_choirworks/core/events/event.py\<close> and
  \<open>event_actions.py\<close>, and how a node's runner stamps, records and forwards them (\<open>workflow/node_runner.py\<close>).
  The metadata \<open>Struct\<close> is a dict of \<open>json\<close> values.  The \<open>output\<close> entry holds the JSON text of the value; the
  model keeps the value itself.
\<close>

section \<open>Events\<close>

text \<open>\<open>pt_data\<close> is the JSON value of the part's \<open>data\<close>, \<open>JNull\<close> when it has none.\<close>

record part =
  pt_text :: pystr
  pt_metadata :: "(pystr, json) dict"
  pt_data :: json

datatype msg_role = ROLE_UNSPECIFIED | ROLE_USER | ROLE_AGENT

datatype wf_task_state = WT_UNSPECIFIED | WT_SUBMITTED | WT_WORKING | WT_COMPLETED | WT_FAILED | WT_CANCELED
  | WT_INPUT_REQUIRED | WT_REJECTED | WT_AUTH_REQUIRED

datatype event_body =
    MessageBody msg_role "part list"
  | ArtifactBody pystr bool bool "part list" \<comment> \<open>artifact id, \<open>append\<close>, \<open>last_chunk\<close>, the artifact's parts\<close>
  | StatusBody wf_task_state "part list"

text \<open>\<open>meta\<close> is the persisted carrier: of the artifact for an artifact update, else of the event.\<close>

record wf_event =
  wv_task_id :: pystr
  wv_context_id :: pystr
  wv_body :: event_body
  wv_meta :: "(pystr, json) dict"

definition TASK_RESPONSE_BOUNDARY_STATES :: "wf_task_state set" where
  "TASK_RESPONSE_BOUNDARY_STATES = {WT_INPUT_REQUIRED, WT_AUTH_REQUIRED, WT_COMPLETED, WT_FAILED, WT_CANCELED, WT_REJECTED}"

definition is_final_artifact :: "wf_event \<Rightarrow> bool" where
  "is_final_artifact e = (case wv_body e of ArtifactBody aid app lst ps \<Rightarrow> \<not> app \<and> lst | _ \<Rightarrow> False)"

definition is_partial_event :: "wf_event \<Rightarrow> bool" where
  "is_partial_event e = (case wv_body e of ArtifactBody aid app lst ps \<Rightarrow> \<not> is_final_artifact e | _ \<Rightarrow> False)"

definition event_content_parts :: "wf_event \<Rightarrow> part list" where
  "event_content_parts e = (case wv_body e of
      MessageBody role ps \<Rightarrow> ps
    | ArtifactBody aid app lst ps \<Rightarrow> (if is_final_artifact e then ps else [])
    | StatusBody st ps \<Rightarrow> (if st \<in> TASK_RESPONSE_BOUNDARY_STATES then ps else []))"

definition part_type_is :: "string \<Rightarrow> part \<Rightarrow> bool" where
  "part_type_is t p \<longleftrightarrow> map_of (pt_metadata p) (py ''type'') = Some (JStr (py t))"

definition is_function_call_part :: "part \<Rightarrow> bool" where
  "is_function_call_part p = part_type_is ''function_call'' p"

definition is_function_response_part :: "part \<Rightarrow> bool" where
  "is_function_response_part p = part_type_is ''function_response'' p"

definition is_thought_part :: "part \<Rightarrow> bool" where
  "is_thought_part p = (case map_of (pt_metadata p) (py ''thought'') of None \<Rightarrow> False | Some v \<Rightarrow> py_bool v)"

definition has_function_calls :: "wf_event \<Rightarrow> bool" where
  "has_function_calls e = list_ex is_function_call_part (event_content_parts e)"

definition extract_text :: "wf_event \<Rightarrow> bool \<Rightarrow> pystr" where
  "extract_text e include_thought = concat (map pt_text (filter (\<lambda>p. pt_text p \<noteq> []
     \<and> \<not> is_function_call_part p \<and> \<not> is_function_response_part p \<and> (include_thought \<or> \<not> is_thought_part p))
       (event_content_parts e)))"

section \<open>The metadata view\<close>

record NodeInfo =
  ni_path :: pystr
  ni_output_for :: "pystr list option"
  ni_message_as_output :: "bool option"

definition empty_node_info :: NodeInfo where
  "empty_node_info = \<lparr>ni_path = [], ni_output_for = None, ni_message_as_output = None\<rparr>"

text \<open>Reading an entry: absent, or of the type the setter writes.\<close>

definition meta_str :: "string \<Rightarrow> wf_event \<Rightarrow> pystr option" where
  "meta_str k e = (case map_of (wv_meta e) (py k) of Some (JStr s) \<Rightarrow> Some s | _ \<Rightarrow> None)"

definition set_meta :: "string \<Rightarrow> json \<Rightarrow> wf_event \<Rightarrow> wf_event" where
  "set_meta k v e = e\<lparr>wv_meta := AList.update (py k) v (wv_meta e)\<rparr>"

definition del_meta :: "string \<Rightarrow> wf_event \<Rightarrow> wf_event" where
  "del_meta k e = e\<lparr>wv_meta := AList.delete (py k) (wv_meta e)\<rparr>"

definition meta_author :: "wf_event \<Rightarrow> pystr" where
  "meta_author e = (case meta_str ''author'' e of None \<Rightarrow> [] | Some s \<Rightarrow> s)"

definition meta_output :: "wf_event \<Rightarrow> json" where
  "meta_output e = (case map_of (wv_meta e) (py ''output'') of None \<Rightarrow> JNull | Some v \<Rightarrow> v)"

definition set_output :: "json \<Rightarrow> wf_event \<Rightarrow> wf_event" where
  "set_output v = set_meta ''output'' v"

definition json_str :: "json \<Rightarrow> pystr" where
  "json_str v = (case v of JStr s \<Rightarrow> s | _ \<Rightarrow> [])"

definition meta_node_info :: "wf_event \<Rightarrow> NodeInfo" where
  "meta_node_info e = (case map_of (wv_meta e) (py ''node_info'') of
      Some (JObj node) \<Rightarrow> \<lparr>ni_path = (case map_of node (py ''path'') of Some v \<Rightarrow> json_str v | None \<Rightarrow> []),
        ni_output_for = (case map_of node (py ''output_for'') of Some (JArr vs) \<Rightarrow> Some (map json_str vs) | _ \<Rightarrow> None),
        ni_message_as_output = (case map_of node (py ''message_as_output'') of Some (JBool b) \<Rightarrow> Some b | _ \<Rightarrow> None)\<rparr>
    | _ \<Rightarrow> empty_node_info)"

definition node_info_fields :: "NodeInfo \<Rightarrow> (pystr, json) dict" where
  "node_info_fields v =
     (if ni_path v \<noteq> [] then [(py ''path'', JStr (ni_path v))] else [])
     @ (case ni_output_for v of None \<Rightarrow> [] | Some l \<Rightarrow> [(py ''output_for'', JArr (map JStr l))])
     @ (case ni_message_as_output v of None \<Rightarrow> [] | Some b \<Rightarrow> [(py ''message_as_output'', JBool b)])"

definition set_node_info :: "NodeInfo \<Rightarrow> wf_event \<Rightarrow> wf_event" where
  "set_node_info v e = (if node_info_fields v = [] then del_meta ''node_info'' e
     else set_meta ''node_info'' (JObj (node_info_fields v)) e)"

definition meta_branch :: "wf_event \<Rightarrow> pystr option" where
  "meta_branch = meta_str ''branch''"

definition set_branch :: "pystr option \<Rightarrow> wf_event \<Rightarrow> wf_event" where
  "set_branch v = (case v of None \<Rightarrow> del_meta ''branch'' | Some s \<Rightarrow> set_meta ''branch'' (JStr s))"

definition meta_isolation_scope :: "wf_event \<Rightarrow> pystr option" where
  "meta_isolation_scope = meta_str ''isolation_scope''"

definition set_isolation_scope :: "pystr option \<Rightarrow> wf_event \<Rightarrow> wf_event" where
  "set_isolation_scope v = (case v of None \<Rightarrow> del_meta ''isolation_scope'' | Some s \<Rightarrow> set_meta ''isolation_scope'' (JStr s))"

text \<open>\<open>actions.route\<close>: a JSON scalar.\<close>

definition meta_route :: "wf_event \<Rightarrow> route_value option" where
  "meta_route e = (case map_of (wv_meta e) (py ''actions.route'') of
      Some (JBool b) \<Rightarrow> Some (RBool b) | Some (JInt i) \<Rightarrow> Some (RInt i) | Some (JStr s) \<Rightarrow> Some (RStr s) | _ \<Rightarrow> None)"

primrec route_json :: "route_value \<Rightarrow> json" where
  "route_json (RBool b) = JBool b"
| "route_json (RInt i) = JInt i"
| "route_json (RStr s) = JStr s"

definition set_route :: "route_value \<Rightarrow> wf_event \<Rightarrow> wf_event" where
  "set_route r = set_meta ''actions.route'' (route_json r)"

lemmas meta_defs = meta_str_def set_meta_def del_meta_def meta_author_def meta_output_def set_output_def meta_node_info_def
  set_node_info_def meta_branch_def set_branch_def meta_isolation_scope_def set_isolation_scope_def meta_route_def set_route_def

lemma node_info_fields_Nil: "node_info_fields v = [] \<longleftrightarrow> v = empty_node_info"
  by (cases v) (auto simp: node_info_fields_def empty_node_info_def split: option.splits)

lemma json_str_map [simp]: "map json_str (map JStr l) = l"
  by (induction l) (auto simp: json_str_def)

lemma meta_set_get [simp]:
  "meta_branch (set_branch b e) = b" "meta_isolation_scope (set_isolation_scope b e) = b"
  "meta_output (set_output out e) = out"
  by (auto simp: meta_defs update_conv' delete_conv' split: option.split)

lemma meta_route_set_get [simp]: "meta_route (set_route r e) = Some r"
  by (cases r) (simp_all add: meta_defs update_conv')

lemma meta_other [simp]:
  "meta_output (set_node_info v e) = meta_output e" "meta_route (set_node_info v e) = meta_route e"
  "meta_branch (set_node_info v e) = meta_branch e" "meta_node_info (set_output out e) = meta_node_info e"
  by (simp_all add: meta_defs update_conv' delete_conv')

lemma node_info_set_get: "meta_node_info (set_node_info v e) = v"
proof (cases "node_info_fields v = []")
  case True
  then have "v = empty_node_info" by (simp add: node_info_fields_Nil)
  then show ?thesis using True by (simp add: meta_defs delete_conv')
next
  case False
  then show ?thesis
    by (cases v) (auto simp: meta_defs update_conv' node_info_fields_def json_str_def comp_def split: option.splits)
qed

text \<open>What the metadata setters write is what the getters read, absent values included, and setting one
  entry leaves the others as they are.\<close>

theorem event_meta_round_trip:
  "meta_node_info (set_node_info v e) = v \<and> meta_branch (set_branch b e) = b \<and> meta_output (set_output out e) = out
   \<and> meta_isolation_scope (set_isolation_scope s e) = s \<and> meta_route (set_route r e) = Some r
   \<and> meta_output (set_node_info v e) = meta_output e \<and> meta_route (set_node_info v e) = meta_route e
   \<and> meta_node_info (set_output out e) = meta_node_info e \<and> meta_branch (set_node_info v e) = meta_branch e"
  by (simp add: node_info_set_get)

section \<open>The node runner\<close>

text \<open>What the parent context gives a run, and the child context's own path.\<close>

record runner_ctx =
  rc_node_name :: pystr
  rc_path :: pystr
  rc_branch :: "pystr option"
  rc_scope :: "pystr option"

definition enrich_event :: "runner_ctx \<Rightarrow> wf_event \<Rightarrow> wf_event" where
  "enrich_event c e =
     (let e1 = (if meta_author e = [] then set_meta ''author'' (JStr (rc_node_name c)) e else e);
          info = meta_node_info e1;
          e2 = (if ni_path info = [] then set_node_info (info\<lparr>ni_path := rc_path c\<rparr>) e1 else e1);
          e3 = (if meta_branch e2 = None \<and> rc_branch c \<noteq> None then set_branch (rc_branch c) e2 else e2)
      in if meta_isolation_scope e3 = None \<and> rc_scope c \<noteq> None then set_isolation_scope (rc_scope c) e3 else e3)"

text \<open>The invocation: the recorded events and the queue to the client.\<close>

record invocation =
  iv_events :: "wf_event list"
  iv_queue :: "wf_event list"

definition wf_enqueue_event :: "runner_ctx \<Rightarrow> wf_event \<Rightarrow> invocation \<Rightarrow> invocation" where
  "wf_enqueue_event c e ic = (let e' = enrich_event c e in
     ic\<lparr>iv_events := (if is_partial_event e' then iv_events ic else iv_events ic @ [e']), iv_queue := iv_queue ic @ [e']\<rparr>)"

text \<open>How the node's generator ends: normally, with an exception, or by the timeout of its node.\<close>

datatype node_end = Node_returned | Node_raised pystr | Node_timed_out

text \<open>\<open>run\<close>: the events are forwarded as they come, an exception becomes the child context's error.  The output and
  route a node sets on its context are its result \<open>(out, route)\<close>.\<close>

record run_result =
  rr_output :: json
  rr_route :: "route_value option"
  rr_error :: "pystr option"

definition timeout_text :: "pystr \<Rightarrow> pystr \<Rightarrow> pystr" where
  "timeout_text name seconds = py ''Node '' @ str_repr name @ py '' timed out after '' @ seconds @ py '' seconds.''"

definition node_run :: "runner_ctx \<Rightarrow> pystr \<Rightarrow> wf_event list \<Rightarrow> node_end \<Rightarrow> json \<Rightarrow> route_value option \<Rightarrow> invocation
    \<Rightarrow> run_result \<times> invocation" where
  "node_run c seconds es ending out route ic =
     (\<lparr>rr_output = out, rr_route = route, rr_error = (case ending of
          Node_returned \<Rightarrow> None
        | Node_raised m \<Rightarrow> Some m
        | Node_timed_out \<Rightarrow> Some (timeout_text (rc_node_name c) seconds))\<rparr>,
      fold (wf_enqueue_event c) es ic)"

text \<open>\<open>run_replayed\<close> between the two barrier calls: recorded events go to the queue only.\<close>

definition emit_replayed_event :: "runner_ctx \<Rightarrow> wf_event \<Rightarrow> invocation \<Rightarrow> invocation" where
  "emit_replayed_event c e ic = ic\<lparr>iv_queue := iv_queue ic @ [enrich_event c e]\<rparr>"

definition run_replayed :: "runner_ctx \<Rightarrow> wf_event list \<Rightarrow> json \<Rightarrow> invocation \<Rightarrow> run_result \<times> invocation" where
  "run_replayed c es out ic =
     (let seen = fold (\<lambda>e v. if meta_output (enrich_event c e) \<noteq> JNull then meta_output (enrich_event c e) else v) es JNull
      in (\<lparr>rr_output = (if out \<noteq> JNull then out else seen), rr_route = None, rr_error = None\<rparr>,
          fold (emit_replayed_event c) es ic))"

section \<open>Stamping\<close>

lemma enrich_event_eq:
  "wv_body (enrich_event c e) = wv_body e"
  "meta_output (enrich_event c e) = meta_output e"
  "meta_route (enrich_event c e) = meta_route e"
  "meta_node_info (enrich_event c e) = (let info = meta_node_info e in if ni_path info = [] then info\<lparr>ni_path := rc_path c\<rparr> else info)"
proof -
  have a: "wv_body (set_meta k v e) = wv_body e" "wv_body (set_node_info i e) = wv_body e" "wv_body (set_branch b e) = wv_body e"
    "wv_body (set_isolation_scope s e) = wv_body e" for k v i b s e
    by (auto simp: meta_defs split: option.splits)
  have o: "meta_output (set_meta ''author'' v e) = meta_output e" "meta_output (set_node_info i e) = meta_output e"
    "meta_output (set_branch b e) = meta_output e" "meta_output (set_isolation_scope s e) = meta_output e" for v i b s e
    by (auto simp: meta_defs update_conv' delete_conv' split: option.splits)
  have r: "meta_route (set_meta ''author'' v e) = meta_route e" "meta_route (set_node_info i e) = meta_route e"
    "meta_route (set_branch b e) = meta_route e" "meta_route (set_isolation_scope s e) = meta_route e" for v i b s e
    by (auto simp: meta_defs update_conv' delete_conv' split: option.splits)
  have n: "meta_node_info (set_meta ''author'' v e) = meta_node_info e"
    "meta_node_info (set_branch b e) = meta_node_info e" "meta_node_info (set_isolation_scope s e) = meta_node_info e" for v b s e
    by (auto simp: meta_defs update_conv' delete_conv' split: option.splits)
  show "wv_body (enrich_event c e) = wv_body e" by (simp add: enrich_event_def Let_def a)
  show "meta_output (enrich_event c e) = meta_output e" by (simp add: enrich_event_def Let_def o)
  show "meta_route (enrich_event c e) = meta_route e" by (simp add: enrich_event_def Let_def r)
  show "meta_node_info (enrich_event c e) = (let info = meta_node_info e in if ni_path info = [] then info\<lparr>ni_path := rc_path c\<rparr> else info)"
  proof -
    have i: "meta_node_info (if b then set_meta ''author'' v x else x) = meta_node_info x"
      "meta_node_info (if b then set_branch br x else x) = meta_node_info x"
      "meta_node_info (if b then set_isolation_scope sc x else x) = meta_node_info x" for b v br sc x
      by (simp_all add: n)
    show ?thesis unfolding enrich_event_def Let_def i by (simp add: i node_info_set_get)
  qed
qed

lemma is_final_enrich [simp]: "is_final_artifact (enrich_event c e) = is_final_artifact e"
  by (simp add: is_final_artifact_def enrich_event_eq)

lemma is_partial_enrich [simp]: "is_partial_event (enrich_event c e) = is_partial_event e"
  by (simp add: is_partial_event_def enrich_event_eq split: event_body.split)

lemma extract_text_enrich [simp]: "extract_text (enrich_event c e) b = extract_text e b"
  by (simp add: extract_text_def event_content_parts_def enrich_event_eq split: event_body.split)

lemma node_run_events:
  "iv_events (snd (node_run c seconds es ending out route ic)) = iv_events ic @ map (enrich_event c) (filter (\<lambda>e. \<not> is_partial_event e) es)"
  "iv_queue (snd (node_run c seconds es ending out route ic)) = iv_queue ic @ map (enrich_event c) es"
  by (induction es arbitrary: ic) (auto simp: node_run_def wf_enqueue_event_def Let_def)

end
