(* ===== verification/Replay.thy ===== *)
theory Replay
  imports Wf_Event "HOL-Library.Sublist"
begin

text \<open>
  Resuming a workflow from its recorded events: \<open>workflow/utils/rehydration_utils.py\<close> (the state of every child run),
  \<open>replay_manager.py\<close> (the order in which the runs ended) and \<open>replay_sequence_barrier.py\<close> (runs are replayed in
  that order).  The lemmas give the loops their closed forms, and say which keys a barrier has released.
\<close>

section \<open>States of child runs\<close>

record ChildScanState =
  cs_run_id :: "pystr option"
  cs_output :: json
  cs_route :: "route_value option"
  cs_branch :: "pystr option"
  cs_scope :: "pystr option"

definition event_path :: "wf_event \<Rightarrow> node_path" where
  "event_path e = path_from_string (ni_path (meta_node_info e))"

definition owner_key :: "node_path \<Rightarrow> pystr \<Rightarrow> node_path \<Rightarrow> bool \<Rightarrow> pystr option" where
  "owner_key path base_path base by_child = (if \<not> by_child
     then (if path_str path = base_path \<or> is_descendant_of path base then Some base_path else None)
     else if \<not> is_descendant_of path base then None
     else case get_direct_child base path of Inl e \<Rightarrow> None | Inr c \<Rightarrow> Some (leaf_segment c))"

definition is_direct :: "node_path \<Rightarrow> pystr \<Rightarrow> node_path \<Rightarrow> bool \<Rightarrow> bool" where
  "is_direct path base_path base by_child = (if \<not> by_child then path_str path = base_path else is_direct_child_of path base)"

definition output_for_mem :: "pystr \<Rightarrow> wf_event \<Rightarrow> bool" where
  "output_for_mem p e = (case ni_output_for (meta_node_info e) of None \<Rightarrow> False | Some l \<Rightarrow> p \<in> set l)"

text \<open>The text that counts as output when the message itself is the output.\<close>

definition output_text :: "wf_event \<Rightarrow> pystr" where
  "output_text e = (if ni_message_as_output (meta_node_info e) = Some True then extract_text e False else [])"

definition has_output :: "wf_event \<Rightarrow> bool" where
  "has_output e \<longleftrightarrow> meta_output e \<noteq> JNull \<or> output_text e \<noteq> []"

definition is_delegated :: "wf_event \<Rightarrow> pystr \<Rightarrow> pystr \<Rightarrow> node_path \<Rightarrow> bool \<Rightarrow> bool" where
  "is_delegated e key base_path base by_child \<longleftrightarrow> has_output e
     \<and> output_for_mem (if by_child then path_str (path_append base key None) else base_path) e"

text \<open>What a contributing event writes into the state of its owner.\<close>

definition scan_update :: "wf_event \<Rightarrow> bool \<Rightarrow> ChildScanState \<Rightarrow> ChildScanState" where
  "scan_update e direct st =
     (let st1 = (if meta_output e \<noteq> JNull then st\<lparr>cs_output := meta_output e, cs_branch := meta_branch e\<rparr>
                 else if output_text e \<noteq> [] then st\<lparr>cs_output := JStr (output_text e), cs_branch := meta_branch e\<rparr>
                 else st);
          st2 = (case meta_route e of None \<Rightarrow> st1 | Some r \<Rightarrow> st1\<lparr>cs_route := Some r\<rparr>)
      in if direct \<and> meta_isolation_scope e \<noteq> None then st2\<lparr>cs_scope := meta_isolation_scope e\<rparr> else st2)"

definition new_scan_state :: "pystr \<Rightarrow> ChildScanState" where
  "new_scan_state key = \<lparr>cs_run_id = path_run_id (path_from_string key), cs_output = JNull, cs_route = None,
     cs_branch = None, cs_scope = None\<rparr>"

definition scan_event :: "pystr \<Rightarrow> bool \<Rightarrow> wf_event \<Rightarrow> (pystr, ChildScanState) dict \<Rightarrow> (pystr, ChildScanState) dict" where
  "scan_event base_path by_child e states =
     (let base = path_from_string base_path; path = event_path e in
      case owner_key path base_path base by_child of
        None \<Rightarrow> states
      | Some key \<Rightarrow>
         (let states1 = d_setdefault key (new_scan_state key) states;
              direct = is_direct path base_path base by_child
          in if is_partial_event e then states1
             else if \<not> (direct \<or> is_delegated e key base_path base by_child) then states1
             else d_modify key (scan_update e direct) states1))"

definition reconstruct_node_states :: "wf_event list \<Rightarrow> pystr \<Rightarrow> bool \<Rightarrow> (pystr, ChildScanState) dict" where
  "reconstruct_node_states es base_path by_child = fold (scan_event base_path by_child) es []"

section \<open>The sequence of ended runs\<close>

definition is_terminal_event :: "wf_event \<Rightarrow> bool" where
  "is_terminal_event e = (if is_partial_event e then False
     else if meta_output e \<noteq> JNull then True
     else if output_text e \<noteq> [] then True
     else meta_route e \<noteq> None)"

text \<open>One event: \<open>(sequence, completed)\<close>.\<close>

definition scan_sequence_event :: "pystr \<Rightarrow> bool \<Rightarrow> wf_event \<Rightarrow> pystr list \<times> pystr set \<Rightarrow> pystr list \<times> pystr set" where
  "scan_sequence_event base_path strict e = (\<lambda>(sequence, completed).
     (let base = path_from_string base_path; path = event_path e in
      if \<not> is_descendant_of path base then (sequence, completed)
      else case get_direct_child base path of
        Inl err \<Rightarrow> (sequence, completed)
      | Inr child_path \<Rightarrow>
          (if strict \<and> path \<noteq> child_path then (sequence, completed)
           else if \<not> (path = child_path \<or> output_for_mem (path_str child_path) e) then (sequence, completed)
           else if \<not> is_terminal_event e then (sequence, completed)
           else let segment = leaf_segment child_path in
             if segment \<in> completed then (sequence, completed)
             else ((if segment \<in> set sequence then remove1 segment sequence else sequence) @ [segment],
                   insert segment completed))))"

definition scan_sequence :: "wf_event list \<Rightarrow> pystr \<Rightarrow> bool \<Rightarrow> pystr list" where
  "scan_sequence es base_path strict = fst (fold (scan_sequence_event base_path strict) es ([], {}))"

section \<open>The barrier\<close>

text \<open>\<open>rb_released\<close>: the keys whose event is set.\<close>

record ReplaySequenceBarrier =
  rb_sequence :: "pystr list"
  rb_index :: nat
  rb_released :: "pystr list"

definition new_barrier :: "pystr list \<Rightarrow> ReplaySequenceBarrier" where
  "new_barrier sequence = \<lparr>rb_sequence = sequence, rb_index = 0, rb_released = (if sequence = [] then [] else [hd sequence])\<rparr>"

text \<open>Whether \<open>wait(key)\<close> returns at once; a key outside the sequence is not delayed.  A key that is not released
  within the timeout raises.\<close>

definition wait_passes :: "ReplaySequenceBarrier \<Rightarrow> pystr \<Rightarrow> bool" where
  "wait_passes b key = (if key \<notin> set (rb_sequence b) then True else key \<in> set (rb_released b))"

definition wait_timeout_error :: "pystr \<Rightarrow> exn" where
  "wait_timeout_error key = WorkflowInvariantError (py ''Replay divergence detected: Timed out waiting for sequence key ''
     @ str_repr key @ py '' to be unblocked.'')"

definition check_and_advance :: "pystr \<Rightarrow> ReplaySequenceBarrier \<Rightarrow> ReplaySequenceBarrier" where
  "check_and_advance key b =
     (if rb_index b \<ge> length (rb_sequence b) then b
      else if key \<noteq> rb_sequence b ! rb_index b then b
      else let i = rb_index b + 1 in
        b\<lparr>rb_index := i, rb_released := (if i < length (rb_sequence b) then rb_released b @ [rb_sequence b ! i] else rb_released b)\<rparr>)"

section \<open>The manager\<close>

record ReplayManager =
  rm_sequence_barrier :: "ReplaySequenceBarrier option"
  rm_barriers :: "(pystr, ReplaySequenceBarrier) dict"

definition scan_workflow_events :: "wf_event list \<Rightarrow> pystr \<Rightarrow> ReplayManager
    \<Rightarrow> ((pystr, ChildScanState) dict \<times> pystr list) \<times> ReplayManager" where
  "scan_workflow_events es base_path m =
     (let states = reconstruct_node_states es base_path True; sequence = scan_sequence es base_path False;
          b = new_barrier sequence
      in ((states, sequence), m\<lparr>rm_sequence_barrier := Some b, rm_barriers := AList.update base_path b (rm_barriers m)\<rparr>))"

definition prepare_parent_sequence_barrier :: "wf_event list \<Rightarrow> pystr \<Rightarrow> ReplayManager \<Rightarrow> ReplaySequenceBarrier \<times> ReplayManager" where
  "prepare_parent_sequence_barrier es parent_path m = (case map_of (rm_barriers m) parent_path of
      Some b \<Rightarrow> (b, m)
    | None \<Rightarrow> (let b = new_barrier (scan_sequence es parent_path True)
        in (b, m\<lparr>rm_barriers := AList.update parent_path b (rm_barriers m)\<rparr>)))"

definition advance_sequence :: "pystr \<Rightarrow> pystr \<Rightarrow> ReplayManager \<Rightarrow> ReplayManager" where
  "advance_sequence parent_path key m = m\<lparr>rm_barriers := d_modify parent_path (check_and_advance key) (rm_barriers m)\<rparr>"

definition wait_sequence_passes :: "pystr \<Rightarrow> pystr \<Rightarrow> ReplayManager \<Rightarrow> bool" where
  "wait_sequence_passes parent_path key m = (case map_of (rm_barriers m) parent_path of None \<Rightarrow> True | Some b \<Rightarrow> wait_passes b key)"

section \<open>The sequence in closed form\<close>

text \<open>Which run an event ends, if any.\<close>

definition ended_run :: "pystr \<Rightarrow> bool \<Rightarrow> wf_event \<Rightarrow> pystr option" where
  "ended_run base_path strict e = (case get_direct_child (path_from_string base_path) (event_path e) of
      Inl err \<Rightarrow> None
    | Inr c \<Rightarrow> (if (event_path e = c \<or> (\<not> strict \<and> output_for_mem (path_str c) e)) \<and> is_terminal_event e
        then Some (leaf_segment c) else None))"

lemma scan_sequence_event_eq:
  "scan_sequence_event base_path strict e (sq, done) = (case ended_run base_path strict e of
      None \<Rightarrow> (sq, done)
    | Some k \<Rightarrow> if k \<in> done then (sq, done) else ((if k \<in> set sq then remove1 k sq else sq) @ [k], insert k done))"
proof (cases "get_direct_child (path_from_string base_path) (event_path e)")
  case (Inl err)
  then show ?thesis by (auto simp: scan_sequence_event_def ended_run_def Let_def)
next
  case (Inr c)
  then have "is_descendant_of (event_path e) (path_from_string base_path)" using get_direct_child_total by blast
  then show ?thesis using Inr by (auto simp: scan_sequence_event_def ended_run_def Let_def)
qed

lemma dedup_from_cong: "set s = set t \<Longrightarrow> dedup_from s xs = dedup_from t xs"
  by (induction s xs arbitrary: t rule: dedup_from.induct) simp_all

lemma scan_sequence_fold:
  "fst (fold (scan_sequence_event base_path strict) es (sq, set sq))
     = sq @ dedup_from sq (List.map_filter (ended_run base_path strict) es)"
proof (induction es arbitrary: sq)
  case (Cons e es)
  show ?case
  proof (cases "ended_run base_path strict e")
    case None
    then show ?thesis using Cons by (simp add: scan_sequence_event_eq List.map_filter_simps)
  next
    case (Some k)
    show ?thesis
    proof (cases "k \<in> set sq")
      case True
      then show ?thesis using Cons Some by (simp add: scan_sequence_event_eq List.map_filter_simps)
    next
      case False
      have "insert k (set sq) = set (sq @ [k])" by simp
      then have "fst (fold (scan_sequence_event base_path strict) (e # es) (sq, set sq))
          = (sq @ [k]) @ dedup_from (sq @ [k]) (List.map_filter (ended_run base_path strict) es)"
        using Cons [of "sq @ [k]"] Some False by (simp add: scan_sequence_event_eq)
      moreover have "dedup_from (sq @ [k]) xs = dedup_from (k # sq) xs" for xs by (rule dedup_from_cong) auto
      ultimately show ?thesis using Some False by (simp add: List.map_filter_simps)
    qed
  qed
qed (simp add: List.map_filter_simps)

text \<open>The replay sequence of a workflow is the list of its child runs in the order of their first terminal
  event, each once: the bookkeeping of the loop (the set of completed runs, the removal of earlier entries) adds
  nothing to that.\<close>

theorem scan_sequence_is_first_ends:
  "scan_sequence es base_path strict = fromkeys (List.map_filter (ended_run base_path strict) es)"
  using scan_sequence_fold [of base_path strict es "[]"] by (simp add: scan_sequence_def fromkeys_def)

section \<open>The states in closed form\<close>

text \<open>Whose state an event belongs to, and whether it contributes to it.\<close>

definition owner :: "pystr \<Rightarrow> bool \<Rightarrow> wf_event \<Rightarrow> pystr option" where
  "owner base_path by_child e = owner_key (event_path e) base_path (path_from_string base_path) by_child"

definition contributes :: "pystr \<Rightarrow> bool \<Rightarrow> pystr \<Rightarrow> wf_event \<Rightarrow> bool" where
  "contributes base_path by_child k e \<longleftrightarrow> \<not> is_partial_event e
     \<and> (is_direct (event_path e) base_path (path_from_string base_path) by_child
        \<or> is_delegated e k base_path (path_from_string base_path) by_child)"

definition contribute :: "pystr \<Rightarrow> bool \<Rightarrow> pystr \<Rightarrow> wf_event \<Rightarrow> ChildScanState \<Rightarrow> ChildScanState" where
  "contribute base_path by_child k e st = (if contributes base_path by_child k e
     then scan_update e (is_direct (event_path e) base_path (path_from_string base_path) by_child) st else st)"

lemma scan_event_lookup:
  "map_of (scan_event base_path by_child e d) k = (if owner base_path by_child e = Some k
     then Some (contribute base_path by_child k e (case map_of d k of None \<Rightarrow> new_scan_state k | Some st \<Rightarrow> st))
     else map_of d k)"
  by (auto simp: scan_event_def owner_def contribute_def contributes_def Let_def map_of_d_setdefault
      split: option.splits)

lemma reconstruct_lookup_from:
  "map_of (fold (scan_event base_path by_child) es d) k
     = (let own = filter (\<lambda>e. owner base_path by_child e = Some k) es in
        if own = [] then map_of d k
        else Some (fold (contribute base_path by_child k) own (case map_of d k of None \<Rightarrow> new_scan_state k | Some st \<Rightarrow> st)))"
  by (induction es arbitrary: d) (auto simp: scan_event_lookup Let_def)

text \<open>The one pass over the history that fills a dict of run states is the same as replaying, for each run by
  itself, the events of that run alone: a run has a state exactly when it owns an event, and that state depends on
  no event of another run.\<close>

theorem reconstruct_node_states_per_run:
  "map_of (reconstruct_node_states es base_path by_child) k
     = (let own = filter (\<lambda>e. owner base_path by_child e = Some k) es in
        if own = [] then None else Some (fold (contribute base_path by_child k) own (new_scan_state k)))"
  by (simp add: reconstruct_node_states_def reconstruct_lookup_from Let_def)

lemma ended_run_has_owner:
  "ended_run base_path strict e = Some k \<Longrightarrow> owner base_path True e = Some k"
  using get_direct_child_total
  by (auto simp: ended_run_def owner_def owner_key_def split: sum.splits if_splits)

text \<open>Every run of the replay sequence has a reconstructed state.\<close>

lemma sequence_runs_have_states:
  assumes "k \<in> set (scan_sequence es base_path strict)"
  shows "map_of (reconstruct_node_states es base_path True) k \<noteq> None"
proof -
  have "scan_sequence es base_path strict = dedup_from [] (List.map_filter (ended_run base_path strict) es)"
    using scan_sequence_fold [of base_path strict es "[]"] by (simp add: scan_sequence_def)
  then have "k \<in> set (List.map_filter (ended_run base_path strict) es)" using assms by (simp add: set_dedup_from)
  then obtain e where "e \<in> set es" "ended_run base_path strict e = Some k"
    by (auto simp: List.map_filter_def)
  then have "filter (\<lambda>e. owner base_path True e = Some k) es \<noteq> []"
    by (auto simp: filter_empty_conv dest: ended_run_has_owner)
  then show ?thesis by (simp add: reconstruct_node_states_def reconstruct_lookup_from Let_def)
qed

section \<open>What the barrier has released\<close>

text \<open>How much of the sequence the keys handed to \<open>check_and_advance\<close> cover.\<close>

fun covered :: "'a list \<Rightarrow> 'a list \<Rightarrow> nat" where
  "covered [] ks = 0"
| "covered (x # t) [] = 0"
| "covered (x # t) (k # ks) = (if k = x then Suc (covered t ks) else covered (x # t) ks)"

lemma covered_subseq: "n \<le> length t \<Longrightarrow> subseq (take n t) ks \<longleftrightarrow> n \<le> covered t ks"
proof (induction t ks arbitrary: n rule: covered.induct)
  case (2 x t)
  then show ?case by (cases n) auto
next
  case (3 x t k ks)
  show ?case
  proof (cases n)
    case (Suc m)
    then show ?thesis using 3(1) [of m] 3(2) [of n] 3(3) by (cases "k = x") simp_all
  qed simp
qed simp

lemma covered_le: "covered t ks \<le> length t"
  by (induction t ks rule: covered.induct) auto

text \<open>The released keys are the ones up to the expected one.\<close>

definition barrier_inv :: "ReplaySequenceBarrier \<Rightarrow> bool" where
  "barrier_inv b \<longleftrightarrow> rb_index b \<le> length (rb_sequence b) \<and> rb_released b = take (Suc (rb_index b)) (rb_sequence b)"

lemma new_barrier_inv: "barrier_inv (new_barrier s)"
  by (cases s) (simp_all add: barrier_inv_def new_barrier_def)

lemma check_and_advance_inv: "barrier_inv b \<Longrightarrow> barrier_inv (check_and_advance k b)"
  by (auto simp: barrier_inv_def check_and_advance_def Let_def take_Suc_conv_app_nth)

lemma check_and_advance_sequence [simp]: "rb_sequence (check_and_advance k b) = rb_sequence b"
  by (simp add: check_and_advance_def Let_def)

lemma fold_advance_sequence [simp]: "rb_sequence (fold check_and_advance ks b) = rb_sequence b"
  by (induction ks arbitrary: b) simp_all

lemma fold_advance_inv: "barrier_inv b \<Longrightarrow> barrier_inv (fold check_and_advance ks b)"
  by (induction ks arbitrary: b) (simp_all add: check_and_advance_inv)

lemma fold_advance_index:
  "rb_index (fold check_and_advance ks b) = rb_index b + covered (drop (rb_index b) (rb_sequence b)) ks"
proof (induction ks arbitrary: b)
  case Nil
  then show ?case by (cases "drop (rb_index b) (rb_sequence b)") simp_all
next
  case (Cons k ks)
  show ?case
  proof (cases "rb_index b < length (rb_sequence b)")
    case True
    then have "drop (rb_index b) (rb_sequence b) = rb_sequence b ! rb_index b # drop (Suc (rb_index b)) (rb_sequence b)"
      by (simp add: Cons_nth_drop_Suc)
    then show ?thesis using Cons [of "check_and_advance k b"] True by (simp add: check_and_advance_def Let_def)
  next
    case False
    then show ?thesis using Cons [of b] by (simp add: check_and_advance_def)
  qed
qed

text \<open>After any run of \<open>check_and_advance\<close> calls, a key of the sequence is released exactly when some position
  of it has everything before it reported, in order: a report out of turn releases nothing, and a key outside the
  sequence is never held.\<close>

theorem barrier_releases_in_order:
  "wait_passes (fold check_and_advance ks (new_barrier s)) k
     = (if k \<in> set s then \<exists>i < length s. s ! i = k \<and> subseq (take i s) ks else True)"
proof -
  let ?b = "fold check_and_advance ks (new_barrier s)"
  have sq: "rb_sequence ?b = s" by (simp add: new_barrier_def)
  have ix: "rb_index ?b = covered s ks" by (simp add: fold_advance_index) (simp add: new_barrier_def)
  have "barrier_inv ?b" by (intro fold_advance_inv new_barrier_inv)
  then have rel: "rb_released ?b = take (Suc (covered s ks)) s" unfolding barrier_inv_def sq ix by blast
  have "k \<in> set (take (Suc (covered s ks)) s) \<longleftrightarrow> (\<exists>i < length s. s ! i = k \<and> i \<le> covered s ks)"
    by (auto simp: in_set_conv_nth less_Suc_eq_le)
  also have "\<dots> \<longleftrightarrow> (\<exists>i < length s. s ! i = k \<and> subseq (take i s) ks)" by (auto simp: covered_subseq)
  finally show ?thesis unfolding wait_passes_def sq rel by simp
qed

text \<open>Reported in the recorded order, every run is released.\<close>

lemma barrier_in_recorded_order:
  "i < length s \<Longrightarrow> wait_passes (fold check_and_advance (take i s) (new_barrier s)) (s ! i)"
proof -
  let ?b = "fold check_and_advance (take i s) (new_barrier s)"
  assume i: "i < length s"
  have "i \<le> covered s (take i s)" using covered_subseq [of i s "take i s"] i by simp
  moreover have "rb_index ?b = covered s (take i s)" by (simp add: fold_advance_index) (simp add: new_barrier_def)
  moreover have "barrier_inv ?b" by (intro fold_advance_inv new_barrier_inv)
  moreover have "rb_sequence ?b = s" by (simp add: new_barrier_def)
  ultimately have "s ! i \<in> set (rb_released ?b)" using i by (auto simp: barrier_inv_def in_set_conv_nth)
  then show ?thesis by (simp add: wait_passes_def)
qed

end
