(* ===== verification/Remote_Agent.thy ===== *)
theory Remote_Agent
  imports Contents Dag_Runtime
begin

text \<open>
  The remote agent of \<open>new_choirworks\<close> (\<open>core/a2a/agent/remote_a2a_agent.py\<close>): what it sends, how it turns the
  responses of the A2A stream into events, which text becomes the node's output; and the task the executor runs for a
  plan node, \<open>run_remote_node\<close> of \<open>orchestrator/executor_node.py\<close>.  The HTTP client is a parameter: the result of
  resolving the agent, the stream of responses, and how the stream ends.
\<close>

section \<open>Metadata of remote events\<close>

definition a2a_task_id :: "wf_event \<Rightarrow> pystr option" where
  "a2a_task_id = meta_str ''a2a:task_id''"

definition a2a_context_id :: "wf_event \<Rightarrow> pystr option" where
  "a2a_context_id = meta_str ''a2a:context_id''"

definition NON_FINAL_TASK_STATES :: "wf_task_state set" where
  "NON_FINAL_TASK_STATES = {WT_UNSPECIFIED, WT_SUBMITTED, WT_WORKING, WT_INPUT_REQUIRED, WT_AUTH_REQUIRED}"

definition FAILURE_TERMINAL_STATES :: "wf_task_state set" where
  "FAILURE_TERMINAL_STATES = {WT_FAILED, WT_REJECTED, WT_CANCELED}"

definition PAUSE_STATES :: "wf_task_state set" where
  "PAUSE_STATES = {WT_INPUT_REQUIRED, WT_AUTH_REQUIRED}"

lemmas state_sets = NON_FINAL_TASK_STATES_def FAILURE_TERMINAL_STATES_def PAUSE_STATES_def TASK_RESPONSE_BOUNDARY_STATES_def

section \<open>The request\<close>

definition is_remote_response :: "pystr \<Rightarrow> wf_event \<Rightarrow> bool" where
  "is_remote_response name e \<longleftrightarrow> meta_author e = name \<and> a2a_task_id e \<noteq> None"

text \<open>The parts an event of the session contributes.\<close>

definition request_parts :: "json_codec \<Rightarrow> pystr \<Rightarrow> wf_event \<Rightarrow> exn + part list" where
  "request_parts codec name e = (if is_other_agent_reply name e
     then ebind (present_other_agent_message codec False e) (\<lambda>m. Inr (case m of None \<Rightarrow> [] | Some x \<Rightarrow> event_content_parts x))
     else Inr (case wv_body e of MessageBody role ps \<Rightarrow> if role = ROLE_USER then ps else [] | _ \<Rightarrow> []))"

text \<open>The loop over \<open>reversed(ctx.events)\<close> with what is collected so far.\<close>

fun construct_loop :: "json_codec \<Rightarrow> pystr \<Rightarrow> wf_event list \<Rightarrow> part list \<Rightarrow> exn + part list \<times> pystr option" where
  "construct_loop codec name [] parts = Inr (parts, None)"
| "construct_loop codec name (e # es) parts = (if is_remote_response name e then Inr (parts, a2a_context_id e)
     else ebind (request_parts codec name e) (\<lambda>ps. construct_loop codec name es (ps @ parts)))"

definition construct_message_parts :: "json_codec \<Rightarrow> pystr \<Rightarrow> wf_event list \<Rightarrow> exn + part list \<times> pystr option" where
  "construct_message_parts codec name es = construct_loop codec name (rev es) []"

section \<open>The responses\<close>

type_synonym buffers = "(pystr, part list) dict"

definition aggregate_artifact_update :: "wf_event \<Rightarrow> buffers \<Rightarrow> wf_event list \<times> buffers" where
  "aggregate_artifact_update e bufs = (case wv_body e of
      ArtifactBody aid app lst ps \<Rightarrow>
       (let bufs1 = (if app then d_modify aid (\<lambda>l. l @ ps) (d_setdefault aid [] bufs) else AList.update aid ps bufs);
            buffer = (case map_of bufs1 aid of None \<Rightarrow> [] | Some l \<Rightarrow> l)
        in (e # (if lst \<and> app then [e\<lparr>wv_body := ArtifactBody aid False True buffer\<rparr>] else []),
            if lst then AList.delete aid bufs1 else bufs1))
    | _ \<Rightarrow> ([e], bufs))"

text \<open>A task snapshot: its artifacts' parts, the parts of its status message, its history of messages.\<close>

record task_snapshot =
  sn_id :: pystr
  sn_context_id :: pystr
  sn_state :: wf_task_state
  sn_status_parts :: "part list"
  sn_artifacts :: "part list list"
  sn_history :: "wf_event list"

definition is_agent_message :: "wf_event \<Rightarrow> bool" where
  "is_agent_message e = (case wv_body e of MessageBody role ps \<Rightarrow> role = ROLE_AGENT \<and> ps \<noteq> [] | _ \<Rightarrow> False)"

definition snapshot_status :: "task_snapshot \<Rightarrow> wf_event" where
  "snapshot_status t = \<lparr>wv_task_id = sn_id t, wv_context_id = sn_context_id t,
     wv_body = StatusBody (sn_state t) (sn_status_parts t), wv_meta = []\<rparr>"

definition events_from_task :: "task_snapshot \<Rightarrow> wf_event list" where
  "events_from_task t =
     (let parts = concat (sn_artifacts t);
          arts = (if parts = [] then [] else [\<lparr>wv_task_id = sn_id t, wv_context_id = sn_context_id t,
            wv_body = ArtifactBody (sn_id t) False (sn_state t \<notin> NON_FINAL_TASK_STATES) parts, wv_meta = []\<rparr>]);
          keep_status = (sn_state t \<in> FAILURE_TERMINAL_STATES \<or> sn_status_parts t \<noteq> []
            \<and> (sn_state t \<in> PAUSE_STATES \<or> parts = [] \<and> sn_state t \<in> TASK_RESPONSE_BOUNDARY_STATES));
          es = arts @ (if keep_status then [snapshot_status t] else []);
          es' = (if es = [] \<and> sn_state t \<in> TASK_RESPONSE_BOUNDARY_STATES
                 then (case List.find is_agent_message (rev (sn_history t)) of None \<Rightarrow> [] | Some m \<Rightarrow> [m]) else es)
      in if es' = [] then [snapshot_status t] else es')"

datatype stream_response = Resp_message wf_event | Resp_status wf_event | Resp_artifact wf_event
  | Resp_task task_snapshot | Resp_empty

definition response_events :: "stream_response \<Rightarrow> buffers \<Rightarrow> wf_event list \<times> buffers" where
  "response_events r bufs = (case r of
      Resp_message e \<Rightarrow> ([e], bufs)
    | Resp_status e \<Rightarrow> ([e], bufs)
    | Resp_artifact e \<Rightarrow> aggregate_artifact_update e bufs
    | Resp_task t \<Rightarrow> (events_from_task t, bufs)
    | Resp_empty \<Rightarrow> ([], bufs))"

text \<open>The invocation's task and context id.\<close>

definition stamp :: "pystr \<Rightarrow> pystr \<Rightarrow> pystr \<Rightarrow> wf_event \<Rightarrow> wf_event" where
  "stamp name task context e =
     (let e1 = (if wv_context_id e \<noteq> [] then set_meta ''a2a:context_id'' (JStr (wv_context_id e)) e else e);
          e2 = set_meta ''a2a:task_id'' (JStr (wv_task_id e)) e1;
          e3 = set_meta ''author'' (JStr name) e2
      in e3\<lparr>wv_task_id := task, wv_context_id := context\<rparr>)"

definition handle_a2a_response :: "pystr \<Rightarrow> pystr \<Rightarrow> pystr \<Rightarrow> stream_response \<Rightarrow> buffers \<Rightarrow> wf_event list \<times> buffers" where
  "handle_a2a_response name task context r bufs =
     (let p = response_events r bufs in (map (stamp name task context) (fst p), snd p))"

fun handle_stream :: "pystr \<Rightarrow> pystr \<Rightarrow> pystr \<Rightarrow> stream_response list \<Rightarrow> buffers \<Rightarrow> wf_event list" where
  "handle_stream name task context [] bufs = []"
| "handle_stream name task context (r # rs) bufs = (let p = handle_a2a_response name task context r bufs
     in fst p @ handle_stream name task context rs (snd p))"

section \<open>One run\<close>

definition failed_status :: "pystr \<Rightarrow> pystr \<Rightarrow> pystr \<Rightarrow> pystr \<Rightarrow> wf_event" where
  "failed_status name task context t = set_meta ''author'' (JStr name)
     \<lparr>wv_task_id = task, wv_context_id = context, wv_body = StatusBody WT_FAILED [text_part t], wv_meta = []\<rparr>"

text \<open>\<open>_run_async_impl\<close>: \<open>resolved\<close> is the error text of resolving the agent, \<open>responses\<close> the stream and \<open>stream_error\<close>
  the exception it ends with, if any.\<close>

record remote_world =
  rw_resolved :: "pystr option"
  rw_responses :: "stream_response list"
  rw_stream_error :: "pystr option"

definition remote_run_async :: "json_codec \<Rightarrow> pystr \<Rightarrow> pystr \<Rightarrow> pystr \<Rightarrow> wf_event list \<Rightarrow> remote_world \<Rightarrow> exn + wf_event list" where
  "remote_run_async codec name task context es w = (case rw_resolved w of
      Some err \<Rightarrow> Inr [failed_status name task context (py ''Failed to initialize remote A2A agent '' @ name @ py '' - '' @ err)]
    | None \<Rightarrow> ebind (construct_message_parts codec name es) (\<lambda>(parts, _).
        Inr (if parts = [] then [failed_status name task context (py ''No parts to send to remote A2A agent '' @ name)]
          else handle_stream name task context (rw_responses w) []
            @ (case rw_stream_error w of None \<Rightarrow> [] | Some err \<Rightarrow>
                [failed_status name task context (py ''Failed to send message to remote A2A agent '' @ name @ py '' - '' @ err)]))))"

text \<open>\<open>_promote_response_to_output\<close>: the text to promote.\<close>

definition promotable :: "wf_event \<Rightarrow> bool" where
  "promotable e \<longleftrightarrow> \<not> is_partial_event e
     \<and> (case wv_body e of StatusBody st ps \<Rightarrow> st \<notin> NON_FINAL_TASK_STATES | _ \<Rightarrow> True) \<and> extract_text e False \<noteq> []"

text \<open>\<open>_run_impl\<close>: the yielded events and the context's output.\<close>

fun promote_loop :: "wf_event list \<Rightarrow> pystr option \<Rightarrow> wf_event list \<times> pystr option" where
  "promote_loop [] out = ([], out)"
| "promote_loop (e # es) out = (if out = None \<and> promotable e
     then (let p = promote_loop es (Some (extract_text e False)) in (set_output (JStr (extract_text e False)) e # fst p, snd p))
     else (let p = promote_loop es out in (e # fst p, snd p)))"

section \<open>The task of a plan node\<close>

primrec state_name :: "wf_task_state \<Rightarrow> pystr" where
  "state_name WT_UNSPECIFIED = py ''TASK_STATE_UNSPECIFIED''"
| "state_name WT_SUBMITTED = py ''TASK_STATE_SUBMITTED''"
| "state_name WT_WORKING = py ''TASK_STATE_WORKING''"
| "state_name WT_COMPLETED = py ''TASK_STATE_COMPLETED''"
| "state_name WT_FAILED = py ''TASK_STATE_FAILED''"
| "state_name WT_CANCELED = py ''TASK_STATE_CANCELED''"
| "state_name WT_INPUT_REQUIRED = py ''TASK_STATE_INPUT_REQUIRED''"
| "state_name WT_REJECTED = py ''TASK_STATE_REJECTED''"
| "state_name WT_AUTH_REQUIRED = py ''TASK_STATE_AUTH_REQUIRED''"

definition status_state :: "wf_event \<Rightarrow> wf_task_state option" where
  "status_state e = (case wv_body e of StatusBody st ps \<Rightarrow> Some st | _ \<Rightarrow> None)"

text \<open>The loop over the events: \<open>(failure, pause)\<close>.\<close>

definition watch_event :: "wf_event \<Rightarrow> pystr option \<times> pystr option \<Rightarrow> pystr option \<times> pystr option" where
  "watch_event e = (\<lambda>(failure, pause). (case status_state e of
      None \<Rightarrow> (failure, pause)
    | Some st \<Rightarrow> (let txt = extract_text e False in
        if st \<in> FAILURE_TERMINAL_STATES \<and> failure = None
        then (Some (if txt \<noteq> [] then txt else py ''remote task ended in '' @ state_name st), pause)
        else if st \<in> PAUSE_STATES \<and> pause = None
        then (failure, Some (py ''remote task paused in '' @ state_name st @ (if txt = [] then [] else py '': '' @ txt)
               @ py '' (resume not supported in v0)''))
        else (failure, pause))))"

definition user_text_message :: "pystr \<Rightarrow> wf_event" where
  "user_text_message message = user_message [text_part message]"

text \<open>The result: the error text or the output; the events go to the parent's record and to the queue.\<close>

definition run_remote_node :: "json_codec \<Rightarrow> PlanNode \<Rightarrow> pystr \<Rightarrow> pystr \<Rightarrow> pystr \<Rightarrow> remote_world \<Rightarrow> invocation
    \<Rightarrow> exn + (pystr + pystr) \<times> invocation" where
  "run_remote_node codec n message task context w ic =
     ebind (remote_run_async codec (pn_agent_name n) task context [user_text_message message] w) (\<lambda>es.
       let p = promote_loop es None;
           (failure, pause) = fold watch_event (fst p) (None, None)
       in Inr (case (failure, pause) of
            (Some f, _) \<Rightarrow> Inl (py ''remote agent '' @ pn_agent_name n @ py '' failed: '' @ f)
          | (None, Some q) \<Rightarrow> Inl (py ''remote agent '' @ pn_agent_name n @ py '': '' @ q)
          | (None, None) \<Rightarrow> Inr (case snd p of None \<Rightarrow> [] | Some out \<Rightarrow> out),
          ic\<lparr>iv_events := iv_events ic @ filter (\<lambda>e. \<not> is_partial_event e) (fst p), iv_queue := iv_queue ic @ fst p\<rparr>))"

section \<open>No fragment is lost\<close>

definition artifact_id_of :: "wf_event \<Rightarrow> pystr option" where
  "artifact_id_of e = (case wv_body e of ArtifactBody aid app lst ps \<Rightarrow> Some aid | _ \<Rightarrow> None)"

text \<open>The chunks of one artifact among the responses: \<open>(append, last_chunk, parts)\<close>.\<close>

definition chunk_of :: "pystr \<Rightarrow> stream_response \<Rightarrow> (bool \<times> bool \<times> part list) option" where
  "chunk_of aid r = (case r of
      Resp_artifact e \<Rightarrow> (case wv_body e of ArtifactBody i app lst ps \<Rightarrow> if i = aid then Some (app, lst, ps) else None | _ \<Rightarrow> None)
    | _ \<Rightarrow> None)"

definition chunks_of :: "pystr \<Rightarrow> stream_response list \<Rightarrow> (bool \<times> bool \<times> part list) list" where
  "chunks_of aid rs = List.map_filter (chunk_of aid) rs"

text \<open>Only artifact updates speak about the artifact: no snapshot has its id.\<close>

definition only_updates :: "pystr \<Rightarrow> stream_response \<Rightarrow> bool" where
  "only_updates aid r = (case r of
      Resp_artifact e \<Rightarrow> True
    | _ \<Rightarrow> list_all (\<lambda>e. artifact_id_of e \<noteq> Some aid) (fst (response_events r [])))"

definition finals_of :: "pystr \<Rightarrow> wf_event list \<Rightarrow> part list list" where
  "finals_of aid es = map event_content_parts (filter (\<lambda>e. is_final_artifact e \<and> artifact_id_of e = Some aid) es)"

fun chunk_finals :: "part list \<Rightarrow> (bool \<times> bool \<times> part list) list \<Rightarrow> part list list" where
  "chunk_finals buf [] = []"
| "chunk_finals buf ((app, lst, ps) # cs) = (let buf' = (if app then buf @ ps else ps)
     in if lst then buf' # chunk_finals [] cs else chunk_finals buf' cs)"

definition buffered :: "pystr \<Rightarrow> buffers \<Rightarrow> part list" where
  "buffered aid bufs = (case map_of bufs aid of None \<Rightarrow> [] | Some l \<Rightarrow> l)"

lemma stamp_body [simp]: "wv_body (stamp name task context e) = wv_body e"
  by (simp add: stamp_def Let_def set_meta_def)

lemma finals_of_append [simp]: "finals_of aid (xs @ ys) = finals_of aid xs @ finals_of aid ys"
  by (simp add: finals_of_def)

lemma finals_of_stamp [simp]: "finals_of aid (map (stamp name task context) es) = finals_of aid es"
  by (induction es) (auto simp: finals_of_def is_final_artifact_def artifact_id_of_def event_content_parts_def split: event_body.splits)

lemma map_of_delete': "map_of (AList.delete k d) j = (if j = k then None else map_of d j)"
  by (simp add: delete_conv')

text \<open>An update of another artifact, and one of this artifact.\<close>

lemma aggregate_other:
  assumes "wv_body e = ArtifactBody i app lst ps" and "i \<noteq> aid"
  shows "finals_of aid (fst (aggregate_artifact_update e bufs)) = []
     \<and> buffered aid (snd (aggregate_artifact_update e bufs)) = buffered aid bufs"
  using assms
  by (simp add: aggregate_artifact_update_def Let_def finals_of_def artifact_id_of_def buffered_def update_conv' map_of_delete'
      map_of_d_setdefault)

lemma aggregate_own:
  assumes "wv_body e = ArtifactBody aid app lst ps"
  shows "finals_of aid (fst (aggregate_artifact_update e bufs)) = (if lst then [if app then buffered aid bufs @ ps else ps] else [])
     \<and> buffered aid (snd (aggregate_artifact_update e bufs)) = (if lst then [] else if app then buffered aid bufs @ ps else ps)"
  using assms
  by (cases "map_of bufs aid")
     (simp_all add: aggregate_artifact_update_def Let_def finals_of_def artifact_id_of_def buffered_def update_conv' map_of_delete'
      map_of_d_setdefault is_final_artifact_def event_content_parts_def)

lemma response_step:
  assumes "only_updates aid r"
  shows "finals_of aid (fst (response_events r bufs)) @ chunk_finals (buffered aid (snd (response_events r bufs))) cs
     = chunk_finals (buffered aid bufs) (case chunk_of aid r of None \<Rightarrow> cs | Some c \<Rightarrow> c # cs)"
proof (cases r)
  case (Resp_artifact e)
  show ?thesis
  proof (cases "wv_body e")
    case (ArtifactBody i app lst ps)
    then show ?thesis using Resp_artifact aggregate_own [of e aid app lst ps bufs] aggregate_other [of e i app lst ps aid bufs]
      by (cases "i = aid") (simp_all add: response_events_def chunk_of_def Let_def)
  qed (simp_all add: Resp_artifact response_events_def chunk_of_def aggregate_artifact_update_def finals_of_def artifact_id_of_def)
qed (use assms in \<open>auto simp: only_updates_def response_events_def chunk_of_def finals_of_def list_all_iff intro!: filter_False\<close>)

lemma handle_stream_finals:
  "list_all (only_updates aid) rs \<Longrightarrow>
     finals_of aid (handle_stream name task context rs bufs) = chunk_finals (buffered aid bufs) (chunks_of aid rs)"
proof (induction rs arbitrary: bufs)
  case (Cons r rs)
  let ?b = "snd (response_events r bufs)"
  have "finals_of aid (handle_stream name task context (r # rs) bufs)
      = finals_of aid (fst (response_events r bufs)) @ chunk_finals (buffered aid ?b) (chunks_of aid rs)"
    using Cons by (simp add: handle_a2a_response_def Let_def)
  also have "\<dots> = chunk_finals (buffered aid bufs) (chunks_of aid (r # rs))"
    using response_step [of aid r bufs "chunks_of aid rs"] Cons.prems
    by (simp add: chunks_of_def List.map_filter_simps split: option.splits)
  finally show ?case .
qed (simp add: finals_of_def chunks_of_def List.map_filter_simps)

lemma chunk_finals_stream:
  "list_all (\<lambda>(app, lst, ps). app \<and> \<not> lst) cs \<Longrightarrow>
     chunk_finals buf (cs @ [(True, True, ps)]) = [buf @ concat (map (snd \<circ> snd) cs) @ ps]"
  by (induction cs arbitrary: buf) (auto simp: Let_def)

text \<open>C28: A streamed artifact arrives whole: whatever other responses are interleaved with its chunks, the agent yields
  exactly one final event for it, and that event carries the parts of all its chunks in order.\<close>

theorem streamed_artifact_is_whole:
  assumes "list_all (only_updates aid) rs"
    and "chunks_of aid rs = (app, False, first) # middle @ [(True, True, rest)]"
    and "list_all (\<lambda>(app, lst, ps). app \<and> \<not> lst) middle"
  shows "finals_of aid (handle_stream name task context rs []) = [first @ concat (map (snd \<circ> snd) middle) @ rest]"
  using handle_stream_finals [OF assms(1)] assms(2) chunk_finals_stream [OF assms(3), of first rest]
  by (simp add: buffered_def Let_def)

definition chunk_event :: "string \<Rightarrow> bool \<Rightarrow> bool \<Rightarrow> string \<Rightarrow> stream_response" where
  "chunk_event aid app lst s = Resp_artifact \<lparr>wv_task_id = [], wv_context_id = [],
     wv_body = ArtifactBody (py aid) app lst [text_part (py s)], wv_meta = []\<rparr>"

theorem streamed_artifact_is_whole_witness:
  "finals_of (py ''a'') (handle_stream [] [] [] [chunk_event ''a'' False False ''x'', chunk_event ''b'' False False ''z'',
      chunk_event ''a'' True True ''y''] []) = [[text_part (py ''x''), text_part (py ''y'')]]"
  using streamed_artifact_is_whole [of "py ''a''" "[chunk_event ''a'' False False ''x'', chunk_event ''b'' False False ''z'',
      chunk_event ''a'' True True ''y'']" False "[text_part (py ''x'')]" "[]" "[text_part (py ''y'')]"]
  by (simp add: chunk_event_def chunks_of_def chunk_of_def only_updates_def List.map_filter_simps py_def)

section \<open>The result of a remote node\<close>

lemma set_output_body [simp]: "wv_body (set_output v e) = wv_body e"
  by (simp add: set_output_def set_meta_def)

lemma promotable_set_output [simp]: "promotable (set_output v e) = promotable e" "extract_text (set_output v e) b = extract_text e b"
  "status_state (set_output v e) = status_state e" "is_partial_event (set_output v e) = is_partial_event e"
  by (simp_all add: promotable_def extract_text_def event_content_parts_def is_final_artifact_def is_partial_event_def
      status_state_def split: event_body.split)

lemma promote_loop_some: "promote_loop es (Some out) = (es, Some out)"
  by (induction es) (simp_all add: Let_def)

lemma promote_loop_none:
  "snd (promote_loop es None) = map_option (\<lambda>e. extract_text e False) (List.find promotable es)
   \<and> map wv_body (fst (promote_loop es None)) = map wv_body es"
  by (induction es) (auto simp: Let_def promote_loop_some)

lemma body_determines:
  "wv_body e = wv_body e' \<Longrightarrow> promotable e = promotable e' \<and> extract_text e b = extract_text e' b \<and> status_state e = status_state e'"
  by (simp add: promotable_def extract_text_def event_content_parts_def is_final_artifact_def is_partial_event_def
      status_state_def split: event_body.split)

lemma find_by_body:
  "map wv_body es = map wv_body es' \<Longrightarrow> map_option (\<lambda>e. extract_text e False) (List.find promotable es)
     = map_option (\<lambda>e. extract_text e False) (List.find promotable es')"
proof (induction es arbitrary: es')
  case (Cons e es)
  then obtain e' ds where d: "es' = e' # ds" "wv_body e = wv_body e'" "map wv_body es = map wv_body ds" by (cases es') auto
  then show ?case using Cons.IH [OF d(3)] body_determines [OF d(2)] by auto
qed simp

text \<open>Does a status end the node badly?\<close>

definition bad_status :: "wf_event \<Rightarrow> bool" where
  "bad_status e \<longleftrightarrow> (case status_state e of None \<Rightarrow> False | Some st \<Rightarrow> st \<in> FAILURE_TERMINAL_STATES \<union> PAUSE_STATES)"

lemma watch_event_none:
  "fold watch_event es fp = (None, None) \<longleftrightarrow> fp = (None, None) \<and> (\<forall>e \<in> set es. \<not> bad_status e)"
proof (induction es arbitrary: fp)
  case (Cons e es)
  have "watch_event e fp = (None, None) \<longleftrightarrow> fp = (None, None) \<and> \<not> bad_status e"
    by (cases fp; cases "fst fp"; cases "snd fp")
       (auto simp: watch_event_def bad_status_def Let_def split: option.splits)
  then show ?case using Cons by auto
qed simp

lemma run_remote_node_events:
  assumes "run_remote_node codec n message task context w ic = Inr (r, ic')"
  obtains es fp where "remote_run_async codec (pn_agent_name n) task context [user_text_message message] w = Inr es"
    and "iv_queue ic' = iv_queue ic @ fst (promote_loop es None)"
    and "fp = fold watch_event (fst (promote_loop es None)) (None, None)"
    and "isl r \<longleftrightarrow> fp \<noteq> (None, None)"
    and "\<forall>out. r = Inr out \<longrightarrow> out = (case snd (promote_loop es None) of None \<Rightarrow> [] | Some x \<Rightarrow> x)"
proof -
  obtain es where e: "remote_run_async codec (pn_agent_name n) task context [user_text_message message] w = Inr es"
    using assms by (auto simp: run_remote_node_def ebind_eq_Inr)
  define fp where "fp = fold watch_event (fst (promote_loop es None)) (None, None)"
  show ?thesis
    by (rule that [OF e _ fp_def]; cases fp; cases "fst fp"; cases "snd fp")
       (use assms e in \<open>auto simp: run_remote_node_def Let_def simp flip: fp_def\<close>)
qed

text \<open>C22: The task of a node fails exactly when one of the events it forwarded to the client is a status that failed,
  was rejected, was cancelled or asks for input; otherwise its output is the text of the first forwarded event that is
  complete and not provisional.\<close>

theorem remote_node_result:
  assumes "run_remote_node codec n message task context w ic = Inr (r, ic')"
  shows "let es = drop (length (iv_queue ic)) (iv_queue ic') in
     (isl r \<longleftrightarrow> list_ex bad_status es)
     \<and> (case r of Inl err \<Rightarrow> True
        | Inr out \<Rightarrow> out = (case List.find promotable es of None \<Rightarrow> [] | Some e \<Rightarrow> extract_text e False))"
proof -
  obtain es fp where e0: "remote_run_async codec (pn_agent_name n) task context [user_text_message message] w = Inr es"
    and e: "iv_queue ic' = iv_queue ic @ fst (promote_loop es None)"
    "fp = fold watch_event (fst (promote_loop es None)) (None, None)" "isl r \<longleftrightarrow> fp \<noteq> (None, None)"
    "\<forall>out. r = Inr out \<longrightarrow> out = (case snd (promote_loop es None) of None \<Rightarrow> [] | Some x \<Rightarrow> x)"
    by (rule run_remote_node_events [OF assms])
  let ?es = "fst (promote_loop es None)"
  have "isl r \<longleftrightarrow> list_ex bad_status ?es" using watch_event_none [of ?es "(None, None)"] e(2,3) by (auto simp: list_ex_iff)
  moreover have "out = (case List.find promotable ?es of None \<Rightarrow> [] | Some e \<Rightarrow> extract_text e False)" if "r = Inr out" for out
    using e(4) that promote_loop_none [of es] find_by_body [of ?es es] by (auto split: option.splits)
  ultimately show ?thesis using e(1) by (auto simp: Let_def split: sum.splits)
qed

text \<open>A remote task that ended in failure never counts as a success: if the stream contains a snapshot of a task
  that failed, was rejected or was cancelled, the node fails, also when the snapshot carries artifacts with text.\<close>

theorem failed_snapshot_fails_node:
  assumes "run_remote_node codec n message task context w ic = Inr (r, ic')"
    and "rw_resolved w = None" and "message \<noteq> []"
    and "Resp_task t \<in> set (rw_responses w)" and "sn_state t \<in> FAILURE_TERMINAL_STATES"
  shows "isl r"
proof -
  obtain es fp where e: "remote_run_async codec (pn_agent_name n) task context [user_text_message message] w = Inr es"
    "fp = fold watch_event (fst (promote_loop es None)) (None, None)" "isl r \<longleftrightarrow> fp \<noteq> (None, None)"
    by (rule run_remote_node_events [OF assms(1)])
  have snap: "snapshot_status t \<in> set (events_from_task t)" using assms(5)
    by (simp add: events_from_task_def Let_def)
  have "bad_status x" if "wv_body x = wv_body (snapshot_status t)" for x
    using that assms(5) by (simp add: bad_status_def status_state_def snapshot_status_def)
  moreover have "wv_body (snapshot_status t) \<in> wv_body ` set (handle_stream name' task context rs bufs)"
    if "Resp_task t \<in> set rs" for name' rs bufs
    using that
  proof (induction rs arbitrary: bufs)
    case (Cons x rs)
    have "wv_body (snapshot_status t) \<in> wv_body ` set (fst (handle_a2a_response name' task context (Resp_task t) bufs))"
      using imageI [OF snap, of wv_body] by (simp add: handle_a2a_response_def Let_def response_events_def image_image)
    then show ?case using Cons by (auto simp: Let_def image_Un)
  qed simp
  moreover have "\<exists>ys. es = handle_stream (pn_agent_name n) task context (rw_responses w) [] @ ys"
    using e(1) assms(2,3)
    by (auto simp: remote_run_async_def ebind_eq_Inr construct_message_parts_def request_parts_def user_text_message_def
        user_message_def is_remote_response_def is_other_agent_reply_def a2a_task_id_def meta_defs text_part_def py_def
        split: if_splits)
  ultimately have "\<exists>b \<in> set (map wv_body es). \<forall>x. wv_body x = b \<longrightarrow> bad_status x" using assms(4) by fastforce
  then have "\<exists>x \<in> set (fst (promote_loop es None)). bad_status x"
    using promote_loop_none [of es] by (metis (no_types, lifting) image_iff list.set_map)
  then show ?thesis using watch_event_none [of "fst (promote_loop es None)" "(None, None)"] e(2,3) by auto
qed

section \<open>Witnesses\<close>

definition demo_codec :: json_codec where
  "demo_codec = \<lparr>jc_str = (\<lambda>_. []), jc_dumps = (\<lambda>_. [])\<rparr>"

definition demo_plan_node :: PlanNode where
  "demo_plan_node = \<lparr>pn_id = py ''n'', pn_name = py ''n'', pn_agent_name = py ''writer'', pn_instruction = py ''go'',
     pn_deps = [], pn_assist_for = None\<rparr>"

definition failed_task :: task_snapshot where
  "failed_task = \<lparr>sn_id = py ''t'', sn_context_id = [], sn_state = WT_FAILED, sn_status_parts = [],
     sn_artifacts = [[text_part (py ''looks fine'')]], sn_history = []\<rparr>"

definition demo_world :: "stream_response list \<Rightarrow> remote_world" where
  "demo_world rs = \<lparr>rw_resolved = None, rw_responses = rs, rw_stream_error = None\<rparr>"

lemma demo_runs:
  "\<exists>r ic. run_remote_node demo_codec demo_plan_node (py ''go'') [] [] (demo_world rs) \<lparr>iv_events = [], iv_queue = []\<rparr> = Inr (r, ic)"
  by (auto simp: run_remote_node_def remote_run_async_def demo_world_def construct_message_parts_def request_parts_def
      user_text_message_def user_message_def is_remote_response_def is_other_agent_reply_def a2a_task_id_def meta_defs
      demo_plan_node_def py_def Let_def split: prod.splits)

theorem remote_node_result_witness:
  "\<exists>r ic. run_remote_node demo_codec demo_plan_node (py ''go'') [] [] (demo_world [chunk_event ''a'' False True ''done''])
       \<lparr>iv_events = [], iv_queue = []\<rparr> = Inr (r, ic) \<and> isl r = list_ex bad_status (iv_queue ic)"
proof -
  obtain r ic where r: "run_remote_node demo_codec demo_plan_node (py ''go'') [] [] (demo_world [chunk_event ''a'' False True ''done''])
       \<lparr>iv_events = [], iv_queue = []\<rparr> = Inr (r, ic)" using demo_runs by blast
  show ?thesis using remote_node_result [OF r] r by (auto simp: Let_def)
qed

theorem failed_snapshot_fails_node_witness:
  "\<exists>err ic. run_remote_node demo_codec demo_plan_node (py ''go'') [] [] (demo_world [Resp_task failed_task])
       \<lparr>iv_events = [], iv_queue = []\<rparr> = Inr (Inl err, ic)"
proof -
  obtain r ic where r: "run_remote_node demo_codec demo_plan_node (py ''go'') [] [] (demo_world [Resp_task failed_task])
       \<lparr>iv_events = [], iv_queue = []\<rparr> = Inr (r, ic)" using demo_runs by blast
  have "isl r" by (rule failed_snapshot_fails_node [OF r, where t = failed_task])
     (simp_all add: demo_world_def failed_task_def FAILURE_TERMINAL_STATES_def py_def)
  then show ?thesis using r by (cases r) auto
qed

end
