(* ===== verification/Llm_Node.thy ===== *)
theory Llm_Node
  imports Contents
begin

text \<open>
  The language model agent of \<open>new_choirworks\<close> (\<open>core/agents/llm_agent.py\<close>): the stream of one model call as artifact
  events (\<open>to_a2a_artifact\<close> of \<open>core/events/event.py\<close>), tool calls and retries, and its run as a workflow node
  (\<open>core/workflow/llm_agent_wrapper.py\<close>).  The model is a function
  from the request's messages to the responses it streams; fresh artifact ids are a function of the call's number and a
  counter; the output schema is a validation function.
\<close>

section \<open>Responses\<close>

record FunctionCall =
  fc_id :: pystr
  fc_name :: pystr
  fc_args :: json

record LLMResponsePart =
  lp_text :: "pystr option"
  lp_thought :: bool
  lp_call :: "FunctionCall option"
  lp_response :: "(pystr \<times> pystr \<times> json) option"

text \<open>\<open>lr_parts\<close> is \<open>None\<close> for a response without content.\<close>

record LLMResponse =
  lr_parts :: "LLMResponsePart list option"
  lr_error_code :: "pystr option"
  lr_error_message :: "pystr option"

definition call_data :: "FunctionCall \<Rightarrow> json" where
  "call_data fc = JObj [(py ''id'', JStr (fc_id fc)), (py ''name'', JStr (fc_name fc)), (py ''args'', fc_args fc)]"

definition response_data :: "pystr \<times> pystr \<times> json \<Rightarrow> json" where
  "response_data = (\<lambda>(i, n, r). JObj [(py ''id'', JStr i), (py ''name'', JStr n), (py ''response'', r)])"

definition typed_part :: "string \<Rightarrow> json \<Rightarrow> part" where
  "typed_part t d = \<lparr>pt_text = [], pt_metadata = [(py ''type'', JStr (py t))], pt_data = d\<rparr>"

definition part_to_a2a :: "LLMResponsePart \<Rightarrow> part list" where
  "part_to_a2a p =
     (case lp_text p of None \<Rightarrow> [] | Some t \<Rightarrow>
        [\<lparr>pt_text = t, pt_metadata = (if lp_thought p then [(py ''thought'', JBool True)] else []), pt_data = JNull\<rparr>])
     @ (case lp_call p of None \<Rightarrow> [] | Some fc \<Rightarrow> [typed_part ''function_call'' (call_data fc)])
     @ (case lp_response p of None \<Rightarrow> [] | Some fr \<Rightarrow> [typed_part ''function_response'' (response_data fr)])"

text \<open>The ids of the invocation.\<close>

record turn_ids =
  ti_task :: pystr
  ti_context :: pystr

definition to_a2a_artifact :: "turn_ids \<Rightarrow> LLMResponsePart list \<Rightarrow> pystr \<Rightarrow> bool \<Rightarrow> bool \<Rightarrow> wf_event" where
  "to_a2a_artifact t ps artifact_id app lst = \<lparr>wv_task_id = ti_task t, wv_context_id = ti_context t,
     wv_body = ArtifactBody artifact_id app lst (concat (map part_to_a2a ps)), wv_meta = []\<rparr>"

text \<open>\<open>to_a2a_message\<close>: a part without text becomes an empty one.\<close>

definition to_a2a_message :: "LLMResponse \<Rightarrow> wf_event" where
  "to_a2a_message r = \<lparr>wv_task_id = [], wv_context_id = [], wv_body = MessageBody ROLE_AGENT (case lr_parts r of
      None \<Rightarrow> [] | Some ps \<Rightarrow> map (\<lambda>p. text_part (case lp_text p of None \<Rightarrow> [] | Some s \<Rightarrow> s)) ps), wv_meta = []\<rparr>"

text \<open>\<open>to_chat_message\<close>: thoughts are left out, a tool response wins over everything else.\<close>

definition to_chat_message :: "json_codec \<Rightarrow> LLMResponse \<Rightarrow> wf_chat option" where
  "to_chat_message codec r = (case lr_parts r of
      None \<Rightarrow> None
    | Some ps \<Rightarrow>
       (let s = concat (map (\<lambda>p. case lp_text p of Some s \<Rightarrow> if lp_thought p then [] else s | None \<Rightarrow> []) ps);
            calls = List.map_filter lp_call ps; responses = List.map_filter lp_response ps
        in case responses of
            (i, n, v) # _ \<Rightarrow> Some (Chat_tool (jc_dumps codec v) (JStr i))
          | [] \<Rightarrow> (if s \<noteq> [] \<or> calls \<noteq> []
              then Some (Chat_assistant (if s = [] then None else Some s)
                (map (\<lambda>fc. (JStr (fc_id fc), JStr (fc_name fc), jc_dumps codec (fc_args fc))) calls))
              else None)))"

section \<open>One model call\<close>

record call_state =
  cs_thoughts :: "pystr list"
  cs_texts :: "pystr list"
  cs_calls :: "FunctionCall list"
  cs_error :: pystr

definition empty_call :: call_state where
  "empty_call = \<lparr>cs_thoughts = [], cs_texts = [], cs_calls = [], cs_error = []\<rparr>"

definition take_part :: "LLMResponsePart \<Rightarrow> call_state \<Rightarrow> call_state" where
  "take_part p st =
     (let st1 = (case lp_text p of None \<Rightarrow> st | Some t \<Rightarrow>
            if lp_thought p then st\<lparr>cs_thoughts := cs_thoughts st @ [t]\<rparr> else st\<lparr>cs_texts := cs_texts st @ [t]\<rparr>)
      in case lp_call p of None \<Rightarrow> st1 | Some fc \<Rightarrow> st1\<lparr>cs_calls := cs_calls st1 @ [fc]\<rparr>)"

definition stream_response_step :: "turn_ids \<Rightarrow> pystr \<Rightarrow> LLMResponse \<Rightarrow> wf_event list \<times> call_state \<Rightarrow> wf_event list \<times> call_state" where
  "stream_response_step t artifact_id r = (\<lambda>(es, st). (case lr_parts r of
      None \<Rightarrow> (es, st)
    | Some ps \<Rightarrow> (let st1 = fold take_part ps st
        in (es @ [to_a2a_artifact t ps artifact_id (cs_thoughts st \<noteq> [] \<or> cs_texts st \<noteq> []) False],
            if lr_error_code r \<noteq> None \<and> lr_error_code r \<noteq> Some []
            then st1\<lparr>cs_error := (case lr_error_message r of None \<Rightarrow> [] | Some m \<Rightarrow> m)\<rparr> else st1))))"

definition stream_call :: "turn_ids \<Rightarrow> pystr \<Rightarrow> LLMResponse list \<Rightarrow> wf_event list \<times> call_state" where
  "stream_call t artifact_id rs = fold (stream_response_step t artifact_id) rs ([], empty_call)"

definition text_response_part :: "bool \<Rightarrow> pystr \<Rightarrow> LLMResponsePart" where
  "text_response_part thought s = \<lparr>lp_text = Some s, lp_thought = thought, lp_call = None, lp_response = None\<rparr>"

definition call_response_part :: "FunctionCall \<Rightarrow> LLMResponsePart" where
  "call_response_part fc = \<lparr>lp_text = None, lp_thought = False, lp_call = Some fc, lp_response = None\<rparr>"

text \<open>\<open>close\<close>: the parts of the final response, none when there is none.\<close>

definition close_call :: "call_state \<Rightarrow> LLMResponsePart list" where
  "close_call st = (if cs_thoughts st = [] then [] else [text_response_part True (concat (cs_thoughts st))])
     @ (if cs_texts st = [] then [] else [text_response_part False (concat (cs_texts st))])
     @ map call_response_part (cs_calls st)"

text \<open>\<open>LLMResponse.from_function_response\<close> as an artifact of its own.\<close>

definition tool_event :: "turn_ids \<Rightarrow> pystr \<Rightarrow> FunctionCall \<Rightarrow> json \<Rightarrow> wf_event" where
  "tool_event t artifact_id fc r = to_a2a_artifact t
     [\<lparr>lp_text = None, lp_thought = False, lp_call = None, lp_response = Some (fc_id fc, fc_name fc, r)\<rparr>] artifact_id False True"

section \<open>The agent\<close>

record llm_agent =
  la_name :: pystr
  la_tools :: "(pystr, json \<Rightarrow> exn + json) dict"
  la_max_retries :: int
  la_schema :: "(pystr \<Rightarrow> exn + json) option"

text \<open>\<open>fc.args or {}\<close>\<close>

definition tool_args :: "FunctionCall \<Rightarrow> json" where
  "tool_args fc = (if py_bool (fc_args fc) then fc_args fc else JObj [])"

text \<open>\<open>_execute_tools\<close>: the events up to the first exception, and that exception.\<close>

fun execute_tools :: "llm_agent \<Rightarrow> turn_ids \<Rightarrow> (nat \<Rightarrow> pystr) \<Rightarrow> nat \<Rightarrow> FunctionCall list \<Rightarrow> wf_event list \<times> exn option" where
  "execute_tools a t uid i [] = ([], None)"
| "execute_tools a t uid i (fc # fcs) = (case map_of (la_tools a) (fc_name fc) of
      None \<Rightarrow> ([], Some (KeyError (fc_name fc)))
    | Some tool \<Rightarrow> (case tool (tool_args fc) of
        Inl e \<Rightarrow> ([], Some e)
      | Inr v \<Rightarrow> (let r = (case v of JObj d \<Rightarrow> v | _ \<Rightarrow> JObj [(py ''result'', v)]);
                     p = execute_tools a t uid (Suc i) fcs
          in (tool_event t (uid i) fc r # fst p, snd p))))"

text \<open>How a call ends: the loop stops, the next call follows with \<open>retry_count\<close>, or an exception leaves the agent.\<close>

datatype call_end = Stop | Again int | Raise exn

definition schema_check :: "llm_agent \<Rightarrow> call_state \<Rightarrow> exn option" where
  "schema_check a st = (if cs_calls st \<noteq> [] then None else case la_schema a of
      None \<Rightarrow> None
    | Some validate \<Rightarrow> (case validate (concat (cs_texts st)) of Inl e \<Rightarrow> Some e | Inr v \<Rightarrow> None))"

definition model_call :: "llm_agent \<Rightarrow> turn_ids \<Rightarrow> (nat \<Rightarrow> pystr) \<Rightarrow> int \<Rightarrow> LLMResponse list \<Rightarrow> wf_event list \<times> call_end" where
  "model_call a t uid retry_count rs =
     (let (es, st) = stream_call t (uid 0) rs in
      case schema_check a st of
        Some e \<Rightarrow> (es, Raise e)
      | None \<Rightarrow>
         (let es1 = es @ (if close_call st = [] then [] else [to_a2a_artifact t (close_call st) (uid 0) False True]) in
          if cs_calls st = [] then (es1, Stop)
          else if cs_error st \<noteq> [] then
            (es1 @ map (\<lambda>(i, fc). tool_event t (uid i) fc (JObj [(py ''error'', JStr (cs_error st))])) (enumerate 1 (cs_calls st)),
             if retry_count + 1 \<ge> la_max_retries a then Stop else Again (retry_count + 1))
          else (case execute_tools a t uid 1 (cs_calls st) of
              (es2, None) \<Rightarrow> (es1 @ es2, Again retry_count)
            | (es2, Some e) \<Rightarrow> (es1 @ es2, Raise e))))"

text \<open>\<open>while True\<close>, with the number of calls the loop may make: \<open>None\<close> when it has not ended by then.  The caller
  records every complete event before the loop goes on.\<close>

type_synonym language_model = "nat \<Rightarrow> wf_chat list \<Rightarrow> LLMResponse list"

fun llm_loop :: "json_codec \<Rightarrow> llm_agent \<Rightarrow> turn_ids \<Rightarrow> language_model \<Rightarrow> (nat \<Rightarrow> nat \<Rightarrow> pystr) \<Rightarrow> nat \<Rightarrow> nat \<Rightarrow> int
    \<Rightarrow> wf_event list \<Rightarrow> (wf_event list \<times> exn option) option" where
  "llm_loop codec a t llm uid 0 i retry_count history = None"
| "llm_loop codec a t llm uid (Suc calls) i retry_count history = (case get_contents codec (la_name a) None None None history of
      Inl e \<Rightarrow> Some ([], Some e)
    | Inr messages \<Rightarrow> (case model_call a t (uid i) retry_count (llm i messages) of
        (es, Stop) \<Rightarrow> Some (es, None)
      | (es, Raise e) \<Rightarrow> Some (es, Some e)
      | (es, Again rc) \<Rightarrow> map_option (\<lambda>(es', e). (es @ es', e))
          (llm_loop codec a t llm uid calls (Suc i) rc (history @ filter (\<lambda>e. \<not> is_partial_event e) es))))"

section \<open>The agent as a workflow node\<close>

text \<open>\<open>include_contents\<close> decides what of the parent's record the agent starts from; the node's input is its user message.\<close>

definition node_history :: "bool \<Rightarrow> wf_event list \<Rightarrow> pystr option \<Rightarrow> wf_event list" where
  "node_history include_contents es node_input = (if include_contents then es else [])
     @ (case node_input of None \<Rightarrow> [] | Some s \<Rightarrow> [user_message [text_part s]])"

text \<open>\<open>process_llm_agent_output\<close>: the context's output and the event with its output entry.  A validation error raises.\<close>

definition process_output :: "(pystr \<Rightarrow> exn + json) option \<Rightarrow> wf_event \<Rightarrow> json \<Rightarrow> exn + wf_event \<times> json" where
  "process_output schema e out =
     (if \<not> is_final_artifact e \<or> has_function_calls e then Inr (e, out)
      else let txt = extract_text e False in
        ebind (case schema of
            None \<Rightarrow> Inr (JStr txt)
          | Some validate \<Rightarrow> if str_strip txt = [] then Inr JNull else validate txt) (\<lambda>v.
          Inr (if txt = [] then e else set_output (JStr txt) e, v)))"

fun process_events :: "(pystr \<Rightarrow> exn + json) option \<Rightarrow> wf_event list \<Rightarrow> json \<Rightarrow> exn + wf_event list \<times> json" where
  "process_events schema [] out = Inr ([], out)"
| "process_events schema (e # es) out = ebind (process_output schema e out) (\<lambda>(e', out').
     ebind (process_events schema es out') (\<lambda>(es', v). Inr (e' # es', v)))"

section \<open>Every call is answered\<close>

text \<open>The ids in the parts of one type in the complete artifacts of a run.\<close>

definition data_id :: "part \<Rightarrow> json" where
  "data_id p = (case pt_data p of JObj d \<Rightarrow> field_of d ''id'' JNull | _ \<Rightarrow> JNull)"

definition ids_of :: "(part \<Rightarrow> bool) \<Rightarrow> wf_event list \<Rightarrow> json list" where
  "ids_of P es = map data_id (filter P (concat (map event_content_parts (filter is_final_artifact es))))"

abbreviation called_ids :: "wf_event list \<Rightarrow> json list" where "called_ids \<equiv> ids_of is_function_call_part"
abbreviation answered_ids :: "wf_event list \<Rightarrow> json list" where "answered_ids \<equiv> ids_of is_function_response_part"

lemma ids_of_append [simp]: "ids_of P (xs @ ys) = ids_of P xs @ ids_of P ys"
  by (simp add: ids_of_def)

lemma ids_of_Nil [simp]: "ids_of P [] = []"
  by (simp add: ids_of_def)

lemmas part_kinds = is_function_call_part_def is_function_response_part_def part_type_is_def typed_part_def

lemma ids_of_chunk: "ids_of P [to_a2a_artifact t ps i app False] = []"
  by (simp add: ids_of_def to_a2a_artifact_def is_final_artifact_def)

lemma ids_of_final: "ids_of P [to_a2a_artifact t ps i False True] = map data_id (filter P (concat (map part_to_a2a ps)))"
  by (simp add: ids_of_def to_a2a_artifact_def is_final_artifact_def event_content_parts_def)

lemma stream_call_ids: "ids_of P (fst (stream_call t i rs)) = []"
proof -
  have "ids_of P (fst (fold (stream_response_step t i) rs x)) = ids_of P (fst x)" for x
  proof (induction rs arbitrary: x)
    case (Cons r rs)
    obtain es st where x: "x = (es, st)" by (cases x)
    have "ids_of P (fst (stream_response_step t i r x)) = ids_of P es"
      by (simp add: x stream_response_step_def Let_def ids_of_chunk split: option.split)
    then show ?case using Cons x by simp
  qed simp
  then show ?thesis by (simp add: stream_call_def)
qed

lemma call_part_kinds:
  "is_function_call_part (typed_part ''function_call'' d)" "\<not> is_function_response_part (typed_part ''function_call'' d)"
  "is_function_response_part (typed_part ''function_response'' d)" "\<not> is_function_call_part (typed_part ''function_response'' d)"
  by (simp_all add: part_kinds py_def)

lemma data_ids: "data_id (typed_part s (call_data fc)) = JStr (fc_id fc)"
  "data_id (typed_part s (response_data (fc_id fc, n, r))) = JStr (fc_id fc)"
  by (simp_all add: data_id_def typed_part_def call_data_def response_data_def field_of_def)

lemma close_call_ids:
  "map data_id (filter is_function_call_part (concat (map part_to_a2a (close_call st)))) = map (JStr \<circ> fc_id) (cs_calls st)"
  "filter is_function_response_part (concat (map part_to_a2a (close_call st))) = []"
proof -
  have tp: "filter is_function_call_part (part_to_a2a (text_response_part b s)) = []"
    "filter is_function_response_part (part_to_a2a (text_response_part b s)) = []" for b s
    by (simp_all add: part_to_a2a_def text_response_part_def part_kinds py_def)
  have calls: "part_to_a2a (call_response_part fc) = [typed_part ''function_call'' (call_data fc)]" for fc
    by (simp add: part_to_a2a_def call_response_part_def)
  have "map data_id (filter is_function_call_part (concat (map part_to_a2a (map call_response_part fcs)))) = map (JStr \<circ> fc_id) fcs"
    "filter is_function_response_part (concat (map part_to_a2a (map call_response_part fcs))) = []" for fcs
    by (induction fcs) (simp_all add: calls call_part_kinds data_ids)
  then show "map data_id (filter is_function_call_part (concat (map part_to_a2a (close_call st)))) = map (JStr \<circ> fc_id) (cs_calls st)"
    "filter is_function_response_part (concat (map part_to_a2a (close_call st))) = []"
    by (simp_all add: close_call_def tp)
qed

lemma tool_event_ids:
  "called_ids (tool_event t i fc r # es) = called_ids es"
  "answered_ids (tool_event t i fc r # es) = JStr (fc_id fc) # answered_ids es"
  using ids_of_append [of _ "[tool_event t i fc r]" es]
  by (simp_all add: tool_event_def ids_of_final part_to_a2a_def call_part_kinds data_ids)

lemma error_events_ids:
  "called_ids (map (\<lambda>(i, fc). tool_event t (uid i) fc (f fc)) (enumerate k fcs)) = []"
  "answered_ids (map (\<lambda>(i, fc). tool_event t (uid i) fc (f fc)) (enumerate k fcs)) = map (JStr \<circ> fc_id) fcs"
  by (induction fcs arbitrary: k) (simp_all add: tool_event_ids)

lemma execute_tools_ids:
  "called_ids (fst (execute_tools a t uid k fcs)) = []"
  "snd (execute_tools a t uid k fcs) = None \<Longrightarrow> answered_ids (fst (execute_tools a t uid k fcs)) = map (JStr \<circ> fc_id) fcs"
  by (induction fcs arbitrary: k) (auto simp: tool_event_ids Let_def split: option.splits sum.splits)

lemma model_call_answers:
  assumes "model_call a t uid rc rs = (es, fin)" and "\<And>e. fin \<noteq> Raise e"
  shows "answered_ids es = called_ids es"
proof -
  obtain ch st where s: "stream_call t (uid 0) rs = (ch, st)" by (cases "stream_call t (uid 0) rs")
  have ch: "ids_of P ch = []" for P using stream_call_ids [of P t "uid 0" rs] s by simp
  have ok: "schema_check a st = None" using assms s by (auto simp: model_call_def split: option.splits)
  define cl where "cl = (if close_call st = [] then [] else [to_a2a_artifact t (close_call st) (uid 0) False True])"
  have cl: "called_ids cl = map (JStr \<circ> fc_id) (cs_calls st)" "answered_ids cl = []"
    using close_call_ids [of st] by (auto simp: cl_def ids_of_final close_call_def)
  show ?thesis
    using assms s ok ch cl execute_tools_ids [of a t uid 1 "cs_calls st"]
      error_events_ids [of t uid "\<lambda>fc. JObj [(py ''error'', JStr (cs_error st))]" 1 "cs_calls st"]
    by (auto simp: model_call_def Let_def simp flip: cl_def split: if_splits prod.splits option.splits)
qed

text \<open>C32: When a run of the agent ends without an exception, every tool call of the model has been answered, each once
  and in the order of the calls, also when the model reported an error or the retries ran out.\<close>

theorem every_call_answered:
  assumes "llm_loop codec a t llm uid calls i retry_count history = Some (es, None)"
  shows "answered_ids es = called_ids es"
  using assms
proof (induction codec a t llm uid calls i retry_count history arbitrary: es rule: llm_loop.induct)
  case (2 codec a t llm uid calls i retry_count history)
  then obtain messages where m: "get_contents codec (la_name a) None None None history = Inr messages"
    by (auto split: sum.splits)
  obtain es1 fin where f: "model_call a t (uid i) retry_count (llm i messages) = (es1, fin)"
    by (cases "model_call a t (uid i) retry_count (llm i messages)")
  show ?case
  proof (cases fin)
    case Stop
    then show ?thesis using 2(2) m f model_call_answers [OF f] by simp
  next
    case (Again rc)
    then obtain es2 where e: "es = es1 @ es2"
      "llm_loop codec a t llm uid calls (Suc i) rc (history @ filter (\<lambda>e. \<not> is_partial_event e) es1) = Some (es2, None)"
      using 2(2) m f by auto
    have "answered_ids es2 = called_ids es2" using 2(1) [OF m f [symmetric] Again e(2)] .
    then show ?thesis using e(1) model_call_answers [OF f] Again by simp
  qed (use 2(2) m f in simp)
qed simp

section \<open>The loop ends\<close>

definition wants_tools :: "turn_ids \<Rightarrow> pystr \<Rightarrow> LLMResponse list \<Rightarrow> bool" where
  "wants_tools t i rs \<longleftrightarrow> cs_calls (snd (stream_call t i rs)) \<noteq> [] \<and> cs_error (snd (stream_call t i rs)) = []"

lemma model_call_again:
  assumes "model_call a t uid rc rs = (es, Again rc')"
  shows "wants_tools t (uid 0) rs \<and> rc' = rc \<or> \<not> wants_tools t (uid 0) rs \<and> rc' = rc + 1 \<and> rc' < la_max_retries a"
  using assms by (auto simp: model_call_def wants_tools_def Let_def split: prod.splits option.splits if_splits)

lemma llm_loop_ends_from:
  assumes "\<And>j ms. j \<ge> n \<Longrightarrow> \<not> wants_tools t (uid j 0) (llm j ms)" and "calls > (n - i) + nat (la_max_retries a - 1 - rc)"
  shows "llm_loop codec a t llm uid calls i rc history \<noteq> None"
  using assms(2)
proof (induction calls arbitrary: i rc history)
  case (Suc calls)
  show ?case
  proof (cases "get_contents codec (la_name a) None None None history")
    case (Inr messages)
    obtain es fin where f: "model_call a t (uid i) rc (llm i messages) = (es, fin)"
      by (cases "model_call a t (uid i) rc (llm i messages)")
    show ?thesis
    proof (cases fin)
      case (Again rc')
      have "calls > (n - Suc i) + nat (la_max_retries a - 1 - rc')"
        using model_call_again [of a t "uid i" rc "llm i messages" es rc'] f Again assms(1) [of i messages] Suc.prems
        by (cases "i \<ge> n") auto
      then have "llm_loop codec a t llm uid calls (Suc i) rc' h \<noteq> None" for h by (rule Suc.IH)
      then show ?thesis using Inr f Again by auto
    qed (use Inr f in auto)
  qed simp
qed simp

text \<open>C33: The tool loop ends: if from its \<open>n\<close>-th call on the model either calls no tool or reports errors, the agent
  makes at most \<open>n\<close> plus the number of retries (at least one) model calls.\<close>

theorem llm_loop_ends:
  assumes "\<And>j messages. j \<ge> n \<Longrightarrow> \<not> wants_tools t (uid j 0) (llm j messages)"
  shows "llm_loop codec a t llm uid (n + nat (max 1 (la_max_retries a))) 0 0 history \<noteq> None"
  by (rule llm_loop_ends_from [where n = n]) (use assms in auto)

section \<open>Example: one tool call, then an answer\<close>

definition demo_tool_agent :: llm_agent where
  "demo_tool_agent = \<lparr>la_name = py ''me'', la_tools = [(py ''look'', \<lambda>args. Inr (JStr (py ''found'')))], la_max_retries = 3, la_schema = None\<rparr>"

definition demo_call :: FunctionCall where
  "demo_call = \<lparr>fc_id = py ''c1'', fc_name = py ''look'', fc_args = JObj []\<rparr>"

definition demo_llm :: language_model where
  "demo_llm i messages = [\<lparr>lr_parts = Some [if i = 0 then call_response_part demo_call else text_response_part False (py ''ok'')],
     lr_error_code = None, lr_error_message = None\<rparr>]"

definition demo_run :: "(wf_event list \<times> exn option) option" where
  "demo_run = llm_loop \<lparr>jc_str = (\<lambda>_. []), jc_dumps = (\<lambda>_. [])\<rparr> demo_tool_agent \<lparr>ti_task = [], ti_context = []\<rparr> demo_llm
     (\<lambda>i j. [i, j]) 2 0 0 []"

lemma demo_run_ends: "case demo_run of Some (es, None) \<Rightarrow> length (called_ids es) = 1 | _ \<Rightarrow> False"
  by code_simp

theorem every_call_answered_witness:
  "\<exists>es. demo_run = Some (es, None) \<and> length (called_ids es) = 1 \<and> answered_ids es = called_ids es"
proof -
  obtain es where es: "demo_run = Some (es, None)" "length (called_ids es) = 1"
    using demo_run_ends by (auto split: option.splits)
  show ?thesis using every_call_answered [OF es(1) [unfolded demo_run_def]] es by blast
qed

theorem llm_loop_ends_witness:
  "llm_loop \<lparr>jc_str = (\<lambda>_. []), jc_dumps = (\<lambda>_. [])\<rparr> demo_tool_agent \<lparr>ti_task = [], ti_context = []\<rparr> demo_llm
     (\<lambda>i j. [i, j]) (1 + nat (max 1 3)) 0 0 [] \<noteq> None"
proof -
  have m: "la_max_retries demo_tool_agent = 3" by (simp add: demo_tool_agent_def)
  have h: "\<not> wants_tools \<lparr>ti_task = [], ti_context = []\<rparr> [j, 0] (demo_llm j messages)" if "j \<ge> 1" for j messages
    using that by (simp add: wants_tools_def demo_llm_def stream_call_def stream_response_step_def take_part_def
        text_response_part_def empty_call_def)
  show ?thesis by (rule llm_loop_ends [where n = 1 and a = demo_tool_agent, unfolded m]) (rule h)
qed

end
