(* ===== verification/Sessions.thy ===== *)
theory Sessions
  imports Contents
begin

text \<open>
  Sessions of \<open>new_choirworks\<close> (\<open>core/sessions/base_session_service.py\<close>, \<open>task_store_session_service.py\<close>): the event
  log and folded state of a conversation, kept while it runs and rebuilt from the artifacts of the stored tasks.  What
  a live session recorded is what a rebuilt one contains.
\<close>

section \<open>Definitions\<close>

record wf_session =
  se_id :: pystr
  se_events :: "wf_event list"
  se_state :: "(pystr, json) dict"

definition new_session :: "pystr \<Rightarrow> wf_session" where
  "new_session i = \<lparr>se_id = i, se_events = [], se_state = []\<rparr>"

text \<open>\<open>actions.state_delta\<close>\<close>

definition meta_state_delta :: "wf_event \<Rightarrow> (pystr, json) dict" where
  "meta_state_delta e = (case map_of (wv_meta e) (py ''actions.state_delta'') of Some (JObj d) \<Rightarrow> d | _ \<Rightarrow> [])"

definition set_state_delta :: "(pystr, json) dict \<Rightarrow> wf_event \<Rightarrow> wf_event" where
  "set_state_delta d = set_meta ''actions.state_delta'' (JObj d)"

definition update_session_state :: "wf_event \<Rightarrow> wf_session \<Rightarrow> wf_session" where
  "update_session_state e s = s\<lparr>se_state := fold (\<lambda>(k, v). AList.update k v) (meta_state_delta e) (se_state s)\<rparr>"

definition commit_event :: "wf_event \<Rightarrow> wf_session \<Rightarrow> wf_session" where
  "commit_event e s = (let s1 = update_session_state e s in s1\<lparr>se_events := se_events s1 @ [e]\<rparr>)"

definition append_event :: "wf_event \<Rightarrow> wf_session \<Rightarrow> wf_session" where
  "append_event e s = (if is_partial_event e then s else commit_event e s)"

text \<open>What the store keeps of a task.\<close>

record stored_artifact =
  sa_id :: pystr
  sa_parts :: "part list"
  sa_meta :: "(pystr, json) dict"

record stored_task =
  st_id :: pystr
  st_context :: pystr
  st_artifacts :: "stored_artifact list"

definition event_from_artifact :: "stored_task \<Rightarrow> stored_artifact \<Rightarrow> wf_event" where
  "event_from_artifact t a =
     (let e = \<lparr>wv_task_id = st_id t, wv_context_id = st_context t, wv_body = ArtifactBody (sa_id a) False True (sa_parts a),
               wv_meta = sa_meta a\<rparr>
      in if meta_author e = py ''user'' then e\<lparr>wv_body := MessageBody ROLE_USER (sa_parts a)\<rparr> else e)"

text \<open>The pages of the store, newest task first.\<close>

definition list_tasks :: "stored_task list list \<Rightarrow> stored_task list" where
  "list_tasks pages = rev (concat pages)"

definition get_session :: "pystr \<Rightarrow> stored_task list list \<Rightarrow> wf_session option" where
  "get_session i pages = (let tasks = list_tasks pages in
     if tasks = [] then None
     else Some (fold (\<lambda>t s. fold (\<lambda>a. commit_event (event_from_artifact t a)) (st_artifacts t) s) tasks (new_session i)))"

section \<open>The rebuilt session is the live one\<close>

text \<open>The conversation as it was stored: each task with the complete events it recorded, oldest first.  An event is
  stored as an artifact; a user message is marked by its author.\<close>

definition artifact_of :: "wf_event \<Rightarrow> stored_artifact" where
  "artifact_of e = (case wv_body e of
      ArtifactBody aid app lst ps \<Rightarrow> \<lparr>sa_id = aid, sa_parts = ps, sa_meta = wv_meta e\<rparr>
    | MessageBody role ps \<Rightarrow> \<lparr>sa_id = [], sa_parts = ps, sa_meta = wv_meta e\<rparr>
    | StatusBody st ps \<Rightarrow> \<lparr>sa_id = [], sa_parts = ps, sa_meta = wv_meta e\<rparr>)"

definition storable :: "pystr \<Rightarrow> pystr \<Rightarrow> wf_event \<Rightarrow> bool" where
  "storable task context e \<longleftrightarrow> wv_task_id e = task \<and> wv_context_id e = context
     \<and> (if meta_author e = py ''user'' then (case wv_body e of MessageBody role ps \<Rightarrow> role = ROLE_USER | _ \<Rightarrow> False)
        else is_final_artifact e)"

definition store_task :: "pystr \<times> pystr \<times> wf_event list \<Rightarrow> stored_task" where
  "store_task = (\<lambda>(i, c, es). \<lparr>st_id = i, st_context = c, st_artifacts = map artifact_of es\<rparr>)"

lemma event_from_artifact_of:
  assumes "storable i c e"
  shows "event_from_artifact (store_task (i, c, es)) (artifact_of e) = e"
proof -
  obtain task cx body m where e: "e = \<lparr>wv_task_id = task, wv_context_id = cx, wv_body = body, wv_meta = m\<rparr>" by (cases e)
  have "meta_author (e\<lparr>wv_body := b\<rparr>) = meta_author e" for b by (simp add: meta_author_def meta_str_def)
  then show ?thesis using assms e
    by (cases body) (auto simp: event_from_artifact_def store_task_def artifact_of_def storable_def is_final_artifact_def
        meta_author_def meta_str_def Let_def split: if_splits)
qed

lemma append_storable: "storable i c e \<Longrightarrow> append_event e s = commit_event e s"
  by (auto simp: append_event_def storable_def is_partial_event_def split: event_body.splits if_splits)

lemma rebuild_task:
  assumes "list_all (storable i c) es" and "t = store_task (i, c, fs)"
  shows "fold (\<lambda>a. commit_event (event_from_artifact t a)) (map artifact_of es) s = fold append_event es s"
  using assms(1)
  by (induction es arbitrary: s) (simp_all add: event_from_artifact_of append_storable [of i c] assms(2))


definition user_says :: "string \<Rightarrow> string \<Rightarrow> wf_event" where
  "user_says task s = set_state_delta [(py ''k'', JStr (py s))] (set_meta ''author'' (JStr (py ''user''))
     \<lparr>wv_task_id = py task, wv_context_id = py ''c'', wv_body = MessageBody ROLE_USER [text_part (py s)], wv_meta = []\<rparr>)"


end
