(* ===== verification/Replay_Api.thy ===== *)
theory Replay_Api
  imports Context
begin

text \<open>
  The replay of a conversation for a client that joins late, \<open>choirworks/api/replay.py\<close>: the visible tasks with their
  artifacts and the last state become a list of events in which every message, question and answer stands where it
  happened.  Encoding the events as JSON is left out.

  A stored task is what the function reads of it.  The metadata of a part is a dict of \<open>json\<close> values;
  \<open>uuid.uuid4()\<close> is a function of the number of ids drawn.
\<close>

section \<open>Data\<close>

record art_part =
  ap_text :: pystr
  ap_fields :: "(pystr, json) dict"

record room_artifact =
  ra_id :: pystr
  ra_name :: pystr
  ra_parts :: "art_part list"
  ra_meta :: "(pystr, json) dict"

record room_message =
  rm_from_user :: bool
  rm_message_id :: pystr
  rm_texts :: "pystr list"

record room_task =
  rt_id :: pystr
  rt_state :: TaskState
  rt_history :: "room_message list"
  rt_artifacts :: "room_artifact list"

text \<open>The events: a task without artifacts and history, an artifact, a user message (task, message id, text), and a
  change of the state, of one intervention or of everything.\<close>

datatype room_event =
    R_task pystr TaskState
  | R_artifact pystr room_artifact
  | R_message pystr pystr pystr
  | R_intervention pystr TaskState pystr delta
  | R_state pystr TaskState delta

section \<open>Deltas\<close>

definition intervention_delta :: "Intervention \<Rightarrow> delta" where
  "intervention_delta iv =
     [(py ''status'', JStr (intervention_status_str (iv_status iv))), (py ''node_id'', JStr (iv_node_id iv)),
      (py ''kind'', JStr (intervention_kind_str (iv_kind iv))), (py ''question'', JStr (iv_question iv)),
      (py ''responder'', JStr (case iv_responder iv of None \<Rightarrow> [] | Some r \<Rightarrow> r)),
      (py ''question_type'', JStr (question_type_str (iv_question_type iv))), (py ''options'', jstrs (iv_options iv)),
      (py ''multi'', JBool (iv_multi iv)), (py ''requester'', JStr (iv_requester iv))]
     @ (case iv_answer iv of None \<Rightarrow> [] | Some a \<Rightarrow> [(py ''answer'', answer_to_json (iv_answer iv))])"

text \<open>With \<open>status\<close> given the answer is left out.\<close>

definition intervention_event :: "room_task \<Rightarrow> Intervention \<Rightarrow> pystr \<Rightarrow> room_event" where
  "intervention_event t iv status = R_intervention (rt_id t) (rt_state t) (iv_id iv)
     (if status = [] then intervention_delta iv
      else AList.delete (py ''answer'') (AList.update (py ''status'') (JStr status) (intervention_delta iv)))"

definition str_or :: "pystr option \<Rightarrow> json" where
  "str_or x = JStr (case x of None \<Rightarrow> [] | Some s \<Rightarrow> s)"

definition room_node_delta :: "NodeState \<Rightarrow> delta" where
  "room_node_delta n = [(py ''status'', JStr (node_status_str (n_status n))), (py ''output'', str_or (n_output n)),
     (py ''error'', str_or (n_error n)), (py ''name'', JStr (n_name n)), (py ''agent_name'', JStr (n_agent_name n))]"

definition room_state_event :: "OrchestrationState \<Rightarrow> pystr \<Rightarrow> TaskState \<Rightarrow> room_event" where
  "room_state_event s task_id st = R_state task_id st
     [(py ''nodes'', JObj (map (\<lambda>(k, n). (k, JObj (room_node_delta n))) (filter (\<lambda>(k, n). k \<noteq> []) (nodes s)))),
      (py ''members'', JArr (map member_to_dict (d_values (members s)))),
      (py ''interventions'', JObj (map (\<lambda>iv. (iv_id iv, JObj (intervention_delta iv)))
         (filter (\<lambda>iv. iv_id iv \<noteq> []) (d_values (interventions s)))))]"

section \<open>The replay\<close>

text \<open>The mutable part: the questions already shown, the answers already shown, the message ids of the current task's
  history by text, and how many ids were drawn.\<close>

record replay_state =
  rp_events :: "room_event list"
  rp_claimed :: "pystr list"
  rp_answered :: "pystr list"
  rp_user_ids :: "(pystr, pystr list) dict"
  rp_tick :: nat

definition find_question :: "Intervention list \<Rightarrow> pystr list \<Rightarrow> pystr \<Rightarrow> Intervention option" where
  "find_question ivs claimed s = List.find (\<lambda>iv. iv_id iv \<notin> set claimed \<and> iv_question iv = s) ivs"

definition find_answer :: "Intervention list \<Rightarrow> pystr list \<Rightarrow> pystr list \<Rightarrow> pystr \<Rightarrow> Intervention option" where
  "find_answer ivs claimed answered s = List.find (\<lambda>iv. iv_id iv \<in> set claimed \<and> iv_id iv \<notin> set answered
     \<and> iv_status iv = IV_RESOLVED \<and> render_answer iv = s) ivs"

definition part_field :: "string \<Rightarrow> room_artifact \<Rightarrow> pystr" where
  "part_field k a = (case ra_parts a of [] \<Rightarrow> [] | p # _ \<Rightarrow>
     (case map_of (ap_fields p) (py k) of Some (JStr s) \<Rightarrow> s | _ \<Rightarrow> []))"

definition artifact_text :: "room_artifact \<Rightarrow> pystr" where
  "artifact_text a = concat (map ap_text (ra_parts a))"

definition emit_room :: "room_event \<Rightarrow> replay_state \<Rightarrow> replay_state" where
  "emit_room e st = st\<lparr>rp_events := rp_events st @ [e]\<rparr>"

text \<open>\<open>_replay_history_artifact\<close>: \<open>None\<close> when the artifact is not translated.\<close>

definition replay_user_message :: "(nat \<Rightarrow> pystr) \<Rightarrow> room_task \<Rightarrow> pystr \<Rightarrow> replay_state \<Rightarrow> replay_state" where
  "replay_user_message uid t s st = (case map_of (rp_user_ids st) s of
      Some (i # ids) \<Rightarrow> emit_room (R_message (rt_id t) i s) (st\<lparr>rp_user_ids := d_modify s (\<lambda>_. ids) (rp_user_ids st)\<rparr>)
    | _ \<Rightarrow> emit_room (R_message (rt_id t) (uid (rp_tick st)) s) (st\<lparr>rp_tick := Suc (rp_tick st)\<rparr>))"

definition replay_history_artifact :: "(nat \<Rightarrow> pystr) \<Rightarrow> Intervention list \<Rightarrow> room_task \<Rightarrow> room_artifact \<Rightarrow> replay_state
    \<Rightarrow> replay_state option" where
  "replay_history_artifact uid ivs t a st =
     (let s = artifact_text a; role = part_field ''role'' a in
      if s = [] then None
      else if role = py ''user'' then (case find_answer ivs (rp_claimed st) (rp_answered st) s of
          Some iv \<Rightarrow> Some (emit_room (intervention_event t iv []) (st\<lparr>rp_answered := rp_answered st @ [iv_id iv]\<rparr>))
        | None \<Rightarrow> Some (replay_user_message uid t s st))
      else if role = py ''assistant'' then (case find_question ivs (rp_claimed st) s of
          Some iv \<Rightarrow> Some (emit_room (intervention_event t iv (py ''pending'')) (st\<lparr>rp_claimed := rp_claimed st @ [iv_id iv]\<rparr>))
        | None \<Rightarrow> None)
      else None)"

text \<open>The artifact as it is, or its texts merged into one part.\<close>

definition replay_artifact :: "room_task \<Rightarrow> room_artifact \<Rightarrow> replay_state \<Rightarrow> replay_state" where
  "replay_artifact t a st =
     (let kind = part_field ''cw_type'' a; s = artifact_text a in
      if kind = py ''thought'' \<or> kind = py ''function_call'' then emit_room (R_artifact (rt_id t) a) st
      else if s = [] then st
      else emit_room (R_artifact (rt_id t) (a\<lparr>ra_parts := [\<lparr>ap_text = s, ap_fields = ap_fields (hd (ra_parts a))\<rparr>]\<rparr>)) st)"

definition replay_one :: "(nat \<Rightarrow> pystr) \<Rightarrow> Intervention list \<Rightarrow> room_task \<Rightarrow> room_artifact \<Rightarrow> replay_state \<Rightarrow> replay_state" where
  "replay_one uid ivs t a st = (if ra_parts a = [] then st
     else if part_field ''cw_type'' a = py ''history'' then (case replay_history_artifact uid ivs t a st of
         Some st' \<Rightarrow> st' | None \<Rightarrow> replay_artifact t a st)
     else replay_artifact t a st)"

definition pending_ids :: "room_message list \<Rightarrow> (pystr, pystr list) dict" where
  "pending_ids ms = fold (\<lambda>m d. d_modify (concat (rm_texts m)) (\<lambda>l. l @ [rm_message_id m]) (d_setdefault (concat (rm_texts m)) [] d))
     (filter rm_from_user ms) []"

definition replay_task :: "(nat \<Rightarrow> pystr) \<Rightarrow> Intervention list \<Rightarrow> room_task \<Rightarrow> replay_state \<Rightarrow> replay_state" where
  "replay_task uid ivs t st = fold (replay_one uid ivs t) (rt_artifacts t)
     ((emit_room (R_task (rt_id t) (rt_state t)) st)\<lparr>rp_user_ids := pending_ids (rt_history t)\<rparr>)"

definition replay_start :: replay_state where
  "replay_start = \<lparr>rp_events = [], rp_claimed = [], rp_answered = [], rp_user_ids = [], rp_tick = 0\<rparr>"

definition replay_interventions :: "OrchestrationState option \<Rightarrow> Intervention list" where
  "replay_interventions st = (case st of None \<Rightarrow> [] | Some s \<Rightarrow> sort_key iv_created_at (d_values (interventions s)))"

definition synthesize_replay_events :: "(nat \<Rightarrow> pystr) \<Rightarrow> room_task list \<Rightarrow> OrchestrationState option \<Rightarrow> room_event list" where
  "synthesize_replay_events uid tasks st = (if tasks = [] then []
     else rp_events (fold (replay_task uid (replay_interventions st)) tasks replay_start)
       @ (case st of None \<Rightarrow> [] | Some s \<Rightarrow> [room_state_event s (rt_id (last tasks)) (rt_state (last tasks))]))"

section \<open>Questions come before their answers\<close>

text \<open>The intervention events so far: the id, and whether it is the pending one.\<close>

definition shown :: "room_event \<Rightarrow> (pystr \<times> bool) option" where
  "shown e = (case e of R_intervention task st i d \<Rightarrow> Some (i, map_of d (py ''status'') = Some (JStr (py ''pending''))) | _ \<Rightarrow> None)"

definition shown_list :: "room_event list \<Rightarrow> (pystr \<times> bool) list" where
  "shown_list es = List.map_filter shown es"

text \<open>Each question is asked once; an answer is shown once, after its question.\<close>

definition asked_then_answered :: "(pystr \<times> bool) list \<Rightarrow> bool" where
  "asked_then_answered xs \<longleftrightarrow> distinct xs
     \<and> (\<forall>ys i zs. xs = ys @ (i, False) # zs \<longrightarrow> (i, True) \<in> set ys)"

lemma asked_then_answered_snoc:
  "asked_then_answered xs \<Longrightarrow> x \<notin> set xs \<Longrightarrow> (snd x \<or> (fst x, True) \<in> set xs) \<Longrightarrow> asked_then_answered (xs @ [x])"
proof -
  assume a: "asked_then_answered xs" "x \<notin> set xs" "snd x \<or> (fst x, True) \<in> set xs"
  have "(i, True) \<in> set ys" if s: "xs @ [x] = ys @ (i, False) # zs" for ys i zs
  proof (cases zs rule: rev_cases)
    case Nil
    then show ?thesis using s a(3) by auto
  next
    case (snoc zs' z)
    then have "xs = ys @ (i, False) # zs'" using s by simp
    then show ?thesis using a(1) unfolding asked_then_answered_def by blast
  qed
  then show ?thesis using a(1,2) unfolding asked_then_answered_def by simp
qed

definition replay_inv :: "replay_state \<Rightarrow> bool" where
  "replay_inv st \<longleftrightarrow> asked_then_answered (shown_list (rp_events st))
     \<and> set (shown_list (rp_events st)) = (\<lambda>i. (i, True)) ` set (rp_claimed st) \<union> (\<lambda>i. (i, False)) ` set (rp_answered st)
     \<and> set (rp_answered st) \<subseteq> set (rp_claimed st)"

lemma shown_list_emit:
  "shown_list (rp_events (emit_room e st)) = shown_list (rp_events st) @ (case shown e of None \<Rightarrow> [] | Some x \<Rightarrow> [x])"
  by (simp add: emit_room_def shown_list_def List.map_filter_def split: option.split)

lemma emit_room_frame [simp]: "rp_claimed (emit_room e st) = rp_claimed st" "rp_answered (emit_room e st) = rp_answered st"
  by (simp_all add: emit_room_def)

lemma replay_inv_silent:
  "replay_inv st \<Longrightarrow> shown e = None \<Longrightarrow> replay_inv (emit_room e st)"
  by (simp add: replay_inv_def shown_list_emit)

lemma replay_inv_frame:
  "replay_inv st \<Longrightarrow> replay_inv (st\<lparr>rp_user_ids := d\<rparr>)" "replay_inv st \<Longrightarrow> replay_inv (st\<lparr>rp_tick := n\<rparr>)"
  by (simp_all add: replay_inv_def)

lemma shown_resolved: "iv_status iv = IV_RESOLVED \<Longrightarrow> shown (intervention_event t iv []) = Some (iv_id iv, False)"
  by (simp add: shown_def intervention_event_def intervention_delta_def py_def)

lemma shown_pending: "shown (intervention_event t iv (py ''pending'')) = Some (iv_id iv, True)"
  by (simp add: shown_def intervention_event_def intervention_delta_def update_conv' delete_conv' py_def)

lemma replay_inv_question:
  assumes "replay_inv st" and "find_question ivs (rp_claimed st) s = Some iv"
  shows "replay_inv (emit_room (intervention_event t iv (py ''pending'')) (st\<lparr>rp_claimed := rp_claimed st @ [iv_id iv]\<rparr>))"
proof -
  have n: "iv_id iv \<notin> set (rp_claimed st)" using assms(2) by (auto simp: find_question_def find_Some_iff)
  then have "(iv_id iv, True) \<notin> set (shown_list (rp_events st))" using assms(1) by (auto simp: replay_inv_def)
  then show ?thesis using assms(1) asked_then_answered_snoc [of "shown_list (rp_events st)" "(iv_id iv, True)"]
    by (auto simp: replay_inv_def shown_list_emit shown_pending)
qed

lemma replay_inv_answer:
  assumes "replay_inv st" and "find_answer ivs (rp_claimed st) (rp_answered st) s = Some iv"
  shows "replay_inv (emit_room (intervention_event t iv []) (st\<lparr>rp_answered := rp_answered st @ [iv_id iv]\<rparr>))"
proof -
  have n: "iv_id iv \<in> set (rp_claimed st)" "iv_id iv \<notin> set (rp_answered st)" "iv_status iv = IV_RESOLVED"
    using assms(2) by (auto simp: find_answer_def find_Some_iff)
  then have "(iv_id iv, False) \<notin> set (shown_list (rp_events st))" "(iv_id iv, True) \<in> set (shown_list (rp_events st))"
    using assms(1) by (auto simp: replay_inv_def)
  then show ?thesis using assms(1) n asked_then_answered_snoc [of "shown_list (rp_events st)" "(iv_id iv, False)"]
    by (auto simp: replay_inv_def shown_list_emit shown_resolved)
qed

lemma replay_artifact_inv: "replay_inv st \<Longrightarrow> replay_inv (replay_artifact t a st)"
  by (simp add: replay_artifact_def Let_def replay_inv_silent shown_def)

lemma replay_user_message_inv: "replay_inv st \<Longrightarrow> replay_inv (replay_user_message uid t s st)"
  by (auto simp: replay_user_message_def shown_def intro!: replay_inv_silent replay_inv_frame split: option.split list.split)

lemma replay_history_inv:
  "replay_inv st \<Longrightarrow> replay_history_artifact uid ivs t a st = Some st' \<Longrightarrow> replay_inv st'"
  by (auto simp: replay_history_artifact_def Let_def replay_user_message_inv replay_inv_question replay_inv_answer
      split: if_splits option.splits)

lemma replay_one_inv: "replay_inv st \<Longrightarrow> replay_inv (replay_one uid ivs t a st)"
  by (auto simp: replay_one_def replay_artifact_inv split: option.split dest: replay_history_inv)

lemma replay_task_inv: "replay_inv st \<Longrightarrow> replay_inv (replay_task uid ivs t st)"
proof -
  have f: "replay_inv x \<Longrightarrow> replay_inv (fold (replay_one uid ivs t) as x)" for as x
    by (induction as arbitrary: x) (simp_all add: replay_one_inv)
  assume "replay_inv st"
  then show ?thesis unfolding replay_task_def by (intro f replay_inv_frame replay_inv_silent) (simp_all add: shown_def)
qed


end
