(* ===== verification/Llm_Stream.thy ===== *)
theory Llm_Stream
  imports Context
begin

text \<open>
  The language model client of \<open>choirworks\<close>, \<open>core/llm.py\<close>: the request of a streaming call, the chunks passed on,
  the tool call assembled from the fragments the model streams, and the errors of a bad call; the plain completion
  and its token counts.  The completion service (litellm) is the parameter \<open>completion_fn\<close>; a tool's validation of
  its arguments (pydantic) is part of the tool.  A missing string and an empty one are the same here, since the code
  only asks whether there is one.

  The interface \<open>call_assembler\<close> states what a buffer of fragments promises: the arguments of a call are its
  fragments in order, whatever is streamed in between.  The other package's buffer satisfies it too (\<open>Lite_Llm\<close>).
\<close>

section \<open>What the model streams\<close>

record delta_call =
  dc_index :: int
  dc_id :: pystr
  dc_name :: pystr
  dc_arguments :: pystr

text \<open>An entry of \<open>delta.tool_calls\<close> that is not a \<open>ChatCompletionDeltaToolCall\<close> is \<open>None\<close>.\<close>

record delta_chunk =
  dl_reasoning :: pystr
  dl_content :: pystr
  dl_calls :: "delta_call option list"

text \<open>A chunk is the list of the deltas of its choices.\<close>

type_synonym stream_chunk = "delta_chunk option list"

section \<open>Buffers of fragments\<close>

locale call_assembler =
  fixes empty :: 's
    and take_call :: "delta_call \<Rightarrow> 's \<Rightarrow> 's"
    and indices :: "'s \<Rightarrow> int list"
    and args :: "'s \<Rightarrow> int \<Rightarrow> pystr"
    and name :: "'s \<Rightarrow> int \<Rightarrow> pystr"
    and ident :: "'s \<Rightarrow> int \<Rightarrow> pystr"
  assumes empty_laws: "indices empty = []" "args empty i = []" "name empty i = []" "ident empty i = []"
    and indices_take: "indices (take_call c s) = (if dc_index c \<in> set (indices s) then indices s else indices s @ [dc_index c])"
    and args_take: "args (take_call c s) i = (if i = dc_index c then args s i @ dc_arguments c else args s i)"
    and name_take: "name (take_call c s) i = (if i = dc_index c \<and> dc_name c \<noteq> [] then dc_name c else name s i)"
    and ident_take: "ident (take_call c s) i = (if i = dc_index c \<and> dc_id c \<noteq> [] then dc_id c else ident s i)"
begin

lemma indices_fold: "indices (fold take_call cs s) = indices s @ dedup_from (rev (indices s)) (map dc_index cs)"
proof (induction cs arbitrary: s)
  case (Cons c cs)
  then show ?case by (simp add: indices_take)
qed simp

lemma indices_of: "indices (fold take_call cs empty) = fromkeys (map dc_index cs)"
  by (simp add: indices_fold empty_laws fromkeys_def)

lemma args_fold: "args (fold take_call cs s) i = args s i @ concat (map dc_arguments (filter (\<lambda>c. dc_index c = i) cs))"
  by (induction cs arbitrary: s) (auto simp: args_take)

lemma args_of: "args (fold take_call cs empty) i = concat (map dc_arguments (filter (\<lambda>c. dc_index c = i) cs))"
  by (simp add: args_fold empty_laws)

lemma name_fold: "name (fold take_call cs s) i = foldl (\<lambda>acc n. if n \<noteq> [] then n else acc) (name s i)
    (map dc_name (filter (\<lambda>c. dc_index c = i) cs))"
  by (induction cs arbitrary: s) (auto simp: name_take)

lemma ident_fold: "ident (fold take_call cs s) i = foldl (\<lambda>acc n. if n \<noteq> [] then n else acc) (ident s i)
    (map dc_id (filter (\<lambda>c. dc_index c = i) cs))"
  by (induction cs arbitrary: s) (auto simp: ident_take)

text \<open>Fragments of different calls may be interleaved in any way.\<close>

lemma interleaving:
  assumes "filter (\<lambda>c. dc_index c = i) cs = filter (\<lambda>c. dc_index c = i) cs'"
  shows "args (fold take_call cs empty) i = args (fold take_call cs' empty) i"
    and "name (fold take_call cs empty) i = name (fold take_call cs' empty) i"
    and "ident (fold take_call cs empty) i = ident (fold take_call cs' empty) i"
  using assms by (simp_all add: args_fold name_fold ident_fold)

text \<open>How the service cuts the argument text into fragments does not matter.\<close>

lemma refragmenting:
  assumes "concat (map dc_arguments (filter (\<lambda>c. dc_index c = i) cs)) = concat (map dc_arguments (filter (\<lambda>c. dc_index c = i) cs'))"
  shows "args (fold take_call cs empty) i = args (fold take_call cs' empty) i"
  using assms by (simp add: args_of)

end

text \<open>The last string that is not empty, \<open>[]\<close> when there is none.\<close>

definition last_given :: "pystr list \<Rightarrow> pystr" where
  "last_given = foldl (\<lambda>acc n. if n \<noteq> [] then n else acc) []"

section \<open>The client\<close>

text \<open>The three dicts of \<open>stream\<close>: fragments, names and ids by index.\<close>

record call_buffer =
  cb_fragments :: "(int, pystr list) dict"
  cb_names :: "(int, pystr) dict"
  cb_ids :: "(int, pystr) dict"

definition empty_buffer :: call_buffer where
  "empty_buffer = \<lparr>cb_fragments = [], cb_names = [], cb_ids = []\<rparr>"

definition buffer_call :: "delta_call \<Rightarrow> call_buffer \<Rightarrow> call_buffer" where
  "buffer_call c b = (let i = dc_index c in b\<lparr>
     cb_fragments := d_modify i (\<lambda>fs. fs @ [dc_arguments c]) (d_setdefault i [] (cb_fragments b)),
     cb_names := (if dc_name c \<noteq> [] then AList.update i (dc_name c) (cb_names b) else cb_names b),
     cb_ids := (if dc_id c \<noteq> [] then AList.update i (dc_id c) (cb_ids b) else cb_ids b)\<rparr>)"

definition d_get :: "('k, 'v) dict \<Rightarrow> 'k \<Rightarrow> 'v \<Rightarrow> 'v" where
  "d_get d k v = (case map_of d k of None \<Rightarrow> v | Some x \<Rightarrow> x)"

definition buffer_args :: "call_buffer \<Rightarrow> int \<Rightarrow> pystr" where
  "buffer_args b i = concat (d_get (cb_fragments b) i [])"

interpretation buffer: call_assembler empty_buffer buffer_call "\<lambda>b. d_keys (cb_fragments b)" buffer_args
  "\<lambda>b i. d_get (cb_names b) i []" "\<lambda>b i. d_get (cb_ids b) i []"
proof unfold_locales
  fix c b i
  show "d_keys (cb_fragments (buffer_call c b)) = (if dc_index c \<in> set (d_keys (cb_fragments b)) then d_keys (cb_fragments b)
      else d_keys (cb_fragments b) @ [dc_index c])"
    by (simp add: buffer_call_def Let_def d_setdefault_keys)
  show "buffer_args (buffer_call c b) i = (if i = dc_index c then buffer_args b i @ dc_arguments c else buffer_args b i)"
    by (auto simp: buffer_call_def buffer_args_def d_get_def Let_def map_of_d_setdefault split: option.splits)
  show "d_get (cb_names (buffer_call c b)) i [] = (if i = dc_index c \<and> dc_name c \<noteq> [] then dc_name c else d_get (cb_names b) i [])"
    by (auto simp: buffer_call_def d_get_def Let_def update_conv')
  show "d_get (cb_ids (buffer_call c b)) i [] = (if i = dc_index c \<and> dc_id c \<noteq> [] then dc_id c else d_get (cb_ids b) i [])"
    by (auto simp: buffer_call_def d_get_def Let_def update_conv')
qed (simp_all add: empty_buffer_def buffer_args_def d_get_def)

section \<open>One streaming call\<close>

datatype sent_message = SystemMessage pystr | Sent ChatMessage

text \<open>A tool given to the model: its declaration (\<open>_get_declaration\<close>: the JSON schema and the validation of an
  argument text, the error as text) and the dump of its arguments.\<close>

record 'a llm_tool =
  lt_name :: pystr
  lt_description :: pystr
  lt_schema :: json
  lt_validate :: "pystr \<Rightarrow> pystr + 'a"
  lt_dump :: "'a \<Rightarrow> pystr"

record 'a tool_call =
  tc_function :: "'a llm_tool"
  tc_args :: 'a
  tc_call_id :: pystr

text \<open>What a stream can raise: \<open>ValueError\<close>, \<open>ToolParseError\<close> (tool, payload, text of the cause), anything else.\<close>

datatype stream_failure = FailValue pystr | FailParse pystr pystr pystr | FailOther pystr

datatype 'a stream_yield = YieldDelta delta_chunk | YieldCall "'a tool_call"

text \<open>The answer of \<open>completion_fn\<close>: a stream of chunks that may break off, a whole completion with the content of its
  first choice, or an exception.\<close>

datatype completion = Streamed "stream_chunk list" "stream_failure option" | Completed pystr | CompletionRaised stream_failure

record llm_request =
  rq_model :: pystr
  rq_messages :: "sent_message list"
  rq_stream :: bool
  rq_tools :: "json list option"
  rq_tool_choice :: "json option"
  rq_api_base :: "pystr option"

record llm_client =
  lc_model :: pystr
  lc_api_base :: "pystr option"
  lc_context_window :: "int option"
  lc_completion_fn :: "llm_request \<Rightarrow> completion"

text \<open>\<open>_extra_kwargs\<close>: an empty base is not sent.\<close>

definition extra_kwargs :: "llm_client \<Rightarrow> pystr option" where
  "extra_kwargs cl = (if lc_api_base cl = Some [] then None else lc_api_base cl)"

definition tool_declaration :: "'a llm_tool \<Rightarrow> json" where
  "tool_declaration t = JObj [(py ''type'', JStr (py ''function'')), (py ''function'',
     JObj [(py ''name'', JStr (lt_name t)), (py ''description'', JStr (lt_description t)), (py ''parameters'', lt_schema t)])]"

definition stream_request :: "llm_client \<Rightarrow> pystr \<Rightarrow> pystr option \<Rightarrow> ChatMessage list option \<Rightarrow> 'a llm_tool list \<Rightarrow> json \<Rightarrow> llm_request" where
  "stream_request cl system user messages tools tool_choice = \<lparr>rq_model = lc_model cl,
     rq_messages = SystemMessage system # (case messages of
        None \<Rightarrow> [Sent (UserMessage (case user of None \<Rightarrow> [] | Some u \<Rightarrow> u))]
      | Some ms \<Rightarrow> map Sent ms),
     rq_stream = True,
     rq_tools = (if tools = [] then None else Some (map tool_declaration tools)),
     rq_tool_choice = (if tools = [] then None else Some tool_choice),
     rq_api_base = extra_kwargs cl\<rparr>"

text \<open>\<open>functions[name]\<close>: a later tool of the same name replaces an earlier one.\<close>

definition find_tool :: "'a llm_tool list \<Rightarrow> pystr \<Rightarrow> 'a llm_tool option" where
  "find_tool tools n = List.find (\<lambda>t. lt_name t = n) (rev tools)"

text \<open>The deltas that are passed on, and the calls in them.\<close>

definition chunk_delta :: "stream_chunk \<Rightarrow> delta_chunk option" where
  "chunk_delta ch = (case ch of [] \<Rightarrow> None | d # _ \<Rightarrow> d)"

definition stream_deltas :: "stream_chunk list \<Rightarrow> delta_chunk list" where
  "stream_deltas chs = List.map_filter chunk_delta chs"

definition delta_calls :: "delta_chunk list \<Rightarrow> delta_call list" where
  "delta_calls ds = concat (map (\<lambda>d. List.map_filter (\<lambda>x. x) (dl_calls d)) ds)"

text \<open>The end of the stream: the single call, validated.  \<open>fresh\<close> is the \<open>uuid4().hex\<close> of a call without id.\<close>

definition finish_stream :: "'a llm_tool list \<Rightarrow> pystr \<Rightarrow> call_buffer \<Rightarrow> stream_failure + 'a tool_call option" where
  "finish_stream tools fresh b = (case cb_fragments b of
      [] \<Rightarrow> Inr None
    | (i, fragments) # others \<Rightarrow>
       (if others \<noteq> [] then Inl (FailValue (py ''expected a single tool call''))
        else let tool_name = d_get (cb_names b) i []
        in case (if tool_name = [] then None else find_tool tools tool_name) of
             None \<Rightarrow> Inl (FailValue (py ''model called unknown tool: '' @ tool_name))
           | Some tool \<Rightarrow> (let payload = concat fragments
               in case lt_validate tool payload of
                    Inl cause \<Rightarrow> Inl (FailParse tool_name payload cause)
                  | Inr a \<Rightarrow> (let cid = d_get (cb_ids b) i [] in
                      Inr (Some \<lparr>tc_function = tool, tc_args = a, tc_call_id = (if cid = [] then fresh else cid)\<rparr>)))))"

text \<open>\<open>stream\<close>: what is yielded, and how it ends.  Without \<open>ctx\<close> no tool is declared.\<close>

definition llm_stream :: "llm_client \<Rightarrow> pystr \<Rightarrow> pystr option \<Rightarrow> ChatMessage list option \<Rightarrow> 'a llm_tool list \<Rightarrow> bool \<Rightarrow> json \<Rightarrow> pystr
    \<Rightarrow> 'a stream_yield list \<times> stream_failure option" where
  "llm_stream cl system user messages tools has_ctx tool_choice fresh =
     (if messages = None \<and> user = None then ([], Some (FailValue (py ''stream requires user or messages'')))
      else let declared = (if has_ctx then tools else [])
      in case lc_completion_fn cl (stream_request cl system user messages declared tool_choice) of
           CompletionRaised f \<Rightarrow> ([], Some f)
         | Completed _ \<Rightarrow> ([], Some (FailValue (py ''expected a streaming response'')))
         | Streamed chs broken \<Rightarrow>
            (let ds = stream_deltas chs; items = map YieldDelta ds
             in case broken of
                  Some f \<Rightarrow> (items, Some f)
                | None \<Rightarrow> (case finish_stream declared fresh (fold buffer_call (delta_calls ds) empty_buffer) of
                      Inl f \<Rightarrow> (items, Some f)
                    | Inr None \<Rightarrow> (items, None)
                    | Inr (Some call) \<Rightarrow> (items @ [YieldCall call], None))))"

section \<open>Plain completions\<close>

definition client_text :: "llm_client \<Rightarrow> pystr \<Rightarrow> pystr \<Rightarrow> stream_failure + pystr" where
  "client_text cl system user = (case lc_completion_fn cl \<lparr>rq_model = lc_model cl,
       rq_messages = [SystemMessage system, Sent (UserMessage user)], rq_stream = False, rq_tools = None,
       rq_tool_choice = None, rq_api_base = extra_kwargs cl\<rparr> of
      CompletionRaised f \<Rightarrow> Inl f
    | Streamed _ _ \<Rightarrow> Inl (FailValue (py ''expected a non-streaming response''))
    | Completed content \<Rightarrow> Inr content)"

text \<open>\<open>counter\<close> is \<open>litellm.token_counter\<close>, \<open>info\<close> the \<open>max_input_tokens\<close> of \<open>litellm.get_model_info\<close>; \<open>None\<close> when they raise.\<close>

definition count_tokens :: "(pystr \<Rightarrow> pystr \<Rightarrow> nat option) \<Rightarrow> llm_client \<Rightarrow> pystr \<Rightarrow> nat" where
  "count_tokens counter cl s = (case counter (lc_model cl) s of Some n \<Rightarrow> n | None \<Rightarrow> length s div 3)"

definition get_context_window :: "(pystr \<Rightarrow> int option option) \<Rightarrow> llm_client \<Rightarrow> int" where
  "get_context_window info cl = (case lc_context_window cl of
      Some w \<Rightarrow> if w \<noteq> 0 then w else (case info (lc_model cl) of Some (Some n) \<Rightarrow> if n \<noteq> 0 then n else 128000 | _ \<Rightarrow> 128000)
    | None \<Rightarrow> (case info (lc_model cl) of Some (Some n) \<Rightarrow> if n \<noteq> 0 then n else 128000 | _ \<Rightarrow> 128000))"

section \<open>The single call\<close>

lemma fold_buffer_indices: "d_keys (cb_fragments (fold buffer_call cs empty_buffer)) = fromkeys (map dc_index cs)"
  by (rule buffer.indices_of)

lemma dedup_from_singleton: "dedup_from seen xs = [i] \<Longrightarrow> \<forall>x \<in> set xs. x = i \<or> x \<in> set seen"
  using set_dedup_from [of seen xs] by auto

lemma fromkeys_Nil_iff [simp]: "fromkeys xs = [] \<longleftrightarrow> xs = []"
  by (metis set_empty set_fromkeys)

lemma fromkeys_single_iff: "fromkeys xs = [i] \<longleftrightarrow> xs \<noteq> [] \<and> (\<forall>x \<in> set xs. x = i)"
proof
  assume "fromkeys xs = [i]"
  then have "set xs = {i}" by (metis set_fromkeys list.simps(15) empty_set)
  then show "xs \<noteq> [] \<and> (\<forall>x \<in> set xs. x = i)" by auto
next
  assume "xs \<noteq> [] \<and> (\<forall>x \<in> set xs. x = i)"
  then have "set (fromkeys xs) = {i}" by (cases xs) auto
  then have "length (fromkeys xs) = 1" using distinct_card [OF distinct_fromkeys, of xs] by simp
  then obtain j where "fromkeys xs = [j]" by (auto simp: length_Suc_conv One_nat_def)
  then show "fromkeys xs = [i]" using \<open>set (fromkeys xs) = {i}\<close> by auto
qed

text \<open>What one call is, read off the streamed fragments.\<close>

definition spec_call :: "'a llm_tool list \<Rightarrow> pystr \<Rightarrow> delta_call list \<Rightarrow> stream_failure + 'a tool_call option" where
  "spec_call tools fresh cs =
     (if cs = [] then Inr None
      else if \<exists>c \<in> set cs. dc_index c \<noteq> dc_index (hd cs) then Inl (FailValue (py ''expected a single tool call''))
      else let tool_name = last_given (map dc_name cs); payload = concat (map dc_arguments cs); cid = last_given (map dc_id cs)
      in case (if tool_name = [] then None else find_tool tools tool_name) of
           None \<Rightarrow> Inl (FailValue (py ''model called unknown tool: '' @ tool_name))
         | Some tool \<Rightarrow> (case lt_validate tool payload of
              Inl cause \<Rightarrow> Inl (FailParse tool_name payload cause)
            | Inr a \<Rightarrow> Inr (Some \<lparr>tc_function = tool, tc_args = a, tc_call_id = (if cid = [] then fresh else cid)\<rparr>)))"

lemma finish_stream_spec: "finish_stream tools fresh (fold buffer_call cs empty_buffer) = spec_call tools fresh cs"
proof -
  define b where "b = fold buffer_call cs empty_buffer"
  have keys: "d_keys (cb_fragments b) = fromkeys (map dc_index cs)" unfolding b_def by (rule fold_buffer_indices)
  consider (none) "cs = []" | (one) i where "fromkeys (map dc_index cs) = [i]"
    | (more) i j js where "fromkeys (map dc_index cs) = i # j # js"
    by (cases "fromkeys (map dc_index cs)" rule: list.exhaust; cases "tl (fromkeys (map dc_index cs))" rule: list.exhaust) auto
  then have "finish_stream tools fresh b = spec_call tools fresh cs"
  proof cases
    case none
    then show ?thesis by (simp add: b_def finish_stream_def spec_call_def empty_buffer_def)
  next
    case (one i)
    then have all: "cs \<noteq> []" "\<forall>c \<in> set cs. dc_index c = i" by (auto simp: fromkeys_single_iff)
    then have filt: "filter (\<lambda>c. dc_index c = i) cs = cs" by simp
    obtain fs where frag: "cb_fragments b = [(i, fs)]" using keys one by auto
    have "concat fs = buffer_args b i" by (simp add: buffer_args_def d_get_def frag)
    also have "\<dots> = concat (map dc_arguments cs)" unfolding b_def buffer.args_of filt ..
    finally have payload: "concat fs = concat (map dc_arguments cs)" .
    have names: "d_get (cb_names b) i [] = last_given (map dc_name cs)"
      unfolding b_def buffer.name_fold filt last_given_def by (simp add: empty_buffer_def d_get_def)
    have ids: "d_get (cb_ids b) i [] = last_given (map dc_id cs)"
      unfolding b_def buffer.ident_fold filt last_given_def by (simp add: empty_buffer_def d_get_def)
    have same: "\<not> (\<exists>c \<in> set cs. dc_index c \<noteq> dc_index (hd cs))" using all by auto
    show ?thesis
      unfolding finish_stream_def frag spec_call_def list.case prod.case Let_def payload names ids
      by (simp add: all(1) same)
  next
    case (more i j js)
    then have "cs \<noteq> []" "i \<noteq> j" using distinct_fromkeys [of "map dc_index cs"] by (auto simp: fromkeys_def)
    moreover have "i \<in> dc_index ` set cs" "j \<in> dc_index ` set cs"
      using more set_fromkeys [of "map dc_index cs"] by auto
    ultimately have "\<exists>c \<in> set cs. dc_index c \<noteq> dc_index (hd cs)" by (metis imageE)
    moreover obtain fs x xs where "cb_fragments b = (i, fs) # x # xs" using keys more by auto
    ultimately show ?thesis using \<open>cs \<noteq> []\<close> by (simp add: finish_stream_def spec_call_def)
  qed
  then show ?thesis by (simp add: b_def)
qed

text \<open>C35: a streaming call passes every delta on and then yields at most one tool call, which is the one read off the
  whole sequence of fragments: its arguments are the fragments joined in order, its name and its id the last ones given.
  How the service cuts the text and spreads the fragments over chunks makes no difference.  Calls with two different
  indices, a tool that was not declared and arguments the tool does not accept are errors, and nothing is yielded for them.\<close>

theorem streamed_call_assembled:
  assumes "messages \<noteq> None \<or> user \<noteq> None"
    and "lc_completion_fn cl (stream_request cl system user messages (if has_ctx then tools else []) choice) = Streamed chs None"
  shows "llm_stream cl system user messages tools has_ctx choice fresh =
    (let ds = stream_deltas chs; r = spec_call (if has_ctx then tools else []) fresh (delta_calls ds)
     in (map YieldDelta ds @ (case r of Inr (Some call) \<Rightarrow> [YieldCall call] | _ \<Rightarrow> []), (case r of Inl f \<Rightarrow> Some f | _ \<Rightarrow> None)))"
  using assms by (auto simp: llm_stream_def Let_def finish_stream_spec split: sum.split option.split)

definition example_tool :: "pystr llm_tool" where
  "example_tool = \<lparr>lt_name = py ''Pick'', lt_description = py ''d'', lt_schema = JNull,
     lt_validate = (\<lambda>s. if s = py ''ab'' then Inr s else Inl (py ''bad'')), lt_dump = (\<lambda>s. s)\<rparr>"

definition example_client :: "stream_chunk list \<Rightarrow> llm_client" where
  "example_client chs = \<lparr>lc_model = py ''m'', lc_api_base = None, lc_context_window = None,
     lc_completion_fn = (\<lambda>r. if rq_stream r then Streamed chs None else Completed (py ''t''))\<rparr>"

definition example_delta :: "string \<Rightarrow> string \<Rightarrow> (string \<times> string) list \<Rightarrow> stream_chunk" where
  "example_delta r t cs = [Some \<lparr>dl_reasoning = py r, dl_content = py t,
     dl_calls = map (\<lambda>(n, a). Some \<lparr>dc_index = 0, dc_id = [], dc_name = py n, dc_arguments = py a\<rparr>) cs\<rparr>]"

lemma streamed_call_assembled_witness:
  "snd (llm_stream (example_client [example_delta [] ''x'' [(''Pick'', ''a'')], [], example_delta [] [] [([], ''b'')]]) [] (Some []) None
     [example_tool] True JNull (py ''u'')) = None
   \<and> length (fst (llm_stream (example_client [example_delta [] ''x'' [(''Pick'', ''a'')], [], example_delta [] [] [([], ''b'')]]) [] (Some []) None
     [example_tool] True JNull (py ''u''))) = 3"
proof -
  let ?chs = "[example_delta [] ''x'' [(''Pick'', ''a'')], [], example_delta [] [] [([], ''b'')]]"
  have r: "lc_completion_fn (example_client ?chs) (stream_request (example_client ?chs) [] (Some []) None
      (if True then [example_tool] else []) JNull) = Streamed ?chs None"
    by (simp add: example_client_def stream_request_def)
  show ?thesis
    using streamed_call_assembled [OF _ r, of "py ''u''"]
    by (simp add: stream_deltas_def chunk_delta_def example_delta_def delta_calls_def map_filter_simps spec_call_def Let_def
        last_given_def find_tool_def example_tool_def py_def)
qed

end
