(* ===== verification/Decision_Agent.thy ===== *)
theory Decision_Agent
  imports Llm_Stream Settlement
begin

text \<open>
  The sub-agents of \<open>choirworks\<close>: \<open>core/agents/llm_agent.py\<close> (a decision by a forced tool call, retried with feedback,
  or a plain text reply), \<open>run_agent\<close> of \<open>core/agents/base.py\<close>, and the three agents of \<open>subagents/\<close> (outcome,
  assistance, repair).  The generator \<open>run_async\<close> is the list of events it yields and the exception it ends with;
  \<open>run_agent\<close> consumes it.  The model is the client's \<open>completion_fn\<close> (\<open>Llm_Stream\<close>); ids are read from the context.
\<close>

section \<open>The agent\<close>

datatype 'r agent_event = Emit a2a_event | ResultEvent 'r

text \<open>An agent with its class attributes and the two methods a subclass overrides.  \<open>da_final_tool\<close> is \<open>None\<close> for a
  text agent.\<close>

record ('a, 'r) decision_agent =
  da_name :: pystr
  da_system_prompt :: pystr
  da_final_tool :: "pystr option"
  da_max_retries :: int
  da_build_tools :: "ctx \<Rightarrow> 'a llm_tool list"
  da_process :: "'a tool_call option \<Rightarrow> 'r"

definition agent_chunk :: "pystr \<Rightarrow> pystr \<Rightarrow> CwType \<Rightarrow> pystr \<Rightarrow> bool \<Rightarrow> bool \<Rightarrow> 'r agent_event" where
  "agent_chunk author s kind artifact_id app last_chunk = Emit (ChunkArtifact kind author artifact_id s app last_chunk)"

text \<open>What one attempt has streamed so far.\<close>

record 'a attempt =
  at_thought_id :: pystr
  at_text_id :: pystr
  at_reasoning :: "pystr list"
  at_content :: "pystr list"
  at_call :: "'a tool_call option"

definition fresh_attempt :: "pystr \<Rightarrow> pystr \<Rightarrow> 'a attempt" where
  "fresh_attempt i j = \<lparr>at_thought_id = i, at_text_id = j, at_reasoning = [], at_content = [], at_call = None\<rparr>"

definition seal :: "pystr \<Rightarrow> 'a attempt \<Rightarrow> 'r agent_event list" where
  "seal author st =
     (let reasoning = concat (at_reasoning st); content = concat (at_content st)
      in (if reasoning \<noteq> [] then [agent_chunk author reasoning THOUGHT (at_thought_id st) False True] else [])
       @ (if content \<noteq> [] then [agent_chunk author content TEXT (at_text_id st) False True] else []))"

text \<open>The body of \<open>async for item in ctx.llm.stream(...)\<close>.\<close>

definition on_delta :: "pystr \<Rightarrow> delta_chunk \<Rightarrow> 'r agent_event list \<times> 'a attempt \<Rightarrow> 'r agent_event list \<times> 'a attempt" where
  "on_delta author d = (\<lambda>(es, st).
     (let (es1, st1) = (if dl_reasoning d = [] then (es, st)
            else let rs = at_reasoning st @ [dl_reasoning d] in
              (es @ [agent_chunk author (dl_reasoning d) THOUGHT (at_thought_id st) (length rs > 1) False], st\<lparr>at_reasoning := rs\<rparr>))
      in if dl_content d = [] then (es1, st1)
         else let ts = at_content st1 @ [dl_content d] in
           (es1 @ [agent_chunk author (dl_content d) TEXT (at_text_id st1) (length ts > 1) False], st1\<lparr>at_content := ts\<rparr>)))"

fun on_item :: "pystr \<Rightarrow> 'a stream_yield \<Rightarrow> 'r agent_event list \<times> 'a attempt \<Rightarrow> 'r agent_event list \<times> 'a attempt" where
  "on_item author (YieldCall call) (es, st) = (es, st\<lparr>at_call := Some call\<rparr>)"
| "on_item author (YieldDelta d) (es, st) = on_delta author d (es, st)"

definition stream_attempt :: "pystr \<Rightarrow> 'a stream_yield list \<Rightarrow> 'a attempt \<Rightarrow> 'r agent_event list \<times> 'a attempt" where
  "stream_attempt author items st = fold (on_item author) items ([], st)"

section \<open>Decisions\<close>

fun failure_text :: "stream_failure \<Rightarrow> pystr" where
  "failure_text (FailValue e) = e"
| "failure_text (FailParse tool payload cause) = cause"
| "failure_text (FailOther e) = e"

definition forced_tool :: "pystr \<Rightarrow> json" where
  "forced_tool n = JObj [(py ''type'', JStr (py ''function'')), (py ''function'', JObj [(py ''name'', JStr n)])]"

definition retry_feedback :: "pystr \<Rightarrow> stream_failure \<Rightarrow> pystr" where
  "retry_feedback prev_payload f = py ''Your previous tool call was invalid.'' @ nl @ py ''Tool call args:'' @ nl
     @ prev_payload @ nl @ nl @ py ''Error: '' @ failure_text f @ nl @ py ''Return a corrected tool call.''"

text \<open>The failure of an attempt whose stream ended without one.\<close>

definition attempt_failure :: "pystr \<Rightarrow> 'a attempt \<Rightarrow> stream_failure option \<Rightarrow> stream_failure option" where
  "attempt_failure final_tool st f = (case f of Some e \<Rightarrow> Some e
     | None \<Rightarrow> if at_call st = None then Some (FailValue (py ''model did not call the '' @ final_tool @ py '' tool'')) else None)"

definition prev_payload :: "'a attempt \<Rightarrow> stream_failure \<Rightarrow> pystr" where
  "prev_payload st f = (case f of
      FailParse _ payload _ \<Rightarrow> payload
    | _ \<Rightarrow> (case at_call st of Some call \<Rightarrow> lt_dump (tc_function call) (tc_args call) | None \<Rightarrow> []))"

text \<open>The stream of one attempt: the model's answer to these messages.  The third id is the one a call without id gets.\<close>

definition attempt_stream :: "('a, 'r) decision_agent \<Rightarrow> llm_client \<Rightarrow> pystr \<Rightarrow> ChatMessage list \<Rightarrow> ctx
    \<Rightarrow> 'a attempt \<times> ('a stream_yield list \<times> stream_failure option) \<times> ctx" where
  "attempt_stream ag cl final_tool messages c =
     (let tools = da_build_tools ag c;
          (i, c1) = new_uuid c; (j, c2) = new_uuid c1; (k, c3) = new_uuid c2
      in (fresh_attempt i j, llm_stream cl (da_system_prompt ag) None (Some messages) tools True (forced_tool final_tool) k, c3))"

text \<open>\<open>for attempt in range(self.max_retries + 1)\<close> with \<open>left\<close> attempts to go; \<open>prev\<close> is the last attempt.\<close>

fun decide_loop :: "('a, 'r) decision_agent \<Rightarrow> llm_client \<Rightarrow> pystr \<Rightarrow> nat \<Rightarrow> 'a attempt \<Rightarrow> ChatMessage list \<Rightarrow> ctx
    \<Rightarrow> 'r agent_event list \<times> stream_failure option \<times> ctx" where
  "decide_loop ag cl final_tool 0 prev messages c = (seal (da_name ag) prev @ [ResultEvent (da_process ag None)], None, c)"
| "decide_loop ag cl final_tool (Suc left) prev messages c =
     (let (st0, (items, f), c1) = attempt_stream ag cl final_tool messages c;
          (es, st) = stream_attempt (da_name ag) items st0
      in case attempt_failure final_tool st f of
           None \<Rightarrow> (es @ seal (da_name ag) st @ [ResultEvent (da_process ag (at_call st))], None, c1)
         | Some (FailOther e) \<Rightarrow> (es, Some (FailOther e), c1)
         | Some e \<Rightarrow>
            (let (more_events, final, c2) = decide_loop ag cl final_tool left st
                   (messages @ [UserMessage (retry_feedback (prev_payload st e) e)]) c1
             in (es @ seal (da_name ag) st @ more_events, final, c2)))"

section \<open>Text replies\<close>

definition run_text :: "('a, pystr) decision_agent \<Rightarrow> llm_client \<Rightarrow> pystr \<Rightarrow> ctx \<Rightarrow> pystr agent_event list \<times> stream_failure option \<times> ctx" where
  "run_text ag cl user c =
     (let (i, c1) = new_uuid c; (j, c2) = new_uuid c1; (k, c3) = new_uuid c2;
          (items, f) = llm_stream cl (da_system_prompt ag) None (Some (c_messages c @ [UserMessage user])) [] False JNull k;
          deltas = filter (\<lambda>x. case x of YieldDelta _ \<Rightarrow> True | YieldCall _ \<Rightarrow> False) items;
          (es, st) = stream_attempt (da_name ag) deltas (fresh_attempt i j :: 'a attempt)
      in case f of
           Some e \<Rightarrow> (es, Some e, c3)
         | None \<Rightarrow> (es @ seal (da_name ag) st @ [ResultEvent (concat (at_content st))], None, c3))"

section \<open>Running an agent\<close>

text \<open>\<open>run_async\<close> of an agent with a final tool.\<close>

definition run_decision :: "('a, 'r) decision_agent \<Rightarrow> llm_client \<Rightarrow> pystr \<Rightarrow> pystr \<Rightarrow> ctx \<Rightarrow> 'r agent_event list \<times> stream_failure option \<times> ctx" where
  "run_decision ag cl final_tool user c =
     decide_loop ag cl final_tool (nat (da_max_retries ag + 1)) (fresh_attempt [] []) (c_messages c @ [UserMessage user]) c"

definition run_async :: "('a, pystr) decision_agent \<Rightarrow> llm_client \<Rightarrow> pystr \<Rightarrow> ctx \<Rightarrow> pystr agent_event list \<times> stream_failure option \<times> ctx" where
  "run_async ag cl user c = (case da_final_tool ag of None \<Rightarrow> run_text ag cl user c | Some t \<Rightarrow> run_decision ag cl t user c)"

text \<open>\<open>run_agent\<close>: events go to the queue up to the result; without a result the generator's exception, or \<open>None\<close>.\<close>

fun consume :: "'r agent_event list \<Rightarrow> ctx \<Rightarrow> 'r option \<times> ctx" where
  "consume [] c = (None, c)"
| "consume (ResultEvent r # es) c = (Some r, c)"
| "consume (Emit e # es) c = consume es (emit e c)"

definition run_agent :: "'r agent_event list \<times> stream_failure option \<times> ctx \<Rightarrow> (stream_failure + 'r option) \<times> ctx" where
  "run_agent run = (let (es, f, c) = run; (r, c1) = consume es c in
     (case r of Some x \<Rightarrow> (Inr (Some x), c1) | None \<Rightarrow> (case f of Some e \<Rightarrow> (Inl e, c1) | None \<Rightarrow> (Inr None, c1))))"

section \<open>What the stream of an attempt looks like\<close>

text \<open>Deltas, then at most one call, and none on failure.\<close>

lemma llm_stream_shape:
  assumes "llm_stream cl system user messages tools has_ctx choice fresh = (items, f)"
  obtains ds call where "items = map YieldDelta ds @ (case call of None \<Rightarrow> [] | Some x \<Rightarrow> [YieldCall x])"
    and "f \<noteq> None \<longrightarrow> call = None"
proof -
  have "\<exists>ds call. items = map YieldDelta ds @ (case call of None \<Rightarrow> [] | Some x \<Rightarrow> [YieldCall x]) \<and> (f \<noteq> None \<longrightarrow> call = None)"
  proof (cases "\<exists>ds. items = map YieldDelta ds")
    case True
    then obtain ds where "items = map YieldDelta ds" by blast
    then show ?thesis by (intro exI [of _ ds] exI [of _ None]) simp
  next
    case False
    then obtain ds call where "items = map YieldDelta ds @ [YieldCall call]" "f = None"
      using assms unfolding llm_stream_def
      by (auto simp: Let_def split: if_splits completion.splits option.splits sum.splits)
    then show ?thesis by (intro exI [of _ ds] exI [of _ "Some call"]) simp
  qed
  then show ?thesis using that by blast
qed

lemma on_delta_frame: "on_delta author d (es, st) = (es', st') \<Longrightarrow> at_call st' = at_call st \<and> at_thought_id st' = at_thought_id st
    \<and> at_text_id st' = at_text_id st"
  by (auto simp: on_delta_def Let_def split: if_splits)

lemma fold_deltas_frame:
  "fold (on_item author) (map YieldDelta ds) (es, st) = (es', st') \<Longrightarrow> at_call st' = at_call st \<and> at_thought_id st' = at_thought_id st
    \<and> at_text_id st' = at_text_id st"
proof (induction ds arbitrary: es st)
  case (Cons d ds)
  obtain es1 st1 where "on_delta author d (es, st) = (es1, st1)" by (cases "on_delta author d (es, st)") auto
  with Cons on_delta_frame [of author d es st es1 st1] show ?case by auto
qed simp

text \<open>The call of the stream, or the failure that ends it.\<close>

definition yielded_call :: "'a stream_yield list \<Rightarrow> 'a tool_call option" where
  "yielded_call items = (case List.map_filter (\<lambda>x. case x of YieldCall call \<Rightarrow> Some call | YieldDelta _ \<Rightarrow> None) items of
      [] \<Rightarrow> None | call # _ \<Rightarrow> Some call)"

lemma yielded_call_shape [simp]:
  "yielded_call (map YieldDelta ds @ (case call of None \<Rightarrow> [] | Some x \<Rightarrow> [YieldCall x])) = call"
proof -
  have "List.map_filter (\<lambda>x. case x of YieldCall call \<Rightarrow> Some call | YieldDelta _ \<Rightarrow> None) (map YieldDelta ds) = []"
    by (induction ds) (simp_all add: map_filter_simps)
  then show ?thesis by (cases call) (simp_all add: yielded_call_def map_filter_def)
qed

lemma stream_attempt_call:
  assumes "llm_stream cl system user messages tools has_ctx choice fresh = (items, f)"
    and "stream_attempt author items (fresh_attempt i j) = (es :: 'r agent_event list, st :: 'a attempt)"
  shows "at_call st = yielded_call items" and "f \<noteq> None \<Longrightarrow> at_call st = None"
proof -
  obtain ds call where items: "items = map YieldDelta ds @ (case call of None \<Rightarrow> [] | Some x \<Rightarrow> [YieldCall x])"
    and none: "f \<noteq> None \<longrightarrow> call = None" by (rule llm_stream_shape [OF assms(1)])
  obtain es1 :: "'r agent_event list" and st1 :: "'a attempt" where mid: "fold (on_item author) (map YieldDelta ds) ([], fresh_attempt i j) = (es1, st1)"
    by (rule prod.exhaust)
  have "at_call st1 = None" using fold_deltas_frame [OF mid] by (simp add: fresh_attempt_def)
  then have "at_call st = call"
    using assms(2) mid by (cases call) (auto simp: stream_attempt_def items)
  then show "at_call st = yielded_call items" "f \<noteq> None \<Longrightarrow> at_call st = None" using items none by simp_all
qed

section \<open>The decision: the first usable answer\<close>

text \<open>What the model's answer to these messages amounts to.\<close>

datatype 'a model_answer = Called "'a tool_call" | Unusable stream_failure | Broken stream_failure

definition classify :: "pystr \<Rightarrow> 'a stream_yield list \<times> stream_failure option \<Rightarrow> 'a model_answer" where
  "classify final_tool = (\<lambda>(items, f). (case f of
      Some (FailOther e) \<Rightarrow> Broken (FailOther e)
    | Some e \<Rightarrow> Unusable e
    | None \<Rightarrow> (case yielded_call items of
         Some call \<Rightarrow> Called call
       | None \<Rightarrow> Unusable (FailValue (py ''model did not call the '' @ final_tool @ py '' tool'')))))"

definition attempt_ctx :: "ctx \<Rightarrow> nat \<Rightarrow> ctx" where
  "attempt_ctx c k = c\<lparr>c_tick := c_tick c + 3 * k\<rparr>"

definition answer_to :: "('a, 'r) decision_agent \<Rightarrow> llm_client \<Rightarrow> pystr \<Rightarrow> ctx \<Rightarrow> nat \<Rightarrow> ChatMessage list \<Rightarrow> 'a model_answer" where
  "answer_to ag cl t c k ms = classify t (llm_stream cl (da_system_prompt ag) None (Some ms) (da_build_tools ag (attempt_ctx c k))
     True (forced_tool t) (c_uuid c (c_tick c + 3 * k + 2)))"

text \<open>The messages the \<open>k\<close>-th attempt sends: those of the turn and the feedback on each earlier answer.\<close>

definition answer_feedback :: "'a model_answer \<Rightarrow> pystr" where
  "answer_feedback a = (case a of Unusable (FailParse tool payload cause) \<Rightarrow> retry_feedback payload (FailParse tool payload cause)
     | Unusable e \<Rightarrow> retry_feedback [] e | _ \<Rightarrow> [])"

primrec conversation :: "('a, 'r) decision_agent \<Rightarrow> llm_client \<Rightarrow> pystr \<Rightarrow> ctx \<Rightarrow> ChatMessage list \<Rightarrow> nat \<Rightarrow> ChatMessage list" where
  "conversation ag cl t c ms 0 = ms"
| "conversation ag cl t c ms (Suc k) = conversation ag cl t c ms k
     @ [UserMessage (answer_feedback (answer_to ag cl t c k (conversation ag cl t c ms k)))]"

definition answer_at :: "('a, 'r) decision_agent \<Rightarrow> llm_client \<Rightarrow> pystr \<Rightarrow> ctx \<Rightarrow> ChatMessage list \<Rightarrow> nat \<Rightarrow> 'a model_answer" where
  "answer_at ag cl t c ms k = answer_to ag cl t c k (conversation ag cl t c ms k)"

definition is_unusable :: "'a model_answer \<Rightarrow> bool" where
  "is_unusable a = (case a of Unusable _ \<Rightarrow> True | _ \<Rightarrow> False)"

text \<open>Events that only emit.\<close>

definition quiet :: "'r agent_event list \<Rightarrow> bool" where
  "quiet es \<longleftrightarrow> (\<forall>e \<in> set es. case e of Emit _ \<Rightarrow> True | ResultEvent _ \<Rightarrow> False)"

lemma quiet_simps [simp]: "quiet []" "quiet (Emit e # es) = quiet es" "quiet (ResultEvent r # es) = False"
    "quiet (es @ es') = (quiet es \<and> quiet es')"
  by (auto simp: quiet_def)

lemma quiet_seal [simp]: "quiet (seal author st)"
  by (simp add: seal_def Let_def agent_chunk_def)

lemma quiet_on_item: "quiet es \<Longrightarrow> on_item author x (es, st) = (es', st') \<Longrightarrow> quiet es'"
  by (cases x) (auto simp: on_delta_def Let_def agent_chunk_def split: if_splits)

lemma quiet_fold: "fold (on_item author) items (es, st) = (es', st') \<Longrightarrow> quiet es \<Longrightarrow> quiet es'"
proof (induction items arbitrary: es st)
  case (Cons x items)
  obtain es1 st1 where x: "on_item author x (es, st) = (es1, st1)" by (cases "on_item author x (es, st)") auto
  show ?case using Cons.IH [of es1 st1] Cons.prems x quiet_on_item [OF Cons.prems(2) x] by simp
qed simp

lemma quiet_stream_attempt: "stream_attempt author items st = (es, st') \<Longrightarrow> quiet es"
  unfolding stream_attempt_def by (erule quiet_fold) simp

lemma consume_quiet: "quiet es \<Longrightarrow> fst (consume (es @ more_events) c) = fst (consume more_events (snd (consume es c)))"
  by (induction es c rule: consume.induct) simp_all

lemma consume_result: "fst (consume es c) = (case List.map_filter (\<lambda>e. case e of ResultEvent r \<Rightarrow> Some r | Emit _ \<Rightarrow> None) es of
    [] \<Rightarrow> None | r # _ \<Rightarrow> Some r)"
  by (induction es c rule: consume.induct) (simp_all add: map_filter_simps)

lemma consume_result_ctx: "fst (consume es c) = fst (consume es c')"
  by (simp add: consume_result)

definition decision_result :: "'r agent_event list \<times> stream_failure option \<times> ctx \<Rightarrow> stream_failure + 'r option" where
  "decision_result run = fst (run_agent run)"

lemma run_result_quiet: "quiet es \<Longrightarrow> decision_result (es @ more_events, f, c) = decision_result (more_events, f, c)"
  using consume_quiet [of es more_events c] consume_result_ctx [of more_events "snd (consume es c)" c]
  by (simp add: decision_result_def run_agent_def case_prod_beta Let_def split: option.split)

lemma run_result_simps [simp]:
  "decision_result (ResultEvent r # es, f, c) = Inr (Some r)" "decision_result ([], Some e, c) = Inl e"
  by (simp_all add: decision_result_def run_agent_def)

lemma run_result_ctx: "decision_result (es, f, c) = decision_result (es, f, c')"
  using consume_result_ctx [of es c c']
  by (simp add: decision_result_def run_agent_def case_prod_beta Let_def split: option.split)

lemma attempt_stream_at:
  "attempt_stream ag cl t ms (attempt_ctx c k) =
     (fresh_attempt (c_uuid c (c_tick c + 3 * k)) (c_uuid c (c_tick c + 3 * k + 1)),
      llm_stream cl (da_system_prompt ag) None (Some ms) (da_build_tools ag (attempt_ctx c k)) True (forced_tool t)
        (c_uuid c (c_tick c + 3 * k + 2)),
      attempt_ctx c (Suc k))"
  by (simp add: attempt_stream_def new_uuid_def attempt_ctx_def Let_def)

lemma classify_attempt:
  assumes "at_call st = yielded_call items" and "f \<noteq> None \<longrightarrow> at_call st = None"
  shows "attempt_failure t st f = (case classify t (items, f) of Called _ \<Rightarrow> None | Unusable e \<Rightarrow> Some e | Broken e \<Rightarrow> Some e)"
    and "classify t (items, f) = Called call \<Longrightarrow> at_call st = Some call"
    and "classify t (items, f) = Unusable e \<Longrightarrow> (\<forall>x. e \<noteq> FailOther x) \<and> retry_feedback (prev_payload st e) e = answer_feedback (Unusable e)"
    and "classify t (items, f) = Broken e \<Longrightarrow> \<exists>x. e = FailOther x"
  using assms
  by (auto simp: attempt_failure_def classify_def prev_payload_def answer_feedback_def split: option.splits stream_failure.splits)

definition first_usable :: "('a, 'r) decision_agent \<Rightarrow> llm_client \<Rightarrow> pystr \<Rightarrow> ctx \<Rightarrow> ChatMessage list \<Rightarrow> nat list \<Rightarrow> stream_failure + 'r option" where
  "first_usable ag cl t c ms ks = (case List.find (\<lambda>k. \<not> is_unusable (answer_at ag cl t c ms k)) ks of
      None \<Rightarrow> Inr (Some (da_process ag None))
    | Some k \<Rightarrow> (case answer_at ag cl t c ms k of
         Called call \<Rightarrow> Inr (Some (da_process ag (Some call)))
       | Broken e \<Rightarrow> Inl e
       | Unusable e \<Rightarrow> Inl e))"

lemma decide_loop_result:
  fixes ag :: "('a, 'b) decision_agent"
  shows "decision_result (decide_loop ag cl t left prev (conversation ag cl t c ms k) (attempt_ctx c k)) = first_usable ag cl t c ms [k..<k + left]"
proof (induction left arbitrary: prev k)
  case 0
  then show ?case by (simp add: run_result_quiet first_usable_def)
next
  case (Suc left)
  define msk where "msk = conversation ag cl t c ms k"
  obtain items f where run: "llm_stream cl (da_system_prompt ag) None (Some msk) (da_build_tools ag (attempt_ctx c k)) True
      (forced_tool t) (c_uuid c (c_tick c + 3 * k + 2)) = (items, f)" by (rule prod.exhaust)
  define st0 :: "'a attempt" where "st0 = fresh_attempt (c_uuid c (c_tick c + 3 * k)) (c_uuid c (c_tick c + 3 * k + 1))"
  obtain es :: "'b agent_event list" and st where st: "stream_attempt (da_name ag) items st0 = (es, st)" by (rule prod.exhaust)
  have call: "at_call st = yielded_call items" and none: "f \<noteq> None \<longrightarrow> at_call st = None"
    using stream_attempt_call [OF run, of "da_name ag"] st unfolding st0_def by blast+
  note fact = classify_attempt [OF call none]
  have quiet: "quiet es" by (rule quiet_stream_attempt [OF st])
  have ans: "answer_at ag cl t c ms k = classify t (items, f)"
    by (simp only: answer_at_def answer_to_def msk_def [symmetric] run)
  have "[k..<Suc (k + left)] = k # [Suc k..<Suc (k + left)]" by (simp add: upt_conv_Cons del: upt_Suc)
  then have fu: "first_usable ag cl t c ms [k..<Suc (k + left)] = (case classify t (items, f) of
       Called call \<Rightarrow> Inr (Some (da_process ag (Some call)))
     | Broken e \<Rightarrow> Inl e
     | Unusable e \<Rightarrow> first_usable ag cl t c ms [Suc k..<Suc (k + left)])"
    by (simp add: first_usable_def ans is_unusable_def split: model_answer.split del: upt_Suc)
  have astream: "attempt_stream ag cl t msk (attempt_ctx c k) = (st0, (items, f), attempt_ctx c (Suc k))"
    by (simp only: attempt_stream_at run st0_def)
  show ?case
  proof (cases "classify t (items, f)")
    case (Called call')
    then have "attempt_failure t st f = None" by (simp add: fact(1))
    then show ?thesis
      using Called fact(2) [OF Called] quiet
      by (simp add: msk_def [symmetric] astream st fu run_result_quiet del: upt_Suc)
  next
    case (Broken e)
    then obtain x where e: "e = FailOther x" using fact(4) by blast
    then have "attempt_failure t st f = Some (FailOther x)" using Broken by (simp add: fact(1))
    then show ?thesis
      using Broken e quiet run_result_quiet [OF quiet, of "[]" "Some (FailOther x)"]
      by (simp add: msk_def [symmetric] astream st fu del: upt_Suc)
  next
    case (Unusable e)
    then have fe: "attempt_failure t st f = Some e" by (simp add: fact(1))
    have notother: "\<forall>x. e \<noteq> FailOther x" and fb: "retry_feedback (prev_payload st e) e = answer_feedback (Unusable e)"
      using fact(3) [OF Unusable] by blast+
    have next_msgs: "msk @ [UserMessage (retry_feedback (prev_payload st e) e)] = conversation ag cl t c ms (Suc k)"
      using Unusable by (simp add: fb msk_def answer_at_def [symmetric] ans)
    obtain es2 f2 c2 where rest: "decide_loop ag cl t left st (conversation ag cl t c ms (Suc k)) (attempt_ctx c (Suc k)) = (es2, f2, c2)"
      by (rule prod_cases3)
    have "decide_loop ag cl t (Suc left) prev msk (attempt_ctx c k) = (es @ seal (da_name ag) st @ es2, f2, c2)"
      unfolding decide_loop.simps astream
      using fe notother next_msgs rest by (cases e) (simp_all add: st)
    then have "decision_result (decide_loop ag cl t (Suc left) prev msk (attempt_ctx c k)) = decision_result (es2, f2, c2)"
      using quiet by (simp add: run_result_quiet)
    also have "\<dots> = first_usable ag cl t c ms [Suc k..<Suc k + left]" using Suc.IH [of st "Suc k"] rest by simp
    finally show ?thesis using Unusable by (simp add: msk_def fu del: upt_Suc)
  qed
qed

text \<open>C24: the result of a decision is that of the first usable answer among at most \<open>max_retries + 1\<close> calls of the model,
  each call being sent the turn's messages and the feedback on every earlier answer: the tool call, processed; the
  exception when the service itself failed; the fallback \<open>process(None)\<close> when no answer was usable.\<close>

theorem decision_is_first_usable:
  "fst (run_agent (run_decision ag cl t user c)) =
     first_usable ag cl t c (c_messages c @ [UserMessage user]) [0..<nat (da_max_retries ag + 1)]"
  using decide_loop_result [of ag cl t "nat (da_max_retries ag + 1)" "fresh_attempt [] []" c "c_messages c @ [UserMessage user]" 0]
  by (simp add: run_decision_def decision_result_def attempt_ctx_def)

section \<open>Every streamed artifact is closed with its whole text\<close>

text \<open>The chunks of an artifact that are not the last (kind, text, append), and its closing events.\<close>

fun chunk_at :: "pystr \<Rightarrow> bool \<Rightarrow> 'r agent_event \<Rightarrow> (CwType \<times> pystr \<times> bool) option" where
  "chunk_at a lst (Emit (ChunkArtifact kind author artifact_id s app last_chunk)) =
     (if artifact_id = a \<and> last_chunk = lst then Some (kind, s, app) else None)"
| "chunk_at a lst _ = None"

definition chunks_of :: "pystr \<Rightarrow> 'r agent_event list \<Rightarrow> (CwType \<times> pystr \<times> bool) list" where
  "chunks_of a es = List.map_filter (chunk_at a False) es"

definition seals_of :: "pystr \<Rightarrow> 'r agent_event list \<Rightarrow> (CwType \<times> pystr \<times> bool) list" where
  "seals_of a es = List.map_filter (chunk_at a True) es"

lemma chunks_of_simps [simp]:
  "chunks_of a [] = []" "chunks_of a (es @ es') = chunks_of a es @ chunks_of a es'" "chunks_of a [ResultEvent r] = []"
  "chunks_of a [agent_chunk author s kind i app lst] = (if i = a \<and> \<not> lst then [(kind, s, app)] else [])"
  by (simp_all add: chunks_of_def map_filter_def agent_chunk_def)

lemma seals_of_simps [simp]:
  "seals_of a [] = []" "seals_of a (es @ es') = seals_of a es @ seals_of a es'" "seals_of a [ResultEvent r] = []"
  "seals_of a [agent_chunk author s kind i app lst] = (if i = a \<and> lst then [(kind, s, app)] else [])"
  by (simp_all add: seals_of_def map_filter_def agent_chunk_def)

text \<open>Chunks that start an artifact and append to it, and one closing event with the text of them all (repeated at most
  once).\<close>

definition first_then_append :: "CwType \<Rightarrow> pystr list \<Rightarrow> (CwType \<times> pystr \<times> bool) list" where
  "first_then_append kind ps = (case ps of [] \<Rightarrow> [] | p # qs \<Rightarrow> (kind, p, False) # map (\<lambda>q. (kind, q, True)) qs)"

definition closed_whole :: "(CwType \<times> pystr \<times> bool) list \<Rightarrow> (CwType \<times> pystr \<times> bool) list \<Rightarrow> bool" where
  "closed_whole cs ss \<longleftrightarrow> cs = [] \<and> ss = []
     \<or> (\<exists>kind ps. ps \<noteq> [] \<and> cs = first_then_append kind ps
          \<and> (ss = [(kind, concat ps, False)] \<or> ss = [(kind, concat ps, False), (kind, concat ps, False)]))"

lemma first_then_append_snoc: "first_then_append kind (ps @ [p]) = first_then_append kind ps @ [(kind, p, ps \<noteq> [])]"
  by (cases ps) (simp_all add: first_then_append_def)

lemma first_then_append_Nil [simp]: "first_then_append kind [] = []" "first_then_append kind ps = [] \<longleftrightarrow> ps = []"
  by (simp_all add: first_then_append_def split: list.split)

definition attempt_ok :: "'r agent_event list \<times> 'a attempt \<Rightarrow> bool" where
  "attempt_ok = (\<lambda>(es, st). at_thought_id st \<noteq> at_text_id st \<and> [] \<notin> set (at_reasoning st) \<and> [] \<notin> set (at_content st)
     \<and> (\<forall>a. seals_of a es = [] \<and> chunks_of a es =
          (if a = at_thought_id st then first_then_append THOUGHT (at_reasoning st)
           else if a = at_text_id st then first_then_append TEXT (at_content st) else [])))"

lemma attempt_ok_item: "attempt_ok p \<Longrightarrow> attempt_ok (on_item author x p)"
proof (cases p; cases x)
  fix es st call assume "attempt_ok p" "p = (es, st)" "x = YieldCall call"
  then show ?thesis by (simp add: attempt_ok_def)
next
  fix es st d assume ok: "attempt_ok p" and p: "p = (es, st)" and x: "x = YieldDelta d"
  define r where "r = (if dl_reasoning d = [] then (es, st) else let rs = at_reasoning st @ [dl_reasoning d] in
      (es @ [agent_chunk author (dl_reasoning d) THOUGHT (at_thought_id st) (length rs > 1) False], st\<lparr>at_reasoning := rs\<rparr>))"
  have "attempt_ok r" using ok unfolding p r_def attempt_ok_def by (auto simp: Let_def first_then_append_snoc)
  then show ?thesis
    unfolding p x on_item.simps on_delta_def prod.case r_def [symmetric]
    by (cases r) (auto simp: attempt_ok_def Let_def first_then_append_snoc)
qed

lemma attempt_ok_fold: "attempt_ok p \<Longrightarrow> attempt_ok (fold (on_item author) items p)"
  by (induction items arbitrary: p) (simp_all add: attempt_ok_item)

lemma attempt_ok_stream: "i \<noteq> j \<Longrightarrow> attempt_ok (stream_attempt author items (fresh_attempt i j))"
  unfolding stream_attempt_def by (rule attempt_ok_fold) (simp add: attempt_ok_def fresh_attempt_def)

lemma concat_eq_Nil_nonempty: "[] \<notin> set xs \<Longrightarrow> concat xs = [] \<longleftrightarrow> xs = []"
  by (cases xs) auto

lemma chunks_of_seal [simp]: "chunks_of a (seal author st) = []"
  by (simp add: seal_def Let_def)

definition closing :: "pystr \<Rightarrow> 'a attempt \<Rightarrow> (CwType \<times> pystr \<times> bool) list" where
  "closing a st = (if concat (at_reasoning st) \<noteq> [] \<and> at_thought_id st = a then [(THOUGHT, concat (at_reasoning st), False)] else [])
     @ (if concat (at_content st) \<noteq> [] \<and> at_text_id st = a then [(TEXT, concat (at_content st), False)] else [])"

lemma seals_of_seal [simp]: "seals_of a (seal author st) = closing a st"
  by (simp add: seal_def closing_def Let_def)

lemma closing_other: "a \<noteq> at_thought_id st \<Longrightarrow> a \<noteq> at_text_id st \<Longrightarrow> closing a st = []"
  by (simp add: closing_def)

text \<open>An attempt and its closing events, the latter once or twice.\<close>

lemma attempt_closed:
  assumes "attempt_ok (es, st)" and "ss = [] \<or> ss = closing a st"
  shows "closed_whole (chunks_of a es) (seals_of a es @ closing a st @ ss)"
proof -
  have ne: "concat (at_reasoning st) = [] \<longleftrightarrow> at_reasoning st = []" "concat (at_content st) = [] \<longleftrightarrow> at_content st = []"
    using assms(1) concat_eq_Nil_nonempty unfolding attempt_ok_def prod.case by blast+
  show ?thesis
  proof (cases "a = at_thought_id st")
    case True
    then show ?thesis using assms ne by (auto simp: attempt_ok_def closed_whole_def closing_def Let_def)
  next
    case False
    then show ?thesis using assms ne by (cases "a = at_text_id st") (auto simp: attempt_ok_def closed_whole_def closing_def Let_def)
  qed
qed

lemma on_item_ids: "at_thought_id (snd (on_item author x p)) = at_thought_id (snd p) \<and> at_text_id (snd (on_item author x p)) = at_text_id (snd p)"
  by (cases p; cases x) (auto simp: on_delta_def Let_def)

lemma fold_item_ids: "at_thought_id (snd (fold (on_item author) items p)) = at_thought_id (snd p)
    \<and> at_text_id (snd (fold (on_item author) items p)) = at_text_id (snd p)"
  by (induction items arbitrary: p) (simp_all add: on_item_ids)

lemma stream_attempt_ids:
  assumes "stream_attempt author items (fresh_attempt i j) = (es :: 'r agent_event list, st :: 'a attempt)"
  shows "at_thought_id st = i" "at_text_id st = j"
  using fold_item_ids [of author items "([] :: 'r agent_event list, fresh_attempt i j :: 'a attempt)"] assms
  by (simp_all add: stream_attempt_def fresh_attempt_def)

definition fresh_ids :: "ctx \<Rightarrow> pystr set" where
  "fresh_ids c = c_uuid c ` {n. c_tick c \<le> n}"

lemma attempt_stream_ids:
  assumes "attempt_stream ag cl t ms c = (st0, run, c1)" and "inj (c_uuid c)"
  obtains i j where "st0 = fresh_attempt i j" "i \<noteq> j" "i \<in> fresh_ids c" "j \<in> fresh_ids c" "i \<notin> fresh_ids c1" "j \<notin> fresh_ids c1"
    "fresh_ids c1 \<subseteq> fresh_ids c" "c_uuid c1 = c_uuid c"
proof -
  have "st0 = fresh_attempt (c_uuid c (c_tick c)) (c_uuid c (Suc (c_tick c)))" "c_uuid c1 = c_uuid c" "c_tick c1 = Suc (Suc (Suc (c_tick c)))"
    using assms(1) by (auto simp: attempt_stream_def new_uuid_def Let_def)
  moreover have "fresh_ids c1 \<subseteq> fresh_ids c"
    using calculation by (auto simp: fresh_ids_def)
  ultimately show ?thesis
    using assms(2) that [of "c_uuid c (c_tick c)" "c_uuid c (Suc (c_tick c))"]
    by (auto simp: fresh_ids_def inj_eq inj_image_mem_iff)
qed

lemma decide_loop_closed:
  fixes ag :: "('a, 'b) decision_agent"
  assumes "decide_loop ag cl t left prev ms c = (es, None, c')" and "inj (c_uuid c)"
    and "\<forall>a \<in> fresh_ids c. closing a prev = []"
  shows "(a \<in> fresh_ids c \<longrightarrow> closed_whole (chunks_of a es) (seals_of a es))
    \<and> (a \<notin> fresh_ids c \<longrightarrow> chunks_of a es = [] \<and> (seals_of a es = [] \<or> seals_of a es = closing a prev))"
  using assms
proof (induction left arbitrary: prev ms c es)
  case 0
  then show ?case by (auto simp: closed_whole_def)
next
  case (Suc left)
  obtain st0 run c1 where run0: "attempt_stream ag cl t ms c = (st0, run, c1)" by (rule prod_cases3)
  obtain items f where "run = (items, f)" by (rule prod.exhaust)
  with run0 have run: "attempt_stream ag cl t ms c = (st0, (items, f), c1)" by simp
  obtain i j where ids: "st0 = fresh_attempt i j" "i \<noteq> j" "i \<in> fresh_ids c" "j \<in> fresh_ids c" "i \<notin> fresh_ids c1" "j \<notin> fresh_ids c1"
    "fresh_ids c1 \<subseteq> fresh_ids c" "c_uuid c1 = c_uuid c" by (rule attempt_stream_ids [OF run Suc.prems(2)])
  obtain es1 st where st: "stream_attempt (da_name ag) items st0 = (es1 :: 'b agent_event list, st)" by (rule prod.exhaust)
  have ok: "attempt_ok (es1, st)" unfolding st [symmetric] ids(1) by (rule attempt_ok_stream [OF ids(2)])
  have ids': "at_thought_id st = i" "at_text_id st = j" using stream_attempt_ids [of "da_name ag" items i j es1 st] st ids(1) by simp_all
  have other: "chunks_of a es1 = []" "seals_of a es1 = []" "closing a st = []" if "a \<noteq> i" "a \<noteq> j"
    using that ok ids' by (auto simp: attempt_ok_def closing_other)
  have one: "closed_whole (chunks_of a es1) (seals_of a es1 @ closing a st @ ss)"
    if "ss = [] \<or> ss = closing a st" for ss by (rule attempt_closed [OF ok that])
  show ?case
  proof (cases "attempt_failure t st f")
    case None
    then have "es = es1 @ seal (da_name ag) st @ [ResultEvent (da_process ag (at_call st))]"
      using Suc.prems(1) by (simp add: run st)
    then show ?thesis using one [of "[]"] other ids(3,4) by auto
  next
    case (Some e)
    have "\<forall>x. e \<noteq> FailOther x" using Suc.prems(1) Some by (cases e) (auto simp: run st)
    then obtain ms' es2 where rest: "decide_loop ag cl t left st ms' c1 = (es2, None, c')" and es: "es = es1 @ seal (da_name ag) st @ es2"
      using Suc.prems(1) Some by (cases e) (auto simp: run st split: prod.splits)
    have "\<forall>a \<in> fresh_ids c1. closing a st = []"
      using ids(5,6) ids' by (metis closing_other)
    then have IH: "(a \<in> fresh_ids c1 \<longrightarrow> closed_whole (chunks_of a es2) (seals_of a es2))
      \<and> (a \<notin> fresh_ids c1 \<longrightarrow> chunks_of a es2 = [] \<and> (seals_of a es2 = [] \<or> seals_of a es2 = closing a st))"
      using Suc.IH [OF rest] Suc.prems(2) ids(8) by simp
    show ?thesis
    proof (cases "a = i \<or> a = j")
      case True
      then show ?thesis using one [of "seals_of a es2"] IH ids(3-6) by (auto simp: es)
    next
      case False
      then show ?thesis using other IH ids(7) by (auto simp: es closed_whole_def)
    qed
  qed
qed

text \<open>Whatever the model streams and however often it is asked again, every artifact a decision agent opens on the
  client's screen (one for the thoughts and one for the text of each attempt) starts with a chunk that replaces and goes on
  with chunks that append, and is closed by an event that carries exactly the joined text.  The closing event comes once, or
  twice for the last attempt of a run that used up its retries.\<close>

theorem decision_chunks_closed:
  assumes "run_decision ag cl t user c = (es, None, c')" and "inj (c_uuid c)"
  shows "closed_whole (chunks_of a es) (seals_of a es)"
proof -
  have none: "closing x (fresh_attempt [] []) = []" for x by (simp add: closing_def fresh_attempt_def)
  show ?thesis
    using decide_loop_closed [OF assms(1) [unfolded run_decision_def] assms(2), of a] none
    by (auto simp: closed_whole_def)
qed

section \<open>The turn around a decision\<close>

text \<open>Running an agent only adds chunks to the event log and takes ids.\<close>

fun emitted :: "'r agent_event list \<Rightarrow> a2a_event list" where
  "emitted [] = []"
| "emitted (ResultEvent r # es) = []"
| "emitted (Emit e # es) = e # emitted es"

lemma consume_events:
  "snd (consume es c) = c\<lparr>c_events := c_events c @ map (\<lambda>e. (c_task_id c, c_context_id c, e)) (emitted es)\<rparr>"
  by (induction es c rule: consume.induct) (simp_all add: emit_def)

lemma decide_loop_ctx:
  fixes ag :: "('a, 'b) decision_agent"
  shows "\<exists>n. snd (snd (decide_loop ag cl t left prev ms c)) = c\<lparr>c_tick := n\<rparr>"
proof (induction left arbitrary: prev ms c)
  case 0
  show ?case by (rule exI [of _ "c_tick c"]) simp
next
  case (Suc left)
  obtain st0 run c1 where run: "attempt_stream ag cl t ms c = (st0, run, c1)" by (rule prod_cases3)
  obtain items f where "run = (items, f)" by (rule prod.exhaust)
  note run = run [unfolded this]
  have c1: "c1 = c\<lparr>c_tick := c_tick c + 3\<rparr>" using run by (auto simp: attempt_stream_def new_uuid_def Let_def)
  obtain es :: "'b agent_event list" and st where st: "stream_attempt (da_name ag) items st0 = (es, st)" by (rule prod.exhaust)
  have rest: "\<exists>n. b = c\<lparr>c_tick := n\<rparr>" if "decide_loop ag cl t left st ms' (c\<lparr>c_tick := c_tick c + 3\<rparr>) = (x, y, b)" for ms' x y b
    using Suc.IH [of st ms' "c\<lparr>c_tick := c_tick c + 3\<rparr>"] that by simp
  show ?case
  proof (cases "attempt_failure t st f")
    case None
    then show ?thesis by (auto simp: run st c1)
  next
    case (Some e)
    then show ?thesis by (cases e) (auto simp: run st c1 split: prod.splits dest: rest)
  qed
qed

text \<open>Emission and ids are all a decision changes: the flows may take its result and go on with the same state.\<close>

lemma run_decision_frame:
  "\<exists>es n. snd (run_agent (run_decision ag cl t user c)) = c\<lparr>c_tick := n, c_events := es\<rparr>"
proof -
  obtain es f c1 where run: "run_decision ag cl t user c = (es, f, c1)" by (rule prod_cases3)
  then obtain n where "c1 = c\<lparr>c_tick := n\<rparr>"
    using decide_loop_ctx [of ag cl t "nat (da_max_retries ag + 1)" "fresh_attempt [] []" "c_messages c @ [UserMessage user]" c]
    by (auto simp: run_decision_def)
  moreover have "snd (run_agent (run_decision ag cl t user c)) = snd (consume es c1)"
    by (simp add: run_agent_def run case_prod_beta Let_def split: option.split)
  ultimately show ?thesis by (auto simp: consume_events)
qed

section \<open>The three agents\<close>

definition structured_tool :: "string \<Rightarrow> pystr \<Rightarrow> json \<Rightarrow> (pystr \<Rightarrow> pystr + 'a) \<Rightarrow> ('a \<Rightarrow> pystr) \<Rightarrow> 'a llm_tool" where
  "structured_tool n description schema validate dump =
     \<lparr>lt_name = py n, lt_description = description, lt_schema = schema, lt_validate = validate, lt_dump = dump\<rparr>"

text \<open>What pydantic and the prompt files contribute to an agent.\<close>

record 'a agent_env =
  ae_prompt :: pystr
  ae_schema :: "pystr list \<Rightarrow> json"
  ae_validate :: "pystr list \<Rightarrow> pystr \<Rightarrow> pystr + 'a"
  ae_dump :: "'a \<Rightarrow> pystr"

definition outcome_agent :: "OutcomeResult agent_env \<Rightarrow> (OutcomeResult, OutcomeResult) decision_agent" where
  "outcome_agent env = \<lparr>da_name = py ''outcome'', da_system_prompt = ae_prompt env, da_final_tool = Some (py ''OutcomeDecision''),
     da_max_retries = 2,
     da_build_tools = (\<lambda>_. [structured_tool ''OutcomeDecision'' (py ''Decide what an agent'' @ [39] @ py ''s final reply means for the plan.'')
        (ae_schema env []) (ae_validate env []) (ae_dump env)]),
     da_process = (\<lambda>call. case call of None \<Rightarrow> deliver_result | Some x \<Rightarrow> tc_args x)\<rparr>"

text \<open>\<open>RepairResult\<close> is its patch.\<close>

definition repair_agent :: "PlanPatch agent_env \<Rightarrow> (PlanPatch, PlanPatch option) decision_agent" where
  "repair_agent env = \<lparr>da_name = py ''repair'', da_system_prompt = ae_prompt env, da_final_tool = Some (py ''RepairDecision''),
     da_max_retries = 0,
     da_build_tools = (\<lambda>_. [structured_tool ''RepairDecision'' (py ''Produce an incremental repair patch for a failed plan.'')
        (ae_schema env []) (ae_validate env []) (ae_dump env)]),
     da_process = map_option tc_args\<rparr>"

definition HUMAN_TARGET :: pystr where
  "HUMAN_TARGET = py ''human''"

text \<open>\<open>assistance_schema\<close> constrains the target to these names; without candidates it is not constrained.\<close>

definition target_names :: "pystr list \<Rightarrow> pystr list" where
  "target_names candidate_names = (if candidate_names = [] then [] else HUMAN_TARGET # candidate_names)"

definition assistance_tools :: "AssistanceResult agent_env \<Rightarrow> pystr set \<Rightarrow> ctx \<Rightarrow> AssistanceResult llm_tool list" where
  "assistance_tools env exclude c =
     (let names = target_names (map ag_name (filter (\<lambda>a. ag_name a \<notin> exclude) (registry_list c)))
      in [structured_tool ''AssistanceDecision'' (py ''Decide how to handle a blocked agent.'')
            (ae_schema env names) (ae_validate env names) (ae_dump env)])"

definition assistance_process :: "AssistanceResult tool_call option \<Rightarrow> AssistanceResult" where
  "assistance_process call = (case call of
      None \<Rightarrow> empty_assistance
    | Some x \<Rightarrow> (if as_target_agent (tc_args x) = Some HUMAN_TARGET then (tc_args x)\<lparr>as_target_agent := None\<rparr> else tc_args x))"

definition assistance_agent :: "AssistanceResult agent_env \<Rightarrow> pystr set \<Rightarrow> (AssistanceResult, AssistanceResult) decision_agent" where
  "assistance_agent env exclude = \<lparr>da_name = py ''assistance'', da_system_prompt = ae_prompt env,
     da_final_tool = Some (py ''AssistanceDecision''), da_max_retries = 2,
     da_build_tools = assistance_tools env exclude, da_process = assistance_process\<rparr>"

text \<open>What the flows see of an agent: its result, \<open>None\<close> when it raised or gave none.\<close>

definition agent_answer :: "('a, 'r) decision_agent \<Rightarrow> llm_client \<Rightarrow> pystr \<Rightarrow> ctx \<Rightarrow> 'r option" where
  "agent_answer ag cl user c = (case da_final_tool ag of None \<Rightarrow> None | Some t \<Rightarrow>
     (case fst (run_agent (run_decision ag cl t user c)) of Inr r \<Rightarrow> r | Inl _ \<Rightarrow> None))"

section \<open>Whom the assistance agent may ask\<close>

text \<open>A result that is not the fallback comes from a validated call.\<close>

lemma spec_call_validated: "spec_call tools fresh cs = Inr (Some call) \<Longrightarrow>
    \<exists>tool \<in> set tools. \<exists>payload. lt_validate tool payload = Inr (tc_args call)"
proof -
  assume "spec_call tools fresh cs = Inr (Some call)"
  then obtain n payload tool where "find_tool tools n = Some tool" "lt_validate tool payload = Inr (tc_args call)"
    by (auto simp: spec_call_def Let_def split: if_splits option.splits sum.splits)
  moreover from this have "tool \<in> set tools" by (auto simp: find_tool_def find_Some_iff) (metis nth_mem set_rev length_rev)
  ultimately show ?thesis by blast
qed

lemma llm_stream_validated:
  assumes "llm_stream cl system user messages tools True choice fresh = (items, f)" and "yielded_call items = Some call"
  shows "\<exists>tool \<in> set tools. \<exists>payload. lt_validate tool payload = Inr (tc_args call)"
proof -
  have none: "yielded_call (map YieldDelta ds :: 'a stream_yield list) = None" for ds
    using yielded_call_shape [of ds None] by simp
  obtain chs where "items = map YieldDelta (stream_deltas chs) @ [YieldCall call]"
      and "spec_call tools fresh (delta_calls (stream_deltas chs)) = Inr (Some call)"
  proof (cases "lc_completion_fn cl (stream_request cl system user messages tools choice)")
    case (Streamed chs broken)
    have y: "yielded_call (map YieldDelta (stream_deltas chs) @ [YieldCall x]) = Some x" for x :: "'a tool_call"
      using yielded_call_shape [of "stream_deltas chs" "Some x"] by simp
    show ?thesis
      using assms none [of "stream_deltas chs"] none [of "[]"] y that [of chs]
      by (auto simp: llm_stream_def Let_def Streamed finish_stream_spec split: if_splits option.splits sum.splits)
  qed (use assms none [of "[]"] in \<open>auto simp: llm_stream_def split: if_splits\<close>)
  then show ?thesis by (auto dest: spec_call_validated)
qed

lemma answer_validated:
  assumes "answer_at ag cl t c ms k = Called call"
  shows "\<exists>tool \<in> set (da_build_tools ag (attempt_ctx c k)). \<exists>payload. lt_validate tool payload = Inr (tc_args call)"
proof -
  obtain items f where run: "llm_stream cl (da_system_prompt ag) None (Some (conversation ag cl t c ms k))
      (da_build_tools ag (attempt_ctx c k)) True (forced_tool t) (c_uuid c (c_tick c + 3 * k + 2)) = (items, f)" by (rule prod.exhaust)
  have "classify t (items, f) = Called call" using assms unfolding answer_at_def answer_to_def run .
  then have "yielded_call items = Some call" by (auto simp: classify_def split: option.splits stream_failure.splits)
  then show ?thesis by (rule llm_stream_validated [OF run])
qed

lemma agent_answer_cases:
  assumes "agent_answer ag cl user c = Some r"
  shows "r = da_process ag None \<or> (\<exists>k call. r = da_process ag (Some call)
    \<and> (\<exists>tool \<in> set (da_build_tools ag (attempt_ctx c k)). \<exists>payload. lt_validate tool payload = Inr (tc_args call)))"
proof -
  define ms where "ms = c_messages c @ [UserMessage user]"
  have loop: "fst (run_agent (run_decision ag cl t user c)) = first_usable ag cl t c ms [0..<nat (da_max_retries ag + 1)]" for t
    using decide_loop_result [of ag cl t "nat (da_max_retries ag + 1)" "fresh_attempt [] []" c ms 0]
    by (simp add: run_decision_def decision_result_def attempt_ctx_def ms_def)
  obtain t where "first_usable ag cl t c ms [0..<nat (da_max_retries ag + 1)] = Inr (Some r)"
    using assms by (auto simp: agent_answer_def loop split: option.splits sum.splits)
  then show ?thesis
    by (auto simp: first_usable_def split: option.splits model_answer.splits dest!: answer_validated)
qed

text \<open>\<open>Literal\<close> of pydantic: a validated target is one of the allowed names, when there are any.\<close>

definition literal_targets :: "AssistanceResult agent_env \<Rightarrow> bool" where
  "literal_targets env \<longleftrightarrow> (\<forall>names s r n. names \<noteq> [] \<longrightarrow> ae_validate env names s = Inr r \<longrightarrow> as_target_agent r = Some n \<longrightarrow> n \<in> set names)"

lemma registry_list_attempt [simp]: "registry_list (attempt_ctx c k) = registry_list c"
  by (simp add: registry_list_def attempt_ctx_def)

lemma assistance_answer_target:
  assumes "agent_answer (assistance_agent env exclude) cl user c = Some d" and "literal_targets env"
    and "as_target_agent d = Some n" and "filter (\<lambda>a. ag_name a \<notin> exclude) (registry_list c) \<noteq> []"
  shows "n \<in> ag_name ` set (c_agents c) \<and> n \<notin> exclude \<and> n \<noteq> HUMAN_TARGET"
proof -
  define names where "names = map ag_name (filter (\<lambda>a. ag_name a \<notin> exclude) (registry_list c))"
  obtain call payload where d: "d = assistance_process (Some call)" and v: "ae_validate env (target_names names) payload = Inr (tc_args call)"
    using agent_answer_cases [OF assms(1)] assms(3)
    by (auto simp: assistance_agent_def assistance_process_def empty_assistance_def assistance_tools_def structured_tool_def Let_def names_def)
  have t: "as_target_agent (tc_args call) = Some n" "n \<noteq> HUMAN_TARGET"
    using assms(3) by (auto simp: d assistance_process_def split: if_splits)
  have "names \<noteq> []" using assms(4) by (simp add: names_def)
  then have "n \<in> set (HUMAN_TARGET # names)"
    using assms(2) v t(1) unfolding literal_targets_def target_names_def by (metis (full_types) list.distinct(1))
  then show ?thesis using t(2) by (auto simp: names_def registry_list_def)
qed

text \<open>C29: the agent that is asked to help a blocked node is a registered one, and neither the node's own agent nor one of
  those up its chain of assistance, so that help never runs in a circle; otherwise the question goes to the human.  This
  holds for whatever the model streams, given that pydantic checks \<open>Literal\<close> types.\<close>

theorem assistance_outside_chain:
  assumes "decide_assistance_impl (\<lambda>user. agent_answer (assistance_agent env (assist_chain_agents (c_state c) node)) cl user c) k node c
      = Inr (Some d, c')"
    and "literal_targets env" and "as_target_agent d = Some n"
  shows "n \<in> ag_name ` set (c_agents c) \<and> n \<notin> assist_chain_agents (c_state c) node \<and> n \<noteq> HUMAN_TARGET"
proof -
  let ?chain = "assist_chain_agents (c_state c) node"
  let ?ag = "assistance_agent env ?chain"
  have "filter (\<lambda>a. ag_name a \<notin> ?chain) (registry_list c) \<noteq> []"
    using assms(1,3) by (auto simp: decide_assistance_impl_def Let_def empty_assistance_def split: option.splits if_splits)
  moreover obtain user where "agent_answer ?ag cl user c = Some d"
    using assms(1,3) calculation
    by (auto simp: decide_assistance_impl_def Let_def empty_assistance_def ebind_eq_Inr split: option.splits if_splits)
  ultimately show ?thesis using assistance_answer_target assms(2,3) by blast
qed

section \<open>Examples\<close>

definition example_env :: "AssistanceResult agent_env" where
  "example_env = \<lparr>ae_prompt = [], ae_schema = (\<lambda>_. JNull),
     ae_validate = (\<lambda>names s. if names = [] \<or> s \<in> set names then Inr (empty_assistance\<lparr>as_target_agent := Some s\<rparr>) else Inl (py ''no such target'')),
     ae_dump = (\<lambda>r. [])\<rparr>"

definition example_answer :: "string \<Rightarrow> stream_chunk list" where
  "example_answer target = [example_delta ''hm'' [] [], example_delta ''m'' ''x'' [(''AssistanceDecision'', target)]]"

lemma decision_chunks_closed_witness:
  "inj (c_uuid (example_ctx empty_state))
   \<and> closed_whole (chunks_of (py ''u0'') (fst (run_decision (assistance_agent example_env {}) (example_client (example_answer ''B''))
        (py ''AssistanceDecision'') [] (example_ctx empty_state))))
      (seals_of (py ''u0'') (fst (run_decision (assistance_agent example_env {}) (example_client (example_answer ''B''))
        (py ''AssistanceDecision'') [] (example_ctx empty_state))))"
proof -
  have inj: "inj (c_uuid (example_ctx empty_state))" by (auto simp: inj_def example_ctx_def)
  obtain es f c' where run: "run_decision (assistance_agent example_env {}) (example_client (example_answer ''B''))
        (py ''AssistanceDecision'') [] (example_ctx empty_state) = (es, f, c')" by (rule prod_cases3)
  have "fst (snd (run_decision (assistance_agent example_env {}) (example_client (example_answer ''B''))
        (py ''AssistanceDecision'') [] (example_ctx empty_state))) = None" by code_simp
  then have "f = None" by (simp add: run)
  then show ?thesis using decision_chunks_closed [OF run [unfolded \<open>f = None\<close>] inj] inj run by simp
qed

definition blocked_example :: NodeState where
  "blocked_example = (new_node (py ''n1'') [] (py ''A''))\<lparr>n_question := Some (py ''q'')\<rparr>"

lemma assistance_outside_chain_witness:
  "\<exists>d c'. decide_assistance_impl (\<lambda>user. agent_answer (assistance_agent example_env (assist_chain_agents empty_state blocked_example))
        (example_client (example_answer ''B'')) user (example_ctx empty_state)) (py ''n1'') blocked_example (example_ctx empty_state)
      = Inr (Some d, c')
    \<and> as_target_agent d = Some (py ''B'') \<and> py ''B'' \<notin> assist_chain_agents empty_state blocked_example"
proof -
  let ?c = "example_ctx empty_state"
  let ?llm = "\<lambda>user. agent_answer (assistance_agent example_env (assist_chain_agents empty_state blocked_example))
        (example_client (example_answer ''B'')) user ?c"
  have "(case decide_assistance_impl ?llm (py ''n1'') blocked_example ?c of
      Inr (Some d, _) \<Rightarrow> as_target_agent d = Some (py ''B'') | _ \<Rightarrow> False)" by code_simp
  then obtain d c' where run: "decide_assistance_impl ?llm (py ''n1'') blocked_example ?c = Inr (Some d, c')"
    and t: "as_target_agent d = Some (py ''B'')" by (auto split: sum.splits option.splits prod.splits)
  have "literal_targets example_env" by (auto simp: literal_targets_def example_env_def split: if_splits)
  moreover have "c_state ?c = empty_state" by (simp add: example_ctx_def)
  ultimately show ?thesis
    using assistance_outside_chain [of example_env ?c blocked_example "example_client (example_answer ''B'')" "py ''n1''" d c' "py ''B''"]
      run t by auto
qed

text \<open>A repair agent (no retries) whose model thinks aloud and calls nothing: the thought is closed twice.\<close>

lemma exhausted_run_closes_twice:
  "length (seals_of (py ''u0'') (fst (run_decision ((assistance_agent example_env {})\<lparr>da_max_retries := 0\<rparr>)
     (example_client [example_delta ''hm'' [] []]) (py ''AssistanceDecision'') [] (example_ctx empty_state)))) = 2"
  by code_simp

end
