(* ===== verification/Lite_Llm.thy ===== *)
theory Lite_Llm
  imports Llm_Stream Llm_Node
begin

text \<open>
  The language model client of \<open>new_choirworks\<close>: \<open>core/models/lite_llm.py\<close> (requests, streamed and whole answers as
  \<open>LLMResponse\<close>s, tool calls assembled from fragments, the strict form of an output schema) and
  \<open>core/utils/schema_utils.py\<close>.  The completion service, \<open>json.loads\<close> and the pydantic schema are parameters.  The
  buffer of fragments is a second provider of the interface \<open>call_assembler\<close> of \<open>Llm_Stream\<close>.
\<close>

section \<open>Tool calls from fragments\<close>

record tool_call_buffer =
  tb_id :: pystr
  tb_name :: pystr
  tb_args :: "pystr list"

definition fill_buffer :: "delta_call \<Rightarrow> tool_call_buffer \<Rightarrow> tool_call_buffer" where
  "fill_buffer c b = b\<lparr>tb_id := (if dc_id c \<noteq> [] then dc_id c else tb_id b),
     tb_name := (if dc_name c \<noteq> [] then dc_name c else tb_name b),
     tb_args := (if dc_arguments c \<noteq> [] then tb_args b @ [dc_arguments c] else tb_args b)\<rparr>"

definition collect_call :: "delta_call \<Rightarrow> (int, tool_call_buffer) dict \<Rightarrow> (int, tool_call_buffer) dict" where
  "collect_call c d = d_modify (dc_index c) (fill_buffer c)
     (d_setdefault (dc_index c) \<lparr>tb_id = dc_id c, tb_name = dc_name c, tb_args = []\<rparr> d)"

definition tool_buffer_at :: "(int, tool_call_buffer) dict \<Rightarrow> int \<Rightarrow> tool_call_buffer" where
  "tool_buffer_at d i = d_get d i \<lparr>tb_id = [], tb_name = [], tb_args = []\<rparr>"

interpretation tools_buffer: call_assembler "[]" collect_call "map fst" "\<lambda>d i. concat (tb_args (tool_buffer_at d i))"
  "\<lambda>d i. tb_name (tool_buffer_at d i)" "\<lambda>d i. tb_id (tool_buffer_at d i)"
proof unfold_locales
  fix c i and d :: "(int, tool_call_buffer) dict"
  have at: "tool_buffer_at (collect_call c d) i = (if i = dc_index c
      then fill_buffer c (case map_of d i of None \<Rightarrow> \<lparr>tb_id = dc_id c, tb_name = dc_name c, tb_args = []\<rparr> | Some b \<Rightarrow> b)
      else tool_buffer_at d i)"
    by (simp add: tool_buffer_at_def collect_call_def d_get_def map_of_d_setdefault split: option.split)
  show "d_keys (collect_call c d) = (if dc_index c \<in> set (d_keys d) then d_keys d else d_keys d @ [dc_index c])"
    by (simp add: collect_call_def d_setdefault_keys)
  show "concat (tb_args (tool_buffer_at (collect_call c d) i)) =
      (if i = dc_index c then concat (tb_args (tool_buffer_at d i)) @ dc_arguments c else concat (tb_args (tool_buffer_at d i)))"
    unfolding at by (simp add: fill_buffer_def tool_buffer_at_def d_get_def split: option.split)
  show "tb_name (tool_buffer_at (collect_call c d) i) =
      (if i = dc_index c \<and> dc_name c \<noteq> [] then dc_name c else tb_name (tool_buffer_at d i))"
    unfolding at by (simp add: fill_buffer_def tool_buffer_at_def d_get_def split: option.split)
  show "tb_id (tool_buffer_at (collect_call c d) i) =
      (if i = dc_index c \<and> dc_id c \<noteq> [] then dc_id c else tb_id (tool_buffer_at d i))"
    unfolding at by (simp add: fill_buffer_def tool_buffer_at_def d_get_def split: option.split)
qed (simp_all add: tool_buffer_at_def d_get_def)

section \<open>Responses\<close>

text \<open>\<open>_build_parts\<close> of a delta or a message: thoughts first.\<close>

definition build_parts :: "pystr \<Rightarrow> pystr \<Rightarrow> LLMResponsePart list" where
  "build_parts reasoning content = (if reasoning \<noteq> [] then [text_response_part True reasoning] else [])
     @ (if content \<noteq> [] then [text_response_part False content] else [])"

definition parts_response :: "LLMResponsePart list \<Rightarrow> LLMResponse list" where
  "parts_response ps = (if ps = [] then [] else [\<lparr>lr_parts = Some ps, lr_error_code = None, lr_error_message = None\<rparr>])"

text \<open>\<open>loads\<close> is \<open>json.loads\<close>, \<open>Inl\<close> the text of a \<open>JSONDecodeError\<close>.\<close>

type_synonym json_loads = "pystr \<Rightarrow> pystr + json"

definition MALFORMED_FUNCTION_CALL :: pystr where
  "MALFORMED_FUNCTION_CALL = py ''MALFORMED_FUNCTION_CALL''"

definition build_function_call_response :: "json_loads \<Rightarrow> pystr \<Rightarrow> pystr \<Rightarrow> pystr \<Rightarrow> LLMResponse" where
  "build_function_call_response loads function_name function_args call_id =
     (let (args, error) = (if function_name = [] then (JObj [], Some (py ''missing function name, call_id='' @ call_id))
            else if function_args = [] then (JObj [], None)
            else case loads function_args of
              Inl e \<Rightarrow> (JObj [], Some (py ''invalid arguments JSON for '' @ function_name @ py '': '' @ e))
            | Inr v \<Rightarrow> (v, None))
      in \<lparr>lr_parts = Some [call_response_part \<lparr>fc_id = call_id, fc_name = function_name, fc_args = args\<rparr>],
          lr_error_code = map_option (\<lambda>_. MALFORMED_FUNCTION_CALL) error, lr_error_message = error\<rparr>)"

text \<open>\<open>_stream\<close>: a response per delta that says something, then one per assembled call.  A choice without delta raises.\<close>

fun lite_chunks :: "stream_chunk list \<Rightarrow> LLMResponse list \<times> (int, tool_call_buffer) dict \<Rightarrow> exn option \<times> LLMResponse list \<times> (int, tool_call_buffer) dict" where
  "lite_chunks [] (rs, d) = (None, rs, d)"
| "lite_chunks ([] # chs) (rs, d) = lite_chunks chs (rs, d)"
| "lite_chunks ((None # others) # chs) (rs, d) = (Some AttributeError, rs, d)"
| "lite_chunks ((Some delta # others) # chs) (rs, d) =
     lite_chunks chs (rs @ parts_response (build_parts (dl_reasoning delta) (dl_content delta)),
       fold collect_call (List.map_filter (\<lambda>x. x) (dl_calls delta)) d)"

definition buffered_call :: "json_loads \<Rightarrow> tool_call_buffer \<Rightarrow> LLMResponse" where
  "buffered_call loads b = build_function_call_response loads (tb_name b) (concat (tb_args b)) (tb_id b)"

definition lite_stream :: "json_loads \<Rightarrow> stream_chunk list \<Rightarrow> LLMResponse list \<times> exn option" where
  "lite_stream loads chs = (case lite_chunks chs ([], []) of
      (Some e, rs, d) \<Rightarrow> (rs, Some e)
    | (None, rs, d) \<Rightarrow> (rs @ map (buffered_call loads) (d_values d), None))"

text \<open>\<open>_text\<close>: a whole message; calls of another type are skipped.\<close>

record whole_message =
  wm_reasoning :: pystr
  wm_content :: pystr
  wm_calls :: "(pystr \<times> pystr \<times> pystr) option list"

definition lite_text :: "json_loads \<Rightarrow> whole_message \<Rightarrow> LLMResponse list" where
  "lite_text loads m = parts_response (build_parts (wm_reasoning m) (wm_content m))
     @ List.map_filter (map_option (\<lambda>(i, n, a). build_function_call_response loads n a i)) (wm_calls m)"

section \<open>Strict output schemas\<close>

definition dict_keys :: "pystr set" where
  "dict_keys = {py ''$defs'', py ''properties''}"

definition union_keys :: "pystr set" where
  "union_keys = {py ''anyOf'', py ''oneOf'', py ''allOf''}"

text \<open>The keys whose values are visited, in the order of the code.\<close>

definition visited_keys :: "pystr list" where
  "visited_keys = [py ''$defs'', py ''properties'', py ''anyOf'', py ''oneOf'', py ''allOf'', py ''items'']"

text \<open>\<open>additionalProperties\<close> and \<open>required\<close> of an object schema.\<close>

definition close_object :: "(pystr, json) dict \<Rightarrow> exn + (pystr, json) dict" where
  "close_object d = (if map_of d (py ''type'') = Some (JStr (py ''object''))
     then (case map_of d (py ''properties'') of
         None \<Rightarrow> Inr d
       | Some (JObj ps) \<Rightarrow> Inr (AList.update (py ''required'') (jstrs (sort (d_keys ps))) (AList.update (py ''additionalProperties'') (JBool False) d))
       | Some _ \<Rightarrow> Inl AttributeError)
     else Inr d)"

text \<open>\<open>strict_fields\<close> is what each field becomes, or the exception its visit raises; \<open>place\<close> puts the visited ones back.\<close>

definition place :: "(pystr \<times> (exn + json)) list \<Rightarrow> pystr \<Rightarrow> (pystr, json) dict \<Rightarrow> exn + (pystr, json) dict" where
  "place visited k d = (case map_of visited k of
      None \<Rightarrow> Inr d
    | Some (Inl e) \<Rightarrow> Inl e
    | Some (Inr v) \<Rightarrow> Inr (AList.update k v d))"

fun strict_schema :: "json \<Rightarrow> exn + json"
  and strict_fields :: "(pystr \<times> json) list \<Rightarrow> (pystr \<times> (exn + json)) list"
  and strict_values :: "(pystr \<times> json) list \<Rightarrow> exn + (pystr \<times> json) list"
  and strict_items :: "json list \<Rightarrow> exn + json list" where
  "strict_schema (JObj d) =
     (if d_has d (py ''$ref'') then Inr (JObj (filter (\<lambda>(k, v). k = py ''$ref'') d))
      else ebind (close_object d) (\<lambda>d1. ebind (efold (place (strict_fields d)) visited_keys d1) (\<lambda>d2. Inr (JObj d2))))"
| "strict_schema (JArr xs) = Inr (JArr xs)"
| "strict_schema JNull = Inr JNull"
| "strict_schema (JBool b) = Inr (JBool b)"
| "strict_schema (JInt i) = Inr (JInt i)"
| "strict_schema (JStr s) = Inr (JStr s)"
| "strict_fields [] = []"
| "strict_fields ((k, v) # d) =
     (k, if k \<in> dict_keys then (case v of JObj fs \<Rightarrow> ebind (strict_values fs) (\<lambda>fs'. Inr (JObj fs')) | _ \<Rightarrow> Inl AttributeError)
         else if k \<in> union_keys then (case v of JArr xs \<Rightarrow> ebind (strict_items xs) (\<lambda>xs'. Inr (JArr xs'))
              | JObj _ \<Rightarrow> Inr v | JStr _ \<Rightarrow> Inr v | _ \<Rightarrow> Inl TypeError)
         else if k = py ''items'' then strict_schema v
         else Inr v) # strict_fields d"
| "strict_values [] = Inr []"
| "strict_values ((k, v) # d) = ebind (strict_schema v) (\<lambda>v'. ebind (strict_values d) (\<lambda>d'. Inr ((k, v') # d')))"
| "strict_items [] = Inr []"
| "strict_items (v # xs) = ebind (strict_schema v) (\<lambda>v'. ebind (strict_items xs) (\<lambda>xs'. Inr (v' # xs')))"

definition to_response_format :: "pystr \<Rightarrow> json \<Rightarrow> exn + json" where
  "to_response_format name schema = ebind (strict_schema schema) (\<lambda>s.
     Inr (JObj [(py ''type'', JStr (py ''json_schema'')), (py ''json_schema'',
       JObj [(py ''name'', JStr name), (py ''strict'', JBool True), (py ''schema'', s)])]))"

section \<open>The client\<close>

record lite_request =
  lq_model :: pystr
  lq_messages :: "wf_chat list"
  lq_system_instruction :: pystr
  lq_tools :: "json list"
  lq_response_schema :: "(pystr \<times> json) option"

text \<open>What is sent: the system instruction is the first message when there is one; an empty list of tools is not sent.\<close>

record lite_call =
  lk_model :: pystr
  lk_system :: "pystr option"
  lk_messages :: "wf_chat list"
  lk_stream :: bool
  lk_base_url :: "pystr option"
  lk_tools :: "json list option"
  lk_response_format :: "json option"

datatype lite_completion = LiteStream "stream_chunk list" "exn option" | LiteWhole whole_message | LiteRaised exn

record lite_client =
  ll_model :: pystr
  ll_base_url :: "pystr option"
  ll_completion_fn :: "lite_call \<Rightarrow> lite_completion"

definition lite_kwargs :: "lite_client \<Rightarrow> lite_request \<Rightarrow> bool \<Rightarrow> exn + lite_call" where
  "lite_kwargs cl req stream =
     ebind (case lq_response_schema req of None \<Rightarrow> Inr None
       | Some (n, schema) \<Rightarrow> ebind (to_response_format n schema) (\<lambda>f. Inr (Some f))) (\<lambda>fmt.
     Inr \<lparr>lk_model = (if lq_model req \<noteq> [] then lq_model req else ll_model cl),
       lk_system = (if lq_system_instruction req \<noteq> [] then Some (lq_system_instruction req) else None),
       lk_messages = lq_messages req, lk_stream = stream, lk_base_url = ll_base_url cl,
       lk_tools = (if lq_tools req \<noteq> [] then Some (lq_tools req) else None), lk_response_format = fmt\<rparr>)"

definition generate_content :: "lite_client \<Rightarrow> json_loads \<Rightarrow> lite_request \<Rightarrow> bool \<Rightarrow> LLMResponse list \<times> exn option" where
  "generate_content cl loads req stream = (case lite_kwargs cl req stream of
      Inl e \<Rightarrow> ([], Some e)
    | Inr call \<Rightarrow> (case ll_completion_fn cl call of
        LiteRaised e \<Rightarrow> ([], Some e)
      | LiteStream chs broken \<Rightarrow>
          (if \<not> stream then ([], Some (ValueError (py ''Expected a ModelResponse for non-streaming response.'')))
           else case broken of
               None \<Rightarrow> lite_stream loads chs
             | Some e \<Rightarrow> (case lite_chunks chs ([], []) of
                 (Some e', rs, d) \<Rightarrow> (rs, Some e')
               | (None, rs, d) \<Rightarrow> (rs, Some e)))
      | LiteWhole m \<Rightarrow>
          (if stream then ([], Some (ValueError (py ''Expected a CustomStreamWrapper for streaming response.'')))
           else (lite_text loads m, None))))"

section \<open>Structured output\<close>

definition code_fence :: pystr where
  "code_fence = [96, 96, 96]"

definition is_word_char :: "nat \<Rightarrow> bool" where
  "is_word_char ch \<longleftrightarrow> (48 \<le> ch \<and> ch \<le> 57) \<or> (65 \<le> ch \<and> ch \<le> 90) \<or> (97 \<le> ch \<and> ch \<le> 122) \<or> ch = 95"

text \<open>\<open>_FENCE_LANG_RE\<close>: a language name, blanks, one newline, all optional.\<close>

definition drop_fence_lang :: "pystr \<Rightarrow> pystr" where
  "drop_fence_lang s = (let t = dropWhile (\<lambda>ch. ch = 32 \<or> ch = 9) (dropWhile is_word_char s)
     in (case t of ch # rest \<Rightarrow> if ch = 10 then rest else t | [] \<Rightarrow> []))"

definition strip_json_code_fence :: "pystr \<Rightarrow> pystr" where
  "strip_json_code_fence json_txt = (let stripped = str_strip json_txt in
     if length stripped \<ge> 6 \<and> prefix code_fence stripped \<and> suffix code_fence stripped
     then str_strip (drop_fence_lang (take (length stripped - 6) (drop 3 stripped))) else json_txt)"

definition validate_schema :: "(pystr \<Rightarrow> exn + json) \<Rightarrow> pystr \<Rightarrow> exn + json" where
  "validate_schema model_validate_json json_txt = model_validate_json (strip_json_code_fence json_txt)"

section \<open>Streamed calls\<close>

lemma lite_chunks_deltas:
  assumes "\<forall>ch \<in> set chs. ch \<noteq> [] \<longrightarrow> hd ch \<noteq> None"
  shows "lite_chunks chs (rs, d) = (None,
      rs @ concat (map (\<lambda>x. parts_response (build_parts (dl_reasoning x) (dl_content x))) (stream_deltas chs)),
      fold collect_call (delta_calls (stream_deltas chs)) d)"
  using assms
proof (induction chs arbitrary: rs d)
  case (Cons ch chs)
  then have IH: "lite_chunks chs (rs', d') = (None,
      rs' @ concat (map (\<lambda>x. parts_response (build_parts (dl_reasoning x) (dl_content x))) (stream_deltas chs)),
      fold collect_call (delta_calls (stream_deltas chs)) d')" for rs' d' by simp
  show ?case
  proof (cases ch)
    case Nil
    then show ?thesis using IH by (simp add: stream_deltas_def chunk_delta_def map_filter_simps)
  next
    case (Cons x others)
    then obtain delta where "x = Some delta" using Cons.prems by auto
    with Cons show ?thesis using IH by (simp add: stream_deltas_def chunk_delta_def map_filter_simps delta_calls_def)
  qed
qed (simp add: stream_deltas_def delta_calls_def map_filter_simps)

lemma map_of_keys: "distinct (d_keys d) \<Longrightarrow> d_values d = map (\<lambda>k. the (map_of d k)) (d_keys d)"
proof (induction d)
  case (Cons p d)
  have "map (\<lambda>k. the (map_of (p # d) k)) (d_keys d) = map (\<lambda>k. the (map_of d k)) (d_keys d)"
  proof (rule map_cong [OF refl])
    fix k assume "k \<in> set (d_keys d)"
    moreover have "fst p \<notin> set (d_keys d)" using Cons.prems by simp
    ultimately have "k \<noteq> fst p" by metis
    then show "the (map_of (p # d) k) = the (map_of d k)" by (cases p) simp
  qed
  with Cons show ?case by (cases p) simp
qed simp

lemma collected_values:
  "d_values (fold collect_call cs []) = map (tool_buffer_at (fold collect_call cs [])) (fromkeys (map dc_index cs))"
proof -
  define d where "d = fold collect_call cs []"
  have keys: "d_keys d = fromkeys (map dc_index cs)" unfolding d_def by (rule tools_buffer.indices_of)
  have "the (map_of d k) = tool_buffer_at d k" if "k \<in> set (d_keys d)" for k
    using that d_has_iff [of k d] by (auto simp: tool_buffer_at_def d_get_def simp del: map_of_eq_Some_iff)
  then show ?thesis
    using map_of_keys [of d] keys unfolding d_def [symmetric] by simp
qed

text \<open>The \<open>i\<close>-th call read off all fragments.\<close>

definition call_of_index :: "json_loads \<Rightarrow> delta_call list \<Rightarrow> int \<Rightarrow> LLMResponse" where
  "call_of_index loads cs i = (let mine = filter (\<lambda>c. dc_index c = i) cs in
     build_function_call_response loads (last_given (map dc_name mine)) (concat (map dc_arguments mine)) (last_given (map dc_id mine)))"

lemma buffered_call_of_index: "buffered_call loads (tool_buffer_at (fold collect_call cs []) i) = call_of_index loads cs i"
  unfolding buffered_call_def call_of_index_def Let_def last_given_def
  by (simp add: tools_buffer.args_of tools_buffer.name_fold tools_buffer.ident_fold) (simp add: tool_buffer_at_def d_get_def)

lemma buffered_values:
  "map (buffered_call loads) (d_values (fold collect_call cs [])) = map (call_of_index loads cs) (fromkeys (map dc_index cs))"
  unfolding collected_values by (simp add: buffered_call_of_index)

text \<open>A streamed answer becomes one response per delta that says something, in order, and then one response per
  call, in the order in which the calls first appeared; each call has the last name and id given for its index and the
  concatenation of its own argument fragments, whatever fragments of other calls lie between them.  A call without name
  and a call whose arguments are no JSON are passed on with an error, so that the agent can answer them.\<close>

theorem lite_stream_calls:
  assumes "\<forall>ch \<in> set chs. ch \<noteq> [] \<longrightarrow> hd ch \<noteq> None"
  shows "lite_stream loads chs =
    (let ds = stream_deltas chs; cs = delta_calls ds
     in (concat (map (\<lambda>x. parts_response (build_parts (dl_reasoning x) (dl_content x))) ds)
           @ map (call_of_index loads cs) (fromkeys (map dc_index cs)), None))"
  by (simp only: lite_stream_def lite_chunks_deltas [OF assms] prod.case option.case buffered_values Let_def append_Nil)

lemma lite_stream_calls_witness:
  "fst (lite_stream (\<lambda>s. if s = py ''{}'' then Inr (JObj []) else Inl (py ''bad''))
      [example_delta [] ''x'' [(''Pick'', ''{'')], [], example_delta [] [] [([], ''}'')]])
    = [\<lparr>lr_parts = Some [text_response_part False (py ''x'')], lr_error_code = None, lr_error_message = None\<rparr>,
       \<lparr>lr_parts = Some [call_response_part \<lparr>fc_id = [], fc_name = py ''Pick'', fc_args = JObj []\<rparr>], lr_error_code = None, lr_error_message = None\<rparr>]"
proof -
  have h: "\<forall>ch \<in> set [example_delta [] ''x'' [(''Pick'', ''{'')], [], example_delta [] [] [([], ''}'')]]. ch \<noteq> [] \<longrightarrow> hd ch \<noteq> None"
    by (simp add: example_delta_def)
  show ?thesis
    unfolding lite_stream_calls [OF h]
    by (simp add: stream_deltas_def chunk_delta_def example_delta_def delta_calls_def map_filter_simps parts_response_def build_parts_def
        fromkeys_def call_of_index_def last_given_def build_function_call_response_def text_response_part_def Let_def py_def)
qed

section \<open>What the strict form is\<close>

text \<open>What OpenAI's strict mode asks of a schema and of every schema in it: a reference stands alone, and an object with
  properties is closed and requires them all.\<close>

definition closed_object :: "(pystr, json) dict \<Rightarrow> bool" where
  "closed_object d \<longleftrightarrow> (map_of d (py ''type'') = Some (JStr (py ''object'')) \<longrightarrow> (case map_of d (py ''properties'') of
       None \<Rightarrow> True
     | Some (JObj ps) \<Rightarrow> map_of d (py ''additionalProperties'') = Some (JBool False)
         \<and> map_of d (py ''required'') = Some (jstrs (sort (d_keys ps)))
     | Some _ \<Rightarrow> False))"

fun strict_ok :: "json \<Rightarrow> bool" and fields_ok :: "(pystr \<times> json) list \<Rightarrow> bool"
  and values_ok :: "(pystr \<times> json) list \<Rightarrow> bool" and items_ok :: "json list \<Rightarrow> bool" where
  "strict_ok (JObj d) = (if d_has d (py ''$ref'') then (\<forall>k \<in> set (d_keys d). k = py ''$ref'') else closed_object d \<and> fields_ok d)"
| "strict_ok (JArr xs) = True"
| "strict_ok JNull = True"
| "strict_ok (JBool b) = True"
| "strict_ok (JInt i) = True"
| "strict_ok (JStr s) = True"
| "fields_ok [] = True"
| "fields_ok ((k, v) # d) = ((if k \<in> dict_keys then (case v of JObj fs \<Rightarrow> values_ok fs | _ \<Rightarrow> False)
      else if k \<in> union_keys then (case v of JArr xs \<Rightarrow> items_ok xs | JObj _ \<Rightarrow> True | JStr _ \<Rightarrow> True | _ \<Rightarrow> False)
      else k = py ''items'' \<longrightarrow> strict_ok v) \<and> fields_ok d)"
| "values_ok [] = True"
| "values_ok ((k, v) # d) = (strict_ok v \<and> values_ok d)"
| "items_ok [] = True"
| "items_ok (v # xs) = (strict_ok v \<and> items_ok xs)"

text \<open>One field.\<close>

definition field_ok :: "pystr \<Rightarrow> json \<Rightarrow> bool" where
  "field_ok k v \<longleftrightarrow> fields_ok [(k, v)]"

definition strict_field :: "pystr \<Rightarrow> json \<Rightarrow> exn + json" where
  "strict_field k v = snd (hd (strict_fields [(k, v)]))"

lemma fields_ok_Cons: "fields_ok ((k, v) # d) \<longleftrightarrow> field_ok k v \<and> fields_ok d"
  by (simp add: field_ok_def)

lemma fields_ok_all: "fields_ok d \<longleftrightarrow> (\<forall>(k, v) \<in> set d. field_ok k v)"
  by (induction d) (auto simp: fields_ok_Cons simp del: fields_ok.simps(2))

lemma strict_fields_map: "strict_fields d = map (\<lambda>(k, v). (k, strict_field k v)) d"
  by (induction d) (auto simp: strict_field_def)

lemma map_of_strict_fields: "map_of (strict_fields d) k = map_option (strict_field k) (map_of d k)"
  by (induction d) (auto simp: strict_fields_map)

lemma not_visited: "k \<notin> set visited_keys \<Longrightarrow> field_ok k v" "k \<notin> set visited_keys \<Longrightarrow> strict_field k v = Inr v"
  by (auto simp: visited_keys_def field_ok_def strict_field_def dict_keys_def union_keys_def)

text \<open>Putting the visited fields back.\<close>

lemma place_keys:
  assumes "place (strict_fields d) k d1 = Inr d2" and "set (d_keys d) \<subseteq> set (d_keys d1)"
  shows "d_keys d2 = d_keys d1"
proof (cases "map_of d k")
  case None
  then show ?thesis using assms(1) by (simp add: place_def map_of_strict_fields)
next
  case (Some v)
  then have "d_has d1 k" using assms(2) d_has_iff [of k d] by (metis option.distinct(1) subsetD)
  moreover obtain v' where "d2 = AList.update k v' d1"
    using assms(1) Some by (auto simp: place_def map_of_strict_fields split: sum.splits)
  ultimately show ?thesis by (simp add: d_keys_update)
qed

lemma efold_place:
  assumes "efold (place (strict_fields d)) ks d1 = Inr d2" and "set (d_keys d) \<subseteq> set (d_keys d1)" and "distinct ks"
  shows "d_keys d2 = d_keys d1 \<and> (\<forall>k. k \<notin> set ks \<longrightarrow> map_of d2 k = map_of d1 k)
    \<and> (\<forall>k \<in> set ks. case map_of d k of None \<Rightarrow> map_of d2 k = map_of d1 k
         | Some v \<Rightarrow> (\<exists>v'. strict_field k v = Inr v' \<and> map_of d2 k = Some v'))"
  using assms
proof (induction ks arbitrary: d1)
  case (Cons k ks)
  then obtain dm where p: "place (strict_fields d) k d1 = Inr dm" and rest: "efold (place (strict_fields d)) ks dm = Inr d2"
    by (auto simp: ebind_eq_Inr)
  have keys: "d_keys dm = d_keys d1" using place_keys [OF p Cons.prems(2)] .
  have IH: "d_keys d2 = d_keys dm \<and> (\<forall>k. k \<notin> set ks \<longrightarrow> map_of d2 k = map_of dm k)
    \<and> (\<forall>k \<in> set ks. case map_of d k of None \<Rightarrow> map_of d2 k = map_of dm k
         | Some v \<Rightarrow> (\<exists>v'. strict_field k v = Inr v' \<and> map_of d2 k = Some v'))"
    using Cons.IH [OF rest] Cons.prems keys by simp
  have dm: "map_of dm k' = map_of d1 k'" if "k' \<noteq> k" for k'
    using p that by (auto simp: place_def update_conv' split: option.splits sum.splits)
  have dmk: "case map_of d k of None \<Rightarrow> map_of dm k = map_of d1 k | Some v \<Rightarrow> (\<exists>v'. strict_field k v = Inr v' \<and> map_of dm k = Some v')"
    using p by (auto simp: place_def map_of_strict_fields update_conv' split: option.splits sum.splits)
  have k: "k \<notin> set ks" using Cons.prems(3) by simp
  have other: "case map_of d k' of None \<Rightarrow> map_of d2 k' = map_of d1 k'
      | Some v \<Rightarrow> (\<exists>v'. strict_field k' v = Inr v' \<and> map_of d2 k' = Some v')" if "k' \<in> set ks" for k'
  proof -
    have "k' \<noteq> k" using that k by metis
    then show ?thesis using bspec [OF conjunct2 [OF conjunct2 [OF IH]] that] by (simp add: dm split: option.split_asm option.split)
  qed
  show ?case
  proof (intro conjI ballI allI impI)
    fix k' assume "k' \<in> set (k # ks)"
    moreover have "map_of d2 k = map_of dm k" using IH k by blast
    ultimately show "case map_of d k' of None \<Rightarrow> map_of d2 k' = map_of d1 k'
        | Some v \<Rightarrow> (\<exists>v'. strict_field k' v = Inr v' \<and> map_of d2 k' = Some v')"
      using other dmk by (cases "k' = k") (auto split: option.splits)
  qed (use IH keys dm in auto)
qed simp

text \<open>JSON objects have distinct keys.\<close>

fun distinct_json :: "json \<Rightarrow> bool" and distinct_fields :: "(pystr \<times> json) list \<Rightarrow> bool" and distinct_items :: "json list \<Rightarrow> bool" where
  "distinct_json (JObj d) = (distinct (d_keys d) \<and> distinct_fields d)"
| "distinct_json (JArr xs) = distinct_items xs"
| "distinct_json JNull = True"
| "distinct_json (JBool b) = True"
| "distinct_json (JInt i) = True"
| "distinct_json (JStr s) = True"
| "distinct_fields [] = True"
| "distinct_fields ((k, v) # d) = (distinct_json v \<and> distinct_fields d)"
| "distinct_items [] = True"
| "distinct_items (v # xs) = (distinct_json v \<and> distinct_items xs)"

lemma distinct_fields_all: "distinct_fields d \<longleftrightarrow> (\<forall>(k, v) \<in> set d. distinct_json v)"
  by (induction d) auto

lemma strict_values_keys: "strict_values fs = Inr fs' \<Longrightarrow> d_keys fs' = d_keys fs"
  by (induction fs arbitrary: fs') (auto simp: ebind_eq_Inr)

lemma update2_keys: "fst ` set (AList.update a x (AList.update b y d)) = insert a (insert b (fst ` set d))"
  by (auto simp: dom_update)

lemma close_object_cases:
  assumes "close_object d = Inr d1"
  shows "d1 = d \<and> \<not> (map_of d (py ''type'') = Some (JStr (py ''object'')) \<and> map_of d (py ''properties'') \<noteq> None)
    \<or> (\<exists>ps. map_of d (py ''properties'') = Some (JObj ps)
        \<and> d1 = AList.update (py ''required'') (jstrs (sort (d_keys ps))) (AList.update (py ''additionalProperties'') (JBool False) d))"
  using assms by (auto simp: close_object_def split: if_splits option.splits json.splits)

lemma close_object_keys:
  assumes "close_object d = Inr d1"
  shows "fst ` set d \<subseteq> fst ` set d1" "fst ` set d1 \<subseteq> insert (py ''required'') (insert (py ''additionalProperties'') (fst ` set d))"
    "distinct (d_keys d) \<Longrightarrow> distinct (d_keys d1)"
  using close_object_cases [OF assms] by (elim disjE exE conjE; hypsubst; simp add: update2_keys distinct_update subset_insertI2 subset_insertI)+

lemma close_object_lookup:
  assumes "close_object d = Inr d1"
  shows "k \<noteq> py ''required'' \<Longrightarrow> k \<noteq> py ''additionalProperties'' \<Longrightarrow> map_of d1 k = map_of d k"
    "map_of d (py ''type'') = Some (JStr (py ''object'')) \<Longrightarrow> map_of d (py ''properties'') \<noteq> None \<Longrightarrow>
      \<exists>ps. map_of d (py ''properties'') = Some (JObj ps) \<and> map_of d1 (py ''additionalProperties'') = Some (JBool False)
        \<and> map_of d1 (py ''required'') = Some (jstrs (sort (d_keys ps)))"
  using close_object_cases [OF assms] by (elim disjE exE conjE; hypsubst?; simp add: update_conv')+

lemma ref_neq: "py ''$ref'' \<noteq> py ''required''" "py ''$ref'' \<noteq> py ''additionalProperties''"
  by simp_all

lemma strict_object:
  assumes "distinct (d_keys d)" and "close_object d = Inr d1" and "efold (place (strict_fields d)) visited_keys d1 = Inr d2"
    and ref: "\<not> d_has d (py ''$ref'')"
    and fields: "\<And>k v v'. map_of d k = Some v \<Longrightarrow> strict_field k v = Inr v' \<Longrightarrow> field_ok k v'"
  shows "strict_ok (JObj d2)"
proof -
  have dist: "distinct visited_keys" by (simp add: visited_keys_def)
  note close = close_object_keys [OF assms(2)] close_object_lookup [OF assms(2)]
  have E: "d_keys d2 = d_keys d1" "\<And>k. k \<notin> set visited_keys \<Longrightarrow> map_of d2 k = map_of d1 k"
    "\<And>k. k \<in> set visited_keys \<Longrightarrow> case map_of d k of None \<Rightarrow> map_of d2 k = map_of d1 k
       | Some v \<Rightarrow> (\<exists>v'. strict_field k v = Inr v' \<and> map_of d2 k = Some v')"
    using efold_place [OF assms(3) _ dist] close(1) unfolding list.set_map by blast+
  have noref: "\<not> d_has d2 (py ''$ref'')" using ref close(2) ref_neq unfolding E(1) list.set_map by blast
  have "fields_ok d2"
    unfolding fields_ok_all
  proof (clarify)
    fix k v' assume "(k, v') \<in> set d2"
    then have at: "map_of d2 k = Some v'" using close(3) [OF assms(1)] by (simp add: E(1))
    show "field_ok k v'"
    proof (cases "k \<in> set visited_keys")
      case False
      then show ?thesis by (rule not_visited)
    next
      case True
      have keep: "map_of d1 k = map_of d k" using True close(4) by (auto simp: visited_keys_def)
      show ?thesis using E(3) [OF True] at keep fields by (cases "map_of d k") auto
    qed
  qed
  moreover have "closed_object d2"
  proof -
    have t: "map_of d2 (py ''type'') = map_of d (py ''type'')" "map_of d2 (py ''required'') = map_of d1 (py ''required'')"
      "map_of d2 (py ''additionalProperties'') = map_of d1 (py ''additionalProperties'')"
      using E(2) close(4) by (auto simp: visited_keys_def)
    have p: "py ''properties'' \<in> set visited_keys" "map_of d1 (py ''properties'') = map_of d (py ''properties'')"
      using close(4) by (auto simp: visited_keys_def)
    have sf: "\<exists>ps'. v' = JObj ps' \<and> d_keys ps' = d_keys ps" if "strict_field (py ''properties'') (JObj ps) = Inr v'" for ps v'
      using that strict_values_keys by (auto simp: strict_field_def dict_keys_def ebind_eq_Inr)
    show ?thesis
    proof (cases "map_of d (py ''type'') = Some (JStr (py ''object'')) \<and> map_of d (py ''properties'') \<noteq> None")
      case True
      then obtain ps where ps: "map_of d (py ''properties'') = Some (JObj ps)" "map_of d1 (py ''additionalProperties'') = Some (JBool False)"
        "map_of d1 (py ''required'') = Some (jstrs (sort (d_keys ps)))" using close(5) by blast
      then obtain ps' where "map_of d2 (py ''properties'') = Some (JObj ps')" "d_keys ps' = d_keys ps"
        using E(3) [OF p(1)] sf by fastforce
      then show ?thesis using ps by (simp add: closed_object_def t)
    next
      case False
      then show ?thesis using E(3) [OF p(1)] p(2) by (auto simp: closed_object_def t split: option.splits)
    qed
  qed
  ultimately show ?thesis using noref by simp
qed

lemma strict_field_step:
  assumes "k \<in> dict_keys \<Longrightarrow> \<forall>fs fs'. v = JObj fs \<longrightarrow> strict_values fs = Inr fs' \<longrightarrow> values_ok fs'"
    and "k \<in> union_keys \<Longrightarrow> \<forall>xs xs'. v = JArr xs \<longrightarrow> strict_items xs = Inr xs' \<longrightarrow> items_ok xs'"
    and "k = py ''items'' \<Longrightarrow> \<forall>v'. strict_schema v = Inr v' \<longrightarrow> strict_ok v'"
    and "strict_field k v = Inr v'"
  shows "field_ok k v'"
  using assms
  by (auto simp: strict_field_def field_ok_def ebind_eq_Inr dict_keys_def union_keys_def split: if_splits json.splits)

lemma strict_results_ok:
  "distinct_json v \<longrightarrow> (\<forall>v'. strict_schema v = Inr v' \<longrightarrow> strict_ok v')"
  "distinct_fields d \<longrightarrow> (\<forall>k w w'. map_of d k = Some w \<longrightarrow> strict_field k w = Inr w' \<longrightarrow> field_ok k w')"
  "distinct_fields fs \<longrightarrow> (\<forall>fs'. strict_values fs = Inr fs' \<longrightarrow> values_ok fs')"
  "distinct_items xs \<longrightarrow> (\<forall>xs'. strict_items xs = Inr xs' \<longrightarrow> items_ok xs')"
proof (induction v and d and fs and xs rule: strict_schema_strict_fields_strict_values_strict_items.induct)
  case (1 d)
  show ?case
  proof (intro impI allI)
    fix v' assume dist: "distinct_json (JObj d)" and run: "strict_schema (JObj d) = Inr v'"
    show "strict_ok v'"
    proof (cases "d_has d (py ''$ref'')")
      case True
      then show ?thesis using run by (auto simp: image_iff)
    next
      case False
      then obtain d1 d2 where "close_object d = Inr d1" "efold (place (strict_fields d)) visited_keys d1 = Inr d2" "v' = JObj d2"
        using run by (auto simp: ebind_eq_Inr)
      then show ?thesis using strict_object [of d d1 d2] 1 dist False by auto
    qed
  qed
next
  case (8 k v d)
  have "field_ok k w'" if "distinct_json v" "strict_field k v = Inr w'" for w'
    by (rule strict_field_step [OF _ _ _ that(2)]; use 8(1-3) that(1) in \<open>auto simp: dict_keys_def union_keys_def\<close>)
  with 8 show ?case by auto
qed (auto simp: ebind_eq_Inr)

text \<open>A strict schema is left alone.\<close>

lemma update_same: "map_of d k = Some v \<Longrightarrow> AList.update k v d = d"
  by (induction d) (auto split: if_splits)

lemma efold_same: "\<forall>k \<in> set ks. f k b = Inr b \<Longrightarrow> efold f ks b = Inr b"
  by (induction ks) auto

lemma close_object_same: "closed_object d \<Longrightarrow> close_object d = Inr d"
  by (auto simp: closed_object_def close_object_def update_same split: option.splits json.splits)

lemma strict_field_same:
  assumes "k \<in> dict_keys \<Longrightarrow> \<forall>fs. v = JObj fs \<longrightarrow> values_ok fs \<longrightarrow> strict_values fs = Inr fs"
    and "k \<in> union_keys \<Longrightarrow> \<forall>xs. v = JArr xs \<longrightarrow> items_ok xs \<longrightarrow> strict_items xs = Inr xs"
    and "k = py ''items'' \<Longrightarrow> strict_ok v \<longrightarrow> strict_schema v = Inr v"
    and "field_ok k v"
  shows "strict_field k v = Inr v"
  using assms by (auto simp: strict_field_def field_ok_def dict_keys_def union_keys_def split: if_splits json.splits)

lemma strict_fixed:
  "strict_ok v \<longrightarrow> strict_schema v = Inr v"
  "fields_ok d \<longrightarrow> (\<forall>k w. map_of d k = Some w \<longrightarrow> strict_field k w = Inr w)"
  "values_ok fs \<longrightarrow> strict_values fs = Inr fs"
  "items_ok xs \<longrightarrow> strict_items xs = Inr xs"
proof (induction v and d and fs and xs rule: strict_schema_strict_fields_strict_values_strict_items.induct)
  case (1 d)
  show ?case
  proof
    assume ok: "strict_ok (JObj d)"
    show "strict_schema (JObj d) = Inr (JObj d)"
    proof (cases "d_has d (py ''$ref'')")
      case True
      then have "filter (\<lambda>(k, v). k = py ''$ref'') d = d" using ok by (auto simp: filter_id_conv)
      with True show ?thesis by simp
    next
      case False
      then have "closed_object d" "fields_ok d" using ok by auto
      then have f: "\<forall>k w. map_of d k = Some w \<longrightarrow> strict_field k w = Inr w"
        using 1 False close_object_same [OF \<open>closed_object d\<close>] by auto
      have "efold (place (strict_fields d)) visited_keys d = Inr d"
        by (rule efold_same) (use f in \<open>auto simp: place_def map_of_strict_fields update_same split: option.split\<close>)
      then show ?thesis using False close_object_same [OF \<open>closed_object d\<close>] by simp
    qed
  qed
next
  case (8 k v d)
  have "strict_field k v = Inr v" if "field_ok k v"
    by (rule strict_field_same [OF _ _ _ that]; use 8(1-3) in \<open>auto simp: dict_keys_def union_keys_def\<close>)
  with 8(4) show ?case by (auto simp: fields_ok_Cons simp del: fields_ok.simps(2))
qed auto

text \<open>The schema that is sent for structured output meets OpenAI's strict mode in every schema it contains, through
  definitions, properties, unions and array items: a reference stands alone, and an object that lists properties forbids
  others and requires all of its own, sorted.  Making it strict again changes nothing.\<close>

theorem strict_schema_closed:
  assumes "strict_schema s = Inr s'" and "distinct_json s"
  shows "strict_ok s' \<and> strict_schema s' = Inr s'"
  using assms strict_results_ok(1) strict_fixed(1) by blast

definition example_schema :: json where
  "example_schema = JObj [(py ''type'', JStr (py ''object'')), (py ''properties'', JObj [
     (py ''b'', JObj [(py ''$ref'', JStr (py ''x'')), (py ''title'', JNull)]),
     (py ''a'', JObj [(py ''items'', JObj [(py ''type'', JStr (py ''object'')), (py ''properties'', JObj [])])])])]"

lemma strict_schema_closed_witness:
  "strict_schema example_schema = Inr (JObj [(py ''type'', JStr (py ''object'')), (py ''properties'', JObj [
     (py ''b'', JObj [(py ''$ref'', JStr (py ''x''))]),
     (py ''a'', JObj [(py ''items'', JObj [(py ''type'', JStr (py ''object'')), (py ''properties'', JObj []),
        (py ''additionalProperties'', JBool False), (py ''required'', JArr [])])])]),
     (py ''additionalProperties'', JBool False), (py ''required'', jstrs [py ''a'', py ''b''])])
   \<and> (\<exists>s'. strict_schema example_schema = Inr s' \<and> strict_ok s')"
proof -
  have "strict_schema example_schema = Inr (JObj [(py ''type'', JStr (py ''object'')), (py ''properties'', JObj [
     (py ''b'', JObj [(py ''$ref'', JStr (py ''x''))]),
     (py ''a'', JObj [(py ''items'', JObj [(py ''type'', JStr (py ''object'')), (py ''properties'', JObj []),
        (py ''additionalProperties'', JBool False), (py ''required'', JArr [])])])]),
     (py ''additionalProperties'', JBool False), (py ''required'', jstrs [py ''a'', py ''b''])])"
    by code_simp
  moreover have "distinct_json example_schema" by code_simp
  ultimately show ?thesis using strict_schema_closed by blast
qed

end
