(* ===== verification/Refinement.thy ===== *)
theory Refinement
  imports Main
begin

text \<open>
  Two interfaces for the step relations of the development.  \<open>transition_system\<close>: initial states, steps and an
  invariant; what it promises is that the invariant holds along every run.  \<open>simulation\<close> extends it with an abstract
  machine and an abstraction function, such that every step between states of the invariant is matched by abstract steps;
  what it promises is that runs are matched too, and that a property the abstract machine keeps is kept by the program.
  \<open>simulation\<close> is interpreted on the orchestrator of \<open>new_choirworks\<close> (\<open>Node_Life\<close>) and on the database's transactions
  (\<open>Database\<close>), \<open>transition_system\<close> on the executor around an agent (\<open>Agent_Executor\<close>), the registry
  (\<open>Agent_Directory\<close>) and the server with its conversations (\<open>Server\<close>).
\<close>

locale transition_system =
  fixes init :: "'s \<Rightarrow> bool"
    and step :: "'s \<Rightarrow> 's \<Rightarrow> bool"
    and inv :: "'s \<Rightarrow> bool"
  assumes init_inv: "init s \<Longrightarrow> inv s"
    and step_inv: "inv s \<Longrightarrow> step s s' \<Longrightarrow> inv s'"
begin

lemma run_inv: "step\<^sup>*\<^sup>* s s' \<Longrightarrow> inv s \<Longrightarrow> inv s'"
  by (induction rule: rtranclp_induct) (auto intro: step_inv)

lemma reachable_inv: "init s \<Longrightarrow> step\<^sup>*\<^sup>* s s' \<Longrightarrow> inv s'"
  using run_inv init_inv by blast

end

locale simulation = transition_system init step inv
  for init :: "'s \<Rightarrow> bool" and step :: "'s \<Rightarrow> 's \<Rightarrow> bool" and inv :: "'s \<Rightarrow> bool" +
  fixes abs :: "'s \<Rightarrow> 'a"
    and abs_init :: "'a \<Rightarrow> bool"
    and abs_step :: "'a \<Rightarrow> 'a \<Rightarrow> bool"
  assumes init_simulated: "init s \<Longrightarrow> abs_init (abs s)"
    and step_simulated: "inv s \<Longrightarrow> step s s' \<Longrightarrow> abs_step\<^sup>*\<^sup>* (abs s) (abs s')"
begin

lemma run_simulated: "step\<^sup>*\<^sup>* s s' \<Longrightarrow> inv s \<Longrightarrow> abs_step\<^sup>*\<^sup>* (abs s) (abs s')"
proof (induction rule: rtranclp_induct)
  case (step s' s'')
  then show ?case using step_simulated [of s' s''] run_inv by (meson rtranclp_trans)
qed simp

lemma abs_stable:
  assumes "\<And>a a'. P a \<Longrightarrow> abs_step a a' \<Longrightarrow> P a'"
  shows "abs_step\<^sup>*\<^sup>* a a' \<Longrightarrow> P a \<Longrightarrow> P a'"
  by (induction rule: rtranclp_induct) (auto intro: assms)

text \<open>A property every abstract step keeps holds along every run of the program once it holds.\<close>

lemma stable_transfer:
  assumes "\<And>a a'. P a \<Longrightarrow> abs_step a a' \<Longrightarrow> P a'" and "inv s" and "step\<^sup>*\<^sup>* s s'" and "P (abs s)"
  shows "P (abs s')"
  using abs_stable [of P] assms run_simulated [OF assms(3,2)] by blast

text \<open>So does an abstract invariant, in every reachable state.\<close>

lemma invariant_transfer:
  assumes "\<And>a. abs_init a \<Longrightarrow> P a" and "\<And>a a'. P a \<Longrightarrow> abs_step a a' \<Longrightarrow> P a'" and "init s" and "step\<^sup>*\<^sup>* s s'"
  shows "P (abs s')"
  using stable_transfer [of P] assms init_inv init_simulated by blast

end

end
