(* ===== verification/Agent_Executor.thy ===== *)
theory Agent_Executor
  imports Contents Refinement
begin

text \<open>
  The executor around an agent of \<open>new_choirworks\<close>, \<open>a2a/executor.py\<close>.  One \<open>execute\<close> starts an asyncio task that
  forwards the agent's events; \<open>cancel\<close> stops it and reports.  The relation \<open>exec_step\<close> interleaves any number of
  executions, cancellations and broken connections; a step is what happens between two awaits.  The agent is the
  parameter \<open>agent\<close>: from the user's text to the events it yields and the exception it may end with.  An agent that
  is cancelled yields nothing more.
\<close>

section \<open>State\<close>

text \<open>How far the asyncio task of an execution is.  \<open>Forwarding\<close> holds what the agent has still to yield.\<close>

datatype run_phase = Created | Submitted | Forwarding "wf_event list" "exn option" | Finished | Cancelled

datatype out_event = Task_submitted | Status wf_task_state pystr | Agent_event wf_event

text \<open>\<open>ru_history\<close> is \<open>ctx.events\<close>; \<open>ru_returned\<close> says that \<open>execute\<close> has returned.\<close>

record exec_run =
  ru_task :: pystr
  ru_text :: pystr
  ru_phase :: run_phase
  ru_history :: "wf_event list"
  ru_returned :: bool

text \<open>Who put an event on the queue: the execution of this number, or a call of \<open>cancel\<close>.\<close>

datatype source = By_run nat | By_cancel pystr

record executor =
  ex_runs :: "exec_run list"
  ex_active :: "(pystr, nat) dict"
  ex_cancelling :: "(pystr \<times> nat) list"
  ex_queue :: "(source \<times> out_event) list"

definition new_executor :: executor where
  "new_executor = \<lparr>ex_runs = [], ex_active = [], ex_cancelling = [], ex_queue = []\<rparr>"

definition phase_done :: "run_phase \<Rightarrow> bool" where
  "phase_done p \<longleftrightarrow> p = Finished \<or> p = Cancelled"

definition put :: "source \<Rightarrow> out_event list \<Rightarrow> executor \<Rightarrow> executor" where
  "put src es x = x\<lparr>ex_queue := ex_queue x @ map (Pair src) es\<rparr>"

definition set_run :: "nat \<Rightarrow> exec_run \<Rightarrow> executor \<Rightarrow> executor" where
  "set_run i r x = x\<lparr>ex_runs := (ex_runs x)[i := r]\<rparr>"

section \<open>The task of an execution\<close>

text \<open>\<open>_run\<close> between two awaits: the events it enqueues and the run afterwards.  \<open>exn_text\<close> is the class and the text
  of an exception.\<close>

definition user_event :: "pystr \<Rightarrow> wf_event" where
  "user_event txt = user_message [text_part txt]"

definition advance :: "(pystr \<Rightarrow> wf_event list \<times> exn option) \<Rightarrow> (exn \<Rightarrow> pystr) \<Rightarrow> exec_run \<Rightarrow> (out_event list \<times> exec_run) option" where
  "advance agent exn_text r = (case ru_phase r of
      Created \<Rightarrow> Some ([Task_submitted], r\<lparr>ru_phase := Submitted\<rparr>)
    | Submitted \<Rightarrow> Some ([Status WT_WORKING []], r\<lparr>ru_phase := (case agent (ru_text r) of (es, e) \<Rightarrow> Forwarding es e),
        ru_history := [user_event (ru_text r)]\<rparr>)
    | Forwarding (ev # es) e \<Rightarrow> Some ([Agent_event ev], r\<lparr>ru_phase := Forwarding es e,
        ru_history := ru_history r @ (if is_partial_event ev then [] else [ev])\<rparr>)
    | Forwarding [] (Some e) \<Rightarrow> Some ([Status WT_FAILED (exn_text e)], r\<lparr>ru_phase := Finished\<rparr>)
    | Forwarding [] None \<Rightarrow> Some ([Status WT_COMPLETED []], r\<lparr>ru_phase := Finished\<rparr>)
    | _ \<Rightarrow> None)"

section \<open>Execute and cancel\<close>

definition start_execute :: "pystr \<Rightarrow> pystr \<Rightarrow> executor \<Rightarrow> executor" where
  "start_execute task txt x = x\<lparr>ex_runs := ex_runs x @ [\<lparr>ru_task = task, ru_text = txt, ru_phase = Created, ru_history = [], ru_returned = False\<rparr>],
     ex_active := AList.update task (length (ex_runs x)) (ex_active x)\<rparr>"

text \<open>The \<open>finally\<close> of \<open>execute\<close>, also when its caller was cancelled (\<open>broken\<close>).\<close>

definition end_execute :: "bool \<Rightarrow> nat \<Rightarrow> executor \<Rightarrow> executor" where
  "end_execute broken i x = (let r = ex_runs x ! i;
       p = (if broken \<and> \<not> phase_done (ru_phase r) then Cancelled else ru_phase r)
     in (set_run i (r\<lparr>ru_phase := p, ru_returned := True\<rparr>) x)\<lparr>ex_active := AList.delete (ru_task r) (ex_active x)\<rparr>)"

text \<open>\<open>cancel\<close> up to its await: the running task is cancelled; without one the status goes out at once.\<close>

definition start_cancel :: "pystr \<Rightarrow> executor \<Rightarrow> executor" where
  "start_cancel task x = (case map_of (ex_active x) task of
      Some i \<Rightarrow> (if phase_done (ru_phase (ex_runs x ! i)) then put (By_cancel task) [Status WT_CANCELED []] x
        else (set_run i ((ex_runs x ! i)\<lparr>ru_phase := Cancelled\<rparr>) x)\<lparr>ex_cancelling := ex_cancelling x @ [(task, i)]\<rparr>)
    | None \<Rightarrow> put (By_cancel task) [Status WT_CANCELED []] x)"

definition end_cancel :: "pystr \<times> nat \<Rightarrow> executor \<Rightarrow> executor" where
  "end_cancel c x = put (By_cancel (fst c)) [Status WT_CANCELED []] (x\<lparr>ex_cancelling := remove1 c (ex_cancelling x)\<rparr>)"

inductive exec_step :: "(pystr \<Rightarrow> wf_event list \<times> exn option) \<Rightarrow> (exn \<Rightarrow> pystr) \<Rightarrow> executor \<Rightarrow> executor \<Rightarrow> bool"
  for agent exn_text where
  execute: "exec_step agent exn_text x (start_execute task txt x)"
| progress: "i < length (ex_runs x) \<Longrightarrow> advance agent exn_text (ex_runs x ! i) = Some (es, r)
    \<Longrightarrow> exec_step agent exn_text x (put (By_run i) es (set_run i r x))"
| finish: "i < length (ex_runs x) \<Longrightarrow> \<not> ru_returned (ex_runs x ! i) \<Longrightarrow> phase_done (ru_phase (ex_runs x ! i))
    \<Longrightarrow> exec_step agent exn_text x (end_execute False i x)"
| disconnect: "i < length (ex_runs x) \<Longrightarrow> \<not> ru_returned (ex_runs x ! i) \<Longrightarrow> exec_step agent exn_text x (end_execute True i x)"
| cancel: "exec_step agent exn_text x (start_cancel task x)"
| cancelled: "c \<in> set (ex_cancelling x) \<Longrightarrow> exec_step agent exn_text x (end_cancel c x)"

inductive exec_reachable :: "(pystr \<Rightarrow> wf_event list \<times> exn option) \<Rightarrow> (exn \<Rightarrow> pystr) \<Rightarrow> executor \<Rightarrow> bool" for agent exn_text where
  start: "exec_reachable agent exn_text new_executor"
| step: "exec_reachable agent exn_text x \<Longrightarrow> exec_step agent exn_text x y \<Longrightarrow> exec_reachable agent exn_text y"

inductive_cases exec_stepE: "exec_step agent exn_text x y"

section \<open>What an execution puts on the queue\<close>

definition emitted_by :: "nat \<Rightarrow> executor \<Rightarrow> out_event list" where
  "emitted_by i x = map snd (filter (\<lambda>(s, e). s = By_run i) (ex_queue x))"

text \<open>The whole output for a text, and the number of events out in a phase.\<close>

definition full_output :: "(pystr \<Rightarrow> wf_event list \<times> exn option) \<Rightarrow> (exn \<Rightarrow> pystr) \<Rightarrow> pystr \<Rightarrow> out_event list" where
  "full_output agent exn_text txt = (case agent txt of (es, e) \<Rightarrow>
     [Task_submitted, Status WT_WORKING []] @ map Agent_event es
       @ [case e of None \<Rightarrow> Status WT_COMPLETED [] | Some err \<Rightarrow> Status WT_FAILED (exn_text err)])"

definition recorded :: "pystr \<Rightarrow> wf_event list \<Rightarrow> wf_event list" where
  "recorded txt sent = user_event txt # filter (\<lambda>e. \<not> is_partial_event e) sent"

text \<open>The run and its output \<open>out\<close> agree.\<close>

definition run_agrees :: "(pystr \<Rightarrow> wf_event list \<times> exn option) \<Rightarrow> (exn \<Rightarrow> pystr) \<Rightarrow> exec_run \<Rightarrow> out_event list \<Rightarrow> bool" where
  "run_agrees agent exn_text r out = (let full = full_output agent exn_text (ru_text r) in case ru_phase r of
      Created \<Rightarrow> out = []
    | Submitted \<Rightarrow> out = [Task_submitted]
    | Forwarding rest e \<Rightarrow> (\<exists>sent. agent (ru_text r) = (sent @ rest, e)
        \<and> out = [Task_submitted, Status WT_WORKING []] @ map Agent_event sent \<and> ru_history r = recorded (ru_text r) sent)
    | Finished \<Rightarrow> out = full \<and> ru_history r = recorded (ru_text r) (fst (agent (ru_text r)))
    | Cancelled \<Rightarrow> (\<exists>rest. rest \<noteq> [] \<and> full = out @ rest))"

lemma run_agrees_returned [simp]: "run_agrees agent exn_text (r\<lparr>ru_returned := b\<rparr>) out = run_agrees agent exn_text r out"
  by (simp add: run_agrees_def cong: run_phase.case_cong)

lemma run_agrees_cancel:
  assumes "run_agrees agent exn_text r out" and "\<not> phase_done (ru_phase r)"
  shows "run_agrees agent exn_text (r\<lparr>ru_phase := Cancelled\<rparr>) out"
  using assms by (auto simp: run_agrees_def phase_done_def full_output_def Let_def split: run_phase.splits prod.splits)

lemma run_agrees_advance:
  assumes "run_agrees agent exn_text r out" and "advance agent exn_text r = Some (es, r')"
  shows "run_agrees agent exn_text r' (out @ es)" "ru_task r' = ru_task r" "ru_text r' = ru_text r"
proof -
  show "ru_task r' = ru_task r" "ru_text r' = ru_text r"
    using assms(2) by (auto simp: advance_def split: run_phase.splits list.splits option.splits prod.splits)
  show "run_agrees agent exn_text r' (out @ es)"
  proof (cases "ru_phase r")
    case (Forwarding rest e)
    then obtain sent where sent: "agent (ru_text r) = (sent @ rest, e)"
      "out = [Task_submitted, Status WT_WORKING []] @ map Agent_event sent" "ru_history r = recorded (ru_text r) sent"
      using assms(1) by (auto simp: run_agrees_def Let_def)
    show ?thesis
    proof (cases rest)
      case Nil
      then show ?thesis using assms(2) Forwarding sent
        by (auto simp: advance_def run_agrees_def full_output_def Let_def split: option.splits)
    next
      case (Cons ev es')
      then show ?thesis using assms(2) Forwarding sent
        by (auto simp: advance_def run_agrees_def full_output_def recorded_def Let_def intro!: exI [of _ "sent @ [ev]"])
    qed
  qed (use assms in \<open>auto simp: advance_def run_agrees_def recorded_def Let_def split: prod.splits\<close>)
qed

text \<open>Frames.\<close>

lemma put_frame [simp]:
  "ex_runs (put s es x) = ex_runs x" "ex_active (put s es x) = ex_active x" "ex_cancelling (put s es x) = ex_cancelling x"
  "emitted_by i (put s es x) = emitted_by i x @ (if s = By_run i then es else [])"
  by (auto simp: put_def emitted_by_def o_def filter_map)

lemma set_run_frame [simp]:
  "ex_runs (set_run i r x) = (ex_runs x)[i := r]" "emitted_by j (set_run i r x) = emitted_by j x"
  by (simp_all add: set_run_def emitted_by_def)

lemma emitted_by_frame [simp]:
  "emitted_by i (x\<lparr>ex_active := a\<rparr>) = emitted_by i x" "emitted_by i (x\<lparr>ex_cancelling := cs\<rparr>) = emitted_by i x"
  "emitted_by i (x\<lparr>ex_runs := rs\<rparr>) = emitted_by i x"
  by (simp_all add: emitted_by_def)

section \<open>The invariant\<close>

definition executor_inv :: "(pystr \<Rightarrow> wf_event list \<times> exn option) \<Rightarrow> (exn \<Rightarrow> pystr) \<Rightarrow> executor \<Rightarrow> bool" where
  "executor_inv agent exn_text x \<longleftrightarrow> (\<forall>i < length (ex_runs x). run_agrees agent exn_text (ex_runs x ! i) (emitted_by i x))
     \<and> (\<forall>s e i. (s, e) \<in> set (ex_queue x) \<longrightarrow> s = By_run i \<longrightarrow> i < length (ex_runs x))
     \<and> (\<forall>t i. map_of (ex_active x) t = Some i \<longrightarrow> i < length (ex_runs x) \<and> ru_task (ex_runs x ! i) = t)
     \<and> (\<forall>(t, i) \<in> set (ex_cancelling x). i < length (ex_runs x) \<and> ru_phase (ex_runs x ! i) = Cancelled)"

lemma emitted_none: "\<forall>s e i. (s, e) \<in> set (ex_queue x) \<longrightarrow> s = By_run i \<longrightarrow> i < n \<Longrightarrow> emitted_by n x = []"
  by (fastforce simp: emitted_by_def filter_empty_conv)

lemma executor_invI:
  assumes "\<And>i. i < length (ex_runs x) \<Longrightarrow> run_agrees agent exn_text (ex_runs x ! i) (emitted_by i x)"
    and "\<And>e i. (By_run i, e) \<in> set (ex_queue x) \<Longrightarrow> i < length (ex_runs x)"
    and "\<And>t i. map_of (ex_active x) t = Some i \<Longrightarrow> i < length (ex_runs x) \<and> ru_task (ex_runs x ! i) = t"
    and "\<And>t i. (t, i) \<in> set (ex_cancelling x) \<Longrightarrow> i < length (ex_runs x) \<and> ru_phase (ex_runs x ! i) = Cancelled"
  shows "executor_inv agent exn_text x"
  using assms by (auto simp: executor_inv_def)

lemma executor_invD:
  assumes "executor_inv agent exn_text x"
  shows "i < length (ex_runs x) \<Longrightarrow> run_agrees agent exn_text (ex_runs x ! i) (emitted_by i x)"
    and "(By_run i, e) \<in> set (ex_queue x) \<Longrightarrow> i < length (ex_runs x)"
    and "map_of (ex_active x) t = Some i \<Longrightarrow> i < length (ex_runs x) \<and> ru_task (ex_runs x ! i) = t"
    and "(t, i) \<in> set (ex_cancelling x) \<Longrightarrow> i < length (ex_runs x) \<and> ru_phase (ex_runs x ! i) = Cancelled"
  using assms by (auto simp: executor_inv_def)

text \<open>Replacing one run by one that agrees with the output so far, keeping a cancelled one cancelled.\<close>

lemma inv_set_run:
  assumes "executor_inv agent exn_text x" and "i < length (ex_runs x)"
    and "run_agrees agent exn_text r (emitted_by i x @ es)" and "ru_task r = ru_task (ex_runs x ! i)"
    and "ru_phase (ex_runs x ! i) = Cancelled \<longrightarrow> ru_phase r = Cancelled"
  shows "executor_inv agent exn_text (put (By_run i) es (set_run i r x))"
proof (rule executor_invI)
  fix j assume "j < length (ex_runs (put (By_run i) es (set_run i r x)))"
  then show "run_agrees agent exn_text (ex_runs (put (By_run i) es (set_run i r x)) ! j) (emitted_by j (put (By_run i) es (set_run i r x)))"
    using assms executor_invD(1) [OF assms(1), of j] by (cases "j = i") auto
next
  fix e j assume "(By_run j, e) \<in> set (ex_queue (put (By_run i) es (set_run i r x)))"
  then show "j < length (ex_runs (put (By_run i) es (set_run i r x)))"
    using assms(2) executor_invD(2) [OF assms(1)] by (auto simp: put_def set_run_def)
next
  fix t j assume "map_of (ex_active (put (By_run i) es (set_run i r x))) t = Some j"
  then show "j < length (ex_runs (put (By_run i) es (set_run i r x))) \<and> ru_task (ex_runs (put (By_run i) es (set_run i r x)) ! j) = t"
    using assms(2,4) executor_invD(3) [OF assms(1), of t j] by (auto simp: set_run_def nth_list_update)
next
  fix t j assume "(t, j) \<in> set (ex_cancelling (put (By_run i) es (set_run i r x)))"
  then show "j < length (ex_runs (put (By_run i) es (set_run i r x))) \<and> ru_phase (ex_runs (put (By_run i) es (set_run i r x)) ! j) = Cancelled"
    using assms(2,5) executor_invD(4) [OF assms(1), of t j] by (auto simp: set_run_def nth_list_update)
qed

lemma put_Nil [simp]: "put s [] x = x"
  by (simp add: put_def)

lemma inv_set_run_quiet:
  assumes "executor_inv agent exn_text x" and "i < length (ex_runs x)"
    and "run_agrees agent exn_text r (emitted_by i x)" and "ru_task r = ru_task (ex_runs x ! i)"
    and "ru_phase (ex_runs x ! i) = Cancelled \<longrightarrow> ru_phase r = Cancelled"
  shows "executor_inv agent exn_text (set_run i r x)"
  using inv_set_run [of agent exn_text x i r "[]"] assms by simp

lemma inv_put_cancel: "executor_inv agent exn_text x \<Longrightarrow> executor_inv agent exn_text (put (By_cancel t) es x)"
  by (auto simp: executor_inv_def) (auto simp: put_def)

lemma inv_active:
  "executor_inv agent exn_text x \<Longrightarrow> (\<And>t i. map_of a t = Some i \<Longrightarrow> i < length (ex_runs x) \<and> ru_task (ex_runs x ! i) = t)
    \<Longrightarrow> executor_inv agent exn_text (x\<lparr>ex_active := a\<rparr>)"
  by (auto simp: executor_inv_def)

lemma inv_cancelling:
  "executor_inv agent exn_text x \<Longrightarrow> (\<And>t i. (t, i) \<in> set cs \<Longrightarrow> i < length (ex_runs x) \<and> ru_phase (ex_runs x ! i) = Cancelled)
    \<Longrightarrow> executor_inv agent exn_text (x\<lparr>ex_cancelling := cs\<rparr>)"
  by (auto simp: executor_inv_def)

lemma inv_start_execute:
  assumes "executor_inv agent exn_text x"
  shows "executor_inv agent exn_text (start_execute task txt x)"
proof (rule executor_invI)
  fix i assume i: "i < length (ex_runs (start_execute task txt x))"
  have new: "emitted_by (length (ex_runs x)) x = []"
    by (rule emitted_none) (use assms in \<open>auto simp: executor_inv_def\<close>)
  have "emitted_by i (start_execute task txt x) = emitted_by i x" by (simp add: start_execute_def emitted_by_def)
  then show "run_agrees agent exn_text (ex_runs (start_execute task txt x) ! i) (emitted_by i (start_execute task txt x))"
    using i new executor_invD(1) [OF assms, of i]
    by (cases "i < length (ex_runs x)") (auto simp: start_execute_def nth_append run_agrees_def less_Suc_eq)
qed (use executor_invD(2-4) [OF assms] in \<open>auto simp: start_execute_def nth_append update_conv' less_Suc_eq split: if_splits\<close>)

lemma inv_end_execute:
  assumes "executor_inv agent exn_text x" and "i < length (ex_runs x)"
  shows "executor_inv agent exn_text (end_execute broken i x)"
  unfolding end_execute_def Let_def
proof (rule inv_active)
  let ?r = "ex_runs x ! i"
  let ?p = "if broken \<and> \<not> phase_done (ru_phase ?r) then Cancelled else ru_phase ?r"
  have agrees: "run_agrees agent exn_text (?r\<lparr>ru_phase := ?p\<rparr>) (emitted_by i x)"
    using executor_invD(1) [OF assms] run_agrees_cancel by (cases "broken \<and> \<not> phase_done (ru_phase ?r)") auto
  show "executor_inv agent exn_text (set_run i (?r\<lparr>ru_phase := ?p, ru_returned := True\<rparr>) x)"
    by (rule inv_set_run_quiet [OF assms]) (use agrees in \<open>auto simp: phase_done_def\<close>)
qed (use assms(2) executor_invD(3) [OF assms(1)] in \<open>auto simp: delete_conv' set_run_def nth_list_update split: if_splits\<close>)

lemma inv_start_cancel:
  assumes "executor_inv agent exn_text x"
  shows "executor_inv agent exn_text (start_cancel task x)"
proof (cases "map_of (ex_active x) task")
  case None
  then show ?thesis using inv_put_cancel [OF assms] by (simp add: start_cancel_def)
next
  case (Some i)
  have i: "i < length (ex_runs x)" using executor_invD(3) [OF assms Some] by simp
  show ?thesis
  proof (cases "phase_done (ru_phase (ex_runs x ! i))")
    case True
    then show ?thesis using Some inv_put_cancel [OF assms] by (simp add: start_cancel_def)
  next
    case False
    let ?r = "(ex_runs x ! i)\<lparr>ru_phase := Cancelled\<rparr>"
    have "executor_inv agent exn_text (set_run i ?r x)"
      by (rule inv_set_run_quiet [OF assms i run_agrees_cancel [OF executor_invD(1) [OF assms i] False]]) simp_all
    then have "executor_inv agent exn_text ((set_run i ?r x)\<lparr>ex_cancelling := ex_cancelling x @ [(task, i)]\<rparr>)"
      by (rule inv_cancelling) (use i executor_invD(4) [OF assms] in \<open>auto simp: set_run_def nth_list_update\<close>)
    then show ?thesis using Some False by (simp add: start_cancel_def)
  qed
qed

lemma inv_step:
  assumes "exec_step agent exn_text x y" and "executor_inv agent exn_text x"
  shows "executor_inv agent exn_text y"
  using assms(1)
proof (cases rule: exec_step.cases)
  case (progress i es r)
  then have "ru_phase (ex_runs x ! i) \<noteq> Cancelled" by (auto simp: advance_def)
  with progress show ?thesis
    using run_agrees_advance [OF executor_invD(1) [OF assms(2)] progress(3)] inv_set_run [OF assms(2), of i r es] by simp
next
  case (cancelled c)
  have "executor_inv agent exn_text (x\<lparr>ex_cancelling := remove1 c (ex_cancelling x)\<rparr>)"
  proof (rule inv_cancelling [OF assms(2)])
    fix t i assume "(t, i) \<in> set (remove1 c (ex_cancelling x))"
    then have "(t, i) \<in> set (ex_cancelling x)" using set_remove1_subset by fastforce
    then show "i < length (ex_runs x) \<and> ru_phase (ex_runs x ! i) = Cancelled" by (rule executor_invD(4) [OF assms(2)])
  qed
  then show ?thesis using cancelled by (simp add: end_cancel_def inv_put_cancel)
next
  case (execute task s)
  then show ?thesis by (simp add: inv_start_execute [OF assms(2)])
next
  case (finish i)
  then show ?thesis by (simp add: inv_end_execute [OF assms(2)])
next
  case (disconnect i)
  then show ?thesis by (simp add: inv_end_execute [OF assms(2)])
next
  case (cancel task)
  then show ?thesis by (simp add: inv_start_cancel [OF assms(2)])
qed

interpretation exec: transition_system "\<lambda>x. x = new_executor" "exec_step agent exn_text" "executor_inv agent exn_text" for agent exn_text
  by unfold_locales (simp add: new_executor_def executor_inv_def, blast intro: inv_step)

lemma reachable_run: "exec_reachable agent exn_text x \<Longrightarrow> (exec_step agent exn_text)\<^sup>*\<^sup>* new_executor x"
  by (induction rule: exec_reachable.induct) auto

lemma reachable_executor_inv: "exec_reachable agent exn_text x \<Longrightarrow> executor_inv agent exn_text x"
  by (rule exec.reachable_inv [OF refl reachable_run])

text \<open>C25: however executions, cancellations and broken connections are interleaved, what an execution has put on the queue
  is consistent with how far it is: SUBMITTED, then WORKING, then the agent's events in order, and exactly one of COMPLETED
  and FAILED when it has finished, FAILED just when the agent ended with an exception; a cancelled execution has put out a
  proper beginning of that, without any terminal status.  The agent's record holds the user's message and all complete
  events sent, no partial ones.\<close>

theorem executor_output:
  assumes "exec_reachable agent exn_text x" and "i < length (ex_runs x)"
  shows "run_agrees agent exn_text (ex_runs x ! i) (emitted_by i x)"
  using executor_invD(1) [OF reachable_executor_inv [OF assms(1)] assms(2)] .

text \<open>A cancelled execution stays cancelled and silent.\<close>

lemma end_execute_runs: "i < length (ex_runs x) \<Longrightarrow> ru_phase (ex_runs x ! i) = Cancelled \<Longrightarrow> j < length (ex_runs x) \<Longrightarrow>
    ru_phase (ex_runs (end_execute b j x) ! i) = Cancelled \<and> emitted_by i (end_execute b j x) = emitted_by i x
    \<and> length (ex_runs (end_execute b j x)) = length (ex_runs x)"
  by (auto simp: end_execute_def Let_def nth_list_update phase_done_def)

lemma start_cancel_runs: "i < length (ex_runs x) \<Longrightarrow> ru_phase (ex_runs x ! i) = Cancelled \<Longrightarrow>
    ru_phase (ex_runs (start_cancel t x) ! i) = Cancelled \<and> emitted_by i (start_cancel t x) = emitted_by i x
    \<and> length (ex_runs (start_cancel t x)) = length (ex_runs x)"
  by (auto simp: start_cancel_def phase_done_def split: option.split) (metis nth_list_update_neq)

lemma cancelled_step:
  assumes "exec_step agent exn_text x y" and "i < length (ex_runs x)" and "ru_phase (ex_runs x ! i) = Cancelled"
  shows "ru_phase (ex_runs y ! i) = Cancelled \<and> emitted_by i y = emitted_by i x \<and> i < length (ex_runs y)"
  using assms(1)
proof (cases rule: exec_step.cases)
  case (execute task s)
  then show ?thesis using assms(2,3) by (simp add: start_execute_def nth_append)
next
  case (progress j es r)
  then have "j \<noteq> i" using assms(3) by (auto simp: advance_def)
  then show ?thesis using progress assms(2,3) by simp
next
  case (cancelled c)
  then show ?thesis using assms(2,3) by (simp add: end_cancel_def)
qed (use assms end_execute_runs start_cancel_runs in auto)


section \<open>Examples\<close>

definition example_executor :: executor where
  "example_executor = start_cancel (py ''t'') (put (By_run 0) [Task_submitted]
     (set_run 0 \<lparr>ru_task = py ''t'', ru_text = [], ru_phase = Submitted, ru_history = [], ru_returned = False\<rparr>
       (start_execute (py ''t'') [] new_executor)))"

lemma example_executor_reachable: "exec_reachable agent exn_text example_executor"
proof -
  let ?x1 = "start_execute (py ''t'') [] new_executor"
  let ?r = "\<lparr>ru_task = py ''t'', ru_text = [], ru_phase = Submitted, ru_history = [], ru_returned = False\<rparr>"
  have "exec_reachable agent exn_text ?x1" by (rule exec_reachable.step [OF exec_reachable.start exec_step.execute])
  moreover have "exec_step agent exn_text ?x1 (put (By_run 0) [Task_submitted] (set_run 0 ?r ?x1))"
    by (rule exec_step.progress) (simp_all add: start_execute_def new_executor_def advance_def)
  ultimately show ?thesis
    unfolding example_executor_def by (blast intro: exec_reachable.step exec_step.cancel)
qed

lemma example_executor_phase: "0 < length (ex_runs example_executor)" "ru_phase (ex_runs example_executor ! 0) = Cancelled"
  "emitted_by 0 example_executor = [Task_submitted]"
  by (simp_all add: example_executor_def start_cancel_def start_execute_def new_executor_def phase_done_def set_run_def put_def emitted_by_def)

lemma executor_output_witness:
  "run_agrees (\<lambda>s. ([], None)) (\<lambda>e. []) (ex_runs example_executor ! 0) [Task_submitted]"
  using executor_output [OF example_executor_reachable, of 0 "\<lambda>s. ([], None)" "\<lambda>e. []"] example_executor_phase by simp


section \<open>Executions end\<close>

definition steps_left :: "(pystr \<Rightarrow> wf_event list \<times> exn option) \<Rightarrow> exec_run \<Rightarrow> nat" where
  "steps_left agent r = (case ru_phase r of
      Created \<Rightarrow> length (fst (agent (ru_text r))) + 3
    | Submitted \<Rightarrow> length (fst (agent (ru_text r))) + 2
    | Forwarding rest e \<Rightarrow> length rest + 1
    | _ \<Rightarrow> 0)"

lemma advance_decreases:
  assumes "\<not> phase_done (ru_phase r)"
  obtains es r' where "advance agent exn_text r = Some (es, r')" "steps_left agent r = Suc (steps_left agent r')"
    "ru_phase r' \<noteq> Cancelled"
proof -
  have "\<exists>es r'. advance agent exn_text r = Some (es, r') \<and> steps_left agent r = Suc (steps_left agent r') \<and> ru_phase r' \<noteq> Cancelled"
  proof (cases "ru_phase r")
    case (Forwarding rest e)
    then show ?thesis by (cases rest; cases e) (auto simp: advance_def steps_left_def)
  qed (use assms in \<open>auto simp: phase_done_def advance_def steps_left_def split: prod.splits\<close>)
  then show ?thesis using that by blast
qed

lemma run_to_end:
  assumes "i < length (ex_runs x)" and "\<not> phase_done (ru_phase (ex_runs x ! i))"
  shows "\<exists>y. (exec_step agent exn_text)\<^sup>*\<^sup>* x y \<and> i < length (ex_runs y) \<and> ru_phase (ex_runs y ! i) = Finished"
  using assms
proof (induction "steps_left agent (ex_runs x ! i)" arbitrary: x rule: less_induct)
  case less
  obtain es r where adv: "advance agent exn_text (ex_runs x ! i) = Some (es, r)"
    "steps_left agent (ex_runs x ! i) = Suc (steps_left agent r)" "ru_phase r \<noteq> Cancelled"
    by (rule advance_decreases [OF less.prems(2)])
  define y where "y = put (By_run i) es (set_run i r x)"
  have step: "exec_step agent exn_text x y" unfolding y_def by (rule exec_step.progress [OF less.prems(1) adv(1)])
  have y: "i < length (ex_runs y)" "ex_runs y ! i = r" using less.prems(1) by (simp_all add: y_def)
  show ?case
  proof (cases "phase_done (ru_phase r)")
    case True
    then show ?thesis using adv(3) y step by (auto simp: phase_done_def)
  next
    case False
    then obtain z where "(exec_step agent exn_text)\<^sup>*\<^sup>* y z" "i < length (ex_runs z)" "ru_phase (ex_runs z ! i) = Finished"
      using less.hyps [of y] y adv(2) by auto
    then show ?thesis using step by (meson converse_rtranclp_into_rtranclp)
  qed
qed

text \<open>An execution that is not disturbed ends: from every reachable state, an execution that is under way can go on
  to its end, and its client has then received the whole output with its terminal status.\<close>

theorem execution_can_end:
  assumes "exec_reachable agent exn_text x" and "i < length (ex_runs x)" and "\<not> phase_done (ru_phase (ex_runs x ! i))"
  shows "\<exists>y. (exec_step agent exn_text)\<^sup>*\<^sup>* x y \<and> ru_phase (ex_runs y ! i) = Finished
    \<and> emitted_by i y = full_output agent exn_text (ru_text (ex_runs y ! i))"
proof -
  obtain y where y: "(exec_step agent exn_text)\<^sup>*\<^sup>* x y" "i < length (ex_runs y)" "ru_phase (ex_runs y ! i) = Finished"
    using run_to_end [OF assms(2,3)] by blast
  have "run_agrees agent exn_text (ex_runs y ! i) (emitted_by i y)"
    by (rule executor_invD(1) [OF exec.run_inv [OF y(1) reachable_executor_inv [OF assms(1)]] y(2)])
  then show ?thesis using y by (auto simp: run_agrees_def Let_def)
qed

lemma execution_can_end_witness:
  "\<exists>y. (exec_step (\<lambda>s. ([], None)) (\<lambda>e. []))\<^sup>*\<^sup>* (start_execute (py ''t'') [] new_executor) y \<and> ru_phase (ex_runs y ! 0) = Finished
    \<and> emitted_by 0 y = [Task_submitted, Status WT_WORKING [], Status WT_COMPLETED []]"
proof -
  have "exec_reachable (\<lambda>s. ([], None)) (\<lambda>e. []) (start_execute (py ''t'') [] new_executor)"
    by (rule exec_reachable.step [OF exec_reachable.start exec_step.execute])
  then show ?thesis
    using execution_can_end [of "\<lambda>s. ([], None)" "\<lambda>e. []" "start_execute (py ''t'') [] new_executor" 0]
    by (simp add: start_execute_def new_executor_def phase_done_def full_output_def)
qed

text \<open>Two overlapping executions of one task: the end of the first takes the entry of the second, which a later
  \<open>cancel\<close> then misses although it reports CANCELED.\<close>

lemma overlapping_execution_escapes:
  assumes "ex_runs x = [r0, r1]" and "ru_task r0 = t" and "ru_task r1 = t" and "map_of (ex_active x) t = Some 1"
    and "ru_phase r0 = Finished" and "\<not> phase_done (ru_phase r1)"
  shows "let y = start_cancel t (end_execute False 0 x) in
    ex_queue y = ex_queue x @ [(By_cancel t, Status WT_CANCELED [])] \<and> \<not> phase_done (ru_phase (ex_runs y ! 1))"
  using assms by (simp add: end_execute_def start_cancel_def Let_def delete_conv' set_run_def put_def)

end
