(* ===== verification/Node_Life.thy ===== *)
theory Node_Life
  imports Orchestrator Refinement
begin

text \<open>
  The contract of the orchestrator of \<open>new_choirworks\<close>: what a client can rely on about the nodes of a run.  The
  abstract machine \<open>life_step\<close> knows for every id only its status, its output and its dependencies; it does not know
  the plan as a list, the running tasks, the queue of completions, the phases of the loop or the bookkeeping of
  assistance.  The orchestrator refines it, and two guarantees are proved on the abstract machine and transferred.
\<close>

section \<open>The abstract machine\<close>

record life =
  lf_status :: "pystr \<Rightarrow> dag_status option"
  lf_output :: "pystr \<Rightarrow> pystr option"
  lf_deps :: "pystr \<Rightarrow> pystr list option"

definition no_life :: life where
  "no_life = \<lparr>lf_status = \<lambda>k. None, lf_output = \<lambda>k. None, lf_deps = \<lambda>k. None\<rparr>"

inductive life_step :: "life \<Rightarrow> life \<Rightarrow> bool" where
  replan: "life_step a (a\<lparr>lf_deps := deps,
     lf_status := (\<lambda>k. if lf_status a k = None \<and> deps k \<noteq> None then Some D_PENDING else lf_status a k)\<rparr>)"
| start: "lf_status a k \<in> {Some D_PENDING, Some D_WAITING_ASSIST} \<Longrightarrow> lf_deps a k = Some ds
     \<Longrightarrow> \<forall>d \<in> set ds. lf_output a d \<noteq> None \<Longrightarrow> life_step a (a\<lparr>lf_status := (lf_status a)(k \<mapsto> D_RUNNING)\<rparr>)"
| succeed: "lf_status a k = Some D_RUNNING
     \<Longrightarrow> life_step a (a\<lparr>lf_status := (lf_status a)(k \<mapsto> D_COMPLETED), lf_output := (lf_output a)(k \<mapsto> out)\<rparr>)"
| fail: "lf_status a k = Some D_RUNNING \<Longrightarrow> life_step a (a\<lparr>lf_status := (lf_status a)(k \<mapsto> D_FAILED)\<rparr>)"
| consult: "lf_status a k \<in> {Some D_COMPLETED, Some D_WAITING_ASSIST} \<Longrightarrow> lf_output a k \<noteq> None
     \<Longrightarrow> lf_deps a k = Some ds \<Longrightarrow> lf_status a h = None
     \<Longrightarrow> life_step a (a\<lparr>lf_status := (lf_status a)(h \<mapsto> D_PENDING, k \<mapsto> D_WAITING_ASSIST),
           lf_deps := (lf_deps a)(h \<mapsto> [], k \<mapsto> (if h \<in> set ds then ds else ds @ [h]))\<rparr>)"

inductive_cases life_stepE: "life_step a b"

section \<open>The abstraction\<close>

definition plan_deps :: "PlanNode list \<Rightarrow> pystr \<Rightarrow> pystr list option" where
  "plan_deps plan k = map_option pn_deps (List.find (\<lambda>n. pn_id n = k) plan)"

definition life_of :: "DagRuntime \<Rightarrow> life" where
  "life_of rt = \<lparr>lf_status = map_of (dr_status rt), lf_output = map_of (dr_outputs rt), lf_deps = plan_deps (dr_plan rt)\<rparr>"

lemma life_of_simps [simp]:
  "lf_status (life_of rt) = map_of (dr_status rt)" "lf_output (life_of rt) = map_of (dr_outputs rt)"
  "lf_deps (life_of rt) = plan_deps (dr_plan rt)"
  by (simp_all add: life_of_def)

lemma life_of_eqI:
  assumes "\<And>k. dstatus rt k = lf_status a k" and "\<And>k. map_of (dr_outputs rt) k = lf_output a k"
    and "\<And>k. plan_deps (dr_plan rt) k = lf_deps a k"
  shows "life_of rt = a"
  using assms by (cases a) (auto simp: life_of_def)

lemma life_of_cong: "dr_status rt' = dr_status rt \<Longrightarrow> dr_outputs rt' = dr_outputs rt \<Longrightarrow> dr_plan rt' = dr_plan rt \<Longrightarrow> life_of rt' = life_of rt"
  by (simp add: life_of_def)

lemma plan_deps_None: "plan_deps plan k = None \<longleftrightarrow> k \<notin> pn_id ` set plan"
  by (auto simp: plan_deps_def find_None_iff)

lemma plan_deps_Some: "distinct (map pn_id plan) \<Longrightarrow> n \<in> set plan \<Longrightarrow> plan_deps plan (pn_id n) = Some (pn_deps n)"
proof (induction plan)
  case (Cons m plan)
  then show ?case by (cases "m = n") (auto simp: plan_deps_def image_iff)
qed simp

section \<open>The operations refine it\<close>

abbreviation lives :: "DagRuntime \<Rightarrow> DagRuntime \<Rightarrow> bool" where
  "lives rt rt' \<equiv> life_step\<^sup>*\<^sup>* (life_of rt) (life_of rt')"

lemma settle_task_life:
  assumes "dstatus rt k = Some D_RUNNING"
  shows "life_step (life_of rt) (life_of (settle_task k r rt))"
proof (cases r)
  case (Inl e)
  have "life_of (settle_task k r rt) = (life_of rt)\<lparr>lf_status := (lf_status (life_of rt))(k \<mapsto> D_FAILED)\<rparr>"
    by (rule life_of_eqI) (simp_all add: settle_task_fields Inl)
  then show ?thesis using life_step.fail [of "life_of rt" k] assms by simp
next
  case (Inr out)
  have "life_of (settle_task k r rt) = (life_of rt)\<lparr>lf_status := (lf_status (life_of rt))(k \<mapsto> D_COMPLETED),
      lf_output := (lf_output (life_of rt))(k \<mapsto> out)\<rparr>"
    by (rule life_of_eqI) (simp_all add: settle_task_fields Inr)
  then show ?thesis using life_step.succeed [of "life_of rt" k out] assms by simp
qed

lemma collect_tasks_life:
  "distinct (map fst ts) \<Longrightarrow> (\<And>k. k \<in> fst ` set ts \<Longrightarrow> dstatus rt k = Some D_RUNNING) \<Longrightarrow> lives rt (collect_tasks ts rt)"
proof (induction ts rt rule: collect_tasks.induct)
  case (3 k r ts rt)
  have step: "collect_tasks ((k, Task_finished r) # ts) rt = collect_tasks ts (settle_task k r rt)" by (simp add: settle_task_def)
  have "dstatus (settle_task k r rt) k' = Some D_RUNNING" if "k' \<in> fst ` set ts" for k'
    using that "3.prems" by (auto simp: settle_task_fields)
  then have "lives (settle_task k r rt) (collect_tasks ts (settle_task k r rt))"
    using "3.IH" "3.prems"(1) by (simp add: settle_task_def)
  moreover have "life_step (life_of rt) (life_of (settle_task k r rt))"
    by (rule settle_task_life) (use "3.prems"(2) in auto)
  ultimately show ?case unfolding step by (meson converse_rtranclp_into_rtranclp)
qed auto

lemma collect_done_life:
  assumes "rt_inv rt"
  shows "lives rt (dag_collect_done rt)"
  unfolding dag_collect_done_def
proof (rule collect_tasks_life)
  show "distinct (d_keys (dr_running rt))" using assms by (simp add: rt_inv_def running_inv_def)
  show "dstatus rt k = Some D_RUNNING" if "k \<in> fst ` set (dr_running rt)" for k
    using assms that unfolding rt_inv_def running_inv_def by (auto simp: map_of_eq_None_iff)
qed

lemma start_task_life:
  assumes "distinct (map pn_id (dr_plan rt))" and "n \<in> set (dr_plan rt)" and "awaits_dispatch (dstatus rt (pn_id n))"
    and "set (pn_deps n) \<subseteq> set (d_keys (dr_outputs rt))"
  shows "life_step (life_of rt) (life_of (start_task (pn_id n) rt))"
proof -
  have "life_of (start_task (pn_id n) rt) = (life_of rt)\<lparr>lf_status := (lf_status (life_of rt))(pn_id n \<mapsto> D_RUNNING)\<rparr>"
    by (rule life_of_eqI) simp_all
  moreover have "\<forall>d \<in> set (pn_deps n). map_of (dr_outputs rt) d \<noteq> None"
    using assms(4) by (meson d_has_iff subsetD)
  ultimately show ?thesis
    using life_step.start [of "life_of rt" "pn_id n" "pn_deps n"] assms(3) plan_deps_Some [OF assms(1,2)]
    by (simp add: awaits_dispatch_def)
qed

lemma start_tasks_life:
  "distinct (map pn_id (dr_plan rt)) \<Longrightarrow> distinct ks \<Longrightarrow> (\<And>k. k \<in> set ks \<Longrightarrow> \<exists>n \<in> set (dr_plan rt). pn_id n = k
      \<and> awaits_dispatch (dstatus rt k) \<and> set (pn_deps n) \<subseteq> set (d_keys (dr_outputs rt)))
    \<Longrightarrow> lives rt (fold start_task ks rt)"
proof (induction ks arbitrary: rt)
  case (Cons k ks)
  obtain n where n: "n \<in> set (dr_plan rt)" "pn_id n = k" "awaits_dispatch (dstatus rt k)" "set (pn_deps n) \<subseteq> set (d_keys (dr_outputs rt))"
    using Cons.prems(3) [of k] by auto
  have "life_step (life_of rt) (life_of (start_task k rt))" using start_task_life [OF Cons.prems(1) n(1)] n(2-4) by simp
  moreover have "lives (start_task k rt) (fold start_task ks (start_task k rt))"
    by (rule Cons.IH) (use Cons.prems in \<open>auto simp del: list.set_map\<close>)
  ultimately show ?case by (simp add: converse_rtranclp_into_rtranclp)
qed simp

lemma dispatch_ready_life: "rt_inv rt \<Longrightarrow> lives rt (fold start_task (dispatchable rt) rt)"
  by (rule start_tasks_life) (auto simp: rt_inv_def plan_inv_def distinct_dispatchable dispatchable_mem simp del: list.set_map)

lemma apply_plan_life:
  assumes "rt_inv rt" and ap: "apply_plan plan rt = Inr rt'"
  shows "life_step (life_of rt) (life_of rt')"
proof -
  note a = apply_plan_Inr [OF ap]
  have known: "dstatus rt k \<noteq> None" if "k \<in> pn_id ` set (dr_plan rt)" for k
    using assms(1) that by (auto simp: rt_inv_def plan_inv_def)
  have live: "dstatus rt k \<noteq> Some D_CANCELLED" for k using assms(1) by (simp add: rt_inv_def results_inv_def)
  have dom: "plan_deps (dr_plan rt') k \<noteq> None \<longleftrightarrow> k \<in> pn_id ` set plan" for k
    by (simp add: plan_deps_None a(2) image_image)
  have "life_of rt' = (life_of rt)\<lparr>lf_deps := plan_deps (dr_plan rt'),
      lf_status := (\<lambda>k. if lf_status (life_of rt) k = None \<and> plan_deps (dr_plan rt') k \<noteq> None then Some D_PENDING else lf_status (life_of rt) k)\<rparr>"
  proof (rule life_of_eqI)
    fix k
    show "dstatus rt' k = lf_status ((life_of rt)\<lparr>lf_deps := plan_deps (dr_plan rt'),
      lf_status := (\<lambda>k. if lf_status (life_of rt) k = None \<and> plan_deps (dr_plan rt') k \<noteq> None then Some D_PENDING else lf_status (life_of rt) k)\<rparr>) k"
      using known [of k] live [of k] unfolding dom by (auto simp: a(3))
  qed (simp_all add: a)
  then show ?thesis using life_step.replan [of "life_of rt" "plan_deps (dr_plan rt')"] by simp
qed

section \<open>Assistance\<close>

lemma plan_deps_Cons: "plan_deps (n # plan) k = (if pn_id n = k then Some (pn_deps n) else plan_deps plan k)"
  by (simp add: plan_deps_def)

lemma plan_deps_snoc: "plan_deps (plan @ [n]) k = (if plan_deps plan k = None \<and> pn_id n = k then Some (pn_deps n) else plan_deps plan k)"
  by (induction plan) (auto simp: plan_deps_Cons plan_deps_def)

lemma plan_deps_wire:
  "k \<noteq> h \<Longrightarrow> plan_deps plan k = Some ds \<Longrightarrow> plan_deps (modify_first (\<lambda>n. pn_id n = k) (wire_parent h) plan) j
     = (if j = k then Some (if h \<in> set ds then ds else ds @ [h]) else plan_deps plan j)"
  by (induction plan) (auto simp: plan_deps_Cons wire_parent_def plan_deps_def split: if_splits)

lemma add_assist_life:
  assumes inv: "rt_inv rt" and k: "k \<in> pn_id ` set (dr_plan rt)" "dstatus rt k = Some D_COMPLETED \<or> dstatus rt k = Some D_WAITING_ASSIST"
    and add: "add_assist k agent instruction rt = Inr rt'"
  shows "life_step (life_of rt) (life_of rt')"
proof -
  let ?h = "assist_id_of k (dr_assist_seq rt + 1)"
  obtain ds where ds: "plan_deps (dr_plan rt) k = Some ds" using k(1) plan_deps_None [of "dr_plan rt" k] by auto
  have new: "dstatus rt ?h = None"
  proof (rule ccontr)
    assume "dstatus rt ?h \<noteq> None"
    then have "dr_assist_seq rt + 1 \<le> dr_assist_seq rt"
      using inv unfolding rt_inv_def assist_inv_def by (metis add_nonneg_nonneg zero_le_one)
    then show False by simp
  qed
  have kh: "k \<noteq> ?h" using new k(2) by auto
  have "?h \<notin> pn_id ` set (dr_plan rt)" using inv new by (auto simp: rt_inv_def plan_inv_def)
  then have nh: "plan_deps (dr_plan rt) ?h = None" by (simp add: plan_deps_None)
  have out: "map_of (dr_outputs rt) k \<noteq> None" using inv k(2) unfolding rt_inv_def results_inv_def deps_inv_def by blast
  have "life_of rt' = (life_of rt)\<lparr>lf_status := (lf_status (life_of rt))(?h \<mapsto> D_PENDING, k \<mapsto> D_WAITING_ASSIST),
      lf_deps := (lf_deps (life_of rt))(?h \<mapsto> [], k \<mapsto> (if ?h \<in> set ds then ds else ds @ [?h]))\<rparr>"
  proof (rule life_of_eqI)
    fix j
    obtain n where n: "get_node (rt\<lparr>dr_assist_seq := dr_assist_seq rt + 1\<rparr>) k = Inr n"
      using get_node_total [of k "rt\<lparr>dr_assist_seq := dr_assist_seq rt + 1\<rparr>"] k(1) by auto
    then have plan: "dr_plan rt' = modify_first (\<lambda>n. pn_id n = k) (wire_parent ?h) (dr_plan rt @ [assist_node ?h k agent instruction])"
      using add by (auto simp: add_assist_def Let_def)
    have "plan_deps (dr_plan rt @ [assist_node ?h k agent instruction]) k = Some ds" using ds by (simp add: plan_deps_snoc)
    then show "plan_deps (dr_plan rt') j = lf_deps ((life_of rt)\<lparr>lf_status := (lf_status (life_of rt))(?h \<mapsto> D_PENDING, k \<mapsto> D_WAITING_ASSIST),
      lf_deps := (lf_deps (life_of rt))(?h \<mapsto> [], k \<mapsto> (if ?h \<in> set ds then ds else ds @ [?h]))\<rparr>) j"
      unfolding plan using plan_deps_wire [OF kh] nh by (simp add: plan_deps_snoc assist_node_def)
  qed (use add in \<open>auto simp: add_assist_def Let_def ebind_eq_Inr\<close>)
  then show ?thesis using life_step.consult [of "life_of rt" k ds ?h] k(2) out ds new by auto
qed

lemma add_assists_life:
  "rt_inv rt \<Longrightarrow> k \<in> pn_id ` set (dr_plan rt) \<Longrightarrow> dstatus rt k = Some D_COMPLETED \<or> dstatus rt k = Some D_WAITING_ASSIST
     \<Longrightarrow> k \<notin> cr_node_id ` set (dr_completions rt) \<Longrightarrow> length (dr_plan rt) + length cs \<le> MAX_PLAN_NODES
     \<Longrightarrow> assist_depth rt k + 1 \<le> MAX_ASSIST_DEPTH \<Longrightarrow> (\<And>agent i. (agent, i) \<in> set cs \<Longrightarrow> d_has (dr_agents rt) agent)
     \<Longrightarrow> efold (\<lambda>(agent, instruction). add_assist k agent instruction) cs rt = Inr rt' \<Longrightarrow> lives rt rt'"
proof (induction cs arbitrary: rt)
  case (Cons c cs)
  obtain agent instruction where c: "c = (agent, instruction)" by (cases c)
  have pre: "Suc (length (dr_plan rt)) \<le> MAX_PLAN_NODES" "d_has (dr_agents rt) agent"
    using Cons.prems(5) Cons.prems(7) [of agent instruction] by (auto simp: c)
  obtain rt1 where rt1: "add_assist k agent instruction rt = Inr rt1" "rt_inv rt1" "dstatus rt1 k = Some D_WAITING_ASSIST"
    "k \<in> pn_id ` set (dr_plan rt1)" "length (dr_plan rt1) = Suc (length (dr_plan rt))" "assist_depth rt1 k = assist_depth rt k"
    "dr_completions rt1 = dr_completions rt" "dr_agents rt1 = dr_agents rt"
    using add_assist_ok [OF Cons.prems(1-4) pre(1) Cons.prems(6) pre(2), of instruction] by blast
  have "lives rt1 rt'" using Cons.prems(4-8) by (intro Cons.IH rt1(2,4)) (auto simp: rt1 c)
  then show ?case using add_assist_life [OF Cons.prems(1-3) rt1(1)] by (rule converse_rtranclp_into_rtranclp [rotated])
qed simp

lemma helper_run_life:
  assumes "rt_inv rt" and "dstatus rt k = Some D_COMPLETED" and "k \<notin> cr_node_id ` set (dr_completions rt)"
    and run: "helper_run k rt = Inr (route, rt')"
  shows "lives rt rt'"
  using assms(1,2)
proof (cases rule: helper_run_cases)
  case nothing
  then show ?thesis using run by simp
next
  case (adds cs)
  then have "efold (\<lambda>(agent, instruction). add_assist k agent instruction) cs rt = Inr rt'" using run unfolding adds(1) ebind_eq_Inr by auto
  then show ?thesis using add_assists_life [OF assms(1) adds(2) _ assms(3) adds(3,4)] adds(5) assms(2) by blast
qed

section \<open>The executor's calls\<close>

lemma pop_completion_life: "pop_completion rt = (r, rt') \<Longrightarrow> life_of rt' = life_of rt"
  by (rule life_of_cong) (simp_all add: pop_completion_frame)

lemma shutdown_life [simp]: "life_of (shutdown rt) = life_of rt"
  by (rule life_of_cong) (simp_all add: shutdown_def)

lemma executor_begin_life:
  assumes inv: "rt_inv rt" and plan: "\<And>plan. input = Some plan \<Longrightarrow> good_answers rt plan"
    and run: "executor_begin input rt = Inr (x, rt')"
  shows "lives rt rt'"
proof -
  obtain rt1 where rt1: "(case input of None \<Rightarrow> Inr rt | Some plan \<Rightarrow> apply_plan plan rt) = Inr rt1"
    using run by (auto simp: executor_begin_def ebind_eq_Inr)
  have 1: "lives rt rt1" "rt_inv rt1"
    using rt1 inv apply_plan_life [OF inv] apply_plan_inv [OF inv plan] by (auto split: option.splits)
  let ?rt2 = "dag_collect_done rt1"
  have 2: "lives rt ?rt2" "rt_inv ?rt2" using 1 collect_done_life collect_done_inv by (meson rtranclp_trans)+
  show ?thesis
  proof (cases "dr_done_requested ?rt2")
    case True
    then show ?thesis using 2(1) run rt1 by (simp add: executor_begin_def Let_def del: collect_done_requested)
  next
    case False
    obtain r rt4 where p: "pop_completion ?rt2 = (r, rt4)" by (cases "pop_completion ?rt2")
    have 4: "lives rt rt4" "rt_inv rt4" using 2 pop_completion_life [OF p] pop_completion_inv(1) [OF _ p] by simp_all
    show ?thesis
    proof (cases r)
      case None
      then have "rt' = fold start_task (dispatchable rt4) rt4"
        using run rt1 False p dispatch_ready_inv(1) [OF 4(2)]
        by (auto simp: executor_begin_def Let_def ebind_eq_Inr abort_if_failed_def simp del: collect_done_requested split: option.splits)
      then show ?thesis using 4 dispatch_ready_life by (meson rtranclp_trans)
    next
      case (Some c)
      then have "rt' = rt4" using run rt1 False p
        by (auto simp: executor_begin_def Let_def ebind_eq_Inr abort_if_failed_def simp del: collect_done_requested split: option.splits)
      then show ?thesis using 4(1) by simp
    qed
  qed
qed

lemma executor_resume_life:
  assumes inv: "rt_inv rt" and run: "executor_resume rt = Inr (x, rt')"
  shows "lives rt rt'"
proof -
  obtain r rt4 where p: "pop_completion (dag_collect_done rt) = (r, rt4)" by (cases "pop_completion (dag_collect_done rt)")
  have "rt' = rt4" using run p
    by (auto simp: executor_resume_def ebind_eq_Inr abort_if_failed_def split: option.splits)
  then show ?thesis using collect_done_life [OF inv] pop_completion_life [OF p] by simp
qed

lemma executor_drain_life: "rt_inv rt \<Longrightarrow> executor_drain rt = (x, rt') \<Longrightarrow> lives rt rt'"
  using collect_done_life by (auto simp: executor_drain_def Let_def)

lemma after_executor_life:
  assumes "\<And>x rt'. r = Inr (x, rt') \<Longrightarrow> lives rt rt'" and "after_executor r rt = (ph, rt')"
  shows "lives rt rt'"
  using assms by (auto simp: after_executor_def split: sum.splits exec_phase.splits)

section \<open>The refinement\<close>

definition orch_life :: "orch_phase \<times> DagRuntime \<Rightarrow> life" where
  "orch_life s = life_of (snd s)"

definition orch_init :: "orch_phase \<times> DagRuntime \<Rightarrow> bool" where
  "orch_init s \<longleftrightarrow> (\<exists>agents user_task. s = (Enter (py ''planner'') No_payload, new_runtime agents user_task))"

lemma orch_step_life:
  assumes "phase_inv ph rt" and "orch_step good_answers (ph, rt) (ph', rt')"
  shows "lives rt rt'"
  using assms(2)
proof cases
  case (task_finishes k r)
  then have "life_of rt' = life_of rt" by (auto intro: life_of_cong)
  then show ?thesis by simp
next
  case (executor_starts plan)
  have inv: "rt_inv rt" "\<And>pl. plan = Some pl \<Longrightarrow> good_answers rt pl"
    using assms(1) executor_starts(1) by (auto simp: phase_inv_def split: option.splits)
  show ?thesis by (rule after_executor_life [OF _ executor_starts(2) [symmetric]]) (rule executor_begin_life [OF inv])
next
  case executor_resumes
  then have inv: "rt_inv rt" using assms(1) by (simp add: phase_inv_def)
  show ?thesis by (rule after_executor_life [OF _ executor_resumes(2) [symmetric]]) (rule executor_resume_life [OF inv])
next
  case executor_drained
  then have inv: "rt_inv rt" using assms(1) by (simp add: phase_inv_def)
  show ?thesis by (rule after_executor_life [OF _ executor_drained(2) [symmetric]]) (use executor_drain_life [OF inv] in auto)
next
  case (helper_judges k)
  have h: "rt_inv rt" "dstatus rt k = Some D_COMPLETED" "k \<notin> cr_node_id ` set (dr_completions rt)"
    using assms(1) helper_judges(1) by (auto simp: phase_inv_def)
  show ?thesis using helper_judges(2) helper_run_life [OF h]
    by (auto simp: after_helper_def split: sum.splits helper_route.splits)
qed auto

interpretation orch: simulation orch_init "orch_step good_answers" "\<lambda>s. phase_inv (fst s) (snd s)" orch_life "\<lambda>a. a = no_life" life_step
proof
  show "phase_inv (fst s) (snd s)" if "orch_init s" for s
    using that by (auto simp: orch_init_def phase_inv_def new_runtime_inv) (simp add: new_runtime_def)
  show "phase_inv (fst s') (snd s')" if "phase_inv (fst s) (snd s)" "orch_step good_answers s s'" for s s'
    using that orch_step_inv [of "fst s" "snd s" "fst s'" "snd s'"] by simp
  show "orch_life s = no_life" if "orch_init s" for s
    using that by (auto simp: orch_init_def orch_life_def life_of_def no_life_def new_runtime_def plan_deps_def)
  show "life_step\<^sup>*\<^sup>* (orch_life s) (orch_life s')" if "phase_inv (fst s) (snd s)" "orch_step good_answers s s'" for s s'
    using that orch_step_life [of "fst s" "snd s" "fst s'" "snd s'"] by (simp add: orch_life_def)
qed

lemma orch_reachable_run: "orch_reachable answers agents user_task s
    \<Longrightarrow> (orch_step answers)\<^sup>*\<^sup>* (Enter (py ''planner'') No_payload, new_runtime agents user_task) s"
  by (induction rule: orch_reachable.induct) auto

lemma orch_init_start: "orch_init (Enter (py ''planner'') No_payload, new_runtime agents user_task)"
  by (auto simp: orch_init_def)

section \<open>What the abstract machine guarantees\<close>

text \<open>A failed node stays failed; no output and no id is lost.\<close>

lemma failed_is_final: "lf_status a k = Some D_FAILED \<Longrightarrow> life_step a b \<Longrightarrow> lf_status b k = Some D_FAILED"
  by (erule life_stepE) (auto split: if_splits)

lemma outputs_stay: "lf_output a k \<noteq> None \<Longrightarrow> life_step a b \<Longrightarrow> lf_output b k \<noteq> None"
  by (erule life_stepE) auto

lemma ids_stay: "lf_status a k \<noteq> None \<Longrightarrow> life_step a b \<Longrightarrow> lf_status b k \<noteq> None"
  by (erule life_stepE) auto

definition settled_have_output :: "life \<Rightarrow> bool" where
  "settled_have_output a \<longleftrightarrow> (\<forall>k. lf_status a k \<in> {Some D_COMPLETED, Some D_WAITING_ASSIST} \<longrightarrow> lf_output a k \<noteq> None)"

lemma settled_have_output_step: "settled_have_output a \<Longrightarrow> life_step a b \<Longrightarrow> settled_have_output b"
  by (erule life_stepE) (auto simp: settled_have_output_def split: if_splits)

section \<open>The contract\<close>

lemma reachable_phase_inv:
  assumes "orch_reachable good_answers agents user_task s"
  shows "phase_inv (fst s) (snd s)"
  using orch.reachable_inv [OF orch_init_start orch_reachable_run [OF assms]] .


text \<open>C14: what the run promises about results: a failed node stays failed, an output that is there stays there (under
  every later plan too), an id that has a status keeps one, and a node that is completed or waits for assistance has an
  output, which its successors' instructions can be filled with.\<close>

theorem node_results_are_kept:
  assumes "orch_reachable good_answers agents user_task s" and "(orch_step good_answers)\<^sup>*\<^sup>* s s'"
  shows "(dstatus (snd s) k = Some D_FAILED \<longrightarrow> dstatus (snd s') k = Some D_FAILED)
    \<and> (d_has (dr_outputs (snd s)) k \<longrightarrow> d_has (dr_outputs (snd s')) k)
    \<and> (d_has (dr_status (snd s)) k \<longrightarrow> d_has (dr_status (snd s')) k)
    \<and> (dstatus (snd s') k \<in> {Some D_COMPLETED, Some D_WAITING_ASSIST} \<longrightarrow> d_has (dr_outputs (snd s')) k)"
proof -
  note keep = orch.stable_transfer [OF _ reachable_phase_inv [OF assms(1)] assms(2)]
  have run: "(orch_step good_answers)\<^sup>*\<^sup>* (Enter (py ''planner'') No_payload, new_runtime agents user_task) s'"
    using orch_reachable_run [OF assms(1)] assms(2) by (rule rtranclp_trans)
  have "settled_have_output (orch_life s')"
    by (rule orch.invariant_transfer [OF _ settled_have_output_step orch_init_start run])
       (simp add: settled_have_output_def no_life_def)
  moreover have "lf_status (orch_life s) k = Some D_FAILED \<Longrightarrow> lf_status (orch_life s') k = Some D_FAILED"
    by (rule keep [where P = "\<lambda>a. lf_status a k = Some D_FAILED", OF failed_is_final])
  moreover have "lf_output (orch_life s) k \<noteq> None \<Longrightarrow> lf_output (orch_life s') k \<noteq> None"
    by (rule keep [where P = "\<lambda>a. lf_output a k \<noteq> None", OF outputs_stay])
  moreover have "lf_status (orch_life s) k \<noteq> None \<Longrightarrow> lf_status (orch_life s') k \<noteq> None"
    by (rule keep [where P = "\<lambda>a. lf_status a k \<noteq> None", OF ids_stay])
  ultimately show ?thesis unfolding orch_life_def life_of_simps settled_have_output_def d_has_iff by blast
qed

section \<open>A run\<close>

lemma orch_script_steps: "orch_script es x = Some y \<Longrightarrow> (orch_step good_answers)\<^sup>*\<^sup>* x y"
proof (induction es arbitrary: x)
  case (Cons e es)
  then obtain z where "orch_exec e x = Some z" "orch_script es z = Some y" by (auto split: option.splits)
  then show ?case using Cons.IH orch_exec_step by (meson converse_rtranclp_into_rtranclp)
qed simp

lemma demo_run:
  obtains s s' where "orch_script two_running demo_start = Some s" "orch_reachable good_answers demo_agents (py ''goal'') s"
    "(orch_step good_answers)\<^sup>*\<^sup>* s s'" "lf_status (orch_life s) (py ''b'') = Some D_RUNNING" "dstatus (snd s') (py ''b'') = Some D_COMPLETED"
proof -
  obtain s where s: "orch_script two_running demo_start = Some s" "dstatus (snd s) (py ''b'') = Some D_RUNNING"
    using waits_case [OF two_running_run] by force
  have rest: "all_done_events = two_running @ drop 2 all_done_events"
    by (simp add: all_done_events_def two_running_def)
  have "\<exists>s'. orch_script all_done_events demo_start = Some s' \<and> dstatus (snd s') (py ''b'') = Some D_COMPLETED"
    using all_done_state by (metis snd_conv)
  then obtain s' where s': "orch_script all_done_events demo_start = Some s'" "dstatus (snd s') (py ''b'') = Some D_COMPLETED" by blast
  have "orch_script (drop 2 all_done_events) s = Some s'"
    using s(1) s'(1) rest orch_script_append [of two_running "drop 2 all_done_events" demo_start] by simp
  moreover have "lf_status (orch_life s) (py ''b'') = Some D_RUNNING" using s(2) by (simp add: orch_life_def)
  ultimately show ?thesis using that s(1) s'(2) demo_reachable [OF s(1)] orch_script_steps by blast
qed


theorem node_results_are_kept_witness:
  "\<exists>s s'. orch_reachable good_answers demo_agents (py ''goal'') s \<and> (orch_step good_answers)\<^sup>*\<^sup>* s s'
     \<and> dstatus (snd s') (py ''b'') = Some D_COMPLETED \<and> d_has (dr_outputs (snd s')) (py ''b'')"
proof (rule demo_run)
  fix s s' assume s: "orch_reachable good_answers demo_agents (py ''goal'') s" "(orch_step good_answers)\<^sup>*\<^sup>* s s'"
    "dstatus (snd s') (py ''b'') = Some D_COMPLETED"
  then have "d_has (dr_outputs (snd s')) (py ''b'')" using node_results_are_kept [OF s(1,2), of "py ''b''"] by blast
  then show ?thesis using s by blast
qed

end
