(* ===== verification/Agent_Directory.thy ===== *)
theory Agent_Directory
  imports Context Refinement
begin

text \<open>
  The registry of agents and the client that talks to them: \<open>orchestration/registry.py\<close>, \<open>a2a/client.py\<close>,
  \<open>api/agents.py\<close> and the registration model of \<open>models/domain.py\<close>.  A call of the registry is a chain of steps, one
  per access to the database or the network; any number of calls are interleaved step by step (\<open>dir_do\<close>), so the
  races between registering, refreshing, deleting and using an agent are in the model.

  Parameters: what fetching a card gives in each step (\<open>ev_fetched\<close>), the fresh id and the clock, pydantic's URL
  parser (\<open>dc_parse_url\<close>, \<open>dc_http_url\<close>).  Client objects are numbered in the order they are made.  Messages of
  pydantic errors are left out, a card is stored as the JSON value \<open>MessageToDict\<close> gives.
\<close>

section \<open>Data\<close>

record CardInterface =
  ci_binding :: pystr
  ci_version :: pystr
  ci_url :: pystr

record AgentCard =
  card_name :: pystr
  card_interfaces :: "CardInterface list"
  card_data :: json

record UrlParts =
  up_username :: pystr
  up_password :: pystr
  up_query :: "pystr option"
  up_fragment :: "pystr option"
  up_text :: pystr

record dir_config =
  dc_parse_url :: "pystr \<Rightarrow> UrlParts option"
  dc_http_url :: "pystr \<Rightarrow> bool"

text \<open>\<open>RemoteAgentClient\<close>: \<open>_cards\<close>, \<open>_clients\<close>, \<open>_retired_clients\<close>; \<open>rc_made\<close> has, for every client object made so
  far, the card it was made from.\<close>

record remote_client =
  rc_cards :: "(pystr, AgentCard) dict"
  rc_clients :: "(pystr, nat) dict"
  rc_retired :: "nat list"
  rc_made :: "AgentCard list"

text \<open>The rows of \<open>agent_registry\<close> in order of insertion; \<open>di_used\<close> are the ids ever given to a row.\<close>

record directory =
  di_rows :: "AgentRecord list"
  di_used :: "pystr list"
  di_remote :: remote_client

definition empty_directory :: directory where
  "empty_directory = \<lparr>di_rows = [], di_used = [], di_remote = \<lparr>rc_cards = [], rc_clients = [], rc_retired = [], rc_made = []\<rparr>\<rparr>"

section \<open>Registrations\<close>

definition is_alnum :: "nat \<Rightarrow> bool" where
  "is_alnum c \<longleftrightarrow> (48 \<le> c \<and> c \<le> 57) \<or> (65 \<le> c \<and> c \<le> 90) \<or> (97 \<le> c \<and> c \<le> 122)"

text \<open>\<open>^[A-Za-z0-9][A-Za-z0-9_-]*$\<close> with 1 to 64 characters.\<close>

definition valid_name :: "pystr \<Rightarrow> bool" where
  "valid_name s \<longleftrightarrow> s \<noteq> [] \<and> length s \<le> 64 \<and> is_alnum (hd s) \<and> list_all (\<lambda>c. is_alnum c \<or> c = 95 \<or> c = 45) s"

definition normalize_url :: "(pystr \<Rightarrow> UrlParts option) \<Rightarrow> pystr \<Rightarrow> exn + pystr" where
  "normalize_url parse value = (case parse value of
      None \<Rightarrow> Inl (ValueError (py ''card_url''))
    | Some url \<Rightarrow> if up_username url \<noteq> [] \<or> up_password url \<noteq> [] \<or> up_query url \<noteq> None \<or> up_fragment url \<noteq> None
        then Inl (ValueError (py ''agent base URL must not contain credentials, query or fragment''))
        else Inr (rev (dropWhile (\<lambda>c. c = 47) (rev (up_text url)))))"

definition registration :: "dir_config \<Rightarrow> pystr \<Rightarrow> pystr \<Rightarrow> exn + pystr \<times> pystr" where
  "registration cfg name card_url =
     (if valid_name (str_strip name) then ebind (normalize_url (dc_parse_url cfg) card_url) (\<lambda>url. Inr (str_strip name, url))
      else Inl (ValueError (py ''name'')))"

section \<open>The client\<close>

text \<open>\<open>resolve_card\<close>: the fetched card is checked, and what a broken one raises becomes one exception.\<close>

definition check_card :: "(pystr \<Rightarrow> bool) \<Rightarrow> AgentCard \<Rightarrow> exn + AgentCard" where
  "check_card http_url crd =
     (if str_strip (card_name crd) = [] \<or> card_interfaces crd = []
        then Inl (ValueError (py ''Agent Card requires a name and supported interfaces''))
      else let interfaces = filter (\<lambda>i. ci_binding i = py ''JSONRPC'' \<and> ci_version i = py ''1.0'') (card_interfaces crd)
        in if interfaces = [] then Inl (ValueError (py ''Agent Card must support JSONRPC with A2A version 1.0''))
           else if list_all (\<lambda>i. http_url (ci_url i)) interfaces then Inr crd else Inl (ValueError (py ''url'')))"

definition invalid_card :: "exn \<Rightarrow> exn" where
  "invalid_card e = (case e of
      ValueError t \<Rightarrow> AgentCardResolutionError (py ''invalid agent card: '' @ t)
    | ParseError t \<Rightarrow> AgentCardResolutionError (py ''invalid agent card: '' @ t)
    | TypeError \<Rightarrow> AgentCardResolutionError (py ''invalid agent card: '')
    | AttributeError \<Rightarrow> AgentCardResolutionError (py ''invalid agent card: '')
    | _ \<Rightarrow> e)"

definition resolve_card :: "(pystr \<Rightarrow> bool) \<Rightarrow> exn + AgentCard \<Rightarrow> exn + AgentCard" where
  "resolve_card http_url fetched = (case ebind fetched (check_card http_url) of Inl e \<Rightarrow> Inl (invalid_card e) | Inr crd \<Rightarrow> Inr crd)"

definition invalidate :: "pystr \<Rightarrow> remote_client \<Rightarrow> remote_client" where
  "invalidate url rc = rc\<lparr>rc_cards := AList.delete url (rc_cards rc), rc_clients := AList.delete url (rc_clients rc),
     rc_retired := rc_retired rc @ (case map_of (rc_clients rc) url of None \<Rightarrow> [] | Some c \<Rightarrow> [c])\<rparr>"

definition cache_card :: "pystr \<Rightarrow> AgentCard \<Rightarrow> remote_client \<Rightarrow> remote_client" where
  "cache_card url crd rc = (let rc1 = invalidate url rc in rc1\<lparr>rc_cards := AList.update url crd (rc_cards rc1)\<rparr>)"

text \<open>\<open>create_client\<close> has returned: the client is entered, and the entry is what the caller gets.\<close>

definition enter_client :: "pystr \<Rightarrow> AgentCard \<Rightarrow> remote_client \<Rightarrow> nat \<times> remote_client" where
  "enter_client url crd rc = (length (rc_made rc),
     rc\<lparr>rc_made := rc_made rc @ [crd], rc_clients := AList.update url (length (rc_made rc)) (rc_clients rc)\<rparr>)"

text \<open>\<open>close\<close>: the clients it closes, and the client afterwards.\<close>

definition close_remote :: "remote_client \<Rightarrow> nat list \<times> remote_client" where
  "close_remote rc = (d_values (rc_clients rc) @ rc_retired rc, rc\<lparr>rc_clients := [], rc_cards := [], rc_retired := []\<rparr>)"

text \<open>\<open>get_task\<close> and \<open>cancel_task\<close>, given the client (or what \<open>_client_for\<close> raised) and what the call on it gives: only
  the second failure is swallowed.\<close>

definition get_remote_task :: "exn + nat \<Rightarrow> (nat \<Rightarrow> exn + 'task option) \<Rightarrow> exn + 'task option" where
  "get_remote_task client call = ebind client (\<lambda>c. case call c of Inl e \<Rightarrow> Inr None | Inr task \<Rightarrow> Inr task)"

definition cancel_remote_task :: "exn + nat \<Rightarrow> (nat \<Rightarrow> exn + unit) \<Rightarrow> exn + unit" where
  "cancel_remote_task client call = ebind client (\<lambda>c. Inr ())"

text \<open>The message of \<open>send_text\<close>; \<open>fresh\<close> is the id \<open>new_message\<close> gives it.\<close>

record SendRequest =
  sr_parts :: "pystr list"
  sr_task_id :: "pystr option"
  sr_context_id :: "pystr option"
  sr_message_id :: pystr

definition send_text_request :: "pystr + pystr list \<Rightarrow> pystr option \<Rightarrow> pystr option \<Rightarrow> pystr option \<Rightarrow> pystr \<Rightarrow> SendRequest" where
  "send_text_request txt task_id context_id message_id fresh =
     \<lparr>sr_parts = (case txt of Inl s \<Rightarrow> [s] | Inr ss \<Rightarrow> ss), sr_task_id = task_id, sr_context_id = context_id,
      sr_message_id = (case message_id of None \<Rightarrow> fresh | Some m \<Rightarrow> m)\<rparr>"

section \<open>The registry\<close>

definition row_by_name :: "pystr \<Rightarrow> directory \<Rightarrow> AgentRecord option" where
  "row_by_name name d = List.find (\<lambda>r. ag_name r = name) (di_rows d)"

definition row_by_id :: "pystr \<Rightarrow> directory \<Rightarrow> AgentRecord option" where
  "row_by_id agent_id d = List.find (\<lambda>r. ag_id r = agent_id) (di_rows d)"

definition agents_listed :: "directory \<Rightarrow> AgentRecord list" where
  "agents_listed d = sort_key ag_name (di_rows d)"

definition update_row :: "pystr \<Rightarrow> (AgentRecord \<Rightarrow> AgentRecord) \<Rightarrow> directory \<Rightarrow> directory" where
  "update_row agent_id f d = d\<lparr>di_rows := map (\<lambda>r. if ag_id r = agent_id then f r else r) (di_rows d)\<rparr>"

definition with_remote :: "(remote_client \<Rightarrow> remote_client) \<Rightarrow> directory \<Rightarrow> directory" where
  "with_remote f d = d\<lparr>di_remote := f (di_remote d)\<rparr>"

definition name_taken :: "pystr \<Rightarrow> exn" where
  "name_taken name = DuplicateAgentName (py ''agent name already registered: '' @ name)"

definition agent_missing :: "pystr \<Rightarrow> exn" where
  "agent_missing agent_id = KeyError (py ''agent not found: '' @ agent_id)"

section \<open>Calls, step by step\<close>

datatype dir_call = Register pystr pystr | Delete pystr | Refresh pystr | Use pystr

text \<open>Where a call stands: what its next access is, with the values it holds.\<close>

datatype dir_op =
    Begin dir_call
  | Reg_resolve pystr pystr
  | Reg_insert pystr pystr AgentCard
  | Reg_recheck pystr
  | Reg_cache AgentRecord AgentCard
  | Del_execute pystr "AgentRecord option"
  | Del_forget "AgentRecord option"
  | Ref_resolve AgentRecord
  | Ref_mark pystr exn
  | Ref_update AgentRecord AgentCard
  | Ref_cache AgentRecord AgentCard
  | Use_resolve pystr
  | Use_create pystr AgentCard

datatype dir_result = R_record AgentRecord | R_bool bool | R_client nat | R_raises exn

record dir_env =
  ev_fetched :: "exn + AgentCard"
  ev_uuid :: pystr
  ev_now :: pystr

definition new_record :: "dir_env \<Rightarrow> pystr \<Rightarrow> pystr \<Rightarrow> AgentCard \<Rightarrow> AgentRecord" where
  "new_record ev name card_url crd = \<lparr>ag_id = ev_uuid ev, ag_name = name, ag_card_url = card_url, ag_card = card_data crd,
     ag_health = py ''ok'', ag_last_seen = Some (ev_now ev), ag_created_at = ev_now ev\<rparr>"

definition refreshed_record :: "dir_env \<Rightarrow> AgentCard \<Rightarrow> AgentRecord \<Rightarrow> AgentRecord" where
  "refreshed_record ev crd r = r\<lparr>ag_card := card_data crd, ag_health := py ''ok'', ag_last_seen := Some (ev_now ev)\<rparr>"

definition begin_call :: "dir_config \<Rightarrow> dir_call \<Rightarrow> directory \<Rightarrow> dir_op + dir_result" where
  "begin_call cfg c d = (case c of
      Register name card_url \<Rightarrow> (case registration cfg name card_url of
          Inl e \<Rightarrow> Inr (R_raises e)
        | Inr (name, card_url) \<Rightarrow> if row_by_name name d \<noteq> None then Inr (R_raises (name_taken name)) else Inl (Reg_resolve name card_url))
    | Delete agent_id \<Rightarrow> Inl (Del_execute agent_id (row_by_id agent_id d))
    | Refresh agent_id \<Rightarrow> (case row_by_id agent_id d of
          None \<Rightarrow> Inr (R_raises (agent_missing agent_id))
        | Some r \<Rightarrow> Inl (Ref_resolve r))
    | Use url \<Rightarrow> (case map_of (rc_clients (di_remote d)) url of
          Some client \<Rightarrow> Inr (R_client client)
        | None \<Rightarrow> (case map_of (rc_cards (di_remote d)) url of Some crd \<Rightarrow> Inl (Use_create url crd) | None \<Rightarrow> Inl (Use_resolve url))))"

text \<open>The id and the time are drawn in the step that writes them: nothing can tell.\<close>

fun op_step :: "dir_config \<Rightarrow> dir_env \<Rightarrow> dir_op \<Rightarrow> directory \<Rightarrow> (dir_op + dir_result) \<times> directory" where
  "op_step cfg ev (Begin c) d = (begin_call cfg c d, d)"
| "op_step cfg ev (Reg_resolve name card_url) d = (case resolve_card (dc_http_url cfg) (ev_fetched ev) of
      Inl e \<Rightarrow> (Inr (R_raises e), d)
    | Inr crd \<Rightarrow> (Inl (Reg_insert name card_url crd), d))"
| "op_step cfg ev (Reg_insert name card_url crd) d = (if row_by_name name d \<noteq> None then (Inl (Reg_recheck name), d)
     else let r = new_record ev name card_url crd
       in (Inl (Reg_cache r crd), d\<lparr>di_rows := di_rows d @ [r], di_used := di_used d @ [ag_id r]\<rparr>))"
| "op_step cfg ev (Reg_recheck name) d = (Inr (R_raises (if row_by_name name d \<noteq> None then name_taken name else IntegrityError)), d)"
| "op_step cfg ev (Reg_cache r crd) d = (Inr (R_record r), with_remote (cache_card (ag_card_url r) crd) d)"
| "op_step cfg ev (Del_execute agent_id found) d = (if row_by_id agent_id d = None then (Inr (R_bool False), d)
     else (Inl (Del_forget found), d\<lparr>di_rows := filter (\<lambda>r. ag_id r \<noteq> agent_id) (di_rows d)\<rparr>))"
| "op_step cfg ev (Del_forget found) d = (Inr (R_bool True),
     (case found of None \<Rightarrow> d | Some r \<Rightarrow> with_remote (invalidate (ag_card_url r)) d))"
| "op_step cfg ev (Ref_resolve r) d = (case resolve_card (dc_http_url cfg) (ev_fetched ev) of
      Inl (AgentCardResolutionError t) \<Rightarrow> (Inl (Ref_mark (ag_id r) (AgentCardResolutionError t)), d)
    | Inl e \<Rightarrow> (Inr (R_raises e), d)
    | Inr crd \<Rightarrow> (Inl (Ref_update r crd), d))"
| "op_step cfg ev (Ref_mark agent_id e) d = (Inr (R_raises e), update_row agent_id (\<lambda>r. r\<lparr>ag_health := py ''unavailable''\<rparr>) d)"
| "op_step cfg ev (Ref_update r crd) d = (if row_by_id (ag_id r) d = None then (Inr (R_raises (agent_missing (ag_id r))), d)
     else (Inl (Ref_cache (refreshed_record ev crd r) crd), update_row (ag_id r) (refreshed_record ev crd) d))"
| "op_step cfg ev (Ref_cache r crd) d = (Inr (R_record r), with_remote (cache_card (ag_card_url r) crd) d)"
| "op_step cfg ev (Use_resolve url) d = (case resolve_card (dc_http_url cfg) (ev_fetched ev) of
      Inl e \<Rightarrow> (Inr (R_raises e), d)
    | Inr crd \<Rightarrow> (Inl (Use_create url crd), with_remote (\<lambda>rc. rc\<lparr>rc_cards := AList.update url crd (rc_cards rc)\<rparr>) d))"
| "op_step cfg ev (Use_create url crd) d = (case enter_client url crd (di_remote d) of (client, rc) \<Rightarrow> (Inr (R_client client), d\<lparr>di_remote := rc\<rparr>))"

text \<open>Interleaving: a call begins, or a pending one takes its next step.\<close>

record dir_system =
  sy_dir :: directory
  sy_pending :: "(dir_call \<times> dir_op) list"
  sy_log :: "(dir_call \<times> dir_result) list"

datatype dir_event = Call dir_call | Resume nat dir_env

fun dir_do :: "dir_config \<Rightarrow> dir_event \<Rightarrow> dir_system \<Rightarrow> dir_system option" where
  "dir_do cfg (Call c) s = Some (s\<lparr>sy_pending := sy_pending s @ [(c, Begin c)]\<rparr>)"
| "dir_do cfg (Resume i ev) s =
     (if i < length (sy_pending s) \<and> ev_uuid ev \<notin> set (di_used (sy_dir s)) then
        (case sy_pending s ! i of (c, op) \<Rightarrow> (case op_step cfg ev op (sy_dir s) of
            (Inl op', d) \<Rightarrow> Some (s\<lparr>sy_dir := d, sy_pending := (sy_pending s)[i := (c, op')]\<rparr>)
          | (Inr r, d) \<Rightarrow> Some (s\<lparr>sy_dir := d, sy_pending := take i (sy_pending s) @ drop (Suc i) (sy_pending s),
              sy_log := sy_log s @ [(c, r)]\<rparr>)))
      else None)"

definition new_system :: dir_system where
  "new_system = \<lparr>sy_dir = empty_directory, sy_pending = [], sy_log = []\<rparr>"

definition dir_step :: "dir_config \<Rightarrow> dir_system \<Rightarrow> dir_system \<Rightarrow> bool" where
  "dir_step cfg s s' \<longleftrightarrow> (\<exists>e. dir_do cfg e s = Some s')"

definition dir_reachable :: "dir_config \<Rightarrow> dir_system \<Rightarrow> bool" where
  "dir_reachable cfg s \<longleftrightarrow> (dir_step cfg)\<^sup>*\<^sup>* new_system s"

section \<open>The endpoints\<close>

text \<open>What an endpoint answers: the status code and the record, or what it raises.\<close>

definition respond :: "dir_call \<Rightarrow> dir_result \<Rightarrow> exn + (nat \<times> AgentRecord option)" where
  "respond c r = (case (c, r) of
      (Register _ _, R_record a) \<Rightarrow> Inr (201, Some a)
    | (Register _ _, R_raises (DuplicateAgentName t)) \<Rightarrow> Inl (HTTPException 409 t)
    | (Register _ _, R_raises (AgentCardResolutionError t)) \<Rightarrow> Inl (HTTPException 400 (py ''failed to resolve agent card: '' @ t))
    | (Delete _, R_bool True) \<Rightarrow> Inr (204, None)
    | (Delete agent_id, R_bool False) \<Rightarrow> Inl (HTTPException 404 (py ''agent not found: '' @ agent_id))
    | (Refresh _, R_record a) \<Rightarrow> Inr (200, Some a)
    | (Refresh _, R_raises (KeyError t)) \<Rightarrow> Inl (HTTPException 404 t)
    | (Refresh _, R_raises (AgentCardResolutionError t)) \<Rightarrow> Inl (HTTPException 502 (py ''failed to refresh agent card: '' @ t))
    | (_, R_raises e) \<Rightarrow> Inl e
    | (_, _) \<Rightarrow> Inl Untyped)"

section \<open>The invariant\<close>

definition remote_inv :: "remote_client \<Rightarrow> bool" where
  "remote_inv rc \<longleftrightarrow> (\<forall>u c. map_of (rc_clients rc) u = Some c \<longrightarrow> c < length (rc_made rc) \<and> c \<notin> set (rc_retired rc))
     \<and> (\<forall>u v c. map_of (rc_clients rc) u = Some c \<longrightarrow> map_of (rc_clients rc) v = Some c \<longrightarrow> u = v)
     \<and> (\<forall>c \<in> set (rc_retired rc). c < length (rc_made rc)) \<and> distinct (rc_retired rc)"

definition rows_inv :: "directory \<Rightarrow> bool" where
  "rows_inv d \<longleftrightarrow> distinct (map ag_name (di_rows d)) \<and> distinct (map ag_id (di_rows d))
     \<and> ag_id ` set (di_rows d) \<subseteq> set (di_used d) \<and> (\<forall>r \<in> set (di_rows d). valid_name (ag_name r))"

text \<open>A pending call holds values that belong to it.\<close>

definition op_ok :: "dir_config \<Rightarrow> dir_call \<Rightarrow> dir_op \<Rightarrow> bool" where
  "op_ok cfg c op = (case op of
      Begin c' \<Rightarrow> c' = c
    | Reg_resolve n u \<Rightarrow> (\<exists>n' u'. c = Register n' u' \<and> registration cfg n' u' = Inr (n, u))
    | Reg_insert n u crd \<Rightarrow> (\<exists>n' u'. c = Register n' u' \<and> registration cfg n' u' = Inr (n, u))
    | Reg_recheck n \<Rightarrow> (\<exists>n' u'. c = Register n' u')
    | Reg_cache r crd \<Rightarrow> (\<exists>n' u'. c = Register n' u' \<and> registration cfg n' u' = Inr (ag_name r, ag_card_url r)) \<and> ag_health r = py ''ok''
    | Del_execute i found \<Rightarrow> c = Delete i
    | Del_forget found \<Rightarrow> (\<exists>i. c = Delete i)
    | Ref_resolve r \<Rightarrow> c = Refresh (ag_id r)
    | Ref_mark i e \<Rightarrow> c = Refresh i
    | Ref_update r crd \<Rightarrow> c = Refresh (ag_id r)
    | Ref_cache r crd \<Rightarrow> c = Refresh (ag_id r) \<and> ag_health r = py ''ok''
    | Use_resolve u \<Rightarrow> c = Use u
    | Use_create u crd \<Rightarrow> c = Use u)"

definition answer_ok :: "dir_config \<Rightarrow> dir_call \<Rightarrow> dir_result \<Rightarrow> bool" where
  "answer_ok cfg c r = (case c of
      Register n u \<Rightarrow> (case r of R_record a \<Rightarrow> registration cfg n u = Inr (ag_name a, ag_card_url a) \<and> ag_health a = py ''ok''
        | R_raises e \<Rightarrow> True | _ \<Rightarrow> False)
    | Delete i \<Rightarrow> (case r of R_bool b \<Rightarrow> True | _ \<Rightarrow> False)
    | Refresh i \<Rightarrow> (case r of R_record a \<Rightarrow> ag_id a = i \<and> ag_health a = py ''ok'' | R_raises e \<Rightarrow> True | _ \<Rightarrow> False)
    | Use u \<Rightarrow> (case r of R_client k \<Rightarrow> True | R_raises e \<Rightarrow> True | _ \<Rightarrow> False))"

lemma registration_valid: "registration cfg n u = Inr (n', u') \<Longrightarrow> valid_name n'"
  by (auto simp: registration_def ebind_eq_Inr split: if_splits)

lemma row_by_name_None: "row_by_name n d = None \<longleftrightarrow> n \<notin> ag_name ` set (di_rows d)"
  by (auto simp: row_by_name_def find_None_iff)

lemma row_by_id_None: "row_by_id i d = None \<longleftrightarrow> i \<notin> ag_id ` set (di_rows d)"
  by (auto simp: row_by_id_def find_None_iff)

lemma find_snoc: "List.find P (xs @ [x]) = (case List.find P xs of None \<Rightarrow> if P x then Some x else None | Some y \<Rightarrow> Some y)"
  by (induction xs) auto

lemma row_by_id_Some: "row_by_id i d = Some r \<Longrightarrow> ag_id r = i \<and> r \<in> set (di_rows d)"
  by (auto simp: row_by_id_def find_Some_iff)

lemma invalidate_clients [simp]: "map_of (rc_clients (invalidate url rc)) u = (if u = url then None else map_of (rc_clients rc) u)"
  by (simp add: invalidate_def delete_conv')

lemma invalidate_made [simp]: "rc_made (invalidate url rc) = rc_made rc"
  by (simp add: invalidate_def)

lemma retired_invalidate: "set (rc_retired (invalidate url rc)) = set (rc_retired rc) \<union> set_option (map_of (rc_clients rc) url)"
  by (auto simp: invalidate_def split: option.splits)

lemma remote_inv_invalidate: "remote_inv rc \<Longrightarrow> remote_inv (invalidate url rc)"
  unfolding remote_inv_def retired_invalidate
  by (auto simp: invalidate_def delete_conv' split: option.splits if_splits)

lemma remote_inv_cards: "remote_inv (rc\<lparr>rc_cards := cs\<rparr>) = remote_inv rc"
  by (simp add: remote_inv_def)

lemma remote_inv_cache: "remote_inv rc \<Longrightarrow> remote_inv (cache_card url crd rc)"
  by (simp add: cache_card_def Let_def remote_inv_cards remote_inv_invalidate)

lemma remote_inv_enter: "remote_inv rc \<Longrightarrow> enter_client url crd rc = (c, rc') \<Longrightarrow> remote_inv rc'"
  unfolding remote_inv_def enter_client_def
  by (elim conjE Pair_inject, intro conjI) (fastforce simp: update_conv' less_Suc_eq split: if_splits)+

text \<open>The rows of one step: kept, one more, one fewer, or one written in place.\<close>

lemma rows_inv_cong: "di_rows d' = di_rows d \<Longrightarrow> di_used d' = di_used d \<Longrightarrow> rows_inv d' = rows_inv d"
  by (simp add: rows_inv_def)

lemma rows_inv_update:
  assumes "\<And>r. ag_id (f r) = ag_id r \<and> ag_name (f r) = ag_name r"
  shows "rows_inv (update_row i f d) = rows_inv d"
proof -
  have "map ag_name (map (\<lambda>r. if ag_id r = i then f r else r) (di_rows d)) = map ag_name (di_rows d)"
    "map ag_id (map (\<lambda>r. if ag_id r = i then f r else r) (di_rows d)) = map ag_id (di_rows d)" using assms by simp_all
  then have "di_used (update_row i f d) = di_used d" "map ag_name (di_rows (update_row i f d)) = map ag_name (di_rows d)"
    "map ag_id (di_rows (update_row i f d)) = map ag_id (di_rows d)" by (simp_all add: update_row_def)
  moreover have "rows_inv d = (distinct (map ag_name (di_rows d)) \<and> distinct (map ag_id (di_rows d))
     \<and> set (map ag_id (di_rows d)) \<subseteq> set (di_used d) \<and> (\<forall>n \<in> set (map ag_name (di_rows d)). valid_name n))" for d
    by (simp add: rows_inv_def)
  ultimately show ?thesis by (simp only:)
qed

lemma rows_inv_remove: "rows_inv d \<Longrightarrow> rows_inv (d\<lparr>di_rows := filter P (di_rows d)\<rparr>)"
  by (auto simp: rows_inv_def distinct_map_filter)

lemma rows_inv_insert:
  "rows_inv d \<Longrightarrow> row_by_name (ag_name r) d = None \<Longrightarrow> ag_id r \<notin> set (di_used d) \<Longrightarrow> valid_name (ag_name r)
     \<Longrightarrow> rows_inv (d\<lparr>di_rows := di_rows d @ [r], di_used := di_used d @ [ag_id r]\<rparr>)"
  by (auto simp: rows_inv_def row_by_name_None)

lemma with_remote_frame [simp]:
  "di_rows (with_remote f d) = di_rows d" "di_used (with_remote f d) = di_used d" "di_remote (with_remote f d) = f (di_remote d)"
  "row_by_name n (with_remote f d) = row_by_name n d" "row_by_id n (with_remote f d) = row_by_id n d"
  by (simp_all add: with_remote_def row_by_name_def row_by_id_def)

lemma update_row_frame [simp]:
  "di_used (update_row i f d) = di_used d" "di_remote (update_row i f d) = di_remote d"
  by (simp_all add: update_row_def)

lemma rows_inv_remote [simp]: "rows_inv (with_remote f d) = rows_inv d" "rows_inv (d\<lparr>di_remote := rc\<rparr>) = rows_inv d"
  by (simp_all add: rows_inv_def)

lemma op_step_inv:
  assumes "rows_inv d" and "remote_inv (di_remote d)" and "op_ok cfg c op" and "ev_uuid ev \<notin> set (di_used d)"
    and "op_step cfg ev op d = (res, d')"
  shows "rows_inv d' \<and> remote_inv (di_remote d') \<and> (case res of Inl op' \<Rightarrow> op_ok cfg c op' | Inr r \<Rightarrow> answer_ok cfg c r)"
proof (cases op)
  case (Begin c')
  then show ?thesis using assms
    by (cases c) (auto simp: op_ok_def answer_ok_def begin_call_def split: sum.splits option.splits if_splits dest: row_by_id_Some)
next
  case (Reg_insert n u crd)
  then show ?thesis using assms rows_inv_insert [of d "new_record ev n u crd"]
    by (auto simp: op_ok_def Let_def new_record_def dest: registration_valid split: if_splits)
next
  case (Reg_cache r crd)
  then show ?thesis using assms by (auto simp: op_ok_def answer_ok_def remote_inv_cache)
next
  case (Del_execute i found)
  then show ?thesis using assms by (auto simp: op_ok_def answer_ok_def rows_inv_remove split: if_splits)
next
  case (Del_forget found)
  then show ?thesis using assms by (auto simp: op_ok_def answer_ok_def remote_inv_invalidate split: option.splits)
next
  case (Ref_resolve r)
  then show ?thesis using assms by (auto simp: op_ok_def answer_ok_def split: sum.splits exn.splits)
next
  case (Ref_mark i e)
  then show ?thesis using assms by (auto simp: op_ok_def answer_ok_def rows_inv_update)
next
  case (Ref_update r crd)
  then show ?thesis using assms by (auto simp: op_ok_def answer_ok_def rows_inv_update refreshed_record_def split: if_splits)
next
  case (Ref_cache r crd)
  then show ?thesis using assms by (auto simp: op_ok_def answer_ok_def remote_inv_cache)
next
  case (Use_resolve u)
  then show ?thesis using assms by (auto simp: op_ok_def answer_ok_def remote_inv_cards split: sum.splits)
next
  case (Use_create u crd)
  then show ?thesis using assms remote_inv_enter by (auto simp: op_ok_def answer_ok_def split: prod.splits)
qed (use assms in \<open>auto simp: op_ok_def answer_ok_def split: sum.splits\<close>)

definition sys_inv :: "dir_config \<Rightarrow> dir_system \<Rightarrow> bool" where
  "sys_inv cfg s \<longleftrightarrow> rows_inv (sy_dir s) \<and> remote_inv (di_remote (sy_dir s))
     \<and> (\<forall>(c, op) \<in> set (sy_pending s). op_ok cfg c op) \<and> (\<forall>(c, r) \<in> set (sy_log s). answer_ok cfg c r)"

lemma dir_do_inv:
  assumes "sys_inv cfg s" and "dir_do cfg e s = Some s'"
  shows "sys_inv cfg s'"
proof (cases e)
  case (Call c)
  then show ?thesis using assms by (auto simp: sys_inv_def op_ok_def)
next
  case (Resume i ev)
  then have i: "i < length (sy_pending s)" "ev_uuid ev \<notin> set (di_used (sy_dir s))" using assms(2) by (auto split: if_splits)
  obtain c op where co: "sy_pending s ! i = (c, op)" by (cases "sy_pending s ! i")
  obtain res d where st: "op_step cfg ev op (sy_dir s) = (res, d)" by (cases "op_step cfg ev op (sy_dir s)")
  have ok: "op_ok cfg c op" using assms(1) co nth_mem [OF i(1)] by (auto simp: sys_inv_def)
  have new: "rows_inv d \<and> remote_inv (di_remote d) \<and> (case res of Inl op' \<Rightarrow> op_ok cfg c op' | Inr r \<Rightarrow> answer_ok cfg c r)"
    by (rule op_step_inv [OF _ _ ok i(2) st]) (use assms(1) in \<open>auto simp: sys_inv_def\<close>)
  show ?thesis
  proof (cases res)
    case (Inl op')
    then have s': "s' = s\<lparr>sy_dir := d, sy_pending := (sy_pending s)[i := (c, op')]\<rparr>"
      using assms(2) Resume i co st by simp
    have "\<forall>(c, op) \<in> set ((sy_pending s)[i := (c, op')]). op_ok cfg c op"
      using assms(1) new Inl by (auto simp: sys_inv_def dest!: set_mp [OF set_update_subset_insert])
    then show ?thesis using assms(1) new by (simp add: s' sys_inv_def)
  next
    case (Inr r)
    then have s': "s' = s\<lparr>sy_dir := d, sy_pending := take i (sy_pending s) @ drop (Suc i) (sy_pending s), sy_log := sy_log s @ [(c, r)]\<rparr>"
      using assms(2) Resume i co st by simp
    have "\<forall>(c, op) \<in> set (take i (sy_pending s) @ drop (Suc i) (sy_pending s)). op_ok cfg c op"
      using assms(1) unfolding sys_inv_def by (auto dest: in_set_takeD in_set_dropD)
    then show ?thesis using assms(1) new Inr by (auto simp: s' sys_inv_def)
  qed
qed

interpretation dirs: transition_system "\<lambda>s. s = new_system" "dir_step cfg" "sys_inv cfg" for cfg
  by unfold_locales
    (simp add: new_system_def sys_inv_def empty_directory_def rows_inv_def remote_inv_def, auto simp: dir_step_def intro: dir_do_inv)

text \<open>C7: however registrations, deletions, refreshes and uses are interleaved, no two agents of the registry share a name
  or an id, every name has the form a registration must have, and every answer given belongs to its call: a registration
  answers a record with the name and the address asked for, in good health, or raises; a refresh answers the record with
  the id asked for, or raises; a deletion answers yes or no.\<close>

theorem registry_rows_unique:
  assumes "dir_reachable cfg s"
  shows "distinct (map ag_name (agents_listed (sy_dir s))) \<and> distinct (map ag_id (agents_listed (sy_dir s)))
    \<and> (\<forall>r \<in> set (agents_listed (sy_dir s)). valid_name (ag_name r)) \<and> (\<forall>(c, r) \<in> set (sy_log s). answer_ok cfg c r)"
proof -
  have inv: "sys_inv cfg s" using dirs.reachable_inv [OF refl assms [unfolded dir_reachable_def]] .
  have m: "mset (agents_listed (sy_dir s)) = mset (di_rows (sy_dir s))" by (simp add: agents_listed_def)
  have "distinct (map f (agents_listed (sy_dir s))) = distinct (map f (di_rows (sy_dir s)))" for f :: "AgentRecord \<Rightarrow> pystr"
    using m by (metis mset_eq_imp_distinct_iff mset_map)
  then show ?thesis using inv by (simp add: sys_inv_def rows_inv_def agents_listed_def)
qed

section \<open>What stays\<close>

text \<open>A step leaves an id that is out of use out of use.\<close>

definition retired_id :: "pystr \<Rightarrow> directory \<Rightarrow> bool" where
  "retired_id i d \<longleftrightarrow> i \<in> set (di_used d) \<and> i \<notin> ag_id ` set (di_rows d)"

lemma retired_id_frame [simp]: "retired_id i (with_remote f d) = retired_id i d" "retired_id i (d\<lparr>di_remote := rc\<rparr>) = retired_id i d"
  by (simp_all add: retired_id_def)

lemma retired_id_update: "(\<And>r. ag_id (f r) = ag_id r) \<Longrightarrow> retired_id i (update_row j f d) = retired_id i d"
proof -
  assume "\<And>r. ag_id (f r) = ag_id r"
  then have "map ag_id (di_rows (update_row j f d)) = map ag_id (di_rows d)" by (simp add: update_row_def)
  then have "ag_id ` set (di_rows (update_row j f d)) = ag_id ` set (di_rows d)" by (metis list.set_map)
  then show ?thesis by (simp add: retired_id_def)
qed

lemma op_step_retired_id:
  "op_step cfg ev op d = (res, d') \<Longrightarrow> ev_uuid ev \<notin> set (di_used d) \<Longrightarrow> retired_id i d \<Longrightarrow> retired_id i d'"
proof (cases op)
  case (Reg_insert n u crd)
  assume "op_step cfg ev op d = (res, d')" "ev_uuid ev \<notin> set (di_used d)" "retired_id i d"
  then show "retired_id i d'" using Reg_insert by (auto simp: retired_id_def new_record_def Let_def split: if_splits)
next
  case (Del_execute j found)
  assume "op_step cfg ev op d = (res, d')" "retired_id i d"
  then show "retired_id i d'" using Del_execute by (auto simp: retired_id_def split: if_splits)
qed (auto simp: retired_id_update refreshed_record_def split: sum.splits exn.splits if_splits option.splits prod.splits)

lemma dir_step_retired_id: "dir_step cfg s s' \<Longrightarrow> retired_id i (sy_dir s) \<Longrightarrow> retired_id i (sy_dir s')"
proof -
  assume "dir_step cfg s s'" and ret: "retired_id i (sy_dir s)"
  then obtain e where e: "dir_do cfg e s = Some s'" by (auto simp: dir_step_def)
  show ?thesis
  proof (cases e)
    case (Resume j ev)
    then show ?thesis using e ret op_step_retired_id
      by (auto split: if_splits prod.splits sum.splits)
  qed (use e ret in auto)
qed

lemma op_step_used: "op_step cfg ev op d = (res, d') \<Longrightarrow> set (di_used d) \<subseteq> set (di_used d')"
  by (cases op) (auto simp: Let_def split: sum.splits exn.splits if_splits option.splits prod.splits)

lemma dir_do_used: "dir_do cfg e s = Some s' \<Longrightarrow> set (di_used (sy_dir s)) \<subseteq> set (di_used (sy_dir s'))"
  by (cases e) (auto split: if_splits prod.splits sum.splits dest: op_step_used [THEN subsetD])

text \<open>C23: an agent that was deleted does not come back: not by a refresh that was under way, whose row is gone when it
  writes, and not by a registration, which draws a new id.\<close>

theorem deleted_agent_stays_deleted:
  assumes "dir_reachable cfg s" and "row_by_id i (sy_dir s) \<noteq> None" and "(dir_step cfg)\<^sup>*\<^sup>* s s'" and "row_by_id i (sy_dir s') = None"
    and "(dir_step cfg)\<^sup>*\<^sup>* s' s''"
  shows "row_by_id i (sy_dir s'') = None"
proof -
  have used_mono: "set (di_used (sy_dir x)) \<subseteq> set (di_used (sy_dir y))" if "dir_step cfg x y" for x y
    using that by (auto simp: dir_step_def dest: dir_do_used)
  have "i \<in> set (di_used (sy_dir s))"
    using dirs.reachable_inv [OF refl assms(1) [unfolded dir_reachable_def]] assms(2)
    by (auto simp: sys_inv_def rows_inv_def row_by_id_None)
  with assms(3) have "i \<in> set (di_used (sy_dir s'))" by (induction rule: rtranclp_induct) (use used_mono in auto)
  then have "retired_id i (sy_dir s')" using assms(4) by (simp add: retired_id_def row_by_id_None)
  with assms(5) have "retired_id i (sy_dir s'')" by (induction rule: rtranclp_induct) (auto intro: dir_step_retired_id)
  then show ?thesis by (simp add: retired_id_def row_by_id_None)
qed

section \<open>Retired clients\<close>

lemma retired_cache: "c \<in> set (rc_retired rc) \<Longrightarrow> c \<in> set (rc_retired (cache_card url crd rc))"
  by (simp add: cache_card_def Let_def retired_invalidate)

lemma op_step_retired:
  assumes "remote_inv (di_remote d)" and "k \<in> set (rc_retired (di_remote d))" and "op_step cfg ev op d = (res, d')"
  shows "k \<in> set (rc_retired (di_remote d')) \<and> res \<noteq> Inr (R_client k)"
proof (cases op)
  case (Begin c)
  then show ?thesis using assms by (auto simp: begin_call_def remote_inv_def split: dir_call.splits sum.splits option.splits if_splits)
next
  case (Use_create u crd)
  then show ?thesis using assms by (auto simp: enter_client_def remote_inv_def)
qed (use assms in \<open>auto simp: Let_def retired_cache retired_invalidate update_row_def split: sum.splits exn.splits if_splits option.splits\<close>)

text \<open>A client that was replaced or invalidated is never handed out again, by no call that is under way and by no later
  one, and it stays among those that \<open>close\<close> closes.\<close>

theorem retired_client_never_used:
  assumes "dir_reachable cfg s" and "k \<in> set (rc_retired (di_remote (sy_dir s)))" and "(dir_step cfg)\<^sup>*\<^sup>* s s'"
  shows "(\<exists>later. sy_log s' = sy_log s @ later \<and> (\<forall>c. (c, R_client k) \<notin> set later))
    \<and> k \<in> set (fst (close_remote (di_remote (sy_dir s')))) \<and> (\<forall>u. map_of (rc_clients (di_remote (sy_dir s'))) u \<noteq> Some k)"
proof -
  have inv: "sys_inv cfg s" using dirs.reachable_inv [OF refl assms(1) [unfolded dir_reachable_def]] .
  have "(\<exists>later. sy_log s' = sy_log s @ later \<and> (\<forall>c. (c, R_client k) \<notin> set later)) \<and> k \<in> set (rc_retired (di_remote (sy_dir s')))"
    using assms(3)
  proof (induction rule: rtranclp_induct)
    case (step x y)
    have x: "remote_inv (di_remote (sy_dir x))" using dirs.run_inv [OF step.hyps(1) inv] by (simp add: sys_inv_def)
    obtain e where e: "dir_do cfg e x = Some y" using step.hyps(2) by (auto simp: dir_step_def)
    show ?case
    proof (cases e)
      case (Resume j ev)
      obtain c op res d where op: "sy_pending x ! j = (c, op)" "op_step cfg ev op (sy_dir x) = (res, d)"
        by (metis surj_pair)
      then have "k \<in> set (rc_retired (di_remote d)) \<and> res \<noteq> Inr (R_client k)" using op_step_retired [OF x] step.IH by blast
      then show ?thesis using e Resume op step.IH by (cases res) (auto split: if_splits)
    qed (use e step.IH in auto)
  qed (use assms(2) in simp)
  moreover have "remote_inv (di_remote (sy_dir s'))" using dirs.run_inv [OF assms(3) inv] by (simp add: sys_inv_def)
  ultimately show ?thesis by (auto simp: close_remote_def remote_inv_def)
qed

section \<open>A call on its own\<close>

definition op_rank :: "dir_op \<Rightarrow> nat" where
  "op_rank op = (case op of
      Begin c \<Rightarrow> 4
    | Reg_resolve n u \<Rightarrow> 3 | Reg_insert n u crd \<Rightarrow> 2 | Reg_recheck n \<Rightarrow> 1 | Reg_cache r crd \<Rightarrow> 1
    | Del_execute i found \<Rightarrow> 2 | Del_forget found \<Rightarrow> 1
    | Ref_resolve r \<Rightarrow> 3 | Ref_mark i e \<Rightarrow> 1 | Ref_update r crd \<Rightarrow> 2 | Ref_cache r crd \<Rightarrow> 1
    | Use_resolve u \<Rightarrow> 2 | Use_create u crd \<Rightarrow> 1)"

lemma op_step_rank: "op_step cfg ev op d = (Inl op', d') \<Longrightarrow> op_rank op' < op_rank op"
  by (cases op) (auto simp: op_rank_def begin_call_def Let_def split: sum.splits exn.splits if_splits option.splits prod.splits dir_call.splits)

text \<open>The steps of one call, none of another in between: four are enough (\<open>run_op_ends\<close>).\<close>

fun run_op :: "dir_config \<Rightarrow> dir_env \<Rightarrow> nat \<Rightarrow> dir_op \<Rightarrow> directory \<Rightarrow> (dir_op + dir_result) \<times> directory" where
  "run_op cfg ev 0 op d = (Inl op, d)"
| "run_op cfg ev (Suc n) op d = (case op_step cfg ev op d of
      (Inl op', d') \<Rightarrow> run_op cfg ev n op' d'
    | (Inr r, d') \<Rightarrow> (Inr r, d'))"

definition call_alone :: "dir_config \<Rightarrow> dir_env \<Rightarrow> dir_call \<Rightarrow> directory \<Rightarrow> (exn + (nat \<times> AgentRecord option)) \<times> directory" where
  "call_alone cfg ev c d = (case run_op cfg ev 4 (Begin c) d of
      (Inr r, d') \<Rightarrow> (respond c r, d')
    | (Inl op, d') \<Rightarrow> (Inl Untyped, d'))"

lemma run_op_ends: "op_rank op \<le> n \<Longrightarrow> \<exists>r d'. run_op cfg ev n op d = (Inr r, d')"
proof (induction n arbitrary: op d)
  case 0
  then show ?case by (cases op) (auto simp: op_rank_def)
next
  case (Suc n)
  obtain res d' where st: "op_step cfg ev op d = (res, d')" by (cases "op_step cfg ev op d")
  show ?case
  proof (cases res)
    case (Inl op')
    then show ?thesis using Suc st op_step_rank [of cfg ev op d op' d'] by simp
  qed (use st in simp)
qed

text \<open>The three calls that change the registry, in one piece.\<close>

lemma register_alone:
  "call_alone cfg ev (Register n u) d = (case registration cfg n u of
      Inl e \<Rightarrow> (respond (Register n u) (R_raises e), d)
    | Inr (n', u') \<Rightarrow> if row_by_name n' d \<noteq> None then (Inl (HTTPException 409 (py ''agent name already registered: '' @ n')), d)
        else (case resolve_card (dc_http_url cfg) (ev_fetched ev) of
            Inl e \<Rightarrow> (respond (Register n u) (R_raises e), d)
          | Inr crd \<Rightarrow> (Inr (201, Some (new_record ev n' u' crd)),
              with_remote (cache_card u' crd) (d\<lparr>di_rows := di_rows d @ [new_record ev n' u' crd], di_used := di_used d @ [ev_uuid ev]\<rparr>))))"
  by (simp add: call_alone_def eval_nat_numeral begin_call_def respond_def name_taken_def new_record_def Let_def
      split: sum.split prod.split option.split)

lemma delete_alone:
  "call_alone cfg ev (Delete i) d = (case row_by_id i d of
      None \<Rightarrow> (Inl (HTTPException 404 (py ''agent not found: '' @ i)), d)
    | Some r \<Rightarrow> (Inr (204, None), with_remote (invalidate (ag_card_url r)) (d\<lparr>di_rows := filter (\<lambda>r. ag_id r \<noteq> i) (di_rows d)\<rparr>)))"
  by (simp add: call_alone_def eval_nat_numeral begin_call_def respond_def split: option.split)

lemma refresh_alone:
  "call_alone cfg ev (Refresh i) d = (case row_by_id i d of
      None \<Rightarrow> (Inl (HTTPException 404 (py ''agent not found: '' @ i)), d)
    | Some r \<Rightarrow> (case resolve_card (dc_http_url cfg) (ev_fetched ev) of
        Inl (AgentCardResolutionError t) \<Rightarrow> (Inl (HTTPException 502 (py ''failed to refresh agent card: '' @ t)),
            update_row i (\<lambda>r. r\<lparr>ag_health := py ''unavailable''\<rparr>) d)
      | Inl e \<Rightarrow> (respond (Refresh i) (R_raises e), d)
      | Inr crd \<Rightarrow> (Inr (200, Some (refreshed_record ev crd r)),
          with_remote (cache_card (ag_card_url r) crd) (update_row i (refreshed_record ev crd) d))))"
proof (cases "row_by_id i d")
  case (Some r)
  then have "ag_id r = i" by (simp add: row_by_id_Some)
  with Some show ?thesis
    by (auto simp: call_alone_def eval_nat_numeral begin_call_def respond_def refreshed_record_def split: sum.split exn.split)
qed (simp add: call_alone_def eval_nat_numeral begin_call_def respond_def agent_missing_def)

text \<open>A registered agent is there, exactly once, until it is deleted: after a registration was answered with 201, the
  list has the new record and the old ones, the name finds it, registering the name again is refused with 409 and changes
  nothing; deleting it is answered with 204, brings the registry back to the rows it had, leaves no card and no client for
  its address, and a second deletion finds nothing.\<close>

theorem register_delete_round_trip:
  assumes "rows_inv d" and "ev_uuid ev \<notin> set (di_used d)" and "call_alone cfg ev (Register n u) d = (Inr (code, Some r), d1)"
    and "call_alone cfg ev2 (Delete (ag_id r)) d1 = (ans, d2)"
  shows "code = 201 \<and> row_by_name (ag_name r) d1 = Some r \<and> mset (agents_listed d1) = add_mset r (mset (agents_listed d))
    \<and> call_alone cfg ev3 (Register n u) d1 = (Inl (HTTPException 409 (py ''agent name already registered: '' @ ag_name r)), d1)
    \<and> ans = Inr (204, None) \<and> di_rows d2 = di_rows d \<and> map_of (rc_cards (di_remote d2)) (ag_card_url r) = None
    \<and> map_of (rc_clients (di_remote d2)) (ag_card_url r) = None
    \<and> call_alone cfg ev4 (Delete (ag_id r)) d2 = (Inl (HTTPException 404 (py ''agent not found: '' @ ag_id r)), d2)"
proof -
  obtain n' u' crd where reg: "registration cfg n u = Inr (n', u')" "row_by_name n' d = None"
      "resolve_card (dc_http_url cfg) (ev_fetched ev) = Inr crd" "code = 201" and r: "r = new_record ev n' u' crd"
      and d1: "d1 = with_remote (cache_card u' crd) (d\<lparr>di_rows := di_rows d @ [r], di_used := di_used d @ [ev_uuid ev]\<rparr>)"
    using assms(3) by (auto simp: register_alone respond_def split: sum.splits prod.splits if_splits exn.splits)
  have fresh: "ev_uuid ev \<notin> ag_id ` set (di_rows d)" using assms(1,2) by (auto simp: rows_inv_def)
  have f: "ag_id r = ev_uuid ev" "ag_name r = n'" "ag_card_url r = u'" by (simp_all add: r new_record_def)
  have rows: "di_rows d1 = di_rows d @ [r]" by (simp add: d1)
  have idle: "row_by_id (ev_uuid ev) d = None" using fresh by (simp add: row_by_id_None)
  have name: "row_by_name n' d1 = Some r"
    using reg(2) f(2) by (simp add: row_by_name_def rows find_snoc)
  have "row_by_id (ev_uuid ev) d1 = Some r" using idle f(1) by (simp add: row_by_id_def rows find_snoc)
  then have del: "ans = Inr (204, None)"
      "d2 = with_remote (invalidate u') (d1\<lparr>di_rows := filter (\<lambda>r. ag_id r \<noteq> ev_uuid ev) (di_rows d1)\<rparr>)"
    using assms(4) by (auto simp: delete_alone f)
  have rows2: "di_rows d2 = di_rows d" using fresh f(1) by (auto simp: del(2) rows filter_id_conv image_iff)
  then have "row_by_id (ev_uuid ev) d2 = None" using fresh by (simp add: row_by_id_None)
  then have "call_alone cfg ev4 (Delete (ag_id r)) d2 = (Inl (HTTPException 404 (py ''agent not found: '' @ ag_id r)), d2)"
    by (simp add: delete_alone f)
  moreover have "call_alone cfg ev3 (Register n u) d1 = (Inl (HTTPException 409 (py ''agent name already registered: '' @ ag_name r)), d1)"
    using reg(1) name by (simp add: register_alone f)
  moreover have "map_of (rc_cards (di_remote d2)) u' = None" "map_of (rc_clients (di_remote d2)) u' = None"
    by (simp_all add: del(2) invalidate_def delete_conv')
  ultimately show ?thesis using reg(4) name del(1) rows2 by (simp add: f agents_listed_def rows)
qed

section \<open>Runs\<close>

fun dir_run :: "dir_config \<Rightarrow> dir_event list \<Rightarrow> dir_system \<Rightarrow> dir_system option" where
  "dir_run cfg [] s = Some s"
| "dir_run cfg (e # es) s = (case dir_do cfg e s of None \<Rightarrow> None | Some s' \<Rightarrow> dir_run cfg es s')"

lemma dir_run_steps: "dir_run cfg es s = Some s' \<Longrightarrow> (dir_step cfg)\<^sup>*\<^sup>* s s'"
proof (induction es arbitrary: s)
  case (Cons e es)
  then obtain s1 where "dir_do cfg e s = Some s1" "dir_run cfg es s1 = Some s'" by (auto split: option.splits)
  moreover from this have "dir_step cfg s s1" by (auto simp: dir_step_def)
  ultimately show ?case using Cons.IH by (meson converse_rtranclp_into_rtranclp)
qed simp

lemma dir_run_append: "dir_run cfg (es @ fs) s = Option.bind (dir_run cfg es s) (dir_run cfg fs)"
  by (induction es arbitrary: s) (auto split: option.splits)

lemma dir_run_reachable: "dir_run cfg es new_system = Some s \<Longrightarrow> dir_reachable cfg s"
  unfolding dir_reachable_def by (rule dir_run_steps)

definition demo_config :: dir_config where
  "demo_config = \<lparr>dc_parse_url = \<lambda>u. Some \<lparr>up_username = [], up_password = [], up_query = None, up_fragment = None, up_text = u\<rparr>,
     dc_http_url = \<lambda>u. True\<rparr>"

definition demo_card :: "string \<Rightarrow> AgentCard" where
  "demo_card name = \<lparr>card_name = py name, card_interfaces = [\<lparr>ci_binding = py ''JSONRPC'', ci_version = py ''1.0'', ci_url = py ''u''\<rparr>], card_data = JNull\<rparr>"

definition demo_env :: "string \<Rightarrow> string \<Rightarrow> dir_env" where
  "demo_env i name = \<lparr>ev_fetched = Inr (demo_card name), ev_uuid = py i, ev_now = []\<rparr>"

lemma demo_registration: "registration demo_config (py ''w'') (py ''u'') = Inr (py ''w'', py ''u'')"
    "registration demo_config (py '' w '') (py ''u/'') = Inr (py ''w'', py ''u'')" "registration demo_config (py ''w'') (py ''v'') = Inr (py ''w'', py ''v'')"
  by (simp_all add: registration_def normalize_url_def demo_config_def valid_name_def str_strip_def is_space_def is_alnum_def py_def)

lemma demo_resolve: "str_strip (py name) \<noteq> [] \<Longrightarrow> resolve_card (dc_http_url demo_config) (ev_fetched (demo_env i name)) = Inr (demo_card name)"
  by (simp add: resolve_card_def check_card_def demo_config_def demo_env_def demo_card_def)

lemma demo_env_simps: "ev_uuid (demo_env i name) = py i" "ev_now (demo_env i name) = []" "card_name (demo_card name) = py name"
  by (simp_all add: demo_env_def demo_card_def)

lemma demo_names: "str_strip (py ''w'') \<noteq> []" "str_strip (py ''a'') \<noteq> []" "str_strip (py ''old'') \<noteq> []" "str_strip (py ''new'') \<noteq> []"
  by (simp_all add: str_strip_def is_space_def py_def)

lemmas dir_eval = demo_registration demo_resolve demo_env_simps demo_names begin_call_def row_by_name_def row_by_id_def new_record_def
  refreshed_record_def update_row_def with_remote_def cache_card_def invalidate_def enter_client_def close_remote_def Let_def
  new_system_def empty_directory_def respond_def name_taken_def agent_missing_def

text \<open>Two registrations of one name at the same time: both see the name free, the table refuses the second row.\<close>

definition race_events :: "dir_event list" where
  "race_events = [Call (Register (py '' w '') (py ''u/'')), Call (Register (py ''w'') (py ''v'')), Resume 0 (demo_env ''1'' ''w''), Resume (Suc 0) (demo_env ''1'' ''w''),
     Resume 0 (demo_env ''1'' ''w''), Resume (Suc 0) (demo_env ''1'' ''w''), Resume 0 (demo_env ''1'' ''w''), Resume (Suc 0) (demo_env ''2'' ''w''),
     Resume (Suc 0) (demo_env ''2'' ''w''), Resume 0 (demo_env ''2'' ''w'')]"

lemma race_run: "case dir_run demo_config race_events new_system of Some s \<Rightarrow> map ag_id (di_rows (sy_dir s)) = [py ''1''] \<and> sy_pending s = []
    \<and> map (\<lambda>(c, r). respond c r) (sy_log s) = [Inl (HTTPException 409 (py ''agent name already registered: '' @ py ''w'')), Inr (201, Some (hd (di_rows (sy_dir s))))]
  | None \<Rightarrow> False"
  by (simp add: dir_eval race_events_def)

theorem registry_rows_unique_witness:
  "\<exists>s. dir_reachable demo_config s \<and> length (sy_log s) = 2 \<and> (\<forall>(c, r) \<in> set (sy_log s). answer_ok demo_config c r)"
proof -
  obtain s where s: "dir_run demo_config race_events new_system = Some s" "length (map (\<lambda>(c, r). respond c r) (sy_log s)) = 2"
    using race_run by (auto split: option.splits)
  then show ?thesis using registry_rows_unique [OF dir_run_reachable [OF s(1)]] dir_run_reachable [OF s(1)] by auto
qed

text \<open>A deletion while a refresh is under way.\<close>

definition delete_events :: "dir_event list" where
  "delete_events = [Call (Refresh (py ''1'')), Resume 0 (demo_env ''2'' ''w''), Resume 0 (demo_env ''2'' ''w''),
     Call (Delete (py ''1'')), Resume (Suc 0) (demo_env ''2'' ''w''), Resume (Suc 0) (demo_env ''2'' ''w'')]"

definition after_delete_events :: "dir_event list" where
  "after_delete_events = [Resume 0 (demo_env ''2'' ''w'')]"

lemma delete_run: "case dir_run demo_config race_events new_system of None \<Rightarrow> False | Some s \<Rightarrow> di_rows (sy_dir s) \<noteq> []
    \<and> (case dir_run demo_config delete_events s of None \<Rightarrow> False | Some s' \<Rightarrow> di_rows (sy_dir s') = [] \<and> length (sy_pending s') = 2
    \<and> (case dir_run demo_config after_delete_events s' of None \<Rightarrow> False | Some s'' \<Rightarrow>
        (case last (sy_log s'') of (c, r) \<Rightarrow> respond c r) = Inl (HTTPException 404 (py ''agent not found: '' @ py ''1''))))"
  by (simp add: dir_eval race_events_def delete_events_def after_delete_events_def)

theorem deleted_agent_stays_deleted_witness:
  "\<exists>s s' s''. dir_run demo_config race_events new_system = Some s \<and> dir_run demo_config delete_events s = Some s'
     \<and> dir_run demo_config after_delete_events s' = Some s'' \<and> row_by_id (py ''1'') (sy_dir s'') = None"
proof -
  obtain s s' s'' where s: "dir_run demo_config race_events new_system = Some s" "dir_run demo_config delete_events s = Some s'"
    "dir_run demo_config after_delete_events s' = Some s''" "di_rows (sy_dir s') = []"
    using delete_run by (auto split: option.splits)
  have "map ag_id (di_rows (sy_dir s)) = [py ''1'']" using race_run s(1) by simp
  then have "py ''1'' \<in> ag_id ` set (di_rows (sy_dir s))" by (metis list.set_map list.set_intros(1))
  then have "row_by_id (py ''1'') (sy_dir s) \<noteq> None" "row_by_id (py ''1'') (sy_dir s') = None"
    using s(4) by (simp_all add: row_by_id_None)
  then have "row_by_id (py ''1'') (sy_dir s'') = None"
    using deleted_agent_stays_deleted [OF dir_run_reachable [OF s(1)] _ dir_run_steps [OF s(2)] _ dir_run_steps [OF s(3)]] by blast
  then show ?thesis using s by blast
qed

text \<open>An agent is used, then refreshed, then used again.\<close>

definition use_events :: "dir_event list" where
  "use_events = [Call (Use (py ''u'')), Resume 0 (demo_env ''2'' ''w''), Resume 0 (demo_env ''2'' ''w''),
     Call (Refresh (py ''1'')), Resume 0 (demo_env ''2'' ''w''), Resume 0 (demo_env ''2'' ''w''), Resume 0 (demo_env ''2'' ''w''), Resume 0 (demo_env ''2'' ''w'')]"

definition use_again_events :: "dir_event list" where
  "use_again_events = [Call (Use (py ''u'')), Resume 0 (demo_env ''2'' ''w''), Resume 0 (demo_env ''2'' ''w'')]"

lemma use_run: "case dir_run demo_config (race_events @ use_events) new_system of None \<Rightarrow> False | Some s \<Rightarrow>
    rc_retired (di_remote (sy_dir s)) = [0] \<and> sy_pending s = []
    \<and> (case dir_run demo_config use_again_events s of None \<Rightarrow> False | Some s' \<Rightarrow> last (sy_log s') = (Use (py ''u''), R_client 1))"
  by (simp add: dir_eval race_events_def use_events_def use_again_events_def)

theorem retired_client_never_used_witness:
  "\<exists>s s' later. dir_reachable demo_config s \<and> (dir_step demo_config)\<^sup>*\<^sup>* s s' \<and> last (sy_log s') = (Use (py ''u''), R_client 1)
     \<and> sy_log s' = sy_log s @ later \<and> (\<forall>c. (c, R_client 0) \<notin> set later)"
proof -
  obtain s s' where s: "dir_run demo_config (race_events @ use_events) new_system = Some s" "rc_retired (di_remote (sy_dir s)) = [0]"
    "dir_run demo_config use_again_events s = Some s'" "last (sy_log s') = (Use (py ''u''), R_client 1)"
    using use_run by (auto split: option.splits)
  have r: "dir_reachable demo_config s" by (rule dir_run_reachable [OF s(1)])
  have "0 \<in> set (rc_retired (di_remote (sy_dir s)))" using s(2) by simp
  then show ?thesis using retired_client_never_used [OF r _ dir_run_steps [OF s(3)]] r dir_run_steps [OF s(3)] s(4) by blast
qed

theorem register_delete_round_trip_witness:
  "di_rows (snd (call_alone demo_config (demo_env ''2'' ''w'') (Delete (py ''1'')) (snd (call_alone demo_config (demo_env ''1'' ''w'')
     (Register (py ''w'') (py ''u'')) empty_directory)))) = []"
proof -
  let ?r = "new_record (demo_env ''1'' ''w'') (py ''w'') (py ''u'') (demo_card ''w'')"
  let ?res = "call_alone demo_config (demo_env ''1'' ''w'') (Register (py ''w'') (py ''u'')) empty_directory"
  have 1: "fst ?res = Inr (201, Some ?r)" by (simp add: register_alone dir_eval)
  have inv: "rows_inv empty_directory" "ev_uuid (demo_env ''1'' ''w'') \<notin> set (di_used empty_directory)"
    by (simp_all add: rows_inv_def empty_directory_def)
  have i: "ag_id ?r = py ''1''" by (simp add: new_record_def demo_env_def)
  show ?thesis
    using register_delete_round_trip [OF inv, of demo_config "py ''w''" "py ''u''" 201 ?r "snd ?res" "demo_env ''2'' ''w''"
        "fst (call_alone demo_config (demo_env ''2'' ''w'') (Delete (ag_id ?r)) (snd ?res))"
        "snd (call_alone demo_config (demo_env ''2'' ''w'') (Delete (ag_id ?r)) (snd ?res))"] 1
    unfolding i by (simp add: surjective_pairing [symmetric] empty_directory_def prod_eq_iff)
qed

section \<open>Two races the client does not close\<close>

text \<open>Two first uses at the same time make two clients; the first one is handed out, and is neither kept nor closed.\<close>

lemma concurrent_first_use_leaks:
  "case dir_run demo_config [Call (Use (py ''u'')), Call (Use (py ''u'')), Resume 0 (demo_env ''1'' ''a''), Resume (Suc 0) (demo_env ''1'' ''a''),
      Resume 0 (demo_env ''1'' ''a''), Resume (Suc 0) (demo_env ''1'' ''a''), Resume 0 (demo_env ''1'' ''a''), Resume 0 (demo_env ''1'' ''a'')] new_system of
     None \<Rightarrow> False
   | Some s \<Rightarrow> map snd (sy_log s) = [R_client 0, R_client 1] \<and> fst (close_remote (di_remote (sy_dir s))) = [1]"
  by (simp add: dir_eval)

text \<open>A use that began to fetch the card before a refresh puts the card it got over the refreshed one.\<close>

lemma refreshed_card_overtaken:
  "case dir_run demo_config ([Call (Register (py ''w'') (py ''u'')), Call (Use (py ''u''))] @ [Resume (Suc 0) (demo_env ''1'' ''old''), Resume 0 (demo_env ''1'' ''new''),
      Resume 0 (demo_env ''1'' ''new''), Resume 0 (demo_env ''1'' ''new''), Resume 0 (demo_env ''2'' ''new''), Resume 0 (demo_env ''2'' ''old''),
      Resume 0 (demo_env ''2'' ''old'')]) new_system of
     None \<Rightarrow> False
   | Some s \<Rightarrow> map card_name (d_values (rc_cards (di_remote (sy_dir s)))) = [py ''old''] \<and> sy_pending s = []"
  by (simp add: dir_eval)

text \<open>Cancelling a remote task raises when the agent cannot be reached for its card.\<close>

lemma cancel_raises_without_card: "cancel_remote_task (Inl e) call = Inl e"
  by (simp add: cancel_remote_task_def)

end
