(* ===== verification/Conversations.thy ===== *)
theory Conversations
  imports Recovery Replay_Api
begin

text \<open>
  Conversations as the API serves them: the table \<open>contexts\<close> (\<open>store/contexts.py\<close>) and the endpoints of
  \<open>api/conversations.py\<close> that create, list, show and replay conversations; the one that rewinds is in \<open>Recovery\<close>.
  \<open>Context\<close> sees the table as a dict from ids to states (\<open>store_of\<close>); here it is the list of its rows in order of
  insertion, and \<open>upsert_row\<close> refines the dict's update.

  Parameters (\<open>listing_config\<close>): the number and the name protobuf gives a task state, and the title a task carries in
  its metadata (empty for none).  Task pages are taken concatenated, newest first, as in \<open>Recovery\<close>.
\<close>

section \<open>The table\<close>

text \<open>\<open>cx_state\<close> is the parsed text, \<open>None\<close> for a text that is not JSON.\<close>

record ContextRecord =
  cx_id :: pystr
  cx_state :: "json option"
  cx_title :: pystr
  cx_created_at :: pystr
  cx_updated_at :: pystr

definition row_of :: "pystr \<Rightarrow> ContextRecord list \<Rightarrow> ContextRecord option" where
  "row_of k rows = List.find (\<lambda>r. cx_id r = k) rows"

text \<open>\<open>ORDER BY updated_at ASC, rowid ASC\<close>\<close>

definition rows_listed :: "ContextRecord list \<Rightarrow> ContextRecord list" where
  "rows_listed rows = sort_key cx_updated_at rows"

text \<open>\<open>INSERT ... ON CONFLICT(context_id) DO UPDATE\<close>: a created row keeps what it has, but for an empty title.\<close>

definition create_row :: "pystr \<Rightarrow> pystr \<Rightarrow> pystr \<Rightarrow> ContextRecord list \<Rightarrow> ContextRecord list" where
  "create_row now k title rows = (if k \<in> cx_id ` set rows
     then map (\<lambda>r. if cx_id r = k \<and> cx_title r = [] then r\<lparr>cx_title := title\<rparr> else r) rows
     else rows @ [\<lparr>cx_id = k, cx_state = Some (JObj []), cx_title = title, cx_created_at = now, cx_updated_at = now\<rparr>])"

definition upsert_row :: "pystr \<Rightarrow> pystr \<Rightarrow> json \<Rightarrow> ContextRecord list \<Rightarrow> ContextRecord list" where
  "upsert_row now k st rows = (if k \<in> cx_id ` set rows
     then map (\<lambda>r. if cx_id r = k then r\<lparr>cx_state := Some st, cx_updated_at := now\<rparr> else r) rows
     else rows @ [\<lparr>cx_id = k, cx_state = Some st, cx_title = [], cx_created_at = now, cx_updated_at = now\<rparr>])"

definition rows_distinct :: "ContextRecord list \<Rightarrow> bool" where
  "rows_distinct rows \<longleftrightarrow> distinct (map cx_id rows)"

text \<open>The dict \<open>Context\<close> works with: the rows whose state is JSON.\<close>

definition store_of :: "ContextRecord list \<Rightarrow> (pystr, json) dict" where
  "store_of rows = List.map_filter (\<lambda>r. case cx_state r of None \<Rightarrow> None | Some st \<Rightarrow> Some (cx_id r, st)) rows"

section \<open>The endpoints\<close>

record ConversationSummary =
  cs_id :: pystr
  cs_title :: pystr
  cs_created_at :: pystr
  cs_updated_at :: pystr
  cs_task_count :: nat
  cs_last_status :: pystr

record listing_config =
  lc_number :: "TaskState \<Rightarrow> nat"
  lc_name :: "TaskState \<Rightarrow> pystr"
  lc_title :: "Task \<Rightarrow> pystr"

definition create_conversation :: "pystr \<Rightarrow> pystr \<Rightarrow> pystr \<Rightarrow> ContextRecord list \<Rightarrow> (pystr \<times> pystr) \<times> ContextRecord list" where
  "create_conversation now new_id title rows = ((new_id, title), create_row now new_id title rows)"

definition summary_of_row :: "ContextRecord \<Rightarrow> ConversationSummary" where
  "summary_of_row r = \<lparr>cs_id = cx_id r, cs_title = cx_title r, cs_created_at = cx_created_at r, cs_updated_at = cx_updated_at r,
     cs_task_count = 0, cs_last_status = []\<rparr>"

text \<open>One pass of the loop over the tasks: \<open>sessions\<close> and \<open>latest_state\<close>.\<close>

definition count_task :: "listing_config \<Rightarrow> Task \<Rightarrow> (pystr, ConversationSummary) dict \<times> (pystr, nat) dict
    \<Rightarrow> (pystr, ConversationSummary) dict \<times> (pystr, nat) dict" where
  "count_task cfg t = (\<lambda>(sessions, latest).
     let k = tk_context t; number = lc_number cfg (tk_state t); state_name = lc_name cfg (tk_state t);
         (sessions1, latest1) = (if d_has sessions k then (sessions, latest)
           else (AList.update k \<lparr>cs_id = k, cs_title = lc_title cfg t, cs_created_at = [], cs_updated_at = [], cs_task_count = 0,
                   cs_last_status = state_name\<rparr> sessions, AList.update k number latest));
         sessions2 = d_modify k (\<lambda>s. s\<lparr>cs_task_count := Suc (cs_task_count s)\<rparr>) sessions1
     in if number > (case map_of latest1 k of None \<Rightarrow> 0 | Some n \<Rightarrow> n)
        then (d_modify k (\<lambda>s. s\<lparr>cs_last_status := state_name\<rparr>) sessions2, AList.update k number latest1)
        else (sessions2, latest1))"

definition list_conversations :: "listing_config \<Rightarrow> Task list \<Rightarrow> ContextRecord list \<Rightarrow> ConversationSummary list" where
  "list_conversations cfg tasks rows = (let records = rows_listed rows in
     d_values (fst (fold (count_task cfg) (list_all_tasks False tasks)
       (map (\<lambda>r. (cx_id r, summary_of_row r)) records, map (\<lambda>r. (cx_id r, 0)) records))))"

definition visible_of :: "pystr \<Rightarrow> Task list \<Rightarrow> Task list" where
  "visible_of k tasks = list_all_tasks True (filter (\<lambda>t. tk_context t = k) tasks)"

definition get_conversation :: "pystr \<Rightarrow> Task list \<Rightarrow> ContextRecord list \<Rightarrow> exn + (json option \<times> Task list)" where
  "get_conversation k tasks rows = (if visible_of k tasks = [] then Inl (HTTPException 404 (py ''conversation not found''))
     else Inr (case row_of k rows of None \<Rightarrow> None | Some r \<Rightarrow> cx_state r, visible_of k tasks))"

text \<open>\<open>room_of\<close> is the task as the replay reads it.\<close>

definition replay_conversation :: "(nat \<Rightarrow> pystr) \<Rightarrow> (Task \<Rightarrow> room_task) \<Rightarrow> pystr \<Rightarrow> pystr \<Rightarrow> Task list \<Rightarrow> ContextRecord list
    \<Rightarrow> exn + room_event list" where
  "replay_conversation uid room_of now k tasks rows =
     (if visible_of k tasks = [] then Inl (HTTPException 404 (py ''conversation not found''))
      else ebind (case row_of k rows of None \<Rightarrow> Inr None | Some r \<Rightarrow> load_state now (Some (cx_state r)))
        (\<lambda>st. Inr (synthesize_replay_events uid (map room_of (visible_of k tasks)) st)))"

section \<open>The table refines the dict\<close>

lemma row_of_None: "row_of k rows = None \<longleftrightarrow> k \<notin> cx_id ` set rows"
  by (auto simp: row_of_def find_None_iff)

lemma store_of_Nil [simp]: "store_of [] = []"
  by (simp add: store_of_def List.map_filter_def)

lemma store_of_Cons: "store_of (r # rows) = (case cx_state r of None \<Rightarrow> [] | Some st \<Rightarrow> [(cx_id r, st)]) @ store_of rows"
  by (simp add: store_of_def List.map_filter_def split: option.split)

lemma store_of_append [simp]: "store_of (xs @ ys) = store_of xs @ store_of ys"
  by (simp add: store_of_def List.map_filter_def)

lemma row_of_Cons: "row_of k (r # rows) = (if cx_id r = k then Some r else row_of k rows)"
  by (simp add: row_of_def)

lemma store_of_lookup: "rows_distinct rows \<Longrightarrow> map_of (store_of rows) k = Option.bind (row_of k rows) cx_state"
proof (induction rows)
  case (Cons r rows)
  have "row_of (cx_id r) rows = None" using Cons.prems by (simp add: row_of_None rows_distinct_def)
  then show ?case using Cons by (auto simp: store_of_Cons row_of_Cons rows_distinct_def split: option.split)
qed (simp add: row_of_def)

lemma create_row_ids: "map cx_id (create_row now k title rows) = (if k \<in> cx_id ` set rows then map cx_id rows else map cx_id rows @ [k])"
  by (simp add: create_row_def)

lemma upsert_row_ids: "map cx_id (upsert_row now k st rows) = (if k \<in> cx_id ` set rows then map cx_id rows else map cx_id rows @ [k])"
  by (simp add: upsert_row_def)

lemma rows_distinct_create: "rows_distinct rows \<Longrightarrow> rows_distinct (create_row now k title rows)"
  by (simp add: rows_distinct_def create_row_ids)

lemma rows_distinct_upsert: "rows_distinct rows \<Longrightarrow> rows_distinct (upsert_row now k st rows)"
  by (simp add: rows_distinct_def upsert_row_ids)

lemma row_of_map: "(\<And>r. cx_id (f r) = cx_id r) \<Longrightarrow> row_of k (map f rows) = map_option f (row_of k rows)"
  by (induction rows) (auto simp: row_of_def)

lemma row_of_snoc: "row_of k (rows @ [r]) = (case row_of k rows of None \<Rightarrow> if cx_id r = k then Some r else None | Some x \<Rightarrow> Some x)"
  by (induction rows) (auto simp: row_of_def)

text \<open>The state of one id is replaced, as \<open>upsert_state\<close> does; title and time of creation stay.\<close>

lemma upsert_row_refines:
  assumes "rows_distinct rows"
  shows "map_of (store_of (upsert_row now k st rows)) = map_of (upsert_state k st (store_of rows))"
proof
  fix j
  have "row_of j (upsert_row now k st rows) = (if j = k
      then Some (case row_of k rows of None \<Rightarrow> \<lparr>cx_id = k, cx_state = Some st, cx_title = [], cx_created_at = now, cx_updated_at = now\<rparr>
        | Some r \<Rightarrow> r\<lparr>cx_state := Some st, cx_updated_at := now\<rparr>) else row_of j rows)"
  proof (cases "row_of k rows")
    case None
    then show ?thesis using row_of_None [of k rows] by (auto simp: upsert_row_def row_of_snoc split: option.split)
  next
    case (Some r)
    then have k: "k \<in> cx_id ` set rows" using row_of_None [of k rows] by auto
    have "cx_id x = j" if "row_of j rows = Some x" for x j using that by (auto simp: row_of_def find_Some_iff)
    then show ?thesis using Some k by (auto simp: upsert_row_def row_of_map map_option_case split: option.split)
  qed
  then show "map_of (store_of (upsert_row now k st rows)) j = map_of (upsert_state k st (store_of rows)) j"
    using assms rows_distinct_upsert [OF assms] by (auto simp: store_of_lookup upsert_state_def pd.get_put split: option.split)
qed

section \<open>What the listing shows\<close>

text \<open>The reference: the ids of the table in its order, then those only tasks have, the newest first; each with the number
  of its visible tasks and the name of the highest state among them, the newest task's in a tie.\<close>

definition of_context :: "pystr \<Rightarrow> Task list \<Rightarrow> Task list" where
  "of_context k ts = filter (\<lambda>t. tk_context t = k) ts"

definition listed_ids :: "ContextRecord list \<Rightarrow> Task list \<Rightarrow> pystr list" where
  "listed_ids rows ts = map cx_id (rows_listed rows) @ filter (\<lambda>k. k \<notin> cx_id ` set rows) (fromkeys (map tk_context ts))"

definition top_number :: "listing_config \<Rightarrow> Task list \<Rightarrow> nat" where
  "top_number cfg ts = (if ts = [] then 0 else Max (set (map (\<lambda>t. lc_number cfg (tk_state t)) ts)))"

definition top_task :: "listing_config \<Rightarrow> Task list \<Rightarrow> Task" where
  "top_task cfg ts = hd (filter (\<lambda>t. lc_number cfg (tk_state t) = top_number cfg ts) ts)"

definition summary :: "listing_config \<Rightarrow> ContextRecord list \<Rightarrow> Task list \<Rightarrow> pystr \<Rightarrow> ConversationSummary" where
  "summary cfg rows ts k = (let mine = of_context k ts in
     (case row_of k rows of
        Some r \<Rightarrow> summary_of_row r
      | None \<Rightarrow> \<lparr>cs_id = k, cs_title = lc_title cfg (hd mine), cs_created_at = [], cs_updated_at = [], cs_task_count = 0, cs_last_status = []\<rparr>)
     \<lparr>cs_task_count := length mine, cs_last_status := (if mine = [] then [] else lc_name cfg (tk_state (top_task cfg mine)))\<rparr>)"

lemma fromkeys_snoc: "fromkeys (xs @ [x]) = (if x \<in> set xs then fromkeys xs else fromkeys xs @ [x])"
proof -
  have "dedup_from seen (xs @ [x]) = (if x \<in> set xs \<union> set seen then dedup_from seen xs else dedup_from seen xs @ [x])" for seen :: "'a list"
    by (induction seen xs rule: dedup_from.induct) auto
  then show ?thesis by (simp add: fromkeys_def)
qed

lemma update_map: "distinct ks \<Longrightarrow> k \<in> set ks \<Longrightarrow> AList.update k v (map (\<lambda>j. (j, g j)) ks) = map (\<lambda>j. (j, if j = k then v else g j)) ks"
  by (induction ks) auto

lemma modify_map: "d_modify k f (map (\<lambda>j. (j, g j)) ks) = map (\<lambda>j. (j, if j = k then f (g j) else g j)) ks"
  by (simp add: d_modify_def)

lemma map_of_map_keys: "map_of (map (\<lambda>j. (j, g j)) ks) k = (if k \<in> set ks then Some (g k) else None)"
  by (induction ks) auto

lemma fst_image_pairs [simp]: "fst ` (\<lambda>k. (k, g k)) ` A = A"
  by force

lemma set_rows_listed [simp]: "set (rows_listed rows) = set rows"
  by (simp add: rows_listed_def)

lemma distinct_listed_ids: "rows_distinct rows \<Longrightarrow> distinct (listed_ids rows ts)"
proof -
  assume d: "rows_distinct rows"
  have "distinct (map cx_id (rows_listed rows)) = distinct (map cx_id rows)"
    unfolding rows_listed_def by (metis mset_eq_imp_distinct_iff mset_map mset_sort)
  then show ?thesis using d by (auto simp: listed_ids_def rows_distinct_def)
qed

lemma listed_ids_snoc: "listed_ids rows (ts @ [t]) = (if tk_context t \<in> set (listed_ids rows ts) then listed_ids rows ts else listed_ids rows ts @ [tk_context t])"
  by (auto simp: listed_ids_def fromkeys_snoc)

lemma of_context_snoc: "of_context k (ts @ [t]) = of_context k ts @ (if tk_context t = k then [t] else [])"
  by (simp add: of_context_def)

lemma not_listed: "k \<notin> set (listed_ids rows ts) \<Longrightarrow> of_context k ts = [] \<and> row_of k rows = None"
  by (auto simp: listed_ids_def of_context_def filter_empty_conv row_of_None)

lemma top_number_snoc: "top_number cfg (ts @ [t]) = max (top_number cfg ts) (lc_number cfg (tk_state t))"
  by (cases "ts = []") (simp_all add: top_number_def max.commute)

lemma top_number_simps [simp]: "top_number cfg [] = 0" "top_number cfg [t] = lc_number cfg (tk_state t)"
  by (simp_all add: top_number_def)

lemma top_task_snoc:
  assumes "ts \<noteq> []"
  shows "top_task cfg (ts @ [t]) = (if lc_number cfg (tk_state t) > top_number cfg ts then t else top_task cfg ts)"
proof (cases "lc_number cfg (tk_state t) > top_number cfg ts")
  case True
  have "lc_number cfg (tk_state x) \<le> top_number cfg ts" if "x \<in> set ts" for x
    using that assms by (simp add: top_number_def)
  then have "filter (\<lambda>x. lc_number cfg (tk_state x) = lc_number cfg (tk_state t)) ts = []" using True by (fastforce simp: filter_empty_conv)
  then show ?thesis using True by (simp add: top_task_def top_number_snoc max_def)
next
  case False
  have "top_number cfg ts \<in> set (map (\<lambda>t. lc_number cfg (tk_state t)) ts)"
    using assms Max_in [of "set (map (\<lambda>t. lc_number cfg (tk_state t)) ts)"] by (simp add: top_number_def)
  then have "filter (\<lambda>x. lc_number cfg (tk_state x) = top_number cfg ts) ts \<noteq> []" by (auto simp: filter_empty_conv)
  then show ?thesis using False by (simp add: top_task_def top_number_snoc max_def hd_append2)
qed

lemma summary_other: "tk_context t \<noteq> k \<Longrightarrow> summary cfg rows (ts @ [t]) k = summary cfg rows ts k"
  by (simp add: summary_def of_context_snoc)

lemma summary_new:
  "of_context (tk_context t) ts = [] \<Longrightarrow> row_of (tk_context t) rows = None \<Longrightarrow> summary cfg rows (ts @ [t]) (tk_context t)
     = \<lparr>cs_id = tk_context t, cs_title = lc_title cfg t, cs_created_at = [], cs_updated_at = [], cs_task_count = 1,
        cs_last_status = lc_name cfg (tk_state t)\<rparr>"
  by (simp add: summary_def of_context_snoc top_task_def top_number_def)

lemma summary_again:
  assumes "0 < lc_number cfg (tk_state t)" and "of_context (tk_context t) ts \<noteq> [] \<or> row_of (tk_context t) rows \<noteq> None"
  shows "summary cfg rows (ts @ [t]) (tk_context t) = (let s = summary cfg rows ts (tk_context t) in
    s\<lparr>cs_task_count := Suc (cs_task_count s), cs_last_status := (if lc_number cfg (tk_state t) > top_number cfg (of_context (tk_context t) ts)
       then lc_name cfg (tk_state t) else cs_last_status s)\<rparr>)"
proof (cases "of_context (tk_context t) ts = []")
  case True
  then show ?thesis using assms
    by (auto simp: summary_def of_context_snoc top_task_def top_number_def Let_def summary_of_row_def split: option.split)
next
  case False
  then show ?thesis by (simp add: summary_def of_context_snoc Let_def top_task_snoc hd_append2 split: option.split)
qed

lemma fold_count_task:
  assumes "rows_distinct rows" and pos: "\<And>st. 0 < lc_number cfg st"
  shows "fold (count_task cfg) ts (map (\<lambda>r. (cx_id r, summary_of_row r)) (rows_listed rows), map (\<lambda>r. (cx_id r, 0)) (rows_listed rows))
    = (map (\<lambda>k. (k, summary cfg rows ts k)) (listed_ids rows ts), map (\<lambda>k. (k, top_number cfg (of_context k ts))) (listed_ids rows ts))"
proof (induction ts rule: rev_induct)
  case Nil
  have "row_of (cx_id r) rows = Some r" if "r \<in> set rows" for r
    using that assms(1)
  proof (induction rows)
    case (Cons x rows)
    then show ?case by (auto simp: row_of_Cons rows_distinct_def)
  qed simp
  then have "summary_of_row r = summary cfg rows [] (cx_id r)" if "r \<in> set rows" for r
    using that by (simp add: summary_def of_context_def summary_of_row_def)
  then show ?case by (simp add: listed_ids_def fromkeys_def of_context_def top_number_def)
next
  case (snoc t ts)
  let ?k = "tk_context t"
  let ?ids = "listed_ids rows ts"
  have d: "distinct ?ids" by (rule distinct_listed_ids [OF assms(1)])
  show ?case
  proof (cases "?k \<in> set ?ids")
    case True
    have "of_context ?k ts \<noteq> [] \<or> row_of ?k rows \<noteq> None"
      using True by (auto simp: listed_ids_def of_context_def filter_empty_conv row_of_None)
    note s = summary_again [of cfg t, OF pos this]
    have "fold (count_task cfg) (ts @ [t]) (map (\<lambda>r. (cx_id r, summary_of_row r)) (rows_listed rows), map (\<lambda>r. (cx_id r, 0)) (rows_listed rows))
      = count_task cfg t (map (\<lambda>k. (k, summary cfg rows ts k)) ?ids, map (\<lambda>k. (k, top_number cfg (of_context k ts))) ?ids)"
      by (simp add: snoc)
    also have "\<dots> = (map (\<lambda>k. (k, summary cfg rows (ts @ [t]) k)) ?ids, map (\<lambda>k. (k, top_number cfg (of_context k (ts @ [t])))) ?ids)"
      using True d
      by (auto simp: count_task_def Let_def modify_map update_map map_of_map_keys summary_other s of_context_snoc top_number_snoc max_def)
    finally show ?thesis using True by (simp add: listed_ids_snoc)
  next
    case False
    note n = not_listed [OF False]
    have "fold (count_task cfg) (ts @ [t]) (map (\<lambda>r. (cx_id r, summary_of_row r)) (rows_listed rows), map (\<lambda>r. (cx_id r, 0)) (rows_listed rows))
      = (map (\<lambda>k. (k, summary cfg rows ts k)) ?ids @ [(?k, summary cfg rows (ts @ [t]) ?k)],
         map (\<lambda>k. (k, top_number cfg (of_context k ts))) ?ids @ [(?k, top_number cfg (of_context ?k (ts @ [t])))])"
      using False n
      by (simp add: snoc count_task_def Let_def update_absent map_of_map_keys map_add_def d_modify_def summary_new of_context_snoc)
    moreover have "summary cfg rows ts j = summary cfg rows (ts @ [t]) j" "of_context j ts = of_context j (ts @ [t])" if "j \<in> set ?ids" for j
      using False that by (cases "tk_context t = j"; auto simp: summary_other of_context_snoc)+
    ultimately show ?thesis using False by (simp add: listed_ids_snoc)
  qed
qed


section \<open>An example\<close>

text \<open>A conversation without a task, and one with a failed task and a newer completed one.\<close>

definition demo_listing :: listing_config where
  "demo_listing = \<lparr>lc_number = (\<lambda>st. case st of TASK_SUBMITTED \<Rightarrow> 1 | TASK_WORKING \<Rightarrow> 2 | TASK_COMPLETED \<Rightarrow> 3 | TASK_FAILED \<Rightarrow> 4
     | TASK_CANCELED \<Rightarrow> 5 | TASK_INPUT_REQUIRED \<Rightarrow> 6 | TASK_REJECTED \<Rightarrow> 7 | TASK_AUTH_REQUIRED \<Rightarrow> 8),
     lc_name = (\<lambda>st. case st of TASK_COMPLETED \<Rightarrow> py ''completed'' | TASK_FAILED \<Rightarrow> py ''failed'' | _ \<Rightarrow> py ''other''), lc_title = \<lambda>t. []\<rparr>"

definition demo_rows :: "ContextRecord list" where
  "demo_rows = snd (create_conversation [] (py ''a'') (py ''title'') [])"

definition demo_task :: "string \<Rightarrow> TaskState \<Rightarrow> Task" where
  "demo_task i st = \<lparr>tk_id = py i, tk_context = py ''b'', tk_state = st, tk_rewind = None, tk_snapshot = None, tk_events = [], tk_opener = None\<rparr>"

definition demo_tasks :: "Task list" where
  "demo_tasks = [demo_task ''t2'' TASK_COMPLETED, demo_task ''t1'' TASK_FAILED]"

lemma demo_listing_pos: "0 < lc_number demo_listing st"
  by (cases st) (simp_all add: demo_listing_def)

lemma demo_rows_distinct: "rows_distinct demo_rows"
  by (simp add: demo_rows_def create_conversation_def rows_distinct_create rows_distinct_def create_row_ids)

text \<open>The second entry says "failed", although the conversation's last task completed.\<close>

lemma demo_listing_result:
  "map (\<lambda>s. (cs_id s, cs_task_count s, cs_last_status s)) (list_conversations demo_listing demo_tasks demo_rows)
    = [(py ''a'', 0, []), (py ''b'', 2, py ''failed'')]"
  by code_simp


end
