(* ===== verification/Remote_Card.thy ===== *)
theory Remote_Card
  imports Prelude
begin

text \<open>
  How a remote agent of \<open>new_choirworks\<close> gets its client, \<open>_ensure_resolved\<close> to \<open>cleanup\<close> of
  \<open>core/a2a/agent/remote_a2a_agent.py\<close>: the card is fetched from the agent's URL and checked, a client is made from it,
  both are kept; connection pools the agent opens are its own to close.  What the agent does with the client is in
  \<open>Remote_Agent\<close>.

  \<open>urlparse\<close> is translated up to the path; the checks of a network location with brackets or characters outside
  ASCII are the parameter \<open>ce_netloc_ok\<close>.  Fetching a card, making a client and the text of an exception are parameters.
\<close>

section \<open>URLs\<close>

definition is_ascii_alpha :: "nat \<Rightarrow> bool" where
  "is_ascii_alpha c \<longleftrightarrow> (65 \<le> c \<and> c \<le> 90) \<or> (97 \<le> c \<and> c \<le> 122)"

definition is_scheme_char :: "nat \<Rightarrow> bool" where
  "is_scheme_char c \<longleftrightarrow> is_ascii_alpha c \<or> is_digit c \<or> c = 43 \<or> c = 45 \<or> c = 46"

definition ascii_lower :: "pystr \<Rightarrow> pystr" where
  "ascii_lower s = map (\<lambda>c. if 65 \<le> c \<and> c \<le> 90 then c + 32 else c) s"

definition split_scheme :: "pystr \<Rightarrow> pystr \<times> pystr" where
  "split_scheme url = (let pre = takeWhile (\<lambda>c. c \<noteq> 58) url in
     if pre \<noteq> [] \<and> length pre < length url \<and> is_ascii_alpha (hd url) \<and> list_all is_scheme_char pre
     then (ascii_lower pre, drop (Suc (length pre)) url) else ([], url))"

definition split_netloc :: "pystr \<Rightarrow> pystr \<times> pystr" where
  "split_netloc url = (if take 2 url = [47, 47]
     then (let rest = drop 2 url; n = takeWhile (\<lambda>c. c \<noteq> 47 \<and> c \<noteq> 63 \<and> c \<noteq> 35) rest in (n, drop (length n) rest)) else ([], url))"

definition uses_params :: "pystr list" where
  "uses_params = [[], py ''ftp'', py ''hdl'', py ''prospero'', py ''http'', py ''imap'', py ''https'', py ''shttp'', py ''rtsp'',
     py ''rtsps'', py ''rtspu'', py ''sip'', py ''sips'', py ''mms'', py ''sftp'', py ''tel'']"

text \<open>Everything from the first semicolon of the last segment on is parameters.\<close>

definition drop_params :: "pystr \<Rightarrow> pystr" where
  "drop_params path = (let segment = rev (takeWhile (\<lambda>c. c \<noteq> 47) (rev path))
     in take (length path - length segment) path @ takeWhile (\<lambda>c. c \<noteq> 59) segment)"

record ParsedUrl =
  pu_scheme :: pystr
  pu_netloc :: pystr
  pu_path :: pystr

definition urlparse :: "(pystr \<Rightarrow> bool) \<Rightarrow> pystr \<Rightarrow> exn + ParsedUrl" where
  "urlparse netloc_ok url0 =
     (let url = filter (\<lambda>c. c \<noteq> 9 \<and> c \<noteq> 10 \<and> c \<noteq> 13) (dropWhile (\<lambda>c. c \<le> 32) url0);
          (scheme, rest) = split_scheme url; (netloc, rest1) = split_netloc rest
      in if (91 \<in> set netloc) \<noteq> (93 \<in> set netloc) then Inl (ValueError (py ''Invalid IPv6 URL''))
         else if \<not> netloc_ok netloc then Inl (ValueError netloc)
         else let path = takeWhile (\<lambda>c. c \<noteq> 35 \<and> c \<noteq> 63) rest1
           in Inr \<lparr>pu_scheme = scheme, pu_netloc = netloc, pu_path = (if scheme \<in> set uses_params then drop_params path else path)\<rparr>)"

definition has_origin :: "ParsedUrl \<Rightarrow> bool" where
  "has_origin u \<longleftrightarrow> pu_scheme u \<noteq> [] \<and> pu_netloc u \<noteq> []"

section \<open>The agent\<close>

record RpcInterface =
  ri_binding :: pystr
  ri_url :: pystr

record RemoteCard =
  rd_description :: pystr
  rd_interfaces :: "RpcInterface list"

text \<open>A pool of connections: one the agent was given, or the \<open>i\<close>-th of its own.\<close>

datatype pool = Given | Own nat

text \<open>A client is the card it was made from and the pool it uses.  \<open>rs_opened\<close> counts own pools, \<open>rs_closed\<close> are those closed.\<close>

record resolver =
  rs_name :: pystr
  rs_url :: pystr
  rs_description :: pystr
  rs_card :: "RemoteCard option"
  rs_client :: "(RemoteCard \<times> pool) option"
  rs_resolved :: bool
  rs_http :: "pool option"
  rs_factory :: "pool option"
  rs_owned :: bool
  rs_opened :: nat
  rs_closed :: "pool list"

record card_env =
  ce_netloc_ok :: "pystr \<Rightarrow> bool"
  ce_fetch :: "pystr \<Rightarrow> pystr \<Rightarrow> exn + RemoteCard"
  ce_make :: "RemoteCard \<Rightarrow> exn option"
  ce_text :: "exn \<Rightarrow> pystr"

definition new_resolver :: "pystr \<Rightarrow> pystr \<Rightarrow> pystr \<Rightarrow> bool \<Rightarrow> resolver" where
  "new_resolver name url description given = \<lparr>rs_name = name, rs_url = url, rs_description = description, rs_card = None, rs_client = None,
     rs_resolved = False, rs_http = (if given then Some Given else None), rs_factory = None, rs_owned = False, rs_opened = 0, rs_closed = []\<rparr>"

definition get_card_rpc_url :: "RemoteCard \<Rightarrow> pystr option" where
  "get_card_rpc_url crd = (case rd_interfaces crd of
      [] \<Rightarrow> None
    | i # is \<Rightarrow> (case List.find (\<lambda>i. ri_binding i = py ''JSONRPC'') (i # is) of Some j \<Rightarrow> Some (ri_url j) | None \<Rightarrow> Some (ri_url i)))"

definition validate_agent_card :: "card_env \<Rightarrow> pystr \<Rightarrow> RemoteCard \<Rightarrow> exn + unit" where
  "validate_agent_card env name crd = (case get_card_rpc_url crd of
      None \<Rightarrow> Inl (AgentCardResolutionError (py ''Agent card '' @ name @ py '' does not have a valid RPC communication''))
    | Some [] \<Rightarrow> Inl (AgentCardResolutionError (py ''Agent card '' @ name @ py '' does not have a valid RPC communication''))
    | Some url \<Rightarrow> (case urlparse (ce_netloc_ok env) url of
        Inl e \<Rightarrow> Inl (AgentCardResolutionError (py ''Invalid RPC URL for agent card '' @ url @ py '' - error: '' @ ce_text env e))
      | Inr u \<Rightarrow> if has_origin u then Inr ()
          else Inl (AgentCardResolutionError (py ''Invalid RPC URL for agent card '' @ url @ py '' - error: Invalid URL: '' @ url))))"

definition ensure_httpx_client :: "resolver \<Rightarrow> resolver" where
  "ensure_httpx_client r =
     (let r1 = (if rs_http r = None then r\<lparr>rs_http := Some (Own (rs_opened r)), rs_opened := Suc (rs_opened r), rs_owned := True\<rparr> else r)
      in if rs_factory r1 = None then r1\<lparr>rs_factory := rs_http r1\<rparr> else r1)"

text \<open>\<open>_resolve_agent_card_from_url\<close>; the pool is opened once the URL is good.\<close>

definition resolve_card_from_url :: "card_env \<Rightarrow> resolver \<Rightarrow> (exn + RemoteCard) \<times> resolver" where
  "resolve_card_from_url env r =
     (let url = rs_url r;
          failed = (\<lambda>msg. Inl (AgentCardResolutionError (py ''Failed to resolve agent card from URL: '' @ url @ py '' - '' @ msg)))
      in case urlparse (ce_netloc_ok env) url of
          Inl e \<Rightarrow> (failed (ce_text env e), r)
        | Inr u \<Rightarrow> if has_origin u
            then (case ce_fetch env (pu_scheme u @ py ''://'' @ pu_netloc u) (pu_path u) of
                Inl e \<Rightarrow> (failed (ce_text env e), ensure_httpx_client r)
              | Inr crd \<Rightarrow> (Inr crd, ensure_httpx_client r))
            else (failed (py ''Invalid URL: '' @ url), r))"

text \<open>The body of the \<open>try\<close> of \<open>_ensure_resolved\<close> in two parts: the card, then the client.\<close>

definition ensure_card :: "card_env \<Rightarrow> resolver \<Rightarrow> (exn + RemoteCard) \<times> resolver" where
  "ensure_card env r = (case rs_card r of
      Some crd \<Rightarrow> (Inr crd, r)
    | None \<Rightarrow> (case resolve_card_from_url env r of
        (Inl e, r1) \<Rightarrow> (Inl e, r1)
      | (Inr crd, r1) \<Rightarrow> (case validate_agent_card env (rs_name r1) crd of
          Inl e \<Rightarrow> (Inl e, r1)
        | Inr _ \<Rightarrow> (Inr crd, r1\<lparr>rs_card := Some crd\<rparr>))))"

definition ensure_client :: "card_env \<Rightarrow> RemoteCard \<Rightarrow> resolver \<Rightarrow> (exn + RemoteCard \<times> pool) \<times> resolver" where
  "ensure_client env crd r = (case rs_client r of
      Some client \<Rightarrow> (Inr client, r)
    | None \<Rightarrow> (let r1 = ensure_httpx_client r in case rs_factory r1 of
        None \<Rightarrow> (Inl (AgentCardResolutionError (py ''Failed to initialize A2A client factory for agent '' @ rs_name r)), r1)
      | Some p \<Rightarrow> (case ce_make env crd of
          Some e \<Rightarrow> (Inl e, r1)
        | None \<Rightarrow> (Inr (crd, p), r1\<lparr>rs_client := Some (crd, p)\<rparr>))))"

definition ensure_resolved :: "card_env \<Rightarrow> resolver \<Rightarrow> (exn + RemoteCard \<times> pool) \<times> resolver" where
  "ensure_resolved env r =
     (let failed = (\<lambda>e. Inl (AgentCardResolutionError (py ''Failed to initialize remote A2A agent '' @ rs_name r @ py '' - '' @ ce_text env e)))
      in case (rs_resolved r, rs_client r) of
        (True, Some client) \<Rightarrow> (Inr client, r)
      | _ \<Rightarrow> (case ensure_card env r of
          (Inl e, r1) \<Rightarrow> (failed e, r1)
        | (Inr crd, r1) \<Rightarrow>
           (let r2 = (if rs_description r1 = [] \<and> rd_description crd \<noteq> [] then r1\<lparr>rs_description := rd_description crd\<rparr> else r1)
            in case ensure_client env crd r2 of
              (Inl e, r3) \<Rightarrow> (failed e, r3)
            | (Inr client, r3) \<Rightarrow> (Inr client, r3\<lparr>rs_resolved := True\<rparr>))))"

definition cleanup_resolver :: "resolver \<Rightarrow> resolver" where
  "cleanup_resolver r = (case rs_http r of
      Some p \<Rightarrow> if rs_owned r then r\<lparr>rs_closed := rs_closed r @ [p], rs_http := None\<rparr> else r
    | None \<Rightarrow> r)"

section \<open>Runs\<close>

datatype resolver_op = Ensure card_env | Cleanup

definition resolver_do :: "resolver_op \<Rightarrow> resolver \<Rightarrow> resolver" where
  "resolver_do op r = (case op of Ensure env \<Rightarrow> snd (ensure_resolved env r) | Cleanup \<Rightarrow> cleanup_resolver r)"

text \<open>Own pools are closed or the current one, the given pool is never closed, and a card that is kept was validated.\<close>

definition card_usable :: "(pystr \<Rightarrow> bool) \<Rightarrow> RemoteCard \<Rightarrow> bool" where
  "card_usable netloc_ok crd \<longleftrightarrow> (\<exists>url u. get_card_rpc_url crd = Some url \<and> url \<noteq> [] \<and> urlparse netloc_ok url = Inr u \<and> has_origin u)"

definition resolver_inv :: "(pystr \<Rightarrow> bool) \<Rightarrow> bool \<Rightarrow> resolver \<Rightarrow> bool" where
  "resolver_inv netloc_ok given r \<longleftrightarrow> (\<forall>i < rs_opened r. Own i \<in> set (rs_closed r) \<or> rs_http r = Some (Own i))
     \<and> (\<forall>p \<in> set (rs_closed r). \<exists>i < rs_opened r. p = Own i) \<and> distinct (rs_closed r)
     \<and> (\<forall>p. rs_http r = Some p \<longrightarrow> p \<notin> set (rs_closed r))
     \<and> (\<forall>i. rs_http r = Some (Own i) \<longrightarrow> i < rs_opened r \<and> rs_owned r) \<and> (given \<longrightarrow> rs_http r = Some Given \<and> rs_opened r = 0)
     \<and> (rs_http r = Some Given \<longrightarrow> \<not> rs_owned r)
     \<and> (\<forall>crd. rs_card r = Some crd \<longrightarrow> card_usable netloc_ok crd) \<and> (\<forall>crd p. rs_client r = Some (crd, p) \<longrightarrow> rs_card r = Some crd)
     \<and> (rs_resolved r \<longrightarrow> rs_client r \<noteq> None)"

lemma new_resolver_inv: "resolver_inv netloc_ok given (new_resolver name url description given)"
  by (simp add: resolver_inv_def new_resolver_def)

lemma ensure_httpx_fields:
  "rs_card (ensure_httpx_client r) = rs_card r" "rs_client (ensure_httpx_client r) = rs_client r"
  "rs_resolved (ensure_httpx_client r) = rs_resolved r" "rs_closed (ensure_httpx_client r) = rs_closed r"
  "rs_http (ensure_httpx_client r) = Some (case rs_http r of None \<Rightarrow> Own (rs_opened r) | Some p \<Rightarrow> p)"
  "rs_factory (ensure_httpx_client r) \<noteq> None"
  by (auto simp: ensure_httpx_client_def Let_def split: option.split)

lemma ensure_httpx_inv: "resolver_inv nok given r \<Longrightarrow> resolver_inv nok given (ensure_httpx_client r)"
proof (cases "rs_http r")
  case None
  assume i: "resolver_inv nok given r"
  have "Own (rs_opened r) \<notin> set (rs_closed r)" using i by (auto simp: resolver_inv_def)
  then show ?thesis using i None unfolding resolver_inv_def
    by (auto simp: ensure_httpx_client_def Let_def less_Suc_eq)
next
  case (Some p)
  assume "resolver_inv nok given r"
  then show ?thesis using Some by (auto simp: ensure_httpx_client_def Let_def resolver_inv_def)
qed

lemma validate_usable: "validate_agent_card env name crd = Inr x \<Longrightarrow> card_usable (ce_netloc_ok env) crd"
  by (auto simp: validate_agent_card_def card_usable_def split: option.splits list.splits sum.splits if_splits)

lemma ensure_card_inv:
  assumes "resolver_inv (ce_netloc_ok env) given r" and "ensure_card env r = (res, r')"
  shows "resolver_inv (ce_netloc_ok env) given r' \<and> (\<forall>crd. res = Inr crd \<longrightarrow> rs_card r' = Some crd)
    \<and> rs_client r' = rs_client r \<and> rs_resolved r' = rs_resolved r"
proof (cases "rs_card r")
  case (Some crd)
  then show ?thesis using assms by (auto simp: ensure_card_def)
next
  case None
  obtain res1 r1 where r1: "resolve_card_from_url env r = (res1, r1)" by (cases "resolve_card_from_url env r")
  have r1': "r1 = r \<or> r1 = ensure_httpx_client r"
    using r1 by (auto simp: resolve_card_from_url_def Let_def split: sum.splits if_splits)
  then have i: "resolver_inv (ce_netloc_ok env) given r1" "rs_client r1 = rs_client r" "rs_resolved r1 = rs_resolved r" "rs_card r1 = None"
    using assms(1) ensure_httpx_inv None by (auto simp: ensure_httpx_fields)
  then have c: "rs_client r = None" using None by (cases "rs_client r") (auto simp: resolver_inv_def)
  show ?thesis using assms(2) None r1 i c validate_usable [of env]
    by (auto simp: ensure_card_def resolver_inv_def split: sum.splits)
qed

lemma ensure_client_inv:
  assumes "resolver_inv nok given r" and "rs_card r = Some crd" and "ensure_client env crd r = (res, r')"
  shows "resolver_inv nok given r' \<and> rs_card r' = Some crd \<and> (\<forall>client. res = Inr client \<longrightarrow> rs_client r' = Some client \<and> fst client = crd)"
proof (cases "rs_client r")
  case (Some client)
  then show ?thesis using assms by (cases client) (auto simp: ensure_client_def resolver_inv_def)
next
  case None
  note i = ensure_httpx_inv [OF assms(1)]
  have "rs_client (ensure_httpx_client r) = None" "rs_card (ensure_httpx_client r) = Some crd" using None assms(2) by (simp_all add: ensure_httpx_fields)
  moreover have "resolver_inv nok given ((ensure_httpx_client r)\<lparr>rs_client := Some (crd, p)\<rparr>)" for p
    using i calculation by (auto simp: resolver_inv_def)
  ultimately show ?thesis using assms(3) None i by (auto simp: ensure_client_def Let_def split: option.splits)
qed

lemma resolver_inv_frame: "resolver_inv nok given (r\<lparr>rs_description := d\<rparr>) = resolver_inv nok given r"
  by (simp add: resolver_inv_def)

lemma ensure_resolved_inv:
  assumes "resolver_inv (ce_netloc_ok env) given r" and "ensure_resolved env r = (res, r')"
  shows "resolver_inv (ce_netloc_ok env) given r'
    \<and> (\<forall>crd p. res = Inr (crd, p) \<longrightarrow> card_usable (ce_netloc_ok env) crd \<and> rs_client r' = Some (crd, p) \<and> rs_resolved r')"
proof (cases "rs_resolved r \<and> rs_client r \<noteq> None")
  case True
  then show ?thesis using assms by (auto simp: ensure_resolved_def Let_def resolver_inv_def)
next
  case False
  obtain res1 r1 where r1: "ensure_card env r = (res1, r1)" by (cases "ensure_card env r")
  note i1 = ensure_card_inv [OF assms(1) r1]
  let ?failed = "\<lambda>e. Inl (AgentCardResolutionError (py ''Failed to initialize remote A2A agent '' @ rs_name r @ py '' - '' @ ce_text env e))"
  show ?thesis
  proof (cases res1)
    case (Inl e)
    have "(res, r') = (?failed e, r1)" using assms(2) False r1 Inl
      by (cases "rs_client r"; cases "rs_resolved r") (simp_all add: ensure_resolved_def Let_def)
    then show ?thesis using i1 by simp
  next
    case (Inr crd)
    define r2 where "r2 = (if rs_description r1 = [] \<and> rd_description crd \<noteq> [] then r1\<lparr>rs_description := rd_description crd\<rparr> else r1)"
    obtain res3 r3 where r3: "ensure_client env crd r2 = (res3, r3)" by (cases "ensure_client env crd r2")
    have i2: "resolver_inv (ce_netloc_ok env) given r2" "rs_card r2 = Some crd" using i1 Inr by (auto simp: r2_def resolver_inv_frame)
    note i3 = ensure_client_inv [OF i2 r3]
    have eq: "(res, r') = (case res3 of Inl e \<Rightarrow> (?failed e, r3) | Inr client \<Rightarrow> (Inr client, r3\<lparr>rs_resolved := True\<rparr>))"
      using assms(2) False r1 Inr r3
      by (cases "rs_client r"; cases "rs_resolved r") (simp_all add: ensure_resolved_def Let_def r2_def)
    show ?thesis
    proof (cases res3)
      case (Inl e)
      then show ?thesis using eq i3 by simp
    next
      case client: (Inr client)
      then have "rs_client r3 = Some client" "fst client = crd" "rs_card r3 = Some crd" using i3 by auto
      then show ?thesis using eq client i3 by (cases client) (auto simp: resolver_inv_def)
    qed
  qed
qed

lemma cleanup_inv: "resolver_inv nok False r \<Longrightarrow> resolver_inv nok False (cleanup_resolver r)"
  by (auto simp: cleanup_resolver_def resolver_inv_def split: option.splits if_splits; metis pool.exhaust)

lemma cleanup_given: "resolver_inv nok True r \<Longrightarrow> cleanup_resolver r = r"
  by (auto simp: cleanup_resolver_def resolver_inv_def)

lemma resolver_do_simps [simp]: "resolver_do (Ensure env) r = snd (ensure_resolved env r)" "resolver_do Cleanup r = cleanup_resolver r"
  by (simp_all add: resolver_do_def)

lemma resolver_run_inv:
  assumes "\<forall>op \<in> set ops. case op of Ensure env \<Rightarrow> ce_netloc_ok env = nok | Cleanup \<Rightarrow> True"
  shows "resolver_inv nok given (fold resolver_do ops (new_resolver name url description given))"
  using assms
proof (induction ops rule: rev_induct)
  case (snoc op ops)
  let ?r = "fold resolver_do ops (new_resolver name url description given)"
  have inv: "resolver_inv nok given ?r" using snoc by simp
  show ?case
  proof (cases op)
    case (Ensure env)
    then have "ce_netloc_ok env = nok" using snoc.prems by simp
    then show ?thesis using ensure_resolved_inv [of env given ?r] inv Ensure by (simp add: prod_eq_iff)
  next
    case Cleanup
    then show ?thesis using inv cleanup_inv [of nok ?r] cleanup_given [of nok ?r] by (cases given) simp_all
  qed
qed (simp add: new_resolver_inv)

text \<open>Whatever calls a remote agent has served and failed: a clean-up leaves no pool of its own open, closes each of them
  once, and never one it was given; a client is only handed out for a card with a usable RPC address, and the next call gets
  the same client without fetching anything.\<close>

theorem remote_resolution_clean:
  assumes "\<forall>op \<in> set ops. case op of Ensure env \<Rightarrow> ce_netloc_ok env = nok | Cleanup \<Rightarrow> True"
    and "r = fold resolver_do ops (new_resolver name url description given)"
  shows "set (rs_closed (cleanup_resolver r)) = Own ` {..<rs_opened r} \<and> distinct (rs_closed (cleanup_resolver r))
    \<and> (ce_netloc_ok env = nok \<and> ensure_resolved env r = (Inr client, r')
        \<longrightarrow> card_usable nok (fst client) \<and> (\<forall>env'. ensure_resolved env' r' = (Inr client, r')))"
proof (intro conjI impI)
  have inv: "resolver_inv nok given r" using resolver_run_inv [OF assms(1)] assms(2) by simp
  show "set (rs_closed (cleanup_resolver r)) = Own ` {..<rs_opened r}" "distinct (rs_closed (cleanup_resolver r))"
  proof -
    have i: "resolver_inv nok given (cleanup_resolver r)" using inv cleanup_inv cleanup_given by (cases given) auto
    have opened: "rs_opened (cleanup_resolver r) = rs_opened r" by (simp add: cleanup_resolver_def split: option.split)
    have "rs_http (cleanup_resolver r) \<noteq> Some (Own j)" for j
      using inv by (auto simp: cleanup_resolver_def resolver_inv_def split: option.splits if_splits)
    then show "set (rs_closed (cleanup_resolver r)) = Own ` {..<rs_opened r}" "distinct (rs_closed (cleanup_resolver r))"
      using i opened by (auto simp: resolver_inv_def)
  qed
  assume e: "ce_netloc_ok env = nok \<and> ensure_resolved env r = (Inr client, r')"
  then have "card_usable nok (fst client) \<and> rs_client r' = Some client \<and> rs_resolved r'"
    using ensure_resolved_inv [of env given r "Inr client" r'] inv by (cases client) auto
  then show "card_usable nok (fst client)" "\<forall>env'. ensure_resolved env' r' = (Inr client, r')"
    by (auto simp: ensure_resolved_def Let_def)
qed

section \<open>An example\<close>

definition example_env :: card_env where
  "example_env = \<lparr>ce_netloc_ok = \<lambda>n. True, ce_fetch = \<lambda>base path. Inr \<lparr>rd_description = base, rd_interfaces = [\<lparr>ri_binding = py ''JSONRPC'', ri_url = base @ path\<rparr>]\<rparr>,
     ce_make = \<lambda>crd. None, ce_text = \<lambda>e. []\<rparr>"

definition example_resolver :: resolver where
  "example_resolver = new_resolver (py ''a'') (py ''Http://h/x'') [] False"

lemma example_resolved: "case ensure_resolved example_env example_resolver of
    (Inr client, r) \<Rightarrow> snd client = Own 0 \<and> rs_description r = py ''http://h'' \<and> get_card_rpc_url (fst client) = Some (py ''http://h/x'')
  | (Inl e, r) \<Rightarrow> False"
  by (simp add: ensure_resolved_def ensure_card_def ensure_client_def resolve_card_from_url_def validate_agent_card_def ensure_httpx_client_def
      urlparse_def split_scheme_def split_netloc_def is_scheme_char_def is_ascii_alpha_def is_digit_def ascii_lower_def drop_params_def
      uses_params_def has_origin_def get_card_rpc_url_def example_env_def example_resolver_def new_resolver_def py_def Let_def)

theorem remote_resolution_clean_witness:
  "\<exists>client r. ensure_resolved example_env example_resolver = (Inr client, r) \<and> card_usable (\<lambda>n. True) (fst client)
     \<and> (\<forall>env'. ensure_resolved env' r = (Inr client, r))"
proof -
  obtain client r where e: "ensure_resolved example_env example_resolver = (Inr client, r)"
    using example_resolved
    by (cases "ensure_resolved example_env example_resolver"; cases "fst (ensure_resolved example_env example_resolver)") auto
  have n: "ce_netloc_ok example_env = (\<lambda>n. True)" by (simp add: example_env_def)
  show ?thesis using remote_resolution_clean [of "[]" "\<lambda>n. True" example_resolver "py ''a''" "py ''Http://h/x''" "[]" False example_env client r] e n
    by (auto simp: example_resolver_def)
qed

text \<open>After a clean-up the agent still hands out the client on the pool it closed.\<close>

lemma client_after_cleanup:
  assumes "rs_resolved r" and "rs_client r = Some (crd, p)" and "rs_http r = Some p" and "rs_owned r"
  shows "ensure_resolved env (cleanup_resolver r) = (Inr (crd, p), cleanup_resolver r) \<and> p \<in> set (rs_closed (cleanup_resolver r))"
  using assms by (simp add: ensure_resolved_def cleanup_resolver_def Let_def)

end
