(* ===== verification/Planner_Node.thy ===== *)
theory Planner_Node
  imports Lite_Llm Node_Life
begin

text \<open>
  The planner of the orchestrator of \<open>new_choirworks\<close>: \<open>orchestrator/planner.py\<close>, and \<open>extract_user_task\<close> and
  \<open>_apply_plan_input\<close> at its two ends.  Its node runs a language model agent on a brief of the runtime; the answer is
  validated against a schema whose agent names are those of the catalogue, and the executor applies what comes out.  The
  relation of \<open>Dag_Executor\<close> takes the plans a planner may return as a parameter; here they are what this node can output.

  Pydantic's validation of the two models is translated from their fields: a missing field without a default and a value
  of another type are errors, unknown fields are ignored.  \<open>loads\<close> reads JSON, \<open>None\<close> when the text is none.
\<close>

section \<open>The prompt\<close>

definition build_planner_instruction :: "AgentInfo list \<Rightarrow> pystr" where
  "build_planner_instruction agents =
     py ''You are the planning brain of a multi-agent orchestration platform.'' @ nl
     @ py ''You are the SOLE decision point: after every node completion you evaluate the'' @ nl
     @ py ''full context and output the complete new plan (never a diff / change list).'' @ nl @ nl
     @ py ''Available agents:'' @ nl
     @ str_join nl (map (\<lambda>a. py ''- '' @ ai_name a @ py '': '' @ ai_description a) agents) @ nl @ nl
     @ py ''Rules:'' @ nl
     @ py ''- agent_name is enum-constrained to the registered agents listed above.'' @ nl
     @ py ''- Use deps to express ordering; independent nodes run in parallel.'' @ nl
     @ py ''- Each instruction MUST be self-contained: restate everything the agent needs'' @ nl
     @ py ''  (including its slice of the user goal); agents have no conversation memory.'' @ nl
     @ py ''- Reference another node's output in an instruction as {{output:<node_id>}}.'' @ nl
     @ py ''- Keep completed nodes (same id) in the plan when their output is still needed;'' @ nl
     @ py ''  completed nodes are never re-run, their output stays available.'' @ nl
     @ py ''- Keep waiting nodes and their deps intact: a node waiting for assist results'' @ nl
     @ py ''  must continue (its next round receives the assist output).'' @ nl
     @ py ''- Do not invent node ids that already finished under a different meaning;'' @ nl
     @ py ''  reuse the same id only to keep the same task.'' @ nl
     @ py ''- Empty nodes list means the whole job is complete: nothing more to run.'' @ nl"

fun dag_status_value :: "dag_status \<Rightarrow> pystr" where
  "dag_status_value D_PENDING = py ''pending''"
| "dag_status_value D_RUNNING = py ''running''"
| "dag_status_value D_WAITING_ASSIST = py ''waiting_assist''"
| "dag_status_value D_COMPLETED = py ''completed''"
| "dag_status_value D_FAILED = py ''failed''"
| "dag_status_value D_CANCELLED = py ''cancelled''"

definition brief_node :: "DagRuntime \<Rightarrow> PlanNode \<Rightarrow> pystr" where
  "brief_node rt n =
     py ''- '' @ pn_id n @ py '' (agent='' @ pn_agent_name n
     @ py '', status='' @ (case dstatus rt (pn_id n) of None \<Rightarrow> py ''?'' | Some st \<Rightarrow> dag_status_value st)
     @ py '', deps='' @ (if pn_deps n = [] then py ''-'' else str_join (py '','') (pn_deps n))
     @ (case pn_assist_for n of None \<Rightarrow> [] | Some [] \<Rightarrow> [] | Some p \<Rightarrow> py '', assist_for='' @ p)
     @ py '')'' @ nl @ py ''  instruction: '' @ pn_instruction n"

definition brief_lines :: "DagRuntime \<Rightarrow> pystr list" where
  "brief_lines rt = [py ''## User task'' @ nl @ dr_user_task rt, nl @ py ''## Current plan'']
     @ (if dr_plan rt = [] then [py ''(empty)''] else map (brief_node rt) (dr_plan rt))
     @ [nl @ py ''## Node outputs'']
     @ (if dr_outputs rt = [] then [py ''(none)''] else map (\<lambda>(k, out). py ''['' @ k @ py '' output]'' @ nl @ out) (dr_outputs rt))"

definition build_planner_brief :: "DagRuntime \<Rightarrow> pystr" where
  "build_planner_brief rt = str_join nl (brief_lines rt)"

section \<open>The plan schema\<close>

definition str_field :: "(pystr \<times> json) list \<Rightarrow> string \<Rightarrow> pystr option" where
  "str_field d k = (case map_of d (py k) of Some (JStr s) \<Rightarrow> Some s | _ \<Rightarrow> None)"

definition strs_of_json :: "json \<Rightarrow> pystr list option" where
  "strs_of_json j = (case j of JArr xs \<Rightarrow> those (map (\<lambda>x. case x of JStr s \<Rightarrow> Some s | _ \<Rightarrow> None) xs) | _ \<Rightarrow> None)"

definition plan_node_of_json :: "json \<Rightarrow> PlanNode option" where
  "plan_node_of_json j = (case j of
      JObj d \<Rightarrow> (case (str_field d ''id'', str_field d ''name'', str_field d ''agent_name'', str_field d ''instruction'',
          case map_of d (py ''deps'') of None \<Rightarrow> Some [] | Some v \<Rightarrow> strs_of_json v,
          case map_of d (py ''assist_for'') of None \<Rightarrow> Some None | Some JNull \<Rightarrow> Some None | Some (JStr s) \<Rightarrow> Some (Some s) | _ \<Rightarrow> None) of
        (Some i, Some name, Some agent, Some instruction, Some deps, Some assist_for) \<Rightarrow>
          Some \<lparr>pn_id = i, pn_name = name, pn_agent_name = agent, pn_instruction = instruction, pn_deps = deps, pn_assist_for = assist_for\<rparr>
      | _ \<Rightarrow> None)
    | _ \<Rightarrow> None)"

text \<open>\<open>DagPlan\<close>: without nodes the plan is empty.\<close>

definition dag_plan_of_json :: "json \<Rightarrow> PlanNode list option" where
  "dag_plan_of_json j = (case j of
      JObj d \<Rightarrow> (case map_of d (py ''nodes'') of None \<Rightarrow> Some [] | Some (JArr xs) \<Rightarrow> those (map plan_node_of_json xs) | _ \<Rightarrow> None)
    | _ \<Rightarrow> None)"

text \<open>\<open>constrained_plan_schema\<close>: the nodes are required, and each names an agent of the catalogue.\<close>

definition constrained_plan :: "pystr list \<Rightarrow> json \<Rightarrow> PlanNode list option" where
  "constrained_plan names j = (case j of
      JObj d \<Rightarrow> (if map_of d (py ''nodes'') = None then None
        else (case dag_plan_of_json j of
            Some ns \<Rightarrow> if list_all (\<lambda>n. pn_agent_name n \<in> set names) ns then Some ns else None
          | None \<Rightarrow> None))
    | _ \<Rightarrow> None)"

text \<open>\<open>model_dump(exclude_none=True)\<close>.\<close>

definition plan_node_to_json :: "PlanNode \<Rightarrow> json" where
  "plan_node_to_json n = JObj ([(py ''id'', JStr (pn_id n)), (py ''name'', JStr (pn_name n)), (py ''agent_name'', JStr (pn_agent_name n)),
     (py ''instruction'', JStr (pn_instruction n)), (py ''deps'', JArr (map JStr (pn_deps n)))]
     @ (case pn_assist_for n of None \<Rightarrow> [] | Some p \<Rightarrow> [(py ''assist_for'', JStr p)]))"

definition plan_to_json :: "PlanNode list \<Rightarrow> json" where
  "plan_to_json ns = JObj [(py ''nodes'', JArr (map plan_node_to_json ns))]"

definition planner_schema :: "(pystr \<Rightarrow> json option) \<Rightarrow> pystr list \<Rightarrow> pystr \<Rightarrow> exn + json" where
  "planner_schema loads names = validate_schema (\<lambda>s. case Option.bind (loads s) (constrained_plan names) of
      None \<Rightarrow> Inl (ValueError (py ''DagPlan'')) | Some ns \<Rightarrow> Inr (plan_to_json ns))"

section \<open>The planner node\<close>

definition build_planner :: "(pystr \<Rightarrow> json option) \<Rightarrow> AgentInfo list \<Rightarrow> exn + llm_agent" where
  "build_planner loads agents = (if agents = [] then Inl (ValueError (py ''agent catalog is empty: at least one agent is required''))
     else Inr \<lparr>la_name = py ''planner'', la_tools = [], la_max_retries = 3, la_schema = Some (planner_schema loads (map ai_name agents))\<rparr>)"

text \<open>\<open>PlannerNode\<close>: the events and the output of a run that ends within \<open>calls\<close> calls of the model; an exception of the
  agent or of the validation leaves the node.\<close>

definition run_planner :: "json_codec \<Rightarrow> llm_agent \<Rightarrow> turn_ids \<Rightarrow> language_model \<Rightarrow> (nat \<Rightarrow> nat \<Rightarrow> pystr) \<Rightarrow> nat \<Rightarrow> DagRuntime
    \<Rightarrow> (exn + wf_event list \<times> json) option" where
  "run_planner codec a t llm uid calls rt =
     (case llm_loop codec a t llm uid calls 0 0 (node_history False [] (Some (build_planner_brief rt))) of
        None \<Rightarrow> None
      | Some (es, failure) \<Rightarrow> Some (ebind (process_events (la_schema a) es JNull) (\<lambda>r. case failure of None \<Rightarrow> Inr r | Some e \<Rightarrow> Inl e)))"

section \<open>Its two ends\<close>

definition extract_user_task :: "wf_event list \<Rightarrow> pystr" where
  "extract_user_task es = (case List.find (\<lambda>e. case wv_body e of MessageBody r ps \<Rightarrow> r = ROLE_USER | _ \<Rightarrow> False) (rev es) of
      Some e \<Rightarrow> extract_text e False
    | None \<Rightarrow> [])"

text \<open>\<open>_apply_plan_input\<close> up to \<open>apply_plan\<close>: the plan it applies, if any.\<close>

definition apply_plan_input :: "json \<Rightarrow> exn + PlanNode list option" where
  "apply_plan_input j = (case j of
      JObj d \<Rightarrow> if map_of d (py ''nodes'') = None then Inr None
        else (case dag_plan_of_json j of None \<Rightarrow> Inl (ValueError (py ''DagPlan'')) | Some ns \<Rightarrow> Inr (Some ns))
    | _ \<Rightarrow> Inr None)"

section \<open>What the planner can output\<close>

lemma those_map_Some: "(\<And>x. x \<in> set xs \<Longrightarrow> f x = Some (g x)) \<Longrightarrow> those (map f xs) = Some (map g xs)"
  by (induction xs) auto

lemma strs_round_trip: "strs_of_json (JArr (map JStr xs)) = Some xs"
  by (simp add: strs_of_json_def o_def) (induction xs, auto)

lemma plan_node_round_trip: "plan_node_of_json (plan_node_to_json n) = Some n"
  by (cases n) (auto simp: plan_node_of_json_def plan_node_to_json_def str_field_def strs_round_trip split: option.splits)

lemma plan_read_back: "apply_plan_input (plan_to_json ns) = Inr (Some ns)"
proof -
  have "those (map plan_node_of_json (map plan_node_to_json ns)) = Some ns"
    using those_map_Some [of ns "plan_node_of_json \<circ> plan_node_to_json" id] by (simp add: plan_node_round_trip)
  then show ?thesis by (simp add: apply_plan_input_def plan_to_json_def dag_plan_of_json_def)
qed

definition planner_output :: "pystr list \<Rightarrow> json \<Rightarrow> bool" where
  "planner_output names j \<longleftrightarrow> j = JNull \<or> (\<exists>ns. j = plan_to_json ns \<and> list_all (\<lambda>n. pn_agent_name n \<in> set names) ns)"

lemma planner_schema_output: "planner_schema loads names s = Inr v \<Longrightarrow> planner_output names v"
  by (auto simp: planner_schema_def validate_schema_def planner_output_def constrained_plan_def bind_eq_Some_conv
      split: option.splits json.splits if_splits)

lemma process_events_output:
  "process_events (Some (planner_schema loads names)) es out = Inr (es', v) \<Longrightarrow> planner_output names out \<Longrightarrow> planner_output names v"
proof (induction es arbitrary: out es')
  case (Cons e es)
  then obtain e1 out1 es1 where step: "process_output (Some (planner_schema loads names)) e out = Inr (e1, out1)"
    "process_events (Some (planner_schema loads names)) es out1 = Inr (es1, v)"
    by (auto simp: ebind_eq_Inr)
  have "planner_output names JNull" by (simp add: planner_output_def)
  then have "planner_output names out1" using step(1) Cons.prems(2) planner_schema_output
    by (auto simp: process_output_def Let_def ebind_eq_Inr split: if_splits)
  then show ?case using Cons.IH [OF step(2)] by simp
qed simp

text \<open>C34: whatever the language model answers, what the planner's node hands to the executor is no plan, or a plan the
  executor reads without error and in which every node names a registered agent: the assumption the runtime's invariant
  makes about the planner's answers.\<close>

theorem planner_plans_conform:
  assumes "build_planner loads (d_values (dr_agents rt)) = Inr a" and "\<forall>(k, i) \<in> set (dr_agents rt). ai_name i = k"
    and "run_planner codec a t llm uid calls rt = Some (Inr (es, v))"
  shows "apply_plan_input v = Inr None \<or> (\<exists>plan. apply_plan_input v = Inr (Some plan) \<and> plan_conforms rt plan)"
proof -
  let ?names = "map ai_name (d_values (dr_agents rt))"
  have "la_schema a = Some (planner_schema loads ?names)" using assms(1) by (auto simp: build_planner_def split: if_splits)
  then obtain es0 es1 where "process_events (Some (planner_schema loads ?names)) es0 JNull = Inr (es1, v)"
    using assms(3) by (auto simp: run_planner_def ebind_eq_Inr split: option.splits)
  then have out: "planner_output ?names v" by (rule process_events_output) (simp add: planner_output_def)
  have "set ?names \<subseteq> set (d_keys (dr_agents rt))" using assms(2) by force
  then show ?thesis
  proof (cases "v = JNull")
    case False
    then obtain ns where ns: "v = plan_to_json ns" "list_all (\<lambda>n. pn_agent_name n \<in> set ?names) ns" using out by (auto simp: planner_output_def)
    have "apply_plan_input v = Inr (Some ns)" using plan_read_back ns(1) by simp
    moreover have "plan_conforms rt ns" using ns(2) \<open>set ?names \<subseteq> set (d_keys (dr_agents rt))\<close>
      unfolding plan_conforms_def list_all_iff by blast
    ultimately show ?thesis by blast
  qed (simp add: apply_plan_input_def)
qed

section \<open>An example\<close>

text \<open>A model that answers with a plan of one node; the text stands for the plan it parses to.\<close>

definition demo_plan_json :: json where
  "demo_plan_json = JObj [(py ''nodes'', JArr [JObj [(py ''id'', JStr (py ''a'')), (py ''name'', JStr (py ''A'')),
     (py ''agent_name'', JStr (py ''writer'')), (py ''instruction'', JStr (py ''w''))]])]"

definition demo_loads :: "pystr \<Rightarrow> json option" where
  "demo_loads s = (if s = [112] then Some demo_plan_json else None)"

definition demo_planner_llm :: language_model where
  "demo_planner_llm i messages = [\<lparr>lr_parts = Some [text_response_part False [112]], lr_error_code = None, lr_error_message = None\<rparr>]"

definition demo_planner :: llm_agent where
  "demo_planner = \<lparr>la_name = py ''planner'', la_tools = [], la_max_retries = 3, la_schema = Some (planner_schema demo_loads (map ai_name (d_values demo_agents)))\<rparr>"

definition demo_planning :: "(exn + wf_event list \<times> json) option" where
  "demo_planning = run_planner \<lparr>jc_str = (\<lambda>_. []), jc_dumps = (\<lambda>_. [])\<rparr> demo_planner \<lparr>ti_task = [], ti_context = []\<rparr> demo_planner_llm
     (\<lambda>i j. [i, j]) 1 (new_runtime demo_agents (py ''goal''))"

definition demo_plan_nodes :: "PlanNode list" where
  "demo_plan_nodes = [\<lparr>pn_id = py ''a'', pn_name = py ''A'', pn_agent_name = py ''writer'', pn_instruction = py ''w'', pn_deps = [], pn_assist_for = None\<rparr>]"

lemma demo_schema: "planner_schema demo_loads (map ai_name (d_values demo_agents)) [112] = Inr (plan_to_json demo_plan_nodes)"
proof -
  have "strip_json_code_fence [112] = [112]" by (simp add: strip_json_code_fence_def str_strip_def is_space_def Let_def code_fence_def py_def)
  moreover have "constrained_plan (map ai_name (d_values demo_agents)) demo_plan_json = Some demo_plan_nodes"
    by (simp add: constrained_plan_def dag_plan_of_json_def plan_node_of_json_def str_field_def demo_plan_json_def demo_agents_def demo_plan_nodes_def)
  ultimately show ?thesis by (simp add: planner_schema_def validate_schema_def demo_loads_def)
qed

lemma demo_call_result: "model_call demo_planner t uid rc (demo_planner_llm 0 ms)
    = ([to_a2a_artifact t [text_response_part False [112]] (uid 0) False False, to_a2a_artifact t [text_response_part False [112]] (uid 0) False True], Stop)"
proof -
  have "schema_check demo_planner \<lparr>cs_thoughts = [], cs_texts = [[112]], cs_calls = [], cs_error = []\<rparr> = None"
    using demo_schema by (simp add: schema_check_def demo_planner_def)
  then show ?thesis
    by (simp add: model_call_def stream_call_def demo_planner_llm_def stream_response_step_def take_part_def empty_call_def close_call_def
        text_response_part_def)
qed

lemma demo_contents: "get_contents c (py ''planner'') None None None (node_history False [] (Some s)) = Inr (if s = [] then [] else [Chat_user s])"
  by (simp add: get_contents_def node_history_def is_visible_def contents_of_def user_message_def text_part_def event_messages_def
      is_other_agent_reply_def set_meta_def meta_defs Let_def)

lemma demo_planning_result: "\<exists>es. demo_planning = Some (Inr (es, plan_to_json demo_plan_nodes))"
proof -
  let ?a = "\<lambda>last. to_a2a_artifact \<lparr>ti_task = [], ti_context = []\<rparr> [text_response_part False [112]] [0, 0] False last"
  have a: "la_name demo_planner = py ''planner''" "la_schema demo_planner = Some (planner_schema demo_loads (map ai_name (d_values demo_agents)))"
    by (simp_all add: demo_planner_def)
  have out: "process_output (la_schema demo_planner) (?a False) JNull = Inr (?a False, JNull)"
    "process_output (la_schema demo_planner) (?a True) JNull = Inr (set_output (JStr [112]) (?a True), plan_to_json demo_plan_nodes)"
    using demo_schema unfolding a
    by (simp_all add: process_output_def to_a2a_artifact_def is_final_artifact_def has_function_calls_def event_content_parts_def part_to_a2a_def
        text_response_part_def extract_text_def part_kinds is_thought_part_def str_strip_def is_space_def Let_def py_def)
  show ?thesis using out by (simp add: demo_planning_def run_planner_def a(1) demo_contents demo_call_result)
qed

theorem planner_plans_conform_witness:
  "\<exists>es v plan. demo_planning = Some (Inr (es, v)) \<and> apply_plan_input v = Inr (Some plan) \<and> plan_conforms (new_runtime demo_agents (py ''goal'')) plan"
proof -
  let ?rt = "new_runtime demo_agents (py ''goal'')"
  obtain es where es: "demo_planning = Some (Inr (es, plan_to_json demo_plan_nodes))" using demo_planning_result by blast
  have "build_planner demo_loads (d_values (dr_agents ?rt)) = Inr demo_planner" "\<forall>(k, i) \<in> set (dr_agents ?rt). ai_name i = k"
    by (simp_all add: build_planner_def demo_planner_def new_runtime_def demo_agents_def)
  from planner_plans_conform [OF this es [unfolded demo_planning_def]] show ?thesis using es plan_read_back by auto
qed

end
