(* ===== verification/Sim_Llm.thy ===== *)
theory Sim_Llm
  imports Llm_Stream Plan_Check Node_Path
begin

text \<open>
  The offline language model of the simulation, \<open>sim/litellm_mock.py\<close>: it reads the prompt with three regular
  expressions, makes a plan or a decision by keyword, and streams it as reasoning and fragments of a tool call.  The
  lazy groups of the patterns end at the first of their terminators, which is how they are written here;
  \<open>CustomStreamWrapper\<close> of litellm, which the chunks pass through, is the parameter \<open>wrap\<close>,
    and the two JSON printers
  (pydantic's, and \<open>json.dumps\<close>) are parameters.
\<close>

section \<open>Reading the prompt\<close>

fun find_sub :: "pystr \<Rightarrow> pystr \<Rightarrow> (pystr \<times> pystr) option" where
  "find_sub k [] = (if k = [] then Some ([], []) else None)"
| "find_sub k (c # cs) = (if prefix k (c # cs) then Some ([], drop (length k) (c # cs))
     else map_option (\<lambda>(b, a). (c # b, a)) (find_sub k cs))"

definition has_sub :: "pystr \<Rightarrow> pystr \<Rightarrow> bool" where
  "has_sub s k \<longleftrightarrow> find_sub k s \<noteq> None"

text \<open>\<open>(.*?)(?:k1|k2|\Z)\<close>, and \<open>\S+\<close>.\<close>

fun until :: "pystr list \<Rightarrow> pystr \<Rightarrow> pystr" where
  "until ks [] = []"
| "until ks (c # cs) = (if list_ex (\<lambda>k. prefix k (c # cs)) ks then [] else c # until ks cs)"

definition word_run :: "pystr \<Rightarrow> pystr" where
  "word_run = takeWhile (\<lambda>c. \<not> is_space c)"

definition CONTEXT_MARK :: pystr where "CONTEXT_MARK = nl @ nl @ py ''For context:''"

definition REQUEST_PATTERN :: "pystr \<Rightarrow> pystr option" where
  "REQUEST_PATTERN user = map_option (\<lambda>(_, rest). until [CONTEXT_MARK, nl @ nl @ py ''Available agents:''] rest)
     (find_sub (py ''User request:'' @ nl) user)"

text \<open>\<open>^- (\S+):\<close> on one line: the greedy group reaches to the last colon of the run.\<close>

definition AGENT_PATTERN :: "pystr \<Rightarrow> pystr option" where
  "AGENT_PATTERN line = (if \<not> prefix (py ''- '') line then None
     else let run = word_run (drop 2 line); n = rev (tl (dropWhile (\<lambda>c. c \<noteq> 58) (rev run)))
     in if n = [] then None else Some n)"

definition QUESTION_MARK :: pystr where "QUESTION_MARK = nl @ py ''Question / blocked work:'' @ nl"

fun WORKER_PATTERN :: "pystr \<Rightarrow> (pystr \<times> pystr) option" where
  "WORKER_PATTERN [] = None"
| "WORKER_PATTERN (c # cs) =
     (let after = drop 11 (c # cs); run = word_run after in
      if prefix (py ''Requester: '') (c # cs) \<and> run \<noteq> [] \<and> prefix QUESTION_MARK (drop (length run) after)
      then Some (run, until [CONTEXT_MARK] (drop (length QUESTION_MARK) (drop (length run) after)))
      else WORKER_PATTERN cs)"

definition PEER_ROUTES :: "(pystr, pystr list) dict" where
  "PEER_ROUTES = [(py ''developer'', [py ''product-manager'']), (py ''product-manager'', [py ''qa-engineer''])]"

definition HUMAN_AGENTS :: "pystr list" where "HUMAN_AGENTS = [py ''code-reviewer'']"
definition FLAKY_AGENTS :: "pystr list" where "FLAKY_AGENTS = [py ''auditor'']"

definition sim_task :: pystr where "sim_task = [20219, 21153]"

definition sim_request :: "pystr \<Rightarrow> pystr" where
  "sim_request user = (let t = str_strip (case REQUEST_PATTERN user of Some g \<Rightarrow> g | None \<Rightarrow> until [nl @ nl] user)
     in if t = [] then sim_task else t)"

definition registered_in :: "pystr \<Rightarrow> pystr list" where
  "registered_in user = fromkeys (List.map_filter AGENT_PATTERN (str_split 10 user))"

section \<open>Plans\<close>

definition sim_node :: "string \<Rightarrow> string \<Rightarrow> pystr \<Rightarrow> string list \<Rightarrow> PlanNodeDraft" where
  "sim_node i agent txt deps = \<lparr>pd_id = py i, pd_name = py agent, pd_agent_name = py agent, pd_input = [(py ''text'', txt)],
     pd_deps = map py deps\<rparr>"

definition any_in :: "pystr list \<Rightarrow> pystr \<Rightarrow> bool" where
  "any_in ks s = list_ex (has_sub s) ks"

text \<open>The draft for a request, \<open>replanning\<close> when the prompt gives a reason for replanning.\<close>

definition sim_draft :: "bool \<Rightarrow> pystr \<Rightarrow> PlanNodeDraft list" where
  "sim_draft replanning r =
    (if replanning then [sim_node ''n1'' ''developer'' r []]
     else if any_in [[37325, 35797], [20598, 21457]] r
     then [sim_node ''n1'' ''approval-manager'' r [],
           sim_node ''n2'' ''finance-analyst'' ([26681, 25454, 23457, 25209, 32467, 26524, 29983, 25104, 25253, 21578, 65306]
             @ r) [''n1'']]
     else if any_in [[22833, 36133], [38477, 32423], [26367, 25442]] r
     then [sim_node ''n1'' ''auditor'' r [],
           sim_node ''n2'' ''finance-analyst'' ([26681, 25454, 23457, 35745, 32467, 26524, 29983, 25104, 25253, 21578, 65306]
             @ r) [''n1'']]
     else if any_in [[23457, 35745], [21512, 35268], [39118, 38505]] r
     then [sim_node ''n1'' ''finance-analyst'' r [],
           sim_node ''n2'' ''auditor'' ([35831, 23457, 35745, 19978, 19968, 27493, 30340, 36130, 21153, 25968, 25454, 65306]
             @ r) [''n1'']]
     else if any_in [[23457, 25209], [25253, 38144], [37319, 36141]] r
     then [sim_node ''n1'' ''finance-analyst'' r []]
     else if any_in [[35780, 23457], [23457, 26597], [30830, 35748]] r
     then [sim_node ''n1'' ''developer'' r [],
           sim_node ''n2'' ''code-reviewer'' ([35831, 23457, 26597, 19978, 19968, 27493, 30340, 20195, 30721, 65306] @ r) [''n1'']]
     else if any_in [[21327, 20316], [21327, 35843], [37197, 21512]] r
     then [sim_node ''n1'' ''product-manager'' r [], sim_node ''n2'' ''developer'' r []]
     else [sim_node ''n1'' ''product-manager'' r [],
           sim_node ''n2'' ''developer'' ([22522, 20110, 38656, 27714, 20998, 26512, 32467, 26524, 36827, 34892, 24320, 21457, 65306]
             @ r) [''n1'']])"

definition plan_line :: "PlanNodeDraft \<Rightarrow> pystr" where
  "plan_line n = (py ''  '' @ [8226] @ py '' '') @ pd_id n @ (py '' '' @ [8594] @ py '' @'') @ pd_agent_name n @ (py '' '' @ [25191,
    34892, 12300]) @ pd_name n @ [12301]
     @ (if pd_deps n = [] then [] else ([65288, 20381, 36182] @ py '' '') @ str_join (py '', '') (pd_deps n) @ [65289])"

definition make_plan :: "pystr \<Rightarrow> pystr \<times> PlanNodeDraft list" where
  "make_plan user = (let r = sim_request user; agents = sort (registered_in user);
       agents_text = (if agents = [] then (py ''('' @ [26080] @ py '')'') else str_join (py '', '') agents)
     in if r \<in> set [[20320, 22909], py ''hello'', py ''hi'', [21992], [22312, 21527]]
        then ([29992, 25143, 21482, 26159, 25171, 20102, 20010, 25307, 21628, 65292, 30452, 25509, 22238, 22797, 21363, 21487, 12290], [])
        else let draft = sim_draft (has_sub user (py ''Reason for replanning:'')) r
        in (str_join nl ([[25910, 21040, 35831, 27714, 65306, 12300] @ r @ [12301], ([24050, 27880, 20876, 30340] @ py '' agent ''
          @ [26377, 65306]) @ agents_text,
              [20998, 26512, 38656, 27714, 21518, 65292, 21046, 23450, 20197, 19979, 35745, 21010, 65306]] @ map plan_line draft),
                draft))"

section \<open>Decisions\<close>

definition peer_decision :: "pystr \<Rightarrow> pystr \<Rightarrow> json" where
  "peer_decision n question = JObj [(py ''target_agent'', JStr n), (py ''instruction'', JStr ([35831, 34917, 20805, 20449, 24687,
    65306] @ question))]"

definition human_decision :: "string \<Rightarrow> json" where
  "human_decision question_type = JObj [(py ''target_agent'', JStr (py ''human'')), (py ''instruction'', JStr []),
     (py ''question_type'', JStr (py question_type)), (py ''options'', JArr []), (py ''multi'', JBool False)]"

definition peers_of :: "pystr \<Rightarrow> pystr list" where
  "peers_of asking = (case map_of PEER_ROUTES asking of Some ps \<Rightarrow> ps
     | None \<Rightarrow> [py ''product-manager'', py ''developer'', py ''qa-engineer''])"

definition make_assistance_decision :: "pystr \<Rightarrow> pystr \<times> json" where
  "make_assistance_decision user = (let agents = registered_in user;
       nobody = (([26080, 21487, 29992] @ py '' peer agent'' @ [65292, 36716, 20154, 24037, 22788, 29702, 12290]),
         human_decision ''input'')
     in case WORKER_PATTERN user of
          None \<Rightarrow> nobody
        | Some (asking, q) \<Rightarrow> (let question = str_strip q in
            if asking \<in> set HUMAN_AGENTS
            then (py ''Agent '' @ asking @ (py '' '' @ [30340, 27714, 21161, 38656, 35201, 20154, 24037, 20171, 20837, 12290]),
              human_decision ''confirm'')
            else case List.find (\<lambda>n. n \<in> set agents \<and> n \<noteq> asking) (peers_of asking) of
                Some n \<Rightarrow> (py ''Agent '' @ asking @ (py '' '' @ [25552, 20986, 20102, 38382, 39064, 65292, 26368, 36866,
                  21512, 22238, 31572, 30340, 26159] @ py '' @'') @ n @ [12290], peer_decision n question)
              | None \<Rightarrow> (case sort (filter (\<lambda>n. n \<notin> set FLAKY_AGENTS \<and> n \<noteq> asking) agents) of
                  n # _ \<Rightarrow> (py ''Agent '' @ asking @ (py '' '' @ [25552, 20986, 20102, 38382, 39064, 65292, 23433, 25490]
                    @ py '' @'') @ n @ (py '' '' @ [22238, 31572, 12290]), peer_decision n question)
                | [] \<Rightarrow> nobody)))"

definition make_outcome_decision :: "pystr \<times> json" where
  "make_outcome_decision = ([20135, 20986, 20026, 20132, 20184, 20869, 23481, 12290], JObj [(py ''intent'', JStr (py ''deliver'')),
    (py ''question'', JStr [])])"

section \<open>Streaming\<close>

text \<open>\<open>[s[i:i + n] for i in range(0, len(s), n)]\<close>; with a step of 0 \<open>range\<close> raises,
  which no caller reaches.\<close>

function pieces :: "nat \<Rightarrow> pystr \<Rightarrow> pystr list" where
  "pieces n s = (if s = [] \<or> n = 0 then [] else take n s # pieces n (drop n s))"
  by pat_completeness auto

termination by (relation "measure (\<lambda>(n, s). length s)") auto

declare pieces.simps [simp del]

definition sim_delta :: "pystr \<Rightarrow> delta_call option list \<Rightarrow> stream_chunk" where
  "sim_delta reasoning calls = [Some \<lparr>dl_reasoning = reasoning, dl_content = [], dl_calls = calls\<rparr>]"

fun call_chunks :: "pystr \<Rightarrow> bool \<Rightarrow> pystr list \<Rightarrow> stream_chunk list" where
  "call_chunks tool first [] = []"
| "call_chunks tool first (p # ps) = sim_delta [] [Some \<lparr>dc_index = 0, dc_id = (if first then py ''call_1'' else []),
     dc_name = (if first then tool else []), dc_arguments = p\<rparr>] # call_chunks tool False ps"

definition stream_structured_response :: "pystr \<Rightarrow> pystr \<Rightarrow> pystr \<Rightarrow> nat \<Rightarrow> stream_chunk list" where
  "stream_structured_response reasoning arguments tool n =
     map (\<lambda>p. sim_delta p []) (pieces n reasoning) @ call_chunks tool True (pieces n arguments) @ [sim_delta [] []]"

definition user_texts :: "sent_message list \<Rightarrow> pystr list" where
  "user_texts ms = List.map_filter (\<lambda>m. case m of Sent (UserMessage t) \<Rightarrow> Some t | _ \<Rightarrow> None) ms"

text \<open>\<open>tools[0]["function"]["name"]\<close>, empty without tools; \<open>None\<close> when an entry is missing.\<close>

definition sim_tool_name :: "json list option \<Rightarrow> pystr option" where
  "sim_tool_name tools = (case tools of
      Some (JObj d # _) \<Rightarrow> (case map_of d (py ''function'') of
          Some (JObj f) \<Rightarrow> (case map_of f (py ''name'') of Some (JStr n) \<Rightarrow> Some n | _ \<Rightarrow> None)
        | _ \<Rightarrow> None)
    | Some (_ # _) \<Rightarrow> None
    | _ \<Rightarrow> Some [])"

text \<open>The reasoning and the arguments for a tool.\<close>

definition sim_answer :: "(PlanNodeDraft list \<Rightarrow> pystr) \<Rightarrow> (json \<Rightarrow> pystr) \<Rightarrow> sent_message list \<Rightarrow> pystr \<Rightarrow> pystr \<times> pystr" where
  "sim_answer dump_plan dumps ms tool = (let texts = user_texts ms in
     if tool = py ''create_plan'' then apsnd dump_plan (make_plan (str_join (nl @ nl) texts))
     else if tool = py ''OutcomeDecision'' then apsnd dumps make_outcome_decision
     else if tool = py ''AssistanceDecision'' then apsnd dumps (make_assistance_decision (if texts = [] then [] else last texts))
     else ([24050, 25910, 21040, 20320, 30340, 38382, 39064, 65292, 36825, 37324, 32473, 20986, 31034, 20363, 22238, 31572, 12290], []))"

definition sim_acompletion :: "(stream_chunk list \<Rightarrow> stream_chunk list) \<Rightarrow> (PlanNodeDraft list \<Rightarrow> pystr) \<Rightarrow> (json \<Rightarrow> pystr)
    \<Rightarrow> llm_request \<Rightarrow> completion" where
  "sim_acompletion wrap dump_plan dumps r =
     (if rq_stream r then (case sim_tool_name (rq_tools r) of
          None \<Rightarrow> CompletionRaised (FailOther (py ''KeyError''))
        | Some tool \<Rightarrow> (let (reasoning, arguments) = sim_answer dump_plan dumps (rq_messages r) tool
            in Streamed (wrap (stream_structured_response reasoning arguments tool 12)) None))
      else Completed ([24050, 25910, 21040, 20320, 30340, 38382, 39064, 65292, 36825, 37324, 32473, 20986, 31034, 20363, 22238, 31572,
        12290]))"

section \<open>The stream is read back\<close>

lemma pieces_step: "s \<noteq> [] \<Longrightarrow> 0 < n \<Longrightarrow> pieces n s = take n s # pieces n (drop n s)"
  by (subst pieces.simps) simp

lemma pieces_Nil [simp]: "pieces n [] = []"
  by (subst pieces.simps) simp

lemma pieces_eq_Nil_iff: "0 < n \<Longrightarrow> pieces n s = [] \<longleftrightarrow> s = []"
  by (subst pieces.simps) simp

lemma concat_pieces: "0 < n \<Longrightarrow> concat (pieces n s) = s"
proof (induction n s rule: pieces.induct)
  case (1 n s)
  then show ?case by (cases "s = []") (simp_all add: pieces_step)
qed

lemma pieces_bounds: "p \<in> set (pieces n s) \<Longrightarrow> p \<noteq> [] \<and> length p \<le> n"
proof (induction n s rule: pieces.induct)
  case (1 n s)
  then have "s \<noteq> []" "0 < n" by (auto simp: pieces.simps [of n s] split: if_splits)
  then show ?case using 1 by (auto simp: pieces_step)
qed

lemma delta_calls_append [simp]: "delta_calls (ds @ es) = delta_calls ds @ delta_calls es"
  by (simp add: delta_calls_def)

lemma stream_deltas_append [simp]: "stream_deltas (xs @ ys) = stream_deltas xs @ stream_deltas ys"
  by (simp add: stream_deltas_def List.map_filter_def)

lemma stream_deltas_sim [simp]:
  "stream_deltas (sim_delta r cs # chs) = \<lparr>dl_reasoning = r, dl_content = [], dl_calls = cs\<rparr> # stream_deltas chs"
  "stream_deltas [] = []"
  by (simp_all add: stream_deltas_def sim_delta_def chunk_delta_def map_filter_simps)

lemma delta_calls_Cons [simp]: "delta_calls (d # ds) = List.map_filter (\<lambda>x. x) (dl_calls d) @ delta_calls ds" "delta_calls [] = []"
  by (simp_all add: delta_calls_def)

lemma reasoning_deltas:
  "stream_deltas (map (\<lambda>p. sim_delta p []) ps) = map (\<lambda>p. \<lparr>dl_reasoning = p, dl_content = [], dl_calls = []\<rparr>) ps"
  by (induction ps) simp_all

lemma reasoning_only: "delta_calls (map (\<lambda>p. \<lparr>dl_reasoning = p, dl_content = [], dl_calls = []\<rparr>) ps) = []"
  by (induction ps) (simp_all add: map_filter_simps)

lemma call_chunks_calls:
  "delta_calls (stream_deltas (call_chunks tool first ps)) = (case ps of [] \<Rightarrow> []
    | p # qs \<Rightarrow> \<lparr>dc_index = 0, dc_id = if first then py ''call_1'' else [], dc_name = if first then tool else [], dc_arguments = p\<rparr>
        # map (\<lambda>q. \<lparr>dc_index = 0, dc_id = [], dc_name = [], dc_arguments = q\<rparr>) qs)"
  by (induction ps arbitrary: first) (simp_all add: map_filter_simps split: list.split)

lemma call_chunks_silent: "d \<in> set (stream_deltas (call_chunks tool first ps)) \<Longrightarrow> dl_reasoning d = [] \<and> dl_content d = []"
  by (induction ps arbitrary: first) auto

text \<open>The calls of a response: the fragments of one call whose first one carries the name and the id.\<close>

lemma response_calls:
  assumes "arguments \<noteq> []" and "0 < n"
  shows "\<exists>qs. delta_calls (stream_deltas (stream_structured_response reasoning arguments tool n))
      = \<lparr>dc_index = 0, dc_id = py ''call_1'', dc_name = tool, dc_arguments = take n arguments\<rparr>
        # map (\<lambda>q. \<lparr>dc_index = 0, dc_id = [], dc_name = [], dc_arguments = q\<rparr>) qs
    \<and> take n arguments @ concat qs = arguments"
proof -
  have "take n arguments @ concat (pieces n (drop n arguments)) = arguments" using assms by (simp add: concat_pieces)
  then show ?thesis
    using assms by (intro exI [of _ "pieces n (drop n arguments)"])
      (simp add: stream_structured_response_def reasoning_deltas reasoning_only call_chunks_calls pieces_step map_filter_simps split: list.split)
qed

lemma last_given_rest: "last_given (x # map (\<lambda>_. []) qs) = x"
proof -
  have "foldl (\<lambda>acc n. if n \<noteq> [] then n else acc) y (map (\<lambda>_. []) qs) = y" for y :: pystr
    by (induction qs) simp_all
  from this [of x] this [of "[]"] show ?thesis by (auto simp: last_given_def)
qed

lemma response_spec_call:
  assumes "arguments \<noteq> []" and "0 < n" and "lt_name tool \<noteq> []" and "lt_validate tool arguments = Inr a"
  shows "spec_call [tool] fresh (delta_calls (stream_deltas (stream_structured_response reasoning arguments (lt_name tool) n)))
    = Inr (Some \<lparr>tc_function = tool, tc_args = a, tc_call_id = py ''call_1''\<rparr>)"
proof -
  obtain qs where calls: "delta_calls (stream_deltas (stream_structured_response reasoning arguments (lt_name tool) n))
      = \<lparr>dc_index = 0, dc_id = py ''call_1'', dc_name = lt_name tool, dc_arguments = take n arguments\<rparr>
        # map (\<lambda>q. \<lparr>dc_index = 0, dc_id = [], dc_name = [], dc_arguments = q\<rparr>) qs"
    and whole: "take n arguments @ concat qs = arguments"
    using response_calls [OF assms(1,2)] by blast
  show ?thesis using assms(3,4) whole
    by (auto simp: spec_call_def calls Let_def o_def last_given_rest find_tool_def)
qed

lemma response_reasoning:
  assumes "0 < n"
  shows "concat (map dl_reasoning (stream_deltas (stream_structured_response reasoning arguments tool n))) = reasoning"
proof -
  have "concat (map dl_reasoning (stream_deltas (call_chunks tool True ps))) = []" for ps
    using call_chunks_silent by fastforce
  then show ?thesis using assms by (simp add: stream_structured_response_def reasoning_deltas o_def concat_pieces)
qed

section \<open>The simulated model behind the client\<close>

text \<open>What litellm's wrapper promises: the reasoning and the calls of the chunks come out as they went in.\<close>

definition forwards :: "(stream_chunk list \<Rightarrow> stream_chunk list) \<Rightarrow> bool" where
  "forwards wrap \<longleftrightarrow> (\<forall>chs. delta_calls (stream_deltas (wrap chs)) = delta_calls (stream_deltas chs)
     \<and> concat (map dl_reasoning (stream_deltas (wrap chs))) = concat (map dl_reasoning (stream_deltas chs)))"

lemma sim_tool_declared: "sim_tool_name (Some [tool_declaration tool]) = Some (lt_name tool)"
  by (simp add: sim_tool_name_def tool_declaration_def)

text \<open>The client reads the simulated model's answer back: for a tool it is asked to call, whatever the prompt, the client
  passes on the reasoning the simulation chose and yields exactly one call of that tool with the arguments it chose.\<close>

theorem sim_answer_read_back:
  assumes "forwards wrap" and "lc_completion_fn cl = sim_acompletion wrap dump_plan dumps" and "lt_name tool \<noteq> []"
    and "sim_answer dump_plan dumps (SystemMessage system # map Sent ms) (lt_name tool) = (reasoning, arguments)"
    and "arguments \<noteq> []" and "lt_validate tool arguments = Inr a"
  shows "\<exists>ds. llm_stream cl system user (Some ms) [tool] True choice fresh
      = (map YieldDelta ds @ [YieldCall \<lparr>tc_function = tool, tc_args = a, tc_call_id = py ''call_1''\<rparr>], None)
    \<and> concat (map dl_reasoning ds) = reasoning"
proof -
  let ?chs = "stream_structured_response reasoning arguments (lt_name tool) 12"
  have answer: "lc_completion_fn cl (stream_request cl system user (Some ms) [tool] choice) = Streamed (wrap ?chs) None"
    by (simp add: assms(2,4) sim_acompletion_def stream_request_def sim_tool_declared)
  have "spec_call [tool] fresh (delta_calls (stream_deltas (wrap ?chs)))
      = Inr (Some \<lparr>tc_function = tool, tc_args = a, tc_call_id = py ''call_1''\<rparr>)"
    using assms(1) response_spec_call [OF assms(5) _ assms(3,6), of 12] by (simp add: forwards_def)
  moreover have "concat (map dl_reasoning (stream_deltas (wrap ?chs))) = reasoning"
    using assms(1) response_reasoning [of 12 reasoning] by (simp add: forwards_def)
  ultimately show ?thesis
    by (intro exI [of _ "stream_deltas (wrap ?chs)"]) (simp add: llm_stream_def answer finish_stream_spec)
qed

section \<open>What the simulation decides\<close>

lemma sim_request_given: "sim_request user \<noteq> []"
  by (simp add: sim_request_def Let_def sim_task_def)

definition SIM_AGENTS :: "(pystr \<times> pystr) list" where
  "SIM_AGENTS = [(py ''product-manager'', py ''collaborate''), (py ''developer'', py ''inquire''), (py ''code-reviewer'', py ''review''),
     (py ''qa-engineer'', py ''assist''), (py ''finance-analyst'', py ''echo''), (py ''approval-manager'', py ''flaky_once''),
     (py ''auditor'', py ''flaky_always'')]"

lemma small_graphs_acyclic:
  "acyclic (dep_edges [])" "acyclic (dep_edges [(i, [])])" "acyclic (dep_edges [(i, []), (j, [])])"
  "i \<noteq> j \<Longrightarrow> acyclic (dep_edges [(i, []), (j, [i])])"
  by (rule acyclic_edges_if_ranked [where f = "\<lambda>k. if k = j then 1 else 0"]; auto simp: dep_edges_def)+

lemma sim_draft_valid: "validate_plan (sim_draft b r) 2 = Inr ()"
  by (simp add: validate_plan_def validate_dep_graph_iff sim_draft_def sim_node_def small_graphs_acyclic)

lemma validate_plan_mono: "validate_plan d m = Inr () \<Longrightarrow> m \<le> n \<Longrightarrow> validate_plan d n = Inr ()"
  by (simp add: validate_plan_def validate_dep_graph_iff)

lemma sim_draft_agents:
  assumes "n \<in> set (sim_draft b r)"
  shows "pd_agent_name n \<in> set (map fst SIM_AGENTS)"
  using assms by (auto simp: sim_draft_def sim_node_def SIM_AGENTS_def split: if_splits)

lemma sim_draft_inputs:
  assumes "n \<in> set (sim_draft b r)" and "r \<noteq> []"
  shows "\<exists>t. pd_input n = [(py ''text'', t)] \<and> t \<noteq> []"
  using assms by (auto simp: sim_draft_def sim_node_def split: if_splits)

lemma make_plan_draft: "snd (make_plan user) = [] \<or> (\<exists>b. snd (make_plan user) = sim_draft b (sim_request user))"
  unfolding make_plan_def Let_def by (rule if_split [THEN iffD2]) auto

text \<open>Whatever the prompt, the plan of the simulation is one the planner accepts at the first attempt, every node of it
  is for an agent the simulation starts, and none has an empty instruction.\<close>

theorem sim_plan_accepted:
  assumes "2 \<le> max_nodes"
  shows "validate_plan (snd (make_plan user)) max_nodes = Inr ()
    \<and> (\<forall>n \<in> set (snd (make_plan user)). pd_agent_name n \<in> set (map fst SIM_AGENTS) \<and> (\<exists>t. pd_input n = [(py ''text'', t)] \<and> t \<noteq> []))"
proof -
  have none: "validate_plan [] 2 = Inr ()" by (simp add: validate_plan_def validate_dep_graph_iff small_graphs_acyclic)
  consider "snd (make_plan user) = []" | b where "snd (make_plan user) = sim_draft b (sim_request user)"
    using make_plan_draft by blast
  then show ?thesis
    by cases (use none sim_draft_valid validate_plan_mono [OF _ assms] sim_draft_agents sim_draft_inputs [OF _ sim_request_given] in auto)
qed

lemma map_filter_Some: "(\<And>x. x \<in> set xs \<Longrightarrow> f x = Some (g x)) \<Longrightarrow> List.map_filter f xs = map g xs"
  by (induction xs) (simp_all add: map_filter_simps)

text \<open>A line of the roster is read back as the agent's name.\<close>

lemma agent_line:
  assumes "n \<noteq> []" and "\<forall>c \<in> set n. \<not> is_space c"
  shows "AGENT_PATTERN (py ''- '' @ n @ py '': '' @ d) = Some n"
proof -
  have "word_run (n @ 58 # 32 # d) = n @ [58]"
    using assms(2) by (simp add: word_run_def is_space_def)
  then show ?thesis using assms(1) by (simp add: AGENT_PATTERN_def py_def)
qed

lemma roster_read_back:
  assumes "rows \<noteq> []" and "\<And>n d. (n,
    d) \<in> set rows \<Longrightarrow> n \<noteq> [] \<and> (\<forall>c \<in> set n. \<not> is_space c) \<and> 10 \<notin> set d"
  shows "registered_in (str_join nl (map (\<lambda>(n, d). py ''- '' @ n @ py '': '' @ d) rows)) = fromkeys (map fst rows)"
proof -
  let ?lines = "map (\<lambda>(n, d). py ''- '' @ n @ py '': '' @ d) rows"
  have "10 \<notin> set l" if l: "l \<in> set ?lines" for l
  proof -
    obtain n d where nd: "(n, d) \<in> set rows" "l = py ''- '' @ n @ py '': '' @ d" using l by auto
    have "is_space 10" by (simp add: is_space_def)
    then have "10 \<notin> set n" using assms(2) [OF nd(1)] by blast
    then show ?thesis using assms(2) [OF nd(1)] nd(2) by (simp add: py_def)
  qed
  then have lines: "str_split 10 (str_join nl ?lines) = ?lines" using assms(1) by (intro str_split_join) auto
  have "List.map_filter AGENT_PATTERN ?lines = List.map_filter (\<lambda>(n, d). AGENT_PATTERN (py ''- '' @ n @ py '': '' @ d)) rows"
    by (simp add: List.map_filter_def filter_map o_def case_prod_beta)
  also have "\<dots> = map fst rows"
    by (rule map_filter_Some) (use assms(2) agent_line in auto)
  finally have "List.map_filter AGENT_PATTERN ?lines = map fst rows" .
  then show ?thesis by (simp add: registered_in_def lines)
qed

text \<open>The decision on a request for help is a person, or an agent of the roster that is not the one asking.\<close>

lemma assistance_target:
  assumes "snd (make_assistance_decision user) = d"
  shows "d = human_decision ''input'' \<or> d = human_decision ''confirm''
    \<or> (\<exists>asking q n. WORKER_PATTERN user = Some (asking,
      q) \<and> n \<in> set (registered_in user) \<and> n \<noteq> asking \<and> d = peer_decision n (str_strip q))"
proof (cases "WORKER_PATTERN user")
  case None
  then show ?thesis using assms by (simp add: make_assistance_decision_def Let_def)
next
  case (Some w)
  then obtain asking q where w: "WORKER_PATTERN user = Some (asking, q)" by (cases w) simp
  let ?rest = "sort (filter (\<lambda>n. n \<notin> set FLAKY_AGENTS \<and> n \<noteq> asking) (registered_in user))"
  let ?peer = "List.find (\<lambda>n. n \<in> set (registered_in user) \<and> n \<noteq> asking) (peers_of asking)"
  consider "asking \<in> set HUMAN_AGENTS" | n where "asking \<notin> set HUMAN_AGENTS" "?peer = Some n"
    | "asking \<notin> set HUMAN_AGENTS" "?peer = None" "?rest = []"
    | n ns where "asking \<notin> set HUMAN_AGENTS" "?peer = None" "?rest = n # ns"
    by (cases ?peer; cases ?rest) auto
  then show ?thesis
  proof cases
    case 2
    then have "n \<in> set (registered_in user)" "n \<noteq> asking" by (auto simp: find_Some_iff)
    then show ?thesis using assms w 2 by (auto simp: make_assistance_decision_def Let_def)
  next
    case 4
    then have "n \<in> set ?rest" by simp
    then have "n \<in> set (registered_in user)" "n \<noteq> asking" by simp_all
    then show ?thesis using assms w 4 by (auto simp: make_assistance_decision_def Let_def)
  qed (use assms w in \<open>simp_all add: make_assistance_decision_def Let_def\<close>)
qed

section \<open>Examples\<close>

definition demo_plan_tool :: "pystr llm_tool" where
  "demo_plan_tool = \<lparr>lt_name = py ''create_plan'', lt_description = py ''d'', lt_schema = JNull, lt_validate = Inr,
    lt_dump = (\<lambda>s. s)\<rparr>"

definition demo_sim :: llm_client where
  "demo_sim = \<lparr>lc_model = py ''sim'', lc_api_base = None, lc_context_window = None,
     lc_completion_fn = sim_acompletion (\<lambda>chs. chs) (\<lambda>ds. py ''nodes'' @ concat (map pd_id ds)) (\<lambda>_. [])\<rparr>"

theorem sim_answer_read_back_witness:
  "\<exists>ds. llm_stream demo_sim [] None (Some [UserMessage (py ''hi'')]) [demo_plan_tool] True JNull []
      = (map YieldDelta ds @ [YieldCall \<lparr>tc_function = demo_plan_tool, tc_args = py ''nodes'',
        tc_call_id = py ''call_1''\<rparr>], None)
    \<and> concat (map dl_reasoning ds) = [29992, 25143, 21482, 26159, 25171, 20102, 20010, 25307, 21628, 65292, 30452, 25509, 22238,
      22797, 21363, 21487, 12290]"
proof -
  have "forwards (\<lambda>chs. chs)" by (simp add: forwards_def)
  moreover have "lc_completion_fn demo_sim = sim_acompletion (\<lambda>chs. chs) (\<lambda>ds. py ''nodes''
    @ concat (map pd_id ds)) (\<lambda>_. [])"
    by (simp add: demo_sim_def)
  moreover have "lt_name demo_plan_tool \<noteq> []" by (simp add: demo_plan_tool_def)
  moreover have "sim_answer (\<lambda>ds. py ''nodes'' @ concat (map pd_id ds)) (\<lambda>_. []) (SystemMessage [] # map Sent [UserMessage (py ''hi'')])
      (lt_name demo_plan_tool) = ([29992, 25143, 21482, 26159, 25171, 20102, 20010, 25307, 21628, 65292, 30452, 25509,
        22238, 22797, 21363, 21487, 12290], py ''nodes'')"
  proof -
    have "sim_request (py ''hi'') = py ''hi''"
      by (simp add: sim_request_def REQUEST_PATTERN_def py_def str_strip_def is_space_def Let_def)
    then show ?thesis
      by (simp add: sim_answer_def user_texts_def map_filter_simps make_plan_def Let_def demo_plan_tool_def)
  qed
  moreover have "py ''nodes'' \<noteq> []" "lt_validate demo_plan_tool (py ''nodes'') = Inr (py ''nodes'')"
    by (simp_all add: demo_plan_tool_def)
  ultimately show ?thesis by (rule sim_answer_read_back)
qed

theorem sim_plan_accepted_witness:
  "validate_plan (snd (make_plan (py ''User request:'' @ nl @ py ''x''))) 20 = Inr () \<and> (2::nat) \<le> 20"
  using sim_plan_accepted [of 20 "py ''User request:'' @ nl @ py ''x''"] by simp

end
