(* ===== verification/Sim_Agent.thy ===== *)
theory Sim_Agent
  imports Sim_Llm Remote
begin

text \<open>
  The scripted agent of the simulation, \<open>sim/fake_agent.py\<close>,
    and the agents \<open>sim/runner.py\<close> starts.  What it does to a task
  are calls of the SDK's \<open>TaskUpdater\<close>; how the SDK delivers them to the caller is the parameter \<open>deliver\<close>,
    with its
  documented behaviour in \<open>delivers\<close>.  Sleeping is left out, and so are ports and the uvicorn server.
\<close>

section \<open>The agent\<close>

datatype update =
    New_task
  | Start_work
  | Requires_input pystr
  | Add_artifact pystr bool bool
  | Complete
  | Failed_with pystr
  | Cancel_task

record scripted =
  sa_behavior :: pystr
  sa_name :: pystr
  sa_calls :: nat
  sa_chunk_size :: int

definition new_scripted :: "pystr \<Rightarrow> pystr \<Rightarrow> int \<Rightarrow> scripted" where
  "new_scripted behavior name chunk_size = \<lparr>sa_behavior = behavior, sa_name = name, sa_calls = 0,
    sa_chunk_size = chunk_size\<rparr>"

text \<open>All the artifact updates of one emission carry one id, generated for it.\<close>

fun piece_updates :: "bool \<Rightarrow> pystr list \<Rightarrow> update list" where
  "piece_updates app [] = []"
| "piece_updates app [p] = [Add_artifact p app True]"
| "piece_updates app (p # q # ps) = Add_artifact p app False # piece_updates True (q # ps)"

definition emit_artifact :: "scripted \<Rightarrow> pystr \<Rightarrow> update list" where
  "emit_artifact a t = (if sa_chunk_size a \<le> 0 then [Add_artifact t False True]
     else let chunks = pieces (nat (sa_chunk_size a)) t in piece_updates False (if chunks = [] then [[]] else chunks))"

definition question_text :: "scripted \<Rightarrow> pystr" where
  "question_text a = (if sa_behavior a = py ''review'' then [35831, 30830, 35748, 26159, 21542, 37319, 29992, 35813, 26041, 26696, 65311]
     else if sa_behavior a = py ''collaborate'' then ([38656, 35201] @ py '' qa-engineer '' @ [21327, 21161, 30830, 35748, 25216,
       26415, 32454, 33410, 65292, 35831, 21327, 21161, 12290])
     else if sa_behavior a = py ''inquire'' then ([32570, 23569, 20851, 38190, 20449, 24687, 65306, 35831] @ py '' product-manager ''
       @ [25552, 20379, 38656, 27714, 25991, 26723, 12290])
     else py ''who are you?'')"

definition more_info :: pystr where "more_info = [35831, 34917, 20805, 20449, 24687]"
definition cooperation :: pystr where "cooperation = [21327, 20316]"

definition findings_text :: "pystr \<Rightarrow> pystr" where
  "findings_text t = [35843, 30740, 32467, 26524, 65306, 20851, 20110, 12300] @ t @ [12301, 30340, 35201, 28857, 20998, 26512, 12290]"

definition built_text :: "pystr \<Rightarrow> pystr" where
  "built_text t = [24050, 22522, 20110, 12300] @ t @ [12301, 23436, 25104, 25509, 21475, 23454, 29616, 21644, 21333, 20803, 27979,
    35797, 12290]"

definition success_text :: "scripted \<Rightarrow> pystr \<Rightarrow> pystr" where
  "success_text a t = (if sa_behavior a = py ''research'' then findings_text t
     else if sa_behavior a = py ''write'' then built_text t
     else if sa_behavior a = py ''collaborate'' then
       (if has_sub t more_info then ([35843, 30740, 34917, 20805, 65306, 32467, 21512] @ py '' qa-engineer '' @ [30340, 21453, 39304,
         65292, 34917, 20805, 20102, 25216, 26415, 21487, 34892, 24615, 20998, 26512, 12290]) else findings_text t)
     else if sa_behavior a = py ''inquire'' then built_text t
     else if sa_behavior a = py ''assist'' then [20998, 26512, 32467, 35770, 65306, 27979, 35797, 36890, 36807, 65292, 21151, 33021,
       31526, 21512, 39044, 26399, 12290]
     else if sa_behavior a = py ''needs_info_text'' then [24050, 33719, 24471, 34917, 20805, 20449, 24687, 24182, 20132, 20184, 65306] @ t
     else py ''echo:'' @ t)"

definition answer_text :: "scripted \<Rightarrow> pystr \<Rightarrow> pystr" where
  "answer_text a t = (if sa_behavior a = py ''review'' then [24050, 25353, 20320, 30340, 24847, 35265, 23450, 31295, 65306] @ t
     else if sa_behavior a = py ''needs_info_text'' then [24050, 33719, 24471, 34917, 20805, 20449, 24687, 24182, 20132, 20184, 65306] @ t
     else if sa_behavior a = py ''collaborate'' then ([21327, 20316, 23436, 25104, 65306, 24050, 32467, 21512] @ py '' qa-engineer ''
       @ [30340, 21327, 21161, 65292, 26041, 26696, 30830, 35748, 21487, 34892, 12290])
     else if sa_behavior a = py ''inquire'' then [24050, 33719, 24471, 38656, 27714, 20449, 24687, 24182, 23436, 25104, 24320, 21457,
       65306] @ t
     else py ''answered:'' @ t)"

text \<open>The branches of a first message, with the counter already advanced.\<close>

datatype reply = Asks pystr | Delivers pystr | Fails pystr

definition first_reply :: "scripted \<Rightarrow> pystr \<Rightarrow> reply" where
  "first_reply a t = (let b = sa_behavior a in
     if b \<in> set [py ''ask'', py ''review''] \<or>
        (b \<in> set [py ''collaborate'',
          py ''inquire''] \<and> has_sub t cooperation \<and> \<not> has_sub t more_info \<and> sa_calls a = 1)
     then Asks (question_text a)
     else if b = py ''needs_info_text'' \<and> sa_calls a = 1 then Delivers ((py ''[cw:need_info] '' @ [38656, 35201, 34917, 20805,
       38656, 27714, 20449, 24687, 12290]))
     else if b \<in> set [py ''fail'', py ''flaky_always''] \<or> (b \<in> set [py ''fail_once'',
       py ''flaky_once''] \<and> sa_calls a = 1)
     then Fails (py ''boom'')
     else Delivers (success_text a t))"

fun reply_updates :: "scripted \<Rightarrow> reply \<Rightarrow> update list" where
  "reply_updates a (Asks q) = [Requires_input q]"
| "reply_updates a (Fails m) = [Failed_with m]"
| "reply_updates a (Delivers t) = emit_artifact a t @ [Complete]"

text \<open>The message as the texts of its parts, and whether the SDK found a task to continue.\<close>

record agent_request =
  ar_message :: "pystr list option"
  ar_current_task :: bool

definition instruction_of :: "agent_request \<Rightarrow> pystr" where
  "instruction_of r = str_strip (case ar_message r of Some (t # _) \<Rightarrow> t | _ \<Rightarrow> [])"

definition scripted_execute :: "agent_request \<Rightarrow> scripted \<Rightarrow> scripted \<times> update list" where
  "scripted_execute r a = (let instruction = instruction_of r in
     if \<not> ar_current_task r then
       (if ar_message r = None then (a, [])
        else let a1 = a\<lparr>sa_calls := sa_calls a + 1\<rparr>
        in (a1, [New_task, Start_work] @ reply_updates a1 (first_reply a1 instruction)))
     else (a, reply_updates a (Delivers (answer_text a instruction))))"

definition scripted_cancel :: "update list" where
  "scripted_cancel = [Cancel_task]"

section \<open>Its card\<close>

definition BEHAVIOR_DESCRIPTIONS :: "(pystr, pystr) dict" where
  "BEHAVIOR_DESCRIPTIONS = [
     (py ''collaborate'', [36127, 36131, 38656, 27714, 20998, 26512, 12289, 20135, 21697, 35268, 21010, 65292, 21327, 35843, 22242,
       38431, 25104, 21592, 25512, 36827, 39033, 30446]),
     (py ''inquire'', ([36127, 36131, 21518, 31471, 26381, 21153, 24320, 21457, 65292, 23454, 29616] @ py '' API '' @ [21644, 19994,
       21153, 36923, 36753])),
     (py ''review'', [36127, 36131, 20195, 30721, 23457, 26597, 65292, 30830, 20445, 20195, 30721, 36136, 37327, 21644, 23433, 20840,
       24615]),
     (py ''assist'', [36127, 36131, 27979, 35797, 21644, 39564, 35777, 65292, 30830, 20445, 21151, 33021, 31526, 21512, 38656, 27714]),
     (py ''echo'', [36127, 36131, 36130, 21153, 25968, 25454, 20998, 26512, 65292, 29983, 25104, 36130, 21153, 25253, 21578, 21644,
       39044, 31639, 24314, 35758]),
     (py ''flaky_once'', [36127, 36131, 23457, 25209, 27969, 31243, 31649, 29702, 65292, 22788, 29702, 25253, 38144, 21644, 37319,
       36141, 23457, 25209]),
     (py ''flaky_always'', [36127, 36131, 21512, 35268, 23457, 35745, 65292, 26816, 26597, 36130, 21153, 35760, 24405, 21644, 27969,
       31243, 21512, 35268, 24615]),
     (py ''research'', [36127, 36131, 38656, 27714, 20998, 26512, 12289, 20135, 21697, 35268, 21010, 65292, 21327, 35843, 22242, 38431,
       25104, 21592, 25512, 36827, 39033, 30446]),
     (py ''write'', ([36127, 36131, 21518, 31471, 26381, 21153, 24320, 21457, 65292, 23454, 29616] @ py '' API '' @ [21644, 19994,
       21153, 36923, 36753]))]"

definition BEHAVIOR_SKILL_DESCRIPTIONS :: "(pystr, pystr) dict" where
  "BEHAVIOR_SKILL_DESCRIPTIONS = [
     (py ''collaborate'', [38656, 27714, 20998, 26512, 19982, 20135, 21697, 35268, 21010]),
     (py ''inquire'', [21518, 31471, 24320, 21457, 19982, 25509, 21475, 23454, 29616]),
     (py ''review'', [20195, 30721, 23457, 26597, 19982, 36136, 37327, 25226, 25511]),
     (py ''assist'', [36719, 20214, 27979, 35797, 19982, 36136, 37327, 39564, 35777]),
     (py ''echo'', [36130, 21153, 20998, 26512, 19982, 25253, 21578, 29983, 25104]),
     (py ''flaky_once'', [23457, 25209, 27969, 31243, 31649, 29702]),
     (py ''flaky_always'', [21512, 35268, 23457, 35745, 19982, 39118, 38505, 26816, 26597]),
     (py ''research'', [38656, 27714, 20998, 26512, 19982, 20135, 21697, 35268, 21010]),
     (py ''write'', [21518, 31471, 24320, 21457, 19982, 25509, 21475, 23454, 29616])]"

record sim_card =
  sk_name :: pystr
  sk_description :: pystr
  sk_skill_name :: pystr
  sk_skill_description :: pystr
  sk_url :: pystr
  sk_streaming :: bool

definition make_card :: "pystr \<Rightarrow> pystr \<Rightarrow> pystr \<Rightarrow> sim_card" where
  "make_card behavior url name = \<lparr>sk_name = (if name = [] then behavior else name),
     sk_description = (case map_of BEHAVIOR_DESCRIPTIONS behavior of Some d \<Rightarrow> d | None \<Rightarrow> behavior
       @ py '' agent''),
     sk_skill_name = (if name = [] then behavior else name),
     sk_skill_description = (case map_of BEHAVIOR_SKILL_DESCRIPTIONS behavior of Some d \<Rightarrow> d | None \<Rightarrow> behavior),
     sk_url = url, sk_streaming = True\<rparr>"

section \<open>Following the agent\<close>

text \<open>What the caller's stream delivers for the updates: the task first, then status and artifact events.\<close>

definition delivers :: "(update \<Rightarrow> chunk) \<Rightarrow> pystr \<Rightarrow> bool" where
  "delivers deliver tid \<longleftrightarrow>
     (\<exists>t. deliver New_task = TaskChunk t \<and> rt_id t = tid \<and> rt_state t = Remote TASK_SUBMITTED \<and> rt_artifacts t = [])
     \<and> deliver Start_work = StatusChunk (Remote TASK_WORKING) None
     \<and> (\<forall>q. deliver (Requires_input q) = StatusChunk (Remote TASK_INPUT_REQUIRED) (Some q))
     \<and> (\<exists>i. \<forall>t app fin. deliver (Add_artifact t app fin) = ArtifactChunk \<lparr>ra_id = i,
       ra_name = py ''response'', ra_text = t\<rparr> app fin)
     \<and> deliver Complete = StatusChunk (Remote TASK_COMPLETED) None
     \<and> (\<forall>m. deliver (Failed_with m) = StatusChunk (Remote TASK_FAILED) (Some m))
     \<and> deliver Cancel_task = StatusChunk (Remote TASK_CANCELED) None"

text \<open>What a node looks like after a reply.\<close>

fun reply_seen :: "reply \<Rightarrow> NodeStatus \<Rightarrow> NodeState \<Rightarrow> bool" where
  "reply_seen (Asks q) st n \<longleftrightarrow> st = INPUT_REQUIRED \<and> n_question n = Some q"
| "reply_seen (Fails m) st n \<longleftrightarrow> st = FAILED \<and> n_output n = None"
| "reply_seen (Delivers t) st n \<longleftrightarrow> st = COMPLETED \<and> n_output n = Some (str_strip t)"

lemma str_strip_given: "\<not> is_space c \<Longrightarrow> str_strip (c # s) \<noteq> []"
  by (simp add: str_strip_def dropWhile_append)

definition response :: "pystr \<Rightarrow> pystr \<Rightarrow> artifact" where
  "response i t = \<lparr>ra_id = i, ra_name = py ''response'', ra_text = t\<rparr>"

lemma consume_artifact:
  assumes "\<forall>t app fin. deliver (Add_artifact t app fin) = ArtifactChunk (response i t) app fin"
    and "map_of (nodes (c_state c)) k = Some n"
  shows "\<exists>c'. c_state c' = c_state c \<and> (\<forall>rest. consume_loop estr k (deliver (Add_artifact t app fin) # rest) e (cur, arts, c)
    = consume_loop estr k rest e (cur, put_artifact (response i t) app arts, c'))"
  using assms by (intro exI [of _ "node_artifact n (Some i) (py ''response'') t app fin c"]) (simp add: response_def node_artifact_def)

lemma consume_pieces:
  assumes "\<forall>t app fin. deliver (Add_artifact t app fin) = ArtifactChunk (response i t) app fin"
    and "map_of (nodes (c_state c)) k = Some n"
  shows "\<exists>c'. c_state c' = c_state c \<and> consume_loop estr k (map deliver (piece_updates True ps) @ rest) e (cur,
    [response i t], c)
    = consume_loop estr k rest e (cur, [response i (t @ concat ps)], c')"
  using assms(2)
proof (induction "True" ps arbitrary: t c rule: piece_updates.induct)
  case 1
  then show ?case by auto
next
  case (2 p)
  from consume_artifact [OF assms(1) 2, of estr p True True e cur "[response i t]"] show ?case by (auto simp: response_def)
next
  case (3 p q ps)
  from consume_artifact [OF assms(1) 3(2), of estr p True False e cur "[response i t]"] obtain c1 where c1: "c_state c1 = c_state c"
    "consume_loop estr k (deliver (Add_artifact p True False) # map deliver (piece_updates True (q # ps)) @ rest) e (cur,
      [response i t], c)
      = consume_loop estr k (map deliver (piece_updates True (q # ps)) @ rest) e (cur, [response i (t @ p)], c1)"
    by (auto simp: response_def)
  from 3(1) [of c1 "t @ p"] 3(2) c1(1) obtain c2 where c2: "c_state c2 = c_state c1"
    "consume_loop estr k (map deliver (piece_updates True (q # ps)) @ rest) e (cur, [response i (t @ p)], c1)
      = consume_loop estr k rest e (cur, [response i ((t @ p) @ concat (q # ps))], c2)"
    by auto
  show ?case by (rule exI [of _ c2]) (use c1 c2 in simp)
qed

text \<open>However the text is cut, the collected artifact is the text.\<close>

lemma consume_emitted:
  assumes "\<forall>t app fin. deliver (Add_artifact t app fin) = ArtifactChunk (response i t) app fin"
    and "map_of (nodes (c_state c)) k = Some n"
  shows "\<exists>c'. c_state c' = c_state c \<and> consume_loop estr k (map deliver (emit_artifact a t) @ rest) e (cur, [], c)
    = consume_loop estr k rest e (cur, [response i t], c')"
proof -
  obtain p ps where us: "emit_artifact a t = Add_artifact p False (ps = []) # piece_updates True ps" "p @ concat ps = t"
  proof (cases "sa_chunk_size a \<le> 0 \<or> t = []")
    case True
    then show ?thesis using that [of t "[]"] by (auto simp: emit_artifact_def Let_def)
  next
    case False
    then obtain p ps where ps: "pieces (nat (sa_chunk_size a)) t = p # ps" by (metis neq_Nil_conv not_le pieces_eq_Nil_iff zero_less_nat_eq)
    moreover have "concat (pieces (nat (sa_chunk_size a)) t) = t" using False by (intro concat_pieces) simp
    ultimately show ?thesis using that [of p ps] False by (cases ps) (auto simp: emit_artifact_def Let_def)
  qed
  from consume_artifact [OF assms, of estr p False "ps = []" e cur "[]"] obtain c1 where c1: "c_state c1 = c_state c"
    "\<And>rest. consume_loop estr k (deliver (Add_artifact p False (ps = [])) # rest) e (cur, [], c) = consume_loop estr k rest e (cur, [response i p], c1)"
    by auto
  from consume_pieces [OF assms(1), of c1 k n estr ps rest e cur p] assms(2) c1(1) obtain c2 where
    "c_state c2 = c_state c1" "consume_loop estr k (map deliver (piece_updates True ps) @ rest) e (cur, [response i p], c1)
      = consume_loop estr k rest e (cur, [response i (p @ concat ps)], c2)" by auto
  then show ?thesis using c1 us by (intro exI [of _ c2]) simp
qed

lemma given_texts:
  "str_strip (success_text a t) \<noteq> []" "str_strip (answer_text a t) \<noteq> []"
  by (simp_all add: success_text_def answer_text_def findings_text_def built_text_def py_def str_strip_given is_space_def)

lemma reply_given: "first_reply a t = Delivers u \<Longrightarrow> str_strip u \<noteq> []"
  by (auto simp: first_reply_def Let_def given_texts py_def str_strip_given is_space_def split: if_splits)

text \<open>The end of a stream that the agent closes with a reply.\<close>

lemma consume_reply:
  assumes "delivers deliver tid" and "map_of (nodes (c_state c)) k = Some n" and "\<And>t. r = Delivers t \<Longrightarrow> str_strip t \<noteq> []"
  shows "\<exists>st c' n'. consume_loop estr k (map deliver (reply_updates a r)) Stream_done (WORKING, [], c) = (Settled st, c')
    \<and> map_of (nodes (c_state c')) k = Some n' \<and> reply_seen r st n' \<and> n_a2a_task_id n' = n_a2a_task_id n"
proof (cases r)
  case (Delivers t)
  obtain i where i: "\<forall>t app fin. deliver (Add_artifact t app fin) = ArtifactChunk (response i t) app fin"
    using assms(1) by (auto simp: delivers_def response_def)
  have complete: "deliver Complete = StatusChunk (Remote TASK_COMPLETED) None" using assms(1) by (simp add: delivers_def)
  from consume_emitted [OF i assms(2), of estr a t "[deliver Complete]"] obtain c1 where "c_state c1 = c_state c"
    "consume_loop estr k (map deliver (emit_artifact a t) @ [deliver Complete]) Stream_done (WORKING, [], c)
      = consume_loop estr k [deliver Complete] Stream_done (WORKING, [response i t], c1)" by blast
  then show ?thesis using assms(2,3) Delivers complete
    by (auto simp: artifacts_output_def response_def Let_def)
qed (use assms in \<open>auto simp: delivers_def artifacts_output_def node_artifact_def Let_def\<close>)

lemma consume_started:
  assumes "delivers deliver tid" and "tid \<noteq> []" and "map_of (nodes (c_state c)) k = Some n" and "can_transition n SUBMITTED"
  shows "\<exists>c' n'. map_of (nodes (c_state c')) k = Some n' \<and> n_a2a_task_id n' = Some tid
    \<and> (\<forall>rest e. consume_loop estr k (map deliver [New_task, Start_work] @ rest) e (WORKING, [],
      c) = consume_loop estr k rest e (WORKING, [], c'))"
proof -
  obtain t where t: "deliver New_task = TaskChunk t" "rt_id t = tid" "rt_state t = Remote TASK_SUBMITTED" "rt_artifacts t = []"
    "deliver Start_work = StatusChunk (Remote TASK_WORKING) None"
    using assms(1) by (auto simp: delivers_def)
  let ?c1 = "set_node k (\<lambda>n. n\<lparr>n_a2a_task_id := Some tid\<rparr>) c"
  have "can_transition (n\<lparr>n_a2a_task_id := Some tid\<rparr>) SUBMITTED" using assms(4) by (simp add: can_transition_def)
  then obtain s where s: "apply_transition_at (c_state ?c1) k SUBMITTED = Inr s"
    using assms(3) by (auto simp: apply_transition_at_def apply_transition_def)
  have look: "map_of (nodes s) k = Some (n\<lparr>n_a2a_task_id := Some tid, n_status := SUBMITTED\<rparr>)"
    using apply_transition_at_lookup [OF s, of k] assms(3) by simp
  show ?thesis
    by (intro exI conjI; (rule allI)?; (rule allI)?) (use s look t assms(2,3) in \<open>auto simp: Let_def\<close>)
qed

definition reply_to :: "agent_request \<Rightarrow> scripted \<Rightarrow> reply" where
  "reply_to r a = (if ar_current_task r then Delivers (answer_text a (instruction_of r))
     else first_reply (a\<lparr>sa_calls := sa_calls a + 1\<rparr>) (instruction_of r))"

text \<open>C37: a scheduler that follows a scripted agent sees exactly the agent's reply, whatever the behaviour, the number of
  earlier calls and the chunk size: the stream settles the node as completed with the whole text, as failed, or as waiting
  for input with the question, and a new task's id is on the node.\<close>

theorem scripted_agent_followed:
  assumes "delivers deliver tid" and "map_of (nodes (c_state c)) k = Some n"
    and "ar_current_task r \<or> tid \<noteq> [] \<and> can_transition n SUBMITTED \<and> ar_message r \<noteq> None"
  shows "\<exists>st c' n'. consume_chunks estr k \<lparr>rs_chunks = map deliver (snd (scripted_execute r a)),
    rs_end = Stream_done\<rparr> c = (Settled st, c')
    \<and> map_of (nodes (c_state c')) k = Some n' \<and> reply_seen (reply_to r a) st n'
    \<and> n_a2a_task_id n' = (if ar_current_task r then n_a2a_task_id n else Some tid)"
proof (cases "ar_current_task r")
  case True
  have us: "snd (scripted_execute r a) = reply_updates a (reply_to r a)" using True by (simp add: scripted_execute_def reply_to_def Let_def)
  have "str_strip t \<noteq> []" if "reply_to r a = Delivers t" for t using that True given_texts(2) by (auto simp: reply_to_def)
  from consume_reply [OF assms(1,2) this, where estr = estr and a = a] show ?thesis using True unfolding consume_chunks_def us by simp
next
  case False
  let ?a = "a\<lparr>sa_calls := sa_calls a + 1\<rparr>"
  have us: "snd (scripted_execute r a) = [New_task, Start_work] @ reply_updates ?a (reply_to r a)"
    using assms(3) False by (auto simp: scripted_execute_def reply_to_def Let_def)
  obtain c1 n1 where start: "map_of (nodes (c_state c1)) k = Some n1" "n_a2a_task_id n1 = Some tid"
    "\<And>rest e. consume_loop estr k (map deliver [New_task, Start_work] @ rest) e (WORKING, [],
      c) = consume_loop estr k rest e (WORKING, [], c1)"
    using consume_started [OF assms(1) _ assms(2), of estr] assms(3) False by metis
  have "str_strip t \<noteq> []" if "reply_to r a = Delivers t" for t using that False reply_given by (auto simp: reply_to_def)
  from consume_reply [OF assms(1) start(1) this, where estr = estr and a = ?a] start(2) start(3) [of "map deliver (reply_updates ?a (reply_to r a))"] False
  show ?thesis unfolding consume_chunks_def us by simp
qed

definition demo_deliver :: "update \<Rightarrow> chunk" where
  "demo_deliver u = (case u of
      New_task \<Rightarrow> TaskChunk \<lparr>rt_id = py ''t'', rt_state = Remote TASK_SUBMITTED, rt_artifacts = [],
        rt_message = None\<rparr>
    | Start_work \<Rightarrow> StatusChunk (Remote TASK_WORKING) None
    | Requires_input q \<Rightarrow> StatusChunk (Remote TASK_INPUT_REQUIRED) (Some q)
    | Add_artifact t app fin \<Rightarrow> ArtifactChunk \<lparr>ra_id = py ''a'', ra_name = py ''response'', ra_text = t\<rparr> app fin
    | Complete \<Rightarrow> StatusChunk (Remote TASK_COMPLETED) None
    | Failed_with m \<Rightarrow> StatusChunk (Remote TASK_FAILED) (Some m)
    | Cancel_task \<Rightarrow> StatusChunk (Remote TASK_CANCELED) None)"

lemma demo_delivers: "delivers demo_deliver (py ''t'')"
  by (simp add: delivers_def demo_deliver_def)

text \<open>An agent that answers in chunks of two characters.\<close>

theorem scripted_agent_followed_witness:
  "\<exists>c' n'. consume_chunks (\<lambda>_. []) (py ''n'') \<lparr>rs_chunks = map demo_deliver (snd (scripted_execute \<lparr>ar_message = Some [py ''hi''],
        ar_current_task = False\<rparr> (new_scripted (py ''echo'') [] 2))), rs_end = Stream_done\<rparr>
        (example_ctx (empty_state\<lparr>nodes := [(py ''n'', new_node (py ''n'') [] (py ''A''))]\<rparr>)) = (Settled COMPLETED, c')
    \<and> map_of (nodes (c_state c')) (py ''n'') = Some n' \<and> n_output n' = Some (py ''echo:hi'')"
proof -
  let ?c = "example_ctx (empty_state\<lparr>nodes := [(py ''n'', new_node (py ''n'') [] (py ''A''))]\<rparr>)"
  let ?r = "\<lparr>ar_message = Some [py ''hi''], ar_current_task = False\<rparr>"
  let ?a = "new_scripted (py ''echo'') [] 2"
  have look: "map_of (nodes (c_state ?c)) (py ''n'') = Some (new_node (py ''n'') [] (py ''A''))" by (simp add: example_ctx_def)
  have ready: "ar_current_task ?r \<or> py ''t'' \<noteq> [] \<and> can_transition (new_node (py ''n'') [] (py ''A'')) SUBMITTED \<and> ar_message ?r \<noteq> None"
    by (simp add: can_transition_def new_node_def)
  have "instruction_of ?r = py ''hi''" by (simp add: instruction_of_def py_def str_strip_def is_space_def)
  then have reply: "reply_to ?r ?a = Delivers (py ''echo:hi'')"
    by (simp add: reply_to_def first_reply_def new_scripted_def success_text_def Let_def) (simp add: py_def)
  have strip: "str_strip (py ''echo:hi'') = py ''echo:hi''" by (simp add: py_def str_strip_def is_space_def)
  show ?thesis
    using scripted_agent_followed [OF demo_delivers look ready, of "\<lambda>_. []" ?a] unfolding reply by (auto simp: strip)
qed

end
