(* ===== verification/Server.thy ===== *)
theory Server
  imports Session Refinement
begin

text \<open>
  The server of \<open>choirworks\<close> with all its conversations: the sessions of \<open>SessionManager\<close> by context id
  (\<open>orchestration/session.py\<close>), the entry points of \<open>a2a/executor.py\<close> (\<open>execute\<close>, \<open>cancel\<close>, \<open>shutdown\<close>), and what
  they share: the registry, the table of stored states, the event queue.  \<open>Session\<close> follows one conversation; here the
  steps of all of them interleave.  A step works on the runtime of one conversation joined with the shared part
  (\<open>attach\<close>) and its result is written back (\<open>commit\<close>).

  \<open>execute\<close> obtains the runtime and runs the message flow as one step; in the code a cancellation may evict the runtime
  between the two.  A handler that raises is no step here: its exception is the value of the handler's definition.
\<close>

section \<open>The server\<close>

record server =
  sv_config :: ExecutorConfig
  sv_agents :: "AgentRecord list"
  sv_store :: "(pystr, json) dict"
  sv_events :: "(pystr \<times> pystr \<times> a2a_event) list"
  sv_sessions :: "(pystr, ctx) dict"
  sv_uuid :: "pystr \<Rightarrow> nat \<Rightarrow> pystr"
  sv_now :: "pystr \<Rightarrow> nat \<Rightarrow> pystr"

text \<open>A runtime that is not in the dict of sessions.\<close>

definition new_runtime_ctx :: "server \<Rightarrow> pystr \<Rightarrow> ctx" where
  "new_runtime_ctx sv k = \<lparr>c_state = empty_state, c_task_id = [], c_context_id = k, c_messages = [], c_compaction = None,
     c_events = sv_events sv, c_config = sv_config sv, c_agents = sv_agents sv, c_store = sv_store sv, c_active = False,
     c_runner = False, c_node_tasks = [], c_settle_tasks = [], c_next_task = 0, c_wake = False, c_cancels = [],
     c_uuid = sv_uuid sv k, c_now = sv_now sv k, c_tick = 0, c_text = [], c_room = \<lparr>ro_mentions = [], ro_quote_id = None, ro_interrupt = False\<rparr>,
     c_responses = [], c_malformed = None, c_needs_runner = False, c_quote_id = None, c_target = None\<rparr>"

definition attach :: "server \<Rightarrow> pystr \<Rightarrow> ctx" where
  "attach sv k = (case map_of (sv_sessions sv) k of
      Some c \<Rightarrow> c\<lparr>c_config := sv_config sv, c_agents := sv_agents sv, c_store := sv_store sv, c_events := sv_events sv\<rparr>
    | None \<Rightarrow> new_runtime_ctx sv k)"

definition commit :: "pystr \<Rightarrow> ctx \<Rightarrow> server \<Rightarrow> server" where
  "commit k c sv = sv\<lparr>sv_store := c_store c, sv_events := c_events c,
     sv_sessions := (if c_active c then AList.update k c (sv_sessions sv) else AList.delete k (sv_sessions sv))\<rparr>"

text \<open>The executor's entry points on the conversation \<open>k\<close>.\<close>

definition server_execute :: "turn_env \<Rightarrow> pystr \<Rightarrow> request \<Rightarrow> pystr \<Rightarrow> server \<Rightarrow> (exn + server) option" where
  "server_execute env task_id rq k sv = map_option (\<lambda>r. ebind r (\<lambda>(_, c, _). Inr (commit k c sv))) (execute env task_id rq (attach sv k))"

definition server_cancel :: "pystr \<Rightarrow> pystr \<Rightarrow> server \<Rightarrow> exn + server" where
  "server_cancel task_id k sv = ebind (cancel_turn task_id (attach sv k)) (\<lambda>c. Inr (commit k c sv))"

text \<open>\<open>shutdown\<close>: the tasks it cancels (a runner cancels its node and settlement tasks when it ends), and the empty server.\<close>

datatype server_task = Runner_task pystr | Node_task pystr nat | Settle_task pystr nat

definition shutdown_tasks :: "pystr \<times> ctx \<Rightarrow> server_task list" where
  "shutdown_tasks = (\<lambda>(k, c). (if c_runner c then [Runner_task k] else []) @ map (\<lambda>(i, _). Node_task k i) (c_node_tasks c)
     @ (if c_runner c then map (\<lambda>(i, _). Settle_task k i) (c_settle_tasks c) else []))"

definition server_shutdown :: "server \<Rightarrow> server_task list \<times> server" where
  "server_shutdown sv = (concat (map shutdown_tasks (sv_sessions sv)), sv\<lparr>sv_sessions := []\<rparr>)"

definition session_is_active :: "server \<Rightarrow> pystr \<Rightarrow> bool" where
  "session_is_active sv k = (case map_of (sv_sessions sv) k of None \<Rightarrow> False | Some c \<Rightarrow> c_runner c)"

section \<open>What every conversation keeps\<close>

definition state_inv :: "ExecutorConfig \<Rightarrow> OrchestrationState \<Rightarrow> bool" where
  "state_inv cfg s \<longleftrightarrow> (session_wf s \<and> one_pending s) \<and> within_budget cfg s"

lemma state_invariant_conj:
  assumes P: "state_invariant P cfg" and Q: "state_invariant Q cfg"
  shows "state_invariant (\<lambda>s. P s \<and> Q s) cfg"
proof -
  note P_rules =
      state_invariant.inv_transition [OF P] state_invariant.inv_touch [OF P] state_invariant.inv_recover [OF P]
      state_invariant.inv_add_node [OF P] state_invariant.inv_add_member [OF P] state_invariant.inv_expire [OF P]
      state_invariant.inv_ask [OF P] state_invariant.inv_touch_iv [OF P] state_invariant.inv_enqueue [OF P]
      state_invariant.inv_take [OF P] state_invariant.inv_new_plan [OF P] state_invariant.inv_patch_count [OF P]
      state_invariant.inv_derive [OF P] state_invariant.inv_revise [OF P]
  note Q_rules =
      state_invariant.inv_transition [OF Q] state_invariant.inv_touch [OF Q] state_invariant.inv_recover [OF Q]
      state_invariant.inv_add_node [OF Q] state_invariant.inv_add_member [OF Q] state_invariant.inv_expire [OF Q]
      state_invariant.inv_ask [OF Q] state_invariant.inv_touch_iv [OF Q] state_invariant.inv_enqueue [OF Q]
      state_invariant.inv_take [OF Q] state_invariant.inv_new_plan [OF Q] state_invariant.inv_patch_count [OF Q]
      state_invariant.inv_derive [OF Q] state_invariant.inv_revise [OF Q]
  show ?thesis by (rule state_invariant.intro; elim conjE; rule conjI) (rule P_rules Q_rules; blast)+
qed

interpretation srv: state_invariant "state_inv cfg" cfg pl for cfg pl
  using state_invariant_conj [OF state_invariant_conj [OF swf.state_invariant_axioms onep.state_invariant_axioms]
      budget.state_invariant_axioms]
  by (simp add: state_inv_def [abs_def])

text \<open>A stored state is the empty object of a new conversation, or the snapshot of a state that satisfies the invariant.\<close>

definition row_good :: "ExecutorConfig \<Rightarrow> json \<Rightarrow> bool" where
  "row_good cfg js \<longleftrightarrow> js = JObj [] \<or> (\<exists>s. state_inv cfg s \<and> js = state_to_json s)"

definition snapshots_ok :: "ExecutorConfig \<Rightarrow> Task list \<Rightarrow> bool" where
  "snapshots_ok cfg tasks \<longleftrightarrow> (\<forall>t \<in> set tasks. \<forall>js. tk_snapshot t = Some (Some js) \<longrightarrow> row_good cfg js)"

text \<open>The steps, each labelled with its conversation: a message, a background step of an open session, a cancellation, a
  rewind (the task store returns snapshots the server wrote), a created conversation.  Registering agents and shutting
  down belong to none.\<close>

inductive server_step :: "pystr option \<Rightarrow> server \<Rightarrow> server \<Rightarrow> bool" where
  srv_message: "server_execute env task_id rq k sv = Some (Inr sv') \<Longrightarrow> server_step (Some k) sv sv'"
| srv_background: "d_has (sv_sessions sv) k \<Longrightarrow> sys_step (attach sv k) c' \<Longrightarrow> server_step (Some k) sv (commit k c' sv)"
| srv_cancel: "server_cancel task_id k sv = Inr sv' \<Longrightarrow> server_step (Some k) sv sv'"
| srv_rewind: "snapshots_ok (sv_config sv) tasks \<Longrightarrow> rewind_conversation now m b (tasks, attach sv k) = Inr (tasks', c')
    \<Longrightarrow> server_step (Some k) sv (commit k c' sv)"
| srv_create: "\<not> d_has (sv_store sv) k \<Longrightarrow> server_step (Some k) sv (sv\<lparr>sv_store := AList.update k (JObj []) (sv_store sv)\<rparr>)"
| srv_registry: "server_step None sv (sv\<lparr>sv_agents := agents\<rparr>)"
| srv_shutdown: "server_step None sv (snd (server_shutdown sv))"

inductive_cases server_stepE: "server_step l sv sv'"

definition new_server :: "ExecutorConfig \<Rightarrow> (pystr \<Rightarrow> nat \<Rightarrow> pystr) \<Rightarrow> (pystr \<Rightarrow> nat \<Rightarrow> pystr) \<Rightarrow> server" where
  "new_server cfg uuid now = \<lparr>sv_config = cfg, sv_agents = [], sv_store = [], sv_events = [], sv_sessions = [],
     sv_uuid = uuid, sv_now = now\<rparr>"

definition session_ok :: "server \<Rightarrow> pystr \<Rightarrow> ctx \<Rightarrow> bool" where
  "session_ok sv k c \<longleftrightarrow> c_context_id c = k \<and> c_active c \<and> state_inv (sv_config sv) (c_state c)
     \<and> int (length (c_node_tasks c)) \<le> max 0 (cfg_max_parallel (sv_config sv))"

definition server_inv :: "server \<Rightarrow> bool" where
  "server_inv sv \<longleftrightarrow> distinct (d_keys (sv_sessions sv)) \<and> (\<forall>k c. map_of (sv_sessions sv) k = Some c \<longrightarrow> session_ok sv k c)
     \<and> (\<forall>k js. map_of (sv_store sv) k = Some js \<longrightarrow> row_good (sv_config sv) js)"

lemma state_inv_empty [simp]: "state_inv cfg empty_state"
  by (simp add: state_inv_def session_wf_def within_budget_def state_wf_def dict_wf_def queue_ids_wf_def queued_ids_def
      one_pending_def pending_count_for_def empty_state_def)

lemma state_inv_wf: "state_inv cfg s \<Longrightarrow> state_wf s"
  by (simp add: state_inv_def session_wf_def)

text \<open>What a snapshot keeps of a state satisfies the invariant too.\<close>

lemma state_inv_truncated:
  assumes "state_inv cfg s"
  shows "state_inv cfg (s\<lparr>nodes := map (\<lambda>(k, n). (k, n\<lparr>n_output := t (n_output n)\<rparr>)) (nodes s)\<rparr>)"
proof -
  let ?s = "s\<lparr>nodes := map (\<lambda>(k, n). (k, n\<lparr>n_output := t (n_output n)\<rparr>)) (nodes s)\<rparr>"
  have "state_wf ?s" using state_inv_wf [OF assms]
    by (simp add: state_wf_def dict_wf_def list_all_map_values case_prod_beta comp_def)
  moreover have "queue_ids_wf ?s" by (rule queue_ids_frame) (use assms in \<open>simp_all add: state_inv_def session_wf_def\<close>)
  moreover have "one_pending ?s" by (rule pending_count_frame) (use assms in \<open>simp_all add: state_inv_def\<close>)
  ultimately show ?thesis using assms by (simp add: state_inv_def session_wf_def within_budget_def)
qed

lemma load_good_row:
  assumes "row_good cfg js"
  obtains s where "load_state now (Some (Some js)) = Inr (Some s)" and "state_inv cfg s"
proof -
  consider "js = JObj []" | s where "state_inv cfg s" "js = state_to_json s" using assms by (auto simp: row_good_def)
  then show ?thesis
  proof cases
    case 1
    have "load_state now (Some (Some js)) = Inr (Some empty_state)"
      unfolding 1 load_state_def state_from_json_def by (simp add: empty_state_def load_dict_def load_queue_def)
    then show ?thesis using that by simp
  next
    case 2
    then show ?thesis using that state_inv_truncated [OF 2(1)] state_round_trip [OF state_inv_wf [OF 2(1)], of now]
      by (simp add: load_state_def)
  qed
qed

lemma attach_parts [simp]: "c_context_id (new_runtime_ctx sv k) = k" "c_state (new_runtime_ctx sv k) = empty_state"
  "c_active (new_runtime_ctx sv k) = False" "c_node_tasks (new_runtime_ctx sv k) = []" "c_config (attach sv k) = sv_config sv"
  "c_agents (attach sv k) = sv_agents sv" "c_store (attach sv k) = sv_store sv"
  by (simp_all add: new_runtime_ctx_def attach_def split: option.split)

lemma attach_open: "map_of (sv_sessions sv) k = Some c \<Longrightarrow> c_state (attach sv k) = c_state c \<and> c_active (attach sv k) = c_active c
    \<and> c_node_tasks (attach sv k) = c_node_tasks c \<and> c_context_id (attach sv k) = c_context_id c"
  by (simp add: attach_def)

lemma attach_closed: "map_of (sv_sessions sv) k = None \<Longrightarrow> attach sv k = new_runtime_ctx sv k"
  by (simp add: attach_def)

abbreviation server_place :: "server \<Rightarrow> pystr \<Rightarrow> session_place" where
  "server_place sv k \<equiv> place_of (own_row (attach sv k)) (attach sv k)"

abbreviation runtime_ok :: "server \<Rightarrow> pystr \<Rightarrow> ctx \<Rightarrow> bool" where
  "runtime_ok sv k \<equiv> ctx_inv (state_inv (sv_config sv)) (sv_config sv) (server_place sv k)"

lemma attach_context: "server_inv sv \<Longrightarrow> c_context_id (attach sv k) = k"
  by (cases "map_of (sv_sessions sv) k") (auto simp: server_inv_def session_ok_def attach_open attach_closed)

lemma attach_state: "server_inv sv \<Longrightarrow> state_inv (sv_config sv) (c_state (attach sv k))
    \<and> int (length (c_node_tasks (attach sv k))) \<le> max 0 (cfg_max_parallel (sv_config sv))"
  by (cases "map_of (sv_sessions sv) k") (auto simp: server_inv_def session_ok_def attach_open attach_closed)

lemma attach_ok: "server_inv sv \<Longrightarrow> runtime_ok sv k (attach sv k)"
  by (simp add: ctx_inv_def attach_state)

lemma place_parts:
  assumes "place_of r c' = place_of r c"
  shows "c_context_id c' = c_context_id c \<and> c_agents c' = c_agents c
    \<and> (\<forall>j. j \<noteq> c_context_id c \<longrightarrow> map_of (c_store c') j = map_of (c_store c) j)"
proof -
  have id: "c_context_id c' = c_context_id c" and "c_agents c' = c_agents c"
    and o: "(map_of (c_store c'))(c_context_id c' := None) = (map_of (c_store c))(c_context_id c := None)"
    using assms by (auto simp: place_of_def)
  moreover have "map_of (c_store c') j = map_of (c_store c) j" if "j \<noteq> c_context_id c" for j
    using fun_cong [OF o, of j] that id by simp
  ultimately show ?thesis by blast
qed

text \<open>What a step on \<open>k\<close> may have changed, and that writing it back keeps the invariant.\<close>

lemma runtime_okD:
  assumes "server_inv sv" and "runtime_ok sv k c"
  shows "c_context_id c = k" and "c_agents c = sv_agents sv" and "j \<noteq> k \<Longrightarrow> map_of (c_store c) j = map_of (sv_store sv) j"
    and "map_of (c_store c) k = Some js \<Longrightarrow> row_good (sv_config sv) js"
proof -
  have p: "place_of (own_row (attach sv k)) c = place_of (own_row (attach sv k)) (attach sv k)"
    and r: "row_ok (state_inv (sv_config sv)) (server_place sv k) (own_row c)"
    using assms(2) by (simp_all add: ctx_inv_def)
  note f = place_parts [OF p] attach_context [OF assms(1), of k]
  then show c: "c_context_id c = k" and "c_agents c = sv_agents sv"
    and "j \<noteq> k \<Longrightarrow> map_of (c_store c) j = map_of (sv_store sv) j" by simp_all
  show "row_good (sv_config sv) js" if "map_of (c_store c) k = Some js"
  proof -
    have "own_row c = Some js" "own_row (attach sv k) = map_of (sv_store sv) k" using that f by (simp_all add: own_row_def)
    then consider "map_of (sv_store sv) k = Some js" | s where "state_inv (sv_config sv) s" "js = state_to_json s"
      using r by (auto simp: row_ok_def)
    then show ?thesis using assms(1) by cases (auto simp: server_inv_def row_good_def)
  qed
qed

lemma commit_sessions:
  "map_of (sv_sessions (commit k c sv)) j = (if j = k then if c_active c then Some c else None else map_of (sv_sessions sv) j)"
  by (simp add: commit_def update_conv' delete_conv')

lemma commit_parts [simp]: "sv_config (commit k c sv) = sv_config sv" "sv_agents (commit k c sv) = sv_agents sv"
  "sv_store (commit k c sv) = c_store c" "sv_events (commit k c sv) = c_events c"
  by (simp_all add: commit_def)

lemma commit_inv:
  assumes "server_inv sv" and "runtime_ok sv k c"
  shows "server_inv (commit k c sv)"
proof -
  have "distinct (d_keys (sv_sessions (commit k c sv)))"
    using assms(1) by (simp add: server_inv_def commit_def distinct_update distinct_delete)
  moreover have "session_ok (commit k c sv) j d" if "map_of (sv_sessions (commit k c sv)) j = Some d" for j d
    using that assms runtime_okD(1) [OF assms]
    by (auto simp: commit_sessions server_inv_def session_ok_def ctx_inv_def split: if_splits)
  moreover have "row_good (sv_config sv) js" if "map_of (c_store c) j = Some js" for j js
    using that runtime_okD(3,4) [OF assms] assms(1) by (cases "j = k") (auto simp: server_inv_def)
  ultimately show ?thesis by (simp add: server_inv_def)
qed

text \<open>Opening a conversation never fails, and gives a runtime in order.\<close>

lemma ensure_ok:
  assumes "server_inv sv"
  obtains c where "ensure_session t (attach sv k) = Inr c" and "runtime_ok sv k c" and "c_active c"
proof (cases "c_active (attach sv k)")
  case True
  then show ?thesis using that [of "attach sv k\<lparr>c_task_id := t\<rparr>"] attach_ok [OF assms] by (simp add: ensure_session_def)
next
  case False
  let ?c = "attach sv k" and ?cfg = "sv_config sv"
  have "\<exists>st. session_load_state (c_now ?c (c_tick ?c)) (c_store ?c) (c_context_id ?c) = Inr st
      \<and> state_inv ?cfg (case st of None \<Rightarrow> empty_state | Some s \<Rightarrow> s)"
  proof (cases "map_of (sv_store sv) k")
    case (Some js)
    then have "row_good ?cfg js" using assms by (simp add: server_inv_def)
    then obtain s where "load_state (c_now ?c (c_tick ?c)) (Some (Some js)) = Inr (Some s)" "state_inv ?cfg s"
      by (rule load_good_row)
    then show ?thesis using Some attach_context [OF assms, of k] by (auto simp: session_load_state_def)
  qed (use attach_context [OF assms, of k] in \<open>auto simp: session_load_state_def\<close>)
  then obtain st where st: "session_load_state (c_now ?c (c_tick ?c)) (c_store ?c) (c_context_id ?c) = Inr st"
    "state_inv ?cfg (case st of None \<Rightarrow> empty_state | Some s \<Rightarrow> s)" by blast
  then show ?thesis using that False attach_ok [OF assms, of k]
    by (auto simp: ensure_session_def ctx_inv_def)
qed

section \<open>The steps keep the invariant\<close>

lemma execute_ok:
  assumes "server_inv sv" and "execute env t rq (attach sv k) = Some (Inr (out, c', rq'))"
  shows "runtime_ok sv k c'"
proof -
  obtain c where c: "ensure_session t (attach sv k) = Inr c" "runtime_ok sv k c" using ensure_ok [OF assms(1)] .
  show ?thesis using assms(2) c by (auto simp: execute_def Let_def split: if_splits prod.splits dest!: srv.run_message_CI)
qed

lemma restore_state_inv:
  assumes "restore_state now visible t = Inr s" and "snapshots_ok cfg visible"
  shows "state_inv cfg s"
proof -
  have "state_inv cfg s" if h: "load_state now (tk_snapshot x) = Inr (Some s)" and x: "x \<in> set visible" for x
  proof -
    obtain raw where raw: "tk_snapshot x = Some raw" using h by (cases "tk_snapshot x") (auto simp: load_state_def)
    obtain js where js: "raw = Some js" using h raw by (cases raw) (auto simp: load_state_def state_from_json_def)
    then have "row_good cfg js" using assms(2) x raw by (auto simp: snapshots_ok_def)
    then obtain s' where "load_state now (Some (Some js)) = Inr (Some s')" "state_inv cfg s'" by (rule load_good_row)
    then show ?thesis using h raw js by simp
  qed
  moreover have "visible ! (pos - 1) \<in> set visible" if "task_index visible t = Some pos" for pos
  proof -
    have "(t, pos) \<in> set (zip (map tk_id visible) [0..<length visible])" using map_of_SomeD [OF that [unfolded task_index_def]] by simp
    then have "pos < length visible" by (auto dest: set_zip_rightD)
    then show ?thesis by simp
  qed
  ultimately show ?thesis using assms(1)
    by (auto simp: restore_state_def Let_def ebind_eq_Inr split: option.splits if_splits)
qed

lemma rewind_ok:
  assumes "server_inv sv" and "snapshots_ok (sv_config sv) tasks"
    and "rewind_conversation now m b (tasks, attach sv k) = Inr (tasks', c')"
  shows "runtime_ok sv k c'"
proof -
  let ?c = "attach sv k" and ?vis = "list_all_tasks True (filter (\<lambda>t. tk_context t = k) tasks)"
  have "set ?vis \<subseteq> set tasks" using iter_tasks_subset [of "[]" "filter (\<lambda>t. tk_context t = k) tasks"]
    by (auto simp: list_all_tasks_def iter_all_tasks_def Let_def)
  then have v: "snapshots_ok (sv_config sv) ?vis" using assms(2) by (auto simp: snapshots_ok_def)
  obtain s where s: "restore_state now ?vis b = Inr s" and c': "c' = evict_session (?c\<lparr>c_store := upsert_state k (state_to_json s) (c_store ?c)\<rparr>)"
    using assms(3) attach_context [OF assms(1), of k]
    by (auto simp: rewind_conversation_def Let_def split: if_splits option.splits sum.splits exn.splits)
  have st: "state_inv (sv_config sv) s" by (rule restore_state_inv [OF s v])
  have "runtime_ok sv k (?c\<lparr>c_store := upsert_state k (state_to_json s) (c_store ?c)\<rparr>)"
    using attach_ok [OF assms(1), of k] st attach_context [OF assms(1), of k]
    by (simp add: ctx_inv_def place_of_def own_row_def upsert_state_def update_conv')
  then show ?thesis unfolding c' by (rule ctx_inv_evict)
qed

text \<open>The runtime a step writes back, for the steps of one conversation.\<close>

lemma server_step_commit:
  assumes "server_step (Some k) sv sv'" and "server_inv sv"
  shows "(\<exists>c. runtime_ok sv k c \<and> sv' = commit k c sv) \<or> (\<not> d_has (sv_store sv) k \<and> sv' = sv\<lparr>sv_store := AList.update k (JObj []) (sv_store sv)\<rparr>)"
  using assms(1)
proof (cases rule: server_step.cases)
  case (srv_message env task_id rq)
  then obtain out c' rq' where "execute env task_id rq (attach sv k) = Some (Inr (out, c', rq'))" "sv' = commit k c' sv"
    by (auto simp: server_execute_def ebind_eq_Inr)
  then show ?thesis using execute_ok [OF assms(2)] by blast
next
  case (srv_background c')
  then show ?thesis using srv.sys_step_CI attach_ok [OF assms(2)] by blast
next
  case (srv_cancel task_id)
  then obtain c where c: "cancel_turn task_id (attach sv k) = Inr c" "sv' = commit k c sv"
    by (auto simp: server_cancel_def ebind_eq_Inr)
  then show ?thesis using srv.cancel_turn_CI [OF c(1) attach_ok [OF assms(2)]] by blast
next
  case (srv_rewind tasks now m b tasks' c')
  then show ?thesis using rewind_ok [OF assms(2)] by blast
qed blast

lemma server_step_inv:
  assumes "server_inv sv" and "server_step l sv sv'"
  shows "server_inv sv'"
proof (cases l)
  case None
  then show ?thesis using assms(2,1)
    by (auto elim!: server_stepE simp: server_inv_def session_ok_def server_shutdown_def)
next
  case (Some k)
  then consider c where "runtime_ok sv k c" "sv' = commit k c sv" | "sv' = sv\<lparr>sv_store := AList.update k (JObj []) (sv_store sv)\<rparr>"
    using server_step_commit [OF assms(2) [unfolded Some] assms(1)] by blast
  then show ?thesis
  proof cases
    case 1
    then show ?thesis using commit_inv [OF assms(1)] by simp
  next
    case 2
    then show ?thesis using assms(1)
      by (auto simp: server_inv_def session_ok_def update_conv' row_good_def split: if_splits)
  qed
qed

lemma new_server_inv: "server_inv (new_server cfg uuid now)"
  by (simp add: server_inv_def new_server_def)

lemma server_step_config: "server_step l sv sv' \<Longrightarrow> sv_config sv' = sv_config sv"
  by (erule server_stepE) (auto simp: server_execute_def server_cancel_def server_shutdown_def ebind_eq_Inr)

interpretation servers: transition_system "\<lambda>sv. \<exists>uuid now. sv = new_server cfg uuid now" "\<lambda>sv sv'. \<exists>l. server_step l sv sv'"
  "\<lambda>sv. server_inv sv \<and> sv_config sv = cfg" for cfg
proof unfold_locales
  show "server_inv sv \<and> sv_config sv = cfg" if "\<exists>uuid now. sv = new_server cfg uuid now" for sv
    using that new_server_inv by (auto simp: new_server_def)
  show "server_inv sv' \<and> sv_config sv' = cfg" if "server_inv sv \<and> sv_config sv = cfg" "\<exists>l. server_step l sv sv'" for sv sv'
    using that server_step_inv server_step_config by metis
qed

section \<open>The server as a whole\<close>



text \<open>A shutdown leaves no session and cancels the runner and every node task of each one; a conversation whose last state
  was persisted is then opened again with that state, node outputs cut to 2000 characters, its tasks and history empty.\<close>

theorem shutdown_restart:
  assumes "server_inv sv" and "map_of (sv_sessions sv) k = Some c" and "map_of (sv_store sv) k = Some (state_to_json (c_state c))"
    and "server_shutdown sv = (tasks, sv')"
  shows "sv_sessions sv' = [] \<and> (c_runner c \<longrightarrow> Runner_task k \<in> set tasks) \<and> (\<forall>(i, x) \<in> set (c_node_tasks c). Node_task k i \<in> set tasks)
    \<and> (\<exists>c'. ensure_session t (attach sv' k) = Inr c' \<and> c_active c' \<and> c_node_tasks c' = [] \<and> \<not> c_runner c' \<and> c_messages c' = []
        \<and> c_state c' = (c_state c)\<lparr>nodes := map (\<lambda>(k, n). (k, n\<lparr>n_output := truncate_to 2000 (n_output n)\<rparr>)) (nodes (c_state c))\<rparr>)"
proof -
  have sv': "sv' = sv\<lparr>sv_sessions := []\<rparr>" and ts: "tasks = concat (map shutdown_tasks (sv_sessions sv))"
    using assms(4) by (simp_all add: server_shutdown_def)
  have kc: "(k, c) \<in> set (sv_sessions sv)" by (rule map_of_SomeD [OF assms(2)])
  have "state_inv (sv_config sv) (c_state c)" using assms(1,2) unfolding server_inv_def session_ok_def by blast
  then have wf: "state_wf (c_state c)" by (rule state_inv_wf)
  have a: "attach sv' k = new_runtime_ctx sv' k" "c_store (new_runtime_ctx sv' k) = sv_store sv" by (simp_all add: sv' attach_def new_runtime_ctx_def)
  have "set (shutdown_tasks (k, c)) \<subseteq> set tasks" using kc unfolding ts by auto
  then have "c_runner c \<longrightarrow> Runner_task k \<in> set tasks" and "\<forall>(i, x) \<in> set (c_node_tasks c). Node_task k i \<in> set tasks"
    by (auto simp: shutdown_tasks_def)
  moreover have "\<exists>c'. ensure_session t (attach sv' k) = Inr c' \<and> c_active c' \<and> c_node_tasks c' = [] \<and> \<not> c_runner c' \<and> c_messages c' = []
      \<and> c_state c' = (c_state c)\<lparr>nodes := map (\<lambda>(k, n). (k, n\<lparr>n_output := truncate_to 2000 (n_output n)\<rparr>)) (nodes (c_state c))\<rparr>"
    unfolding ensure_session_def session_load_state_def load_state_def a using assms(3) by (simp add: state_round_trip [OF wf])
  ultimately show ?thesis using sv' by simp
qed

definition demo_server :: server where
  "demo_server = (new_server example_config (\<lambda>k i. []) (\<lambda>k i. []))\<lparr>sv_store := [(py ''k1'', state_to_json empty_state)],
     sv_sessions := [(py ''k1'', (example_ctx empty_state)\<lparr>c_active := True, c_runner := True, c_node_tasks := [(7, py ''a'')]\<rparr>)]\<rparr>"

lemma demo_server_inv: "server_inv demo_server"
proof -
  have "row_good example_config (state_to_json empty_state)" unfolding row_good_def using state_inv_empty by blast
  then show ?thesis by (simp add: server_inv_def demo_server_def session_ok_def new_server_def example_ctx_def example_config_def)
qed



theorem shutdown_restart_witness:
  "Runner_task (py ''k1'') \<in> set (fst (server_shutdown demo_server)) \<and> Node_task (py ''k1'') 7 \<in> set (fst (server_shutdown demo_server))
   \<and> (\<exists>c'. ensure_session (py ''t9'') (attach (snd (server_shutdown demo_server)) (py ''k1'')) = Inr c' \<and> c_state c' = empty_state)"
proof -
  let ?c = "(example_ctx empty_state)\<lparr>c_active := True, c_runner := True, c_node_tasks := [(7, py ''a'')]\<rparr>"
  have "map_of (sv_sessions demo_server) (py ''k1'') = Some ?c" "map_of (sv_store demo_server) (py ''k1'') = Some (state_to_json (c_state ?c))"
    by (simp_all add: demo_server_def example_ctx_def)
  note r = shutdown_restart [OF demo_server_inv this, of "fst (server_shutdown demo_server)" "snd (server_shutdown demo_server)" "py ''t9''"]
  show ?thesis using r by (auto simp: example_ctx_def empty_state_def)
qed

end
