(* ===== verification/Database.thy ===== *)
theory Database
  imports Prelude Refinement
begin

text \<open>
  The database wrapper of \<open>choirworks\<close> (\<open>store/db.py\<close>): one connection shared by all coroutines, a lock around transactions,
  and \<open>transaction\<close>, whose body commits as a whole or is rolled back.  Coroutines interleave at every \<open>await\<close>; one step is
  what happens up to the next one.  SQLite itself is a value of type \<open>'d\<close> (the committed contents) and a working copy
  while a transaction is open; the body's statements are functions on the contents that may raise.

  The faults the wrapper meets are steps too: a busy \<open>BEGIN\<close>, a cancellation at each \<open>await\<close> (\<open>aiosqlite\<close> runs a statement
  in its thread and finishes it even when the coroutine that waits is cancelled), a \<open>COMMIT\<close> that fails and leaves the transaction open.
\<close>

section \<open>The connection and its transactions\<close>

datatype db_error = Not_connected | Operational_error pystr | Task_cancelled | Body_error exn

type_synonym 'd statement = "'d \<Rightarrow> exn + 'd"

text \<open>Where a coroutine is in \<open>transaction\<close>: at the lock, before \<open>BEGIN\<close>, in the body (statements done and left), or out.\<close>

datatype 'd tx_phase = At_lock | At_begin | In_body "'d statement list" "'d statement list" | Tx_done "db_error option"

record 'd tx_task =
  tx_body :: "'d statement list"
  tx_phase :: "'d tx_phase"

record 'd database =
  db_disk :: 'd
  db_conn :: "'d option option"
  db_lock :: "nat option"
  db_tasks :: "'d tx_task list"

text \<open>What the next \<open>await\<close> of a coroutine may bring.\<close>

datatype db_event = Go | Busy | Cancel_late | Cancel | Commit_fails

definition leave_tx :: "nat \<Rightarrow> db_error option \<Rightarrow> 'd database \<Rightarrow> 'd database" where
  "leave_tx i r db = db\<lparr>db_lock := None, db_tasks := (db_tasks db)[i := (db_tasks db ! i)\<lparr>tx_phase := Tx_done r\<rparr>]\<rparr>"

definition to_phase :: "nat \<Rightarrow> 'd tx_phase \<Rightarrow> 'd database \<Rightarrow> 'd database" where
  "to_phase i ph db = db\<lparr>db_tasks := (db_tasks db)[i := (db_tasks db ! i)\<lparr>tx_phase := ph\<rparr>]\<rparr>"

definition nested_begin :: pystr where
  "nested_begin = py ''cannot start a transaction within a transaction''"

definition locked_error :: pystr where
  "locked_error = py ''database is locked''"

text \<open>\<open>BEGIN IMMEDIATE\<close>, issued with the lock held: not inside the \<open>try\<close>.\<close>

fun begin_tx :: "db_event \<Rightarrow> nat \<Rightarrow> 'd database \<Rightarrow> 'd database option" where
  "begin_tx ev i db = (case db_conn db of
      None \<Rightarrow> Some (leave_tx i (Some Not_connected) db)
    | Some (Some w) \<Rightarrow> Some (leave_tx i (Some (Operational_error nested_begin)) db)
    | Some None \<Rightarrow> (case ev of
         Go \<Rightarrow> Some (to_phase i (In_body [] (tx_body (db_tasks db ! i))) (db\<lparr>db_conn := Some (Some (db_disk db))\<rparr>))
       | Busy \<Rightarrow> Some (leave_tx i (Some (Operational_error locked_error)) db)
       | Cancel \<Rightarrow> Some (leave_tx i (Some Task_cancelled) db)
       | Cancel_late \<Rightarrow> Some (leave_tx i (Some Task_cancelled) (db\<lparr>db_conn := Some (Some (db_disk db))\<rparr>))
       | Commit_fails \<Rightarrow> None))"

text \<open>The body, with the connection's working copy: the next statement, or \<open>commit\<close> after the last.  An exception, which a
  cancellation is too, rolls back; a cancellation during \<open>commit\<close> comes after the \<open>try\<close>, and SQLite commits all the same.\<close>

fun body_tx :: "db_event \<Rightarrow> nat \<Rightarrow> 'd \<Rightarrow> 'd statement list \<Rightarrow> 'd statement list \<Rightarrow> 'd database \<Rightarrow> 'd database option" where
  "body_tx Go i w done [] db = Some (leave_tx i None (db\<lparr>db_disk := w, db_conn := Some None\<rparr>))"
| "body_tx Cancel_late i w done [] db = Some (leave_tx i (Some Task_cancelled) (db\<lparr>db_disk := w, db_conn := Some None\<rparr>))"
| "body_tx Commit_fails i w done [] db = Some (leave_tx i (Some (Operational_error locked_error)) db)"
| "body_tx Go i w done (st # sts) db = (case st w of
      Inr w' \<Rightarrow> Some (to_phase i (In_body (done @ [st]) sts) (db\<lparr>db_conn := Some (Some w')\<rparr>))
    | Inl e \<Rightarrow> Some (leave_tx i (Some (Body_error e)) (db\<lparr>db_conn := Some None\<rparr>)))"
| "body_tx Cancel i w done (st # sts) db = Some (leave_tx i (Some Task_cancelled) (db\<lparr>db_conn := Some None\<rparr>))"
| "body_tx ev i w done sts db = None"

text \<open>One step of the coroutine \<open>i\<close> inside \<open>transaction\<close>.\<close>

fun transaction_step :: "db_event \<Rightarrow> nat \<Rightarrow> 'd database \<Rightarrow> 'd database option" where
  "transaction_step ev i db = (if length (db_tasks db) \<le> i then None
     else case tx_phase (db_tasks db ! i) of
       At_lock \<Rightarrow> (if db_lock db = None \<and> ev = Go then Some (to_phase i At_begin (db\<lparr>db_lock := Some i\<rparr>))
                  else if ev = Cancel then Some (to_phase i (Tx_done (Some Task_cancelled)) db) else None)
     | At_begin \<Rightarrow> begin_tx ev i db
     | In_body done sts \<Rightarrow> (case db_conn db of Some (Some w) \<Rightarrow> body_tx ev i w done sts db | _ \<Rightarrow> None)
     | Tx_done r \<Rightarrow> None)"

text \<open>A reader on the same connection takes no lock: it sees the working copy of an open transaction.\<close>

definition db_read :: "'d database \<Rightarrow> db_error + 'd" where
  "db_read db = (case db_conn db of None \<Rightarrow> Inl Not_connected | Some None \<Rightarrow> Inr (db_disk db) | Some (Some w) \<Rightarrow> Inr w)"

definition db_connect :: "'d database \<Rightarrow> 'd database" where
  "db_connect db = (if db_conn db = None then db\<lparr>db_conn := Some None\<rparr> else db)"

definition db_close :: "'d database \<Rightarrow> 'd database" where
  "db_close db = db\<lparr>db_conn := None\<rparr>"

text \<open>\<open>initialize\<close>: connects if needed; \<open>executescript\<close> commits what is open, then creates the missing tables.\<close>

definition db_initialize :: "('d \<Rightarrow> 'd) \<Rightarrow> 'd database \<Rightarrow> 'd database" where
  "db_initialize schema db = (let db1 = db_connect db in
     case db_conn db1 of
       Some (Some w) \<Rightarrow> db1\<lparr>db_disk := schema w, db_conn := Some None\<rparr>
     | _ \<Rightarrow> db1\<lparr>db_disk := schema (db_disk db1)\<rparr>)"

text \<open>The steps: a coroutine enters \<open>transaction\<close>, one inside it goes on, another connection (the A2A task store) commits while
  no transaction is open here, and the connection is closed and opened when no one is inside.\<close>

datatype 'd db_label = New_tx "'d statement list" | Tx_step nat db_event | Other_write "'d \<Rightarrow> 'd" | Reopen

fun db_do :: "'d db_label \<Rightarrow> 'd database \<Rightarrow> 'd database option" where
  "db_do (New_tx body) db = Some (db\<lparr>db_tasks := db_tasks db @ [\<lparr>tx_body = body, tx_phase = At_lock\<rparr>]\<rparr>)"
| "db_do (Tx_step i ev) db = transaction_step ev i db"
| "db_do (Other_write f) db = (case db_conn db of
    Some (Some w) \<Rightarrow> None | _ \<Rightarrow> Some (db\<lparr>db_disk := f (db_disk db)\<rparr>))"
| "db_do Reopen db = (if db_lock db = None then Some (db_connect (db_close db)) else None)"

definition db_start :: "'d \<Rightarrow> 'd database" where
  "db_start d = \<lparr>db_disk = d, db_conn = Some None, db_lock = None, db_tasks = []\<rparr>"

section \<open>Atomic transactions\<close>

text \<open>The abstract machine: the committed contents and, for each transaction, its outcome once it has one.  A transaction
  applies all its statements at once and reports success (or that it was cancelled while it committed), or fails and
  changes nothing.\<close>

definition run_body :: "'d statement list \<Rightarrow> 'd \<Rightarrow> exn + 'd" where
  "run_body sts d = efold (\<lambda>st w. st w) sts d"

record 'd atomic =
  at_disk :: 'd
  at_txs :: "('d statement list \<times> db_error option option) list"

inductive atomic_step :: "'d atomic \<Rightarrow> 'd atomic \<Rightarrow> bool" where
  at_new: "atomic_step a (a\<lparr>at_txs := at_txs a @ [(body, None)]\<rparr>)"
| at_commit: "i < length (at_txs a) \<Longrightarrow> at_txs a ! i = (body, None) \<Longrightarrow> run_body body (at_disk a) = Inr d
    \<Longrightarrow> r = None \<or> r = Some Task_cancelled \<Longrightarrow> atomic_step a (a\<lparr>at_disk := d, at_txs := (at_txs a)[i := (body, Some r)]\<rparr>)"
| at_fail: "i < length (at_txs a) \<Longrightarrow> at_txs a ! i = (body, None)
    \<Longrightarrow> atomic_step a (a\<lparr>at_txs := (at_txs a)[i := (body, Some (Some e))]\<rparr>)"
| at_other: "atomic_step a (a\<lparr>at_disk := f (at_disk a)\<rparr>)"

definition tx_outcome :: "'d tx_task \<Rightarrow> 'd statement list \<times> db_error option option" where
  "tx_outcome t = (tx_body t, case tx_phase t of Tx_done r \<Rightarrow> Some r | _ \<Rightarrow> None)"

definition atomic_of :: "'d database \<Rightarrow> 'd atomic" where
  "atomic_of db = \<lparr>at_disk = db_disk db, at_txs = map tx_outcome (db_tasks db)\<rparr>"

text \<open>The invariant: only the holder of the lock is past it; in its body the working copy is the committed contents with the
  statements done so far; a transaction left open by a fault belongs to no one.\<close>

fun inside :: "'d tx_phase \<Rightarrow> bool" where
  "inside At_begin = True"
| "inside (In_body done sts) = True"
| "inside ph = False"

definition db_inv :: "'d database \<Rightarrow> bool" where
  "db_inv db \<longleftrightarrow> (\<forall>i < length (db_tasks db). inside (tx_phase (db_tasks db ! i)) \<longrightarrow> db_lock db = Some i)
     \<and> (\<forall>i. db_lock db = Some i \<longrightarrow> i < length (db_tasks db) \<and> inside (tx_phase (db_tasks db ! i)))
     \<and> (\<forall>i < length (db_tasks db). \<forall>done sts. tx_phase (db_tasks db ! i) = In_body done sts
          \<longrightarrow> tx_body (db_tasks db ! i) = done @ sts \<and> (\<exists>w. db_conn db = Some (Some w) \<and> run_body done (db_disk db) = Inr w))"

lemma db_invD:
  assumes "db_inv db"
  shows "i < length (db_tasks db) \<Longrightarrow> inside (tx_phase (db_tasks db ! i)) \<Longrightarrow> db_lock db = Some i"
    and "db_lock db = Some i \<Longrightarrow> i < length (db_tasks db) \<and> inside (tx_phase (db_tasks db ! i))"
    and "i < length (db_tasks db) \<Longrightarrow> tx_phase (db_tasks db ! i) = In_body done sts
      \<Longrightarrow> tx_body (db_tasks db ! i) = done @ sts \<and> (\<exists>w. db_conn db = Some (Some w) \<and> run_body done (db_disk db) = Inr w)"
  using assms unfolding db_inv_def by blast+

lemma db_invI:
  assumes "\<And>i. i < length (db_tasks db) \<Longrightarrow> inside (tx_phase (db_tasks db ! i)) \<Longrightarrow> db_lock db = Some i"
    and "\<And>i. db_lock db = Some i \<Longrightarrow> i < length (db_tasks db) \<and> inside (tx_phase (db_tasks db ! i))"
    and "\<And>i dn sts. i < length (db_tasks db) \<Longrightarrow> tx_phase (db_tasks db ! i) = In_body dn sts
      \<Longrightarrow> tx_body (db_tasks db ! i) = dn @ sts \<and> (\<exists>w. db_conn db = Some (Some w) \<and> run_body dn (db_disk db) = Inr w)"
  shows "db_inv db"
  using assms unfolding db_inv_def by blast

lemma free_inv:
  assumes "db_lock db = None" and "\<And>i. i < length (db_tasks db) \<Longrightarrow> \<not> inside (tx_phase (db_tasks db ! i))"
  shows "db_inv db"
  using assms unfolding db_inv_def by fastforce

text \<open>Leaving a transaction, whatever becomes of the connection and of the contents, keeps the invariant: no one else is inside.\<close>

lemma leave_inv:
  assumes "db_inv db" and "i < length (db_tasks db)" and "inside (tx_phase (db_tasks db ! i))" and "db_tasks db' = db_tasks db"
  shows "db_inv (leave_tx i r db')"
proof (rule free_inv)
  fix j
  assume "j < length (db_tasks (leave_tx i r db'))"
  then show "\<not> inside (tx_phase (db_tasks (leave_tx i r db') ! j))"
    using assms(2,4) db_invD(1) [OF assms(1), of j] db_invD(1) [OF assms(1,2,3)]
    by (cases "j = i") (auto simp: leave_tx_def)
qed (simp add: leave_tx_def)

lemma stay_inv:
  assumes "db_inv db" and "i < length (db_tasks db)" and "inside (tx_phase (db_tasks db ! i))" and "inside ph"
    and "db_tasks db' = db_tasks db" and "db_lock db' = db_lock db"
    and "\<And>done sts. ph = In_body done sts \<Longrightarrow> tx_body (db_tasks db ! i) = done @ sts
      \<and> (\<exists>w. db_conn db' = Some (Some w) \<and> run_body done (db_disk db') = Inr w)"
  shows "db_inv (to_phase i ph db')"
proof -
  have i: "db_lock db = Some i" by (rule db_invD(1) [OF assms(1-3)])
  then have others: "\<not> inside (tx_phase (db_tasks db ! j))" if "j < length (db_tasks db)" "j \<noteq> i" for j
    using that db_invD(1) [OF assms(1)] by fastforce
  have j: "tx_phase (db_tasks (to_phase i ph db') ! j) \<noteq> In_body dn sts \<and> \<not> inside (tx_phase (db_tasks (to_phase i ph db') ! j))"
    if "j < length (db_tasks db)" "j \<noteq> i" for j dn sts
    using that assms(5) others [of j] by (cases "tx_phase (db_tasks db ! j)") (simp_all add: to_phase_def)
  let ?db = "to_phase i ph db'"
  have same: "length (db_tasks ?db) = length (db_tasks db)" "db_lock ?db = Some i" "tx_phase (db_tasks ?db ! i) = ph"
    "tx_body (db_tasks ?db ! i) = tx_body (db_tasks db ! i)" "db_conn ?db = db_conn db'" "db_disk ?db = db_disk db'"
    using i assms(2,5,6) by (simp_all add: to_phase_def)
  have "tx_body (db_tasks ?db ! k) = dn @ sts \<and> (\<exists>w. db_conn ?db = Some (Some w) \<and> run_body dn (db_disk ?db) = Inr w)"
    if "k < length (db_tasks ?db)" "tx_phase (db_tasks ?db ! k) = In_body dn sts" for k dn sts
    using that j [of k] assms(7) same by (cases "k = i") auto
  then show ?thesis unfolding db_inv_def using assms(2,4) j same by (metis option.inject)
qed

lemma run_body_append [simp]: "run_body (xs @ ys) d = ebind (run_body xs d) (run_body ys)"
  by (induction xs arbitrary: d) (auto simp: run_body_def ebind_def split: sum.splits)

lemma run_body_one [simp]: "run_body [] d = Inr d" "run_body [st] d = st d"
  by (simp_all add: run_body_def ebind_def split: sum.splits)

text \<open>What the steps are to the atomic machine.\<close>

lemma atomic_leave: "atomic_of (leave_tx i r db) = (atomic_of db)\<lparr>at_txs := (at_txs (atomic_of db))[i := (tx_body (db_tasks db ! i), Some r)]\<rparr>"
  by (simp add: atomic_of_def leave_tx_def map_update tx_outcome_def)

lemma atomic_stay:
  assumes "i < length (db_tasks db)" and "\<And>r. tx_phase (db_tasks db ! i) \<noteq> Tx_done r" and "\<And>r. ph \<noteq> Tx_done r"
  shows "atomic_of (to_phase i ph db) = atomic_of db"
proof -
  have "tx_outcome ((db_tasks db ! i)\<lparr>tx_phase := ph\<rparr>) = map tx_outcome (db_tasks db) ! i"
    using assms by (simp add: tx_outcome_def split: tx_phase.split)
  then show ?thesis using list_update_id [of "map tx_outcome (db_tasks db)" i] by (simp add: atomic_of_def to_phase_def map_update)
qed

lemma atomic_leave_fails:
  assumes "i < length (db_tasks db)" and "inside (tx_phase (db_tasks db ! i))" and "db_tasks db' = db_tasks db" and "db_disk db' = db_disk db"
  shows "atomic_step (atomic_of db) (atomic_of (leave_tx i (Some e) db'))"
proof -
  have "at_txs (atomic_of db) ! i = (tx_body (db_tasks db ! i), None)" using assms(1,2)
    by (cases "tx_phase (db_tasks db ! i)") (simp_all add: atomic_of_def tx_outcome_def)
  moreover have "atomic_of db' = atomic_of db" using assms(3,4) by (simp add: atomic_of_def)
  ultimately show ?thesis using at_fail [of i "atomic_of db" "tx_body (db_tasks db ! i)" e] assms(1,3)
    by (simp add: atomic_leave) (simp add: atomic_of_def)
qed

text \<open>A step of a coroutine keeps the invariant and is matched by at most one atomic step.\<close>

lemma begin_simulated:
  assumes "db_inv db" and "i < length (db_tasks db)" and "tx_phase (db_tasks db ! i) = At_begin" and "begin_tx ev i db = Some db'"
  shows "db_inv db' \<and> atomic_step\<^sup>*\<^sup>* (atomic_of db) (atomic_of db')"
proof -
  have ins: "inside (tx_phase (db_tasks db ! i))" using assms(3) by simp
  let ?open = "db\<lparr>db_conn := Some (Some (db_disk db))\<rparr>"
  consider e d where "db' = leave_tx i (Some e) d" "db_tasks d = db_tasks db" "db_disk d = db_disk db"
    | "db' = to_phase i (In_body [] (tx_body (db_tasks db ! i))) ?open"
    using assms(4) by (cases ev) (auto split: option.splits)
  then show ?thesis
  proof cases
    case 1
    then show ?thesis using leave_inv [OF assms(1,2) ins] atomic_leave_fails [OF assms(2) ins] by (simp add: r_into_rtranclp)
  next
    case 2
    have "db_inv db'" unfolding 2 by (rule stay_inv [OF assms(1,2) ins]) auto
    moreover have "atomic_of db' = atomic_of db" unfolding 2 using assms(2,3) by (simp add: atomic_stay) (simp add: atomic_of_def)
    ultimately show ?thesis by simp
  qed
qed

lemma body_simulated:
  assumes "db_inv db" and "i < length (db_tasks db)" and "tx_phase (db_tasks db ! i) = In_body dn sts" and "db_conn db = Some (Some w)"
    and "body_tx ev i w dn sts db = Some db'"
  shows "db_inv db' \<and> atomic_step\<^sup>*\<^sup>* (atomic_of db) (atomic_of db')"
proof -
  have ins: "inside (tx_phase (db_tasks db ! i))" using assms(3) by simp
  have body: "tx_body (db_tasks db ! i) = dn @ sts" "run_body dn (db_disk db) = Inr w"
    using db_invD(3) [OF assms(1,2,3)] assms(4) by auto
  consider e d where "db' = leave_tx i (Some e) d" "db_tasks d = db_tasks db" "db_disk d = db_disk db"
    | r where "sts = []" "r = None \<or> r = Some Task_cancelled" "db' = leave_tx i r (db\<lparr>db_disk := w, db_conn := Some None\<rparr>)"
    | st sts' w' where "sts = st # sts'" "st w = Inr w'" "db' = to_phase i (In_body (dn @ [st]) sts') (db\<lparr>db_conn := Some (Some w')\<rparr>)"
  proof (cases sts)
    case Nil
    then show ?thesis using that(1,2) assms(5) by (cases ev) auto
  next
    case (Cons st sts')
    then show ?thesis using that(1) [of _ "db\<lparr>db_conn := Some None\<rparr>"] that(3) [of st sts'] assms(5)
      by (cases ev) (auto split: sum.splits)
  qed
  then show ?thesis
  proof cases
    case 1
    then show ?thesis using leave_inv [OF assms(1,2) ins] atomic_leave_fails [OF assms(2) ins] by (simp add: r_into_rtranclp)
  next
    case 2
    have "db_inv db'" unfolding 2(3) by (rule leave_inv [OF assms(1,2) ins]) simp
    moreover have "at_txs (atomic_of db) ! i = (dn @ sts, None)" using assms(2,3) body by (simp add: atomic_of_def tx_outcome_def)
    then have "atomic_step (atomic_of db) ((atomic_of db)\<lparr>at_disk := w, at_txs := (at_txs (atomic_of db))[i := (dn @ sts, Some r)]\<rparr>)"
      using at_commit [of i "atomic_of db" "dn @ sts" w r] assms(2) body(2) 2(1,2) by (simp add: atomic_of_def)
    then have "atomic_step (atomic_of db) (atomic_of db')" unfolding 2(3) using body(1) by (simp add: atomic_leave) (simp add: atomic_of_def)
    ultimately show ?thesis by blast
  next
    case 3
    have "db_inv db'" unfolding 3(3) by (rule stay_inv [OF assms(1,2) ins]) (use body 3 in auto)
    moreover have "atomic_of db' = atomic_of db" unfolding 3(3) using assms(2,3) by (simp add: atomic_stay) (simp add: atomic_of_def)
    ultimately show ?thesis by simp
  qed
qed

lemma outside_inv:
  assumes "db_inv db" and "i < length (db_tasks db)" and "\<not> inside (tx_phase (db_tasks db ! i))" and "\<not> inside ph"
  shows "db_inv (to_phase i ph db)"
proof -
  let ?db = "to_phase i ph db"
  have same: "db_lock ?db = db_lock db" "db_conn ?db = db_conn db" "db_disk ?db = db_disk db" by (simp_all add: to_phase_def)
  have old: "j < length (db_tasks db) \<and> db_tasks ?db ! j = db_tasks db ! j" if "j < length (db_tasks ?db)" "inside (tx_phase (db_tasks ?db ! j))" for j
    using that assms(2,4) by (cases "j = i") (simp_all add: to_phase_def)
  show ?thesis
  proof (rule db_invI)
    fix j
    assume j: "j < length (db_tasks ?db)" "inside (tx_phase (db_tasks ?db ! j))"
    then show "db_lock ?db = Some j" using old [OF j] db_invD(1) [OF assms(1), of j] same(1) by simp
  next
    fix j
    assume "db_lock ?db = Some j"
    then have j: "j < length (db_tasks db)" "inside (tx_phase (db_tasks db ! j))" using db_invD(2) [OF assms(1), of j] same(1) by simp_all
    then have "j \<noteq> i" using assms(3) by blast
    then show "j < length (db_tasks ?db) \<and> inside (tx_phase (db_tasks ?db ! j))" using j by (simp add: to_phase_def)
  next
    fix j dn sts
    assume j: "j < length (db_tasks ?db)" "tx_phase (db_tasks ?db ! j) = In_body dn sts"
    then have "j < length (db_tasks db)" "db_tasks ?db ! j = db_tasks db ! j" using old [of j] by simp_all
    then show "tx_body (db_tasks ?db ! j) = dn @ sts \<and> (\<exists>w. db_conn ?db = Some (Some w) \<and> run_body dn (db_disk ?db) = Inr w)"
      using j db_invD(3) [OF assms(1), of j dn sts] same by simp
  qed
qed

text \<open>Waiting at the lock: taking it, or being cancelled.\<close>

lemma lock_simulated:
  assumes "db_inv db" and i: "i < length (db_tasks db)" and ph: "tx_phase (db_tasks db ! i) = At_lock"
    and "transaction_step ev i db = Some db'"
  shows "db_inv db' \<and> atomic_step\<^sup>*\<^sup>* (atomic_of db) (atomic_of db')"
proof -
  consider "db_lock db = None" "db' = to_phase i At_begin (db\<lparr>db_lock := Some i\<rparr>)" | "db' = to_phase i (Tx_done (Some Task_cancelled)) db"
    using assms by (auto split: if_splits)
  then show ?thesis
  proof cases
    case 1
    have "tx_phase (db_tasks db ! j) \<noteq> In_body dn sts \<and> \<not> inside (tx_phase (db_tasks db ! j))" if "j < length (db_tasks db)" for j dn sts
      using db_invD(1) [OF assms(1) that] 1(1) by (cases "tx_phase (db_tasks db ! j)") auto
    then have "db_inv db'" unfolding 1(2) db_inv_def to_phase_def using i by (auto simp: nth_list_update)
    moreover have "atomic_of db' = atomic_of db" unfolding 1(2) using i ph by (simp add: atomic_stay) (simp add: atomic_of_def)
    ultimately show ?thesis by simp
  next
    case 2
    have "db_inv db'" unfolding 2 using outside_inv [OF assms(1) i, of "Tx_done (Some Task_cancelled)"] ph by simp
    moreover have "atomic_of db' = (atomic_of db)\<lparr>at_txs := (at_txs (atomic_of db))[i := (tx_body (db_tasks db ! i), Some (Some Task_cancelled))]\<rparr>"
      unfolding 2 by (simp add: atomic_of_def to_phase_def map_update tx_outcome_def)
    moreover have "at_txs (atomic_of db) ! i = (tx_body (db_tasks db ! i), None)" "i < length (at_txs (atomic_of db))"
      using i ph by (simp_all add: atomic_of_def tx_outcome_def)
    then have "atomic_step (atomic_of db) ((atomic_of db)\<lparr>at_txs := (at_txs (atomic_of db))[i := (tx_body (db_tasks db ! i), Some (Some Task_cancelled))]\<rparr>)"
      by (intro at_fail)
    ultimately show ?thesis by (metis r_into_rtranclp)
  qed
qed

lemma transaction_simulated:
  assumes "db_inv db" and h: "transaction_step ev i db = Some db'"
  shows "db_inv db' \<and> atomic_step\<^sup>*\<^sup>* (atomic_of db) (atomic_of db')"
proof -
  have i: "i < length (db_tasks db)" using h by (auto split: if_splits)
  show ?thesis
  proof (cases "tx_phase (db_tasks db ! i)")
    case At_lock
    then show ?thesis using lock_simulated [OF assms(1) i _ h] by blast
  next
    case At_begin
    then show ?thesis using begin_simulated [OF assms(1) i At_begin, of ev db'] h i by simp
  next
    case (In_body dn sts)
    then show ?thesis using body_simulated [OF assms(1) i In_body, of _ ev db'] h i by (auto split: option.splits)
  next
    case (Tx_done r)
    then show ?thesis using h i by simp
  qed
qed

lemma new_tx_inv:
  assumes "db_inv db"
  shows "db_inv (db\<lparr>db_tasks := db_tasks db @ [\<lparr>tx_body = body, tx_phase = At_lock\<rparr>]\<rparr>)"
proof -
  let ?ts = "db_tasks db @ [\<lparr>tx_body = body, tx_phase = At_lock\<rparr>]"
  let ?db = "db\<lparr>db_tasks := ?ts\<rparr>"
  have old: "?ts ! j = db_tasks db ! j \<and> j < length (db_tasks db)" if "j < length ?ts" "inside (tx_phase (?ts ! j))" for j
    using that by (cases "j < length (db_tasks db)") (simp_all add: nth_append)
  show ?thesis
  proof (rule db_invI)
    fix j
    assume "j < length (db_tasks ?db)" "inside (tx_phase (db_tasks ?db ! j))"
    then show "db_lock ?db = Some j" using old [of j] db_invD(1) [OF assms, of j] by simp
  next
    fix j
    assume "db_lock ?db = Some j"
    then show "j < length (db_tasks ?db) \<and> inside (tx_phase (db_tasks ?db ! j))" using db_invD(2) [OF assms, of j] by (simp add: nth_append)
  next
    fix j dn sts
    assume j: "j < length (db_tasks ?db)" "tx_phase (db_tasks ?db ! j) = In_body dn sts"
    then have "j < length (db_tasks db)" "db_tasks ?db ! j = db_tasks db ! j" using old [of j] by simp_all
    then show "tx_body (db_tasks ?db ! j) = dn @ sts \<and> (\<exists>w. db_conn ?db = Some (Some w) \<and> run_body dn (db_disk ?db) = Inr w)"
      using j db_invD(3) [OF assms, of j dn sts] by simp
  qed
qed

lemma other_write_inv:
  assumes "db_inv db" and "\<And>w. db_conn db \<noteq> Some (Some w)"
  shows "db_inv (db\<lparr>db_disk := d\<rparr>)"
proof (rule db_invI)
  fix j
  assume "j < length (db_tasks (db\<lparr>db_disk := d\<rparr>))" "inside (tx_phase (db_tasks (db\<lparr>db_disk := d\<rparr>) ! j))"
  then show "db_lock (db\<lparr>db_disk := d\<rparr>) = Some j" using db_invD(1) [OF assms(1), of j] by simp
next
  fix j
  assume "db_lock (db\<lparr>db_disk := d\<rparr>) = Some j"
  then show "j < length (db_tasks (db\<lparr>db_disk := d\<rparr>)) \<and> inside (tx_phase (db_tasks (db\<lparr>db_disk := d\<rparr>) ! j))"
    using db_invD(2) [OF assms(1), of j] by simp
next
  fix j dn sts
  assume "j < length (db_tasks (db\<lparr>db_disk := d\<rparr>))" "tx_phase (db_tasks (db\<lparr>db_disk := d\<rparr>) ! j) = In_body dn sts"
  then have False using db_invD(3) [OF assms(1), of j dn sts] assms(2) by auto
  then show "tx_body (db_tasks (db\<lparr>db_disk := d\<rparr>) ! j) = dn @ sts \<and> (\<exists>w. db_conn (db\<lparr>db_disk := d\<rparr>) = Some (Some w)
      \<and> run_body dn (db_disk (db\<lparr>db_disk := d\<rparr>)) = Inr w)" ..
qed

lemma db_do_simulated:
  assumes "db_inv db" and "db_do l db = Some db'"
  shows "db_inv db' \<and> atomic_step\<^sup>*\<^sup>* (atomic_of db) (atomic_of db')"
proof (cases l)
  case (New_tx body)
  have db': "db' = db\<lparr>db_tasks := db_tasks db @ [\<lparr>tx_body = body, tx_phase = At_lock\<rparr>]\<rparr>" using assms(2) New_tx by simp
  have "db_inv db'" unfolding db' by (rule new_tx_inv [OF assms(1)])
  moreover have "atomic_step (atomic_of db) (atomic_of db')"
    using at_new [of "atomic_of db" body] by (simp add: db' atomic_of_def tx_outcome_def)
  ultimately show ?thesis by blast
next
  case (Tx_step i ev)
  then show ?thesis using transaction_simulated [OF assms(1)] assms(2) by simp
next
  case (Other_write f)
  have c: "db' = db\<lparr>db_disk := f (db_disk db)\<rparr>" "\<And>w. db_conn db \<noteq> Some (Some w)" using assms(2) Other_write by (auto split: option.splits)
  have "db_inv db'" unfolding c(1) by (rule other_write_inv [OF assms(1) c(2)])
  moreover have "atomic_step (atomic_of db) (atomic_of db')" using at_other [of "atomic_of db" f] by (simp add: c(1) atomic_of_def)
  ultimately show ?thesis by blast
next
  case Reopen
  have c: "db_lock db = None" "db' = db_connect (db_close db)" using assms(2) Reopen by (auto split: if_splits)
  have "\<not> inside (tx_phase (db_tasks db ! j))" if "j < length (db_tasks db)" for j using db_invD(1) [OF assms(1) that] c(1) by auto
  then have "db_inv db'" using c by (intro free_inv) (simp_all add: db_connect_def db_close_def)
  moreover have "atomic_of db' = atomic_of db" by (simp add: c(2) atomic_of_def db_connect_def db_close_def)
  ultimately show ?thesis by simp
qed

interpretation database: simulation "\<lambda>db. \<exists>d. db = db_start d" "\<lambda>db db'. \<exists>l. db_do l db = Some db'" db_inv
  atomic_of "\<lambda>a. at_txs a = []" atomic_step
proof unfold_locales
  show "db_inv db" if "\<exists>d. db = db_start d" for db :: "'a database" using that by (auto simp: db_start_def intro: free_inv)
  show "db_inv db'" if "db_inv db" "\<exists>l. db_do l db = Some db'" for db db' :: "'a database" using that db_do_simulated by blast
  show "at_txs (atomic_of db) = []" if "\<exists>d. db = db_start d" for db :: "'a database" using that by (auto simp: db_start_def atomic_of_def)
  show "atomic_step\<^sup>*\<^sup>* (atomic_of db) (atomic_of db')" if "db_inv db" "\<exists>l. db_do l db = Some db'" for db db' :: "'a database"
    using that db_do_simulated by blast
qed

section \<open>What a transaction does\<close>


text \<open>An undisturbed coroutine.\<close>

fun go_on :: "nat \<Rightarrow> nat \<Rightarrow> 'd database \<Rightarrow> 'd database option" where
  "go_on i 0 db = Some db"
| "go_on i (Suc n) db = (case transaction_step Go i db of None \<Rightarrow> None | Some db1 \<Rightarrow> go_on i n db1)"

definition tx_result :: "nat \<Rightarrow> 'd database \<Rightarrow> exn + 'd \<Rightarrow> 'd database" where
  "tx_result i db r = (case r of
      Inr w \<Rightarrow> leave_tx i None (db\<lparr>db_disk := w, db_conn := Some None\<rparr>)
    | Inl e \<Rightarrow> leave_tx i (Some (Body_error e)) (db\<lparr>db_conn := Some None\<rparr>))"

lemma tx_result_later:
  "i < length (db_tasks db) \<Longrightarrow> tx_result i (to_phase i ph (db\<lparr>db_conn := c, db_lock := l\<rparr>)) r = tx_result i db r"
  "i < length (db_tasks db) \<Longrightarrow> tx_result i (to_phase i ph (db\<lparr>db_conn := c\<rparr>)) r = tx_result i db r"
  "i < length (db_tasks db) \<Longrightarrow> tx_result i (to_phase i ph (db\<lparr>db_lock := l\<rparr>)) r = tx_result i db r"
  by (simp_all add: tx_result_def leave_tx_def to_phase_def split: sum.split)

lemma to_phase_parts [simp]: "db_conn (to_phase i ph db) = db_conn db" "length (db_tasks (to_phase i ph db)) = length (db_tasks db)"
  "db_disk (to_phase i ph db) = db_disk db" "db_lock (to_phase i ph db) = db_lock db"
  "i < length (db_tasks db) \<Longrightarrow> db_tasks (to_phase i ph db) ! i = (db_tasks db ! i)\<lparr>tx_phase := ph\<rparr>"
  by (simp_all add: to_phase_def)

lemma body_runs:
  assumes "i < length (db_tasks db)" and "tx_phase (db_tasks db ! i) = In_body dn sts" and "db_conn db = Some (Some w)"
  shows "\<exists>n \<le> Suc (length sts). go_on i n db = Some (tx_result i db (run_body sts w))"
  using assms
proof (induction sts arbitrary: db dn w)
  case Nil
  then have "go_on i (Suc 0) db = Some (tx_result i db (run_body [] w))" by (simp add: tx_result_def)
  then show ?case by blast
next
  case (Cons st sts)
  show ?case
  proof (cases "st w")
    case (Inl e)
    then have "go_on i (Suc 0) db = Some (tx_result i db (run_body (st # sts) w))"
      using Cons.prems by (simp add: tx_result_def run_body_def)
    then show ?thesis by (intro exI [of _ "Suc 0"]) simp
  next
    case (Inr w')
    let ?db = "to_phase i (In_body (dn @ [st]) sts) (db\<lparr>db_conn := Some (Some w')\<rparr>)"
    obtain n where n: "n \<le> Suc (length sts)" "go_on i n ?db = Some (tx_result i ?db (run_body sts w'))"
      using Cons.IH [of ?db "dn @ [st]" w'] Cons.prems(1) by auto
    have "transaction_step Go i db = Some ?db" using Cons.prems Inr by simp
    moreover have "run_body (st # sts) w = run_body sts w'" using Inr by (simp add: run_body_def)
    ultimately have "go_on i (Suc n) db = Some (tx_result i db (run_body (st # sts) w))"
      using n(2) Cons.prems(1) by (simp add: tx_result_later)
    then show ?thesis using n(1) by (intro exI [of _ "Suc n"]) simp
  qed
qed

text \<open>A transaction that is not disturbed ends, within three steps more than it has statements, releases the lock and leaves
  the connection without a transaction: with the committed contents changed by the whole body, or, when a statement
  raises, with the contents as they were and that exception.\<close>

theorem transaction_ends:
  assumes "i < length (db_tasks db)" and "db_tasks db ! i = \<lparr>tx_body = body, tx_phase = At_lock\<rparr>" and "db_lock db = None"
    and "db_conn db = Some None"
  shows "\<exists>n \<le> length body + 3. \<exists>db'. go_on i n db = Some db' \<and> db_lock db' = None \<and> db_conn db' = Some None \<and>
    (case run_body body (db_disk db) of
       Inr d \<Rightarrow> db_disk db' = d \<and> tx_phase (db_tasks db' ! i) = Tx_done None
     | Inl e \<Rightarrow> db_disk db' = db_disk db \<and> tx_phase (db_tasks db' ! i) = Tx_done (Some (Body_error e)))"
proof -
  let ?db1 = "to_phase i At_begin (db\<lparr>db_lock := Some i\<rparr>)"
  let ?db2 = "to_phase i (In_body [] body) (?db1\<lparr>db_conn := Some (Some (db_disk db))\<rparr>)"
  have "transaction_step Go i db = Some ?db1" "transaction_step Go i ?db1 = Some ?db2" using assms by simp_all
  moreover obtain n where n: "n \<le> Suc (length body)" "go_on i n ?db2 = Some (tx_result i ?db2 (run_body body (db_disk db)))"
    using body_runs [of i ?db2 "[]" body "db_disk db"] assms(1) by auto
  ultimately have "go_on i (Suc (Suc n)) db = Some (tx_result i ?db2 (run_body body (db_disk db)))"
    by (simp del: transaction_step.simps)
  moreover have "tx_result i ?db2 r = tx_result i db r" for r using assms(1) by (simp add: tx_result_later)
  ultimately have g: "go_on i (Suc (Suc n)) db = Some (tx_result i db (run_body body (db_disk db)))" by simp
  have "Suc (Suc n) \<le> length body + 3" using n(1) by simp
  moreover have "case r of
       Inr d \<Rightarrow> db_disk (tx_result i db r) = d \<and> tx_phase (db_tasks (tx_result i db r) ! i) = Tx_done None
     | Inl e \<Rightarrow> db_disk (tx_result i db r) = db_disk db \<and> tx_phase (db_tasks (tx_result i db r) ! i) = Tx_done (Some (Body_error e))"
    "db_lock (tx_result i db r) = None" "db_conn (tx_result i db r) = Some None" for r
    using assms(1) by (simp_all add: tx_result_def leave_tx_def split: sum.split)
  ultimately show ?thesis using g by blast
qed

text \<open>Nobody is in a body, and no transaction has succeeded since.\<close>

definition wedged :: "'d database \<Rightarrow> 'd \<Rightarrow> 'd database \<Rightarrow> bool" where
  "wedged db0 w db \<longleftrightarrow> db_conn db = Some (Some w) \<and> db_disk db = db_disk db0
     \<and> (\<forall>i < length (db_tasks db). (\<forall>done sts. tx_phase (db_tasks db ! i) \<noteq> In_body done sts)
          \<and> (tx_phase (db_tasks db ! i) = Tx_done None \<longrightarrow> i < length (db_tasks db0) \<and> tx_phase (db_tasks db0 ! i) = Tx_done None))"

lemma wedged_phase:
  assumes "wedged db0 w db" and "i < length (db_tasks db)" and "ph = At_begin \<or> (\<exists>e. ph = Tx_done (Some e))"
  shows "wedged db0 w (to_phase i ph (db\<lparr>db_lock := l\<rparr>))"
proof -
  let ?db = "to_phase i ph (db\<lparr>db_lock := l\<rparr>)"
  have "(\<forall>dn sts. tx_phase (db_tasks ?db ! j) \<noteq> In_body dn sts)
      \<and> (tx_phase (db_tasks ?db ! j) = Tx_done None \<longrightarrow> j < length (db_tasks db0) \<and> tx_phase (db_tasks db0 ! j) = Tx_done None)"
    if "j < length (db_tasks db)" for j
  proof (cases "j = i")
    case True
    then show ?thesis using assms(2,3) by auto
  next
    case False
    then have "db_tasks ?db ! j = db_tasks db ! j" by (simp add: to_phase_def)
    then show ?thesis using assms(1) that by (simp add: wedged_def)
  qed
  then show ?thesis using assms(1) by (simp add: wedged_def)
qed

lemma wedged_step:
  assumes w: "wedged db0 w db" and "l \<noteq> Reopen" and h: "db_do l db = Some db'"
  shows "wedged db0 w db'"
proof (cases l)
  case (New_tx body)
  then have db': "db' = db\<lparr>db_tasks := db_tasks db @ [\<lparr>tx_body = body, tx_phase = At_lock\<rparr>]\<rparr>" using h by simp
  show ?thesis using w unfolding db' by (auto simp: wedged_def less_Suc_eq nth_append)
next
  case (Tx_step i ev)
  have i: "i < length (db_tasks db)" and c: "db_conn db = Some (Some w)" using h w Tx_step by (auto simp: wedged_def split: if_splits)
  have "\<exists>ph lk. (ph = At_begin \<or> (\<exists>e. ph = Tx_done (Some e))) \<and> db' = to_phase i ph (db\<lparr>db_lock := lk\<rparr>)"
  proof (cases "tx_phase (db_tasks db ! i)")
    case At_lock
    then consider "db' = to_phase i At_begin (db\<lparr>db_lock := Some i\<rparr>)" | "db' = to_phase i (Tx_done (Some Task_cancelled)) (db\<lparr>db_lock := db_lock db\<rparr>)"
      using h Tx_step i by (auto split: if_splits)
    then show ?thesis by cases blast+
  next
    case At_begin
    then have "db' = to_phase i (Tx_done (Some (Operational_error nested_begin))) (db\<lparr>db_lock := None\<rparr>)"
      using h Tx_step i c by (simp add: leave_tx_def to_phase_def)
    then show ?thesis by blast
  next
    case (In_body dn sts)
    then show ?thesis using w i by (simp add: wedged_def)
  next
    case (Tx_done r)
    then show ?thesis using h Tx_step i by simp
  qed
  then show ?thesis using wedged_phase [OF w i] by blast
next
  case (Other_write f)
  then show ?thesis using w h by (simp add: wedged_def)
qed (use assms in simp)

text \<open>A transaction left open by a fault (a cancellation while \<open>BEGIN\<close> runs, or a \<open>COMMIT\<close> that fails) ends writing: until the
  connection is closed no transaction of any coroutine succeeds and the committed contents never change again.\<close>

theorem leaked_transaction_blocks:
  assumes "db_inv db" and "db_lock db = None" and "db_conn db = Some (Some w)"
    and "(\<lambda>db db'. \<exists>l. l \<noteq> Reopen \<and> db_do l db = Some db')\<^sup>*\<^sup>* db db'"
  shows "db_disk db' = db_disk db \<and> db_conn db' = Some (Some w)
    \<and> (\<forall>i < length (db_tasks db'). tx_phase (db_tasks db' ! i) = Tx_done None
        \<longrightarrow> i < length (db_tasks db) \<and> tx_phase (db_tasks db ! i) = Tx_done None)"
proof -
  have "i < length (db_tasks db) \<Longrightarrow> tx_phase (db_tasks db ! i) \<noteq> In_body dn sts" for i dn sts
    using db_invD(1) [OF assms(1), of i] assms(2) by fastforce
  then have "wedged db w db" using assms(3) by (simp add: wedged_def)
  from assms(4) this have "wedged db w db'"
  proof (induction rule: rtranclp_induct)
    case (step y z)
    obtain l where "l \<noteq> Reopen" "db_do l y = Some z" using step.hyps(2) by blast
    from wedged_step [OF step.IH [OF step.prems] this] show ?case .
  qed
  then show ?thesis unfolding wedged_def by blast
qed

section \<open>Witnesses\<close>

text \<open>The contents are a list of rows; the second body raises after its first statement.\<close>

definition insert_row :: "nat \<Rightarrow> nat list statement" where
  "insert_row r rows = (if r \<in> set rows then Inl IntegrityError else Inr (rows @ [r]))"

definition demo_db :: "nat list database" where
  "demo_db = \<lparr>db_disk = [1], db_conn = Some None, db_lock = None,
     db_tasks = [\<lparr>tx_body = [insert_row 2, insert_row 3], tx_phase = At_lock\<rparr>, \<lparr>tx_body = [insert_row 4, insert_row 1], tx_phase = At_lock\<rparr>]\<rparr>"


theorem transaction_ends_witness:
  "(\<exists>n db'. go_on 0 n demo_db = Some db' \<and> db_disk db' = [1, 2, 3]) \<and> (\<exists>n db'. go_on 1 n demo_db = Some db' \<and> db_disk db' = [1])"
proof -
  have "run_body [insert_row 2, insert_row 3] [1] = Inr [1, 2, 3]" "run_body [insert_row 4, insert_row 1] [1] = Inl IntegrityError"
    by (simp_all add: run_body_def insert_row_def)
  then show ?thesis using transaction_ends [of 0 demo_db "[insert_row 2, insert_row 3]"] transaction_ends [of 1 demo_db "[insert_row 4, insert_row 1]"]
    by (auto simp: demo_db_def)
qed

text \<open>A \<open>BEGIN\<close> whose coroutine is cancelled, then another coroutine's transaction.\<close>

theorem leaked_transaction_blocks_witness:
  "\<exists>db db'. (\<lambda>db db'. \<exists>l. db_do l db = Some db')\<^sup>*\<^sup>* (db_start [1]) db \<and> db_conn db = Some (Some [1]) \<and> db_lock db = None
     \<and> db_do (New_tx [insert_row 2]) db = Some db' \<and> db_disk db' = [1]"
proof -
  let ?R = "\<lambda>db db'. \<exists>l. db_do l db = Some db'"
  obtain db1 where 1: "db_do (New_tx [insert_row 5]) (db_start [1]) = Some db1" by simp
  obtain db2 where 2: "db_do (Tx_step 0 Go) db1 = Some db2" using 1 by (auto simp: db_start_def)
  obtain db3 where 3: "db_do (Tx_step 0 Cancel_late) db2 = Some db3" "db_conn db3 = Some (Some [1])" "db_lock db3 = None" "db_disk db3 = [1]"
    using 1 2 by (auto simp: db_start_def to_phase_def leave_tx_def)
  obtain db4 where 4: "db_do (New_tx [insert_row 2]) db3 = Some db4" by simp
  have "?R (db_start [1]) db1" "?R db1 db2" "?R db2 db3" using 1 2 3(1) by blast+
  then have r: "?R\<^sup>*\<^sup>* (db_start [1]) db3" by (rule converse_rtranclp_into_rtranclp [OF _ converse_rtranclp_into_rtranclp [OF _ r_into_rtranclp]])
  have inv: "db_inv db3" using database.reachable_inv [OF _ r] by blast
  have "(\<lambda>db db'. \<exists>l. l \<noteq> Reopen \<and> db_do l db = Some db')\<^sup>*\<^sup>* db3 db4" using 4 by blast
  from leaked_transaction_blocks [OF inv 3(3,2) this] have "db_disk db4 = [1]" using 3(4) by simp
  then show ?thesis using r 3 4 by blast
qed

end
