(* ===== verification/Agent_Tree.thy ===== *)
theory Agent_Tree
  imports Decision_Agent
begin

text \<open>
  Agents as objects (\<open>core/agents/base.py\<close>): the constructor of \<open>BaseAgent\<close>, which makes the new agent the parent of
  its sub-agents one after the other, and the turn runner (\<open>core/runner.py\<close>) that drives a root agent.  Agents are addresses
  in a heap, since adopting changes the sub-agent object.  \<open>run_agent\<close>, the other driver, is in \<open>Decision_Agent\<close>.
\<close>

section \<open>Construction\<close>

record agent_obj =
  ao_name :: pystr
  ao_description :: pystr
  ao_sub_agents :: "nat list"
  ao_parent :: "nat option"

text \<open>What a subclass sets as class attributes.\<close>

record agent_class =
  ac_type :: pystr
  ac_name :: "pystr option"
  ac_description :: pystr

definition has_parent_error :: "agent_obj list \<Rightarrow> nat \<Rightarrow> nat \<Rightarrow> nat \<Rightarrow> exn" where
  "has_parent_error h sub parent self = ValueError (py ''agent `'' @ ao_name (h ! sub) @ py ''` already has a parent agent `''
     @ ao_name (h ! parent) @ py ''`, trying to add: `'' @ ao_name (h ! self) @ py ''`'')"

fun adopt :: "nat \<Rightarrow> nat list \<Rightarrow> agent_obj list \<Rightarrow> exn option \<times> agent_obj list" where
  "adopt self [] h = (None, h)"
| "adopt self (sub # subs) h = (case ao_parent (h ! sub) of
      Some p \<Rightarrow> (Some (has_parent_error h sub p self), h)
    | None \<Rightarrow> adopt self subs (h[sub := (h ! sub)\<lparr>ao_parent := Some self\<rparr>]))"

text \<open>The constructor: the address of the new agent, or what it raises; the heap keeps what was changed before.\<close>

definition new_agent :: "agent_class \<Rightarrow> pystr option \<Rightarrow> pystr option \<Rightarrow> nat list option \<Rightarrow> agent_obj list \<Rightarrow> (exn + nat) \<times> agent_obj list" where
  "new_agent cls name description sub_agents h =
     (case (case name of Some n \<Rightarrow> Some n | None \<Rightarrow> ac_name cls) of
        None \<Rightarrow> (Inl TypeError, h)
      | Some n \<Rightarrow>
         (let self = length h; subs = (case sub_agents of None \<Rightarrow> [] | Some l \<Rightarrow> l);
              obj = \<lparr>ao_name = n, ao_description = (case description of Some d \<Rightarrow> d | None \<Rightarrow> ac_description cls),
                ao_sub_agents = subs, ao_parent = None\<rparr>
          in case adopt self subs (h @ [obj]) of
               (Some e, h') \<Rightarrow> (Inl e, h')
             | (None, h') \<Rightarrow> (Inr self, h')))"

text \<open>A program that builds agents: the objects, and the addresses its constructor calls returned.\<close>

record agent_forest =
  af_heap :: "agent_obj list"
  af_agents :: "nat list"

definition build :: "agent_class \<Rightarrow> pystr option \<Rightarrow> pystr option \<Rightarrow> nat list option \<Rightarrow> agent_forest \<Rightarrow> agent_forest" where
  "build cls name description sub_agents f = (case new_agent cls name description sub_agents (af_heap f) of
      (Inl e, h) \<Rightarrow> f\<lparr>af_heap := h\<rparr>
    | (Inr a, h) \<Rightarrow> \<lparr>af_heap = h, af_agents = af_agents f @ [a]\<rparr>)"

inductive built :: "agent_forest \<Rightarrow> bool" where
  built_none: "built \<lparr>af_heap = [], af_agents = []\<rparr>"
| built_one: "built f \<Longrightarrow> set (case subs of None \<Rightarrow> [] | Some l \<Rightarrow> l) \<subseteq> set (af_agents f) \<Longrightarrow> built (build cls name description subs f)"

section \<open>The agents form a forest\<close>

text \<open>Parents are younger than their sub-agents, and every agent the program holds is the parent of each of its sub-agents.\<close>

definition forest_ok :: "agent_forest \<Rightarrow> bool" where
  "forest_ok f \<longleftrightarrow> (\<forall>a \<in> set (af_agents f). a < length (af_heap f) \<and> distinct (ao_sub_agents (af_heap f ! a))
        \<and> (\<forall>s \<in> set (ao_sub_agents (af_heap f ! a)). s < a \<and> s \<in> set (af_agents f) \<and> ao_parent (af_heap f ! s) = Some a))
     \<and> (\<forall>s < length (af_heap f). \<forall>p. ao_parent (af_heap f ! s) = Some p \<longrightarrow> s < p \<and> p < length (af_heap f)
        \<and> (p \<in> set (af_agents f) \<longrightarrow> s \<in> set (ao_sub_agents (af_heap f ! p))))"

text \<open>What adopting does, whether it ends or stops at a sub-agent that has a parent: the sub-agents before that one get the new
  parent and nothing else changes.\<close>

lemma adopt_spec:
  assumes "adopt self subs h = (r, h')" and "\<forall>s \<in> set subs. s < length h"
  shows "\<exists>taken. (\<exists>rest. subs = taken @ rest \<and> (r = None \<longleftrightarrow> rest = []) \<and> (rest \<noteq> [] \<longrightarrow> hd rest \<in> set taken \<or> ao_parent (h ! hd rest) \<noteq> None)) \<and> distinct taken \<and> (\<forall>s \<in> set taken. ao_parent (h ! s) = None)
    \<and> length h' = length h \<and> (\<forall>i < length h. h' ! i = (if i \<in> set taken then (h ! i)\<lparr>ao_parent := Some self\<rparr> else h ! i))"
  using assms
proof (induction self subs h arbitrary: rule: adopt.induct)
  case (1 self h)
  then show ?case by simp
next
  case (2 self sub subs h)
  show ?case
  proof (cases "ao_parent (h ! sub)")
    case (Some p)
    then show ?thesis using 2(2) by (intro exI [of _ "[]"]) auto
  next
    case None
    let ?h1 = "h[sub := (h ! sub)\<lparr>ao_parent := Some self\<rparr>]"
    obtain taken rest where t: "subs = taken @ rest" "r = None \<longleftrightarrow> rest = []" "distinct taken" "\<forall>s \<in> set taken. ao_parent (?h1 ! s) = None"
      "rest \<noteq> [] \<longrightarrow> hd rest \<in> set taken \<or> ao_parent (?h1 ! hd rest) \<noteq> None"
      "length h' = length h" "\<forall>i < length h. h' ! i = (if i \<in> set taken then (?h1 ! i)\<lparr>ao_parent := Some self\<rparr> else ?h1 ! i)"
      using 2(1) [OF None] 2(2,3) None by auto
    have "sub \<notin> set taken" using t(4) 2(3) by auto
    moreover have "\<forall>s \<in> set taken. ao_parent (h ! s) = None" using t(4) calculation by (metis nth_list_update_neq)
    moreover have "h' ! i = (if i \<in> set (sub # taken) then (h ! i)\<lparr>ao_parent := Some self\<rparr> else h ! i)" if "i < length h" for i
      using t(7) that calculation(1) by (cases "i = sub") auto
    moreover have "rest \<noteq> [] \<longrightarrow> hd rest \<in> set (sub # taken) \<or> ao_parent (h ! hd rest) \<noteq> None" using t(5) by (cases "hd rest = sub") auto
    ultimately show ?thesis using t(1-3,6) None by (intro exI [of _ "sub # taken"]) auto
  qed
qed

lemma forest_okD:
  assumes "forest_ok f"
  shows "a \<in> set (af_agents f) \<Longrightarrow> a < length (af_heap f) \<and> distinct (ao_sub_agents (af_heap f ! a))"
    and "a \<in> set (af_agents f) \<Longrightarrow> s \<in> set (ao_sub_agents (af_heap f ! a)) \<Longrightarrow> s < a \<and> s \<in> set (af_agents f) \<and> ao_parent (af_heap f ! s) = Some a"
    and "s < length (af_heap f) \<Longrightarrow> ao_parent (af_heap f ! s) = Some p \<Longrightarrow> s < p \<and> p < length (af_heap f)
      \<and> (p \<in> set (af_agents f) \<longrightarrow> s \<in> set (ao_sub_agents (af_heap f ! p)))"
  using assms unfolding forest_ok_def by blast+

text \<open>The heap after a constructor call that names its agent, with the sub-agents it adopted.\<close>

lemma new_agent_spec:
  assumes "new_agent cls name description subs h = (r, h')" and "set (case subs of None \<Rightarrow> [] | Some l \<Rightarrow> l) \<subseteq> {..<length h}"
  obtains "r = Inl TypeError" "h' = h" "name = None"
  | taken rest where "(case subs of None \<Rightarrow> [] | Some l \<Rightarrow> l) = taken @ rest" "(\<exists>e. r = Inl e) \<and> rest \<noteq> [] \<or> r = Inr (length h) \<and> rest = []"
    "distinct taken" "\<forall>s \<in> set taken. ao_parent (h ! s) = None" "length h' = Suc (length h)"
    "\<forall>i < length h. h' ! i = (if i \<in> set taken then (h ! i)\<lparr>ao_parent := Some (length h)\<rparr> else h ! i)"
    "ao_sub_agents (h' ! length h) = taken @ rest" "ao_parent (h' ! length h) = None"
    "rest \<noteq> [] \<longrightarrow> hd rest \<in> set taken \<or> ao_parent (h ! hd rest) \<noteq> None"
proof (cases "case name of Some n \<Rightarrow> Some n | None \<Rightarrow> ac_name cls")
  case None
  then show ?thesis using assms(1) that(1) by (auto simp: new_agent_def split: option.splits)
next
  case (Some n)
  let ?l = "case subs of None \<Rightarrow> [] | Some l \<Rightarrow> l"
  let ?obj = "\<lparr>ao_name = n, ao_description = (case description of Some d \<Rightarrow> d | None \<Rightarrow> ac_description cls), ao_sub_agents = ?l, ao_parent = None\<rparr>"
  obtain res where ad: "adopt (length h) ?l (h @ [?obj]) = (res, h')" and r: "r = (case res of Some e \<Rightarrow> Inl e | None \<Rightarrow> Inr (length h))"
    using assms(1) Some by (auto simp: new_agent_def Let_def split: prod.splits option.splits)
  have subs: "\<forall>s \<in> set ?l. s < length (h @ [?obj])" using assms(2) by auto
  obtain taken rest where t: "?l = taken @ rest" "res = None \<longleftrightarrow> rest = []" "distinct taken" "\<forall>s \<in> set taken. ao_parent ((h @ [?obj]) ! s) = None"
    "rest \<noteq> [] \<longrightarrow> hd rest \<in> set taken \<or> ao_parent ((h @ [?obj]) ! hd rest) \<noteq> None"
    "length h' = length (h @ [?obj])" "\<forall>i < length (h @ [?obj]). h' ! i = (if i \<in> set taken then ((h @ [?obj]) ! i)\<lparr>ao_parent := Some (length h)\<rparr> else (h @ [?obj]) ! i)"
    using adopt_spec [OF ad subs] by blast
  have small: "s < length h" if "s \<in> set taken" for s using assms(2) t(1) that by auto
  show ?thesis
  proof (rule that(2) [OF t(1) _ t(3)])
    show "(\<exists>e. r = Inl e) \<and> rest \<noteq> [] \<or> r = Inr (length h) \<and> rest = []" using r t(2) by (auto split: option.splits)
    show "\<forall>s \<in> set taken. ao_parent (h ! s) = None" using t(4) small by (simp add: nth_append)
    show "length h' = Suc (length h)" using t(6) by simp
    show "\<forall>i < length h. h' ! i = (if i \<in> set taken then (h ! i)\<lparr>ao_parent := Some (length h)\<rparr> else h ! i)"
      using t(7) by (simp add: nth_append)
    show "ao_sub_agents (h' ! length h) = taken @ rest" "ao_parent (h' ! length h) = None"
      using t(1,7) small by (auto simp: nth_append)
    show "rest \<noteq> [] \<longrightarrow> hd rest \<in> set taken \<or> ao_parent (h ! hd rest) \<noteq> None"
      using t(1,5) assms(2) by (cases rest) (auto simp: nth_append)
  qed
qed

lemma build_keeps_forest:
  assumes "forest_ok f" and "set (case subs of None \<Rightarrow> [] | Some l \<Rightarrow> l) \<subseteq> set (af_agents f)"
  shows "forest_ok (build cls name description subs f)"
proof -
  let ?h = "af_heap f" and ?f = "build cls name description subs f"
  obtain r h' where n: "new_agent cls name description subs ?h = (r, h')" by force
  have "set (case subs of None \<Rightarrow> [] | Some l \<Rightarrow> l) \<subseteq> {..<length ?h}" using assms(2) forest_okD(1) [OF assms(1)] by auto
  with n show ?thesis
  proof (cases rule: new_agent_spec)
    case 1
    then show ?thesis using assms(1) n by (simp add: build_def)
  next
    case (2 taken rest)
    have live: "set taken \<subseteq> set (af_agents f)" using assms(2) 2(1) by auto
    have old: "a < length ?h" if "a \<in> set (af_agents f)" for a using forest_okD(1) [OF assms(1) that] by simp
    have heap: "af_heap ?f = h'" and ags: "set (af_agents ?f) \<subseteq> insert (length ?h) (set (af_agents f))" "set (af_agents f) \<subseteq> set (af_agents ?f)"
      "length ?h \<in> set (af_agents ?f) \<Longrightarrow> rest = []"
      using 2(2) n old [of "length ?h"] by (auto simp: build_def)
    have same: "ao_sub_agents (h' ! i) = ao_sub_agents (?h ! i)" if "i < length ?h" for i using 2(6) that by simp
    have par: "ao_parent (h' ! i) = (if i \<in> set taken then Some (length ?h) else ao_parent (?h ! i))" if "i < length ?h" for i
      using 2(6) that by simp
    show ?thesis unfolding forest_ok_def heap
    proof (intro conjI ballI allI impI)
      fix a
      assume a: "a \<in> set (af_agents ?f)"
      show "a < length h'" using a ags(1) old 2(5) by fastforce
      show "distinct (ao_sub_agents (h' ! a))"
      proof (cases "a = length ?h")
        case True
        then show ?thesis using 2(3,7) ags(3) a by simp
      next
        case False
        then have "a \<in> set (af_agents f)" using a ags(1) by auto
        then show ?thesis using forest_okD(1) [OF assms(1)] same [OF old] by simp
      qed
      fix s
      assume s: "s \<in> set (ao_sub_agents (h' ! a))"
      have all: "s < a \<and> s \<in> set (af_agents f) \<and> ao_parent (h' ! s) = Some a"
      proof (cases "a = length ?h")
        case True
        then have "s \<in> set taken" using s 2(7) ags(3) a by simp
        then show ?thesis using True live old par by auto
      next
        case False
        then have af: "a \<in> set (af_agents f)" using a ags(1) by auto
        then have sf: "s < a" "s \<in> set (af_agents f)" "ao_parent (?h ! s) = Some a"
          using s same [OF old [OF af]] forest_okD(2) [OF assms(1) af, of s] by simp_all
        then show ?thesis using par [OF old [OF sf(2)]] 2(4) by auto
      qed
      then show "s < a" "s \<in> set (af_agents ?f)" "ao_parent (h' ! s) = Some a" using ags(2) by auto
    next
      fix s p
      assume s: "s < length h'" "ao_parent (h' ! s) = Some p"
      then have sl: "s < length ?h" using 2(5,8) by (cases "s = length ?h") auto
      have all: "s < p \<and> p < length h' \<and> (p \<in> set (af_agents ?f) \<longrightarrow> s \<in> set (ao_sub_agents (h' ! p)))"
      proof (cases "s \<in> set taken")
        case True
        then show ?thesis using s par [OF sl] sl 2(5,7) by simp
      next
        case False
        then have p: "ao_parent (?h ! s) = Some p" using s par [OF sl] by simp
        note op = forest_okD(3) [OF assms(1) sl p]
        then show ?thesis using 2(5) same ags(1) by auto
      qed
      then show "s < p" "p < length h'" "p \<in> set (af_agents ?f) \<Longrightarrow> s \<in> set (ao_sub_agents (h' ! p))" by blast+
    qed
  qed
qed

lemma built_forest: "built f \<Longrightarrow> forest_ok f"
proof (induction rule: built.induct)
  case built_none
  then show ?case by (simp add: forest_ok_def)
next
  case (built_one f subs cls name description)
  show ?case by (rule build_keeps_forest [OF built_one.IH built_one.hyps(2)])
qed

text \<open>C31: whatever agents a program builds, and whichever constructor calls raise on the way, the agents it holds form a forest:
  no agent is listed twice, an agent is a sub-agent of at most one other, that one is its parent, and the way up from any
  agent ends, since parents are younger.\<close>

theorem agents_form_forest:
  assumes "built f" and "a \<in> set (af_agents f)" and "b \<in> set (af_agents f)" and "s \<in> set (ao_sub_agents (af_heap f ! a))"
  shows "distinct (ao_sub_agents (af_heap f ! a)) \<and> s < a \<and> ao_parent (af_heap f ! s) = Some a
    \<and> (s \<in> set (ao_sub_agents (af_heap f ! b)) \<longrightarrow> b = a)"
  using forest_okD(1,2) [OF built_forest [OF assms(1)] assms(2)] forest_okD(2) [OF built_forest [OF assms(1)] assms(3), of s] assms(4) by force

text \<open>A constructor call that refuses its sub-agents spoils some of them: it raises at the first one that has a parent already
  (or is listed twice), and each one before it is left with a parent the program never gets, so that every later constructor
  call with it raises too.\<close>

theorem refused_agent_spoils:
  assumes "built f" and "set subs \<subseteq> set (af_agents f)" and "new_agent cls (Some n) description (Some subs) (af_heap f) = (Inl e, h')"
  shows "\<exists>taken rest. subs = taken @ rest \<and> rest \<noteq> [] \<and> (hd rest \<in> set taken \<or> ao_parent (af_heap f ! hd rest) \<noteq> None)
    \<and> (\<forall>s \<in> set taken. ao_parent (h' ! s) = Some (length (af_heap f)) \<and> length (af_heap f) \<notin> set (af_agents f)
        \<and> (\<exists>e' h''. new_agent cls' (Some n') description' (Some [s]) h' = (Inl e', h'')))"
proof -
  have ok: "forest_ok f" by (rule built_forest [OF assms(1)])
  have small: "set (case Some subs of None \<Rightarrow> [] | Some l \<Rightarrow> l) \<subseteq> {..<length (af_heap f)}" using assms(2) forest_okD(1) [OF ok] by auto
  from assms(3) small show ?thesis
  proof (cases rule: new_agent_spec)
    case 1
    then show ?thesis by simp
  next
    case (2 taken rest)
    have "length (af_heap f) \<notin> set (af_agents f)" using forest_okD(1) [OF ok] by blast
    moreover have par: "ao_parent (h' ! s) = Some (length (af_heap f)) \<and> s < length h'" if "s \<in> set taken" for s
      using 2(1,5,6) that small by auto
    moreover have "\<exists>e' h''. new_agent cls' (Some n') description' (Some [s]) h' = (Inl e', h'')" if "s \<in> set taken" for s
      using par [OF that] by (simp add: new_agent_def Let_def nth_append)
    ultimately show ?thesis using 2(1,2,9) by (intro exI [of _ taken] exI [of _ rest]) auto
  qed
qed

section \<open>The turn runner\<close>

text \<open>\<open>Runner.run_async\<close>: \<open>prepare\<close> gives the turn's context or raises; the root agent is a function from the context and the
  stripped user text to what its generator yields and the exception it ends with.  The events go to the queue with the lock
  held, results are dropped.  The lock is released however the generator ends.\<close>

record turn_run =
  tu_queue :: "a2a_event list"
  tu_locked :: bool
  tu_raised :: "exn option"

fun forward :: "'r agent_event list \<Rightarrow> a2a_event list" where
  "forward [] = []"
| "forward (Emit e # es) = e # forward es"
| "forward (ResultEvent r # es) = forward es"

definition runner_run_async :: "('c \<Rightarrow> pystr \<Rightarrow> 'r agent_event list \<times> exn option) \<Rightarrow> exn + 'c \<Rightarrow> pystr option \<Rightarrow> turn_run" where
  "runner_run_async root prepared user_input = (case prepared of
      Inl e \<Rightarrow> \<lparr>tu_queue = [], tu_locked = False, tu_raised = Some e\<rparr>
    | Inr c \<Rightarrow> (let user = str_strip (case user_input of None \<Rightarrow> [] | Some u \<Rightarrow> u); (es, f) = root c user
        in \<lparr>tu_queue = forward es, tu_locked = False, tu_raised = f\<rparr>))"

text \<open>The two drivers of an agent agree: for a generator whose result, if any, comes last, the turn runner and
  \<open>run_agent\<close> put the same events on the queue in the same order.\<close>

theorem drivers_agree:
  assumes "root ctx (str_strip u) = (es @ tail, f)" and "\<forall>e \<in> set es. \<exists>x. e = Emit x" and "tail = [] \<or> tail = [ResultEvent r]"
  shows "c_events (snd (consume (es @ tail) c)) = c_events c @ map (\<lambda>x. (c_task_id c, c_context_id c, x)) (tu_queue (runner_run_async root (Inr ctx) (Some u)))
    \<and> tu_raised (runner_run_async root (Inr ctx) (Some u)) = f"
proof -
  have "c_events (snd (consume (es @ tail) c)) = c_events c @ map (\<lambda>x. (c_task_id c, c_context_id c, x)) (forward (es @ tail))"
    using assms(2,3)
  proof (induction es arbitrary: c)
    case (Cons e es)
    then obtain x where "e = Emit x" by auto
    then show ?case using Cons.IH [of "emit x c"] Cons.prems by (simp add: emit_def)
  qed auto
  then show ?thesis using assms(1) by (simp add: runner_run_async_def)
qed

section \<open>Witnesses\<close>

definition demo_class :: agent_class where
  "demo_class = \<lparr>ac_type = py ''Agent'', ac_name = None, ac_description = []\<rparr>"

text \<open>Two leaves, a parent of the first, and a refused parent of both, second one first.\<close>

definition demo_forest :: agent_forest where
  "demo_forest = build demo_class (Some (py ''p'')) None (Some [0])
     (build demo_class (Some (py ''b'')) None None (build demo_class (Some (py ''a'')) None None \<lparr>af_heap = [], af_agents = []\<rparr>))"

lemma demo_built: "built demo_forest \<and> af_agents demo_forest = [0, 1, 2] \<and> map ao_sub_agents (af_heap demo_forest) = [[], [], [0]]
    \<and> map ao_parent (af_heap demo_forest) = [Some 2, None, None]"
proof -
  let ?f1 = "build demo_class (Some (py ''a'')) None None \<lparr>af_heap = [], af_agents = []\<rparr>"
  let ?f2 = "build demo_class (Some (py ''b'')) None None ?f1"
  have 2: "built ?f2" by (rule built_one [OF built_one [OF built_none]]) simp_all
  have "af_agents ?f2 = [0, 1]" by (simp add: build_def new_agent_def)
  then have "built demo_forest" unfolding demo_forest_def by (intro built_one [OF 2]) simp
  then show ?thesis by (simp add: demo_forest_def build_def new_agent_def)
qed

theorem agents_form_forest_witness:
  "ao_parent (af_heap demo_forest ! 0) = Some 2 \<and> 0 \<in> set (ao_sub_agents (af_heap demo_forest ! 2))"
proof -
  have l: "length (af_heap demo_forest) = 3" using demo_built by (metis length_map length_Cons list.size(3) numeral_3_eq_3)
  have "ao_sub_agents (af_heap demo_forest ! 2) = map ao_sub_agents (af_heap demo_forest) ! 2" using l by simp
  then have s: "0 \<in> set (ao_sub_agents (af_heap demo_forest ! 2))" using demo_built by simp
  show ?thesis using agents_form_forest [of demo_forest 2 2 0] demo_built s by simp
qed

theorem refused_agent_spoils_witness:
  "\<exists>e h'. new_agent demo_class (Some (py ''q'')) None (Some [1, 0]) (af_heap demo_forest) = (Inl e, h')
     \<and> (\<exists>e' h''. new_agent demo_class (Some (py ''r'')) None (Some [1]) h' = (Inl e', h''))"
proof -
  obtain e h' where n: "new_agent demo_class (Some (py ''q'')) None (Some [1, 0]) (af_heap demo_forest) = (Inl e, h')"
    by (simp add: demo_forest_def build_def new_agent_def Let_def)
  obtain taken rest where t: "[1, 0] = taken @ rest" "rest \<noteq> []" "hd rest \<in> set taken \<or> ao_parent (af_heap demo_forest ! hd rest) \<noteq> None"
    "\<forall>s \<in> set taken. \<exists>e' h''. new_agent demo_class (Some (py ''r'')) None (Some [s]) h' = (Inl e', h'')"
    using refused_agent_spoils [OF _ _ n, of demo_class "py ''r''" None] demo_built by (auto 4 0)
  have "ao_parent (af_heap demo_forest ! 1) = None" by (simp add: demo_forest_def build_def new_agent_def)
  then have "1 \<in> set taken" using t(1-3) by (cases taken) auto
  then show ?thesis using n t(4) by blast
qed

theorem drivers_agree_witness:
  "tu_queue (runner_run_async (\<lambda>c u. ([Emit TaskCreated, ResultEvent u], None)) (Inr ()) (Some (py '' hi ''))) = [TaskCreated]
   \<and> c_events (snd (consume [Emit TaskCreated, ResultEvent (py ''hi'')] (example_ctx empty_state))) = [(py ''t1'', py ''k1'', TaskCreated)]"
proof -
  let ?root = "\<lambda>(c :: unit) u. ([Emit TaskCreated, ResultEvent u], None)"
  have strip: "str_strip (py '' hi '') = py ''hi''" by (simp add: str_strip_def is_space_def py_def)
  then have "?root () (str_strip (py '' hi '')) = ([Emit TaskCreated] @ [ResultEvent (py ''hi'')], None)" by simp
  from drivers_agree [of ?root "()" "py '' hi ''", OF this, of "py ''hi''" "example_ctx empty_state"]
  have d: "c_events (snd (consume [Emit TaskCreated, ResultEvent (py ''hi'')] (example_ctx empty_state)))
      = c_events (example_ctx empty_state) @ map (\<lambda>x. (c_task_id (example_ctx empty_state), c_context_id (example_ctx empty_state), x))
          (tu_queue (runner_run_async ?root (Inr ()) (Some (py '' hi ''))))" by simp
  have q: "tu_queue (runner_run_async ?root (Inr ()) (Some (py '' hi ''))) = [TaskCreated]" by (simp add: runner_run_async_def)
  then show ?thesis using d by (simp add: example_ctx_def)
qed

end
