(* ===== verification/Agent_Nodes.thy ===== *)
theory Agent_Nodes
  imports Orchestrator Planner_Node
begin

text \<open>
  Nodes and agents of \<open>new_choirworks\<close> as such: \<open>BaseAgent\<close> (\<open>core/agents/base_agent.py\<close>), which signs the events of an agent
  with its name and runs it as a workflow node, \<open>JoinNode\<close> (\<open>core/workflow/join_node.py\<close>), \<open>DoneNode\<close> and the start of
  \<open>OrchestratorAgent\<close> (\<open>orchestrator/orchestrator.py\<close>).
  A generator is the list of what it yields.
\<close>

section \<open>Agents\<close>

definition sign_event :: "pystr \<Rightarrow> wf_event \<Rightarrow> wf_event" where
  "sign_event name e = (if meta_author e = [] then set_meta ''author'' (JStr name) e else e)"

definition base_agent_run :: "pystr \<Rightarrow> ('ic \<Rightarrow> wf_event list) \<Rightarrow> 'ic \<Rightarrow> wf_event list" where
  "base_agent_run name impl ic = map (sign_event name) (impl ic)"

text \<open>As a workflow node the agent runs on the invocation context; the node's input is not looked at.\<close>

definition agent_run_impl :: "pystr \<Rightarrow> ('ic \<Rightarrow> wf_event list) \<Rightarrow> 'ic \<Rightarrow> json \<Rightarrow> wf_event list" where
  "agent_run_impl name impl ic node_input = base_agent_run name impl ic"

section \<open>Join and done\<close>

text \<open>The events a node yields and the output it leaves on its context.\<close>

definition join_run_impl :: "json \<Rightarrow> wf_event list \<times> json" where
  "join_run_impl node_input = ([], node_input)"

definition done_run_impl :: "DagRuntime \<Rightarrow> wf_event list \<times> json" where
  "done_run_impl rt = ([], JObj (map (\<lambda>(k, v). (k, JStr v)) (dr_outputs rt)))"

section \<open>The orchestrator as an agent\<close>

text \<open>\<open>{a.name: a for a in self.agents}\<close>: of two agents with one name the later is kept, at the place of the first.\<close>

definition catalog :: "AgentInfo list \<Rightarrow> (pystr, AgentInfo) dict" where
  "catalog agents = fold (\<lambda>a d. AList.update (ai_name a) a d) agents []"

definition orchestrator_runtime :: "AgentInfo list \<Rightarrow> wf_event list \<Rightarrow> DagRuntime" where
  "orchestrator_runtime agents history = new_runtime (catalog agents) (extract_user_task history)"

text \<open>The start of a run: the workflow's first node is the planner, on a new runtime.\<close>

definition orchestrator_start :: "AgentInfo list \<Rightarrow> wf_event list \<Rightarrow> orch_phase \<times> DagRuntime" where
  "orchestrator_start agents history = (Enter (py ''planner'') No_payload, orchestrator_runtime agents history)"

section \<open>Signing\<close>

lemma set_author_frame:
  "wv_body (set_meta ''author'' v e) = wv_body e" "meta_output (set_meta ''author'' v e) = meta_output e"
  "meta_route (set_meta ''author'' v e) = meta_route e" "meta_node_info (set_meta ''author'' v e) = meta_node_info e"
  "meta_branch (set_meta ''author'' v e) = meta_branch e" "meta_isolation_scope (set_meta ''author'' v e) = meta_isolation_scope e"
  "meta_author (set_meta ''author'' (JStr a) e) = a"
  by (auto simp: meta_defs update_conv' split: option.splits json.splits)

lemma author_stays:
  "meta_author (set_node_info i e) = meta_author e" "meta_author (set_branch b e) = meta_author e"
  "meta_author (set_isolation_scope s e) = meta_author e"
  by (auto simp: meta_defs update_conv' delete_conv' split: option.splits)

lemma author_enrich: "meta_author (enrich_event c e) = (if meta_author e = [] then rc_node_name c else meta_author e)"
  by (simp add: enrich_event_def Let_def author_stays set_author_frame)

text \<open>Every event an agent yields is signed once: by whoever produced it, or else by the agent itself; nothing else of the
  event changes, and neither an agent that runs this agent nor the node runner that records its events signs over that.\<close>

theorem events_signed_once:
  assumes "name \<noteq> []" and "e \<in> set (impl ic)"
  shows "sign_event name e \<in> set (agent_run_impl name impl ic node_input)
    \<and> meta_author (sign_event name e) = (if meta_author e = [] then name else meta_author e)
    \<and> wv_body (sign_event name e) = wv_body e \<and> meta_output (sign_event name e) = meta_output e \<and> meta_route (sign_event name e) = meta_route e
    \<and> meta_node_info (sign_event name e) = meta_node_info e
    \<and> sign_event outer (sign_event name e) = sign_event name e
    \<and> meta_author (enrich_event c (sign_event name e)) = meta_author (sign_event name e)"
proof -
  have a: "meta_author (sign_event name e) = (if meta_author e = [] then name else meta_author e)"
    by (simp add: sign_event_def set_author_frame)
  then have "meta_author (sign_event name e) \<noteq> []" using assms(1) by simp
  then have "sign_event outer (sign_event name e) = sign_event name e" "meta_author (enrich_event c (sign_event name e)) = meta_author (sign_event name e)"
    by (simp_all add: sign_event_def [of outer] author_enrich)
  moreover have "wv_body (sign_event name e) = wv_body e" "meta_output (sign_event name e) = meta_output e"
    "meta_route (sign_event name e) = meta_route e" "meta_node_info (sign_event name e) = meta_node_info e"
    by (simp_all add: sign_event_def set_author_frame)
  moreover have "sign_event name e \<in> set (agent_run_impl name impl ic node_input)"
    using assms(2) by (simp add: agent_run_impl_def base_agent_run_def)
  ultimately show ?thesis using a by blast
qed

section \<open>The run of the orchestrator\<close>

lemma catalog_lookup: "map_of (catalog agents) k = map_of (rev (map (\<lambda>a. (ai_name a, a)) agents)) k"
proof -
  have "map_of (fold (\<lambda>a d. AList.update (ai_name a) a d) agents d) k
      = (case map_of (rev (map (\<lambda>a. (ai_name a, a)) agents)) k of Some a \<Rightarrow> Some a | None \<Rightarrow> map_of d k)" for d
    by (induction agents arbitrary: d) (auto simp: update_conv' map_add_def split: option.splits)
  then show ?thesis by (simp add: catalog_def split: option.splits)
qed

text \<open>A run that reaches the done node ends with the outputs: started on a list of agents and a history, when the graph enters
  its done node that node's output has an entry for every completed node of the plan, with the text that node produced,
  and no text for anything else than what some node produced.\<close>

theorem done_reports_outputs:
  assumes "orch_reachable good_answers (catalog agents) (extract_user_task history) (Enter (py ''done'') p, rt)"
    and "done_run_impl rt = (es, out)"
  shows "es = [] \<and> (\<exists>fs. out = JObj fs \<and> (\<forall>k. map_of fs k = map_option JStr (map_of (dr_outputs rt) k))
      \<and> (\<forall>n \<in> set (dr_plan rt). dstatus rt (pn_id n) = Some D_COMPLETED \<longrightarrow> (\<exists>t. map_of fs (pn_id n) = Some (JStr t))))"
proof -
  have "rt_inv rt" using not_ended_inv [OF assms(1)] by (simp add: run_ended_def)
  then have r: "dstatus rt k = Some D_COMPLETED \<Longrightarrow> \<exists>t. map_of (dr_outputs rt) k = Some t" for k
    by (auto simp: rt_inv_def results_inv_def)
  have m: "map_of (map (\<lambda>(k, v). (k, JStr v)) d) k = map_option JStr (map_of d k)" for d k by (induction d) auto
  have out: "es = []" "out = JObj (map (\<lambda>(k, v). (k, JStr v)) (dr_outputs rt))" using assms(2) by (simp_all add: done_run_impl_def)
  have "\<exists>t. map_option JStr (map_of (dr_outputs rt) k) = Some (JStr t)" if "dstatus rt k = Some D_COMPLETED" for k
    using r [OF that] by auto
  then show ?thesis unfolding out by (intro conjI exI [of _ "map (\<lambda>(k, v). (k, JStr v)) (dr_outputs rt)"]) (simp_all only: m, blast+)
qed

lemma orchestrator_starts: "orch_reachable good_answers (catalog agents) (extract_user_task history) (orchestrator_start agents history)"
  by (simp add: orchestrator_start_def orchestrator_runtime_def orch_start)

section \<open>Witnesses\<close>

definition goal_history :: "wf_event list" where
  "goal_history = [\<lparr>wv_task_id = [], wv_context_id = [], wv_body = MessageBody ROLE_USER [\<lparr>pt_text = py ''goal'', pt_metadata = [], pt_data = JNull\<rparr>], wv_meta = []\<rparr>]"

lemma goal_text: "extract_user_task goal_history = py ''goal''"
  by (simp add: extract_user_task_def goal_history_def extract_text_def event_content_parts_def is_function_call_part_def
      is_function_response_part_def part_type_is_def is_thought_part_def py_def)

lemma demo_catalog: "catalog (map snd demo_agents) = demo_agents"
  by (simp add: catalog_def demo_agents_def py_def)

theorem done_reports_outputs_witness:
  "\<exists>rt fs. orch_reachable good_answers demo_agents (py ''goal'') (Enter (py ''done'') No_payload, rt)
     \<and> done_run_impl rt = ([], JObj fs) \<and> length (dr_plan rt) = 2
     \<and> (\<forall>n \<in> set (dr_plan rt). dstatus rt (pn_id n) = Some D_COMPLETED \<longrightarrow> (\<exists>t. map_of fs (pn_id n) = Some (JStr t)))"
proof -
  obtain rt where rt: "orch_script all_done_events demo_start = Some (Enter (py ''done'') No_payload, rt)" "length (dr_plan rt) = 2"
    using all_done_state by blast
  have r: "orch_reachable good_answers (catalog (map snd demo_agents)) (extract_user_task goal_history) (Enter (py ''done'') No_payload, rt)"
    using demo_reachable [OF rt(1)] by (simp add: goal_text demo_catalog)
  obtain es out where d: "done_run_impl rt = (es, out)" by force
  from done_reports_outputs [OF r d] obtain fs where "es = []" "out = JObj fs"
    "\<forall>n \<in> set (dr_plan rt). dstatus rt (pn_id n) = Some D_COMPLETED \<longrightarrow> (\<exists>t. map_of fs (pn_id n) = Some (JStr t))" by blast
  then show ?thesis using demo_reachable [OF rt(1)] rt(2) d by (intro exI [of _ rt] exI [of _ fs]) simp
qed

theorem events_signed_once_witness:
  "meta_author (sign_event (py ''writer'') (hd goal_history)) = py ''writer''
   \<and> sign_event (py ''boss'') (sign_event (py ''writer'') (hd goal_history)) = sign_event (py ''writer'') (hd goal_history)"
proof -
  have "py ''writer'' \<noteq> []" "hd goal_history \<in> set ((\<lambda>u. goal_history) ())" by (simp_all add: py_def goal_history_def)
  moreover have "meta_author (hd goal_history) = []" by (simp add: goal_history_def meta_defs)
  ultimately show ?thesis using events_signed_once [of "py ''writer''" "hd goal_history" "\<lambda>u. goal_history" "()"] by auto
qed

end
