(* ===== verification/App.thy ===== *)
theory App
  imports Server Agent_Directory Sim_Agent
begin

text \<open>
  The application around the server of \<open>choirworks\<close>: the settings (\<open>config.py\<close>), the configuration the executor gets from
  them (\<open>a2a/executor.py\<close>, \<open>__init__\<close>), and the lifespan (\<open>api/app.py\<close>): what is opened in which order, the simulated agents
  and the tables they replace, the recovery of unfinished tasks, and the clean-up at the end.  Each step that talks to the
  outside may raise; the environment says which do.  Routes and the objects without a state are left out.
\<close>

section \<open>Settings\<close>

text \<open>Floats are kept as the texts they are written with.\<close>

record ServerConfig =
  sc_host :: pystr
  sc_port :: int

record LLMConfig =
  lc_planner_model :: pystr
  lc_api_base :: "pystr option"
  lc_timeout_seconds :: pystr
  lc_max_plan_retries :: int
  lc_context_window :: "int option"
  lc_compaction_threshold :: pystr
  lc_compaction_retention :: int

record SchedulerConfig =
  sd_max_parallel_nodes :: int
  sd_node_timeout_seconds :: pystr
  sd_max_node_attempts :: int
  sd_retry_backoff_seconds :: pystr
  sd_replan_on_failure :: bool
  sd_max_revisions :: int
  sd_max_plan_nodes :: nat

record SimConfig =
  sm_start_agents :: bool
  sm_agents :: "(pystr, pystr) dict list"
  sm_chunk_size :: int
  sm_chunk_delay :: pystr

record Settings =
  st_server :: ServerConfig
  st_scheduler :: SchedulerConfig
  st_db_path :: pystr
  st_llm :: LLMConfig
  st_replay_on_startup :: bool
  st_public_url :: pystr
  st_sim :: SimConfig

definition default_scheduler :: SchedulerConfig where
  "default_scheduler = \<lparr>sd_max_parallel_nodes = 5, sd_node_timeout_seconds = py ''600.0'', sd_max_node_attempts = 2,
     sd_retry_backoff_seconds = py ''1.0'', sd_replan_on_failure = True, sd_max_revisions = 3, sd_max_plan_nodes = 20\<rparr>"

definition default_llm :: LLMConfig where
  "default_llm = \<lparr>lc_planner_model = py ''openai/gpt-4.1'', lc_api_base = None, lc_timeout_seconds = py ''60.0'',
     lc_max_plan_retries = 2, lc_context_window = None, lc_compaction_threshold = py ''0.8'', lc_compaction_retention = 10\<rparr>"

definition default_sim :: SimConfig where
  "default_sim = \<lparr>sm_start_agents = False, sm_agents = [], sm_chunk_size = 2, sm_chunk_delay = py ''0.04''\<rparr>"

definition default_settings :: Settings where
  "default_settings = \<lparr>st_server = \<lparr>sc_host = py ''127.0.0.1'', sc_port = 8567\<rparr>, st_scheduler = default_scheduler,
     st_db_path = py ''./data/choirworks.db'', st_llm = default_llm, st_replay_on_startup = True,
     st_public_url = py ''http://127.0.0.1:8567'', st_sim = default_sim\<rparr>"

text \<open>\<open>load_settings\<close>: \<open>read\<close> is \<open>yaml.safe_load\<close> of the file (\<open>None\<close> or an empty value count as no entries), \<open>build\<close> the
  validation of the entries by pydantic, which also reads the environment.\<close>

definition load_settings :: "(pystr \<Rightarrow> exn + (pystr, json) dict option) \<Rightarrow> ((pystr, json) dict \<Rightarrow> exn + Settings) \<Rightarrow> pystr option \<Rightarrow> exn + Settings" where
  "load_settings read build yaml_path = (case yaml_path of
      None \<Rightarrow> build []
    | Some p \<Rightarrow> ebind (read p) (\<lambda>data. build (case data of None \<Rightarrow> [] | Some d \<Rightarrow> d)))"

text \<open>\<open>build_settings\<close> of the simulation.\<close>

definition build_settings :: "pystr \<Rightarrow> nat \<Rightarrow> pystr \<Rightarrow> Settings" where
  "build_settings host port db_path = default_settings\<lparr>st_server := \<lparr>sc_host = host, sc_port = int port\<rparr>, st_db_path := db_path,
     st_public_url := py ''http://'' @ host @ py '':'' @ nat_str port,
     st_scheduler := default_scheduler\<lparr>sd_retry_backoff_seconds := py ''0.2''\<rparr>\<rparr>"

text \<open>What the executor is built with; no setting gives \<open>max_derived_nodes\<close>, so it keeps its default.\<close>

definition executor_config :: "Settings \<Rightarrow> ExecutorConfig" where
  "executor_config st = \<lparr>cfg_max_parallel = sd_max_parallel_nodes (st_scheduler st),
     cfg_node_timeout = sd_node_timeout_seconds (st_scheduler st), cfg_max_node_attempts = sd_max_node_attempts (st_scheduler st),
     cfg_max_derived_nodes = 5, cfg_max_revisions = sd_max_revisions (st_scheduler st),
     cfg_replan_on_failure = sd_replan_on_failure (st_scheduler st), cfg_max_nodes = sd_max_plan_nodes (st_scheduler st),
     cfg_max_plan_retries = lc_max_plan_retries (st_llm st)\<rparr>"

section \<open>The card of the server\<close>

text \<open>\<open>a2a/card.py\<close>: what the server says of itself; the extension of each of its two kinds of metadata has a description.\<close>

record server_card =
  vc_name :: pystr
  vc_description :: pystr
  vc_version :: pystr
  vc_streaming :: bool
  vc_extensions :: "(pystr \<times> pystr \<times> bool) list"
  vc_modes :: "pystr list"
  vc_skills :: "(pystr \<times> pystr \<times> pystr \<times> pystr list) list"
  vc_interfaces :: "CardInterface list"

definition A2A_ROOM_URI :: pystr where
  "A2A_ROOM_URI = py ''https://github.com/Javey/choirworks/extensions/room/v1''"

definition A2A_CW_EVENTS_URI :: pystr where
  "A2A_CW_EVENTS_URI = py ''https://github.com/Javey/choirworks/extensions/cw-events/v1''"

definition ROOM_DESCRIPTION :: pystr where
  "ROOM_DESCRIPTION = py ''Group-chat fields (mentions, quote, interrupt) in message metadata''"

definition EVENTS_DESCRIPTION :: pystr where
  "EVENTS_DESCRIPTION = py ''Custom content kinds in part metadata ''
    @ py ''(cw_type: thought | text | function_call | question | decision | history | compaction); ''
     @ py ''plan state deltas ride on status event metadata (cw_delta)''"

definition build_agent_card :: "pystr \<Rightarrow> server_card" where
  "build_agent_card public_url = (let base = rev (dropWhile (\<lambda>c. c = 47) (rev public_url)) in
     \<lparr>vc_name = py ''ChoirWorks'', vc_description = ([22810] @ py '' Agent '' @ [21327, 20316, 24037, 20316, 32676, 65288]
       @ py ''A2A SDK'' @ [65289]), vc_version = py ''0.1.0'', vc_streaming = True,
      vc_extensions = [(A2A_ROOM_URI, ROOM_DESCRIPTION, False), (A2A_CW_EVENTS_URI, EVENTS_DESCRIPTION, False)],
      vc_modes = [py ''text/plain''],
      vc_skills = [(py ''orchestrate'', ([22810] @ py '' Agent '' @ [32534, 25490]), ([35268, 21010, 12289, 35843, 24230, 24182, 21327,
        35843, 22810, 20010] @ py '' A2A agent '' @ [23436, 25104, 22797, 26434, 20219, 21153]), [py ''orchestration''])],
      vc_interfaces = [\<lparr>ci_binding = py ''HTTP+JSON'', ci_version = py ''1.0'', ci_url = base @ py ''/v1''\<rparr>,
        \<lparr>ci_binding = py ''JSONRPC'', ci_version = py ''1.0'', ci_url = base @ py ''/v1/a2a''\<rparr>]\<rparr>)"

text \<open>The card as another server's registry fetches it.\<close>

definition fetched_card :: "(server_card \<Rightarrow> json) \<Rightarrow> server_card \<Rightarrow> AgentCard" where
  "fetched_card dump k = \<lparr>card_name = vc_name k, card_interfaces = vc_interfaces k, card_data = dump k\<rparr>"

text \<open>A ChoirWorks server can itself be an agent of another one: wherever it is published, the registry accepts its card, if the
  address of its JSON-RPC interface is a valid one.\<close>

theorem own_card_accepted:
  assumes "http_url (rev (dropWhile (\<lambda>c. c = 47) (rev public_url)) @ py ''/v1/a2a'')"
  shows "resolve_card http_url (Inr (fetched_card dump (build_agent_card public_url))) = Inr (fetched_card dump (build_agent_card public_url))"
  using assms by (simp add: resolve_card_def check_card_def fetched_card_def build_agent_card_def Let_def str_strip_def is_space_def py_def)

theorem own_card_accepted_witness:
  "resolve_card (\<lambda>u. u = py ''http://h/v1/a2a'') (Inr (fetched_card (\<lambda>k. JNull) (build_agent_card (py ''http://h/''))))
     = Inr (fetched_card (\<lambda>k. JNull) (build_agent_card (py ''http://h/'')))"
  by (rule own_card_accepted) (simp add: py_def)

section \<open>The lifespan\<close>

datatype resource = Engine | Db_connection | Http_client | Fake_agent pystr nat | Request_handler

text \<open>The steps that may raise, the \<open>i\<close>-th simulated agent counted from 0.\<close>

datatype app_step = Make_dir | Init_task_store | Init_db | Wipe_tables | Start_agent nat
  | Stop_agent nat | Shutdown_executor | Close_handler | Close_remote | Close_db | Dispose_engine

record app_env =
  ae_fails :: "app_step \<Rightarrow> exn option"
  ae_port :: "nat \<Rightarrow> nat"
  ae_dump :: "sim_card \<Rightarrow> json"
  ae_uuid :: "nat \<Rightarrow> pystr"
  ae_now :: pystr
  ae_delivered :: "Task \<Rightarrow> bool"
  ae_dir :: dir_config

text \<open>What outlives a process (the rows of the three tables) and what the running one has.\<close>

record app =
  ap_open :: "resource list"
  ap_dir :: directory
  ap_tasks :: "Task list"
  ap_server :: server
  ap_recovered :: nat

text \<open>Sequencing of steps that change the application until one raises.\<close>

type_synonym app_action = "app \<Rightarrow> exn option \<times> app"

definition app_then :: "app_action \<Rightarrow> app_action \<Rightarrow> app_action" where
  "app_then f g a = (case f a of (Some e, a') \<Rightarrow> (Some e, a') | (None, a') \<Rightarrow> g a')"

definition app_try :: "app_env \<Rightarrow> app_step \<Rightarrow> (app \<Rightarrow> app) \<Rightarrow> app_action" where
  "app_try env s f a = (case ae_fails env s of Some e \<Rightarrow> (Some e, a) | None \<Rightarrow> (None, f a))"

fun app_seq :: "app_action list \<Rightarrow> app_action" where
  "app_seq [] a = (None, a)"
| "app_seq (f # fs) a = app_then f (app_seq fs) a"

definition opens :: "resource \<Rightarrow> app \<Rightarrow> app" where
  "opens r a = a\<lparr>ap_open := ap_open a @ [r]\<rparr>"

definition closes :: "resource \<Rightarrow> app \<Rightarrow> app" where
  "closes r a = a\<lparr>ap_open := filter (\<lambda>x. x \<noteq> r) (ap_open a)\<rparr>"

text \<open>The three \<open>DELETE\<close> statements.\<close>

definition wipe_tables :: "app \<Rightarrow> app" where
  "wipe_tables a = a\<lparr>ap_dir := (ap_dir a)\<lparr>di_rows := []\<rparr>, ap_tasks := [], ap_server := (ap_server a)\<lparr>sv_store := [], sv_agents := []\<rparr>\<rparr>"

text \<open>\<open>start_fake_agent\<close>: the address, and the card the agent serves there.\<close>

definition agent_address :: "nat \<Rightarrow> pystr" where
  "agent_address port = py ''http://127.0.0.1:'' @ nat_str port"

definition served_card :: "(sim_card \<Rightarrow> json) \<Rightarrow> pystr \<Rightarrow> pystr \<Rightarrow> nat \<Rightarrow> AgentCard" where
  "served_card dump behavior name port = (let crd = make_card behavior (agent_address port) name in
     \<lparr>card_name = sk_name crd, card_interfaces = [\<lparr>ci_binding = py ''JSONRPC'', ci_version = py ''1.0'', ci_url = sk_url crd\<rparr>],
      card_data = dump crd\<rparr>)"

definition spec_behavior :: "(pystr, pystr) dict \<Rightarrow> pystr" where
  "spec_behavior spec = (case map_of spec (py ''behavior'') of None \<Rightarrow> py ''echo'' | Some b \<Rightarrow> b)"

text \<open>\<open>registry.register(name, agent.url)\<close>, alone: nothing else runs during the start.\<close>

definition register_agent :: "app_env \<Rightarrow> nat \<Rightarrow> pystr \<Rightarrow> pystr \<Rightarrow> app_action" where
  "register_agent env i name behavior a =
     (let ev = \<lparr>ev_fetched = Inr (served_card (ae_dump env) behavior name (ae_port env i)), ev_uuid = ae_uuid env i, ev_now = ae_now env\<rparr>;
          (res, d) = run_op (ae_dir env) ev 4 (Begin (Register name (agent_address (ae_port env i)))) (ap_dir a);
          a' = a\<lparr>ap_dir := d, ap_server := (ap_server a)\<lparr>sv_agents := di_rows d\<rparr>\<rparr>
      in case res of Inr (R_raises e) \<Rightarrow> (Some e, a') | _ \<Rightarrow> (None, a'))"

text \<open>One entry of \<open>settings.sim.agents\<close>.\<close>

definition sim_start :: "app_env \<Rightarrow> nat \<times> (pystr, pystr) dict \<Rightarrow> app_action" where
  "sim_start env = (\<lambda>(i, spec) a. case map_of spec (py ''name'') of
      None \<Rightarrow> (Some (KeyError (py ''name'')), a)
    | Some name \<Rightarrow> app_then (app_try env (Start_agent i) (opens (Fake_agent name i))) (register_agent env i name (spec_behavior spec)) a)"

definition sim_agents_start :: "app_env \<Rightarrow> SimConfig \<Rightarrow> app_action" where
  "sim_agents_start env sm = (if sm_start_agents sm \<and> sm_agents sm \<noteq> []
     then app_then (app_try env Wipe_tables wipe_tables) (app_seq (map (sim_start env) (enumerate 0 (sm_agents sm))))
     else app_seq [])"

definition recover_start :: "app_env \<Rightarrow> bool \<Rightarrow> app_action" where
  "recover_start env replay a = (if \<not> replay then (None, a)
     else case recover_tasks (ae_now env) (d_has (sv_store (ap_server a))) (ae_delivered env) (ap_tasks a) of
       Inl e \<Rightarrow> (Some e, a)
     | Inr n \<Rightarrow> (None, a\<lparr>ap_recovered := n\<rparr>))"

text \<open>Everything before the \<open>yield\<close>.  The executor, its sessions and the caches of the remote client are new; the rows are those of
  the database.\<close>

definition fresh_process :: "Settings \<Rightarrow> app \<Rightarrow> app" where
  "fresh_process st a = a\<lparr>ap_dir := (ap_dir a)\<lparr>di_remote := di_remote empty_directory\<rparr>,
     ap_server := (ap_server a)\<lparr>sv_config := executor_config st, sv_sessions := [], sv_agents := di_rows (ap_dir a)\<rparr>, ap_recovered := 0\<rparr>"

definition lifespan_start :: "app_env \<Rightarrow> Settings \<Rightarrow> app_action" where
  "lifespan_start env st = app_seq
     [app_try env Make_dir (opens Engine), app_try env Init_task_store (\<lambda>a. a), app_try env Init_db (opens Db_connection),
      \<lambda>a. (None, opens Request_handler (opens Http_client (fresh_process st a))),
      sim_agents_start env (st_sim st), recover_start env (st_replay_on_startup st)]"

text \<open>The \<open>finally\<close>: the first step that raises skips the rest.\<close>

definition stop_agents :: "app_env \<Rightarrow> app_action" where
  "stop_agents env a = app_seq (concat (map (\<lambda>r. case r of Fake_agent n i \<Rightarrow> [app_try env (Stop_agent i) (closes r)] | _ \<Rightarrow> []) (ap_open a))) a"

definition lifespan_stop :: "app_env \<Rightarrow> app_action" where
  "lifespan_stop env = app_seq
     [stop_agents env, app_try env Shutdown_executor (\<lambda>a. a\<lparr>ap_server := snd (server_shutdown (ap_server a))\<rparr>),
      app_try env Close_handler (closes Request_handler), app_try env Close_remote (closes Http_client),
      app_try env Close_db (closes Db_connection), app_try env Dispose_engine (closes Engine)]"

text \<open>The whole life of the application; \<open>serve\<close> is what happens between start and stop.\<close>

definition lifespan :: "app_env \<Rightarrow> Settings \<Rightarrow> (app \<Rightarrow> app) \<Rightarrow> app_action" where
  "lifespan env st serve = app_then (lifespan_start env st) (\<lambda>a. lifespan_stop env (serve a))"

section \<open>Lemmas\<close>

lemma app_then_None: "app_then f g a = (None, b) \<longleftrightarrow> (\<exists>c. f a = (None, c) \<and> g c = (None, b))"
  by (auto simp: app_then_def split: prod.splits option.splits)

lemma app_then_Some: "app_then f g a = (Some e, b) \<longleftrightarrow> f a = (Some e, b) \<or> (\<exists>c. f a = (None, c) \<and> g c = (Some e, b))"
  by (auto simp: app_then_def split: prod.splits option.splits)

lemma app_try_None [simp]: "app_try env s f a = (None, b) \<longleftrightarrow> ae_fails env s = None \<and> b = f a"
  by (auto simp: app_try_def split: option.splits)

lemma app_try_Some [simp]: "app_try env s f a = (Some e, b) \<longleftrightarrow> ae_fails env s = Some e \<and> b = a"
  by (auto simp: app_try_def split: option.splits)

lemma app_seq_append: "app_seq (fs @ gs) a = app_then (app_seq fs) (app_seq gs) a"
  by (induction fs arbitrary: a) (auto simp: app_then_def split: prod.splits option.splits)

text \<open>What every action of a list keeps, whether it ends or raises.\<close>

lemma app_seq_keeps:
  assumes "\<And>f a r b. f \<in> set fs \<Longrightarrow> P a \<Longrightarrow> f a = (r, b) \<Longrightarrow> P b" and "app_seq fs a = (r, b)" and "P a"
  shows "P b"
  using assms
proof (induction fs arbitrary: a)
  case (Cons f fs)
  obtain r1 a1 where f: "f a = (r1, a1)" by force
  then have "P a1" using Cons.prems(1) [of f a r1 a1] Cons.prems(3) by simp
  then show ?case using Cons.IH [of a1] Cons.prems f by (cases r1) (auto simp: app_then_def)
qed simp

lemma register_agent_frame:
  "register_agent env i n b a = (r, a') \<Longrightarrow> ap_open a' = ap_open a \<and> ap_tasks a' = ap_tasks a \<and> ap_recovered a' = ap_recovered a
    \<and> (\<exists>d. ap_dir a' = d \<and> ap_server a' = (ap_server a)\<lparr>sv_agents := di_rows d\<rparr>)"
  by (auto simp: register_agent_def Let_def split: prod.splits sum.splits dir_result.splits)

definition is_fake :: "resource \<Rightarrow> bool" where
  "is_fake r = (case r of Fake_agent n i \<Rightarrow> True | _ \<Rightarrow> False)"

lemma is_fake_simps [simp]: "is_fake (Fake_agent n i)" "\<not> is_fake Engine" "\<not> is_fake Db_connection" "\<not> is_fake Http_client" "\<not> is_fake Request_handler"
  by (simp_all add: is_fake_def)

text \<open>What the start of the simulated agents leaves of the rest: resources are only added, and only agents.\<close>

definition agents_only :: "app \<Rightarrow> app \<Rightarrow> bool" where
  "agents_only a a' \<longleftrightarrow> set (ap_open a) \<subseteq> set (ap_open a') \<and> (\<forall>r \<in> set (ap_open a'). r \<in> set (ap_open a) \<or> is_fake r)
     \<and> sv_sessions (ap_server a') = sv_sessions (ap_server a) \<and> sv_config (ap_server a') = sv_config (ap_server a)
     \<and> (sv_store (ap_server a') = sv_store (ap_server a) \<or> sv_store (ap_server a') = [])"

lemma sim_start_frame: "sim_start env (i, spec) a = (r, a') \<Longrightarrow> agents_only a a' \<and> ap_tasks a' = ap_tasks a"
  by (cases r) (auto simp: sim_start_def opens_def agents_only_def app_then_None app_then_Some split: option.splits dest!: register_agent_frame)

lemma agents_only_trans: "agents_only a b \<Longrightarrow> agents_only b c \<Longrightarrow> agents_only a c"
  unfolding agents_only_def by fastforce

section \<open>What the application guarantees\<close>

subsection \<open>Resources\<close>

lemma stop_agents_closes:
  assumes "app_seq (concat (map (\<lambda>r. case r of Fake_agent n i \<Rightarrow> [app_try env (Stop_agent i) (closes r)] | _ \<Rightarrow> []) rs)) a = (None, b)"
  shows "b = a\<lparr>ap_open := filter (\<lambda>x. x \<notin> set rs \<or> \<not> is_fake x) (ap_open a)\<rparr>"
  using assms
proof (induction rs arbitrary: a)
  case (Cons r rs)
  show ?case
  proof (cases "is_fake r")
    case True
    then obtain n i where r: "r = Fake_agent n i" by (cases r) simp_all
    then have "b = (closes r a)\<lparr>ap_open := filter (\<lambda>x. x \<notin> set rs \<or> \<not> is_fake x) (ap_open (closes r a))\<rparr>"
      using Cons.IH [of "closes r a"] Cons.prems by (simp add: app_then_None)
    moreover have "filter (\<lambda>x. x \<notin> set rs \<or> \<not> is_fake x) (filter (\<lambda>x. x \<noteq> r) (ap_open a))
        = filter (\<lambda>x. x \<notin> set (r # rs) \<or> \<not> is_fake x) (ap_open a)"
      unfolding filter_filter by (rule filter_cong) (use r in auto)
    ultimately show ?thesis by (simp add: closes_def)
  next
    case False
    then have "filter (\<lambda>x. x \<notin> set (r # rs) \<or> \<not> is_fake x) (ap_open a) = filter (\<lambda>x. x \<notin> set rs \<or> \<not> is_fake x) (ap_open a)"
      by (intro filter_cong) auto
    moreover have "b = a\<lparr>ap_open := filter (\<lambda>x. x \<notin> set rs \<or> \<not> is_fake x) (ap_open a)\<rparr>"
      using Cons False by (cases r) simp_all
    ultimately show ?thesis by simp
  qed
qed simp

lemma stop_fails_closes: "stop_agents env a = (Some e, b) \<Longrightarrow> set (ap_open b) \<subseteq> set (ap_open a)"
  unfolding stop_agents_def
  by (rule app_seq_keeps [where P = "\<lambda>b. set (ap_open b) \<subseteq> set (ap_open a)"])
    (auto simp: closes_def app_try_def split: resource.splits option.splits)

definition base_resources :: "resource list" where
  "base_resources = [Engine, Db_connection, Http_client, Request_handler]"

lemma sim_agents_frame:
  assumes "sim_agents_start env sm a = (r, a')"
  shows "agents_only a a'"
proof (cases "sm_start_agents sm \<and> sm_agents sm \<noteq> []")
  case True
  let ?fs = "map (sim_start env) (enumerate 0 (sm_agents sm))"
  have keep: "agents_only a c" if "f \<in> set ?fs" "agents_only a b" "f b = (r, c)" for f b r c
  proof -
    obtain i spec where "f = sim_start env (i, spec)" using \<open>f \<in> set ?fs\<close> by auto
    then show ?thesis using sim_start_frame [of env i spec b r c] that(2,3) by (auto intro: agents_only_trans)
  qed
  have wiped: "agents_only a (wipe_tables a)" by (simp add: wipe_tables_def agents_only_def)
  have seq: "agents_only a c" if "app_seq ?fs (wipe_tables a) = (r, c)" for r c
    by (rule app_seq_keeps [where P = "agents_only a", OF keep that wiped])
  show ?thesis using assms True seq
    by (cases r) (auto simp: sim_agents_start_def app_then_None app_then_Some agents_only_def)
qed (use assms in \<open>auto simp: sim_agents_start_def agents_only_def\<close>)

lemma recover_start_frame: "recover_start env b a = (r, a') \<Longrightarrow> ap_open a' = ap_open a \<and> ap_server a' = ap_server a \<and> ap_dir a' = ap_dir a"
  by (auto simp: recover_start_def split: if_splits sum.splits)

text \<open>Starting opens and never closes.\<close>

lemma start_frame:
  assumes "lifespan_start env st a = (r, a')"
  shows "set (ap_open a) \<subseteq> set (ap_open a')
    \<and> (\<forall>x \<in> set (ap_open a'). x \<in> set (ap_open a) \<union> set base_resources \<or> is_fake x)
    \<and> (r = None \<longrightarrow> set base_resources \<subseteq> set (ap_open a') \<and> sv_sessions (ap_server a') = [] \<and> sv_config (ap_server a') = executor_config st)
    \<and> (sv_store (ap_server a') = sv_store (ap_server a) \<or> sv_store (ap_server a') = [])"
  using assms
  by (cases r) (auto simp: lifespan_start_def app_then_None app_then_Some opens_def fresh_process_def base_resources_def agents_only_def
      dest!: recover_start_frame sim_agents_frame)

text \<open>A life of the application that ends without an exception gives back everything: it stops every simulated agent, cancels
  the sessions, and closes the handler, the HTTP client, the database and the engine, whatever was served in between.\<close>

theorem lifespan_releases:
  assumes "lifespan env st serve a = (None, a')" and "ap_open a = []" and "\<And>x. ap_open (serve x) = ap_open x"
  shows "ap_open a' = [] \<and> sv_sessions (ap_server a') = []"
proof -
  obtain a1 where start: "lifespan_start env st a = (None, a1)" and stop: "lifespan_stop env (serve a1) = (None, a')"
    using assms(1) by (auto simp: lifespan_def app_then_None)
  obtain b where b: "stop_agents env (serve a1) = (None, b)"
    and a': "a' = closes Engine (closes Db_connection (closes Http_client (closes Request_handler (b\<lparr>ap_server := snd (server_shutdown (ap_server b))\<rparr>))))"
    using stop by (auto simp: lifespan_stop_def app_then_None)
  have "set (ap_open b) \<subseteq> set base_resources"
    using stop_agents_closes [OF b [unfolded stop_agents_def]] start_frame [OF start] assms(2,3) by auto
  then have "ap_open a' = []" by (auto simp: a' closes_def base_resources_def filter_empty_conv)
  then show ?thesis by (simp add: a' closes_def server_shutdown_def)
qed

text \<open>A start that raises is not undone: the exception leaves the lifespan at once, no clean-up step runs, and everything
  opened before (the engine as soon as its directory exists, the database, the simulated agents) stays open.\<close>

theorem failed_start_leaks:
  assumes "lifespan_start env st a = (Some e, a')" and "ae_fails env Make_dir = None"
  shows "lifespan env st serve a = (Some e, a') \<and> set (ap_open a) \<subseteq> set (ap_open a') \<and> Engine \<in> set (ap_open a')
    \<and> (ae_fails env Init_task_store = None \<and> ae_fails env Init_db = None \<longrightarrow> {Db_connection, Http_client, Request_handler} \<subseteq> set (ap_open a'))"
  using assms
  by (auto simp: lifespan_def lifespan_start_def app_then_None app_then_Some opens_def fresh_process_def agents_only_def
      dest!: recover_start_frame sim_agents_frame)

subsection \<open>The simulated agents\<close>

lemma register_run:
  "run_op cfg ev 4 (Begin (Register n u)) d = (case registration cfg n u of
      Inl e \<Rightarrow> (Inr (R_raises e), d)
    | Inr (n', u') \<Rightarrow> if row_by_name n' d \<noteq> None then (Inr (R_raises (name_taken n')), d)
        else (case resolve_card (dc_http_url cfg) (ev_fetched ev) of
            Inl e \<Rightarrow> (Inr (R_raises e), d)
          | Inr crd \<Rightarrow> (Inr (R_record (new_record ev n' u' crd)),
              with_remote (cache_card u' crd) (d\<lparr>di_rows := di_rows d @ [new_record ev n' u' crd], di_used := di_used d @ [ev_uuid ev]\<rparr>))))"
  by (simp add: eval_nat_numeral begin_call_def new_record_def Let_def split: sum.split prod.split option.split)

text \<open>An entry whose name and address are accepted.\<close>

definition good_spec :: "app_env \<Rightarrow> nat \<times> (pystr, pystr) dict \<Rightarrow> bool" where
  "good_spec env = (\<lambda>(i, spec). case map_of spec (py ''name'') of None \<Rightarrow> False
     | Some n \<Rightarrow> registration (ae_dir env) n (agent_address (ae_port env i)) = Inr (n, agent_address (ae_port env i))
         \<and> dc_http_url (ae_dir env) (agent_address (ae_port env i)))"

definition spec_name :: "(pystr, pystr) dict \<Rightarrow> pystr" where
  "spec_name spec = (case map_of spec (py ''name'') of None \<Rightarrow> [] | Some n \<Rightarrow> n)"

text \<open>The row of an entry: its name, its own address, and the card its behaviour has.\<close>

definition spec_row :: "app_env \<Rightarrow> nat \<times> (pystr, pystr) dict \<Rightarrow> pystr \<times> pystr \<times> json" where
  "spec_row env = (\<lambda>(i, spec). (spec_name spec, agent_address (ae_port env i),
     card_data (served_card (ae_dump env) (spec_behavior spec) (spec_name spec) (ae_port env i))))"

definition row_key :: "AgentRecord \<Rightarrow> pystr \<times> pystr \<times> json" where
  "row_key r = (ag_name r, ag_card_url r, ag_card r)"

lemma registration_name:
  assumes "registration cfg n u = Inr (n, u')"
  shows "str_strip n = n \<and> n \<noteq> []"
proof -
  have "valid_name (str_strip n)" "str_strip n = n" using assms by (auto simp: registration_def ebind_eq_Inr split: if_splits)
  then show ?thesis by (simp add: valid_name_def)
qed

lemma served_card_resolves:
  assumes "registration (ae_dir env) n u = Inr (n, u')" and "dc_http_url (ae_dir env) (agent_address p)"
  shows "resolve_card (dc_http_url (ae_dir env)) (Inr (served_card dump b n p)) = Inr (served_card dump b n p)"
  using registration_name [OF assms(1)] assms(2)
  by (simp add: resolve_card_def check_card_def served_card_def make_card_def Let_def)

lemma sim_start_good:
  assumes "good_spec env (i, spec)" and "ae_fails env (Start_agent i) = None" and "row_by_name (spec_name spec) (ap_dir a) = None"
  shows "\<exists>a'. sim_start env (i, spec) a = (None, a') \<and> map row_key (di_rows (ap_dir a')) = map row_key (di_rows (ap_dir a)) @ [spec_row env (i, spec)]
    \<and> sv_agents (ap_server a') = di_rows (ap_dir a') \<and> sv_store (ap_server a') = sv_store (ap_server a) \<and> ap_tasks a' = ap_tasks a
    \<and> ap_recovered a' = ap_recovered a"
proof -
  obtain n where n: "map_of spec (py ''name'') = Some n" and reg: "registration (ae_dir env) n (agent_address (ae_port env i)) = Inr (n, agent_address (ae_port env i))"
    and http: "dc_http_url (ae_dir env) (agent_address (ae_port env i))" using assms(1) by (auto simp: good_spec_def split: option.splits)
  then have sn: "spec_name spec = n" by (simp add: spec_name_def)
  show ?thesis using assms(2,3) n reg served_card_resolves [OF reg http]
    by (simp add: sim_start_def app_then_def app_try_def opens_def register_agent_def register_run Let_def sn spec_row_def row_key_def new_record_def with_remote_def)
qed

lemma row_by_name_keys: "row_by_name n d = None \<longleftrightarrow> n \<notin> fst ` set (map row_key (di_rows d))"
  by (force simp: row_by_name_def find_None_iff row_key_def)

lemma sim_starts_good:
  assumes "\<forall>x \<in> set xs. good_spec env x" and "\<forall>i. ae_fails env (Start_agent i) = None"
    and "distinct (map fst (map row_key (di_rows (ap_dir a))) @ map (\<lambda>(i, spec). spec_name spec) xs)" and "sv_agents (ap_server a) = di_rows (ap_dir a)"
  shows "\<exists>a'. app_seq (map (sim_start env) xs) a = (None, a') \<and> map row_key (di_rows (ap_dir a')) = map row_key (di_rows (ap_dir a)) @ map (spec_row env) xs
    \<and> sv_agents (ap_server a') = di_rows (ap_dir a') \<and> sv_store (ap_server a') = sv_store (ap_server a) \<and> ap_tasks a' = ap_tasks a
    \<and> ap_recovered a' = ap_recovered a"
  using assms
proof (induction xs arbitrary: a)
  case (Cons x xs)
  obtain i spec where x: "x = (i, spec)" by force
  have "row_by_name (spec_name spec) (ap_dir a) = None" using Cons.prems(3) x by (auto simp: row_by_name_keys)
  then obtain a1 where a1: "sim_start env x a = (None, a1)" "map row_key (di_rows (ap_dir a1)) = map row_key (di_rows (ap_dir a)) @ [spec_row env x]"
    "sv_agents (ap_server a1) = di_rows (ap_dir a1)" "sv_store (ap_server a1) = sv_store (ap_server a)" "ap_tasks a1 = ap_tasks a"
    "ap_recovered a1 = ap_recovered a"
    using sim_start_good [of env i spec a] Cons.prems(1,2) x by auto
  have "fst (spec_row env x) = spec_name spec" by (simp add: x spec_row_def)
  then have "distinct (map fst (map row_key (di_rows (ap_dir a1))) @ map (\<lambda>(i, spec). spec_name spec) xs)"
    using Cons.prems(3) unfolding a1(2) by (simp add: x del: map_map)
  then obtain a2 where "app_seq (map (sim_start env) xs) a1 = (None, a2)" "map row_key (di_rows (ap_dir a2)) = map row_key (di_rows (ap_dir a1)) @ map (spec_row env) xs"
    "sv_agents (ap_server a2) = di_rows (ap_dir a2)" "sv_store (ap_server a2) = sv_store (ap_server a1)" "ap_tasks a2 = ap_tasks a1"
    "ap_recovered a2 = ap_recovered a1"
    using Cons.IH [of a1] Cons.prems(1,2) a1(3) by auto
  then show ?case using a1 by (simp add: app_then_def del: map_map)
qed simp

text \<open>Started with simulated agents, whatever the database held, the application begins without conversations or tasks and
  with nothing to recover, and its registry holds exactly the configured agents, in that order: each under its name, with the
  address it listens on and the card of its behaviour.\<close>

theorem simulated_registry:
  assumes "sm_start_agents (st_sim st)" and "sm_agents (st_sim st) \<noteq> []" and "\<forall>s. ae_fails env s = None"
    and "\<forall>x \<in> set (enumerate 0 (sm_agents (st_sim st))). good_spec env x" and "distinct (map spec_name (sm_agents (st_sim st)))"
  shows "\<exists>a'. lifespan_start env st a = (None, a')
    \<and> map row_key (di_rows (ap_dir a')) = map (spec_row env) (enumerate 0 (sm_agents (st_sim st)))
    \<and> sv_agents (ap_server a') = di_rows (ap_dir a') \<and> sv_store (ap_server a') = [] \<and> ap_tasks a' = [] \<and> ap_recovered a' = 0"
proof -
  let ?xs = "enumerate 0 (sm_agents (st_sim st))"
  let ?a0 = "opens Request_handler (opens Http_client (fresh_process st (opens Db_connection (opens Engine a))))"
  have "map (\<lambda>(i, spec). spec_name spec) ?xs = map spec_name (map snd ?xs)" by (simp add: case_prod_beta comp_def del: map_snd_enumerate)
  then have "distinct (map (\<lambda>(i, spec). spec_name spec) ?xs)" using assms(5) by simp
  then obtain a1 where a1: "app_seq (map (sim_start env) ?xs) (wipe_tables ?a0) = (None, a1)"
    "map row_key (di_rows (ap_dir a1)) = map (spec_row env) ?xs" "sv_agents (ap_server a1) = di_rows (ap_dir a1)"
    "sv_store (ap_server a1) = []" "ap_tasks a1 = []" "ap_recovered a1 = 0"
    using sim_starts_good [of ?xs env "wipe_tables ?a0"] assms(3,4) by (auto simp: wipe_tables_def opens_def fresh_process_def)
  have "sim_agents_start env (st_sim st) ?a0 = (None, a1)"
    using assms(1-3) a1(1) by (simp add: sim_agents_start_def app_then_None)
  then have start: "lifespan_start env st a = recover_start env (st_replay_on_startup st) a1"
    using assms(3) by (simp add: lifespan_start_def app_then_def app_try_def split: prod.split option.split)
  show ?thesis
  proof (cases "st_replay_on_startup st")
    case True
    then have "lifespan_start env st a = (None, a1\<lparr>ap_recovered := 0\<rparr>)"
      using start a1(5) by (simp add: recover_start_def recover_tasks_def iter_all_tasks_def)
    then show ?thesis using a1 by simp
  next
    case False
    then have "lifespan_start env st a = (None, a1)" using start by (simp add: recover_start_def)
    then show ?thesis using a1 by simp
  qed
qed

subsection \<open>Restarts\<close>

text \<open>One life of the process: a start, any steps of the server, and a clean end.  A killed process leaves the same rows.\<close>

inductive app_life :: "Settings \<Rightarrow> app \<Rightarrow> app \<Rightarrow> bool" for st where
  app_lives: "lifespan_start env st a = (None, a1) \<Longrightarrow> (\<lambda>sv sv'. \<exists>l. server_step l sv sv')\<^sup>*\<^sup>* (ap_server a1) sv
    \<Longrightarrow> lifespan_stop env' (a1\<lparr>ap_server := sv\<rparr>) = (None, a') \<Longrightarrow> app_life st a a'"

definition rows_good :: "ExecutorConfig \<Rightarrow> app \<Rightarrow> bool" where
  "rows_good cfg a \<longleftrightarrow> (\<forall>k js. map_of (sv_store (ap_server a)) k = Some js \<longrightarrow> row_good cfg js)"

lemma started_server_inv:
  assumes "lifespan_start env st a = (None, a1)" and "rows_good (executor_config st) a"
  shows "server_inv (ap_server a1) \<and> sv_config (ap_server a1) = executor_config st"
proof -
  have f: "sv_sessions (ap_server a1) = []" "sv_config (ap_server a1) = executor_config st"
    "sv_store (ap_server a1) = sv_store (ap_server a) \<or> sv_store (ap_server a1) = []" using start_frame [OF assms(1)] by auto
  have "row_good (executor_config st) js" if "map_of (sv_store (ap_server a1)) k = Some js" for k js
    using f(3) that assms(2) unfolding rows_good_def by auto
  then show ?thesis using f(1,2) by (simp add: server_inv_def)
qed

lemma stop_server:
  assumes "lifespan_stop env a = (None, a')"
  shows "sv_store (ap_server a') = sv_store (ap_server a) \<and> sv_sessions (ap_server a') = []"
proof -
  obtain b where b: "stop_agents env a = (None, b)" "ap_server a' = snd (server_shutdown (ap_server b))"
    using assms by (auto simp: lifespan_stop_def app_then_None closes_def)
  have "ap_server b = ap_server a" using stop_agents_closes [OF b(1) [unfolded stop_agents_def]] by simp
  then show ?thesis using b(2) by (simp add: server_shutdown_def)
qed

lemma app_life_rows: "app_life st a a' \<Longrightarrow> rows_good (executor_config st) a \<Longrightarrow> rows_good (executor_config st) a'"
proof (induction rule: app_life.induct)
  case (app_lives env a a1 sv env' a')
  have "server_inv sv \<and> sv_config sv = executor_config st"
    using servers.run_inv [OF app_lives(2)] started_server_inv [OF app_lives(1,4)] by blast
  then show ?case using stop_server [OF app_lives(3)] unfolding rows_good_def server_inv_def by simp metis
qed

lemma app_lives_rows: "(app_life st)\<^sup>*\<^sup>* a a' \<Longrightarrow> rows_good (executor_config st) a \<Longrightarrow> rows_good (executor_config st) a'"
  by (induction rule: rtranclp_induct) (auto intro: app_life_rows)


section \<open>Witnesses\<close>

definition calm_env :: app_env where
  "calm_env = \<lparr>ae_fails = \<lambda>s. None, ae_port = \<lambda>i. 7000 + i, ae_dump = \<lambda>k. JStr (sk_description k), ae_uuid = \<lambda>i. nat_str i, ae_now = [],
     ae_delivered = \<lambda>t. True, ae_dir = demo_config\<rparr>"

definition empty_app :: app where
  "empty_app = \<lparr>ap_open = [], ap_dir = empty_directory, ap_tasks = [], ap_server = new_server example_config (\<lambda>k i. []) (\<lambda>k i. []), ap_recovered = 0\<rparr>"

definition sim_settings :: "string list \<Rightarrow> Settings" where
  "sim_settings names = default_settings\<lparr>st_sim := default_sim\<lparr>sm_start_agents := True, sm_agents := map (\<lambda>n. [(py ''name'', py n)]) names\<rparr>\<rparr>"

lemma calm_fails [simp]: "ae_fails calm_env s = None"
  by (simp add: calm_env_def)

lemma calm_start: "lifespan_start calm_env default_settings a = recover_start calm_env True
    (opens Request_handler (opens Http_client (fresh_process default_settings (opens Db_connection (opens Engine a)))))"
  by (simp add: lifespan_start_def app_then_def app_try_def sim_agents_start_def default_settings_def default_sim_def split: prod.split option.split)

lemma empty_start: "\<exists>a1. lifespan_start calm_env default_settings empty_app = (None, a1) \<and> ap_open a1 = base_resources \<and> ap_tasks a1 = []"
  by (simp add: calm_start recover_start_def recover_tasks_def iter_all_tasks_def opens_def fresh_process_def empty_app_def base_resources_def)


theorem lifespan_releases_witness:
  "\<exists>a'. lifespan calm_env default_settings (\<lambda>a. a) empty_app = (None, a') \<and> ap_open a' = []"
proof -
  obtain a1 where a1: "lifespan_start calm_env default_settings empty_app = (None, a1)" "ap_open a1 = base_resources" using empty_start by blast
  have "stop_agents calm_env a1 = (None, a1)" unfolding stop_agents_def a1(2) base_resources_def by simp
  then have "\<exists>a'. lifespan_stop calm_env a1 = (None, a')" by (simp add: lifespan_stop_def app_then_None)
  then obtain a' where a': "lifespan calm_env default_settings (\<lambda>a. a) empty_app = (None, a')" using a1(1) by (auto simp: lifespan_def app_then_def)
  from lifespan_releases [OF this] a' show ?thesis by (simp add: empty_app_def)
qed

theorem failed_start_leaks_witness:
  "\<exists>e a'. lifespan (calm_env\<lparr>ae_fails := (\<lambda>s. if s = Init_db then Some Untyped else None)\<rparr>) default_settings (\<lambda>a. a) empty_app = (Some e, a')
     \<and> Engine \<in> set (ap_open a')"
proof -
  let ?env = "calm_env\<lparr>ae_fails := (\<lambda>s. if s = Init_db then Some Untyped else None)\<rparr>"
  have "lifespan_start ?env default_settings empty_app = (Some Untyped, opens Engine empty_app)"
    by (simp add: lifespan_start_def app_then_def app_try_def)
  from failed_start_leaks [OF this, of "\<lambda>a. a"] show ?thesis by auto
qed

lemma no_slash: "rev (dropWhile (\<lambda>c. c = 47) (rev (agent_address p))) = agent_address p"
proof -
  have "last (nat_str p) \<in> set (nat_str p)" by simp
  then have "is_digit (last (nat_str p))" using nat_str_digits by blast
  then have "last (nat_str p) \<noteq> 47" by (auto simp: is_digit_def)
  then have "dropWhile (\<lambda>c. c = 47) (rev (agent_address p)) = rev (agent_address p)"
    by (cases "rev (nat_str p)") (auto simp: agent_address_def last_rev [symmetric] hd_rev)
  then show ?thesis by simp
qed

theorem simulated_registry_witness:
  "\<exists>a'. lifespan_start calm_env (sim_settings [''dev'', ''qa'']) empty_app = (None, a') \<and> map ag_name (di_rows (ap_dir a')) = [py ''dev'', py ''qa'']"
proof -
  let ?st = "sim_settings [''dev'', ''qa'']"
  have name: "valid_name (py n) \<and> str_strip (py n) = py n" if "n = ''dev'' \<or> n = ''qa''" for n
    using that by (auto simp: valid_name_def str_strip_def is_space_def is_alnum_def py_def)
  have reg: "registration demo_config (py n) (agent_address p) = Inr (py n, agent_address p)" if "n = ''dev'' \<or> n = ''qa''" for n p
    using name [OF that] no_slash by (simp add: registration_def normalize_url_def demo_config_def)
  have sim: "sm_start_agents (st_sim ?st)" "sm_agents (st_sim ?st) = [[(py ''name'', py ''dev'')], [(py ''name'', py ''qa'')]]"
    by (simp_all add: sim_settings_def)
  have good: "\<forall>x \<in> set (enumerate 0 (sm_agents (st_sim ?st))). good_spec calm_env x"
    using reg by (simp add: sim(2) good_spec_def calm_env_def) (simp add: demo_config_def)
  have ne: "sm_agents (st_sim ?st) \<noteq> []" and calm: "\<forall>s. ae_fails calm_env s = None" and dist: "distinct (map spec_name (sm_agents (st_sim ?st)))"
    by (simp_all add: sim(2) spec_name_def py_def)
  obtain a' where a': "lifespan_start calm_env ?st empty_app = (None, a')"
    "map row_key (di_rows (ap_dir a')) = map (spec_row calm_env) (enumerate 0 (sm_agents (st_sim ?st)))"
    using simulated_registry [OF sim(1) ne calm good dist, of empty_app] by (elim exE conjE) (rule that)
  have "map ag_name (di_rows (ap_dir a')) = map fst (map row_key (di_rows (ap_dir a')))" by (simp add: row_key_def)
  then have "map ag_name (di_rows (ap_dir a')) = [py ''dev'', py ''qa'']" unfolding a'(2) sim(2) by (simp add: spec_row_def spec_name_def)
  with a'(1) show ?thesis by (intro exI [of _ a'] conjI)
qed

end
