(* ===== verification/New_App.thy ===== *)
theory New_App
  imports App Agent_Nodes
begin

text \<open>
  The server of \<open>new_choirworks\<close>: its settings (\<open>config.py\<close>), its card (\<open>a2a/card.py\<close>), the agent it exposes and its lifespan
  (\<open>app/server.py\<close>), with the actions of \<open>App\<close>.
\<close>

section \<open>Settings, card and agent\<close>

record server_settings =
  ss_host :: pystr
  ss_port :: int
  ss_model :: pystr
  ss_api_base :: "pystr option"
  ss_db_path :: pystr
  ss_public_url :: pystr
  ss_agents :: "AgentInfo list"

definition default_server_settings :: server_settings where
  "default_server_settings = \<lparr>ss_host = py ''0.0.0.0'', ss_port = 8080, ss_model = py ''openai/glm-5.1'', ss_api_base = None,
     ss_db_path = py ''./data/choirworks.db'', ss_public_url = py ''http://localhost:8080'', ss_agents = []\<rparr>"

definition build_llm_card :: "pystr \<Rightarrow> server_card" where
  "build_llm_card public_url = (let base = rev (dropWhile (\<lambda>c. c = 47) (rev public_url)) in
     \<lparr>vc_name = py ''ChoirWorks Agent'', vc_description = py ''An LLM agent with tool calling and structured output.'',
      vc_version = py ''1.0.0'', vc_streaming = True, vc_extensions = [], vc_modes = [py ''text/plain''], vc_skills = [],
      vc_interfaces = [\<lparr>ci_binding = py ''HTTP+JSON'', ci_version = py ''1.0'', ci_url = base @ py ''/v1''\<rparr>,
        \<lparr>ci_binding = py ''JSONRPC'', ci_version = py ''1.0'', ci_url = base @ py ''/v1/a2a''\<rparr>]\<rparr>)"

text \<open>The orchestrator over the configured agents, or an assistant when there are none.\<close>

datatype served_agent =
    Orchestrator_agent pystr "AgentInfo list" "pystr \<times> pystr option"
  | Assistant_agent pystr pystr "pystr \<times> pystr option"

definition create_agent :: "server_settings \<Rightarrow> served_agent" where
  "create_agent st = (let llm = (ss_model st, ss_api_base st) in
     if ss_agents st \<noteq> [] then Orchestrator_agent (py ''choirworks'') (ss_agents st) llm
     else Assistant_agent (py ''choirworks'') (py ''You are a helpful assistant.'') llm)"

section \<open>The lifespan\<close>

definition server_start :: "app_env \<Rightarrow> app_action" where
  "server_start env = app_seq [app_try env Make_dir (opens Engine), app_try env Init_task_store (\<lambda>a. a), \<lambda>a. (None, opens Request_handler a)]"

definition server_stop :: "app_env \<Rightarrow> app_action" where
  "server_stop env = app_seq [app_try env Close_handler (closes Request_handler), app_try env Dispose_engine (closes Engine)]"

definition server_lifespan :: "app_env \<Rightarrow> (app \<Rightarrow> app) \<Rightarrow> app_action" where
  "server_lifespan env serve = app_then (server_start env) (\<lambda>a. server_stop env (serve a))"

text \<open>The server of the new package: a life that ends without an exception closes the handler and the engine; when the task
  store cannot be initialized, the exception leaves the engine open; and a handler that fails to close leaves it open too.\<close>

theorem server_lifespan_ends:
  assumes "server_lifespan env serve a = (r, a')" and "ap_open a = []" and "\<And>x. ap_open (serve x) = ap_open x" and "ae_fails env Make_dir = None"
  shows "(r = None \<longrightarrow> ap_open a' = []) \<and> (ae_fails env Init_task_store = Some e \<longrightarrow> r = Some e \<and> ap_open a' = [Engine])
    \<and> (ae_fails env Init_task_store = None \<and> ae_fails env Close_handler = Some e \<longrightarrow> r = Some e \<and> ap_open a' = [Engine, Request_handler])"
proof -
  have s: "ap_open (serve (opens Request_handler (opens Engine a))) = [Engine, Request_handler]" using assms(2,3) by (simp add: opens_def)
  show ?thesis using assms(1,2,4) s
    by (cases r) (auto simp: server_lifespan_def server_start_def server_stop_def app_then_None app_then_Some opens_def closes_def)
qed

theorem server_lifespan_ends_witness:
  "ap_open (snd (server_lifespan (calm_env\<lparr>ae_fails := (\<lambda>s. if s = Init_task_store then Some Untyped else None)\<rparr>) (\<lambda>a. a) empty_app)) = [Engine]"
proof -
  let ?env = "calm_env\<lparr>ae_fails := (\<lambda>s. if s = Init_task_store then Some Untyped else None)\<rparr>"
  obtain r a' where l: "server_lifespan ?env (\<lambda>a. a) empty_app = (r, a')" by force
  have "ap_open empty_app = []" by (simp add: empty_app_def)
  from server_lifespan_ends [OF l this, of Untyped] l show ?thesis by simp
qed

end
