(* ===== verification/Sim_Runner.thy ===== *)
theory Sim_Runner
  imports App
begin

text \<open>
  The offline simulation of \<open>choirworks\<close> (\<open>sim/runner.py\<close>): the team of scripted agents (\<open>Sim_Agent\<close>), the application
  on the scripted planner (\<open>Sim_Llm\<close>), the registration of the team once the server runs, and the end.  A simulation that
  polls for a server that never starts is the result \<open>None\<close>.
\<close>

section \<open>A run\<close>

text \<open>\<open>_reset_db\<close> removes the database's files.\<close>

definition reset_db :: "app \<Rightarrow> app" where
  "reset_db a = a\<lparr>ap_dir := (ap_dir a)\<lparr>di_rows := []\<rparr>, ap_tasks := [], ap_server := (ap_server a)\<lparr>sv_store := [], sv_agents := []\<rparr>\<rparr>"

definition start_sim_agents :: "app_env \<Rightarrow> app_action" where
  "start_sim_agents env = app_seq (map (\<lambda>(i, name, behavior). app_try env (Start_agent i) (opens (Fake_agent name i))) (enumerate 0 SIM_AGENTS))"

definition register_team :: "app_env \<Rightarrow> app_action" where
  "register_team env = app_seq (map (\<lambda>(i, name, behavior). register_agent env i name behavior) (enumerate 0 SIM_AGENTS))"

definition stop_team :: "app_env \<Rightarrow> app_action" where
  "stop_team env = app_seq (map (\<lambda>(i, name, behavior). app_try env (Stop_agent i) (closes (Fake_agent name i))) (enumerate 0 SIM_AGENTS))"

text \<open>\<open>run\<close>: agents are started before the \<open>try\<close>; the loop waits for \<open>server.started\<close>, which a failed start never sets.  What is
  served, and the application's own end, are \<open>serve\<close>.  An exception of the clean-up replaces the one before.\<close>

definition sim_run :: "app_env \<Rightarrow> pystr \<Rightarrow> nat \<Rightarrow> pystr \<Rightarrow> bool \<Rightarrow> (app \<Rightarrow> app) \<Rightarrow> app \<Rightarrow> (exn option \<times> app) option" where
  "sim_run env host port db_path fresh serve a =
     (case start_sim_agents env (if fresh then reset_db a else a) of
        (Some e, a1) \<Rightarrow> Some (Some e, a1)
      | (None, a1) \<Rightarrow> (case lifespan_start env (build_settings host port db_path) a1 of
          (Some e, a2) \<Rightarrow> None
        | (None, a2) \<Rightarrow>
           (let (r, a3) = register_team env a2;
                a4 = (if r = None then serve a3 else a3)
            in case stop_team env a4 of
                 (Some e, a5) \<Rightarrow> Some (Some e, a5)
               | (None, a5) \<Rightarrow> Some (r, a5))))"

section \<open>What a run does\<close>

text \<open>An environment in which nothing raises and every local address is accepted as it is.\<close>

definition plain_env :: "app_env \<Rightarrow> bool" where
  "plain_env env \<longleftrightarrow> (\<forall>s. ae_fails env s = None) \<and> (\<forall>p. dc_http_url (ae_dir env) (agent_address p)
     \<and> dc_parse_url (ae_dir env) (agent_address p) = Some \<lparr>up_username = [], up_password = [], up_query = None, up_fragment = None, up_text = agent_address p\<rparr>)"

lemma team_names: "n \<in> set (map fst SIM_AGENTS) \<Longrightarrow> valid_name n \<and> str_strip n = n"
  by (auto simp: SIM_AGENTS_def valid_name_def str_strip_def is_space_def is_alnum_def py_def)

lemma team_distinct: "distinct (map fst SIM_AGENTS)"
  by (simp add: SIM_AGENTS_def py_def)

lemma team_registration:
  "plain_env env \<Longrightarrow> n \<in> set (map fst SIM_AGENTS) \<Longrightarrow> registration (ae_dir env) n (agent_address p) = Inr (n, agent_address p)"
  using team_names [of n] no_slash by (simp add: registration_def normalize_url_def plain_env_def)

lemma app_seq_tries:
  assumes "\<forall>s. ae_fails env s = None"
  shows "app_seq (map (\<lambda>x. app_try env (s x) (f x)) xs) a = (None, fold f xs a)"
  by (induction xs arbitrary: a) (simp_all add: app_then_def app_try_def assms)

lemma agents_started: "\<forall>s. ae_fails env s = None \<Longrightarrow> start_sim_agents env a
    = (None, a\<lparr>ap_open := ap_open a @ map (\<lambda>(i, n, b). Fake_agent n i) (enumerate 0 SIM_AGENTS)\<rparr>)"
proof -
  assume "\<forall>s. ae_fails env s = None"
  then have "start_sim_agents env a = (None, fold (\<lambda>x. opens (case x of (i, n, b) \<Rightarrow> Fake_agent n i)) (enumerate 0 SIM_AGENTS) a)"
    using app_seq_tries [of env "\<lambda>(i, n, b). Start_agent i" "\<lambda>x. opens (case x of (i, n, b) \<Rightarrow> Fake_agent n i)" "enumerate 0 SIM_AGENTS" a]
    by (simp add: start_sim_agents_def split_def)
  moreover have "fold (\<lambda>x. opens (f x)) xs a = a\<lparr>ap_open := ap_open a @ map f xs\<rparr>" for f :: "nat \<times> pystr \<times> pystr \<Rightarrow> resource" and xs
    by (induction xs arbitrary: a) (simp_all add: opens_def)
  ultimately show ?thesis by (simp add: split_def)
qed

lemma team_stopped: "\<forall>s. ae_fails env s = None \<Longrightarrow> stop_team env a
    = (None, a\<lparr>ap_open := filter (\<lambda>r. r \<notin> set (map (\<lambda>(i, n, b). Fake_agent n i) (enumerate 0 SIM_AGENTS))) (ap_open a)\<rparr>)"
proof -
  assume "\<forall>s. ae_fails env s = None"
  then have "stop_team env a = (None, fold (\<lambda>x. closes (case x of (i, n, b) \<Rightarrow> Fake_agent n i)) (enumerate 0 SIM_AGENTS) a)"
    using app_seq_tries [of env "\<lambda>(i, n, b). Stop_agent i" "\<lambda>x. closes (case x of (i, n, b) \<Rightarrow> Fake_agent n i)" "enumerate 0 SIM_AGENTS" a]
    by (simp add: stop_team_def split_def)
  moreover have "fold (\<lambda>x. closes (f x)) xs a = a\<lparr>ap_open := filter (\<lambda>r. r \<notin> set (map f xs)) (ap_open a)\<rparr>"
    for f :: "nat \<times> pystr \<times> pystr \<Rightarrow> resource" and xs
  proof (induction xs arbitrary: a)
    case (Cons x xs)
    have "filter (\<lambda>r. r \<notin> f ` set xs) (filter (\<lambda>r. r \<noteq> f x) (ap_open a)) = filter (\<lambda>r. r \<noteq> f x \<and> r \<notin> f ` set xs) (ap_open a)"
      by (simp add: conj_commute)
    then show ?case using Cons.IH [of "closes (f x) a"] by (simp add: closes_def)
  qed simp
  ultimately show ?thesis by (simp add: split_def)
qed

text \<open>One registration in the running application.\<close>

lemma team_register:
  assumes "plain_env env" and "(n, b) \<in> set SIM_AGENTS"
  shows "register_agent env i n b a = (if row_by_name n (ap_dir a) \<noteq> None then (Some (name_taken n), a\<lparr>ap_server := (ap_server a)\<lparr>sv_agents := di_rows (ap_dir a)\<rparr>\<rparr>)
    else (None, snd (register_agent env i n b a)))"
    and "row_by_name n (ap_dir a) = None \<Longrightarrow> map row_key (di_rows (ap_dir (snd (register_agent env i n b a))))
      = map row_key (di_rows (ap_dir a)) @ [(n, agent_address (ae_port env i), card_data (served_card (ae_dump env) b n (ae_port env i)))]"
    and "ap_open (snd (register_agent env i n b a)) = ap_open a"
proof -
  have n: "n \<in> set (map fst SIM_AGENTS)" using assms(2) by force
  note reg = team_registration [OF assms(1) n, of "ae_port env i"]
  have http: "dc_http_url (ae_dir env) (agent_address (ae_port env i))" using assms(1) by (simp add: plain_env_def)
  note card = served_card_resolves [OF reg http, of "ae_dump env" b]
  show "register_agent env i n b a = (if row_by_name n (ap_dir a) \<noteq> None then (Some (name_taken n), a\<lparr>ap_server := (ap_server a)\<lparr>sv_agents := di_rows (ap_dir a)\<rparr>\<rparr>)
    else (None, snd (register_agent env i n b a)))"
    using reg card by (simp add: register_agent_def register_run Let_def)
  show "row_by_name n (ap_dir a) = None \<Longrightarrow> map row_key (di_rows (ap_dir (snd (register_agent env i n b a))))
      = map row_key (di_rows (ap_dir a)) @ [(n, agent_address (ae_port env i), card_data (served_card (ae_dump env) b n (ae_port env i)))]"
    using reg card by (simp add: register_agent_def register_run Let_def row_key_def new_record_def with_remote_def)
  show "ap_open (snd (register_agent env i n b a)) = ap_open a"
    using register_agent_frame [of env i n b a] by (cases "register_agent env i n b a") auto
qed

definition team_rows :: "app_env \<Rightarrow> (nat \<times> pystr \<times> pystr) list \<Rightarrow> (pystr \<times> pystr \<times> json) list" where
  "team_rows env xs = map (\<lambda>(i, n, b). (n, agent_address (ae_port env i), card_data (served_card (ae_dump env) b n (ae_port env i)))) xs"

lemma register_all:
  assumes "plain_env env" and "\<forall>x \<in> set xs. snd x \<in> set SIM_AGENTS"
    and "distinct (map fst (map row_key (di_rows (ap_dir a))) @ map (fst \<circ> snd) xs)"
  shows "\<exists>a'. app_seq (map (\<lambda>(i, n, b). register_agent env i n b) xs) a = (None, a') \<and> ap_open a' = ap_open a
    \<and> map row_key (di_rows (ap_dir a')) = map row_key (di_rows (ap_dir a)) @ team_rows env xs"
  using assms(2,3)
proof (induction xs arbitrary: a)
  case (Cons x xs)
  obtain i n b where x: "x = (i, n, b)" by (cases x)
  let ?a1 = "snd (register_agent env i n b a)"
  have m: "(n, b) \<in> set SIM_AGENTS" using Cons.prems(1) x by simp
  have free: "row_by_name n (ap_dir a) = None" using Cons.prems(2) x by (auto simp: row_by_name_keys)
  have rows: "map row_key (di_rows (ap_dir ?a1)) = map row_key (di_rows (ap_dir a)) @ team_rows env [x]"
    using team_register(2) [OF assms(1) m free] by (simp add: team_rows_def x)
  then have "map fst (map row_key (di_rows (ap_dir ?a1))) = map fst (map row_key (di_rows (ap_dir a))) @ [n]"
    by (simp add: x team_rows_def del: map_map)
  then have dist: "distinct (map fst (map row_key (di_rows (ap_dir ?a1))) @ map (fst \<circ> snd) xs)"
    using Cons.prems(2) by (simp add: x comp_def del: map_map)
  have team: "\<forall>x \<in> set xs. snd x \<in> set SIM_AGENTS" using Cons.prems(1) by simp
  from Cons.IH [OF team dist] obtain a2 where a2: "app_seq (map (\<lambda>(i, n, b). register_agent env i n b) xs) ?a1 = (None, a2)" "ap_open a2 = ap_open ?a1"
    "map row_key (di_rows (ap_dir a2)) = map row_key (di_rows (ap_dir ?a1)) @ team_rows env xs" by blast
  have "register_agent env i n b a = (None, ?a1)" using team_register(1) [OF assms(1) m, of i a] free by simp
  then have "app_seq (map (\<lambda>(i, n, b). register_agent env i n b) (x # xs)) a = (None, a2)"
    using a2(1) by (simp only: list.map app_seq.simps app_then_None x prod.case) blast
  moreover have "map row_key (di_rows (ap_dir a2)) = map row_key (di_rows (ap_dir a)) @ team_rows env (x # xs)"
    unfolding a2(3) rows by (simp add: team_rows_def)
  ultimately show ?case using a2(2) team_register(3) [OF assms(1) m, of i a] by metis
qed (simp add: team_rows_def)

text \<open>The first registration that meets a row of its name ends the loop.\<close>

lemma register_first_taken:
  assumes "plain_env env" and "row_by_name (py ''product-manager'') (ap_dir a) \<noteq> None"
  shows "register_team env a = (Some (name_taken (py ''product-manager'')), a\<lparr>ap_server := (ap_server a)\<lparr>sv_agents := di_rows (ap_dir a)\<rparr>\<rparr>)"
proof -
  have "(py ''product-manager'', py ''collaborate'') \<in> set SIM_AGENTS" by (simp add: SIM_AGENTS_def)
  from team_register(1) [OF assms(1) this, of 0 a] assms(2)
  have "register_agent env 0 (py ''product-manager'') (py ''collaborate'') a
      = (Some (name_taken (py ''product-manager'')), a\<lparr>ap_server := (ap_server a)\<lparr>sv_agents := di_rows (ap_dir a)\<rparr>\<rparr>)" by simp
  then show ?thesis by (simp add: register_team_def SIM_AGENTS_def app_then_def)
qed

lemma started_rows: "lifespan_start env (build_settings host port db) a = (None, a') \<Longrightarrow> \<forall>s. ae_fails env s = None
    \<Longrightarrow> di_rows (ap_dir a') = di_rows (ap_dir a) \<and> (\<forall>r \<in> set (ap_open a'). r \<in> set (ap_open a) \<or> \<not> is_fake r)"
  by (auto simp: lifespan_start_def app_then_None sim_agents_start_def build_settings_def default_settings_def default_sim_def
      opens_def fresh_process_def dest!: recover_start_frame)

text \<open>A simulation on a fresh database that starts registers the whole team: while it serves, the registry holds exactly the seven
  agents of \<open>SIM_AGENTS\<close>, in order, each with the address it listens on and the card of its behaviour; it returns
  without an exception and every agent is stopped.\<close>

theorem fresh_simulation:
  assumes "plain_env env" and "\<And>x. ap_dir (serve x) = ap_dir x \<and> ap_open (serve x) = ap_open x"
    and "sim_run env host port db True serve a = Some (r, a')" and "ap_open a = []"
  shows "r = None \<and> map row_key (di_rows (ap_dir a')) = team_rows env (enumerate 0 SIM_AGENTS) \<and> (\<forall>x \<in> set (ap_open a'). \<not> is_fake x)"
proof -
  have calm: "\<forall>s. ae_fails env s = None" using assms(1) by (simp add: plain_env_def)
  let ?a1 = "(reset_db a)\<lparr>ap_open := ap_open (reset_db a) @ map (\<lambda>(i, n, b). Fake_agent n i) (enumerate 0 SIM_AGENTS)\<rparr>"
  obtain a2 where a2: "lifespan_start env (build_settings host port db) ?a1 = (None, a2)"
    using assms(3) agents_started [OF calm, of "reset_db a"] by (auto simp: sim_run_def split: prod.splits option.splits)
  have rows: "di_rows (ap_dir a2) = []" using started_rows [OF a2 calm] by (simp add: reset_db_def)
  have fakes: "\<forall>x \<in> set (ap_open a2). is_fake x \<longrightarrow> x \<in> set (map (\<lambda>(i, n, b). Fake_agent n i) (enumerate 0 SIM_AGENTS))"
    using started_rows [OF a2 calm] assms(4) by (auto simp: reset_db_def)
  have "map (fst \<circ> snd) (enumerate 0 SIM_AGENTS) = map fst (map snd (enumerate 0 SIM_AGENTS))" by (simp del: map_snd_enumerate)
  then have "distinct (map (fst \<circ> snd) (enumerate 0 SIM_AGENTS))" using team_distinct by simp
  moreover have "snd x \<in> set SIM_AGENTS" if "x \<in> set (enumerate 0 SIM_AGENTS)" for x
    using that by (metis image_eqI list.set_map map_snd_enumerate)
  ultimately obtain a3 where a3: "register_team env a2 = (None, a3)" "ap_open a3 = ap_open a2"
    "map row_key (di_rows (ap_dir a3)) = team_rows env (enumerate 0 SIM_AGENTS)"
    using register_all [OF assms(1), of "enumerate 0 SIM_AGENTS" a2] rows by (auto simp: register_team_def)
  have "sim_run env host port db True serve a = Some (None, (serve a3)\<lparr>ap_open := filter (\<lambda>r. r \<notin> set (map (\<lambda>(i, n, b). Fake_agent n i) (enumerate 0 SIM_AGENTS))) (ap_open (serve a3))\<rparr>)"
    by (simp add: sim_run_def agents_started [OF calm] a2 a3(1) team_stopped [OF calm] Let_def del: set_map)
  then show ?thesis using assms(2,3) a3 fakes by auto
qed

text \<open>A simulation on the database of an earlier one, which \<open>--fresh\<close> would have removed, cannot run: once its server is up the
  first registration finds its name taken, the run ends with that exception before anything is served, and the registry
  keeps the old rows, whose addresses no agent listens on any more.\<close>

theorem second_simulation_fails:
  assumes "plain_env env" and "row_by_name (py ''product-manager'') (ap_dir a) \<noteq> None" and "ap_open a = []"
    and "sim_run env host port db False serve a = Some (r, a')"
  shows "r = Some (DuplicateAgentName (py ''agent name already registered: product-manager'')) \<and> di_rows (ap_dir a') = di_rows (ap_dir a)
    \<and> (\<forall>x \<in> set (ap_open a'). \<not> is_fake x)"
proof -
  have calm: "\<forall>s. ae_fails env s = None" using assms(1) by (simp add: plain_env_def)
  let ?a1 = "a\<lparr>ap_open := ap_open a @ map (\<lambda>(i, n, b). Fake_agent n i) (enumerate 0 SIM_AGENTS)\<rparr>"
  obtain a2 where a2: "lifespan_start env (build_settings host port db) ?a1 = (None, a2)"
    using assms(4) agents_started [OF calm, of a] by (auto simp: sim_run_def split: prod.splits option.splits)
  have rows: "di_rows (ap_dir a2) = di_rows (ap_dir a)" using started_rows [OF a2 calm] by simp
  then have "row_by_name (py ''product-manager'') (ap_dir a2) \<noteq> None" using assms(2) by (simp add: row_by_name_def)
  note reg = register_first_taken [OF assms(1) this]
  have fakes: "\<forall>x \<in> set (ap_open a2). is_fake x \<longrightarrow> x \<in> set (map (\<lambda>(i, n, b). Fake_agent n i) (enumerate 0 SIM_AGENTS))"
    using started_rows [OF a2 calm] assms(3) by auto
  have msg: "name_taken (py ''product-manager'') = DuplicateAgentName (py ''agent name already registered: product-manager'')"
    by (simp add: name_taken_def py_def)
  show ?thesis using assms(4) fakes
    by (auto simp: sim_run_def agents_started [OF calm] a2 reg team_stopped [OF calm] msg rows simp del: set_map)
qed

section \<open>Witnesses\<close>

lemma calm_plain: "plain_env calm_env"
  by (simp add: plain_env_def calm_env_def demo_config_def)

lemma empty_tasks [simp]: "ap_tasks empty_app = []" "ap_open empty_app = []"
  by (simp_all add: empty_app_def)

lemma calm_simulation: "ap_tasks a = [] \<Longrightarrow> \<exists>r a'. sim_run calm_env host port db fresh serve a = Some (r, a')"
proof -
  assume t: "ap_tasks a = []"
  have start: "\<exists>a2. lifespan_start calm_env (build_settings host port db) a1 = (None, a2)" if "ap_tasks a1 = []" for a1
    using that by (simp add: lifespan_start_def app_then_def app_try_def sim_agents_start_def build_settings_def default_settings_def default_sim_def
        recover_start_def recover_tasks_def iter_all_tasks_def opens_def fresh_process_def split: prod.split option.split)
  have calm: "\<forall>s. ae_fails calm_env s = None" by simp
  let ?a0 = "if fresh then reset_db a else a"
  let ?a1 = "?a0\<lparr>ap_open := ap_open ?a0 @ map (\<lambda>(i, n, b). Fake_agent n i) (enumerate 0 SIM_AGENTS)\<rparr>"
  have "ap_tasks ?a1 = []" using t by (simp add: reset_db_def)
  then obtain a2 where "lifespan_start calm_env (build_settings host port db) ?a1 = (None, a2)" using start by blast
  then show ?thesis by (simp add: sim_run_def agents_started [OF calm] team_stopped [OF calm] Let_def split: prod.split)
qed

theorem fresh_simulation_witness:
  "\<exists>a'. sim_run calm_env (py ''h'') 1 (py ''d'') True (\<lambda>x. x) empty_app = Some (None, a') \<and> length (di_rows (ap_dir a')) = 7"
proof -
  obtain r a' where run: "sim_run calm_env (py ''h'') 1 (py ''d'') True (\<lambda>x. x) empty_app = Some (r, a')"
    using calm_simulation [OF empty_tasks(1)] by blast
  have "ap_open empty_app = []" by (simp add: empty_app_def)
  from fresh_simulation [OF calm_plain _ run this]
  have f: "r = None" "map row_key (di_rows (ap_dir a')) = team_rows calm_env (enumerate 0 SIM_AGENTS)" by simp_all
  have "length (di_rows (ap_dir a')) = length (team_rows calm_env (enumerate 0 SIM_AGENTS))" using f(2) by (metis length_map)
  then have "length (di_rows (ap_dir a')) = 7" by (simp add: team_rows_def SIM_AGENTS_def)
  then show ?thesis using run f(1) by blast
qed

text \<open>The database of an earlier simulation.\<close>

theorem second_simulation_fails_witness:
  "\<exists>a a'. sim_run calm_env (py ''h'') 1 (py ''d'') True (\<lambda>x. x) empty_app = Some (None, a)
     \<and> sim_run calm_env (py ''h'') 1 (py ''d'') False (\<lambda>x. x) (a\<lparr>ap_open := [], ap_tasks := []\<rparr>)
         = Some (Some (DuplicateAgentName (py ''agent name already registered: product-manager'')), a')"
proof -
  obtain r a where run: "sim_run calm_env (py ''h'') 1 (py ''d'') True (\<lambda>x. x) empty_app = Some (r, a)"
    using calm_simulation [OF empty_tasks(1)] by blast
  have 0: "(\<And>x :: app. ap_dir x = ap_dir x \<and> ap_open x = ap_open x)" by simp
  from fresh_simulation [OF calm_plain 0 run] have f: "r = None" "map row_key (di_rows (ap_dir a)) = team_rows calm_env (enumerate 0 SIM_AGENTS)"
    by simp_all
  let ?a = "a\<lparr>ap_open := [], ap_tasks := []\<rparr>"
  have "py ''product-manager'' \<in> fst ` set (team_rows calm_env (enumerate 0 SIM_AGENTS))" by (simp add: team_rows_def SIM_AGENTS_def)
  then have "py ''product-manager'' \<in> fst ` set (map row_key (di_rows (ap_dir ?a)))" unfolding f(2) [symmetric] by simp
  then have taken: "row_by_name (py ''product-manager'') (ap_dir ?a) \<noteq> None" using row_by_name_keys by blast
  obtain r2 a2 where run2: "sim_run calm_env (py ''h'') 1 (py ''d'') False (\<lambda>x. x) ?a = Some (r2, a2)"
    using calm_simulation [of ?a] by (simp del: One_nat_def) blast
  from second_simulation_fails [OF calm_plain taken _ run2] have "r2 = Some (DuplicateAgentName (py ''agent name already registered: product-manager''))" by simp
  then show ?thesis using run run2 f(1) by blast
qed

end
