(* ===== verification/Spec2Isabelle.thy ===== *)
theory Spec2Isabelle
  imports Session Orchestrator Replay Remote_Agent Llm_Node Sessions Replay_Api Decision_Agent Lite_Llm Agent_Executor Node_Life Agent_Directory Conversations Remote_Card Planner_Node Sim_Agent Server Database
  Agent_Tree Agent_Nodes App New_App Sim_Runner
begin

text \<open>
  Verification development of choirworks, a server where an orchestrator decomposes a user's goal into a plan (a DAG
  of nodes), sends each node to a remote agent over A2A and reacts to what comes back.  The repository holds two
  generations of the program under \<open>src/src/\<close>: \<open>choirworks\<close>, the running server, and \<open>new_choirworks\<close>, its
  successor built on a workflow graph.  Both are modelled; they share the plan and its validation.

  Representation.  Python strings are lists of code points (\<open>pystr\<close>), dicts are association lists in insertion order
  (\<open>dict\<close>, with the laws of the locale \<open>py_dict\<close>), unbounded ints are \<open>int\<close>, dataclasses are records, enums are
  datatypes, and an operation that can raise returns \<open>exn + 'a\<close>, \<open>Inl\<close> being the exception.  JSON values are the
  datatype \<open>json\<close>.  Mutated shared state is passed and returned.  The loops inside an operation are total
  recursive functions (structural, or with a measure), without fuel, so that it returns is part of its definition.
  The \<open>while True\<close> loops around an await are step relations whose steps are the events waited for; whether such a
  loop ends is a theorem (\<open>workflow_without_routes_ends\<close>) or not claimed.  Three functions take a number of rounds:
  \<open>llm_loop\<close> and with it \<open>run_planner\<close> the number of model calls (\<open>llm_loop_ends\<close> says which is enough), \<open>run_op\<close> the
  steps of a call of the registry (four are enough, \<open>run_op_ends\<close>), \<open>go_on\<close> the steps of an undisturbed transaction
  (\<open>transaction_ends\<close>).

  Interfaces.  \<open>py_dict\<close> (dicts), \<open>state_invariant\<close> (what an invariant of a conversation has to keep),
  \<open>call_assembler\<close> (tool calls from streamed fragments), \<open>transition_system\<close> and its extension \<open>simulation\<close> (step relations
  with an invariant, and with an abstract machine).  Each is interpreted on the definitions of the code it is about.

  \<^bold>\<open>The server, \<open>choirworks\<close>\<close>

    \<^item> \<open>State\<close>, \<open>Snapshot\<close> (\<open>orchestration/state.py\<close>): nodes, members, interventions, the queue, the queries over
      them, and the JSON snapshot stored with every task.  Round trip of the snapshot, damaged snapshots, exact
      culprits of nodes that are not ready, exact answer of the assist chain.
    \<^item> \<open>Transitions\<close> (\<open>orchestration/transitions.py\<close>): the status machine.  Final statuses are absorbing and every
      status can still reach one.
    \<^item> \<open>Plan_Check\<close> (\<open>core/planner.py\<close>, \<open>new_choirworks/orchestrator/plan.py\<close>): validation with Kahn's algorithm accepts
      exactly the plans with valid fields and an acyclic dependency relation.
    \<^item> \<open>Patch\<close> (\<open>orchestration/planning/patch.py\<close>, \<open>repair.py\<close>): incremental revision.  The invalidated nodes are the
      least set closed under the cascade, valid plans stay valid, running and finished work is kept.
    \<^item> \<open>Flow_Engine\<close> (\<open>orchestration/flows/engine.py\<close>) and the four flows on it: \<open>Outcome\<close>, \<open>Settlement\<close>, \<open>Plan_Flow\<close>,
      \<open>Message_Flow\<close>.  The engine accepts a flow exactly when it is well formed; the plan is announced as completed
      only when it is.
    \<^item> \<open>Context\<close>, \<open>Hitl\<close>, \<open>Fencing\<close>, \<open>Tools\<close>, \<open>Planner\<close>: the turn context with its event log, questions to the user,
      prompts from untrusted text, the tools of the orchestrator, one planning call.
    \<^item> \<open>Runner\<close>, \<open>Remote\<close> (\<open>orchestration/execution/\<close>): the scheduler's rounds and one node's remote task.
    \<^item> \<open>History\<close>, \<open>Recovery\<close> (\<open>orchestration/history.py\<close>, \<open>rewind.py\<close>, \<open>a2a/recovery.py\<close>, \<open>a2a/tasks.py\<close>): the
      history rebuilt from artifacts is the live one, the visible tasks are the chronology, rewind restores the
      checkpoint, recovery reattaches every node once.
    \<^item> \<open>Replay_Api\<close>, \<open>Conversations\<close> (\<open>api/replay.py\<close>, \<open>api/conversations.py\<close>, \<open>store/contexts.py\<close>): the replay for a
      client that joins late, where questions come before their answers; the table of contexts and the endpoints that
      create, list and show conversations, with the listing equal to its reference.
    \<^item> \<open>Llm_Stream\<close>, \<open>Decision_Agent\<close> (\<open>core/llm.py\<close>, \<open>core/agents/llm_agent.py\<close>, \<open>core/agents/base.py\<close>, \<open>subagents/\<close>):
      the model client, whose streamed calls are assembled in order; the decision of a sub-agent, which is the first
      usable attempt; the three agents of the flows.  \<open>Agent_Tree\<close> (\<open>core/agents/base.py\<close>, \<open>core/runner.py\<close>): agents as
      objects that adopt their sub-agents, which form a forest, and the driver of a root agent.
    \<^item> \<open>Agent_Directory\<close> (\<open>orchestration/registry.py\<close>, \<open>a2a/client.py\<close>, \<open>api/agents.py\<close>): the registry with any number of
      calls interleaved at their database and network accesses; names stay unique, a deleted agent stays deleted.
    \<^item> \<open>Invariants\<close>, \<open>Invariant_Tools\<close>, \<open>Session\<close>: the locale \<open>state_invariant\<close> states what an invariant of the session has to
      keep for the primitive updates, and proves it for every tool, flow, message and scheduler round.  It is
      interpreted for three invariants (well-formed references, one open question per node, the node budget), which
      therefore hold in every reachable session and in its stored row (\<open>session_place\<close>).
    \<^item> \<open>Server\<close> (\<open>orchestration/session.py\<close>, \<open>a2a/executor.py\<close>): all conversations of one process, their steps
      interleaved over one registry, one store and one event queue.  The invariants hold in every conversation, live or
      stored, and a step of one conversation leaves the others alone.
    \<^item> \<open>Database\<close> (\<open>store/db.py\<close>): transactions of concurrent coroutines on one connection, with busy, cancelled and failing
      statements; they refine an abstract machine in which a transaction is one step.
    \<^item> \<open>App\<close> (\<open>config.py\<close>, \<open>api/app.py\<close>, \<open>a2a/card.py\<close>): settings, card, and the lifespan with everything it opens and
      closes; conversations survive restarts.
    \<^item> \<open>Sim_Llm\<close>, \<open>Sim_Agent\<close>, \<open>Sim_Runner\<close> (\<open>sim/\<close>): the scripted planner, whose plans are accepted; the scripted
      agents, whose client ends with the text they give; a run of the simulation.

  \<^bold>\<open>The successor, \<open>new_choirworks\<close>\<close>

    \<^item> \<open>Wf_Graph\<close> (\<open>core/workflow/graph.py\<close>, \<open>utils/graph_validation.py\<close>): edges, routing, and the validation of a graph,
      which accepts exactly the graphs of \<open>graph_ok\<close> (unique names, everything reachable from START, no duplicate or
      mixed default routes, no cycle of unconditional edges).
    \<^item> \<open>Workflow\<close> (\<open>core/workflow/workflow.py\<close> and its small siblings): the loop that triggers, starts and collects
      nodes, as the relation \<open>wf_at\<close> between the points where it waits.  Invariant of the loop, its end, its errors, and
      termination for graphs without routes.
    \<^item> \<open>Node_Path\<close>, \<open>Wf_Event\<close>, \<open>Replay\<close> (\<open>core/events/\<close>, \<open>core/workflow/node_runner.py\<close>, \<open>core/workflow/utils/\<close>): paths
      of nodes, events with their metadata view, and what resuming a run reads out of recorded events: the state of
      each run, the order in which runs ended, the barrier that replays them in that order.
    \<^item> \<open>Contents\<close>, \<open>Llm_Node\<close>, \<open>Sessions\<close> (\<open>core/flows/\<close>, \<open>core/agents/llm_agent.py\<close>, \<open>core/workflow/llm_agent_wrapper.py\<close>,
      \<open>core/sessions/\<close>): what an agent sees of the conversation, with other agents only quoted; the tool loop of a
      language model agent, which answers every call and ends; a session rebuilt from the store is the live one.
    \<^item> \<open>Remote_Agent\<close> (\<open>core/a2a/agent/remote_a2a_agent.py\<close>, \<open>run_remote_node\<close>): the events and the result of a node's
      remote task.  Its result is what \<open>Dag_Executor\<close> receives as a finished task.  \<open>Remote_Card\<close>: how the agent gets its
      client, from the address to the checked card, and what it closes.
    \<^item> \<open>Lite_Llm\<close> (\<open>core/models/lite_llm.py\<close>, \<open>core/utils/schema_utils.py\<close>): the model client, and the strict form of a schema.
    \<^item> \<open>Agent_Executor\<close> (\<open>a2a/executor.py\<close>): executions and cancellations of one agent, interleaved.  What a run
      publishes is a prefix of what the agent yields; a cancelled run is silent.
    \<^item> \<open>Agent_Nodes\<close>, \<open>New_App\<close> (\<open>core/agents/base_agent.py\<close>, \<open>core/workflow/join_node.py\<close>, \<open>config.py\<close>, \<open>a2a/card.py\<close>,
      \<open>app/server.py\<close>): agents as nodes, joining and final nodes, the server's settings and lifespan.
    \<^item> \<open>Dag_Runtime\<close>, \<open>Dag_Executor\<close>, \<open>Orchestrator\<close> (\<open>orchestrator/\<close>): the plan under execution, its diff against
      a replan, output references, assistance; the executor and helper nodes; and the whole run as the relation
      \<open>orch_step\<close> over the workflow graph.  The runtime invariant, the executor never stalls, done means finished, and
      the only failures.  \<open>orchestrator_single_token\<close> ties the relation to \<open>Workflow\<close>: on the orchestrator's graph the
      general loop always has exactly one node to run.  \<open>Node_Life\<close> states what a client sees of the nodes as an
      abstract machine, which the orchestrator refines; \<open>Planner_Node\<close> (\<open>orchestrator/planner.py\<close>) is the node that
      makes the plans, which conform to the schema of the agents it was given.

  Parameters.  The language models, the remote agents, the token counter, the clock and fresh ids, the pydantic
  validation of answers and the registered agents are arguments of the definitions that use them.

  Bounds.  \<open>MAX_PLAN_NODES\<close>, \<open>MAX_ASSIST_DEPTH\<close>, the node budget, the concurrency limits and the text limits are
  those of the code; example runs stay small because they are evaluated by the kernel.

  Not modelled.  FastAPI's routes and dependency getters, the command line, logging and the uvicorn servers (pure
  input and output); SQLite, litellm, protobuf and the A2A SDK (libraries the sources call: parameters, or the
  documented behaviour named where it is used); the asyncio scheduler itself, of which the relations take every
  interleaving at the awaits they name.  In \<open>Session\<close> and \<open>Server\<close> a handler runs as one step, and a handler that raises
  is no step of the relation; its exception is a value of the handler's own definition.
\<close>

end
